(* ===== verification/Canal_Prelude.thy ===== *)
theory Canal_Prelude
  imports Complex_Main "HOL-Library.AList" "HOL-Library.Char_ord" "HOL-Library.List_Lexorder"
begin

text \<open>
  Shared vocabulary of the development.

  Go values are represented as follows. A \<^verbatim>\<open>[]byte\<close> and a \<^verbatim>\<open>string\<close> are both
  lists of \<^typ>\<open>char\<close> (a char is one byte), so the conversions between them are the
  identity; a slice whose nil-ness the code tests is an option. A \<^verbatim>\<open>time.Time\<close> and a
  \<^verbatim>\<open>time.Duration\<close> are integers counting nanoseconds, a time being counted from Go's zero
  time, so that \<^verbatim>\<open>IsZero\<close> is equality with \<open>0\<close>. A Go map that the code iterates over is an
  association list with distinct keys, read with \<^const>\<open>map_of\<close>; its list order stands for one
  iteration order of the map.
  Unsigned 32-bit reference counts wrap, which \<open>u32_add\<close> writes out; 64-bit record counters,
  sequence numbers and epochs are naturals (each is incremented by at most a batch length, so
  reaching \<open>2 ^ 64\<close> is out of reach of any run).
\<close>

section \<open>Types shared by the components\<close>

type_synonym bytes = "char list"
type_synonym time = int
type_synonym duration = int

type_synonym tenant_id = string
type_synonym pipeline_id = string
type_synonym node_id = string
type_synonym stream_name = string
type_synonym lane_id = string
type_synonym lane_group = string
type_synonym group_id = nat
type_synonym record_id = nat
type_synonym worker_id = string
type_synonym assignment_id = string

definition time_is_zero :: "time \<Rightarrow> bool" where
  "time_is_zero t \<longleftrightarrow> t = 0"

definition u32_add :: "nat \<Rightarrow> nat \<Rightarrow> nat" where
  "u32_add a b = (a + b) mod 2 ^ 32"

definition millisecond :: duration where
  "millisecond = 1000000"

definition second :: duration where
  "second = 1000 * millisecond"

section \<open>Lemma collections\<close>

named_theorems amap_simps \<open>reading an association-list map after an update\<close>
named_theorems inv_simps \<open>how an operation acts on the parts of a state an invariant reads\<close>

section \<open>Association lists as Go maps\<close>

abbreviation (input) aput :: "'k \<Rightarrow> 'v \<Rightarrow> ('k \<times> 'v) list \<Rightarrow> ('k \<times> 'v) list" where
  "aput \<equiv> AList.update"

abbreviation (input) adel :: "'k \<Rightarrow> ('k \<times> 'v) list \<Rightarrow> ('k \<times> 'v) list" where
  "adel \<equiv> AList.delete"

definition amap :: "('k \<Rightarrow> 'v \<Rightarrow> 'v) \<Rightarrow> ('k \<times> 'v) list \<Rightarrow> ('k \<times> 'v) list" where
  "amap f m = map (\<lambda>(k, v). (k, f k v)) m"

definition wf_amap :: "('k \<times> 'v) list \<Rightarrow> bool" where
  "wf_amap m \<longleftrightarrow> distinct (map fst m)"

lemma map_of_aput [simp, amap_simps]:
  "map_of (AList.update k v m) = (map_of m)(k \<mapsto> v)"
  by (simp add: update_conv')

lemma map_of_adel [simp, amap_simps]:
  "map_of (AList.delete k m) = (map_of m)(k := None)"
  by (simp add: delete_conv')

lemma map_of_amap [simp, amap_simps]:
  "map_of (amap f m) k = map_option (f k) (map_of m k)"
  by (induction m) (auto simp: amap_def)

lemma keys_amap [simp]: "map fst (amap f m) = map fst m"
  by (simp add: amap_def case_prod_unfold comp_def)

lemma wf_amap_Nil [simp]: "wf_amap []"
  by (simp add: wf_amap_def)

lemma wf_amap_aput [simp]: "wf_amap m \<Longrightarrow> wf_amap (AList.update k v m)"
  by (simp add: wf_amap_def distinct_update)

lemma wf_amap_adel [simp]: "wf_amap m \<Longrightarrow> wf_amap (AList.delete k m)"
  by (simp add: wf_amap_def distinct_delete)

lemma wf_amap_amap [simp]: "wf_amap (amap f m) = wf_amap m"
  by (simp add: wf_amap_def)

lemma wf_amap_mem: "wf_amap m \<Longrightarrow> (k, v) \<in> set m \<longleftrightarrow> map_of m k = Some v"
  by (simp add: wf_amap_def)

lemma wf_amap_filter [simp]: "wf_amap m \<Longrightarrow> wf_amap (filter P m)"
  by (simp add: wf_amap_def distinct_map_filter)

lemma map_of_filter_amap [amap_simps]:
  "wf_amap m \<Longrightarrow> map_of (filter P m) k = Some v \<longleftrightarrow> map_of m k = Some v \<and> P (k, v)"
  by (simp flip: wf_amap_mem)

section \<open>Results that carry an error\<close>

text \<open>A Go function returning \<open>(T, error)\<close> yields \<open>Inl e\<close> or \<open>Inr v\<close>.\<close>

definition bind_result :: "'e + 'a \<Rightarrow> ('a \<Rightarrow> 'e + 'b) \<Rightarrow> 'e + 'b" where
  "bind_result r f = (case r of Inl e \<Rightarrow> Inl e | Inr v \<Rightarrow> f v)"

lemma bind_result_simps [simp]:
  "bind_result (Inl e) f = Inl e"
  "bind_result (Inr v) f = f v"
  by (simp_all add: bind_result_def)

lemma bind_result_Inr_iff:
  "bind_result r f = Inr b \<longleftrightarrow> (\<exists>a. r = Inr a \<and> f a = Inr b)"
  by (cases r) simp_all

section \<open>Lists\<close>

lemma takeWhile_eq_Nil_iff': "takeWhile P xs = [] \<longleftrightarrow> (xs = [] \<or> \<not> P (hd xs))"
  by (cases xs) simp_all

lemma hd_dropWhile_false: "dropWhile P xs \<noteq> [] \<Longrightarrow> \<not> P (hd (dropWhile P xs))"
  by (simp add: hd_dropWhile)

end
