(* ===== verification/Canal_Keys.thy ===== *)
theory Canal_Keys
  imports Canal_Prelude
begin

text \<open>
  Identity strings: \<^verbatim>\<open>record.DeriveLaneID\<close> (\<^verbatim>\<open>pkg/record/ids.go\<close>), \<^verbatim>\<open>store.Key\<close> with its
  rendering and its constructors (\<^verbatim>\<open>pkg/store/key.go\<close>) and \<^verbatim>\<open>store.AssignmentIDFor\<close>
  (\<^verbatim>\<open>pkg/store/coordinator.go\<close>). All three join percent-escaped components with a slash; the
  locale \<open>path_encoding\<close> states what that needs of the escaping and proves the joined string
  injective once, for every caller.
\<close>

section \<open>Joining escaped components\<close>

fun join :: "'b \<Rightarrow> 'b list list \<Rightarrow> 'b list" where
  "join sep [] = []"
| "join sep [p] = p"
| "join sep (p # q # ps) = p @ sep # join sep (q # ps)"

lemma join_Cons: "ps \<noteq> [] \<Longrightarrow> join sep (p # ps) = p @ sep # join sep ps"
  by (cases ps) simp_all

lemma sep_free_append_cancel:
  assumes "sep \<notin> set p" and "sep \<notin> set q" and "p @ sep # xs = q @ sep # ys"
  shows "p = q \<and> xs = ys"
proof -
  have "takeWhile (\<lambda>c. c \<noteq> sep) (p @ sep # xs) = p"
    by (subst takeWhile_append2) (use assms(1) in auto)
  moreover have "takeWhile (\<lambda>c. c \<noteq> sep) (q @ sep # ys) = q"
    by (subst takeWhile_append2) (use assms(2) in auto)
  ultimately have "p = q" using assms(3) by simp
  with assms(3) show ?thesis by simp
qed

lemma sep_free_append_neq: "sep \<notin> set p \<Longrightarrow> p \<noteq> q @ sep # ys"
  by auto

lemma join_inj:
  assumes "\<forall>p \<in> set ps. sep \<notin> set p" and "\<forall>q \<in> set qs. sep \<notin> set q"
    and "ps \<noteq> []" and "qs \<noteq> []" and "join sep ps = join sep qs"
  shows "ps = qs"
  using assms
proof (induction sep ps arbitrary: qs rule: join.induct)
  case (2 sep p)
  then show ?case by (cases "(sep, qs)" rule: join.cases) auto
next
  case (3 sep p p' ps)
  then obtain q q' qs' where qs: "qs = q # q' # qs'"
    by (cases "(sep, qs)" rule: join.cases) (auto dest: sep_free_append_neq)
  with "3.prems" have "p = q \<and> join sep (p' # ps) = join sep (q' # qs')"
    by (intro sep_free_append_cancel [where sep = sep]) auto
  with "3.IH" [of "q' # qs'"] "3.prems" qs show ?case by auto
qed simp

lemma join_has_sep: "2 \<le> length ps \<Longrightarrow> sep \<in> set (join sep ps)"
  by (cases "(sep, ps)" rule: join.cases) auto

locale path_encoding =
  fixes esc :: "'a \<Rightarrow> 'b list" and sep :: 'b
  assumes esc_inj: "esc x = esc y \<Longrightarrow> x = y"
    and esc_sep_free: "sep \<notin> set (esc x)"
begin

lemma inj_esc: "inj esc"
  by (rule injI) (rule esc_inj)

lemma path_inj:
  assumes "xs \<noteq> []" and "ys \<noteq> []"
    and "join sep (map esc xs) = join sep (map esc ys)"
  shows "xs = ys"
proof -
  have "map esc xs = map esc ys"
    by (rule join_inj [OF _ _ _ _ assms(3)]) (auto simp: esc_sep_free assms(1,2))
  then show ?thesis
    using inj_esc by (simp add: inj_map_eq_map)
qed

end

section \<open>Percent escaping\<close>

text \<open>\<^verbatim>\<open>strings.NewReplacer("%", "%25", "/", "%2F").Replace\<close>, one pass over the bytes.\<close>

fun escape_char :: "char \<Rightarrow> string" where
  "escape_char c = (if c = CHR ''%'' then ''%25'' else if c = CHR ''/'' then ''%2F'' else [c])"

definition replacer :: "string \<Rightarrow> string" where
  "replacer s = concat (map escape_char s)"

definition escapeKeyPart :: "string \<Rightarrow> string" where
  "escapeKeyPart s =
     (if \<not> (CHR ''%'' \<in> set s \<or> CHR ''/'' \<in> set s) then s else replacer s)"

lemma replacer_simps [simp]:
  "replacer [] = []"
  "replacer (c # cs) = escape_char c @ replacer cs"
  by (simp_all add: replacer_def)

lemma replacer_no_slash: "CHR ''/'' \<notin> set (replacer s)"
  by (induction s) auto

lemma replacer_id: "CHR ''%'' \<notin> set s \<Longrightarrow> CHR ''/'' \<notin> set s \<Longrightarrow> replacer s = s"
  by (induction s) auto

lemma escapeKeyPart_eq_replacer: "escapeKeyPart = replacer"
  by (rule ext) (simp add: escapeKeyPart_def replacer_id)

fun unescape :: "string \<Rightarrow> string" where
  "unescape (c1 # c2 # c3 # cs) =
     (if c1 = CHR ''%'' then
        (if c2 = CHR ''2'' \<and> c3 = CHR ''5'' then CHR ''%'' # unescape cs
         else CHR ''/'' # unescape cs)
      else c1 # unescape (c2 # c3 # cs))"
| "unescape (c # cs) = c # unescape cs"
| "unescape [] = []"

lemma unescape_plain: "c \<noteq> CHR ''%'' \<Longrightarrow> unescape (c # cs) = c # unescape cs"
  by (cases cs rule: unescape.cases) auto

lemma unescape_replacer [simp]: "unescape (replacer s) = s"
  by (induction s) (auto simp: unescape_plain)

lemma replacer_inj: "replacer x = replacer y \<Longrightarrow> x = y"
  by (metis unescape_replacer)

interpretation slash: path_encoding replacer "CHR ''/''"
  by unfold_locales (auto dest: replacer_inj simp: replacer_no_slash)

section \<open>Lane identity\<close>

definition DeriveLaneID :: "tenant_id \<Rightarrow> pipeline_id \<Rightarrow> node_id \<Rightarrow> string \<Rightarrow> lane_id" where
  "DeriveLaneID t p n name = join (CHR ''/'') (map replacer [t, p, n, name])"

section \<open>Store keys\<close>

record store_key =
  key_Tenant :: tenant_id
  key_Space :: string
  key_Parts :: "string list"

definition SpaceLane :: string where "SpaceLane = ''lane''"
definition SpaceCheckpoint :: string where "SpaceCheckpoint = ''checkpoint''"
definition SpaceSchema :: string where "SpaceSchema = ''schema''"
definition SpaceDedupe :: string where "SpaceDedupe = ''dedupe''"
definition SpaceConnector :: string where "SpaceConnector = ''connector''"

definition key_String :: "store_key \<Rightarrow> string" where
  "key_String k = escapeKeyPart (key_Tenant k) @ CHR ''/'' # escapeKeyPart (key_Space k) @
     concat (map (\<lambda>p. CHR ''/'' # escapeKeyPart p) (key_Parts k))"

fun parts_prefix :: "string list \<Rightarrow> string list \<Rightarrow> bool" where
  "parts_prefix [] ks = True"
| "parts_prefix (p # ps) [] = False"
| "parts_prefix (p # ps) (k # ks) = (k = p \<and> parts_prefix ps ks)"

definition key_Prefix :: "store_key \<Rightarrow> store_key \<Rightarrow> bool" where
  "key_Prefix k p =
     (if key_Tenant k \<noteq> key_Tenant p \<or> key_Space k \<noteq> key_Space p
         \<or> length (key_Parts p) > length (key_Parts k) then False
      else parts_prefix (key_Parts p) (key_Parts k))"

definition LaneKey :: "tenant_id \<Rightarrow> pipeline_id \<Rightarrow> lane_id \<Rightarrow> store_key" where
  "LaneKey t p lane = \<lparr>key_Tenant = t, key_Space = SpaceLane, key_Parts = [p, lane]\<rparr>"

definition CheckpointKey :: "tenant_id \<Rightarrow> pipeline_id \<Rightarrow> store_key" where
  "CheckpointKey t p = \<lparr>key_Tenant = t, key_Space = SpaceCheckpoint, key_Parts = [p]\<rparr>"

definition SchemaKey :: "tenant_id \<Rightarrow> pipeline_id \<Rightarrow> string \<Rightarrow> store_key" where
  "SchemaKey t p fingerprint =
     \<lparr>key_Tenant = t, key_Space = SpaceSchema, key_Parts = [p, fingerprint]\<rparr>"

definition DedupeKey ::
  "tenant_id \<Rightarrow> pipeline_id \<Rightarrow> node_id \<Rightarrow> stream_name \<Rightarrow> string \<Rightarrow> string \<Rightarrow> store_key" where
  "DedupeKey t p node stream layer identity =
     \<lparr>key_Tenant = t, key_Space = SpaceDedupe, key_Parts = [p, node, stream, layer, identity]\<rparr>"

definition ConnectorKey :: "tenant_id \<Rightarrow> pipeline_id \<Rightarrow> node_id \<Rightarrow> lane_id \<Rightarrow> store_key" where
  "ConnectorKey t p node lane =
     \<lparr>key_Tenant = t, key_Space = SpaceConnector, key_Parts = [p, node, lane]\<rparr>"

definition ConnectorNodeKey :: "tenant_id \<Rightarrow> pipeline_id \<Rightarrow> node_id \<Rightarrow> store_key" where
  "ConnectorNodeKey t p node =
     \<lparr>key_Tenant = t, key_Space = SpaceConnector, key_Parts = [p, node, ''@node'']\<rparr>"

section \<open>Assignment identity\<close>

text \<open>\<^verbatim>\<open>strconv.FormatUint(gen, 10)\<close>.\<close>

definition digit_char :: "nat \<Rightarrow> char" where
  "digit_char d = char_of (48 + d)"

fun FormatUint :: "nat \<Rightarrow> string" where
  "FormatUint n =
     (if n < 10 then [digit_char n] else FormatUint (n div 10) @ [digit_char (n mod 10)])"

declare FormatUint.simps [simp del]

definition AssignmentIDFor ::
  "tenant_id \<Rightarrow> pipeline_id \<Rightarrow> nat \<Rightarrow> lane_id \<Rightarrow> assignment_id" where
  "AssignmentIDFor t p gen lane =
     replacer t @ ''/'' @ replacer p @ ''/'' @ FormatUint gen @ ''/'' @ replacer lane"

section \<open>The renderings are injective\<close>

lemma join_map_concat:
  "join sep (map f (x # xs)) = f x @ concat (map (\<lambda>p. sep # f p) xs)"
  by (induction xs arbitrary: x) simp_all

lemma key_String_join:
  "key_String k =
     join (CHR ''/'') (map replacer (key_Tenant k # key_Space k # key_Parts k))"
  unfolding key_String_def escapeKeyPart_eq_replacer join_map_concat by simp

lemma key_String_eq_iff [simp]: "key_String j = key_String k \<longleftrightarrow> j = k"
proof
  assume eq: "key_String j = key_String k"
  have "key_Tenant j # key_Space j # key_Parts j = key_Tenant k # key_Space k # key_Parts k"
    by (rule slash.path_inj) (use eq in \<open>simp_all add: key_String_join\<close>)
  then show "j = k" by simp
qed simp

lemma DeriveLaneID_eq_iff:
  "DeriveLaneID t p n name = DeriveLaneID t' p' n' name' \<longleftrightarrow>
     t = t' \<and> p = p' \<and> n = n' \<and> name = name'"
proof
  assume "DeriveLaneID t p n name = DeriveLaneID t' p' n' name'"
  then have "[t, p, n, name] = [t', p', n', name']"
    unfolding DeriveLaneID_def by (intro slash.path_inj) simp_all
  then show "t = t' \<and> p = p' \<and> n = n' \<and> name = name'" by simp
qed simp

lemma of_char_digit_char: "d < 10 \<Longrightarrow> of_char (digit_char d) = (48 + d :: nat)"
  by (simp add: digit_char_def take_bit_eq_mod)

lemma digit_char_inj: "a < 10 \<Longrightarrow> b < 10 \<Longrightarrow> digit_char a = digit_char b \<Longrightarrow> a = b"
  by (metis of_char_digit_char add_left_cancel)

lemma digit_char_plain:
  assumes "d < 10" shows "digit_char d \<noteq> CHR ''/'' \<and> digit_char d \<noteq> CHR ''%''"
proof -
  have "of_char (digit_char d) \<noteq> (of_char CHR ''/'' :: nat)"
    and "of_char (digit_char d) \<noteq> (of_char CHR ''%'' :: nat)"
    by (simp_all add: of_char_digit_char [OF assms])
  then show ?thesis by metis
qed

lemma FormatUint_chars: "c \<in> set (FormatUint n) \<Longrightarrow> c \<noteq> CHR ''/'' \<and> c \<noteq> CHR ''%''"
proof (induction n rule: FormatUint.induct)
  case (1 n)
  show ?case
  proof (cases "n < 10")
    case True
    with "1.prems" show ?thesis
      by (simp add: FormatUint.simps [of n] digit_char_plain)
  next
    case False
    with 1 show ?thesis
      by (auto simp: FormatUint.simps [of n] digit_char_plain)
  qed
qed

lemma FormatUint_nonempty: "FormatUint n \<noteq> []"
  by (subst FormatUint.simps) simp

lemma FormatUint_inj: "FormatUint m = FormatUint n \<Longrightarrow> m = n"
proof (induction m arbitrary: n rule: FormatUint.induct)
  case (1 m)
  consider "m < 10" "n < 10" | "\<not> m < 10" "\<not> n < 10" | "(m < 10) \<noteq> (n < 10)" by blast
  then show ?case
  proof cases
    case 1
    with "1.prems" show ?thesis
      by (simp add: FormatUint.simps [of m] FormatUint.simps [of n] digit_char_inj)
  next
    case 2
    with "1.prems" have eq: "FormatUint (m div 10) = FormatUint (n div 10)"
      and dig: "digit_char (m mod 10) = digit_char (n mod 10)"
      by (simp_all add: FormatUint.simps [of m] FormatUint.simps [of n])
    from "1.IH" [OF 2(1) eq] have "m div 10 = n div 10" .
    moreover from dig have "m mod 10 = n mod 10" by (rule digit_char_inj [rotated 2]) simp_all
    ultimately show ?thesis by (metis div_mult_mod_eq)
  next
    case 3
    with "1.prems" show ?thesis
      by (auto simp: FormatUint.simps [of m] FormatUint.simps [of n] FormatUint_nonempty
          FormatUint_nonempty [symmetric] split: if_splits)
  qed
qed

lemma FormatUint_replacer: "replacer (FormatUint n) = FormatUint n"
  by (rule replacer_id) (use FormatUint_chars in blast)+

lemma AssignmentIDFor_join:
  "AssignmentIDFor t p gen lane = join (CHR ''/'') (map replacer [t, p, FormatUint gen, lane])"
  by (simp add: AssignmentIDFor_def FormatUint_replacer)

lemma AssignmentIDFor_eq_iff:
  "AssignmentIDFor t p gen lane = AssignmentIDFor t' p' gen' lane' \<longleftrightarrow>
     t = t' \<and> p = p' \<and> gen = gen' \<and> lane = lane'"
proof
  assume "AssignmentIDFor t p gen lane = AssignmentIDFor t' p' gen' lane'"
  then have "[t, p, FormatUint gen, lane] = [t', p', FormatUint gen', lane']"
    unfolding AssignmentIDFor_join by (intro slash.path_inj) simp_all
  then show "t = t' \<and> p = p' \<and> gen = gen' \<and> lane = lane'"
    by (auto dest: FormatUint_inj)
qed simp

lemma DeriveLaneID_has_slash: "CHR ''/'' \<in> set (DeriveLaneID t p n name)"
  unfolding DeriveLaneID_def by (rule join_has_sep) simp

lemma parts_prefix_iff: "parts_prefix ps ks \<longleftrightarrow> take (length ps) ks = ps \<and> length ps \<le> length ks"
  by (induction ps ks rule: parts_prefix.induct) auto

lemma key_Prefix_iff:
  "key_Prefix k p \<longleftrightarrow> key_Tenant k = key_Tenant p \<and> key_Space k = key_Space p \<and>
     (\<exists>rest. key_Parts k = key_Parts p @ rest)"
  by (auto simp: key_Prefix_def parts_prefix_iff) (metis append_take_drop_id)

section \<open>Properties\<close>

text \<open>
  C27: The rendering a store indexes by is injective: two keys render alike exactly when they are the
  same tenant, space and parts, whatever separators and percent signs an operator puts in a name.
\<close>

theorem key_rendering_injective: "key_String j = key_String k \<longleftrightarrow> j = k"
  by (rule key_String_eq_iff)

text \<open>
  Lane ids and assignment ids are injective in all of their components, the decimal generation of
  an assignment included.
\<close>

theorem lane_and_assignment_ids_injective:
  "(DeriveLaneID t p n name = DeriveLaneID t' p' n' name' \<longleftrightarrow> t = t' \<and> p = p' \<and> n = n' \<and> name = name') \<and>
   (AssignmentIDFor t p gen lane = AssignmentIDFor t' p' gen' lane' \<longleftrightarrow>
      t = t' \<and> p = p' \<and> gen = gen' \<and> lane = lane')"
  by (simp add: DeriveLaneID_eq_iff AssignmentIDFor_eq_iff)

text \<open>
  The node-scoped connector slot never collides with a lane's, because a derived lane id always
  contains a slash; a derived lane id may well begin with an at-sign.
\<close>

theorem node_slot_is_no_lane:
  "key_String (ConnectorNodeKey t p n) \<noteq> key_String (ConnectorKey t' p' n' (DeriveLaneID a b c name)) \<and>
   hd (DeriveLaneID ''@node'' b c name) = CHR ''@''"
proof -
  have "CHR ''/'' \<notin> set ''@node''" by simp
  then have "DeriveLaneID a b c name \<noteq> ''@node''" using DeriveLaneID_has_slash by metis
  then show ?thesis by (simp add: ConnectorNodeKey_def ConnectorKey_def DeriveLaneID_def)
qed

text \<open>
  The prefix test a range scan filters by accepts exactly the keys of the same tenant and space
  whose parts start with the prefix's parts, part by part.
\<close>

theorem key_prefix_is_partwise:
  "key_Prefix k p \<longleftrightarrow> key_Tenant k = key_Tenant p \<and> key_Space k = key_Space p \<and>
     (\<exists>rest. key_Parts k = key_Parts p @ rest)"
  by (rule key_Prefix_iff)

end
