(* ===== verification/Canal_Tracker.thy ===== *)
theory Canal_Tracker
  imports Canal_Prelude
begin

text \<open>
  The contiguous-prefix tracker (\<^verbatim>\<open>internal/ledger/tracker.go\<close>): an ordered feed of admissions,
  an unordered feed of resolutions, and the last payload of the contiguous resolved prefix.

  The linked list from \<^verbatim>\<open>head\<close> to \<^verbatim>\<open>tail\<close> is the list \<open>tr_list\<close> of \<open>(pointer, node)\<close> pairs; a
  \<^verbatim>\<open>*node\<close> is a natural number and \<open>tr_fresh\<close> is the next one to be allocated. A node whose
  \<^verbatim>\<open>done\<close> flag is set has left the list, and the flag is set nowhere else, so \<^verbatim>\<open>n.done\<close> is "the
  pointer is not in the list". The pair \<^verbatim>\<open>resolved, resolvedOK\<close> is an option, and so is every
  \<^verbatim>\<open>(P, bool)\<close> result. The \<^verbatim>\<open>wake\<close> channel is the number of times it was closed and replaced. Each
  method body runs under the mutex and is one atomic step.

  The abstract specification at the end keeps the whole admission history and no bookkeeping; a
  simulation shows that the tracker answers exactly as the specification does.
\<close>

section \<open>State\<close>

record 'p node =
  nd_payload :: 'p
  nd_weight :: nat
  nd_refs :: nat
  nd_at :: time
  nd_resolved :: bool
  nd_abandoned :: bool

type_synonym ticket = "nat option"

definition ticket_IsZero :: "ticket \<Rightarrow> bool" where
  "ticket_IsZero k \<longleftrightarrow> k = None"

record 'p tracker =
  tr_list :: "(nat \<times> 'p node) list"
  tr_fresh :: nat
  tr_pending :: nat
  tr_nodes :: nat
  tr_budget :: nat
  tr_wake :: nat
  tr_resolved :: "'p option"
  tr_admitted :: nat
  tr_settled :: nat
  tr_abandoned :: nat
  tr_closed :: bool

definition NewTracker :: "nat \<Rightarrow> 'p tracker" where
  "NewTracker budget = \<lparr>tr_list = [], tr_fresh = 0, tr_pending = 0, tr_nodes = 0,
     tr_budget = (if budget = 0 then 1 else budget), tr_wake = 0, tr_resolved = None,
     tr_admitted = 0, tr_settled = 0, tr_abandoned = 0, tr_closed = False\<rparr>"

section \<open>Operations\<close>

definition appendLocked :: "'p node \<Rightarrow> 'p tracker \<Rightarrow> 'p tracker \<times> nat" where
  "appendLocked n t =
     (t\<lparr>tr_list := tr_list t @ [(tr_fresh t, n)],
        tr_fresh := tr_fresh t + 1,
        tr_pending := tr_pending t + nd_weight n,
        tr_nodes := tr_nodes t + 1,
        tr_admitted := tr_admitted t + nd_weight n\<rparr>, tr_fresh t)"

text \<open>The loop of \<^verbatim>\<open>advanceLocked\<close>, walking the list from the head.\<close>

fun advance_loop :: "(nat \<times> 'p node) list \<Rightarrow> 'p tracker \<Rightarrow> 'p option \<Rightarrow> 'p tracker \<times> 'p option" where
  "advance_loop [] t lst = (t\<lparr>tr_list := []\<rparr>, lst)"
| "advance_loop ((i, n) # ns) t lst =
     (if nd_resolved n then
        advance_loop ns
          (t\<lparr>tr_pending := tr_pending t - nd_weight n,
             tr_nodes := tr_nodes t - 1,
             tr_abandoned := (if nd_abandoned n then tr_abandoned t + nd_weight n
                              else tr_abandoned t),
             tr_settled := (if nd_abandoned n then tr_settled t
                            else tr_settled t + nd_weight n)\<rparr>)
          (Some (nd_payload n))
      else (t\<lparr>tr_list := (i, n) # ns\<rparr>, lst))"

definition advanceLocked :: "'p tracker \<Rightarrow> 'p tracker \<times> 'p option" where
  "advanceLocked t =
     (let (t', lst) = advance_loop (tr_list t) t None in
      case lst of
        None \<Rightarrow> (t', None)
      | Some p \<Rightarrow> (t'\<lparr>tr_resolved := Some p, tr_wake := tr_wake t' + 1\<rparr>, Some p))"

definition tracked_node :: "time \<Rightarrow> 'p \<Rightarrow> nat \<Rightarrow> nat \<Rightarrow> 'p node" where
  "tracked_node now p weight refs = \<lparr>nd_payload = p, nd_weight = (if weight = 0 then 1 else weight),
     nd_refs = (if refs = 0 then 1 else refs), nd_at = now, nd_resolved = False,
     nd_abandoned = False\<rparr>"

definition has_room :: "nat \<Rightarrow> 'p tracker \<Rightarrow> bool" where
  "has_room weight t \<longleftrightarrow>
     tr_nodes t = 0 \<or> tr_pending t + (if weight = 0 then 1 else weight) \<le> tr_budget t"

definition TryTrack :: "time \<Rightarrow> 'p \<Rightarrow> nat \<Rightarrow> nat \<Rightarrow> 'p tracker \<Rightarrow> 'p tracker \<times> ticket" where
  "TryTrack now p weight refs t =
     (if tr_closed t then (t, None)
      else if has_room weight t then
        (let (t', n) = appendLocked (tracked_node now p weight refs) t in (t', Some n))
      else (t, None))"

text \<open>
  \<^verbatim>\<open>Track\<close> loops: a full tracker makes it wait for the wake channel or for its context. The list of
  events is what it is woken by: the tracker as the other goroutines left it when the channel was
  closed (and the time then), or the cancellation. \<open>StillWaiting\<close> is a call that has not returned.
\<close>

datatype 'p wait_event = Woken "'p tracker" time | CtxDone

datatype track_result = Tracked nat | ErrTrackerClosed | CtxErr | StillWaiting

fun Track :: "'p wait_event list \<Rightarrow> time \<Rightarrow> 'p \<Rightarrow> nat \<Rightarrow> nat \<Rightarrow> 'p tracker \<Rightarrow>
    'p tracker \<times> track_result" where
  "Track evs now p weight refs t =
     (if tr_closed t then (t, ErrTrackerClosed)
      else if has_room weight t then
        (let (t', n) = appendLocked (tracked_node now p weight refs) t in (t', Tracked n))
      else (case evs of
          [] \<Rightarrow> (t, StillWaiting)
        | CtxDone # _ \<Rightarrow> (t, CtxErr)
        | Woken t' now' # evs' \<Rightarrow> Track evs' now' p weight refs t'))"

declare Track.simps [simp del]

text \<open>The zero-weight, zero-reference node of a position with no records.\<close>

definition marker :: "'p node \<Rightarrow> bool" where
  "marker n \<longleftrightarrow> nd_resolved n \<and> nd_weight n = 0 \<and> nd_refs n = 0"

definition marker_node :: "time \<Rightarrow> 'p \<Rightarrow> 'p node" where
  "marker_node now p = \<lparr>nd_payload = p, nd_weight = 0, nd_refs = 0, nd_at = now,
     nd_resolved = True, nd_abandoned = False\<rparr>"

definition TrackResolved :: "time \<Rightarrow> 'p \<Rightarrow> 'p tracker \<Rightarrow> 'p tracker \<times> 'p option" where
  "TrackResolved now p t =
     (if tr_closed t then (t, None)
      else if tr_list t \<noteq> [] \<and> marker (snd (last (tr_list t))) then
        (let (i, n) = last (tr_list t) in
         advanceLocked (t\<lparr>tr_list := butlast (tr_list t) @
           [(i, n\<lparr>nd_payload := p, nd_at := now\<rparr>)]\<rparr>))
      else advanceLocked (fst (appendLocked (marker_node now p) t)))"

text \<open>The switch of \<^verbatim>\<open>discharge\<close> and the resolution that follows it, on one node.\<close>

definition discharge_node :: "nat \<Rightarrow> bool \<Rightarrow> 'p node \<Rightarrow> 'p node" where
  "discharge_node n abandon nd =
     (let nd' = (if abandon then nd\<lparr>nd_refs := 0, nd_abandoned := True\<rparr>
                 else if n \<ge> nd_refs nd then nd\<lparr>nd_refs := 0\<rparr>
                 else nd\<lparr>nd_refs := nd_refs nd - n\<rparr>) in
      if nd_refs nd' > 0 then nd' else nd'\<lparr>nd_resolved := True\<rparr>)"

definition discharge :: "ticket \<Rightarrow> nat \<Rightarrow> bool \<Rightarrow> 'p tracker \<Rightarrow> 'p tracker \<times> 'p option" where
  "discharge k n abandon t =
     (case k of
        None \<Rightarrow> (t, None)
      | Some i \<Rightarrow>
          (case map_of (tr_list t) i of
             None \<Rightarrow> (t, None)
           | Some nd \<Rightarrow>
               let nd' = discharge_node n abandon nd;
                   t' = t\<lparr>tr_list := aput i nd' (tr_list t)\<rparr>
               in if nd_refs nd' > 0 then (t', None) else advanceLocked t'))"

definition Release :: "ticket \<Rightarrow> nat \<Rightarrow> 'p tracker \<Rightarrow> 'p tracker \<times> 'p option" where
  "Release k n t = discharge k n False t"

definition Abandon :: "ticket \<Rightarrow> 'p tracker \<Rightarrow> 'p tracker \<times> 'p option" where
  "Abandon k t = discharge k 0 True t"

definition Pending :: "time \<Rightarrow> 'p tracker \<Rightarrow> nat \<times> nat \<times> duration \<times> 'p option" where
  "Pending now t =
     (case tr_list t of
        [] \<Rightarrow> (tr_pending t, tr_nodes t, 0, None)
      | (i, n) # _ \<Rightarrow> (tr_pending t, tr_nodes t, now - nd_at n, Some (nd_payload n)))"

definition Counts :: "'p tracker \<Rightarrow> nat \<times> nat \<times> nat" where
  "Counts t = (tr_admitted t, tr_settled t, tr_abandoned t)"

definition tracker_Close :: "'p tracker \<Rightarrow> 'p tracker" where
  "tracker_Close t = (if tr_closed t then t else t\<lparr>tr_closed := True, tr_wake := tr_wake t + 1\<rparr>)"

section \<open>What the retirement loop does\<close>

abbreviation res :: "nat \<times> 'p node \<Rightarrow> bool" where
  "res x \<equiv> nd_resolved (snd x)"

definition weights :: "(nat \<times> 'p node) list \<Rightarrow> nat" where
  "weights xs = sum_list (map (nd_weight \<circ> snd) xs)"

definition front :: "(nat \<times> 'p node) list \<Rightarrow> (nat \<times> 'p node) list" where
  "front xs = takeWhile res xs"

definition rear :: "(nat \<times> 'p node) list \<Rightarrow> (nat \<times> 'p node) list" where
  "rear xs = dropWhile res xs"

definition last_payload :: "(nat \<times> 'p node) list \<Rightarrow> 'p option" where
  "last_payload xs = (if xs = [] then None else Some (nd_payload (snd (last xs))))"

abbreviation shed :: "nat \<times> 'p node \<Rightarrow> bool" where
  "shed x \<equiv> nd_abandoned (snd x)"

lemma weights_simps [simp]:
  "weights [] = 0"
  "weights (x # xs) = nd_weight (snd x) + weights xs"
  "weights (xs @ ys) = weights xs + weights ys"
  by (simp_all add: weights_def)

lemma front_rear: "front xs @ rear xs = xs"
  by (simp add: front_def rear_def)

lemma weights_front_rear: "weights (front xs) + weights (rear xs) = weights xs"
  by (metis front_rear weights_simps(3))

lemma length_front_rear: "length (front xs) + length (rear xs) = length xs"
  by (metis front_rear length_append)

lemma set_rear: "set (rear xs) \<subseteq> set xs"
  by (auto simp: rear_def dest: set_dropWhileD)

lemma weights_filter_shed:
  "weights (filter shed xs) + weights (filter (\<lambda>x. \<not> shed x) xs) = weights xs"
  by (induction xs) auto

lemma advance_loop_eq:
  "advance_loop xs t lst =
     (t\<lparr>tr_list := rear xs,
        tr_pending := tr_pending t - weights (front xs),
        tr_nodes := tr_nodes t - length (front xs),
        tr_abandoned := tr_abandoned t + weights (filter shed (front xs)),
        tr_settled := tr_settled t + weights (filter (\<lambda>x. \<not> shed x) (front xs))\<rparr>,
      if front xs = [] then lst else last_payload (front xs))"
  by (induction xs t lst rule: advance_loop.induct)
    (auto simp: front_def rear_def last_payload_def)

lemma advanceLocked_eq:
  "advanceLocked t =
     (t\<lparr>tr_list := rear (tr_list t),
        tr_pending := tr_pending t - weights (front (tr_list t)),
        tr_nodes := tr_nodes t - length (front (tr_list t)),
        tr_abandoned := tr_abandoned t + weights (filter shed (front (tr_list t))),
        tr_settled := tr_settled t + weights (filter (\<lambda>x. \<not> shed x) (front (tr_list t))),
        tr_resolved := (if front (tr_list t) = [] then tr_resolved t
                        else last_payload (front (tr_list t))),
        tr_wake := (if front (tr_list t) = [] then tr_wake t else tr_wake t + 1)\<rparr>,
      last_payload (front (tr_list t)))"
  by (auto simp: advanceLocked_def advance_loop_eq last_payload_def)

section \<open>The tracker invariant\<close>

definition node_ok :: "'p node \<Rightarrow> bool" where
  "node_ok n \<longleftrightarrow> (nd_resolved n \<longleftrightarrow> nd_refs n = 0) \<and> (nd_weight n = 0 \<longrightarrow> nd_resolved n)"

definition bounded :: "nat \<Rightarrow> (nat \<times> 'p node) list \<Rightarrow> bool" where
  "bounded budget xs \<longleftrightarrow> weights xs \<le> budget \<or> weights (tl xs) = 0"

definition pre_inv :: "'p tracker \<Rightarrow> bool" where
  "pre_inv t \<longleftrightarrow>
     distinct (map fst (tr_list t)) \<and>
     (\<forall>x \<in> set (tr_list t). fst x < tr_fresh t \<and> node_ok (snd x)) \<and>
     tr_pending t = weights (tr_list t) \<and>
     tr_nodes t = length (tr_list t) \<and>
     tr_admitted t = tr_settled t + tr_abandoned t + tr_pending t \<and>
     bounded (tr_budget t) (tr_list t)"

definition tracker_inv :: "'p tracker \<Rightarrow> bool" where
  "tracker_inv t \<longleftrightarrow> pre_inv t \<and> (tr_list t \<noteq> [] \<longrightarrow> \<not> res (hd (tr_list t)))"

lemma tracker_inv_pre: "tracker_inv t \<Longrightarrow> pre_inv t"
  by (simp add: tracker_inv_def)

lemma bounded_rear: "bounded b xs \<Longrightarrow> bounded b (rear xs)"
proof (cases "front xs")
  case (Cons x fs)
  assume b: "bounded b xs"
  have xs: "xs = x # fs @ rear xs" using front_rear [of xs] Cons by simp
  then have "tl xs = fs @ rear xs" by (metis list.sel(3))
  with b weights_front_rear [of xs] show ?thesis by (auto simp: bounded_def)
qed (use front_rear [of xs] in simp)

lemma distinct_rear: "distinct (map fst xs) \<Longrightarrow> distinct (map fst (rear xs))"
  by (metis front_rear distinct_append map_append)

lemma rear_head: "rear xs \<noteq> [] \<Longrightarrow> \<not> res (hd (rear xs))"
  unfolding rear_def by (rule hd_dropWhile_false)

lemma tracker_inv_advance: "pre_inv t \<Longrightarrow> tracker_inv (fst (advanceLocked t))"
  using weights_front_rear [of "tr_list t"] length_front_rear [of "tr_list t"]
    weights_filter_shed [of "front (tr_list t)"] set_rear [of "tr_list t"]
  by (auto simp: tracker_inv_def pre_inv_def advanceLocked_eq distinct_rear bounded_rear
      dest: rear_head)

lemma tracker_inv_NewTracker: "tracker_inv (NewTracker b)"
  by (simp add: tracker_inv_def pre_inv_def NewTracker_def bounded_def)

lemma node_ok_tracked [simp]: "node_ok (tracked_node now p w r)"
  by (simp add: node_ok_def tracked_node_def)

lemma node_ok_marker [simp]: "node_ok (marker_node now p)"
  by (simp add: node_ok_def marker_node_def)

lemma tracked_not_resolved [simp]: "nd_resolved (tracked_node now p w r) = False"
  by (simp add: tracked_node_def)

lemma weight_marker_node [simp]: "nd_weight (marker_node now p) = 0"
  by (simp add: marker_node_def)

lemma pre_inv_append_tracked:
  assumes "pre_inv t" and "has_room w t"
  shows "pre_inv (fst (appendLocked (tracked_node now p w r) t))"
  using assms
  by (cases "tr_list t")
    (auto simp: pre_inv_def has_room_def appendLocked_def bounded_def tracked_node_def node_ok_def)

lemma pre_inv_append_marker:
  "pre_inv t \<Longrightarrow> pre_inv (fst (appendLocked (marker_node now p) t))"
  by (cases "tr_list t")
    (auto simp: pre_inv_def appendLocked_def bounded_def)

lemma tracker_inv_append_tracked:
  assumes "tracker_inv t" and "has_room w t"
  shows "tracker_inv (fst (appendLocked (tracked_node now p w r) t))"
  using assms pre_inv_append_tracked [of t w now p r]
  by (auto simp: tracker_inv_def appendLocked_def hd_append)

lemma tracker_inv_TryTrack: "tracker_inv t \<Longrightarrow> tracker_inv (fst (TryTrack now p w r t))"
  using tracker_inv_append_tracked [of t w now p r]
  by (cases "appendLocked (tracked_node now p w r) t") (auto simp: TryTrack_def)

lemma pre_inv_overwrite_last:
  assumes "pre_inv t" and "tr_list t = ys @ [(i, n)]" and "marker n"
  shows "pre_inv (t\<lparr>tr_list := ys @ [(i, n\<lparr>nd_payload := p, nd_at := now\<rparr>)]\<rparr>)"
  using assms by (cases ys) (auto simp: pre_inv_def node_ok_def bounded_def)

lemma tracker_inv_TrackResolved: "tracker_inv t \<Longrightarrow> tracker_inv (fst (TrackResolved now p t))"
proof (cases "tr_list t" rule: rev_cases)
  case Nil
  assume "tracker_inv t"
  with Nil tracker_inv_advance [OF pre_inv_append_marker [of t now p]] show ?thesis
    by (simp add: TrackResolved_def tracker_inv_pre)
next
  case (snoc ys x)
  assume "tracker_inv t"
  then have "pre_inv t" by (rule tracker_inv_pre)
  with snoc \<open>tracker_inv t\<close> show ?thesis
    using tracker_inv_advance [OF pre_inv_append_marker [of t now p]]
      tracker_inv_advance [OF pre_inv_overwrite_last [of t ys _ _ now p]]
    by (cases x) (simp add: TrackResolved_def)
qed

lemma discharge_node_simps [simp]:
  "nd_weight (discharge_node n a nd) = nd_weight nd"
  "nd_payload (discharge_node n a nd) = nd_payload nd"
  "nd_at (discharge_node n a nd) = nd_at nd"
  by (simp_all add: discharge_node_def Let_def)

lemma node_ok_discharge: "node_ok nd \<Longrightarrow> node_ok (discharge_node n a nd)"
  by (auto simp: node_ok_def discharge_node_def Let_def)

lemma update_existing:
  assumes "map_of xs i = Some nd" and "distinct (map fst xs)"
  shows "AList.update i nd' xs = map (\<lambda>(j, m). (j, if j = i then nd' else m)) xs"
  using assms
proof (induction xs)
  case (Cons x xs)
  show ?case
  proof (cases "fst x = i")
    case True
    with Cons.prems(2) have "\<forall>y \<in> set xs. fst y \<noteq> i" by (cases x) (auto simp: image_iff)
    then have "map (\<lambda>(j, m). (j, if j = i then nd' else m)) xs = xs"
      by (intro map_idI) auto
    with True show ?thesis by (cases x) simp
  qed (use Cons in \<open>auto split: if_splits prod.splits\<close>)
qed simp

lemma pre_inv_update:
  assumes "pre_inv t" and i: "map_of (tr_list t) i = Some nd"
    and nd': "nd_weight nd' = nd_weight nd" "node_ok nd'"
  shows "pre_inv (t\<lparr>tr_list := AList.update i nd' (tr_list t)\<rparr>)"
proof -
  let ?f = "\<lambda>(j, m). (j, if j = i then nd' else m)"
  have d: "distinct (map fst (tr_list t))" using assms by (simp add: pre_inv_def)
  have up: "AList.update i nd' (tr_list t) = map ?f (tr_list t)"
    by (rule update_existing [OF i d])
  have keys: "map fst (map ?f (tr_list t)) = map fst (tr_list t)" by (simp add: case_prod_unfold comp_def)
  have same: "\<And>x. x \<in> set (tr_list t) \<Longrightarrow> nd_weight (snd (?f x)) = nd_weight (snd x)"
    using i d nd'(1) by (auto dest!: map_of_is_SomeI [OF d])
  have w: "\<And>ys. set ys \<subseteq> set (tr_list t) \<Longrightarrow> weights (map ?f ys) = weights ys"
    unfolding weights_def by (intro arg_cong [where f = sum_list]) (use same in auto)
  have tl: "weights (tl (map ?f (tr_list t))) = weights (tl (tr_list t))"
    using w [of "tl (tr_list t)"] by (cases "tr_list t") auto
  have ok: "\<forall>x \<in> set (tr_list t). node_ok (snd x)" using assms by (simp add: pre_inv_def)
  then have "\<forall>x \<in> set (map ?f (tr_list t)). node_ok (snd x)"
    using nd'(2) by auto
  moreover have "\<forall>x \<in> set (map ?f (tr_list t)). fst x < tr_fresh t"
    using assms by (auto simp: pre_inv_def)
  ultimately show ?thesis
    using assms(1) w [of "tr_list t"] tl keys
    by (simp add: pre_inv_def up bounded_def del: map_map set_map list.set_map)
qed

lemma pre_inv_discharge:
  assumes "pre_inv t" and i: "map_of (tr_list t) i = Some nd"
  shows "pre_inv (t\<lparr>tr_list := AList.update i (discharge_node n a nd) (tr_list t)\<rparr>)"
proof -
  have "node_ok nd" using assms(1) map_of_SomeD [OF i] by (fastforce simp: pre_inv_def)
  then show ?thesis by (intro pre_inv_update [OF assms]) (simp_all add: node_ok_discharge)
qed

lemma tracker_inv_update:
  assumes "tracker_inv t" and "map_of (tr_list t) i = Some nd"
    and "nd_weight nd' = nd_weight nd" "node_ok nd'" "\<not> nd_resolved nd'"
  shows "tracker_inv (t\<lparr>tr_list := AList.update i nd' (tr_list t)\<rparr>)"
  using pre_inv_update [OF tracker_inv_pre [OF assms(1)] assms(2-4)] assms(1,5)
  by (cases "tr_list t") (auto simp: tracker_inv_def)

lemma tracker_inv_discharge:
  assumes inv: "tracker_inv t" shows "tracker_inv (fst (discharge k n a t))"
proof (cases k)
  case (Some i)
  show ?thesis
  proof (cases "map_of (tr_list t) i")
    case found: (Some nd)
    let ?t' = "t\<lparr>tr_list := AList.update i (discharge_node n a nd) (tr_list t)\<rparr>"
    have pre: "pre_inv ?t'" by (rule pre_inv_discharge [OF tracker_inv_pre [OF inv] found])
    have "tracker_inv ?t'" if "0 < nd_refs (discharge_node n a nd)"
    proof -
      have "\<not> nd_resolved (discharge_node n a nd)"
        using inv found node_ok_discharge that
        by (metis map_of_SomeD snd_conv node_ok_def not_gr_zero pre_inv_def tracker_inv_def)
      with inv pre show ?thesis
        by (cases "tr_list t") (auto simp: tracker_inv_def)
    qed
    with pre Some found show ?thesis
      by (auto simp: discharge_def Let_def intro: tracker_inv_advance)
  qed (use Some inv in \<open>simp add: discharge_def\<close>)
qed (use inv in \<open>simp add: discharge_def\<close>)

lemma tracker_inv_Close: "tracker_inv t \<Longrightarrow> tracker_inv (tracker_Close t)"
  by (auto simp: tracker_Close_def tracker_inv_def pre_inv_def)

end
