(* ===== verification/Canal_TrackerSpec.thy ===== *)
theory Canal_TrackerSpec
  imports Canal_Tracker
begin

text \<open>
  The abstract specification of the tracker and the refinement proof.

  The specification keeps the whole admission history, never retires and never coalesces: an
  entry is done when its outstanding references are zero, the answer of every operation is the
  payload at the end of the longest done prefix when that prefix grew, and the budget counts the
  weight after it. The transition systems \<open>tracker_step\<close> (the code) and \<open>spec_step\<close> (the
  specification) share their labels, and every trace of the first is a trace of the second.
\<close>

section \<open>The specification\<close>

record 'p entry =
  en_ticket :: ticket
  en_payload :: 'p
  en_weight :: nat
  en_refs :: nat
  en_abandoned :: bool

definition done_entry :: "'p entry \<Rightarrow> bool" where
  "done_entry e \<longleftrightarrow> en_refs e = 0"

definition sp_done :: "'p entry list \<Rightarrow> 'p entry list" where
  "sp_done h = takeWhile done_entry h"

definition sp_open :: "'p entry list \<Rightarrow> 'p entry list" where
  "sp_open h = dropWhile done_entry h"

definition tally :: "'p entry list \<Rightarrow> nat" where
  "tally es = sum_list (map en_weight es)"

definition sp_prefix :: "'p entry list \<Rightarrow> 'p option" where
  "sp_prefix es = (if es = [] then None else Some (en_payload (last es)))"

definition sp_answer :: "'p entry list \<Rightarrow> 'p entry list \<Rightarrow> 'p option" where
  "sp_answer h h' =
     (if length (sp_done h) < length (sp_done h') then sp_prefix (sp_done h') else None)"

definition sp_room :: "nat \<Rightarrow> nat \<Rightarrow> 'p entry list \<Rightarrow> bool" where
  "sp_room budget w h \<longleftrightarrow> sp_open h = [] \<or> tally (sp_open h) + w \<le> budget"

definition sp_settle :: "nat \<Rightarrow> bool \<Rightarrow> 'p entry \<Rightarrow> 'p entry" where
  "sp_settle n abandon e =
     (if abandon then e\<lparr>en_refs := 0, en_abandoned := True\<rparr>
      else e\<lparr>en_refs := en_refs e - n\<rparr>)"

definition sp_discharge :: "nat \<Rightarrow> nat \<Rightarrow> bool \<Rightarrow> 'p entry list \<Rightarrow> 'p entry list" where
  "sp_discharge i n abandon h = sp_done h @
     map (\<lambda>e. if en_ticket e = Some i then sp_settle n abandon e else e) (sp_open h)"

definition sp_tracked :: "nat \<Rightarrow> 'p \<Rightarrow> nat \<Rightarrow> nat \<Rightarrow> 'p entry" where
  "sp_tracked i p w r = \<lparr>en_ticket = Some i, en_payload = p, en_weight = max 1 w,
     en_refs = max 1 r, en_abandoned = False\<rparr>"

definition sp_marker :: "'p \<Rightarrow> 'p entry" where
  "sp_marker p = \<lparr>en_ticket = None, en_payload = p, en_weight = 0, en_refs = 0,
     en_abandoned = False\<rparr>"

definition sp_counts :: "'p entry list \<Rightarrow> nat \<times> nat \<times> nat" where
  "sp_counts h = (tally h, tally (filter (\<lambda>e. \<not> en_abandoned e) (sp_done h)),
     tally (filter en_abandoned (sp_done h)))"

datatype 'p tr_event =
    EvTrack 'p nat nat ticket
  | EvTrackResolved 'p "'p option"
  | EvRelease nat nat "'p option"
  | EvAbandon nat "'p option"
  | EvClose
  | EvResolved "'p option"
  | EvCounts "nat \<times> nat \<times> nat"

text \<open>A specification state is the history and whether the tracker is closed.\<close>

inductive spec_step ::
  "nat \<Rightarrow> 'p entry list \<times> bool \<Rightarrow> 'p tr_event \<Rightarrow> 'p entry list \<times> bool \<Rightarrow> bool" for budget where
  admit: "sp_room budget (max 1 w) h \<Longrightarrow> Some i \<notin> en_ticket ` set h \<Longrightarrow>
    spec_step budget (h, False) (EvTrack p w r (Some i)) (h @ [sp_tracked i p w r], False)"
| refuse: "c \<or> \<not> sp_room budget (max 1 w) h \<Longrightarrow>
    spec_step budget (h, c) (EvTrack p w r None) (h, c)"
| mark: "h' = h @ [sp_marker p] \<Longrightarrow>
    spec_step budget (h, False) (EvTrackResolved p (sp_answer h h')) (h', False)"
| mark_closed: "spec_step budget (h, True) (EvTrackResolved p None) (h, True)"
| release: "h' = sp_discharge i n False h \<Longrightarrow>
    spec_step budget (h, c) (EvRelease i n (sp_answer h h')) (h', c)"
| abandon: "h' = sp_discharge i 0 True h \<Longrightarrow>
    spec_step budget (h, c) (EvAbandon i (sp_answer h h')) (h', c)"
| close: "spec_step budget (h, c) EvClose (h, True)"
| resolved: "spec_step budget (h, c) (EvResolved (sp_prefix (sp_done h))) (h, c)"
| counts: "spec_step budget (h, c) (EvCounts (sp_counts h)) (h, c)"

inductive spec_trace :: "nat \<Rightarrow> 'p tr_event list \<Rightarrow> 'p entry list \<times> bool \<Rightarrow> bool" for budget where
  spec_nil: "spec_trace budget [] ([], False)"
| spec_snoc: "spec_trace budget evs s \<Longrightarrow> spec_step budget s ev s' \<Longrightarrow>
    spec_trace budget (evs @ [ev]) s'"

section \<open>The code as a transition system\<close>

text \<open>
  The second component of a state is the set of tickets handed out: a client releases and
  abandons tickets it was given, and no others. A returning \<^verbatim>\<open>Track\<close> is a \<^verbatim>\<open>TryTrack\<close> on the tracker
  it was last woken with (lemma \<open>Track_as_TryTrack\<close>), so it needs no label of its own.
\<close>

inductive tracker_step ::
  "'p tracker \<times> nat set \<Rightarrow> 'p tr_event \<Rightarrow> 'p tracker \<times> nat set \<Rightarrow> bool" where
  ts_track: "TryTrack now p w r t = (t', k) \<Longrightarrow>
    tracker_step (t, I) (EvTrack p w r k) (t', I \<union> set_option k)"
| ts_mark: "TrackResolved now p t = (t', a) \<Longrightarrow>
    tracker_step (t, I) (EvTrackResolved p a) (t', I)"
| ts_release: "i \<in> I \<Longrightarrow> Release (Some i) n t = (t', a) \<Longrightarrow>
    tracker_step (t, I) (EvRelease i n a) (t', I)"
| ts_abandon: "i \<in> I \<Longrightarrow> Abandon (Some i) t = (t', a) \<Longrightarrow>
    tracker_step (t, I) (EvAbandon i a) (t', I)"
| ts_close: "tracker_step (t, I) EvClose (tracker_Close t, I)"
| ts_resolved: "tracker_step (t, I) (EvResolved (tr_resolved t)) (t, I)"
| ts_counts: "tracker_step (t, I) (EvCounts (Counts t)) (t, I)"

inductive tracker_trace :: "nat \<Rightarrow> 'p tr_event list \<Rightarrow> 'p tracker \<times> nat set \<Rightarrow> bool" for budget where
  tr_nil: "tracker_trace budget [] (NewTracker budget, {})"
| tr_snoc: "tracker_trace budget evs s \<Longrightarrow> tracker_step s ev s' \<Longrightarrow>
    tracker_trace budget (evs @ [ev]) s'"

inductive_cases tracker_stepE: "tracker_step s ev s'"

section \<open>Coalescing\<close>

definition sp_is_marker :: "'p entry \<Rightarrow> bool" where
  "sp_is_marker e \<longleftrightarrow> en_weight e = 0 \<and> en_refs e = 0"

fun coalesce :: "'p entry list \<Rightarrow> 'p entry list" where
  "coalesce [] = []"
| "coalesce [x] = [x]"
| "coalesce (x # y # ys) =
     (if sp_is_marker x \<and> sp_is_marker y then coalesce (y # ys) else x # coalesce (y # ys))"

lemma tally_simps [simp]:
  "tally [] = 0" "tally (x # xs) = en_weight x + tally xs" "tally (xs @ ys) = tally xs + tally ys"
  by (simp_all add: tally_def)

lemma marker_done: "sp_is_marker e \<Longrightarrow> done_entry e"
  by (simp add: sp_is_marker_def done_entry_def)

lemma coalesce_eq_Nil [simp]: "coalesce l = [] \<longleftrightarrow> l = []"
  by (induction l rule: coalesce.induct) auto

lemma last_coalesce [simp]: "last (coalesce l) = last l"
  by (induction l rule: coalesce.induct) auto

lemma dropWhile_coalesce: "dropWhile done_entry (coalesce l) = coalesce (dropWhile done_entry l)"
  by (induction l rule: coalesce.induct) (auto simp: marker_done)

lemma takeWhile_coalesce: "takeWhile done_entry (coalesce l) = coalesce (takeWhile done_entry l)"
  by (induction l rule: coalesce.induct) (auto simp: marker_done)

lemma tally_coalesce [simp]: "tally (coalesce l) = tally l"
  by (induction l rule: coalesce.induct) (auto simp: sp_is_marker_def)

lemma tally_filter_coalesce [simp]: "tally (filter P (coalesce l)) = tally (filter P l)"
  by (induction l rule: coalesce.induct) (auto simp: sp_is_marker_def)

lemma coalesce_snoc:
  "coalesce (l @ [x]) =
     (if l \<noteq> [] \<and> sp_is_marker (last l) \<and> sp_is_marker x then butlast (coalesce l) @ [x]
      else coalesce l @ [x])"
  by (induction l rule: coalesce.induct) auto

lemma coalesce_map:
  "\<forall>x \<in> set l. sp_is_marker (f x) = sp_is_marker x \<Longrightarrow> coalesce (map f l) = map f (coalesce l)"
  by (induction l rule: coalesce.induct) auto

lemma set_coalesce: "set (coalesce l) \<subseteq> set l"
  by (induction l rule: coalesce.induct) auto

section \<open>The simulation\<close>

definition entry_of :: "nat \<times> 'p node \<Rightarrow> 'p entry" where
  "entry_of x = \<lparr>en_ticket = (if nd_weight (snd x) = 0 then None else Some (fst x)),
     en_payload = nd_payload (snd x), en_weight = nd_weight (snd x), en_refs = nd_refs (snd x),
     en_abandoned = nd_abandoned (snd x)\<rparr>"

lemma entry_of_simps [simp]:
  "en_payload (entry_of x) = nd_payload (snd x)"
  "en_weight (entry_of x) = nd_weight (snd x)"
  "en_refs (entry_of x) = nd_refs (snd x)"
  "en_abandoned (entry_of x) = nd_abandoned (snd x)"
  by (simp_all add: entry_of_def)

definition wf_entry :: "nat set \<Rightarrow> 'p entry \<Rightarrow> bool" where
  "wf_entry I e \<longleftrightarrow> (case en_ticket e of None \<Rightarrow> en_weight e = 0 \<and> en_refs e = 0 \<and> \<not> en_abandoned e
     | Some i \<Rightarrow> en_weight e \<noteq> 0 \<and> i \<in> I)"

definition presim :: "'p tracker \<Rightarrow> nat set \<Rightarrow> 'p entry list \<Rightarrow> 'p entry list \<Rightarrow> bool" where
  "presim t I h0 l \<longleftrightarrow>
     pre_inv t \<and> map entry_of (tr_list t) = coalesce l \<and> (\<forall>e \<in> set h0. done_entry e) \<and>
     tr_resolved t = sp_prefix h0 \<and>
     tr_settled t = tally (filter (\<lambda>e. \<not> en_abandoned e) h0) \<and>
     tr_abandoned t = tally (filter en_abandoned h0) \<and>
     (\<forall>e \<in> set h0 \<union> set l. wf_entry I e) \<and>
     (\<forall>i \<in> I. i < tr_fresh t \<and> (\<forall>n. (i, n) \<in> set (tr_list t) \<longrightarrow> nd_weight n \<noteq> 0))"

definition sim :: "nat \<Rightarrow> 'p tracker \<times> nat set \<Rightarrow> 'p entry list \<times> bool \<Rightarrow> bool" where
  "sim budget s a \<longleftrightarrow> presim (fst s) (snd s) (sp_done (fst a)) (sp_open (fst a)) \<and>
     snd a = tr_closed (fst s) \<and> tr_budget (fst s) = (if budget = 0 then 1 else budget)"

lemma sp_done_open: "sp_done h @ sp_open h = h"
  by (simp add: sp_done_def sp_open_def)

lemma sp_done_append: "\<forall>e \<in> set h0. done_entry e \<Longrightarrow> sp_done (h0 @ l) = h0 @ sp_done l"
  by (simp add: sp_done_def)

lemma sp_open_append: "\<forall>e \<in> set h0. done_entry e \<Longrightarrow> sp_open (h0 @ l) = sp_open l"
  by (simp add: sp_open_def)

lemma res_done: "node_ok (snd x) \<Longrightarrow> done_entry (entry_of x) = res x"
  by (auto simp: done_entry_def node_ok_def)

lemma map_front:
  "\<forall>x \<in> set xs. node_ok (snd x) \<Longrightarrow> map entry_of (front xs) = takeWhile done_entry (map entry_of xs)"
  by (induction xs) (auto simp: front_def res_done)

lemma map_rear:
  "\<forall>x \<in> set xs. node_ok (snd x) \<Longrightarrow> map entry_of (rear xs) = dropWhile done_entry (map entry_of xs)"
  by (induction xs) (auto simp: rear_def res_done)

lemma weights_tally: "weights xs = tally (map entry_of xs)"
  by (induction xs) auto

lemma filter_shed: "weights (filter shed xs) = tally (filter en_abandoned (map entry_of xs))"
  "weights (filter (\<lambda>x. \<not> shed x) xs) = tally (filter (\<lambda>e. \<not> en_abandoned e) (map entry_of xs))"
  by (induction xs) auto

lemma last_payload_prefix: "last_payload xs = sp_prefix (map entry_of xs)"
  by (simp add: last_payload_def sp_prefix_def last_map)

lemma sp_prefix_coalesce [simp]: "sp_prefix (coalesce l) = sp_prefix l"
  by (simp add: sp_prefix_def)

lemma sp_prefix_append: "sp_prefix (xs @ ys) = (if ys = [] then sp_prefix xs else sp_prefix ys)"
  by (simp add: sp_prefix_def)

lemma presim_advance:
  assumes "presim t I h0 l" and adv: "advanceLocked t = (t', a)"
  shows "presim t' I (sp_done (h0 @ l)) (sp_open (h0 @ l)) \<and> a = sp_prefix (sp_done l) \<and>
    tr_closed t' = tr_closed t \<and> tr_budget t' = tr_budget t"
proof -
  let ?xs = "tr_list t"
  have pre: "pre_inv t" and m: "map entry_of ?xs = coalesce l" and d: "\<forall>e \<in> set h0. done_entry e"
    using assms(1) by (simp_all add: presim_def)
  have ok: "\<forall>x \<in> set ?xs. node_ok (snd x)" using pre by (simp add: pre_inv_def)
  have F: "map entry_of (front ?xs) = coalesce (sp_done l)"
    by (simp add: map_front [OF ok] m takeWhile_coalesce sp_done_def)
  have R: "map entry_of (rear ?xs) = coalesce (sp_open l)"
    by (simp add: map_rear [OF ok] m dropWhile_coalesce sp_open_def)
  have fempty: "front ?xs = [] \<longleftrightarrow> sp_done l = []"
    using F by (metis coalesce_eq_Nil map_is_Nil_conv)
  have "pre_inv t'" using tracker_inv_advance [OF pre] adv by (simp add: tracker_inv_def)
  moreover have "set (rear ?xs) \<subseteq> set ?xs" by (rule set_rear)
  moreover have "\<forall>e \<in> set (sp_done l). done_entry e"
    by (auto simp: sp_done_def dest: set_takeWhileD)
  moreover have "set (sp_done l) \<union> set (sp_open l) = set l"
    by (metis sp_done_open set_append)
  ultimately show ?thesis
    using assms(1) adv R fempty
    by (auto simp: presim_def advanceLocked_eq sp_done_append [OF d] sp_open_append [OF d]
        filter_shed F last_payload_prefix sp_prefix_append)
qed

lemma sp_answer_append:
  assumes "\<forall>e \<in> set h0. done_entry e" and "length (sp_done h) = length h0"
  shows "sp_answer h (h0 @ l) = sp_prefix (sp_done l)"
  using assms by (auto simp: sp_answer_def sp_done_append sp_prefix_append)
    (auto simp: sp_prefix_def)

lemma sp_done_done: "\<forall>e \<in> set (sp_done h). done_entry e"
  by (auto simp: sp_done_def dest: set_takeWhileD)

lemma tracked_entry: "entry_of (i, tracked_node now p w r) = sp_tracked i p w r"
  by (simp add: entry_of_def tracked_node_def sp_tracked_def max_def)

lemma marker_entry: "entry_of (i, marker_node now p) = sp_marker p"
  by (simp add: entry_of_def marker_node_def sp_marker_def)

lemma presim_room:
  assumes "presim t I (sp_done h) (sp_open h)"
  shows "has_room w t \<longleftrightarrow> sp_room (tr_budget t) (max 1 w) h"
proof -
  have "tr_list t = [] \<longleftrightarrow> sp_open h = []"
    using assms by (metis coalesce_eq_Nil map_is_Nil_conv presim_def)
  moreover have "tr_pending t = tally (sp_open h)"
    using assms by (auto simp: presim_def pre_inv_def weights_tally)
  moreover have "tr_nodes t = length (tr_list t)"
    using assms by (auto simp: presim_def pre_inv_def)
  ultimately show ?thesis by (auto simp: has_room_def sp_room_def max_def)
qed

lemma wf_entry_mono: "wf_entry I e \<Longrightarrow> I \<subseteq> J \<Longrightarrow> wf_entry J e"
  by (auto simp: wf_entry_def split: option.splits)

lemma sp_tracked_facts [simp]:
  "sp_is_marker (sp_tracked i p w r) = False"
  "done_entry (sp_tracked i p w r) = False"
  "wf_entry I (sp_tracked i p w r) = (i \<in> I)"
  by (simp_all add: sp_is_marker_def done_entry_def wf_entry_def sp_tracked_def)

lemma sp_marker_facts [simp]:
  "sp_is_marker (sp_marker p)" "done_entry (sp_marker p)" "wf_entry I (sp_marker p)"
  by (simp_all add: sp_is_marker_def done_entry_def wf_entry_def sp_marker_def)

lemma presim_append_tracked:
  assumes "presim t I h0 l" and "has_room w t"
  shows "presim (fst (appendLocked (tracked_node now p w r) t)) (insert (tr_fresh t) I) h0
    (l @ [sp_tracked (tr_fresh t) p w r])"
proof -
  have "pre_inv (fst (appendLocked (tracked_node now p w r) t))"
    using assms by (intro pre_inv_append_tracked) (simp_all add: presim_def)
  moreover have "\<forall>x \<in> set (tr_list t). fst x < tr_fresh t"
    using assms by (simp add: presim_def pre_inv_def)
  moreover have "nd_weight (tracked_node now p w r) \<noteq> 0" by (simp add: tracked_node_def)
  ultimately show ?thesis
    using assms(1)
    by (auto simp: presim_def appendLocked_def coalesce_snoc tracked_entry
        intro: wf_entry_mono)
qed

lemma sim_track:
  assumes s: "sim budget (t, I) (h, c)" and tt: "TryTrack now p w r t = (t', k)"
  shows "\<exists>a'. spec_step (max 1 budget) (h, c) (EvTrack p w r k) a' \<and>
    sim budget (t', I \<union> set_option k) a'"
proof -
  have pre: "presim t I (sp_done h) (sp_open h)" and c: "c = tr_closed t"
    and b: "tr_budget t = max 1 budget"
    using s by (auto simp: sim_def max_def)
  show ?thesis
  proof (cases "\<not> tr_closed t \<and> has_room w t")
    case True
    let ?i = "tr_fresh t" and ?h' = "h @ [sp_tracked (tr_fresh t) p w r]"
    have t': "t' = fst (appendLocked (tracked_node now p w r) t)" and k: "k = Some ?i"
      using tt True by (auto simp: TryTrack_def appendLocked_def)
    have "sp_done ?h' = sp_done h" and "sp_open ?h' = sp_open h @ [sp_tracked ?i p w r]"
      by (simp_all add: sp_done_def sp_open_def takeWhile_append dropWhile_append
          takeWhile_eq_all_conv [THEN iffD2])
    then have "sim budget (t', I \<union> set_option k) (?h', False)"
      using presim_append_tracked [OF pre] True s by (simp add: sim_def t' k appendLocked_def)
    moreover have "Some ?i \<notin> en_ticket ` set h"
    proof
      assume "Some ?i \<in> en_ticket ` set h"
      then obtain e where "e \<in> set h" "en_ticket e = Some ?i" by auto
      moreover have "set h = set (sp_done h) \<union> set (sp_open h)" by (metis sp_done_open set_append)
      ultimately have "?i \<in> I" using pre by (force simp: presim_def wf_entry_def)
      then show False using pre by (auto simp: presim_def)
    qed
    moreover have "sp_room (max 1 budget) (max 1 w) h"
      using True presim_room [OF pre, of w] b by simp
    ultimately show ?thesis
      using spec_step.admit [of "max 1 budget" w h ?i p r] True c
      unfolding k by auto
  next
    case False
    then have "t' = t" and "k = None" using tt by (auto simp: TryTrack_def split: if_splits)
    moreover have "c \<or> \<not> sp_room (max 1 budget) (max 1 w) h"
      using False presim_room [OF pre] c b by auto
    ultimately show ?thesis using s spec_step.refuse [of c "max 1 budget" w h p r] by auto
  qed
qed

lemma sim_advance:
  assumes "presim t I h0 l" and "advanceLocked t = (t', a)"
    and "length (sp_done h) = length h0" and "h' = h0 @ l"
    and "c = tr_closed t" and "tr_budget t = (if budget = 0 then 1 else budget)"
  shows "sim budget (t', I) (h', c) \<and> a = sp_answer h h'"
  using presim_advance [OF assms(1,2)] sp_answer_append [of h0 h l] assms
  by (simp add: sim_def presim_def)

lemma is_marker_entry: "node_ok n \<Longrightarrow> sp_is_marker (entry_of (i, n)) = marker n"
  by (auto simp: sp_is_marker_def marker_def node_ok_def)

lemma presim_merge_marker:
  assumes P: "presim t I h0 l" and xs: "tr_list t = ys @ [(i, n)]" and mk: "marker n"
  shows "presim (t\<lparr>tr_list := ys @ [(i, n\<lparr>nd_payload := p, nd_at := now\<rparr>)]\<rparr>) I h0 (l @ [sp_marker p])"
proof -
  have pre: "pre_inv t" and m: "map entry_of ys @ [entry_of (i, n)] = coalesce l"
    using P xs by (simp_all add: presim_def)
  have l: "l \<noteq> []" "last l = entry_of (i, n)"
    using m by (metis coalesce_eq_Nil snoc_eq_iff_butlast, metis last_coalesce last_snoc)
  then have "entry_of (i, n) \<in> set l" by (metis last_in_set)
  then have ab: "\<not> nd_abandoned n"
    using P mk by (force simp: presim_def wf_entry_def marker_def entry_of_def split: option.splits)
  have "butlast (coalesce l) = map entry_of ys" using m by (metis butlast_snoc)
  moreover have "sp_is_marker (last l)"
    using l mk by (simp add: sp_is_marker_def marker_def)
  ultimately have "map entry_of (ys @ [(i, n\<lparr>nd_payload := p, nd_at := now\<rparr>)]) =
      coalesce (l @ [sp_marker p])"
    using l mk ab by (simp add: coalesce_snoc entry_of_def sp_marker_def marker_def sp_is_marker_def)
  with P xs pre_inv_overwrite_last [OF pre xs mk, of now p] mk show ?thesis
    by (auto simp: presim_def marker_def)
qed

lemma presim_append_marker:
  assumes P: "presim t I h0 l" and nm: "tr_list t = [] \<or> \<not> marker (snd (last (tr_list t)))"
  shows "presim (fst (appendLocked (marker_node now p) t)) I h0 (l @ [sp_marker p])"
proof -
  have pre: "pre_inv t" and m: "map entry_of (tr_list t) = coalesce l"
    using P by (simp_all add: presim_def)
  have "l = [] \<or> \<not> sp_is_marker (last l)"
  proof (cases "tr_list t" rule: rev_cases)
    case (snoc ys x)
    then have "last l = entry_of x" using m by (metis last_coalesce last_map last_snoc snoc_eq_iff_butlast)
    moreover have "node_ok (snd x)" using pre snoc by (auto simp: pre_inv_def)
    ultimately show ?thesis using nm snoc is_marker_entry [of "snd x" "fst x"] by simp
  qed (use m [symmetric] in simp)
  then have "map entry_of (tr_list t) @ [sp_marker p] = coalesce (l @ [sp_marker p])"
    by (auto simp: coalesce_snoc m)
  moreover have "\<forall>x \<in> set (tr_list t). fst x < tr_fresh t" using pre by (simp add: pre_inv_def)
  ultimately show ?thesis
    using P pre_inv_append_marker [OF pre, of now p]
    by (auto simp: presim_def appendLocked_def marker_entry)
qed

lemma sim_mark:
  assumes s: "sim budget (t, I) (h, c)" and tr: "TrackResolved now p t = (t', a)"
  shows "\<exists>a'. spec_step (max 1 budget) (h, c) (EvTrackResolved p a) a' \<and> sim budget (t', I) a'"
proof (cases "tr_closed t")
  case True
  then have "t' = t" "a = None" "c = True" using tr s by (auto simp: TrackResolved_def sim_def)
  then show ?thesis using s spec_step.mark_closed by fastforce
next
  case False
  let ?h' = "h @ [sp_marker p]"
  have pre: "presim t I (sp_done h) (sp_open h)" and c: "c = False"
    using s False by (auto simp: sim_def)
  have h': "?h' = sp_done h @ (sp_open h @ [sp_marker p])" using sp_done_open [of h] by simp
  obtain u where u: "presim u I (sp_done h) (sp_open h @ [sp_marker p])"
    and adv: "advanceLocked u = (t', a)" and "tr_closed u = tr_closed t" "tr_budget u = tr_budget t"
  proof (cases "tr_list t \<noteq> [] \<and> marker (snd (last (tr_list t)))")
    case True
    then obtain ys i n where xs: "tr_list t = ys @ [(i, n)]" and "marker n"
      by (metis append_butlast_last_id prod.collapse)
    with presim_merge_marker [OF pre xs, of now p] tr False that show thesis
      by (simp add: TrackResolved_def)
  next
    case nm: False
    with presim_append_marker [OF pre, of now p] tr False that show thesis
      by (auto simp: TrackResolved_def appendLocked_def)
  qed
  then have "sim budget (t', I) (?h', c) \<and> a = sp_answer h ?h'"
    using s by (intro sim_advance [OF u adv refl h']) (simp_all add: sim_def)
  then show ?thesis using c spec_step.mark by fastforce
qed

lemma coalesce_keeps: "e \<in> set l \<Longrightarrow> \<not> sp_is_marker e \<Longrightarrow> e \<in> set (coalesce l)"
  by (induction l rule: coalesce.induct) auto

abbreviation sp_upd :: "nat \<Rightarrow> nat \<Rightarrow> bool \<Rightarrow> 'p entry \<Rightarrow> 'p entry" where
  "sp_upd i n ab e \<equiv> (if en_ticket e = Some i then sp_settle n ab e else e)"

lemma entry_of_discharge: "entry_of (i, discharge_node n ab nd) = sp_settle n ab (entry_of (i, nd))"
  by (simp add: entry_of_def discharge_node_def sp_settle_def Let_def)

lemma sp_settle_facts:
  "en_ticket (sp_settle n ab e) = en_ticket e" "en_weight (sp_settle n ab e) = en_weight e"
  by (simp_all add: sp_settle_def)

lemma wf_entry_upd: "wf_entry I e \<Longrightarrow> wf_entry I (sp_upd i n ab e)"
  by (auto simp: wf_entry_def sp_settle_facts)

lemma marker_upd: "wf_entry I e \<Longrightarrow> sp_is_marker (sp_upd i n ab e) = sp_is_marker e"
  by (auto simp: wf_entry_def sp_is_marker_def sp_settle_facts)

lemma presim_upd_list:
  assumes "presim t I h0 l" and "pre_inv (t\<lparr>tr_list := xs\<rparr>)" and "map entry_of xs = coalesce l'"
    and "\<forall>e \<in> set l'. wf_entry I e" and "\<forall>j \<in> I. \<forall>m. (j, m) \<in> set xs \<longrightarrow> nd_weight m \<noteq> 0"
  shows "presim (t\<lparr>tr_list := xs\<rparr>) I h0 l'"
  using assms by (auto simp: presim_def)

lemma presim_discharge:
  assumes P: "presim t I h0 l" and i: "map_of (tr_list t) i = Some nd" and I: "i \<in> I"
  shows "presim (t\<lparr>tr_list := AList.update i (discharge_node n ab nd) (tr_list t)\<rparr>) I h0
    (map (sp_upd i n ab) l)"
proof -
  have pre: "pre_inv t" and m: "map entry_of (tr_list t) = coalesce l"
    and wf: "\<forall>e \<in> set l. wf_entry I e" using P by (simp_all add: presim_def)
  have d: "distinct (map fst (tr_list t))" using pre by (simp add: pre_inv_def)
  let ?f = "\<lambda>(j, m). (j, if j = i then discharge_node n ab nd else m)"
  have up: "AList.update i (discharge_node n ab nd) (tr_list t) = map ?f (tr_list t)"
    by (rule update_existing [OF i d])
  have w: "nd_weight nd \<noteq> 0" using P I map_of_SomeD [OF i] by (auto simp: presim_def)
  have "entry_of (?f x) = sp_upd i n ab (entry_of x)" if "x \<in> set (tr_list t)" for x
  proof (cases "fst x = i")
    case True
    then have "x = (i, nd)" using that i d by (cases x) (auto dest: map_of_is_SomeI [OF d])
    with w show ?thesis by (simp add: entry_of_discharge) (simp add: entry_of_def)
  qed (auto simp: entry_of_def split: prod.split)
  then have "map entry_of (map ?f (tr_list t)) = map (sp_upd i n ab) (coalesce l)"
    by (auto simp: m [symmetric])
  also have "\<dots> = coalesce (map (sp_upd i n ab) l)"
    by (rule coalesce_map [symmetric], rule ballI, rule marker_upd, rule bspec [OF wf])
  finally have "map entry_of (AList.update i (discharge_node n ab nd) (tr_list t)) =
    coalesce (map (sp_upd i n ab) l)" using up by simp
  moreover have "\<forall>e \<in> set (map (sp_upd i n ab) l). wf_entry I e"
    using wf wf_entry_upd [of I _ i n ab] by fastforce
  moreover have "\<forall>j \<in> I. \<forall>m. (j, m) \<in> set (AList.update i (discharge_node n ab nd) (tr_list t)) \<longrightarrow>
      nd_weight m \<noteq> 0"
    unfolding up using P w by (auto simp: presim_def)
  ultimately show ?thesis
    by (rule presim_upd_list [OF P pre_inv_discharge [OF pre i]])
qed

lemma advance_idle: "front (tr_list t) = [] \<Longrightarrow> advanceLocked t = (t, None)"
  using front_rear [of "tr_list t"] by (simp add: advanceLocked_eq last_payload_def)

lemma presim_front:
  assumes "presim t I h0 l" shows "front (tr_list t) = [] \<longleftrightarrow> sp_done l = []"
proof -
  have ok: "\<forall>x \<in> set (tr_list t). node_ok (snd x)" using assms by (simp add: presim_def pre_inv_def)
  have "map entry_of (front (tr_list t)) = coalesce (sp_done l)"
    using assms map_front [OF ok] by (simp add: presim_def takeWhile_coalesce sp_done_def)
  then show ?thesis by (metis coalesce_eq_Nil map_is_Nil_conv)
qed

lemma sim_discharge:
  assumes s: "sim budget (t, I) (h, c)" and I: "i \<in> I"
    and dis: "discharge (Some i) n ab t = (t', a)" and h': "h' = sp_discharge i n ab h"
  shows "sim budget (t', I) (h', c) \<and> a = sp_answer h h'"
proof -
  have P: "presim t I (sp_done h) (sp_open h)" using s by (simp add: sim_def)
  show ?thesis
  proof (cases "map_of (tr_list t) i")
    case None
    have "en_ticket e \<noteq> Some i" if e: "e \<in> set (sp_open h)" for e
    proof
      assume k: "en_ticket e = Some i"
      with e P have "\<not> sp_is_marker e" by (force simp: presim_def wf_entry_def sp_is_marker_def)
      with e P have "e \<in> set (map entry_of (tr_list t))" by (simp add: coalesce_keeps presim_def)
      with k None show False
        by (force simp: entry_of_def map_of_eq_None_iff split: if_splits)
    qed
    then have "map (sp_upd i n ab) (sp_open h) = sp_open h" by (simp add: map_idI)
    then have "h' = h" by (simp add: h' sp_discharge_def sp_done_open)
    with None dis s show ?thesis by (auto simp: discharge_def sp_answer_def)
  next
    case (Some nd)
    let ?nd' = "discharge_node n ab nd" and ?l = "map (sp_upd i n ab) (sp_open h)"
    let ?u = "t\<lparr>tr_list := AList.update i ?nd' (tr_list t)\<rparr>"
    have U: "presim ?u I (sp_done h) ?l" by (rule presim_discharge [OF P Some I])
    have "sp_done ?l = []" if "0 < nd_refs ?nd'"
    proof -
      have "\<not> done_entry (sp_upd i n ab e)" if e: "e = hd (sp_open h)" "sp_open h \<noteq> []" for e
      proof -
        have nd: "\<not> done_entry e" using e by (simp add: sp_open_def hd_dropWhile)
        show ?thesis
        proof (cases "en_ticket e = Some i")
          case True
          have d: "distinct (map fst (tr_list t))" using P by (simp add: presim_def pre_inv_def)
          have "e \<in> set (map entry_of (tr_list t))"
            using e P nd by (simp add: coalesce_keeps presim_def) (metis coalesce_keeps hd_in_set marker_done)
          then have "e = entry_of (i, nd)"
            using True Some by (auto simp: entry_of_def split: if_splits dest!: map_of_is_SomeI [OF d])
          then show ?thesis
            using that \<open>0 < nd_refs ?nd'\<close> True entry_of_discharge [of i n ab nd]
            by (metis done_entry_def entry_of_simps(3) not_gr_zero snd_conv)
        qed (use nd in simp)
      qed
      then show ?thesis by (cases "sp_open h") (auto simp: sp_done_def)
    qed
    then have "advanceLocked ?u = (t', a)"
      using dis Some presim_front [OF U] advance_idle [of ?u] by (auto simp: discharge_def Let_def split: if_splits)
    then show ?thesis
      by (rule sim_advance [OF U _ refl]) (use s h' in \<open>simp_all add: sim_def sp_discharge_def\<close>)
  qed
qed

lemma tally_split: "tally es = tally (filter (\<lambda>e. \<not> P e) es) + tally (filter P es)"
  by (induction es) auto

lemma sim_step:
  assumes "sim budget s a" and "tracker_step s ev s'"
  shows "\<exists>a'. spec_step (max 1 budget) a ev a' \<and> sim budget s' a'"
proof -
  obtain h c where a: "a = (h, c)" by (cases a)
  from assms(2) show ?thesis
  proof cases
    case (ts_track now p w r t t' k I)
    then show ?thesis using assms(1) a sim_track [of budget t I h c now p w r t' k] by simp
  next
    case (ts_mark now p t t' x I)
    then show ?thesis using assms(1) a sim_mark [of budget t I h c now p t' x] by simp
  next
    case (ts_release i I n t t' x)
    then have "sim budget (t', I) (sp_discharge i n False h, c) \<and>
        x = sp_answer h (sp_discharge i n False h)"
      using assms(1) a by (intro sim_discharge) (auto simp: Release_def)
    with ts_release a spec_step.release show ?thesis by fastforce
  next
    case (ts_abandon i I t t' x)
    then have "sim budget (t', I) (sp_discharge i 0 True h, c) \<and>
        x = sp_answer h (sp_discharge i 0 True h)"
      using assms(1) a by (intro sim_discharge) (auto simp: Abandon_def)
    with ts_abandon a spec_step.abandon show ?thesis by fastforce
  next
    case (ts_close t I)
    then have "sim budget (tracker_Close t, I) (h, True)"
      using assms(1) a by (auto simp: sim_def presim_def tracker_Close_def pre_inv_def)
    with ts_close a spec_step.close show ?thesis by fastforce
  next
    case (ts_resolved t I)
    then show ?thesis
      using assms(1) a spec_step.resolved [of "max 1 budget" h c]
      by (auto simp: sim_def presim_def)
  next
    case (ts_counts t I)
    then have P: "presim t I (sp_done h) (sp_open h)" using assms(1) a by (simp add: sim_def)
    have "tally h = tally (sp_done h) + tally (sp_open h)"
      by (metis sp_done_open tally_simps(3))
    moreover have "tally (sp_done h) = tally (filter (\<lambda>e. \<not> en_abandoned e) (sp_done h)) +
        tally (filter en_abandoned (sp_done h))"
      by (rule tally_split)
    ultimately have "Counts t = sp_counts h"
      using P by (auto simp: Counts_def sp_counts_def presim_def pre_inv_def weights_tally)
    with ts_counts a assms(1) spec_step.counts [of "max 1 budget" h c] show ?thesis by auto
  qed
qed

lemma sim_init: "sim budget (NewTracker budget, {}) ([], False)"
  by (simp add: sim_def presim_def tracker_inv_pre tracker_inv_NewTracker)
    (simp add: NewTracker_def sp_done_def sp_open_def sp_prefix_def)

lemma tracker_trace_sim:
  "tracker_trace budget evs s \<Longrightarrow> \<exists>a. spec_trace (max 1 budget) evs a \<and> sim budget s a"
proof (induction rule: tracker_trace.induct)
  case tr_nil
  then show ?case using sim_init spec_trace.spec_nil by blast
next
  case (tr_snoc evs s ev s')
  then show ?case using sim_step spec_trace.spec_snoc by blast
qed

section \<open>Reachable trackers and waiting callers\<close>

lemma tracker_trace_inv: "tracker_trace budget evs s \<Longrightarrow> tracker_inv (fst s)"
proof (induction rule: tracker_trace.induct)
  case tr_nil
  show ?case by (simp add: tracker_inv_NewTracker)
next
  case (tr_snoc evs s ev s')
  from tr_snoc(2,3) show ?case
    by (elim tracker_stepE) (auto simp: Release_def Abandon_def tracker_inv_Close
        dest: tracker_inv_TryTrack tracker_inv_TrackResolved tracker_inv_discharge,
        (metis fst_conv tracker_inv_TryTrack tracker_inv_TrackResolved tracker_inv_discharge)+)
qed

lemma tracker_trace_budget: "tracker_trace budget evs s \<Longrightarrow> tr_budget (fst s) = (if budget = 0 then 1 else budget)"
  using tracker_trace_sim [of budget evs s] by (auto simp: sim_def)

lemma Track_as_TryTrack:
  assumes "\<not> tr_closed t" and "has_room w t"
  shows "Track evs now p w r t = (fst (TryTrack now p w r t), Tracked (tr_fresh t)) \<and>
    snd (TryTrack now p w r t) = Some (tr_fresh t)"
  using assms by (simp add: Track.simps TryTrack_def appendLocked_def)

section \<open>Properties\<close>

text \<open>
  C3: The tracker refines its specification: every sequence of calls and answers the code can
  produce is one the specification allows, in which an answer is the payload at the end of the
  longest prefix of admissions that are all done, the budget counts the weight admitted beyond it,
  and nothing is ever forgotten or merged.
\<close>

theorem tracker_refines_prefix_specification:
  "tracker_trace budget evs s \<Longrightarrow> \<exists>a. spec_trace (max 1 budget) evs a"
  using tracker_trace_sim by blast

text \<open>
  C20: In every reachable tracker the outstanding weight is exactly what the live nodes weigh, it is
  within the budget unless all of it belongs to a single node at the head, and what was admitted is
  what was settled, abandoned or is still outstanding.
\<close>

theorem tracker_budget_and_conservation:
  assumes "tracker_trace budget evs (t, I)"
  shows "tr_pending t = weights (tr_list t) \<and> tr_nodes t = length (tr_list t) \<and>
    (tr_pending t \<le> max 1 budget \<or> weights (tl (tr_list t)) = 0) \<and>
    tr_admitted t = tr_settled t + tr_abandoned t + tr_pending t"
  using tracker_trace_inv [OF assms] tracker_trace_budget [OF assms]
  by (auto simp: tracker_inv_def pre_inv_def bounded_def max_def split: if_splits)

section \<open>A run of the tracker\<close>

text \<open>Two admissions settled in the opposite order, and an oversized one on an empty tracker.\<close>

definition ex_t0 :: "nat tracker" where "ex_t0 = NewTracker 3"
definition ex_t1 :: "nat tracker" where "ex_t1 = fst (TryTrack 0 10 2 1 ex_t0)"
definition ex_t2 :: "nat tracker" where "ex_t2 = fst (TryTrack 0 20 1 1 ex_t1)"
definition ex_t3 :: "nat tracker" where "ex_t3 = fst (Release (Some 1) 1 ex_t2)"
definition ex_t4 :: "nat tracker" where "ex_t4 = fst (Release (Some 0) 1 ex_t3)"

lemmas ex_t_defs = ex_t0_def ex_t1_def ex_t2_def ex_t3_def ex_t4_def NewTracker_def TryTrack_def
  has_room_def appendLocked_def tracked_node_def Release_def discharge_def discharge_node_def
  advanceLocked_def

lemma ex_trace:
  "tracker_trace 3 [EvTrack 10 2 1 (Some 0), EvTrack 20 1 1 (Some 1), EvRelease 1 1 None, EvRelease 0 1 (Some 20)]
     (ex_t4, {0, 1})"
proof -
  have 1: "tracker_step (ex_t0, {}) (EvTrack 10 2 1 (Some 0)) (ex_t1, {0})"
    using ts_track [of 0 10 2 1 ex_t0 ex_t1 "Some 0" "{}"] by (simp add: ex_t_defs)
  have 2: "tracker_step (ex_t1, {0}) (EvTrack 20 1 1 (Some 1)) (ex_t2, {0, 1})"
    using ts_track [of 0 20 1 1 ex_t1 ex_t2 "Some 1" "{0}"] by (simp add: ex_t_defs insert_commute)
  have 3: "tracker_step (ex_t2, {0, 1}) (EvRelease 1 1 None) (ex_t3, {0, 1})"
    by (rule ts_release) (simp_all add: ex_t_defs)
  have 4: "tracker_step (ex_t3, {0, 1}) (EvRelease 0 1 (Some 20)) (ex_t4, {0, 1})"
    by (rule ts_release) (simp_all add: ex_t_defs)
  have "tracker_trace 3 ((([] @ [EvTrack 10 2 1 (Some 0)]) @ [EvTrack 20 1 1 (Some 1)]) @ [EvRelease 1 1 None])
      (ex_t3, {0, 1})"
    by (rule tr_snoc [OF tr_snoc [OF tr_snoc [OF tr_nil]]])
      (use 1 2 3 in \<open>simp_all add: ex_t0_def\<close>)
  from tr_snoc [OF this 4] show ?thesis by simp
qed

theorem tracker_refines_prefix_specification_witness:
  "\<exists>evs s a. tracker_trace 3 evs s \<and> length (evs :: nat tr_event list) = 4 \<and> spec_trace (max 1 3) evs a"
proof -
  from tracker_refines_prefix_specification [OF ex_trace] ex_trace show ?thesis
    by (intro exI [of _ "[EvTrack 10 2 1 (Some 0), EvTrack 20 1 1 (Some 1), EvRelease 1 1 None, EvRelease 0 1 (Some 20)]"]) auto
qed

theorem tracker_budget_and_conservation_witness:
  "\<exists>evs. tracker_trace 3 evs (ex_t4, {0, 1}) \<and> tr_admitted ex_t4 = tr_settled ex_t4 + tr_abandoned ex_t4 + tr_pending ex_t4 \<and>
     tr_admitted ex_t4 = 3"
  using tracker_budget_and_conservation [OF ex_trace] ex_trace by (auto simp: ex_t_defs)

end
