(* ===== verification/Canal_Record.thy ===== *)
theory Canal_Record
  imports Canal_Prelude
begin

text \<open>
  The envelope (\<^verbatim>\<open>pkg/record\<close>): \<^verbatim>\<open>Blob\<close>, \<^verbatim>\<open>Position\<close> with its comparison and fraction,
  \<^verbatim>\<open>Origin\<close>, the dual-view \<^verbatim>\<open>Payload\<close>, the namespaced \<^verbatim>\<open>Meta\<close>, \<^verbatim>\<open>Change\<close>, \<^verbatim>\<open>Record\<close>, the
  \<^verbatim>\<open>Allocator\<close> that stamps identity and the \<^verbatim>\<open>Batch\<close> built over it.

  The field value type \<^verbatim>\<open>Value\<close> is the type parameter \<open>'v\<close>: nothing here looks inside one, and a
  deep copy of a value is the value. A pointer to an allocator is shared between the batches it
  was handed to, so the allocator is not a field of the batch but an argument and a result of
  every operation that may advance it (\<open>None\<close> is the nil pointer).
\<close>

section \<open>Blob and Position\<close>

record blob =
  blob_Version :: nat
  blob_Bytes :: "bytes option"

definition blob_IsZero :: "blob \<Rightarrow> bool" where
  "blob_IsZero b \<longleftrightarrow> blob_Version b = 0 \<and>
     (case blob_Bytes b of None \<Rightarrow> True | Some bs \<Rightarrow> bs = [])"

definition zero_blob :: blob where
  "zero_blob = \<lparr>blob_Version = 0, blob_Bytes = None\<rparr>"

record position =
  pos_Seq :: nat
  pos_Token :: blob
  pos_Order :: "bytes option"
  pos_Scalar :: "rat option"
  pos_Label :: string
  pos_Safe :: bool
  pos_At :: time

definition zero_position :: position where
  "zero_position = \<lparr>pos_Seq = 0, pos_Token = zero_blob, pos_Order = None, pos_Scalar = None,
     pos_Label = '''', pos_Safe = False, pos_At = 0\<rparr>"

definition pos_IsZero :: "position \<Rightarrow> bool" where
  "pos_IsZero p \<longleftrightarrow> pos_Seq p = 0 \<and> blob_IsZero (pos_Token p)"

definition pos_Comparable :: "position \<Rightarrow> bool" where
  "pos_Comparable p \<longleftrightarrow> pos_Order p \<noteq> None"

text \<open>\<^verbatim>\<open>bytes.Compare\<close>: lexicographic on unsigned bytes.\<close>

fun bytes_Compare :: "bytes \<Rightarrow> bytes \<Rightarrow> int" where
  "bytes_Compare [] [] = 0"
| "bytes_Compare [] (b # bs) = -1"
| "bytes_Compare (a # as) [] = 1"
| "bytes_Compare (a # as) (b # bs) =
     (if of_char a < (of_char b :: nat) then -1
      else if of_char b < (of_char a :: nat) then 1 else bytes_Compare as bs)"

definition pos_Compare :: "position \<Rightarrow> position \<Rightarrow> int \<times> bool" where
  "pos_Compare p q =
     (case (pos_Order p, pos_Order q) of
        (Some a, Some b) \<Rightarrow> (bytes_Compare a b, True)
      | _ \<Rightarrow> (0, False))"

definition Fraction :: "position \<Rightarrow> position \<Rightarrow> position \<Rightarrow> rat \<times> bool" where
  "Fraction lo p hi =
     (case (pos_Scalar lo, pos_Scalar p, pos_Scalar hi) of
        (Some l, Some c, Some h) \<Rightarrow>
          (if \<not> h > l then (0, False)
           else let f = (c - l) / (h - l) in
             if f < 0 then (0, True) else if f > 1 then (1, True) else (f, True))
      | _ \<Rightarrow> (0, False))"

section \<open>Payload\<close>

record 'v payload =
  pl_b :: "bytes option"
  pl_v :: "'v option"
  pl_hasBytes :: bool
  pl_hasStruct :: bool

definition empty_payload :: "'v payload" where
  "empty_payload = \<lparr>pl_b = None, pl_v = None, pl_hasBytes = False, pl_hasStruct = False\<rparr>"

definition BytesPayload :: "bytes option \<Rightarrow> 'v payload" where
  "BytesPayload b = empty_payload\<lparr>pl_b := b, pl_hasBytes := True\<rparr>"

definition StructPayload :: "'v option \<Rightarrow> 'v payload" where
  "StructPayload v = empty_payload\<lparr>pl_v := v, pl_hasStruct := True\<rparr>"

definition pl_Bytes :: "'v payload \<Rightarrow> bytes option \<times> bool" where
  "pl_Bytes p = (if \<not> pl_hasBytes p then (None, False) else (pl_b p, True))"

definition pl_Structured :: "'v payload \<Rightarrow> 'v option \<times> bool" where
  "pl_Structured p = (if \<not> pl_hasStruct p then (None, False) else (pl_v p, True))"

definition pl_StructuredMut :: "'v payload \<Rightarrow> 'v payload \<times> 'v option \<times> bool" where
  "pl_StructuredMut p =
     (if \<not> pl_hasStruct p then (p, None, False)
      else (p\<lparr>pl_b := None, pl_hasBytes := False, pl_hasStruct := True\<rparr>, pl_v p, True))"

definition pl_SetBytes :: "bytes option \<Rightarrow> 'v payload \<Rightarrow> 'v payload" where
  "pl_SetBytes b p = p\<lparr>pl_b := b, pl_hasBytes := True\<rparr>"

definition pl_SetStructured :: "'v option \<Rightarrow> 'v payload \<Rightarrow> 'v payload" where
  "pl_SetStructured v p = p\<lparr>pl_v := v, pl_hasStruct := True\<rparr>"

definition pl_ClearBytes :: "'v payload \<Rightarrow> 'v payload" where
  "pl_ClearBytes p = p\<lparr>pl_b := None, pl_hasBytes := False\<rparr>"

definition slice_len :: "'a list option \<Rightarrow> nat" where
  "slice_len s = (case s of None \<Rightarrow> 0 | Some xs \<Rightarrow> length xs)"

definition pl_Len :: "'v payload \<Rightarrow> int" where
  "pl_Len p = (if \<not> pl_hasBytes p then -1 else int (slice_len (pl_b p)))"

definition pl_IsEmpty :: "'v payload \<Rightarrow> bool" where
  "pl_IsEmpty p \<longleftrightarrow> \<not> pl_hasBytes p \<and> \<not> pl_hasStruct p"

text \<open>\<^verbatim>\<open>Clone\<close> copies a view only when its bit is set; copying a nil byte view leaves an empty one.\<close>

definition pl_Clone :: "'v payload \<Rightarrow> 'v payload" where
  "pl_Clone p = \<lparr>
     pl_b = (if pl_hasBytes p then Some (case pl_b p of None \<Rightarrow> [] | Some b \<Rightarrow> b) else None),
     pl_v = (if pl_hasStruct p then pl_v p else None),
     pl_hasBytes = pl_hasBytes p, pl_hasStruct = pl_hasStruct p\<rparr>"

section \<open>Meta\<close>

definition NSCanal :: string where "NSCanal = ''canal''"
definition NSSource :: string where "NSSource = ''source''"
definition NSSink :: string where "NSSink = ''sink''"
definition NSUser :: string where "NSUser = ''user''"

datatype field_change_kind = FieldChangeUnknown | FieldNulled | FieldTruncated | FieldRounded
  | FieldRedacted | FieldUnavailable

record field_change =
  fc_Path :: string
  fc_Kind :: field_change_kind
  fc_Detail :: string

text \<open>The slice of triples is a list of \<open>((ns, key), value)\<close>.\<close>

record 'v meta =
  meta_kv :: "((string \<times> string) \<times> 'v option) list"
  meta_secrets :: "(string \<times> string) list"
  meta_changes :: "field_change list"

definition empty_meta :: "'v meta" where
  "empty_meta = \<lparr>meta_kv = [], meta_secrets = [], meta_changes = []\<rparr>"

definition validNS :: "string \<Rightarrow> bool" where
  "validNS ns \<longleftrightarrow> ns = NSCanal \<or> ns = NSSource \<or> ns = NSSink \<or> ns = NSUser"

definition meta_Get :: "string \<Rightarrow> string \<Rightarrow> 'v meta \<Rightarrow> 'v option \<times> bool" where
  "meta_Get ns key m =
     (case map_of (meta_kv m) (ns, key) of None \<Rightarrow> (None, False) | Some v \<Rightarrow> (v, True))"

definition meta_set :: "string \<Rightarrow> string \<Rightarrow> 'v option \<Rightarrow> 'v meta \<Rightarrow> 'v meta" where
  "meta_set ns key v m = m\<lparr>meta_kv := aput (ns, key) v (meta_kv m)\<rparr>"

datatype meta_error = ErrReadOnlyNamespace string | ErrUnknownNamespace string

definition meta_Set :: "string \<Rightarrow> string \<Rightarrow> 'v option \<Rightarrow> 'v meta \<Rightarrow> meta_error + 'v meta" where
  "meta_Set ns key v m =
     (if ns = NSCanal then Inl (ErrReadOnlyNamespace ns)
      else if \<not> validNS ns then Inl (ErrUnknownNamespace ns)
      else Inr (meta_set ns key v m))"

fun del_first :: "'k \<Rightarrow> ('k \<times> 'v) list \<Rightarrow> ('k \<times> 'v) list" where
  "del_first k [] = []"
| "del_first k ((k', v) # m) = (if k' = k then m else (k', v) # del_first k m)"

definition meta_Delete :: "string \<Rightarrow> string \<Rightarrow> 'v meta \<Rightarrow> 'v meta" where
  "meta_Delete ns key m = m\<lparr>meta_kv := del_first (ns, key) (meta_kv m)\<rparr>"

definition meta_All :: "string \<Rightarrow> 'v meta \<Rightarrow> (string \<times> 'v option) list" where
  "meta_All ns m = map (\<lambda>((_, k), v). (k, v)) (filter (\<lambda>((n, _), _). n = ns) (meta_kv m))"

definition meta_Len :: "'v meta \<Rightarrow> nat" where
  "meta_Len m = length (meta_kv m)"

definition meta_SetSecret :: "string \<Rightarrow> string \<Rightarrow> 'v meta \<Rightarrow> 'v meta" where
  "meta_SetSecret key v m = m\<lparr>meta_secrets := aput key v (meta_secrets m)\<rparr>"

definition meta_Secret :: "string \<Rightarrow> 'v meta \<Rightarrow> string \<times> bool" where
  "meta_Secret key m =
     (case map_of (meta_secrets m) key of None \<Rightarrow> ('''', False) | Some v \<Rightarrow> (v, True))"

definition meta_NoteChange :: "field_change \<Rightarrow> 'v meta \<Rightarrow> 'v meta" where
  "meta_NoteChange fc m = m\<lparr>meta_changes := meta_changes m @ [fc]\<rparr>"

section \<open>Change\<close>

datatype change_op = OpUnknown | OpInsert | OpUpdate | OpDelete | OpTruncate | OpScanRead | OpUpsert

datatype completeness = CompletenessAbsent | CompletenessPartial | CompletenessComplete

record 'v change =
  chg_Version :: nat
  chg_Op :: change_op
  chg_Keys :: "string list list option"
  chg_Before :: "'v payload option"
  chg_After :: "'v payload option"
  chg_BeforeComplete :: completeness
  chg_AfterComplete :: completeness
  chg_TxID :: string
  chg_CommitTime :: time

definition chg_Clone :: "'v change option \<Rightarrow> 'v change option" where
  "chg_Clone c = map_option (\<lambda>d. d\<lparr>chg_Before := map_option pl_Clone (chg_Before d),
     chg_After := map_option pl_Clone (chg_After d)\<rparr>) c"

section \<open>Origin and Record\<close>

record origin =
  o_Tenant :: tenant_id
  o_Pipeline :: pipeline_id
  o_Node :: node_id
  o_Lane :: lane_id
  o_Stream :: stream_name
  o_Group :: group_id
  o_ID :: record_id
  o_Key :: "bytes option"
  o_Upstream :: "bytes option"
  o_ReadAt :: time
  o_Parent :: record_id
  o_Parents :: "record_id list option"
  o_Root :: record_id
  o_refs :: nat

record schema_ref =
  sref_Fingerprint :: bytes
  sref_Epoch :: nat
  sref_Stream :: string

text \<open>The fault a record carries is an error of type \<open>'e\<close>.\<close>

record ('v, 'e) rec =
  rec_origin :: origin
  rec_Dest :: stream_name
  rec_EventTime :: time
  rec_Payload :: "'v payload"
  rec_Meta :: "'v meta"
  rec_Change :: "'v change option"
  rec_Schema :: "schema_ref option"
  rec_handle :: "bytes option"
  rec_fault :: "'e option"

definition SetHandle :: "bytes option \<Rightarrow> ('v, 'e) rec \<Rightarrow> ('v, 'e) rec" where
  "SetHandle h r = r\<lparr>rec_handle := h\<rparr>"

definition SetKey :: "bytes option \<Rightarrow> ('v, 'e) rec \<Rightarrow> ('v, 'e) rec" where
  "SetKey k r = r\<lparr>rec_origin := (rec_origin r)\<lparr>o_Key := k\<rparr>\<rparr>"

definition SetUpstream :: "bytes option \<Rightarrow> ('v, 'e) rec \<Rightarrow> ('v, 'e) rec" where
  "SetUpstream u r = r\<lparr>rec_origin := (rec_origin r)\<lparr>o_Upstream := u\<rparr>\<rparr>"

definition MarkFailed :: "'e option \<Rightarrow> ('v, 'e) rec \<Rightarrow> ('v, 'e) rec" where
  "MarkFailed e r = r\<lparr>rec_fault := e\<rparr>"

definition Failed :: "('v, 'e) rec \<Rightarrow> 'e option \<times> bool" where
  "Failed r = (rec_fault r, rec_fault r \<noteq> None)"

record ref =
  ref_ID :: record_id
  ref_Group :: group_id
  ref_Lane :: lane_id
  ref_Stream :: stream_name
  ref_Key :: "bytes option"

definition Ref :: "('v, 'e) rec \<Rightarrow> ref" where
  "Ref r = \<lparr>ref_ID = o_ID (rec_origin r), ref_Group = o_Group (rec_origin r),
     ref_Lane = o_Lane (rec_origin r), ref_Stream = rec_Dest r, ref_Key = o_Key (rec_origin r)\<rparr>"

section \<open>Allocator\<close>

record allocator =
  al_tenant :: tenant_id
  al_pipeline :: pipeline_id
  al_node :: node_id
  al_lane :: lane_id
  al_stream :: stream_name
  al_nextID :: record_id
  al_nextGroup :: group_id

definition NewAllocator ::
  "tenant_id \<Rightarrow> pipeline_id \<Rightarrow> node_id \<Rightarrow> lane_id \<Rightarrow> stream_name \<Rightarrow> record_id \<Rightarrow> group_id \<Rightarrow> allocator"
where
  "NewAllocator t p n l stream firstID firstGroup = \<lparr>al_tenant = t, al_pipeline = p, al_node = n,
     al_lane = l, al_stream = stream, al_nextID = firstID, al_nextGroup = firstGroup\<rparr>"

definition NextGroup :: "allocator \<Rightarrow> allocator \<times> group_id" where
  "NextGroup a = (a\<lparr>al_nextGroup := al_nextGroup a + 1\<rparr>, al_nextGroup a)"

definition nextRecordID :: "allocator \<Rightarrow> allocator \<times> record_id" where
  "nextRecordID a = (a\<lparr>al_nextID := al_nextID a + 1\<rparr>, al_nextID a)"

section \<open>Batch\<close>

record ('v, 'e) batch =
  b_Records :: "('v, 'e) rec list"
  b_Lane :: lane_id
  b_Position :: position
  b_EndOfLane :: bool
  b_group :: group_id
  b_cap :: nat

definition NewBatch :: "allocator option \<Rightarrow> int \<Rightarrow> allocator option \<times> ('v, 'e) batch" where
  "NewBatch ao capHint =
     (let c = (if capHint < 1 then 1 else nat capHint);
          b = \<lparr>b_Records = [], b_Lane = '''', b_Position = zero_position, b_EndOfLane = False,
               b_group = 0, b_cap = c\<rparr>
      in case ao of
           None \<Rightarrow> (None, b)
         | Some a \<Rightarrow> let (a', g) = NextGroup a in (Some a', b\<lparr>b_group := g, b_Lane := al_lane a\<rparr>))"

definition NewBatchLike :: "('v, 'e) batch option \<Rightarrow> int \<Rightarrow> ('v, 'e) batch" where
  "NewBatchLike src capHint =
     (let c = (if capHint < 1 then 1 else nat capHint) in
      case src of
        None \<Rightarrow> \<lparr>b_Records = [], b_Lane = '''', b_Position = zero_position, b_EndOfLane = False,
                 b_group = 0, b_cap = c\<rparr>
      | Some s \<Rightarrow> \<lparr>b_Records = [], b_Lane = b_Lane s, b_Position = zero_position,
                   b_EndOfLane = False, b_group = b_group s, b_cap = c\<rparr>)"

definition AddFor :: "time \<Rightarrow> stream_name \<Rightarrow> allocator option \<Rightarrow> ('v, 'e) batch \<Rightarrow>
    allocator option \<times> ('v, 'e) batch \<times> ('v, 'e) rec option" where
  "AddFor now stream ao b =
     (case ao of
        None \<Rightarrow> (ao, b, None)
      | Some a \<Rightarrow>
          if length (b_Records b) \<ge> b_cap b then (ao, b, None)
          else
            let (a', i) = nextRecordID a;
                org = \<lparr>o_Tenant = al_tenant a, o_Pipeline = al_pipeline a, o_Node = al_node a,
                  o_Lane = al_lane a, o_Stream = stream, o_Group = b_group b, o_ID = i,
                  o_Key = None, o_Upstream = None, o_ReadAt = now, o_Parent = 0,
                  o_Parents = None, o_Root = i, o_refs = 1\<rparr>;
                r = \<lparr>rec_origin = org, rec_Dest = stream, rec_EventTime = 0,
                  rec_Payload = empty_payload, rec_Meta = empty_meta, rec_Change = None,
                  rec_Schema = None, rec_handle = None, rec_fault = None\<rparr>
            in (Some a', b\<lparr>b_Records := b_Records b @ [r]\<rparr>, Some r))"

definition Add :: "time \<Rightarrow> allocator option \<Rightarrow> ('v, 'e) batch \<Rightarrow>
    allocator option \<times> ('v, 'e) batch \<times> ('v, 'e) rec option" where
  "Add now ao b =
     (case ao of None \<Rightarrow> (ao, b, None) | Some a \<Rightarrow> AddFor now (al_stream a) ao b)"

definition Derive :: "allocator option \<Rightarrow> ('v, 'e) batch \<Rightarrow> ('v, 'e) rec option \<Rightarrow>
    allocator option \<times> ('v, 'e) batch \<times> ('v, 'e) rec option" where
  "Derive ao b in_rec =
     (case (ao, in_rec) of
        (Some a, Some i) \<Rightarrow>
          if length (b_Records b) \<ge> b_cap b then (ao, b, None)
          else
            let (a', new) = nextRecordID a;
                io = rec_origin i;
                org = io\<lparr>o_ID := new, o_Parent := o_ID io, o_Parents := None,
                  o_Root := (if o_Root io \<noteq> 0 then o_Root io else o_ID io), o_refs := 1\<rparr>;
                r = \<lparr>rec_origin = org, rec_Dest = rec_Dest i, rec_EventTime = rec_EventTime i,
                  rec_Payload = pl_Clone (rec_Payload i), rec_Meta = rec_Meta i,
                  rec_Change = chg_Clone (rec_Change i), rec_Schema = rec_Schema i,
                  rec_handle =
                    (case rec_handle i of Some (c # cs) \<Rightarrow> Some (c # cs) | _ \<Rightarrow> None),
                  rec_fault = None\<rparr>
            in (Some a', b\<lparr>b_Records := b_Records b @ [r]\<rparr>, Some r)
      | _ \<Rightarrow> (ao, b, None))"

text \<open>
  \<^verbatim>\<open>append([]byte(nil), h...)\<close> of an empty handle is nil, which the case above writes out.
  A nil parent is skipped; dereferencing a nil first parent panics, the error value of \<open>Merge\<close>.
\<close>

datatype merge_panic = NilDereference

fun sum_refs :: "('v, 'e) rec list \<Rightarrow> nat" where
  "sum_refs [] = 0"
| "sum_refs (p # ps) = u32_add (o_refs (rec_origin p)) (sum_refs ps)"

definition somes :: "'a option list \<Rightarrow> 'a list" where
  "somes xs = map the (filter (\<lambda>x. x \<noteq> None) xs)"

definition Merge :: "allocator option \<Rightarrow> ('v, 'e) batch \<Rightarrow> ('v, 'e) rec option list \<Rightarrow>
    merge_panic + (allocator option \<times> ('v, 'e) batch \<times> ('v, 'e) rec option)" where
  "Merge ao b parents =
     (case (ao, parents) of
        (Some a, p # ps) \<Rightarrow>
          if length (b_Records b) \<ge> b_cap b then Inr (ao, b, None)
          else (case p of
            None \<Rightarrow> Inl NilDereference
          | Some first \<Rightarrow>
              let (a', new) = nextRecordID a;
                  fo = rec_origin first;
                  live = somes parents;
                  org = fo\<lparr>o_ID := new, o_Parent := 0,
                    o_Parents := Some (map (\<lambda>q. o_ID (rec_origin q)) live),
                    o_refs := sum_refs live,
                    o_Root := (if o_Root fo \<noteq> 0 then o_Root fo else o_ID fo)\<rparr>;
                  r = \<lparr>rec_origin = org, rec_Dest = rec_Dest first,
                    rec_EventTime = rec_EventTime first, rec_Payload = empty_payload,
                    rec_Meta = rec_Meta first, rec_Change = None, rec_Schema = rec_Schema first,
                    rec_handle = None, rec_fault = None\<rparr>
              in Inr (Some a', b\<lparr>b_Records := b_Records b @ [r]\<rparr>, Some r))
      | _ \<Rightarrow> Inr (ao, b, None))"

definition Reset :: "allocator option \<Rightarrow> ('v, 'e) batch \<Rightarrow> allocator option \<times> ('v, 'e) batch" where
  "Reset ao b =
     (let b' = b\<lparr>b_Records := [], b_Position := zero_position, b_EndOfLane := False\<rparr> in
      case ao of
        None \<Rightarrow> (None, b')
      | Some a \<Rightarrow> let (a', g) = NextGroup a in (Some a', b'\<lparr>b_group := g\<rparr>))"

definition batch_Len :: "('v, 'e) batch \<Rightarrow> nat" where
  "batch_Len b = length (b_Records b)"

definition batch_Bytes :: "('v, 'e) batch \<Rightarrow> int" where
  "batch_Bytes b = sum_list (map (\<lambda>r. let l = pl_Len (rec_Payload r) in if l > 0 then l else 0)
     (b_Records b))"

definition SetSeq :: "nat \<Rightarrow> ('v, 'e) batch \<Rightarrow> ('v, 'e) batch" where
  "SetSeq seq b = b\<lparr>b_Position := (b_Position b)\<lparr>pos_Seq := seq\<rparr>\<rparr>"

definition SetGroup :: "group_id \<Rightarrow> ('v, 'e) batch \<Rightarrow> ('v, 'e) batch" where
  "SetGroup g b = b\<lparr>b_group := g\<rparr>"

section \<open>Identities are issued once\<close>

text \<open>
  The operations of a batch that materialise a record, and the ids they issue when any number of
  batches share one allocator: each entry is an operation and the batch it is called on.
\<close>

datatype ('v, 'e) batch_op =
    AddOp time
  | AddForOp time stream_name
  | DeriveOp "('v, 'e) rec option"
  | MergeOp "('v, 'e) rec option list"

fun run_op :: "('v, 'e) batch_op \<Rightarrow> allocator option \<Rightarrow> ('v, 'e) batch \<Rightarrow>
    allocator option \<times> ('v, 'e) batch \<times> ('v, 'e) rec option" where
  "run_op (AddOp now) a b = Add now a b"
| "run_op (AddForOp now stream) a b = AddFor now stream a b"
| "run_op (DeriveOp r) a b = Derive a b r"
| "run_op (MergeOp ps) a b = (case Merge a b ps of Inl _ \<Rightarrow> (a, b, None) | Inr x \<Rightarrow> x)"

fun issued :: "(('v, 'e) batch_op \<times> ('v, 'e) batch) list \<Rightarrow> allocator option \<Rightarrow> record_id list" where
  "issued [] a = []"
| "issued ((op, b) # ops) a =
     (let (a', b', r) = run_op op a b
      in (case r of None \<Rightarrow> issued ops a' | Some r \<Rightarrow> o_ID (rec_origin r) # issued ops a'))"

lemma run_op_cases:
  assumes "run_op op a b = (a', b', r)"
  shows "(r = None \<and> a' = a \<and> b' = b) \<or>
    (\<exists>x rc. a = Some x \<and> r = Some rc \<and> a' = Some (x\<lparr>al_nextID := al_nextID x + 1\<rparr>) \<and>
       o_ID (rec_origin rc) = al_nextID x \<and> b' = b\<lparr>b_Records := b_Records b @ [rc]\<rparr> \<and>
       length (b_Records b) < b_cap b)"
  using assms
  by (cases op) (auto simp: Add_def AddFor_def Derive_def Merge_def nextRecordID_def Let_def
      split: option.splits list.splits if_splits)

lemma issued_from: "\<exists>k. issued ops (Some x) = [al_nextID x ..< al_nextID x + k]"
proof (induction ops arbitrary: x)
  case Nil
  show ?case by (rule exI [of _ 0]) simp
next
  case (Cons c ops)
  obtain op b where c: "c = (op, b)" by (cases c)
  obtain a' b' r where e: "run_op op (Some x) b = (a', b', r)" by (metis prod_cases3)
  from run_op_cases [OF e] show ?case
  proof
    assume "r = None \<and> a' = Some x \<and> b' = b"
    with Cons [of x] e c show ?thesis by simp
  next
    assume "\<exists>y rc. Some x = Some y \<and> r = Some rc \<and> a' = Some (y\<lparr>al_nextID := al_nextID y + 1\<rparr>) \<and>
       o_ID (rec_origin rc) = al_nextID y \<and> b' = b\<lparr>b_Records := b_Records b @ [rc]\<rparr> \<and>
       length (b_Records b) < b_cap b"
    then obtain rc where y: "r = Some rc" "a' = Some (x\<lparr>al_nextID := al_nextID x + 1\<rparr>)"
      "o_ID (rec_origin rc) = al_nextID x" by blast
    obtain k where "issued ops a' = [al_nextID x + 1 ..< al_nextID x + 1 + k]"
      using Cons [of "x\<lparr>al_nextID := al_nextID x + 1\<rparr>"] y(2) by auto
    then have "issued (c # ops) (Some x) = [al_nextID x ..< al_nextID x + Suc k]"
      using e c y by (simp add: upt_conv_Cons)
    then show ?thesis by blast
  qed
qed

lemma sum_refs_eq:
  "sum_list (map (\<lambda>r. o_refs (rec_origin r)) rs) < 2 ^ 32 \<Longrightarrow>
   sum_refs rs = sum_list (map (\<lambda>r. o_refs (rec_origin r)) rs)"
  by (induction rs) (simp_all add: u32_add_def)

section \<open>Properties\<close>

text \<open>
  Whatever batches share an allocator and however records are added, derived and merged, the
  ids issued are consecutive and so distinct: no two materialisations share a record id.
\<close>

theorem record_ids_issued_once:
  "issued ops (Some a) = [al_nextID a ..< al_nextID a + length (issued ops (Some a))] \<and>
   distinct (issued ops (Some a))"
proof -
  obtain k where "issued ops (Some a) = [al_nextID a ..< al_nextID a + k]"
    using issued_from [of ops a] by blast
  then show ?thesis by simp
qed

text \<open>
  Settlement identity is closed under derivation: a derived record stays in its parent's lane,
  stream and settlement group with one reference and its ancestor's root; a merged one joins the
  first parent's group and carries the references of all of its parents, as long as their sum fits
  the counter.
\<close>

theorem derived_records_keep_settlement_identity:
  assumes "Derive (Some a) b (Some i) = (a', b', Some r)"
    and "Merge (Some a) b (map Some ps) = Inr (a'', b'', Some m)"
    and "sum_list (map (\<lambda>p. o_refs (rec_origin p)) ps) < 2 ^ 32"
  shows "o_Group (rec_origin r) = o_Group (rec_origin i) \<and> o_Lane (rec_origin r) = o_Lane (rec_origin i) \<and>
    o_Stream (rec_origin r) = o_Stream (rec_origin i) \<and> o_refs (rec_origin r) = 1 \<and>
    o_Parent (rec_origin r) = o_ID (rec_origin i) \<and>
    (o_Root (rec_origin i) \<noteq> 0 \<longrightarrow> o_Root (rec_origin r) = o_Root (rec_origin i)) \<and>
    o_Group (rec_origin m) = o_Group (rec_origin (hd ps)) \<and>
    o_refs (rec_origin m) = sum_list (map (\<lambda>p. o_refs (rec_origin p)) ps)"
proof -
  have s: "somes (map Some ps) = ps" for ps :: "('a, 'b) rec list"
    by (induction ps) (auto simp: somes_def)
  obtain q qs where "ps = q # qs" using assms(2) by (cases ps) (auto simp: Merge_def)
  moreover from this assms(2) have "o_Group (rec_origin m) = o_Group (rec_origin q)"
    and "o_refs (rec_origin m) = sum_refs ps"
    using s [of ps] by (auto simp: Merge_def Let_def nextRecordID_def split: if_splits)
  ultimately show ?thesis
    using assms(1) sum_refs_eq [OF assms(3)]
    by (auto simp: Derive_def Let_def nextRecordID_def split: if_splits)
qed

definition ex_al :: allocator where
  "ex_al = NewAllocator ''t'' ''p'' ''n'' ''L'' ''s'' 1 1"

definition ex_full :: "(unit, unit) batch" where
  "ex_full = (let (a, b) = NewBatch (Some ex_al) 8; (a, b, _) = Add 0 a b; (a, b, _) = Add 0 a b in b)"

theorem derived_records_keep_settlement_identity_witness:
  "\<exists>a' b' r a'' b'' m. Derive (Some ex_al) ex_full (Some (hd (b_Records ex_full))) = (a', b', Some r) \<and>
     Merge (Some ex_al) ex_full (map Some (b_Records ex_full)) = Inr (a'', b'', Some m) \<and>
     o_refs (rec_origin m) = 2 \<and> o_Group (rec_origin m) = 1 \<and> o_Parent (rec_origin r) = 1"
proof -
  let ?ps = "b_Records ex_full"
  obtain a' b' r where d: "Derive (Some ex_al) ex_full (Some (hd ?ps)) = (a', b', Some r)"
    by (simp add: ex_full_def ex_al_def NewBatch_def NextGroup_def NewAllocator_def Add_def AddFor_def
        nextRecordID_def Derive_def Let_def)
  obtain a'' b'' m where m: "Merge (Some ex_al) ex_full (map Some ?ps) = Inr (a'', b'', Some m)"
    by (simp add: ex_full_def ex_al_def NewBatch_def NextGroup_def NewAllocator_def Add_def AddFor_def
        nextRecordID_def Merge_def Let_def)
  have "sum_list (map (\<lambda>p. o_refs (rec_origin p)) ?ps) = 2" and "o_Group (rec_origin (hd ?ps)) = 1"
    and "o_ID (rec_origin (hd ?ps)) = 1"
    by (simp_all add: ex_full_def ex_al_def NewBatch_def NextGroup_def NewAllocator_def Add_def AddFor_def
        nextRecordID_def Let_def)
  with derived_records_keep_settlement_identity [OF d m] d m show ?thesis by auto
qed

end
