(* ===== verification/Canal_Ledger.thy ===== *)
theory Canal_Ledger
  imports Canal_Record Canal_Tracker
begin

text \<open>
  The settlement ledger (\<^verbatim>\<open>internal/ledger/ledger.go\<close>): lanes with their trackers, open
  settlement groups, and the acknowledgements a source is told.

  The maps \<^verbatim>\<open>lanes\<close>, \<^verbatim>\<open>groups\<close> and \<^verbatim>\<open>byRec\<close> are association lists. A \<^verbatim>\<open>*laneState\<close> is reached through the
  lane table only, so the tracker a lane points to is a field of its state (every registered lane
  has one, so the nil tests of the code never fire). \<^verbatim>\<open>Admit\<close> holds the ledger's mutex twice and calls
  the tracker in between; it is modelled by its three critical sections \<open>Admit_begin\<close>,
  \<open>Admit_track\<close> and \<open>Admit_end\<close>, so that other operations can run between them, and by
  their composition \<open>Admit\<close>. \<open>led_acks\<close> is the list of the acknowledgements
  in the order in which they are built; \<^verbatim>\<open>Committed\<close> and \<^verbatim>\<open>emitDiscrete\<close> send them after they have released the lock,
  which is taken apart in \<open>Canal_LedgerWire\<close>.
  Time is a parameter. The reaper goroutine is the function \<open>reap_tick\<close> of one tick.
\<close>

section \<open>Data\<close>

datatype ordering = OrderingPrefix | OrderingDiscrete

datatype when_full = WhenFullBlock | WhenFullDropNewest | WhenFullReject | WhenFullOverflow

datatype disposition = Delivered | Duplicate | Abandoned

record 'e outcome =
  out_Record :: record_id
  out_Disposition :: disposition
  out_Node :: node_id
  out_Fault :: "'e option"

record leak =
  lk_Group :: group_id
  lk_Lane :: lane_id
  lk_Node :: node_id
  lk_Age :: duration
  lk_Records :: nat

record ack =
  ack_Lane :: lane_id
  ack_Epoch :: nat
  ack_Through :: position
  ack_Handles :: "bytes list"
  ack_AbandonedHandles :: "bytes list"
  ack_Records :: nat
  ack_Abandoned :: nat
  ack_AbandonedBy :: "(node_id \<times> nat) list"
  ack_LaneFinished :: bool

record led_config =
  cfg_Tenant :: tenant_id
  cfg_Pipeline :: pipeline_id
  cfg_DefaultBudget :: int
  cfg_GroupTTL :: duration

record group =
  g_lane :: lane_id
  g_node :: node_id
  g_epoch :: nat
  g_ticket :: ticket
  g_refs :: nat
  g_records :: nat
  g_handles :: "(record_id \<times> bytes) list"
  g_landed :: "bytes list"
  g_abandonedHandles :: "bytes list"
  g_abandonedBy :: "(node_id \<times> nat) list"
  g_at :: time
  g_abandoned :: nat
  g_settled :: nat

record lane_state =
  ls_id :: lane_id
  ls_ordering :: ordering
  ls_budget :: int
  ls_whenFull :: when_full
  ls_tracker :: "position tracker"
  ls_seq :: nat
  ls_resolved :: "position option"
  ls_committed :: "position option"
  ls_pendingFlush :: "position option"
  ls_settledHandles :: "bytes list"
  ls_abandonedHandles :: "bytes list"
  ls_ackAbandonedBy :: "(node_id \<times> nat) list"
  ls_admittedSinceSafe :: nat
  ls_ackRecords :: nat
  ls_ackAbandoned :: nat
  ls_laneFinished :: bool
  ls_pending :: int
  ls_finishAcked :: bool
  ls_retireRequested :: bool
  ls_retireReported :: bool
  ls_fencedThrough :: nat
  ls_epoch :: nat
  ls_blocked :: bool
  ls_recordsRead :: nat
  ls_recordsCommitted :: nat
  ls_shed :: nat

record ledger =
  led_cfg :: led_config
  led_lanes :: "(lane_id \<times> lane_state) list"
  led_groups :: "(group_id \<times> group) list"
  led_byRec :: "(record_id \<times> group_id) list"
  led_acks :: "ack list"
  led_leaks :: "leak list"
  led_closed :: bool

datatype ledger_error =
    ContractEmptyLane
  | ContractOrdering lane_id ordering ordering
  | ContractUnregistered lane_id
  | ContractLaneMismatch lane_id record_id lane_id
  | ContractGroupInFlight group_id
  | ContractGroupNotOpen group_id
  | LedFenced
  | LedTrackerClosed
  | LedCtx
  | LedShed nat when_full

section \<open>Lane state helpers\<close>

definition ls_fenced :: "lane_state \<Rightarrow> bool" where
  "ls_fenced st \<longleftrightarrow> ls_fencedThrough st > 0 \<and> ls_epoch st \<le> ls_fencedThrough st"

definition ls_fencedGroup :: "lane_state \<Rightarrow> nat \<Rightarrow> bool" where
  "ls_fencedGroup st epoch \<longleftrightarrow> ls_fencedThrough st > 0 \<and> epoch \<le> ls_fencedThrough st"

definition sheds :: "when_full \<Rightarrow> bool" where
  "sheds w \<longleftrightarrow> w = WhenFullDropNewest \<or> w = WhenFullReject"

definition upd_lane :: "lane_id \<Rightarrow> (lane_state \<Rightarrow> lane_state) \<Rightarrow> ledger \<Rightarrow> ledger" where
  "upd_lane lid f l = l\<lparr>led_lanes := amap (\<lambda>k st. if k = lid then f st else st) (led_lanes l)\<rparr>"

text \<open>Publishing an advance of the resolved prefix: \<open>st.resolved\<close>, and \<open>st.pendingFlush\<close> if safe.\<close>

definition publish_pos :: "position option \<Rightarrow> lane_state \<Rightarrow> lane_state" where
  "publish_pos moved st =
     (case moved of
        None \<Rightarrow> st
      | Some p \<Rightarrow> st\<lparr>ls_resolved := Some p,
          ls_pendingFlush := (if pos_Safe p then Some p else ls_pendingFlush st)\<rparr>)"

definition clear_acc :: "lane_state \<Rightarrow> lane_state" where
  "clear_acc st = st\<lparr>ls_ackRecords := 0, ls_ackAbandoned := 0, ls_ackAbandonedBy := []\<rparr>"

section \<open>Construction and registration\<close>

definition New :: "led_config \<Rightarrow> ledger" where
  "New cfg = \<lparr>led_cfg = (if cfg_DefaultBudget cfg < 1 then cfg\<lparr>cfg_DefaultBudget := 1000\<rparr> else cfg),
     led_lanes = [], led_groups = [], led_byRec = [], led_acks = [], led_leaks = [],
     led_closed = False\<rparr>"

definition new_lane :: "lane_id \<Rightarrow> ordering \<Rightarrow> int \<Rightarrow> when_full \<Rightarrow> lane_state" where
  "new_lane lid ord budget whenF = \<lparr>ls_id = lid, ls_ordering = ord, ls_budget = budget,
     ls_whenFull = whenF, ls_tracker = NewTracker (nat budget), ls_seq = 0, ls_resolved = None,
     ls_committed = None, ls_pendingFlush = None, ls_settledHandles = [],
     ls_abandonedHandles = [], ls_ackAbandonedBy = [], ls_admittedSinceSafe = 0,
     ls_ackRecords = 0, ls_ackAbandoned = 0, ls_laneFinished = False, ls_pending = 0,
     ls_finishAcked = False, ls_retireRequested = False, ls_retireReported = False,
     ls_fencedThrough = 0, ls_epoch = 0, ls_blocked = False, ls_recordsRead = 0,
     ls_recordsCommitted = 0, ls_shed = 0\<rparr>"

definition Lane :: "lane_id \<Rightarrow> ordering \<Rightarrow> int \<Rightarrow> when_full \<Rightarrow> ledger \<Rightarrow> ledger \<times> ledger_error option" where
  "Lane lid ord budget whenF l =
     (if lid = [] then (l, Some ContractEmptyLane)
      else
        let budget' = (if budget < 1 then cfg_DefaultBudget (led_cfg l) else budget) in
        case map_of (led_lanes l) lid of
          Some st \<Rightarrow>
            if ls_ordering st \<noteq> ord then (l, Some (ContractOrdering lid (ls_ordering st) ord))
            else (l, None)
        | None \<Rightarrow> (l\<lparr>led_lanes := aput lid (new_lane lid ord budget' whenF) (led_lanes l)\<rparr>, None))"

definition SetEpoch :: "lane_id \<Rightarrow> nat \<Rightarrow> ledger \<Rightarrow> ledger" where
  "SetEpoch lane epoch l = upd_lane lane (\<lambda>st. st\<lparr>ls_epoch := epoch\<rparr>) l"

section \<open>Admission\<close>

text \<open>The locals of one \<^verbatim>\<open>Admit\<close> call between its critical sections.\<close>

record admission =
  ad_lane :: lane_id
  ad_gid :: group_id
  ad_group :: group
  ad_pos :: position
  ad_len :: nat
  ad_ids :: "record_id list"
  ad_whenFull :: when_full

fun mismatch :: "lane_id \<Rightarrow> ('v, 'e) rec list \<Rightarrow> ledger_error option" where
  "mismatch lane [] = None"
| "mismatch lane (r # rs) =
     (if o_Lane (rec_origin r) \<noteq> lane
      then Some (ContractLaneMismatch lane (o_ID (rec_origin r)) (o_Lane (rec_origin r)))
      else mismatch lane rs)"

fun batch_handles :: "ordering \<Rightarrow> ('v, 'e) rec list \<Rightarrow> (record_id \<times> bytes) list \<Rightarrow>
    (record_id \<times> bytes) list" where
  "batch_handles ord [] hs = hs"
| "batch_handles ord (r # rs) hs =
     batch_handles ord rs
       (case (ord, rec_handle r) of
          (OrderingDiscrete, Some h) \<Rightarrow> aput (o_ID (rec_origin r)) h hs
        | _ \<Rightarrow> hs)"

fun batch_refs :: "('v, 'e) rec list \<Rightarrow> nat \<Rightarrow> nat" where
  "batch_refs [] refs = refs"
| "batch_refs (r # rs) refs = batch_refs rs (u32_add refs (o_refs (rec_origin r)))"

definition Admit_begin :: "time \<Rightarrow> ('v, 'e) batch \<Rightarrow> ledger \<Rightarrow>
    ledger \<times> (ledger_error + ('v, 'e) batch \<times> admission)" where
  "Admit_begin now b l =
     (case map_of (led_lanes l) (b_Lane b) of
        None \<Rightarrow> (l, Inl (ContractUnregistered (b_Lane b)))
      | Some st \<Rightarrow>
          if ls_fenced st then (l, Inl LedFenced)
          else (case mismatch (b_Lane b) (b_Records b) of
            Some e \<Rightarrow> (l, Inl e)
          | None \<Rightarrow>
              let seq = ls_seq st + 1;
                  b' = SetSeq seq b;
                  g = \<lparr>g_lane = b_Lane b, g_node = (case b_Records b of [] \<Rightarrow> '''' | r # _ \<Rightarrow>
                         o_Node (rec_origin r)),
                       g_epoch = ls_epoch st, g_ticket = None,
                       g_refs = batch_refs (b_Records b) 0, g_records = batch_Len b,
                       g_handles = batch_handles (ls_ordering st) (b_Records b) [],
                       g_landed = [], g_abandonedHandles = [], g_abandonedBy = [], g_at = now,
                       g_abandoned = 0, g_settled = 0\<rparr>
              in (upd_lane (b_Lane b) (\<lambda>st. st\<lparr>ls_seq := seq\<rparr>) l,
                  Inr (b', \<lparr>ad_lane = b_Lane b, ad_gid = b_group b, ad_group = g,
                    ad_pos = b_Position b', ad_len = batch_Len b,
                    ad_ids = map (\<lambda>r. o_ID (rec_origin r)) (b_Records b),
                    ad_whenFull = ls_whenFull st\<rparr>))))"

datatype tracked_as =
    TakenTicket nat
  | EmptyAdvance "position option"
  | ShedAdvance "position option"

datatype 'a waiting = Ready 'a | Blocked

text \<open>
  The tracker call. A \<^verbatim>\<open>Track\<close> that has to wait is \<open>Blocked\<close>: it is retried on the tracker it is
  woken with, unless the context is cancelled, which the caller of this definition may do
  instead of retrying.
\<close>

definition Admit_track :: "time \<Rightarrow> admission \<Rightarrow> ledger \<Rightarrow>
    ledger \<times> (ledger_error + tracked_as) waiting" where
  "Admit_track now ad l =
     (case map_of (led_lanes l) (ad_lane ad) of
        None \<Rightarrow> (l, Blocked)
      | Some st \<Rightarrow>
          let put = (\<lambda>t. upd_lane (ad_lane ad) (\<lambda>st. st\<lparr>ls_tracker := t\<rparr>) l) in
          if ad_len ad = 0 then
            (let (t, moved) = TrackResolved now (ad_pos ad) (ls_tracker st)
             in (put t, Ready (Inr (EmptyAdvance moved))))
          else if sheds (ad_whenFull ad) then
            (case TryTrack now (ad_pos ad) (ad_len ad) (g_refs (ad_group ad)) (ls_tracker st) of
               (t, Some k) \<Rightarrow> (put t, Ready (Inr (TakenTicket k)))
             | (t, None) \<Rightarrow>
                 let (t', moved) = TrackResolved now (ad_pos ad) t
                 in (put t', Ready (Inr (ShedAdvance moved))))
          else
            (case Track [] now (ad_pos ad) (ad_len ad) (g_refs (ad_group ad)) (ls_tracker st) of
               (t, Tracked k) \<Rightarrow> (put t, Ready (Inr (TakenTicket k)))
             | (t, ErrTrackerClosed) \<Rightarrow> (put t, Ready (Inl LedTrackerClosed))
             | (t, CtxErr) \<Rightarrow> (put t, Ready (Inl LedCtx))
             | (t, StillWaiting) \<Rightarrow> (put t, Blocked)))"

definition Admit_end :: "admission \<Rightarrow> tracked_as \<Rightarrow> ledger \<Rightarrow> ledger \<times> ledger_error option" where
  "Admit_end ad how l =
     (case how of
        EmptyAdvance moved \<Rightarrow>
          (upd_lane (ad_lane ad) (\<lambda>st. publish_pos moved (st\<lparr>ls_blocked := False\<rparr>)) l, None)
      | ShedAdvance moved \<Rightarrow>
          (upd_lane (ad_lane ad) (\<lambda>st. (publish_pos moved st)\<lparr>
             ls_recordsRead := ls_recordsRead st + ad_len ad, ls_shed := ls_shed st + ad_len ad,
             ls_ackAbandoned := ls_ackAbandoned st + ad_len ad, ls_blocked := False\<rparr>) l,
           Some (LedShed (ad_len ad) (ad_whenFull ad)))
      | TakenTicket k \<Rightarrow>
          if map_of (led_groups l) (ad_gid ad) \<noteq> None then
            (upd_lane (ad_lane ad) (\<lambda>st. st\<lparr>ls_tracker := fst (Abandon (Some k) (ls_tracker st))\<rparr>) l,
             Some (ContractGroupInFlight (ad_gid ad)))
          else
            (upd_lane (ad_lane ad) (\<lambda>st. st\<lparr>ls_pending := ls_pending st + 1,
               ls_recordsRead := ls_recordsRead st + ad_len ad,
               ls_admittedSinceSafe := ls_admittedSinceSafe st + ad_len ad, ls_blocked := False\<rparr>)
             (l\<lparr>led_groups := aput (ad_gid ad) ((ad_group ad)\<lparr>g_ticket := Some k\<rparr>) (led_groups l),
                led_byRec := fold (\<lambda>i. aput i (ad_gid ad)) (ad_ids ad) (led_byRec l)\<rparr>), None))"

text \<open>The whole call with nothing running in between.\<close>

definition Admit :: "time \<Rightarrow> ('v, 'e) batch \<Rightarrow> ledger \<Rightarrow> ledger \<times> ledger_error option waiting" where
  "Admit now b l =
     (case Admit_begin now b l of
        (l1, Inl e) \<Rightarrow> (l1, Ready (Some e))
      | (l1, Inr (b', ad)) \<Rightarrow>
          (case Admit_track now ad l1 of
             (l2, Blocked) \<Rightarrow> (l2, Blocked)
           | (l2, Ready (Inl e)) \<Rightarrow> (l2, Ready (Some e))
           | (l2, Ready (Inr how)) \<Rightarrow>
               let (l3, e) = Admit_end ad how l2 in (l3, Ready e)))"

section \<open>References\<close>

definition Expand :: "group_id \<Rightarrow> nat \<Rightarrow> ledger \<Rightarrow> ledger \<times> ledger_error option" where
  "Expand gid n l =
     (if n = 0 then (l, None)
      else case map_of (led_groups l) gid of
        None \<Rightarrow> (l, Some (ContractGroupNotOpen gid))
      | Some g \<Rightarrow>
          let l' = l\<lparr>led_groups := aput gid (g\<lparr>g_refs := u32_add (g_refs g) n\<rparr>) (led_groups l)\<rparr> in
          (case g_ticket g of
             None \<Rightarrow> (l', None)
           | Some k \<Rightarrow>
               (upd_lane (g_lane g) (\<lambda>st. st\<lparr>ls_tracker := (ls_tracker st)\<lparr>tr_list :=
                  map (\<lambda>(i, nd). (i, if i = k then nd\<lparr>nd_refs := u32_add (nd_refs nd) n\<rparr> else nd))
                    (tr_list (ls_tracker st))\<rparr>\<rparr>) l', None)))"

definition Register :: "record_id \<Rightarrow> group_id \<Rightarrow> ledger \<Rightarrow> ledger" where
  "Register rid gid l =
     (case map_of (led_groups l) gid of
        None \<Rightarrow> l
      | Some _ \<Rightarrow> l\<lparr>led_byRec := aput rid gid (led_byRec l)\<rparr>)"

section \<open>Settlement\<close>

definition count_node :: "node_id \<Rightarrow> nat \<Rightarrow> (node_id \<times> nat) list \<Rightarrow> (node_id \<times> nat) list" where
  "count_node node n m = aput node ((case map_of m node of None \<Rightarrow> 0 | Some k \<Rightarrow> k) + n) m"

text \<open>What one outcome does to its group before the tracker hears of it.\<close>

definition group_outcome :: "'e outcome \<Rightarrow> group \<Rightarrow> group" where
  "group_outcome ou g =
     (let g1 = g\<lparr>g_settled := u32_add (g_settled g) 1\<rparr>;
          g2 = (case map_of (g_handles g) (out_Record ou) of
                  None \<Rightarrow> g1
                | Some h \<Rightarrow>
                    (if out_Disposition ou = Abandoned
                     then g1\<lparr>g_abandonedHandles := g_abandonedHandles g @ [h]\<rparr>
                     else g1\<lparr>g_landed := g_landed g @ [h]\<rparr>)
                    \<lparr>g_handles := adel (out_Record ou) (g_handles g)\<rparr>)
      in if out_Disposition ou = Abandoned then
           g2\<lparr>g_abandoned := g_abandoned g + 1,
              g_abandonedBy := (if out_Node ou = [] then g_abandonedBy g
                                else count_node (out_Node ou) 1 (g_abandonedBy g))\<rparr>
         else g2)"

text \<open>Folding a closed group into the accumulators of the lane's next acknowledgement.\<close>

definition account_group :: "group \<Rightarrow> lane_state \<Rightarrow> lane_state" where
  "account_group g st = st\<lparr>
     ls_ackRecords := ls_ackRecords st + g_records g,
     ls_ackAbandoned := ls_ackAbandoned st + g_abandoned g,
     ls_ackAbandonedBy := fold (\<lambda>(node, n). count_node node n) (g_abandonedBy g) (ls_ackAbandonedBy st),
     ls_settledHandles := (if ls_ordering st = OrderingDiscrete
       then ls_settledHandles st @ g_landed g else ls_settledHandles st),
     ls_abandonedHandles := (if ls_ordering st = OrderingDiscrete
       then ls_abandonedHandles st @ g_abandonedHandles g else ls_abandonedHandles st)\<rparr>"

text \<open>The tracker call of one outcome, on the group as \<open>group_outcome\<close> left it.\<close>

definition settle_ticket :: "'e outcome \<Rightarrow> group \<Rightarrow> position tracker \<Rightarrow>
    position tracker \<times> position option" where
  "settle_ticket ou g t =
     (if g_ticket g = None then (t, None)
      else if out_Disposition ou = Abandoned \<and> g_settled g \<ge> g_refs g then Abandon (g_ticket g) t
      else Release (g_ticket g) 1 t)"

definition settle_one :: "'e outcome \<Rightarrow> ledger \<times> (lane_id \<times> position) list \<Rightarrow>
    ledger \<times> (lane_id \<times> position) list" where
  "settle_one ou s =
     (let (l, adv) = s in
      case map_of (led_byRec l) (out_Record ou) of
        None \<Rightarrow> s
      | Some gid \<Rightarrow>
          (case map_of (led_groups l) gid of
             None \<Rightarrow> s
           | Some g0 \<Rightarrow>
               let g = group_outcome ou g0;
                   l1 = l\<lparr>led_byRec := adel (out_Record ou) (led_byRec l),
                          led_groups := aput gid g (led_groups l)\<rparr>
               in case map_of (led_lanes l) (g_lane g) of
                    None \<Rightarrow> (l1, adv)
                  | Some st \<Rightarrow>
                      let (t, moved) = settle_ticket ou g (ls_tracker st);
                          adv' = (case moved of
                            Some p \<Rightarrow> if ls_ordering st \<noteq> OrderingDiscrete \<and> \<not> ls_fencedGroup st (g_epoch g)
                              then adv @ [(g_lane g, p)] else adv
                          | None \<Rightarrow> adv)
                      in if g_settled g \<ge> g_refs g then
                           (upd_lane (g_lane g) (\<lambda>st.
                              (if ls_fencedGroup st (g_epoch g) then st else account_group g st)
                              \<lparr>ls_tracker := t, ls_pending := ls_pending st - 1\<rparr>)
                            (l1\<lparr>led_groups := adel gid (led_groups l)\<rparr>), adv')
                         else (upd_lane (g_lane g) (\<lambda>st. st\<lparr>ls_tracker := t\<rparr>) l1, adv')))"

definition apply_advance :: "lane_id \<times> position \<Rightarrow> ledger \<Rightarrow> ledger" where
  "apply_advance a l = upd_lane (fst a) (publish_pos (Some (snd a))) l"

definition send :: "ack \<Rightarrow> ledger \<Rightarrow> ledger" where
  "send a l = (if led_closed l then l else l\<lparr>led_acks := led_acks l @ [a]\<rparr>)"

definition discrete_ack :: "lane_id \<Rightarrow> lane_state \<Rightarrow> ack" where
  "discrete_ack lid st = \<lparr>ack_Lane = lid, ack_Epoch = ls_epoch st, ack_Through = zero_position,
     ack_Handles = ls_settledHandles st, ack_AbandonedHandles = ls_abandonedHandles st,
     ack_Records = ls_ackRecords st, ack_Abandoned = ls_ackAbandoned st,
     ack_AbandonedBy = ls_ackAbandonedBy st,
     ack_LaneFinished = (ls_laneFinished st \<and> ls_pending st = 0)\<rparr>"

definition mark_acked :: "lane_state \<Rightarrow> lane_state" where
  "mark_acked st = clear_acc (st\<lparr>ls_finishAcked := (ls_laneFinished st \<and> ls_pending st = 0),
     ls_recordsCommitted := ls_recordsCommitted st + ls_ackRecords st\<rparr>)"

definition drop_handles :: "lane_state \<Rightarrow> lane_state" where
  "drop_handles st = st\<lparr>ls_settledHandles := [], ls_abandonedHandles := []\<rparr>"

definition discrete_due :: "lane_state \<Rightarrow> bool" where
  "discrete_due st \<longleftrightarrow> ls_ordering st = OrderingDiscrete \<and>
     (ls_settledHandles st \<noteq> [] \<or> ls_abandonedHandles st \<noteq> [])"

text \<open>One turn of \<^verbatim>\<open>emitDiscrete\<close>'s loop: the new lane state and the acknowledgement, if any.\<close>

definition emit_lane :: "lane_id \<Rightarrow> lane_state \<Rightarrow> lane_state \<times> ack list" where
  "emit_lane lid st =
     (if \<not> discrete_due st then (st, [])
      else if ls_finishAcked st then (clear_acc (drop_handles st), [])
      else if ls_fenced st then (clear_acc (drop_handles st), [])
      else (mark_acked (drop_handles st), [discrete_ack lid st]))"

definition emitDiscrete :: "ledger \<Rightarrow> ledger" where
  "emitDiscrete l =
     fold send (concat (map (\<lambda>(lid, st). snd (emit_lane lid st)) (led_lanes l)))
       (l\<lparr>led_lanes := amap (\<lambda>lid st. fst (emit_lane lid st)) (led_lanes l)\<rparr>)"

definition Settle :: "'e outcome list \<Rightarrow> ledger \<Rightarrow> ledger" where
  "Settle outs l =
     (let (l1, adv) = fold settle_one outs (l, []) in emitDiscrete (fold apply_advance adv l1))"

section \<open>The flush\<close>

text \<open>One turn of \<^verbatim>\<open>Flushable\<close>'s loop: the new lane state and the position offered, if any.\<close>

definition flush_lane :: "lane_state \<Rightarrow> lane_state \<times> position option" where
  "flush_lane st =
     (case ls_pendingFlush st of
        None \<Rightarrow> (st, None)
      | Some p \<Rightarrow>
          if ls_fenced st then (st, None)
          else (case ls_committed st of
              None \<Rightarrow> (st\<lparr>ls_pendingFlush := None\<rparr>, Some p)
            | Some c \<Rightarrow>
                if snd (pos_Compare p c) \<and> fst (pos_Compare p c) \<le> 0 then (st\<lparr>ls_pendingFlush := None\<rparr>, None)
                else if pos_Seq p \<le> pos_Seq c then (st\<lparr>ls_pendingFlush := None\<rparr>, None)
                else (st\<lparr>ls_pendingFlush := None\<rparr>, Some p)))"

definition Flushable :: "ledger \<Rightarrow> ledger \<times> (lane_id \<times> position) list" where
  "Flushable l =
     (l\<lparr>led_lanes := amap (\<lambda>lid st. fst (flush_lane st)) (led_lanes l)\<rparr>,
      concat (map (\<lambda>(lid, st). case snd (flush_lane st) of None \<Rightarrow> [] | Some p \<Rightarrow> [(lid, p)]) (led_lanes l)))"

definition prefix_ack :: "lane_id \<Rightarrow> position \<Rightarrow> lane_state \<Rightarrow> ack" where
  "prefix_ack lid pos st = \<lparr>ack_Lane = lid, ack_Epoch = ls_epoch st, ack_Through = pos,
     ack_Handles = [], ack_AbandonedHandles = [], ack_Records = ls_ackRecords st,
     ack_Abandoned = ls_ackAbandoned st, ack_AbandonedBy = ls_ackAbandonedBy st,
     ack_LaneFinished = (ls_laneFinished st \<and> ls_pending st = 0)\<rparr>"

definition commit_lane :: "lane_id \<Rightarrow> position \<Rightarrow> lane_state \<Rightarrow> lane_state \<times> ack list" where
  "commit_lane lid pos st0 =
     (let st = st0\<lparr>ls_committed := Some pos, ls_admittedSinceSafe := 0\<rparr> in
      if ls_ordering st \<noteq> OrderingPrefix then (st, [])
      else if ls_finishAcked st then (clear_acc st, [])
      else if ls_fenced st then (clear_acc st, [])
      else (mark_acked st, [prefix_ack lid pos st]))"

text \<open>The loop of \<^verbatim>\<open>Committed\<close> runs over the durable positions, and the sends follow it.\<close>

fun committed_loop :: "(lane_id \<times> position) list \<Rightarrow> ledger \<Rightarrow> ack list \<Rightarrow> ledger \<times> ack list" where
  "committed_loop [] l out = (l, out)"
| "committed_loop ((lid, pos) # m) l out =
     (case map_of (led_lanes l) lid of
        None \<Rightarrow> committed_loop m l out
      | Some st \<Rightarrow>
          committed_loop m (upd_lane lid (\<lambda>st. fst (commit_lane lid pos st)) l)
            (out @ snd (commit_lane lid pos st)))"

definition Committed :: "(lane_id \<times> position) list \<Rightarrow> ledger \<Rightarrow> ledger" where
  "Committed m l = (let (l', out) = committed_loop m l [] in fold send out l')"

section \<open>Retirement and revocation\<close>

definition FinishLane :: "lane_id \<Rightarrow> ledger \<Rightarrow> ledger" where
  "FinishLane lane l = upd_lane lane (\<lambda>st. st\<lparr>ls_laneFinished := True\<rparr>) l"

definition RequestRetire :: "lane_id \<Rightarrow> ledger \<Rightarrow> ledger \<times> bool" where
  "RequestRetire lane l =
     (case map_of (led_lanes l) lane of
        None \<Rightarrow> (l, True)
      | Some st \<Rightarrow>
          (upd_lane lane (\<lambda>st. st\<lparr>ls_laneFinished := True, ls_retireRequested := True,
             ls_retireReported := (if ls_pending st = 0 then True else ls_retireReported st)\<rparr>) l,
           ls_pending st = 0))"

definition retire_due :: "lane_state \<Rightarrow> bool" where
  "retire_due st \<longleftrightarrow> ls_retireRequested st \<and> ls_pending st = 0 \<and> \<not> ls_retireReported st"

definition Retirable :: "ledger \<Rightarrow> ledger \<times> lane_id list" where
  "Retirable l =
     (l\<lparr>led_lanes := amap (\<lambda>lid st. if retire_due st then st\<lparr>ls_retireReported := True\<rparr> else st)
        (led_lanes l)\<rparr>,
      map fst (filter (\<lambda>(lid, st). retire_due st) (led_lanes l)))"

definition Revoke :: "lane_id \<Rightarrow> ledger \<Rightarrow> ledger \<times> nat" where
  "Revoke lane l =
     (case map_of (led_lanes l) lane of
        None \<Rightarrow> (l, 0)
      | Some st \<Rightarrow>
          (upd_lane lane (\<lambda>st. drop_handles (clear_acc (st\<lparr>
             ls_fencedThrough := max (max 1 (ls_epoch st)) (ls_fencedThrough st),
             ls_resolved := None, ls_pendingFlush := None\<rparr>))) l,
           sum_list (map (\<lambda>(gid, g). if g_lane g = lane then g_records g else 0) (led_groups l))))"

section \<open>Reports, the reaper and Close\<close>

record lane_stats =
  sta_Resolved :: "position option"
  sta_Committed :: "position option"
  sta_RecordsRead :: nat
  sta_RecordsCommitted :: nat
  sta_Settled :: nat
  sta_AbandonedTotal :: nat
  sta_InFlight :: nat
  sta_PendingGroups :: nat
  sta_OldestPendingAge :: duration
  sta_OldestPendingPosition :: "position option"
  sta_InFlightBudget :: int
  sta_ReplayRecords :: nat
  sta_Blocked :: bool

definition Stats :: "time \<Rightarrow> lane_id \<Rightarrow> ledger \<Rightarrow> lane_stats option" where
  "Stats now lane l =
     (case map_of (led_lanes l) lane of
        None \<Rightarrow> None
      | Some st \<Rightarrow>
          let (weight, _, oldest, oldestPos) = Pending now (ls_tracker st);
              (_, settled, abandoned) = Counts (ls_tracker st)
          in Some \<lparr>sta_Resolved = ls_resolved st, sta_Committed = ls_committed st,
               sta_RecordsRead = ls_recordsRead st, sta_RecordsCommitted = ls_recordsCommitted st,
               sta_Settled = settled, sta_AbandonedTotal = abandoned + ls_shed st,
               sta_InFlight = weight,
               sta_PendingGroups = length (filter (\<lambda>(gid, g). g_lane g = lane) (led_groups l)),
               sta_OldestPendingAge = oldest, sta_OldestPendingPosition = oldestPos,
               sta_InFlightBudget = ls_budget st, sta_ReplayRecords = ls_admittedSinceSafe st,
               sta_Blocked = ls_blocked st\<rparr>)"

definition leak_of :: "time \<Rightarrow> group_id \<Rightarrow> group \<Rightarrow> leak" where
  "leak_of now gid g = \<lparr>lk_Group = gid, lk_Lane = g_lane g, lk_Node = g_node g,
     lk_Age = now - g_at g, lk_Records = g_records g\<rparr>"

definition Open :: "time \<Rightarrow> ledger \<Rightarrow> leak list" where
  "Open now l = map (\<lambda>(gid, g). leak_of now gid g) (led_groups l)"

definition Leaks :: "ledger \<Rightarrow> ledger \<times> leak list" where
  "Leaks l = (l\<lparr>led_leaks := []\<rparr>, led_leaks l)"

definition expired :: "time \<Rightarrow> ledger \<Rightarrow> group \<Rightarrow> bool" where
  "expired now l g \<longleftrightarrow> now - g_at g > cfg_GroupTTL (led_cfg l)"

definition reap_tick :: "time \<Rightarrow> ledger \<Rightarrow> ledger" where
  "reap_tick now l =
     (if cfg_GroupTTL (led_cfg l) \<le> 0 then l
      else l\<lparr>led_leaks := led_leaks l @
               map (\<lambda>(gid, g). leak_of now gid g) (filter (\<lambda>(gid, g). expired now l g) (led_groups l)),
             led_groups := amap (\<lambda>gid g. if expired now l g then g\<lparr>g_at := now\<rparr> else g)
               (led_groups l)\<rparr>)"

text \<open>
  \<^verbatim>\<open>Drain\<close> polls the number of open groups on a ticker until it is zero or the context is done; the
  list is what it sees at each tick, \<open>None\<close> being the cancellation.
\<close>

fun Drain :: "nat \<Rightarrow> nat option list \<Rightarrow> ledger_error option waiting" where
  "Drain n ticks =
     (if n = 0 then Ready None
      else case ticks of
          [] \<Rightarrow> Blocked
        | None # _ \<Rightarrow> Ready (Some LedCtx)
        | Some n' # ticks' \<Rightarrow> Drain n' ticks')"

declare Drain.simps [simp del]

definition ledger_Close :: "ledger \<Rightarrow> ledger" where
  "ledger_Close l =
     (if led_closed l then l
      else l\<lparr>led_closed := True,
             led_lanes := amap (\<lambda>lid st. st\<lparr>ls_tracker := tracker_Close (ls_tracker st)\<rparr>) (led_lanes l)\<rparr>)"

end
