(* ===== verification/Canal_TrackerOrder.thy ===== *)
theory Canal_TrackerOrder
  imports Canal_Tracker
begin

text \<open>
  What the ledger relies on when it numbers the payloads it tracks. A caller admits payloads in
  increasing order of a number \<open>num\<close>; the locale \<open>prefix_tracker\<close> states how each operation moves
  the set of unresolved tickets and the high-water mark, and proves once that no answer of the
  tracker ever reaches an unresolved payload. The tracker of \<^verbatim>\<open>internal/ledger/tracker.go\<close> is an
  instance, for every numbering.
\<close>

section \<open>The contract\<close>

locale prefix_tracker =
  fixes ok :: "nat \<Rightarrow> 't \<Rightarrow> bool"
    and high :: "'t \<Rightarrow> nat"
    and live :: "'t \<Rightarrow> nat \<Rightarrow> 'n option"
    and payload :: "'n \<Rightarrow> 'p"
    and num :: "'p \<Rightarrow> nat"
    and fresh_node :: "'p \<Rightarrow> nat \<Rightarrow> nat \<Rightarrow> 'n"
    and settled_node :: "nat \<Rightarrow> bool \<Rightarrow> 'n \<Rightarrow> 'n option"
    and admit :: "'p \<Rightarrow> nat \<Rightarrow> nat \<Rightarrow> 't \<Rightarrow> 't \<times> nat option"
    and pass :: "'p \<Rightarrow> 't \<Rightarrow> 't \<times> 'p option"
    and settle :: "nat \<Rightarrow> nat \<Rightarrow> bool \<Rightarrow> 't \<Rightarrow> 't \<times> 'p option"
  assumes ok_mono: "ok s t \<Longrightarrow> s \<le> s' \<Longrightarrow> ok s' t"
    and high_le: "ok s t \<Longrightarrow> high t \<le> s"
    and live_above: "ok s t \<Longrightarrow> live t i = Some n \<Longrightarrow> high t < num (payload n)"
    and live_le: "ok s t \<Longrightarrow> live t i = Some n \<Longrightarrow> num (payload n) \<le> s"
    and admit_law: "ok s t \<Longrightarrow> s < num p \<Longrightarrow> admit p w r t = (t', Some i) \<Longrightarrow>
      ok (num p) t' \<and> live t i = None \<and> live t' = (live t)(i \<mapsto> fresh_node p w r) \<and> high t' = high t"
    and admit_refused: "admit p w r t = (t', None) \<Longrightarrow> t' = t"
    and pass_law: "ok s t \<Longrightarrow> s < num p \<Longrightarrow> pass p t = (t', a) \<Longrightarrow>
      ok (num p) t' \<and> live t' = live t \<and> high t \<le> high t' \<and> (\<forall>q. a = Some q \<longrightarrow> num q = high t')"
    and settle_law: "ok s t \<Longrightarrow> live t i = Some n \<Longrightarrow> settle i k ab t = (t', a) \<Longrightarrow>
      ok s t' \<and> live t' = (live t)(i := settled_node k ab n) \<and> high t \<le> high t' \<and>
      (\<forall>q. a = Some q \<longrightarrow> num q = high t')"
begin

lemma pass_answer_safe:
  assumes "ok s t" and "s < num p" and "pass p t = (t', Some q)" and "live t' j = Some m"
  shows "num q < num (payload m)"
  using pass_law [OF assms(1-3)] live_above [of "num p" t' j m] assms(4) by simp

lemma settle_answer_safe:
  assumes "ok s t" and "live t i = Some n" and "settle i k ab t = (t', Some q)"
    and "live t' j = Some m"
  shows "num q < num (payload m)"
  using settle_law [OF assms(1-3)] live_above [of s t' j m] assms(4) by simp

lemma settle_live_sub:
  assumes "ok s t" and "live t i = Some n" and "settle i k ab t = (t', a)"
    and "settled_node k ab n = None"
  shows "dom (live t') = dom (live t) - {i}"
  using settle_law [OF assms(1-3)] assms(4) by auto

end

section \<open>The tracker meets it\<close>

definition high :: "('p \<Rightarrow> nat) \<Rightarrow> 'p tracker \<Rightarrow> nat" where
  "high num t = (case tr_resolved t of None \<Rightarrow> 0 | Some p \<Rightarrow> num p)"

abbreviation node_num :: "('p \<Rightarrow> nat) \<Rightarrow> nat \<times> 'p node \<Rightarrow> nat" where
  "node_num num x \<equiv> num (nd_payload (snd x))"

definition ordered :: "('p \<Rightarrow> nat) \<Rightarrow> nat \<Rightarrow> nat \<Rightarrow> (nat \<times> 'p node) list \<Rightarrow> bool" where
  "ordered num lo hi xs \<longleftrightarrow> sorted_wrt (<) (map (node_num num) xs) \<and>
     (\<forall>x \<in> set xs. lo < node_num num x \<and> node_num num x \<le> hi)"

definition seq_ok :: "('p \<Rightarrow> nat) \<Rightarrow> nat \<Rightarrow> 'p tracker \<Rightarrow> bool" where
  "seq_ok num s t \<longleftrightarrow> tracker_inv t \<and> ordered num (high num t) s (tr_list t) \<and> high num t \<le> s"

definition open_nodes :: "(nat \<times> 'p node) list \<Rightarrow> nat \<Rightarrow> 'p node option" where
  "open_nodes xs i = (case map_of xs i of
     None \<Rightarrow> None | Some n \<Rightarrow> if nd_resolved n then None else Some n)"

definition unresolved :: "'p tracker \<Rightarrow> nat \<Rightarrow> 'p node option" where
  "unresolved t = open_nodes (tr_list t)"

definition opened :: "'p node \<Rightarrow> 'p node option" where
  "opened n = (if nd_resolved n then None else Some n)"

lemma open_nodes_append:
  "i \<notin> fst ` set xs \<Longrightarrow> open_nodes (xs @ [(i, n)]) = (open_nodes xs)(i := opened n)"
  by (induction xs) (auto simp: fun_eq_iff open_nodes_def opened_def)

lemma open_nodes_update: "open_nodes (AList.update i n xs) = (open_nodes xs)(i := opened n)"
  by (auto simp: fun_eq_iff open_nodes_def opened_def)

lemma open_nodes_rear:
  assumes "distinct (map fst xs)" shows "open_nodes (rear xs) = open_nodes xs"
proof
  fix i
  have d: "distinct (map fst (front xs @ rear xs))" using assms by (simp add: front_rear)
  have r: "\<forall>x \<in> set (front xs). res x" by (auto simp: front_def dest: set_takeWhileD)
  have "open_nodes (front xs @ rear xs) i = open_nodes (rear xs) i"
  proof (cases "map_of (front xs) i")
    case (Some n)
    then have "(i, n) \<in> set (front xs)" by (rule map_of_SomeD)
    moreover from this d have "map_of (rear xs) i = None" by (force simp: map_of_eq_None_iff)
    ultimately show ?thesis using r Some by (auto simp: open_nodes_def map_add_def)
  qed (simp add: open_nodes_def map_add_def split: option.splits)
  then show "open_nodes (rear xs) i = open_nodes xs i" by (simp add: front_rear)
qed

lemma ordered_rear:
  assumes o: "ordered num lo hi xs" and p: "last_payload (front xs) = Some p"
  shows "ordered num (num p) hi (rear xs) \<and> lo < num p \<and> num p \<le> hi"
proof -
  have f: "front xs \<noteq> []" and p': "p = nd_payload (snd (last (front xs)))"
    using p by (auto simp: last_payload_def split: if_splits)
  have "sorted_wrt (<) (map (node_num num) (front xs @ rear xs))"
    using o by (simp add: ordered_def front_rear)
  then have "sorted_wrt (<) (map (node_num num) (rear xs))"
    and "\<forall>x \<in> set (front xs). \<forall>y \<in> set (rear xs). node_num num x < node_num num y"
    by (auto simp: sorted_wrt_append)
  moreover have "last (front xs) \<in> set xs"
    using f last_in_set [OF f] front_rear [of xs] by (metis Un_iff set_append)
  ultimately show ?thesis
    using o p' last_in_set [OF f] set_rear [of xs] by (auto simp: ordered_def)
qed

lemma ordered_snoc:
  assumes "ordered num lo hi xs" and "hi < num (nd_payload n)" and "lo \<le> hi"
  shows "ordered num lo (num (nd_payload n)) (xs @ [(i, n)])"
  using assms by (fastforce simp: ordered_def sorted_wrt_append)

lemma ordered_mono: "ordered num lo hi xs \<Longrightarrow> hi \<le> hi' \<Longrightarrow> ordered num lo hi' xs"
  by (auto simp: ordered_def)

definition pre_seq :: "('p \<Rightarrow> nat) \<Rightarrow> nat \<Rightarrow> 'p tracker \<Rightarrow> bool" where
  "pre_seq num s t \<longleftrightarrow> pre_inv t \<and> ordered num (high num t) s (tr_list t) \<and> high num t \<le> s"

lemma advance_law:
  assumes "pre_seq num s t" and "advanceLocked t = (t', a)"
  shows "seq_ok num s t' \<and> unresolved t' = unresolved t \<and> high num t \<le> high num t' \<and>
    (\<forall>q. a = Some q \<longrightarrow> num q = high num t')"
proof -
  have pre: "pre_inv t" and o: "ordered num (high num t) s (tr_list t)" and h: "high num t \<le> s"
    using assms(1) by (simp_all add: pre_seq_def)
  have inv: "tracker_inv t'" using tracker_inv_advance [OF pre] assms(2) by simp
  have d: "distinct (map fst (tr_list t))" using pre by (simp add: pre_inv_def)
  have l: "tr_list t' = rear (tr_list t)" and a: "a = last_payload (front (tr_list t))"
    and r: "tr_resolved t' = (if front (tr_list t) = [] then tr_resolved t else a)"
    using assms(2) by (auto simp: advanceLocked_eq)
  have u: "unresolved t' = unresolved t" by (simp add: unresolved_def l open_nodes_rear [OF d])
  show ?thesis
  proof (cases a)
    case None
    then have "front (tr_list t) = []" using a by (auto simp: last_payload_def split: if_splits)
    moreover from this have "rear (tr_list t) = tr_list t"
      using front_rear [of "tr_list t"] by simp
    ultimately show ?thesis
      using inv u o h r l None by (simp add: seq_ok_def high_def)
  next
    case (Some q)
    then have "high num t' = num q" using r a by (auto simp: high_def last_payload_def split: if_splits)
    with ordered_rear [OF o, of q] Some a u inv l show ?thesis by (simp add: seq_ok_def)
  qed
qed

lemma seq_ok_pre: "seq_ok num s t \<Longrightarrow> pre_seq num s t"
  by (simp add: seq_ok_def pre_seq_def tracker_inv_pre)

lemma seq_ok_mono: "seq_ok num s t \<Longrightarrow> s \<le> s' \<Longrightarrow> seq_ok num s' t"
  by (auto simp: seq_ok_def intro: ordered_mono)

lemma seq_ok_New: "seq_ok num s (NewTracker b)"
  by (simp add: seq_ok_def tracker_inv_NewTracker) (simp add: NewTracker_def high_def ordered_def)

lemma fresh_notin: "pre_inv t \<Longrightarrow> tr_fresh t \<notin> fst ` set (tr_list t)"
  by (auto simp: pre_inv_def)

lemma TryTrack_law:
  assumes "seq_ok num s t" and "s < num p" and "TryTrack now p w r t = (t', Some i)"
  shows "seq_ok num (num p) t' \<and> unresolved t i = None \<and>
    unresolved t' = (unresolved t)(i \<mapsto> tracked_node now p w r) \<and> high num t' = high num t"
proof -
  let ?n = "tracked_node now p w r"
  have pre: "pre_inv t" and o: "ordered num (high num t) s (tr_list t)" and h: "high num t \<le> s"
    using assms(1) by (simp_all add: seq_ok_def tracker_inv_pre)
  have l: "tr_list t' = tr_list t @ [(i, ?n)]" and i: "i = tr_fresh t"
    and r: "tr_resolved t' = tr_resolved t"
    using assms(3) by (auto simp: TryTrack_def appendLocked_def split: if_splits)
  have inv: "tracker_inv t'"
    using tracker_inv_TryTrack [of t now p w r] assms(1,3) by (simp add: seq_ok_def)
  have "num (nd_payload ?n) = num p" by (simp add: tracked_node_def)
  then have "ordered num (high num t) (num p) (tr_list t')"
    using ordered_snoc [OF o, of ?n i] assms(2) h by (simp add: l)
  moreover have "unresolved t i = None"
    using fresh_notin [OF pre] i map_of_eq_None_iff [of "tr_list t" i]
    by (simp add: unresolved_def open_nodes_def)
  ultimately show ?thesis
    using inv h assms(2) r i fresh_notin [OF pre]
    by (simp add: seq_ok_def unresolved_def l open_nodes_append opened_def high_def)
qed

lemma pre_seq_overwrite_last:
  assumes "pre_seq num s t" and xs: "tr_list t = ys @ [(i, n)]" and "marker n" and "s < num p"
  shows "pre_seq num (num p) (t\<lparr>tr_list := ys @ [(i, n\<lparr>nd_payload := p, nd_at := now\<rparr>)]\<rparr>)"
proof -
  have "pre_inv (t\<lparr>tr_list := ys @ [(i, n\<lparr>nd_payload := p, nd_at := now\<rparr>)]\<rparr>)"
    using assms by (intro pre_inv_overwrite_last) (simp_all add: pre_seq_def)
  moreover have "ordered num (high num t) (num p) (ys @ [(i, n\<lparr>nd_payload := p, nd_at := now\<rparr>)])"
  proof -
    have "ordered num (high num t) s ys"
      using assms(1) by (simp add: pre_seq_def xs ordered_def sorted_wrt_append)
    from ordered_snoc [OF this, of "n\<lparr>nd_payload := p, nd_at := now\<rparr>" i] assms(1,4)
    show ?thesis by (simp add: pre_seq_def)
  qed
  ultimately show ?thesis using assms by (simp add: pre_seq_def high_def)
qed

lemma unresolved_overwrite_last:
  assumes "pre_inv t" and "tr_list t = ys @ [(i, n)]" and "marker n"
  shows "unresolved (t\<lparr>tr_list := ys @ [(i, n\<lparr>nd_payload := p, nd_at := now\<rparr>)]\<rparr>) = unresolved t"
  using assms by (auto simp: pre_inv_def unresolved_def open_nodes_append opened_def marker_def)

lemma TrackResolved_law:
  assumes ok: "seq_ok num s t" and p: "s < num p" and tr: "TrackResolved now p t = (t', a)"
  shows "seq_ok num (num p) t' \<and> unresolved t' = unresolved t \<and> high num t \<le> high num t' \<and>
    (\<forall>q. a = Some q \<longrightarrow> num q = high num t')"
proof (cases "tr_closed t")
  case True
  then show ?thesis
    using tr seq_ok_mono [OF ok, of "num p"] p by (auto simp: TrackResolved_def)
next
  case open_t: False
  have pre: "pre_seq num s t" and pi: "pre_inv t"
    using ok by (simp_all add: seq_ok_pre seq_ok_def tracker_inv_pre)
  show ?thesis
  proof (cases "tr_list t \<noteq> [] \<and> marker (snd (last (tr_list t)))")
    case True
    then obtain ys i n where xs: "tr_list t = ys @ [(i, n)]" and m: "marker n"
      by (metis append_butlast_last_id prod.collapse)
    let ?u = "t\<lparr>tr_list := ys @ [(i, n\<lparr>nd_payload := p, nd_at := now\<rparr>)]\<rparr>"
    have "advanceLocked ?u = (t', a)" using tr open_t xs m by (simp add: TrackResolved_def)
    from advance_law [OF pre_seq_overwrite_last [OF pre xs m p] this]
    show ?thesis by (simp add: unresolved_overwrite_last [OF pi xs m] high_def)
  next
    case nm: False
    let ?u = "fst (appendLocked (marker_node now p) t)"
    have adv: "advanceLocked ?u = (t', a)" using tr open_t nm by (auto simp: TrackResolved_def)
    have h: "high num ?u = high num t" by (simp add: appendLocked_def high_def)
    have "num (nd_payload (marker_node now p)) = num p" by (simp add: marker_node_def)
    then have "pre_seq num (num p) ?u"
      using pre ordered_snoc [of num "high num t" s "tr_list t" "marker_node now p" "tr_fresh t"] p
        pre_inv_append_marker [OF pi, of now p] h
      by (simp add: pre_seq_def) (simp add: appendLocked_def)
    from advance_law [OF this adv] fresh_notin [OF pi] show ?thesis
      using h by (simp add: unresolved_def appendLocked_def open_nodes_append opened_def
          marker_node_def) (auto simp: fun_eq_iff open_nodes_def map_of_eq_None_iff [symmetric])
  qed
qed

definition settled_node :: "nat \<Rightarrow> bool \<Rightarrow> 'p node \<Rightarrow> 'p node option" where
  "settled_node n ab nd =
     (if ab \<or> nd_refs nd \<le> n then None else Some (nd\<lparr>nd_refs := nd_refs nd - n\<rparr>))"

lemma opened_discharge:
  assumes "\<not> nd_resolved nd" shows "opened (discharge_node n ab nd) = settled_node n ab nd"
  using assms by (auto simp: opened_def discharge_node_def settled_node_def Let_def)

lemma ordered_update:
  assumes "ordered num lo hi xs" and "map_of xs i = Some nd" and "distinct (map fst xs)"
    and "nd_payload nd' = nd_payload nd"
  shows "ordered num lo hi (AList.update i nd' xs)"
proof -
  let ?f = "\<lambda>(j, m). (j, if j = i then nd' else m)"
  have same: "\<forall>x \<in> set xs. node_num num (?f x) = node_num num x"
    using assms(2-4) by (auto dest!: map_of_is_SomeI [OF assms(3)])
  then have "map (node_num num) (map ?f xs) = map (node_num num) xs" by simp
  then show ?thesis
    using assms(1) same unfolding ordered_def update_existing [OF assms(2,3)]
    by (simp del: map_map)
qed

lemma discharge_law:
  assumes ok: "seq_ok num s t" and live: "unresolved t i = Some nd"
    and dis: "discharge (Some i) k ab t = (t', a)"
  shows "seq_ok num s t' \<and> unresolved t' = (unresolved t)(i := settled_node k ab nd) \<and>
    high num t \<le> high num t' \<and> (\<forall>q. a = Some q \<longrightarrow> num q = high num t')"
proof -
  have pre: "pre_inv t" using ok by (simp add: seq_ok_def tracker_inv_pre)
  have i: "map_of (tr_list t) i = Some nd" and nr: "\<not> nd_resolved nd"
    using live by (auto simp: unresolved_def open_nodes_def split: option.splits if_splits)
  let ?nd' = "discharge_node k ab nd"
  let ?u = "t\<lparr>tr_list := AList.update i ?nd' (tr_list t)\<rparr>"
  have h: "high num ?u = high num t" by (simp add: high_def)
  have u: "unresolved ?u = (unresolved t)(i := settled_node k ab nd)"
    by (simp add: unresolved_def open_nodes_update opened_discharge [OF nr])
  have "ordered num (high num t) s (tr_list ?u)"
    using ok i pre by (auto simp: seq_ok_def pre_inv_def intro: ordered_update)
  then have pu: "pre_seq num s ?u"
    using ok pre_inv_discharge [OF pre i] h by (simp add: pre_seq_def seq_ok_def)
  show ?thesis
  proof (cases "0 < nd_refs ?nd'")
    case True
    then have "t' = ?u" "a = None" using dis i by (simp_all add: discharge_def)
    moreover have "tracker_inv ?u"
      using tracker_inv_discharge [of t "Some i" k ab] dis ok \<open>t' = ?u\<close> by (simp add: seq_ok_def)
    ultimately show ?thesis using pu u h by (simp add: seq_ok_def pre_seq_def)
  next
    case False
    then have "advanceLocked ?u = (t', a)" using dis i by (simp add: discharge_def)
    from advance_law [OF pu this] u h show ?thesis by simp
  qed
qed

lemma seq_ok_high: "seq_ok num s t \<Longrightarrow> high num t \<le> s"
  by (simp add: seq_ok_def)

lemma unresolved_mem: "unresolved t i = Some n \<Longrightarrow> (i, n) \<in> set (tr_list t)"
  by (auto simp: unresolved_def open_nodes_def split: option.splits if_splits dest: map_of_SomeD)

lemma unresolved_above:
  "seq_ok num s t \<Longrightarrow> unresolved t i = Some n \<Longrightarrow> high num t < num (nd_payload n)"
  by (drule unresolved_mem) (auto simp: seq_ok_def ordered_def)

lemma unresolved_le: "seq_ok num s t \<Longrightarrow> unresolved t i = Some n \<Longrightarrow> num (nd_payload n) \<le> s"
  by (drule unresolved_mem) (auto simp: seq_ok_def ordered_def)

lemma TryTrack_refused: "TryTrack now p w r t = (t', None) \<Longrightarrow> t' = t"
  by (auto simp: TryTrack_def split: if_splits prod.splits)

interpretation pt: prefix_tracker "seq_ok num" "high num" unresolved nd_payload num
  "tracked_node now" settled_node "TryTrack now" "TrackResolved now"
  "\<lambda>i n ab. discharge (Some i) n ab"
  by unfold_locales (fact seq_ok_mono seq_ok_high unresolved_above unresolved_le TryTrack_law
      TryTrack_refused TrackResolved_law discharge_law)+

lemma drained: "seq_ok num s t \<Longrightarrow> unresolved t = Map.empty \<Longrightarrow> tr_list t = []"
  by (cases "tr_list t") (auto simp: seq_ok_def tracker_inv_def unresolved_def open_nodes_def
      fun_eq_iff split: if_splits)

end
