(* ===== verification/Canal_LedgerInv.thy ===== *)
theory Canal_LedgerInv
  imports Canal_Ledger Canal_TrackerOrder
begin

text \<open>
  The ledger as a state machine, and the invariant that ties its three tables together.

  A state is the ledger, the admissions in flight (at most one per lane: a lane is read by one
  goroutine) with the critical section each has reached, and the positions \<^verbatim>\<open>Flushable\<close> has handed
  to the engine, the only ones the engine reports back through \<^verbatim>\<open>Committed\<close>. \<open>led_exec\<close> is one step,
  \<open>led_run\<close> a sequence of them; a step that the code cannot take is \<open>None\<close>. The invariant \<open>core_inv\<close>
  says, lane by lane, that the open groups are exactly the unresolved tickets of the lane's tracker,
  each with as many references outstanding as the group has outcomes to come.
\<close>

section \<open>The state machine\<close>

datatype frame = AtTrack admission | AtEnd admission tracked_as

record sys =
  sy_led :: ledger
  sy_adm :: "(lane_id \<times> frame) list"
  sy_offered :: "(lane_id \<times> position) list"

datatype ('v, 'e) led_op =
    OpLane lane_id ordering int when_full
  | OpSetEpoch lane_id nat
  | OpAdmitBegin time "('v, 'e) batch"
  | OpAdmitTrack time lane_id
  | OpAdmitCancel lane_id
  | OpAdmitEnd lane_id
  | OpExpand group_id nat
  | OpRegister record_id group_id
  | OpSettle "'e outcome list"
  | OpFlushable
  | OpCommitted "(lane_id \<times> position) list"
  | OpFinishLane lane_id
  | OpRequestRetire lane_id
  | OpRetirable
  | OpRevoke lane_id
  | OpReap time
  | OpClose

text \<open>
  The reference counts of a batch and of an expanded group stay below \<open>2 ^ 32\<close>, and a record
  carries at least one reference.
\<close>

definition refs_ok :: "('v, 'e) batch \<Rightarrow> bool" where
  "refs_ok b \<longleftrightarrow> (\<forall>r \<in> set (b_Records b). 0 < o_refs (rec_origin r)) \<and>
     sum_list (map (\<lambda>r. o_refs (rec_origin r)) (b_Records b)) < 2 ^ 32"

definition expand_ok :: "group_id \<Rightarrow> nat \<Rightarrow> ledger \<Rightarrow> bool" where
  "expand_ok gid n l = (case map_of (led_groups l) gid of None \<Rightarrow> True | Some g \<Rightarrow> g_refs g + n < 2 ^ 32)"

definition on_led :: "(ledger \<Rightarrow> ledger) \<Rightarrow> sys \<Rightarrow> sys" where
  "on_led f s = s\<lparr>sy_led := f (sy_led s)\<rparr>"

fun led_exec :: "('v, 'e) led_op \<Rightarrow> sys \<Rightarrow> sys option" where
  "led_exec (OpLane lid ord budget whenF) s = Some (on_led (fst \<circ> Lane lid ord budget whenF) s)"
| "led_exec (OpSetEpoch lid epoch) s = Some (on_led (SetEpoch lid epoch) s)"
| "led_exec (OpAdmitBegin now b) s =
     (if map_of (sy_adm s) (b_Lane b) \<noteq> None \<or> \<not> refs_ok b then None
      else case Admit_begin now b (sy_led s) of
          (l, Inl _) \<Rightarrow> Some (s\<lparr>sy_led := l\<rparr>)
        | (l, Inr (_, ad)) \<Rightarrow> Some (s\<lparr>sy_led := l, sy_adm := aput (b_Lane b) (AtTrack ad) (sy_adm s)\<rparr>))"
| "led_exec (OpAdmitTrack now lid) s =
     (case map_of (sy_adm s) lid of
        Some (AtTrack ad) \<Rightarrow>
          (case Admit_track now ad (sy_led s) of
             (l, Blocked) \<Rightarrow> None
           | (l, Ready (Inl _)) \<Rightarrow> Some (s\<lparr>sy_led := l, sy_adm := adel lid (sy_adm s)\<rparr>)
           | (l, Ready (Inr how)) \<Rightarrow> Some (s\<lparr>sy_led := l, sy_adm := aput lid (AtEnd ad how) (sy_adm s)\<rparr>))
      | _ \<Rightarrow> None)"
| "led_exec (OpAdmitCancel lid) s =
     (case map_of (sy_adm s) lid of
        Some (AtTrack ad) \<Rightarrow> Some (s\<lparr>sy_adm := adel lid (sy_adm s)\<rparr>)
      | _ \<Rightarrow> None)"
| "led_exec (OpAdmitEnd lid) s =
     (case map_of (sy_adm s) lid of
        Some (AtEnd ad how) \<Rightarrow>
          Some (s\<lparr>sy_led := fst (Admit_end ad how (sy_led s)), sy_adm := adel lid (sy_adm s)\<rparr>)
      | _ \<Rightarrow> None)"
| "led_exec (OpExpand gid n) s =
     (if expand_ok gid n (sy_led s) then Some (on_led (fst \<circ> Expand gid n) s) else None)"
| "led_exec (OpRegister rid gid) s = Some (on_led (Register rid gid) s)"
| "led_exec (OpSettle outs) s = Some (on_led (Settle outs) s)"
| "led_exec OpFlushable s =
     (let (l, out) = Flushable (sy_led s) in Some (s\<lparr>sy_led := l, sy_offered := sy_offered s @ out\<rparr>))"
| "led_exec (OpCommitted m) s =
     (if set m \<subseteq> set (sy_offered s) \<and> distinct (map fst m) then Some (on_led (Committed m) s) else None)"
| "led_exec (OpFinishLane lid) s = Some (on_led (FinishLane lid) s)"
| "led_exec (OpRequestRetire lid) s = Some (on_led (fst \<circ> RequestRetire lid) s)"
| "led_exec OpRetirable s = Some (on_led (fst \<circ> Retirable) s)"
| "led_exec (OpRevoke lid) s = Some (on_led (fst \<circ> Revoke lid) s)"
| "led_exec (OpReap now) s = Some (on_led (reap_tick now) s)"
| "led_exec OpClose s = Some (on_led ledger_Close s)"

definition sys_init :: "led_config \<Rightarrow> sys" where
  "sys_init cfg = \<lparr>sy_led = New cfg, sy_adm = [], sy_offered = []\<rparr>"

fun led_run :: "('v, 'e) led_op list \<Rightarrow> sys \<Rightarrow> sys option" where
  "led_run [] s = Some s"
| "led_run (op # ops) s = (case led_exec op s of None \<Rightarrow> None | Some s' \<Rightarrow> led_run ops s')"

lemma led_run_invariant:
  assumes step: "\<And>op s s'. P s \<Longrightarrow> led_exec (op :: ('v, 'e) led_op) s = Some s' \<Longrightarrow> P s'"
    and run: "led_run (ops :: ('v, 'e) led_op list) s = Some s'" and init: "P s"
  shows "P s'"
  using run init
proof (induction ops arbitrary: s)
  case (Cons op ops)
  then obtain s1 where "led_exec op s = Some s1" and "led_run ops s1 = Some s'"
    by (auto split: option.splits)
  with Cons step show ?case by blast
qed simp

section \<open>The core invariant, one lane at a time\<close>

definition groups_of :: "ledger \<Rightarrow> lane_id \<Rightarrow> group_id \<Rightarrow> group option" where
  "groups_of l lid gid = (case map_of (led_groups l) gid of
     None \<Rightarrow> None | Some g \<Rightarrow> if g_lane g = lid then Some g else None)"

definition grp_ok :: "position tracker \<Rightarrow> group \<Rightarrow> bool" where
  "grp_ok t g \<longleftrightarrow> g_settled g < g_refs g \<and> g_refs g < 2 ^ 32 \<and>
     (\<exists>i nd. g_ticket g = Some i \<and> unresolved t i = Some nd \<and>
        nd_refs nd = g_refs g - g_settled g \<and> nd_weight nd = g_records g)"

definition tickets :: "(group_id \<Rightarrow> group option) \<Rightarrow> nat set" where
  "tickets G = {i. \<exists>gid g. G gid = Some g \<and> g_ticket g = Some i}"

definition groups_ok :: "position tracker \<Rightarrow> int \<Rightarrow> (group_id \<Rightarrow> group option) \<Rightarrow> bool" where
  "groups_ok t pend G \<longleftrightarrow> finite (dom G) \<and> pend = int (card (dom G)) \<and>
     (\<forall>gid g. G gid = Some g \<longrightarrow> grp_ok t g) \<and>
     (\<forall>gid gid' g g'. G gid = Some g \<longrightarrow> G gid' = Some g' \<longrightarrow> g_ticket g = g_ticket g' \<longrightarrow> gid = gid')"

definition ad_ok :: "lane_id \<Rightarrow> admission \<Rightarrow> bool" where
  "ad_ok lid ad \<longleftrightarrow> ad_lane ad = lid \<and> g_lane (ad_group ad) = lid \<and> g_settled (ad_group ad) = 0 \<and>
     g_records (ad_group ad) = ad_len ad \<and>
     (0 < ad_len ad \<longrightarrow> 0 < g_refs (ad_group ad) \<and> g_refs (ad_group ad) < 2 ^ 32)"

fun frame_ok :: "lane_id \<Rightarrow> position tracker \<Rightarrow> nat \<Rightarrow> (group_id \<Rightarrow> group option) \<Rightarrow> frame option \<Rightarrow> bool" where
  "frame_ok lid t seq G None = (dom (unresolved t) \<subseteq> tickets G)"
| "frame_ok lid t seq G (Some (AtTrack ad)) =
     (ad_ok lid ad \<and> 0 < seq \<and> pos_Seq (ad_pos ad) = seq \<and> seq_ok pos_Seq (seq - 1) t \<and>
      dom (unresolved t) \<subseteq> tickets G)"
| "frame_ok lid t seq G (Some (AtEnd ad (TakenTicket k))) =
     (ad_ok lid ad \<and> k \<notin> tickets G \<and> grp_ok t ((ad_group ad)\<lparr>g_ticket := Some k\<rparr>) \<and>
      dom (unresolved t) \<subseteq> insert k (tickets G))"
| "frame_ok lid t seq G (Some (AtEnd ad (EmptyAdvance m))) =
     (ad_ok lid ad \<and> (\<forall>p. m = Some p \<longrightarrow> pos_Seq p \<le> high pos_Seq t) \<and> dom (unresolved t) \<subseteq> tickets G)"
| "frame_ok lid t seq G (Some (AtEnd ad (ShedAdvance m))) =
     (ad_ok lid ad \<and> (\<forall>p. m = Some p \<longrightarrow> pos_Seq p \<le> high pos_Seq t) \<and> dom (unresolved t) \<subseteq> tickets G)"

definition lane_ok :: "lane_id \<Rightarrow> lane_state \<Rightarrow> (group_id \<Rightarrow> group option) \<Rightarrow> frame option \<Rightarrow> bool" where
  "lane_ok lid st G f \<longleftrightarrow> seq_ok pos_Seq (ls_seq st) (ls_tracker st) \<and>
     groups_ok (ls_tracker st) (ls_pending st) G \<and> frame_ok lid (ls_tracker st) (ls_seq st) G f"

definition led_ok :: "ledger \<Rightarrow> (lane_id \<Rightarrow> frame option) \<Rightarrow> bool" where
  "led_ok l F \<longleftrightarrow> wf_amap (led_lanes l) \<and> wf_amap (led_groups l) \<and>
     (\<forall>gid g. map_of (led_groups l) gid = Some g \<longrightarrow> map_of (led_lanes l) (g_lane g) \<noteq> None) \<and>
     (\<forall>lid. F lid \<noteq> None \<longrightarrow> map_of (led_lanes l) lid \<noteq> None) \<and>
     (\<forall>lid st. map_of (led_lanes l) lid = Some st \<longrightarrow> lane_ok lid st (groups_of l lid) (F lid))"

definition core_inv :: "sys \<Rightarrow> bool" where
  "core_inv s \<longleftrightarrow> led_ok (sy_led s) (map_of (sy_adm s))"

section \<open>Updating one lane\<close>

lemma upd_lane_simps [simp]:
  "map_of (led_lanes (upd_lane lid f l)) k =
     (if k = lid then map_option f (map_of (led_lanes l) k) else map_of (led_lanes l) k)"
  "led_groups (upd_lane lid f l) = led_groups l" "led_byRec (upd_lane lid f l) = led_byRec l"
  "led_acks (upd_lane lid f l) = led_acks l" "led_closed (upd_lane lid f l) = led_closed l"
  "led_cfg (upd_lane lid f l) = led_cfg l"
  "wf_amap (led_lanes (upd_lane lid f l)) = wf_amap (led_lanes l)"
  "groups_of (upd_lane lid f l) = groups_of l"
  by (auto simp: upd_lane_def groups_of_def fun_eq_iff option.map_ident)

lemma led_ok_frame:
  assumes "led_ok l F" and "wf_amap (led_lanes l')" and "wf_amap (led_groups l')"
    and "\<And>k. k \<noteq> lid \<Longrightarrow> map_of (led_lanes l') k = map_of (led_lanes l) k"
    and "\<And>k. k \<noteq> lid \<Longrightarrow> groups_of l' k = groups_of l k"
    and "\<And>k. k \<noteq> lid \<Longrightarrow> F' k = F k"
    and "map_of (led_lanes l') lid = Some st'"
    and "lane_ok lid st' (groups_of l' lid) (F' lid)"
  shows "led_ok l' F'"
proof -
  have "map_of (led_lanes l') (g_lane g) \<noteq> None" if g: "map_of (led_groups l') gid = Some g" for gid g
  proof (cases "g_lane g = lid")
    case False
    have "groups_of l' (g_lane g) gid = Some g" using g by (simp add: groups_of_def)
    then have "map_of (led_groups l) gid = Some g"
      using assms(5) [OF False] by (auto simp: groups_of_def split: option.splits if_splits)
    then show ?thesis using assms(1,4) False by (simp add: led_ok_def)
  qed (use assms(7) in simp)
  moreover have "lane_ok k st (groups_of l' k) (F' k)" if "map_of (led_lanes l') k = Some st" for k st
    using that assms(1,4-8) by (cases "k = lid") (auto simp: led_ok_def)
  moreover have "map_of (led_lanes l') k \<noteq> None" if "F' k \<noteq> None" for k
    using that assms(1,4,6,7) by (cases "k = lid") (auto simp: led_ok_def)
  ultimately show ?thesis using assms(2,3) unfolding led_ok_def by blast
qed

text \<open>An operation that keeps the tracker, the sequence and the pending count of every lane.\<close>

definition same_core :: "lane_state \<Rightarrow> lane_state \<Rightarrow> bool" where
  "same_core st st' \<longleftrightarrow> ls_tracker st' = ls_tracker st \<and> ls_seq st' = ls_seq st \<and>
     ls_pending st' = ls_pending st"

lemma lane_ok_core: "same_core st st' \<Longrightarrow> lane_ok lid st' G f = lane_ok lid st G f"
  by (simp add: same_core_def lane_ok_def)

lemma led_ok_core:
  assumes "led_ok l F" and "wf_amap (led_lanes l')"
    and "led_groups l' = led_groups l"
    and "\<And>lid. rel_option same_core (map_of (led_lanes l) lid) (map_of (led_lanes l') lid)"
  shows "led_ok l' F"
proof -
  have g: "groups_of l' = groups_of l" by (simp add: groups_of_def fun_eq_iff assms(3))
  have n: "map_of (led_lanes l') lid = None \<longleftrightarrow> map_of (led_lanes l) lid = None" for lid
    using assms(4) [of lid] by (auto elim: option.rel_cases)
  have "lane_ok lid st' (groups_of l lid) (F lid)" if "map_of (led_lanes l') lid = Some st'" for lid st'
    using assms(4) [of lid] that assms(1)
    by (auto simp: led_ok_def lane_ok_core elim: option.rel_cases)
  then show ?thesis using assms(1-3) g n by (simp add: led_ok_def)
qed

lemma rel_same_core_refl [simp]: "rel_option same_core x x"
  by (cases x) (simp_all add: same_core_def)

lemma led_ok_upd_core:
  assumes "led_ok l F" and "\<And>st. same_core st (f st)"
  shows "led_ok (upd_lane lid f l) F"
  using assms by (intro led_ok_core [OF assms(1)])
    (auto simp: led_ok_def option.rel_map split: option.splits intro: option.rel_refl)

lemma led_ok_amap_core:
  assumes "led_ok l F" and "\<And>k st. same_core st (f k st)" and "led_groups l' = led_groups l"
    and "led_lanes l' = amap f (led_lanes l)"
  shows "led_ok l' F"
  using assms by (intro led_ok_core [OF assms(1)])
    (auto simp: led_ok_def option.rel_map intro: option.rel_refl)

section \<open>How the operations move one lane\<close>

lemma grp_ok_unresolved: "unresolved t' = unresolved t \<Longrightarrow> grp_ok t' g = grp_ok t g"
  by (simp add: grp_ok_def)

lemma groups_ok_unresolved: "unresolved t' = unresolved t \<Longrightarrow> groups_ok t' p G = groups_ok t p G"
  by (simp add: groups_ok_def grp_ok_def)

lemma grp_ok_other: "grp_ok t g \<Longrightarrow> g_ticket g \<noteq> Some i \<Longrightarrow> unresolved t' = (unresolved t)(i := x) \<Longrightarrow> grp_ok t' g"
  by (auto simp: grp_ok_def)

lemma groups_ok_live: "groups_ok t p G \<Longrightarrow> tickets G \<subseteq> dom (unresolved t)"
proof
  fix i assume "groups_ok t p G" and "i \<in> tickets G"
  then obtain g where "grp_ok t g" and "g_ticket g = Some i"
    unfolding groups_ok_def tickets_def by blast
  then show "i \<in> dom (unresolved t)" by (auto simp: grp_ok_def)
qed

lemma groups_ok_other:
  assumes g: "groups_ok t p G" and k: "k \<notin> tickets G" and u: "unresolved t' = (unresolved t)(k := x)"
  shows "groups_ok t' p G"
proof -
  have "grp_ok t' gr" if "G gid = Some gr" for gid gr
    using grp_ok_other [OF _ _ u, of gr] g k that by (auto simp: groups_ok_def tickets_def)
  with g show ?thesis unfolding groups_ok_def by blast
qed

lemma lane_ok_begin:
  assumes "lane_ok lid st G None" and "ad_ok lid ad" and "pos_Seq (ad_pos ad) = ls_seq st + 1"
  shows "lane_ok lid (st\<lparr>ls_seq := ls_seq st + 1\<rparr>) G (Some (AtTrack ad))"
  using assms seq_ok_mono [of pos_Seq "ls_seq st" "ls_tracker st" "ls_seq st + 1"]
  by (simp add: lane_ok_def)

lemma lane_ok_cancel: "lane_ok lid st G (Some (AtTrack ad)) \<Longrightarrow> lane_ok lid st G None"
  by (simp add: lane_ok_def)

lemma lane_ok_pass:
  assumes "lane_ok lid st G (Some (AtTrack ad))"
    and "TrackResolved now (ad_pos ad) (ls_tracker st) = (t, m)"
    and "how = EmptyAdvance m \<or> how = ShedAdvance m"
  shows "lane_ok lid (st\<lparr>ls_tracker := t\<rparr>) G (Some (AtEnd ad how))"
proof -
  have ok: "seq_ok pos_Seq (ls_seq st - 1) (ls_tracker st)"
    and p: "ls_seq st - 1 < pos_Seq (ad_pos ad)" "pos_Seq (ad_pos ad) = ls_seq st"
    using assms(1) by (auto simp: lane_ok_def)
  from pt.pass_law [OF ok p(1) assms(2)]
  have t: "seq_ok pos_Seq (ls_seq st) t" "unresolved t = unresolved (ls_tracker st)"
    and m: "\<forall>q. m = Some q \<longrightarrow> pos_Seq q = high pos_Seq t" unfolding p(2) by blast+
  have "groups_ok t (ls_pending st) G" and ad: "ad_ok lid ad" and "dom (unresolved t) \<subseteq> tickets G"
    using assms(1) groups_ok_unresolved [OF t(2)] unfolding t(2) lane_ok_def by auto
  with t(1) m show ?thesis
    using assms(3) by (elim disjE) (simp_all add: lane_ok_def)
qed

lemma lane_ok_take:
  assumes "lane_ok lid st G (Some (AtTrack ad))" and len: "0 < ad_len ad"
    and "TryTrack now (ad_pos ad) (ad_len ad) (g_refs (ad_group ad)) (ls_tracker st) = (t, Some k)"
  shows "lane_ok lid (st\<lparr>ls_tracker := t\<rparr>) G (Some (AtEnd ad (TakenTicket k)))"
proof -
  let ?t = "ls_tracker st" and ?nd = "tracked_node now (ad_pos ad) (ad_len ad) (g_refs (ad_group ad))"
  have ok: "seq_ok pos_Seq (ls_seq st - 1) ?t" and ad: "ad_ok lid ad"
    and p: "ls_seq st - 1 < pos_Seq (ad_pos ad)" "pos_Seq (ad_pos ad) = ls_seq st"
    and g: "groups_ok ?t (ls_pending st) G" and d: "dom (unresolved ?t) \<subseteq> tickets G"
    using assms(1) by (auto simp: lane_ok_def)
  have t: "seq_ok pos_Seq (ls_seq st) t" "unresolved ?t k = None" "unresolved t = (unresolved ?t)(k \<mapsto> ?nd)"
    using pt.admit_law [OF ok p(1) assms(3)] p(2) by simp_all
  have k: "k \<notin> tickets G" using groups_ok_live [OF g] t(2) by auto
  have "groups_ok t (ls_pending st) G"
    by (rule groups_ok_other [OF g k t(3)])
  moreover have "grp_ok t ((ad_group ad)\<lparr>g_ticket := Some k\<rparr>)"
    using ad len t(3) by (auto simp: grp_ok_def ad_ok_def tracked_node_def)
  ultimately show ?thesis using t d ad k by (auto simp: lane_ok_def)
qed

lemma lane_ok_publish:
  assumes "lane_ok lid st G (Some (AtEnd ad how))" and "how = EmptyAdvance m \<or> how = ShedAdvance m"
    and "same_core st st'"
  shows "lane_ok lid st' G None"
  using assms(2,1,3) by (elim disjE) (simp_all add: lane_ok_def same_core_def)

lemma lane_ok_open:
  assumes L: "lane_ok lid st G (Some (AtEnd ad (TakenTicket k)))" and n: "G gid = None"
    and st': "ls_tracker st' = ls_tracker st" "ls_seq st' = ls_seq st" "ls_pending st' = ls_pending st + 1"
  shows "lane_ok lid st' (G(gid \<mapsto> (ad_group ad)\<lparr>g_ticket := Some k\<rparr>)) None"
proof -
  let ?g = "(ad_group ad)\<lparr>g_ticket := Some k\<rparr>"
  have g: "groups_ok (ls_tracker st) (ls_pending st) G" and k: "k \<notin> tickets G"
    and new: "grp_ok (ls_tracker st) ?g" and d: "dom (unresolved (ls_tracker st)) \<subseteq> insert k (tickets G)"
    using L by (simp_all add: lane_ok_def)
  have k': "\<And>gid' g. G gid' = Some g \<Longrightarrow> g_ticket g \<noteq> Some k" using k by (auto simp: tickets_def)
  have "card (insert gid (dom G)) = card (dom G) + 1"
    using g n by (simp add: groups_ok_def domIff)
  then have "groups_ok (ls_tracker st) (ls_pending st + 1) (G(gid \<mapsto> ?g))"
    using g new k' by (auto simp: groups_ok_def) metis+
  moreover have "tickets (G(gid \<mapsto> ?g)) = insert k (tickets G)"
    using n unfolding tickets_def by (auto split: if_splits) (metis option.distinct(1))
  ultimately show ?thesis using L st' d by (simp add: lane_ok_def)
qed

lemma lane_ok_refuse:
  assumes L: "lane_ok lid st G (Some (AtEnd ad (TakenTicket k)))"
  shows "lane_ok lid (st\<lparr>ls_tracker := fst (Abandon (Some k) (ls_tracker st))\<rparr>) G None"
proof -
  let ?t = "ls_tracker st"
  obtain t a where t: "discharge (Some k) 0 True ?t = (t, a)" by fastforce
  have ok: "seq_ok pos_Seq (ls_seq st) ?t" and g: "groups_ok ?t (ls_pending st) G"
    and k: "k \<notin> tickets G" and d: "dom (unresolved ?t) \<subseteq> insert k (tickets G)"
    using L by (simp_all add: lane_ok_def)
  obtain nd where nd: "unresolved ?t k = Some nd" using L by (auto simp: lane_ok_def grp_ok_def)
  have t': "seq_ok pos_Seq (ls_seq st) t" "unresolved t = (unresolved ?t)(k := None)"
    using pt.settle_law [OF ok nd t] by (simp_all add: settled_node_def)
  have "groups_ok t (ls_pending st) G"
    by (rule groups_ok_other [OF g k t'(2)])
  then show ?thesis using t t' d by (auto simp: lane_ok_def Abandon_def)
qed

lemma group_outcome_simps [simp]:
  "g_lane (group_outcome ou g) = g_lane g" "g_ticket (group_outcome ou g) = g_ticket g"
  "g_refs (group_outcome ou g) = g_refs g" "g_epoch (group_outcome ou g) = g_epoch g"
  "g_records (group_outcome ou g) = g_records g"
  "g_settled (group_outcome ou g) = u32_add (g_settled g) 1"
  by (simp_all add: group_outcome_def Let_def split: option.splits)

lemma u32_add_small: "a + b < 2 ^ 32 \<Longrightarrow> u32_add a b = a + b"
  by (simp add: u32_add_def)

text \<open>The tracker call of an outcome removes the ticket exactly when the group closes.\<close>

lemma settle_ticket_law:
  assumes ok: "seq_ok pos_Seq s t" and g: "grp_ok t g0" and i: "g_ticket g0 = Some i"
    and st: "settle_ticket ou (group_outcome ou g0) t = (t', m)"
  shows "seq_ok pos_Seq s t' \<and> high pos_Seq t \<le> high pos_Seq t' \<and>
    (\<forall>q. m = Some q \<longrightarrow> pos_Seq q = high pos_Seq t') \<and>
    (if g_refs g0 \<le> g_settled (group_outcome ou g0)
     then unresolved t' = (unresolved t)(i := None)
     else \<exists>nd. unresolved t' = (unresolved t)(i \<mapsto> nd) \<and> grp_ok t' (group_outcome ou g0))"
proof -
  let ?g = "group_outcome ou g0"
  obtain nd where nd: "unresolved t i = Some nd" "nd_refs nd = g_refs g0 - g_settled g0"
    "nd_weight nd = g_records g0" and lt: "g_settled g0 < g_refs g0" "g_refs g0 < 2 ^ 32"
    using g i by (auto simp: grp_ok_def)
  have s1: "g_settled ?g = g_settled g0 + 1" using lt by (simp add: u32_add_small)
  show ?thesis
  proof (cases "out_Disposition ou = Abandoned \<and> g_refs g0 \<le> g_settled ?g")
    case True
    then have "discharge (Some i) 0 True t = (t', m)"
      using st i by (simp add: settle_ticket_def Abandon_def)
    from pt.settle_law [OF ok nd(1) this] True show ?thesis by (simp add: settled_node_def)
  next
    case False
    then have "discharge (Some i) 1 False t = (t', m)"
      using st i by (auto simp: settle_ticket_def Release_def split: if_splits)
    note law = pt.settle_law [OF ok nd(1) this]
    show ?thesis
    proof (cases "g_refs g0 \<le> g_settled ?g")
      case True
      then have "settled_node 1 False nd = None" using nd(2) lt s1 by (simp add: settled_node_def)
      with law True show ?thesis by auto
    next
      case no: False
      let ?nd = "nd\<lparr>nd_refs := nd_refs nd - 1\<rparr>"
      have "settled_node 1 False nd = Some ?nd"
        using no nd(2) lt s1 by (simp add: settled_node_def)
      with law have u: "unresolved t' = (unresolved t)(i \<mapsto> ?nd)" by simp
      have "grp_ok t' ?g" using u i nd lt s1 no by (simp add: grp_ok_def)
      with u law no show ?thesis by auto
    qed
  qed
qed

lemma frame_ok_step:
  assumes f: "frame_ok lid t seq G f" and u: "unresolved t' = (unresolved t)(i := x)"
    and i: "i \<in> tickets G" and tk: "tickets G' = (if x = None then tickets G - {i} else tickets G)"
    and h: "high pos_Seq t \<le> high pos_Seq t'"
    and ok: "\<And>s. seq_ok pos_Seq s t \<Longrightarrow> seq_ok pos_Seq s t'"
  shows "frame_ok lid t' seq G' f"
proof -
  have sub: "dom (unresolved t') \<subseteq> tickets G'" if "dom (unresolved t) \<subseteq> tickets G"
    using that i by (auto simp: u tk split: if_splits)
  have sub': "dom (unresolved t') \<subseteq> insert k (tickets G')" if "dom (unresolved t) \<subseteq> insert k (tickets G)" for k
    using that i by (auto simp: u tk split: if_splits)
  have sm: "tickets G' \<subseteq> tickets G" by (auto simp: tk)
  show ?thesis
  proof (cases "(lid, t, seq, G, f)" rule: frame_ok.cases)
    case (3 lid' t0 seq' G0 ad k)
    then have k: "k \<notin> tickets G" and gk: "grp_ok t ((ad_group ad)\<lparr>g_ticket := Some k\<rparr>)"
      and d: "dom (unresolved t) \<subseteq> insert k (tickets G)" using f by simp_all
    have "grp_ok t' ((ad_group ad)\<lparr>g_ticket := Some k\<rparr>)"
      using k i by (intro grp_ok_other [OF gk _ u]) auto
    moreover have "k \<notin> tickets G'" using k sm by blast
    ultimately show ?thesis using 3 sub' [OF d] f by simp
  qed (use f sub ok h in \<open>auto dest: order_trans\<close>)
qed

lemma ticketsI: "G gid = Some g \<Longrightarrow> g_ticket g = Some i \<Longrightarrow> i \<in> tickets G"
  by (auto simp: tickets_def)

lemma ticketsE: "i \<in> tickets G \<Longrightarrow> (\<And>gid g. G gid = Some g \<Longrightarrow> g_ticket g = Some i \<Longrightarrow> P) \<Longrightarrow> P"
  by (auto simp: tickets_def)

lemma tickets_remove:
  assumes ok: "groups_ok t p G" and g: "G gid = Some g" and i: "g_ticket g = Some i"
  shows "tickets (G(gid := None)) = tickets G - {i}"
proof (intro set_eqI iffI)
  fix j assume "j \<in> tickets (G(gid := None))"
  then obtain gid' g' where "gid' \<noteq> gid" "G gid' = Some g'" "g_ticket g' = Some j"
    by (rule ticketsE) (auto split: if_splits)
  moreover from this ok g i have "j \<noteq> i" unfolding groups_ok_def by metis
  ultimately show "j \<in> tickets G - {i}" by (auto intro: ticketsI)
next
  fix j assume "j \<in> tickets G - {i}"
  then obtain gid' g' where "j \<noteq> i" "G gid' = Some g'" "g_ticket g' = Some j"
    by (auto elim: ticketsE)
  with g i show "j \<in> tickets (G(gid := None))" by (intro ticketsI [of _ gid' g']) auto
qed

lemma tickets_replace:
  assumes "G gid = Some g0" and "g_ticket g = g_ticket g0"
  shows "tickets (G(gid \<mapsto> g)) = tickets G"
proof (intro set_eqI iffI)
  fix j assume "j \<in> tickets (G(gid \<mapsto> g))"
  then show "j \<in> tickets G"
    using assms by (elim ticketsE) (auto split: if_splits intro: ticketsI)
next
  fix j assume "j \<in> tickets G"
  then obtain gid' g' where "G gid' = Some g'" "g_ticket g' = Some j" by (rule ticketsE)
  with assms show "j \<in> tickets (G(gid \<mapsto> g))"
    by (cases "gid' = gid") (auto intro: ticketsI [of _ gid'])
qed

lemma lane_ok_settle:
  assumes L: "lane_ok lid st G f" and g0: "G gid = Some g0"
    and tk: "settle_ticket ou (group_outcome ou g0) (ls_tracker st) = (t, m)"
    and st': "ls_tracker st' = t" "ls_seq st' = ls_seq st"
  shows "g_refs g0 \<le> g_settled (group_outcome ou g0) \<Longrightarrow> ls_pending st' = ls_pending st - 1 \<Longrightarrow>
      lane_ok lid st' (G(gid := None)) f"
    and "\<not> g_refs g0 \<le> g_settled (group_outcome ou g0) \<Longrightarrow> ls_pending st' = ls_pending st \<Longrightarrow>
      lane_ok lid st' (G(gid \<mapsto> group_outcome ou g0)) f"
proof -
  let ?t = "ls_tracker st"
  have ok: "seq_ok pos_Seq (ls_seq st) ?t" and gs: "groups_ok ?t (ls_pending st) G"
    and fr: "frame_ok lid ?t (ls_seq st) G f" using L by (simp_all add: lane_ok_def)
  have go: "grp_ok ?t g0" using gs g0 by (simp add: groups_ok_def)
  then obtain i where i: "g_ticket g0 = Some i" by (auto simp: grp_ok_def)
  have iT: "i \<in> tickets G" using g0 i by (auto simp: tickets_def)
  note law = settle_ticket_law [OF _ go i tk]
  have h: "high pos_Seq ?t \<le> high pos_Seq t" using law [OF ok] by simp
  have uniq: "G gid' = Some g' \<Longrightarrow> gid' \<noteq> gid \<Longrightarrow> g_ticket g' \<noteq> Some i" for gid' g'
    using gs g0 i unfolding groups_ok_def by metis
  have others: "grp_ok t g'" if "G gid' = Some g'" "gid' \<noteq> gid" "unresolved t = (unresolved ?t)(i := x)"
    for gid' g' x
    using grp_ok_other [OF _ uniq that(3)] that gs by (simp add: groups_ok_def)
  {
    assume c: "g_refs g0 \<le> g_settled (group_outcome ou g0)" and p: "ls_pending st' = ls_pending st - 1"
    have u: "unresolved t = (unresolved ?t)(i := None)" using law [OF ok] c by simp
    have "card (dom G) = card (dom G - {gid}) + 1"
      using gs g0 by (simp add: groups_ok_def domIff card_Diff_singleton) (metis card_gt_0_iff domI empty_iff Suc_pred)
    then have "groups_ok t (ls_pending st - 1) (G(gid := None))"
      using gs others u unfolding groups_ok_def by (auto split: if_splits)
    moreover have "frame_ok lid t (ls_seq st) (G(gid := None)) f"
      using law by (intro frame_ok_step [OF fr u iT _ h]) (auto simp: tickets_remove [OF gs g0 i])
    ultimately show "lane_ok lid st' (G(gid := None)) f" using law [OF ok] st' p by (simp add: lane_ok_def)
  next
    assume c: "\<not> g_refs g0 \<le> g_settled (group_outcome ou g0)" and p: "ls_pending st' = ls_pending st"
    then obtain nd where u: "unresolved t = (unresolved ?t)(i \<mapsto> nd)" and gk: "grp_ok t (group_outcome ou g0)"
      using law [OF ok] by auto
    have "dom (G(gid \<mapsto> group_outcome ou g0)) = dom G" using g0 by auto
    then have "groups_ok t (ls_pending st) (G(gid \<mapsto> group_outcome ou g0))"
      using gs others [OF _ _ u] gk uniq i unfolding groups_ok_def fun_upd_apply
      by (simp split: if_splits) metis
    moreover have "frame_ok lid t (ls_seq st) (G(gid \<mapsto> group_outcome ou g0)) f"
      using law by (intro frame_ok_step [OF fr u iT _ h]) (auto simp: g0 tickets_replace [of G gid g0])
    ultimately show "lane_ok lid st' (G(gid \<mapsto> group_outcome ou g0)) f"
      using law [OF ok] st' p by (simp add: lane_ok_def)
  }
qed

section \<open>Every step keeps the core invariant\<close>

text \<open>The high-water mark of a lane's tracker; it never falls.\<close>

definition mark :: "ledger \<Rightarrow> lane_id \<Rightarrow> nat" where
  "mark l lid = (case map_of (led_lanes l) lid of None \<Rightarrow> 0 | Some st \<Rightarrow> high pos_Seq (ls_tracker st))"

definition mark_le :: "ledger \<Rightarrow> ledger \<Rightarrow> bool" where
  "mark_le l l' \<longleftrightarrow> (\<forall>lid. mark l lid \<le> mark l' lid)"

lemma mark_le_refl [simp]: "mark_le l l"
  by (simp add: mark_le_def)

lemma mark_le_trans: "mark_le l l' \<Longrightarrow> mark_le l' l'' \<Longrightarrow> mark_le l l''"
  unfolding mark_le_def by (blast intro: order_trans)

lemma groups_of_put:
  assumes "\<And>g'. map_of (led_groups l) gid = Some g' \<Longrightarrow> g_lane g' = g_lane g"
    and "led_groups l' = AList.update gid g (led_groups l)"
  shows "groups_of l' lid = (if lid = g_lane g then (groups_of l lid)(gid \<mapsto> g) else groups_of l lid)"
proof
  fix k show "groups_of l' lid k =
    (if lid = g_lane g then (groups_of l lid)(gid \<mapsto> g) else groups_of l lid) k"
    using assms(1) [of "the (map_of (led_groups l) gid)"] assms(2)
    by (cases "k = gid"; cases "map_of (led_groups l) gid") (auto simp: groups_of_def)
qed

lemma groups_of_del:
  assumes "map_of (led_groups l) gid = Some g" and "led_groups l' = AList.delete gid (led_groups l)"
  shows "groups_of l' lid = (if lid = g_lane g then (groups_of l lid)(gid := None) else groups_of l lid)"
  using assms by (auto simp: groups_of_def fun_eq_iff)

lemma led_okD:
  assumes "led_ok l F" and "map_of (led_lanes l) lid = Some st"
  shows "lane_ok lid st (groups_of l lid) (F lid)"
  using assms by (simp add: led_ok_def)

lemma mark_le_upd:
  assumes "map_of (led_lanes l) lid = Some st" and "high pos_Seq (ls_tracker st) \<le> high pos_Seq (ls_tracker (f st))"
    and "\<And>k. k \<noteq> lid \<Longrightarrow> map_of (led_lanes l') k = map_of (led_lanes l) k"
    and "map_of (led_lanes l') lid = Some (f st)"
  shows "mark_le l l'"
  unfolding mark_le_def
proof
  fix k show "mark l k \<le> mark l' k"
    using assms by (cases "k = lid") (simp_all add: mark_def)
qed

lemma lane_ok_mark:
  assumes "lane_ok lid st G f" and "G gid = Some g0"
    and "settle_ticket ou (group_outcome ou g0) (ls_tracker st) = (t, m)"
  shows "high pos_Seq (ls_tracker st) \<le> high pos_Seq t \<and> (\<forall>q. m = Some q \<longrightarrow> pos_Seq q = high pos_Seq t)"
proof -
  have "grp_ok (ls_tracker st) g0" using assms(1,2) by (simp add: lane_ok_def groups_ok_def)
  moreover from this obtain i where "g_ticket g0 = Some i" by (auto simp: grp_ok_def)
  moreover have "seq_ok pos_Seq (ls_seq st) (ls_tracker st)" using assms(1) by (simp add: lane_ok_def)
  ultimately show ?thesis using settle_ticket_law [OF _ _ _ assms(3)] by blast
qed

definition adv_ok :: "ledger \<Rightarrow> (lane_id \<times> position) list \<Rightarrow> bool" where
  "adv_ok l adv \<longleftrightarrow> (\<forall>a \<in> set adv. pos_Seq (snd a) \<le> mark l (fst a))"

lemma adv_ok_mono: "adv_ok l adv \<Longrightarrow> mark_le l l' \<Longrightarrow> adv_ok l' adv"
  unfolding adv_ok_def mark_le_def by (blast intro: order_trans)

lemma settle_one_cases:
  assumes "led_ok l F"
  obtains "settle_one ou (l, adv) = (l, adv)"
  | gid g0 st t m where "map_of (led_byRec l) (out_Record ou) = Some gid"
      and "map_of (led_groups l) gid = Some g0"
      and "map_of (led_lanes l) (g_lane g0) = Some st"
      and "settle_ticket ou (group_outcome ou g0) (ls_tracker st) = (t, m)"
      and "groups_of l (g_lane g0) gid = Some g0"
proof (cases "map_of (led_byRec l) (out_Record ou)")
  case (Some gid)
  show ?thesis
  proof (cases "map_of (led_groups l) gid")
    case g: (Some g0)
    then obtain st where "map_of (led_lanes l) (g_lane g0) = Some st"
      using assms unfolding led_ok_def by blast
    moreover obtain t m where "settle_ticket ou (group_outcome ou g0) (ls_tracker st) = (t, m)"
      by fastforce
    ultimately show ?thesis using that(2) [OF Some g] g by (simp add: groups_of_def)
  qed (use Some that(1) in \<open>simp add: settle_one_def\<close>)
qed (use that(1) in \<open>simp add: settle_one_def\<close>)

lemma settle_one_ok:
  assumes ok: "led_ok l F" and so: "settle_one ou (l, adv) = (l', adv')" and av: "adv_ok l adv"
  shows "led_ok l' F \<and> mark_le l l' \<and> adv_ok l' adv'"
proof (rule settle_one_cases [OF ok, of ou adv])
  assume "settle_one ou (l, adv) = (l, adv)"
  with so ok av show ?thesis by simp
next
  fix gid g0 st t m
  assume r: "map_of (led_byRec l) (out_Record ou) = Some gid"
    and g: "map_of (led_groups l) gid = Some g0"
    and st: "map_of (led_lanes l) (g_lane g0) = Some st"
    and tk: "settle_ticket ou (group_outcome ou g0) (ls_tracker st) = (t, m)"
    and G: "groups_of l (g_lane g0) gid = Some g0"
  let ?lid = "g_lane g0" and ?g = "group_outcome ou g0"
  note L = led_okD [OF ok st]
  note hm = lane_ok_mark [OF L G tk]
  define f where "f = (\<lambda>st. if g_refs g0 \<le> g_settled ?g
    then (if ls_fencedGroup st (g_epoch g0) then st else account_group ?g st)
      \<lparr>ls_tracker := t, ls_pending := ls_pending st - 1\<rparr>
    else st\<lparr>ls_tracker := t\<rparr>)"
  define gs where "gs = (if g_refs g0 \<le> g_settled ?g then AList.delete gid (led_groups l)
    else AList.update gid ?g (led_groups l))"
  have l': "l' = upd_lane ?lid f (l\<lparr>led_byRec := AList.delete (out_Record ou) (led_byRec l), led_groups := gs\<rparr>)"
    and adv': "adv' = (case m of Some p \<Rightarrow> if ls_ordering st \<noteq> OrderingDiscrete \<and> \<not> ls_fencedGroup st (g_epoch g0)
                              then adv @ [(?lid, p)] else adv | None \<Rightarrow> adv)"
    using so r g st tk
    by (auto simp: settle_one_def f_def gs_def Let_def split: if_splits option.splits)
  have fst': "ls_tracker (f st) = t" "ls_seq (f st) = ls_seq st"
    by (simp_all add: f_def account_group_def)
  have gl: "led_groups l' = gs" by (simp add: l')
  have Gk: "groups_of l' k = (if k = ?lid then (if g_refs g0 \<le> g_settled ?g
      then (groups_of l k)(gid := None) else (groups_of l k)(gid \<mapsto> ?g)) else groups_of l k)" for k
    using groups_of_del [OF g, of l' k] groups_of_put [of l gid ?g l' k] g gl by (auto simp: gs_def)
  have lan: "lane_ok ?lid (f st) (groups_of l' ?lid) (F ?lid)"
    using lane_ok_settle [OF L G tk fst'] Gk [of ?lid]
    by (cases "g_refs g0 \<le> g_settled ?g") (simp_all add: f_def account_group_def)
  have "led_ok l' F"
    by (rule led_ok_frame [OF ok, of l' ?lid F "f st"])
      (use ok st lan Gk in \<open>auto simp: l' led_ok_def gs_def\<close>)
  moreover have "mark_le l l'"
    by (rule mark_le_upd [OF st, of f]) (use hm fst' st in \<open>simp_all add: l'\<close>)
  moreover have "mark l' ?lid = high pos_Seq t" using st fst' by (simp add: mark_def l')
  with hm adv_ok_mono [OF av \<open>mark_le l l'\<close>] have "adv_ok l' adv'"
    by (auto simp: adv' adv_ok_def split: option.splits)
  ultimately show ?thesis by simp
qed

lemma settle_fold_ok:
  assumes "led_ok l F" and "fold settle_one outs (l, adv) = (l', adv')" and "adv_ok l adv"
  shows "led_ok l' F \<and> mark_le l l' \<and> adv_ok l' adv'"
  using assms
proof (induction outs arbitrary: l adv)
  case (Cons ou outs)
  obtain l1 adv1 where s: "settle_one ou (l, adv) = (l1, adv1)" by fastforce
  from settle_one_ok [OF Cons.prems(1) s Cons.prems(3)] Cons.IH [of l1 adv1] Cons.prems(2) s
  show ?case by (auto intro: mark_le_trans)
qed simp

end
