(* ===== verification/Canal_LedgerSafe.thy ===== *)
theory Canal_LedgerSafe
  imports Canal_LedgerInv
begin

text \<open>
  Every step of the ledger's state machine keeps the core invariant and never lowers a lane's
  high-water mark; from that, no position that is offered for a durable write, recorded as
  committed or acknowledged to a source ever reaches a group that is still open, and each is a
  position the source declared safe.
\<close>

section \<open>The core invariant is inductive\<close>

lemma mark_le_core:
  assumes "\<And>lid. rel_option same_core (map_of (led_lanes l) lid) (map_of (led_lanes l') lid)"
  shows "mark_le l l'"
  unfolding mark_le_def
proof
  fix lid
  show "mark l lid \<le> mark l' lid"
    using assms [of lid] by (auto simp: mark_def same_core_def elim: option.rel_cases)
qed

definition keeps :: "(lane_id \<Rightarrow> frame option) \<Rightarrow> ledger \<Rightarrow> ledger \<Rightarrow> bool" where
  "keeps F l l' \<longleftrightarrow> led_ok l' F \<and> mark_le l l'"

lemma keeps_core:
  assumes "led_ok l F" and "wf_amap (led_lanes l')" and "led_groups l' = led_groups l"
    and "\<And>lid. rel_option same_core (map_of (led_lanes l) lid) (map_of (led_lanes l') lid)"
  shows "keeps F l l'"
  using led_ok_core [OF assms] mark_le_core [of l l'] assms(4) by (simp add: keeps_def)

lemma keeps_upd:
  assumes "led_ok l F" and "\<And>st. same_core st (f st)"
  shows "keeps F l (upd_lane lid f l)"
proof (rule keeps_core [OF assms(1)])
  show "rel_option same_core (map_of (led_lanes l) k) (map_of (led_lanes (upd_lane lid f l)) k)" for k
    using assms(2) by (auto simp: option.rel_map intro: option.rel_refl)
qed (use assms(1) in \<open>simp_all add: led_ok_def\<close>)

lemma keeps_amap:
  assumes "led_ok l F" and "\<And>k st. same_core st (f k st)" and "led_groups l' = led_groups l"
    and "led_lanes l' = amap f (led_lanes l)"
  shows "keeps F l l'"
  by (rule keeps_core [OF assms(1)])
    (use assms in \<open>auto simp: led_ok_def option.rel_map intro: option.rel_refl\<close>)

lemma keeps_refl: "led_ok l F \<Longrightarrow> keeps F l l"
  by (simp add: keeps_def)

lemma keeps_trans: "keeps F l l' \<Longrightarrow> (led_ok l' F \<Longrightarrow> keeps F l' l'') \<Longrightarrow> keeps F l l''"
  by (auto simp: keeps_def intro: mark_le_trans)

lemma same_core_clear [simp]: "same_core st (clear_acc st') = same_core st st'"
  by (simp add: same_core_def clear_acc_def)

lemma same_core_drop [simp]: "same_core st (drop_handles st') = same_core st st'"
  by (simp add: same_core_def drop_handles_def)

lemma same_core_acked [simp]: "same_core st (mark_acked st') = same_core st st'"
  by (simp add: mark_acked_def) (simp add: same_core_def)

lemma same_core_publish [simp]: "same_core st (publish_pos m st') = same_core st st'"
  by (simp add: publish_pos_def same_core_def split: option.splits)

lemma same_core_refl [simp]: "same_core st st"
  by (simp add: same_core_def)

lemma same_core_commit: "same_core st (fst (commit_lane lid p st))"
  by (auto simp: commit_lane_def Let_def) (simp_all add: same_core_def)

lemma same_core_emit: "same_core st (fst (emit_lane lid st))"
  by (simp add: emit_lane_def)

lemma same_core_flush: "same_core st (fst (flush_lane st))"
  by (simp add: flush_lane_def same_core_def split: option.splits)

text \<open>Sending touches the acknowledgements alone.\<close>

lemma fold_send [simp]:
  "fold send as l = (if led_closed l then l else l\<lparr>led_acks := led_acks l @ as\<rparr>)"
  by (induction as arbitrary: l) (auto simp: send_def)

lemma groups_of_acks [simp]: "groups_of (l\<lparr>led_acks := x\<rparr>) = groups_of l"
  by (simp add: groups_of_def fun_eq_iff)

lemma led_ok_acks [simp]: "led_ok (l\<lparr>led_acks := x\<rparr>) F = led_ok l F"
  by (simp add: led_ok_def)

lemma mark_acks [simp]: "mark (l\<lparr>led_acks := x\<rparr>) = mark l"
  by (simp add: mark_def fun_eq_iff)

lemma keeps_acks [simp]: "keeps F l (l'\<lparr>led_acks := x\<rparr>) = keeps F l l'"
  by (simp add: keeps_def mark_le_def)

lemma keeps_emitDiscrete: "led_ok l F \<Longrightarrow> keeps F l (emitDiscrete l)"
  unfolding emitDiscrete_def
  by (simp add: keeps_amap [OF _ same_core_emit])

lemma keeps_apply_advances: "led_ok l F \<Longrightarrow> keeps F l (fold apply_advance adv l)"
proof (induction adv arbitrary: l)
  case (Cons a adv)
  have "keeps F l (apply_advance a l)"
    unfolding apply_advance_def by (rule keeps_upd [OF Cons.prems]) simp
  then show ?case using Cons.IH by (auto intro: keeps_trans)
qed (simp add: keeps_refl)

lemma keeps_Settle:
  assumes "led_ok l F" shows "keeps F l (Settle outs l)"
proof -
  obtain l1 adv where f: "fold settle_one outs (l, []) = (l1, adv)" by fastforce
  have "keeps F l l1" using settle_fold_ok [OF assms f] by (simp add: keeps_def adv_ok_def)
  then have "keeps F l (emitDiscrete (fold apply_advance adv l1))"
    by (rule keeps_trans) (blast intro: keeps_trans keeps_apply_advances keeps_emitDiscrete)
  then show ?thesis by (simp add: Settle_def f)
qed

lemma keeps_committed_loop:
  assumes "led_ok l F" shows "keeps F l (fst (committed_loop m l out))"
  using assms
proof (induction m l out rule: committed_loop.induct)
  case (2 lid pos m l out)
  have "keeps F l (upd_lane lid (\<lambda>st. fst (commit_lane lid pos st)) l)"
    by (rule keeps_upd [OF 2(3)]) (rule same_core_commit)
  with 2 show ?case by (auto split: option.splits intro: keeps_trans)
qed (simp add: keeps_refl)

lemma keeps_Committed: "led_ok l F \<Longrightarrow> keeps F l (Committed m l)"
  using keeps_committed_loop [of l F m "[]"] by (simp add: Committed_def case_prod_unfold Let_def)

section \<open>Expansion and admission\<close>

lemma map_upd_eq:
  assumes "map_of xs k = Some nd" and "distinct (map fst xs)"
  shows "map (\<lambda>(i, nd). (i, if i = k then f nd else nd)) xs = AList.update k (f nd) xs"
  unfolding update_existing [OF assms]
  by (rule map_cong) (use assms in \<open>auto dest!: map_of_is_SomeI [OF assms(2)]\<close>)

lemma expand_tracker:
  assumes u: "unresolved t k = Some nd" and r: "nd_refs nd + n < 2 ^ 32" "0 < nd_refs nd"
    and t': "t' = t\<lparr>tr_list := map (\<lambda>(i, nd). (i, if i = k then nd\<lparr>nd_refs := u32_add (nd_refs nd) n\<rparr> else nd))
      (tr_list t)\<rparr>"
  shows "seq_ok pos_Seq s t \<Longrightarrow> seq_ok pos_Seq s t' \<and> high pos_Seq t' = high pos_Seq t \<and>
    unresolved t' = (unresolved t)(k \<mapsto> nd\<lparr>nd_refs := nd_refs nd + n\<rparr>)"
proof -
  let ?nd = "nd\<lparr>nd_refs := nd_refs nd + n\<rparr>"
  assume ok: "seq_ok pos_Seq s t"
  have inv: "tracker_inv t" using ok by (simp add: seq_ok_def)
  have d: "distinct (map fst (tr_list t))" using inv by (simp add: tracker_inv_def pre_inv_def)
  have k: "map_of (tr_list t) k = Some nd" and nr: "\<not> nd_resolved nd"
    using u by (auto simp: unresolved_def open_nodes_def split: option.splits if_splits)
  have t: "t' = t\<lparr>tr_list := AList.update k ?nd (tr_list t)\<rparr>"
    using t' map_upd_eq [OF k d] r(1) by (simp add: u32_add_small)
  have "node_ok nd" using inv map_of_SomeD [OF k] by (auto simp: tracker_inv_def pre_inv_def)
  then have "tracker_inv t'"
    unfolding t using nr r(2) by (intro tracker_inv_update [OF inv k]) (simp_all add: node_ok_def)
  moreover have "ordered pos_Seq (high pos_Seq t) s (tr_list t')"
    unfolding t using ok by (auto simp: seq_ok_def intro!: ordered_update [OF _ k d])
  ultimately show ?thesis
    using ok nr unfolding t by (simp add: seq_ok_def high_def unresolved_def open_nodes_update opened_def)
qed

lemma keeps_Expand:
  assumes ok: "led_ok l F" and e: "expand_ok gid n l"
  shows "keeps F l (fst (Expand gid n l))"
proof (cases "n = 0 \<or> map_of (led_groups l) gid = None")
  case True
  then show ?thesis by (auto simp: Expand_def keeps_refl [OF ok])
next
  case False
  then obtain g where g: "map_of (led_groups l) gid = Some g" and n: "n \<noteq> 0" by auto
  obtain st where st: "map_of (led_lanes l) (g_lane g) = Some st"
    using ok g unfolding led_ok_def by blast
  let ?lid = "g_lane g" and ?g = "g\<lparr>g_refs := g_refs g + n\<rparr>"
  note L = led_okD [OF ok st]
  have G: "groups_of l ?lid gid = Some g" using g by (simp add: groups_of_def)
  have gs: "groups_ok (ls_tracker st) (ls_pending st) (groups_of l ?lid)"
    and fr: "frame_ok ?lid (ls_tracker st) (ls_seq st) (groups_of l ?lid) (F ?lid)"
    using L by (simp_all add: lane_ok_def)
  have "grp_ok (ls_tracker st) g" using gs G by (simp add: groups_ok_def)
  then obtain k nd where k: "g_ticket g = Some k" and u: "unresolved (ls_tracker st) k = Some nd"
    and nd: "nd_refs nd = g_refs g - g_settled g" "nd_weight nd = g_records g" "g_settled g < g_refs g"
    by (auto simp: grp_ok_def)
  have b: "g_refs g + n < 2 ^ 32" using e g by (simp add: expand_ok_def)
  define t where "t = (ls_tracker st)\<lparr>tr_list := map (\<lambda>(i, nd). (i, if i = k
      then nd\<lparr>nd_refs := u32_add (nd_refs nd) n\<rparr> else nd)) (tr_list (ls_tracker st))\<rparr>"
  have ex: "seq_ok pos_Seq s t \<and> high pos_Seq t = high pos_Seq (ls_tracker st) \<and>
      unresolved t = (unresolved (ls_tracker st))(k \<mapsto> nd\<lparr>nd_refs := nd_refs nd + n\<rparr>)"
    if "seq_ok pos_Seq s (ls_tracker st)" for s
    using expand_tracker [OF u _ _ t_def that] b nd by simp
  have ok0: "seq_ok pos_Seq (ls_seq st) (ls_tracker st)" using L by (simp add: lane_ok_def)
  note t = ex [OF ok0]
  let ?G = "(groups_of l ?lid)(gid \<mapsto> ?g)"
  have "grp_ok t ?g" using k t nd b by (simp add: grp_ok_def)
  moreover have "grp_ok t g'" if "groups_of l ?lid gid' = Some g'" "gid' \<noteq> gid" for gid' g'
  proof -
    have "g_ticket g' \<noteq> Some k" using gs G k that unfolding groups_ok_def by metis
    then show ?thesis
      using grp_ok_other [of "ls_tracker st" g' k t] t that(1) gs by (auto simp: groups_ok_def)
  qed
  moreover have "dom ?G = dom (groups_of l ?lid)" using G by auto
  ultimately have gs': "groups_ok t (ls_pending st) ?G"
    using gs G unfolding groups_ok_def fun_upd_apply by (simp split: if_splits) metis
  have "frame_ok ?lid t (ls_seq st) ?G (F ?lid)"
    by (rule frame_ok_step [OF fr, where i = k])
      (use t ex G k in \<open>auto simp: tickets_replace [of _ gid g] intro: ticketsI\<close>)
  then have lan: "lane_ok ?lid (st\<lparr>ls_tracker := t\<rparr>) ?G (F ?lid)"
    using t gs' by (simp add: lane_ok_def)
  define l' where "l' = fst (Expand gid n l)"
  have l': "l' = upd_lane ?lid (\<lambda>st. st\<lparr>ls_tracker := (ls_tracker st)\<lparr>tr_list :=
        map (\<lambda>(i, nd). (i, if i = k then nd\<lparr>nd_refs := u32_add (nd_refs nd) n\<rparr> else nd))
          (tr_list (ls_tracker st))\<rparr>\<rparr>) (l\<lparr>led_groups := AList.update gid ?g (led_groups l)\<rparr>)"
    using g n k b by (simp add: l'_def Expand_def u32_add_small)
  have st': "map_of (led_lanes l') ?lid = Some (st\<lparr>ls_tracker := t\<rparr>)"
    using st by (simp add: l' t_def)
  have Gk: "groups_of l' x = (if x = ?lid then (groups_of l x)(gid \<mapsto> ?g) else groups_of l x)" for x
    using groups_of_put [of l gid ?g l' x] g by (simp add: l')
  have "led_ok l' F"
    by (rule led_ok_frame [OF ok _ _ _ _ _ st'])
      (use ok lan Gk in \<open>auto simp: l' led_ok_def\<close>)
  moreover have "mark_le l l'"
    by (rule mark_le_upd [OF st, where f = "\<lambda>st. st\<lparr>ls_tracker := t\<rparr>" and l' = l'])
      (use t st' in \<open>simp_all add: l'\<close>)
  ultimately show ?thesis by (simp add: keeps_def l'_def)
qed

lemma batch_refs_sum:
  "acc + sum_list (map (\<lambda>r. o_refs (rec_origin r)) rs) < 2 ^ 32 \<Longrightarrow>
   batch_refs rs acc = acc + sum_list (map (\<lambda>r. o_refs (rec_origin r)) rs)"
  by (induction rs arbitrary: acc) (simp_all add: u32_add_small)

lemma refs_ok_batch:
  assumes "refs_ok b"
  shows "batch_refs (b_Records b) 0 < 2 ^ 32 \<and> (b_Records b \<noteq> [] \<longrightarrow> 0 < batch_refs (b_Records b) 0)"
proof -
  have "batch_refs (b_Records b) 0 = sum_list (map (\<lambda>r. o_refs (rec_origin r)) (b_Records b))"
    using batch_refs_sum [of 0 "b_Records b"] assms by (simp add: refs_ok_def)
  then show ?thesis using assms by (cases "b_Records b") (auto simp: refs_ok_def)
qed

lemma begin_ok:
  assumes ok: "led_ok l F" and none: "F (b_Lane b) = None" and r: "refs_ok b"
    and ab: "Admit_begin now b l = (l', Inr (b', ad))"
  shows "led_ok l' (F(b_Lane b \<mapsto> AtTrack ad)) \<and> mark_le l l'"
proof -
  let ?lid = "b_Lane b"
  obtain st where st: "map_of (led_lanes l) ?lid = Some st"
    and l': "l' = upd_lane ?lid (\<lambda>s. s\<lparr>ls_seq := ls_seq st + 1\<rparr>) l"
    and ad: "ad_lane ad = ?lid" "ad_ok ?lid ad" "pos_Seq (ad_pos ad) = ls_seq st + 1"
    using ab refs_ok_batch [OF r]
    by (auto simp: Admit_begin_def Let_def SetSeq_def ad_ok_def batch_Len_def split: option.splits if_splits)
  have st': "map_of (led_lanes l') ?lid = Some (st\<lparr>ls_seq := ls_seq st + 1\<rparr>)" using st by (simp add: l')
  have "lane_ok ?lid (st\<lparr>ls_seq := ls_seq st + 1\<rparr>) (groups_of l' ?lid) (Some (AtTrack ad))"
    using led_okD [OF ok st] none lane_ok_begin [OF _ ad(2,3)] by (simp add: l')
  then have "led_ok l' (F(?lid \<mapsto> AtTrack ad))"
    by (intro led_ok_frame [OF ok _ _ _ _ _ st']) (use ok in \<open>auto simp: l' led_ok_def\<close>)
  moreover have "mark_le l l'"
    by (rule mark_le_upd [OF st, where f = "\<lambda>s. s\<lparr>ls_seq := ls_seq st + 1\<rparr>" and l' = l'])
      (use st' in \<open>simp_all add: l'\<close>)
  ultimately show ?thesis by simp
qed

text \<open>Replacing the state of the lane an admission works on, with the frame it moves to.\<close>

lemma lane_step_ok:
  assumes ok: "led_ok l F" and st: "map_of (led_lanes l) lid = Some st"
    and l': "l' = upd_lane lid h l0" and l0: "led_lanes l0 = led_lanes l" "wf_amap (led_groups l0)"
      "\<And>k. k \<noteq> lid \<Longrightarrow> groups_of l0 k = groups_of l k"
    and lan: "lane_ok lid (h st) (groups_of l0 lid) f'"
    and hi: "high pos_Seq (ls_tracker st) \<le> high pos_Seq (ls_tracker (h st))"
  shows "led_ok l' (F(lid := f')) \<and> mark_le l l'"
proof -
  have st': "map_of (led_lanes l') lid = Some (h st)" using st l0 by (simp add: l')
  have o: "map_of (led_lanes l') k = map_of (led_lanes l) k" if "k \<noteq> lid" for k
    using that l0 by (simp add: l')
  have "led_ok l' (F(lid := f'))"
    by (rule led_ok_frame [OF ok _ _ o _ _ st']) (use ok lan l0 in \<open>auto simp: l' led_ok_def\<close>)
  moreover have "mark_le l l'"
    by (rule mark_le_upd [OF st, where f = h]) (use hi o st' in simp_all)
  ultimately show ?thesis by simp
qed

lemma track_ok:
  assumes "led_ok l F" and "map_of (led_lanes l) lid = Some st"
    and "lane_ok lid (st\<lparr>ls_tracker := t\<rparr>) (groups_of l lid) f'"
    and "high pos_Seq (ls_tracker st) \<le> high pos_Seq t"
    and "l' = upd_lane lid (\<lambda>st. st\<lparr>ls_tracker := t\<rparr>) l"
  shows "led_ok l' (F(lid := f')) \<and> mark_le l l'"
  by (rule lane_step_ok [OF assms(1,2,5)]) (use assms in \<open>auto simp: led_ok_def\<close>)

lemma Track_nil:
  "Track [] now p w r t = (case TryTrack now p w r t of
     (t', Some k) \<Rightarrow> (t', Tracked k)
   | (t', None) \<Rightarrow> (t, if tr_closed t then ErrTrackerClosed else StillWaiting))"
  by (simp add: Track.simps TryTrack_def split: prod.splits option.splits)

lemma Admit_track_cases:
  assumes st: "map_of (led_lanes l) (ad_lane ad) = Some st" and tr: "Admit_track now ad l = (l', Ready r)"
  obtains t m how where "r = Inr how" "how = EmptyAdvance m \<or> how = ShedAdvance m"
      "TrackResolved now (ad_pos ad) (ls_tracker st) = (t, m)"
      "l' = upd_lane (ad_lane ad) (\<lambda>st. st\<lparr>ls_tracker := t\<rparr>) l"
  | t k where "r = Inr (TakenTicket k)" "0 < ad_len ad"
      "TryTrack now (ad_pos ad) (ad_len ad) (g_refs (ad_group ad)) (ls_tracker st) = (t, Some k)"
      "l' = upd_lane (ad_lane ad) (\<lambda>st. st\<lparr>ls_tracker := t\<rparr>) l"
  | e where "r = Inl e" "l' = upd_lane (ad_lane ad) (\<lambda>s. s\<lparr>ls_tracker := ls_tracker st\<rparr>) l"
proof (cases "ad_len ad = 0")
  case True
  obtain t m where t: "TrackResolved now (ad_pos ad) (ls_tracker st) = (t, m)" by fastforce
  have h: "r = Inr (EmptyAdvance m)" "l' = upd_lane (ad_lane ad) (\<lambda>st. st\<lparr>ls_tracker := t\<rparr>) l"
    using tr st True t by (simp_all add: Admit_track_def)
  show ?thesis by (rule that(1) [OF h(1) _ t h(2)]) simp
next
  case len: False
  obtain t ko where tt: "TryTrack now (ad_pos ad) (ad_len ad) (g_refs (ad_group ad)) (ls_tracker st) = (t, ko)"
    by fastforce
  show ?thesis
  proof (cases ko)
    case (Some k)
    then have h: "r = Inr (TakenTicket k)" "l' = upd_lane (ad_lane ad) (\<lambda>st. st\<lparr>ls_tracker := t\<rparr>) l"
      using tr st len tt by (cases "sheds (ad_whenFull ad)"; simp add: Admit_track_def Track_nil)+
    show ?thesis by (rule that(2) [OF h(1) _ _ h(2)]) (use tt Some len in simp_all)
  next
    case None
    from TryTrack_refused [OF tt [unfolded None]] have same: "t = ls_tracker st" .
    show ?thesis
    proof (cases "sheds (ad_whenFull ad)")
      case True
      obtain u m where u: "TrackResolved now (ad_pos ad) (ls_tracker st) = (u, m)" by fastforce
      have h: "r = Inr (ShedAdvance m)" "l' = upd_lane (ad_lane ad) (\<lambda>st. st\<lparr>ls_tracker := u\<rparr>) l"
        using tr st True len tt None same u by (simp_all add: Admit_track_def)
      show ?thesis by (rule that(1) [OF h(1) _ u h(2)]) simp
    next
      case False
      have h: "r = Inl LedTrackerClosed" "l' = upd_lane (ad_lane ad) (\<lambda>s. s\<lparr>ls_tracker := ls_tracker st\<rparr>) l"
        using tr st len tt None same False
        by (cases "tr_closed (ls_tracker st)"; simp add: Admit_track_def Track_nil)+
      show ?thesis by (rule that(3) [OF h])
    qed
  qed
qed

lemma high_pass:
  assumes "lane_ok lid st G (Some (AtTrack ad))"
    and "TrackResolved now (ad_pos ad) (ls_tracker st) = (t, m)"
  shows "high pos_Seq (ls_tracker st) \<le> high pos_Seq t"
proof -
  have "seq_ok pos_Seq (ls_seq st - 1) (ls_tracker st)" "ls_seq st - 1 < pos_Seq (ad_pos ad)"
    using assms(1) by (auto simp: lane_ok_def)
  from pt.pass_law [OF this assms(2)] show ?thesis by blast
qed

lemma high_take:
  assumes "TryTrack now p w r t = (t', Some k)" shows "high num t' = high num t"
  using assms by (auto simp: TryTrack_def appendLocked_def high_def split: if_splits)

lemma exec_track_ok:
  assumes ok: "led_ok l F" and f: "F lid = Some (AtTrack ad)"
    and tr: "Admit_track now ad l = (l', Ready r)"
  shows "mark_le l l' \<and> (case r of Inl e \<Rightarrow> led_ok l' (F(lid := None))
    | Inr how \<Rightarrow> led_ok l' (F(lid \<mapsto> AtEnd ad how)))"
proof -
  obtain st where st: "map_of (led_lanes l) lid = Some st" using ok f unfolding led_ok_def by blast
  have L: "lane_ok lid st (groups_of l lid) (Some (AtTrack ad))" using led_okD [OF ok st] f by simp
  then have lid: "ad_lane ad = lid" by (simp add: lane_ok_def ad_ok_def)
  from st lid have "map_of (led_lanes l) (ad_lane ad) = Some st" by simp
  from this tr show ?thesis
  proof (rule Admit_track_cases)
    fix t m how
    assume h: "r = Inr how" "how = EmptyAdvance m \<or> how = ShedAdvance m"
      "TrackResolved now (ad_pos ad) (ls_tracker st) = (t, m)"
      "l' = upd_lane (ad_lane ad) (\<lambda>st. st\<lparr>ls_tracker := t\<rparr>) l"
    from track_ok [OF ok st lane_ok_pass [OF L h(3,2)] high_pass [OF L h(3)]] h lid show ?thesis by simp
  next
    fix t k
    assume h: "r = Inr (TakenTicket k)" "0 < ad_len ad"
      "TryTrack now (ad_pos ad) (ad_len ad) (g_refs (ad_group ad)) (ls_tracker st) = (t, Some k)"
      "l' = upd_lane (ad_lane ad) (\<lambda>st. st\<lparr>ls_tracker := t\<rparr>) l"
    from track_ok [OF ok st lane_ok_take [OF L h(2,3)]] high_take [OF h(3), of pos_Seq] h lid
    show ?thesis by simp
  next
    fix e
    assume h: "r = Inl e" "l' = upd_lane (ad_lane ad) (\<lambda>s. s\<lparr>ls_tracker := ls_tracker st\<rparr>) l"
    from track_ok [OF ok st, of "ls_tracker st" None] lane_ok_cancel [OF L] h lid show ?thesis by simp
  qed
qed

lemma exec_cancel_ok:
  assumes ok: "led_ok l F" and f: "F lid = Some (AtTrack ad)"
  shows "led_ok l (F(lid := None))"
proof -
  obtain st where st: "map_of (led_lanes l) lid = Some st" using ok f unfolding led_ok_def by blast
  have "lane_ok lid st (groups_of l lid) None"
    using lane_ok_cancel led_okD [OF ok st] f by simp
  then show ?thesis
    by (intro led_ok_frame [OF ok _ _ _ _ _ st]) (use ok in \<open>auto simp: led_ok_def\<close>)
qed

lemma high_abandon:
  assumes "seq_ok pos_Seq s t" and "unresolved t k = Some nd"
  shows "high pos_Seq t \<le> high pos_Seq (fst (Abandon (Some k) t))"
proof -
  obtain t' a where d: "discharge (Some k) 0 True t = (t', a)" by fastforce
  from pt.settle_law [OF assms d] d show ?thesis by (simp add: Abandon_def)
qed

lemma exec_end_ok:
  assumes ok: "led_ok l F" and f: "F lid = Some (AtEnd ad how)"
  shows "led_ok (fst (Admit_end ad how l)) (F(lid := None)) \<and> mark_le l (fst (Admit_end ad how l))"
proof -
  obtain st where st: "map_of (led_lanes l) lid = Some st" using ok f unfolding led_ok_def by blast
  have L: "lane_ok lid st (groups_of l lid) (Some (AtEnd ad how))" using led_okD [OF ok st] f by simp
  then have lid: "ad_lane ad = lid" and gl: "g_lane (ad_group ad) = lid"
    by (cases how; simp add: lane_ok_def ad_ok_def)+
  define l' where "l' = fst (Admit_end ad how l)"
  show ?thesis
  proof (cases how)
    case (TakenTicket k)
    show ?thesis
    proof (cases "map_of (led_groups l) (ad_gid ad)")
      case None
      define h :: "lane_state \<Rightarrow> lane_state" where "h = (\<lambda>st. st\<lparr>ls_pending := ls_pending st + 1,
        ls_recordsRead := ls_recordsRead st + ad_len ad,
        ls_admittedSinceSafe := ls_admittedSinceSafe st + ad_len ad, ls_blocked := False\<rparr>)"
      let ?g = "(ad_group ad)\<lparr>g_ticket := Some k\<rparr>"
      have l': "l' = upd_lane lid h (l\<lparr>led_groups := AList.update (ad_gid ad) ?g (led_groups l),
          led_byRec := fold (\<lambda>i. AList.update i (ad_gid ad)) (ad_ids ad) (led_byRec l)\<rparr>)"
        using TakenTicket None lid by (simp add: l'_def Admit_end_def h_def)
      have Gk: "groups_of l' x = (if x = lid then (groups_of l x)(ad_gid ad \<mapsto> ?g) else groups_of l x)" for x
        using groups_of_put [of l "ad_gid ad" ?g l' x] None gl by (simp add: l')
      have "groups_of l lid (ad_gid ad) = None" using None by (simp add: groups_of_def)
      then have lan: "lane_ok lid (h st) (groups_of l' lid) None"
        using lane_ok_open [of lid st "groups_of l lid" ad k "ad_gid ad" "h st"] L TakenTicket Gk
        by (simp add: h_def)
      show ?thesis
        unfolding l'_def [symmetric]
        by (rule lane_step_ok [OF ok st l']) (use lan Gk ok in \<open>auto simp: l' h_def led_ok_def\<close>)
    next
      case (Some g)
      define h :: "lane_state \<Rightarrow> lane_state" where "h = (\<lambda>st. st\<lparr>ls_tracker := fst (Abandon (Some k) (ls_tracker st))\<rparr>)"
      have l': "l' = upd_lane lid h l"
        using TakenTicket Some lid by (simp add: l'_def Admit_end_def h_def)
      obtain nd where nd: "unresolved (ls_tracker st) k = Some nd" "seq_ok pos_Seq (ls_seq st) (ls_tracker st)"
        using L TakenTicket by (auto simp: lane_ok_def grp_ok_def)
      have lan: "lane_ok lid (h st) (groups_of l' lid) None"
        using lane_ok_refuse [of lid st "groups_of l lid" ad k] L TakenTicket by (simp add: h_def l')
      show ?thesis
        unfolding l'_def [symmetric]
        by (rule lane_step_ok [OF ok st l'])
          (use lan ok high_abandon [OF nd(2,1)] in \<open>auto simp: l' h_def led_ok_def\<close>)
    qed
  next
    case (EmptyAdvance m)
    define h :: "lane_state \<Rightarrow> lane_state" where "h = (\<lambda>st. publish_pos m (st\<lparr>ls_blocked := False\<rparr>))"
    have l': "l' = upd_lane lid h l" using EmptyAdvance lid by (simp add: l'_def Admit_end_def h_def)
    have sc: "same_core st (h st)" by (simp add: h_def) (simp add: same_core_def)
    have lan: "lane_ok lid (h st) (groups_of l' lid) None"
      using lane_ok_publish [OF L _ sc] EmptyAdvance by (simp add: l')
    show ?thesis
      unfolding l'_def [symmetric]
      by (rule lane_step_ok [OF ok st l']) (use lan ok sc in \<open>auto simp: l' led_ok_def same_core_def\<close>)
  next
    case (ShedAdvance m)
    define h :: "lane_state \<Rightarrow> lane_state" where "h = (\<lambda>st. (publish_pos m st)\<lparr>
             ls_recordsRead := ls_recordsRead st + ad_len ad, ls_shed := ls_shed st + ad_len ad,
             ls_ackAbandoned := ls_ackAbandoned st + ad_len ad, ls_blocked := False\<rparr>)"
    have l': "l' = upd_lane lid h l" using ShedAdvance lid by (simp add: l'_def Admit_end_def h_def)
    have sc: "same_core st (h st)" by (simp add: h_def same_core_def publish_pos_def split: option.splits)
    have lan: "lane_ok lid (h st) (groups_of l' lid) None"
      using lane_ok_publish [OF L _ sc] ShedAdvance by (simp add: l')
    show ?thesis
      unfolding l'_def [symmetric]
      by (rule lane_step_ok [OF ok st l']) (use lan ok sc in \<open>auto simp: l' led_ok_def same_core_def\<close>)
  qed
qed

section \<open>One step of the state machine\<close>

lemma unresolved_New [simp]: "unresolved (NewTracker b) = Map.empty"
  by (simp add: unresolved_def open_nodes_def NewTracker_def fun_eq_iff)

lemma lane_ok_new: "lane_ok lid (new_lane lid ord budget whenF) (\<lambda>_. None) None"
  by (simp add: lane_ok_def new_lane_def groups_ok_def seq_ok_New unresolved_New)

lemma keeps_Lane:
  assumes ok: "led_ok l F" shows "keeps F l (fst (Lane lid ord budget whenF l))"
proof (cases "lid = [] \<or> map_of (led_lanes l) lid \<noteq> None")
  case True
  then show ?thesis using keeps_refl [OF ok] by (auto simp: Lane_def Let_def split: option.splits)
next
  case False
  then have n: "map_of (led_lanes l) lid = None" "lid \<noteq> []" by auto
  let ?st = "new_lane lid ord (if budget < 1 then cfg_DefaultBudget (led_cfg l) else budget) whenF"
  define l' where "l' = fst (Lane lid ord budget whenF l)"
  have l': "l' = l\<lparr>led_lanes := AList.update lid ?st (led_lanes l)\<rparr>"
    using n by (simp add: l'_def Lane_def)
  have G: "groups_of l' = groups_of l" by (simp add: l' groups_of_def fun_eq_iff)
  have "groups_of l lid gid = None" for gid
  proof (cases "map_of (led_groups l) gid")
    case (Some g)
    then have "g_lane g \<noteq> lid" using ok n unfolding led_ok_def by blast
    with Some show ?thesis by (simp add: groups_of_def)
  qed (simp add: groups_of_def)
  then have "groups_of l lid = (\<lambda>_. None)" by (simp add: fun_eq_iff)
  moreover have "F lid = None" using ok n unfolding led_ok_def by blast
  ultimately have "lane_ok lid ?st (groups_of l' lid) (F lid)" by (simp add: G lane_ok_new)
  then have "led_ok l' F"
    by (intro led_ok_frame [OF ok, of l' lid F ?st]) (use ok G in \<open>auto simp: l' led_ok_def\<close>)
  moreover have "mark_le l l'" using n by (simp add: mark_le_def mark_def l')
  ultimately show ?thesis by (simp add: keeps_def l'_def)
qed

lemma keeps_Register: "led_ok l F \<Longrightarrow> keeps F l (Register rid gid l)"
  by (auto simp: Register_def intro!: keeps_core keeps_refl split: option.splits simp: led_ok_def)

lemma keeps_Flushable: "led_ok l F \<Longrightarrow> keeps F l (fst (Flushable l))"
  by (rule keeps_amap [where f = "\<lambda>_ st. fst (flush_lane st)"])
    (simp_all add: Flushable_def same_core_flush)

lemma keeps_Retirable: "led_ok l F \<Longrightarrow> keeps F l (fst (Retirable l))"
  by (rule keeps_amap [where f = "\<lambda>_ st. if retire_due st then st\<lparr>ls_retireReported := True\<rparr> else st"])
    (simp_all add: Retirable_def same_core_def)

lemma keeps_SetEpoch: "led_ok l F \<Longrightarrow> keeps F l (SetEpoch lid e l)"
  unfolding SetEpoch_def by (rule keeps_upd) (simp_all add: same_core_def)

lemma keeps_FinishLane: "led_ok l F \<Longrightarrow> keeps F l (FinishLane lid l)"
  unfolding FinishLane_def by (rule keeps_upd) (simp_all add: same_core_def)

lemma keeps_RequestRetire: "led_ok l F \<Longrightarrow> keeps F l (fst (RequestRetire lid l))"
  by (cases "map_of (led_lanes l) lid")
    (auto simp: RequestRetire_def keeps_refl same_core_def intro!: keeps_upd)

lemma keeps_Revoke: "led_ok l F \<Longrightarrow> keeps F l (fst (Revoke lid l))"
proof (cases "map_of (led_lanes l) lid")
  case (Some st)
  assume "led_ok l F"
  then have "keeps F l (upd_lane lid (\<lambda>st. drop_handles (clear_acc (st\<lparr>
             ls_fencedThrough := max (max 1 (ls_epoch st)) (ls_fencedThrough st),
             ls_resolved := None, ls_pendingFlush := None\<rparr>))) l)"
    by (rule keeps_upd) (simp, simp add: same_core_def)
  with Some show ?thesis by (simp add: Revoke_def)
qed (simp add: Revoke_def keeps_refl)

lemma groups_ok_map:
  assumes "groups_ok t p G" and "\<And>gid. rel_option (\<lambda>g g'. g_lane g' = g_lane g \<and> g_ticket g' = g_ticket g \<and>
      g_refs g' = g_refs g \<and> g_settled g' = g_settled g \<and> g_records g' = g_records g) (G gid) (G' gid)"
  shows "groups_ok t p G' \<and> tickets G' = tickets G"
proof -
  have b: "\<exists>g. G gid = Some g \<and> g_ticket g' = g_ticket g \<and> (grp_ok t g \<longrightarrow> grp_ok t g')" if "G' gid = Some g'" for gid g'
    using assms(2) [of gid] that by (auto simp: grp_ok_def elim: option.rel_cases)
  have f: "\<exists>g'. G' gid = Some g' \<and> g_ticket g' = g_ticket g" if "G gid = Some g" for gid g
    using assms(2) [of gid] that by (auto elim: option.rel_cases)
  have d: "dom G' = dom G" using b f by fastforce
  have g1: "\<forall>gid g. G' gid = Some g \<longrightarrow> grp_ok t g" using b assms(1) unfolding groups_ok_def by metis
  have g2: "\<forall>gid gid' g g'. G' gid = Some g \<longrightarrow> G' gid' = Some g' \<longrightarrow> g_ticket g = g_ticket g' \<longrightarrow> gid = gid'"
    using b assms(1) unfolding groups_ok_def by metis
  have "groups_ok t p G'" using assms(1) d g1 g2 unfolding groups_ok_def by auto
  moreover have "tickets G' = tickets G"
    using b f unfolding tickets_def by (intro Collect_cong) metis
  ultimately show ?thesis by simp
qed

lemma keeps_reap: assumes ok: "led_ok l F" shows "keeps F l (reap_tick now l)"
proof -
  let ?l = "reap_tick now l"
  have lanes: "led_lanes ?l = led_lanes l" by (simp add: reap_tick_def)
  have rel: "rel_option (\<lambda>g g'. g_lane g' = g_lane g \<and> g_ticket g' = g_ticket g \<and>
      g_refs g' = g_refs g \<and> g_settled g' = g_settled g \<and> g_records g' = g_records g)
      (map_of (led_groups l) gid) (map_of (led_groups ?l) gid)" for gid
    by (cases "map_of (led_groups l) gid") (simp_all add: reap_tick_def)
  then have relk: "rel_option (\<lambda>g g'. g_lane g' = g_lane g \<and> g_ticket g' = g_ticket g \<and>
      g_refs g' = g_refs g \<and> g_settled g' = g_settled g \<and> g_records g' = g_records g)
      (groups_of l lid gid) (groups_of ?l lid gid)" for lid gid
    using rel [of gid]
    by (cases "map_of (led_groups l) gid"; cases "map_of (led_groups ?l) gid") (auto simp: groups_of_def)
  have "lane_ok lid st (groups_of ?l lid) (F lid)" if "map_of (led_lanes l) lid = Some st" for lid st
  proof -
    note L = led_okD [OF ok that]
    have gt: "groups_ok (ls_tracker st) (ls_pending st) (groups_of ?l lid) \<and>
        tickets (groups_of ?l lid) = tickets (groups_of l lid)"
      by (rule groups_ok_map [OF _ relk]) (use L in \<open>simp add: lane_ok_def\<close>)
    have "frame_ok lid (ls_tracker st) (ls_seq st) (groups_of ?l lid) f =
        frame_ok lid (ls_tracker st) (ls_seq st) (groups_of l lid) f" for f
      by (cases "(lid, ls_tracker st, ls_seq st, groups_of l lid, f)" rule: frame_ok.cases) (simp_all add: gt)
    with L gt show ?thesis by (simp add: lane_ok_def)
  qed
  moreover have "map_of (led_lanes l) (g_lane g) \<noteq> None" if g: "map_of (led_groups ?l) gid = Some g" for gid g
  proof -
    obtain g0 where "map_of (led_groups l) gid = Some g0" "g_lane g = g_lane g0"
      using rel [of gid] g by (auto elim: option.rel_cases)
    then show ?thesis using ok unfolding led_ok_def by metis
  qed
  moreover have "wf_amap (led_groups ?l)" using ok by (simp add: reap_tick_def led_ok_def)
  ultimately have "led_ok ?l F" using ok unfolding led_ok_def lanes by blast
  then show ?thesis by (simp add: keeps_def mark_le_def mark_def lanes)
qed

lemma seq_ok_Close: "seq_ok num s (tracker_Close t) = seq_ok num s t"
  by (auto simp: tracker_Close_def seq_ok_def high_def tracker_inv_def pre_inv_def)

lemma unresolved_Close: "unresolved (tracker_Close t) = unresolved t"
  by (simp add: tracker_Close_def unresolved_def)

lemma high_Close: "high num (tracker_Close t) = high num t"
  by (simp add: tracker_Close_def high_def)

lemma lane_ok_Close: "lane_ok lid (st\<lparr>ls_tracker := tracker_Close (ls_tracker st)\<rparr>) G f = lane_ok lid st G f"
proof -
  have g: "groups_ok (tracker_Close t) p G = groups_ok t p G" for t p
    by (simp add: groups_ok_def grp_ok_def unresolved_Close)
  have "frame_ok lid (tracker_Close t) seq G f = frame_ok lid t seq G f" for t seq
    by (cases "(lid, t, seq, G, f)" rule: frame_ok.cases)
      (simp_all add: seq_ok_Close unresolved_Close high_Close grp_ok_def)
  with g show ?thesis by (simp add: lane_ok_def seq_ok_Close)
qed

lemma keeps_Close: assumes ok: "led_ok l F" shows "keeps F l (ledger_Close l)"
proof (cases "led_closed l")
  case False
  let ?l = "ledger_Close l"
  have "groups_of ?l = groups_of l" by (simp add: ledger_Close_def groups_of_def fun_eq_iff)
  then have "led_ok ?l F"
    using ok False unfolding led_ok_def by (auto simp: ledger_Close_def lane_ok_Close)
  moreover have "mark_le l ?l"
    using False by (auto simp: mark_le_def mark_def ledger_Close_def high_Close split: option.splits)
  ultimately show ?thesis by (simp add: keeps_def)
qed (simp add: ledger_Close_def keeps_refl [OF ok])

lemmas keeps_ops = keeps_Lane keeps_SetEpoch keeps_Register keeps_Committed
  keeps_FinishLane keeps_RequestRetire keeps_Retirable keeps_Revoke keeps_reap keeps_Close

lemma exec_core:
  assumes "core_inv s" and "led_exec op s = Some s'"
  shows "core_inv s' \<and> mark_le (sy_led s) (sy_led s')"
proof -
  let ?F = "map_of (sy_adm s)"
  have ok: "led_ok (sy_led s) ?F" using assms(1) by (simp add: core_inv_def)
  show ?thesis
  proof (cases op)
    case (OpAdmitBegin now b)
    with assms(2) have n: "?F (b_Lane b) = None" "refs_ok b" by (auto split: if_splits)
    obtain l r where ab: "Admit_begin now b (sy_led s) = (l, r)" by fastforce
    show ?thesis
    proof (cases r)
      case (Inl e)
      then have "l = sy_led s" using ab
        by (auto simp: Admit_begin_def Let_def split: option.splits if_splits)
      with assms(2) OpAdmitBegin n ab Inl ok show ?thesis by (auto simp: core_inv_def)
    next
      case (Inr x)
      then obtain b' ad where "r = Inr (b', ad)" by (cases x) auto
      with begin_ok [OF ok n, of now l b' ad] assms(2) OpAdmitBegin n ab show ?thesis
        by (auto simp: core_inv_def)
    qed
  next
    case (OpAdmitTrack now lid)
    then obtain ad where f: "?F lid = Some (AtTrack ad)"
      using assms(2) by (auto split: option.splits frame.splits)
    obtain l w where at: "Admit_track now ad (sy_led s) = (l, w)" by fastforce
    then obtain r where "w = Ready r"
      using assms(2) OpAdmitTrack f by (auto split: waiting.splits)
    with exec_track_ok [OF ok f, of now l r] assms(2) OpAdmitTrack f at show ?thesis
      by (auto simp: core_inv_def split: sum.splits)
  next
    case (OpAdmitCancel lid)
    then obtain ad where "?F lid = Some (AtTrack ad)"
      using assms(2) by (auto split: option.splits frame.splits)
    with exec_cancel_ok [OF ok] assms(2) OpAdmitCancel show ?thesis by (auto simp: core_inv_def)
  next
    case (OpAdmitEnd lid)
    then obtain ad how where "?F lid = Some (AtEnd ad how)"
      using assms(2) by (auto split: option.splits frame.splits)
    with exec_end_ok [OF ok] assms(2) OpAdmitEnd show ?thesis by (auto simp: core_inv_def)
  next
    case (OpSettle outs)
    then show ?thesis
      using assms(2) keeps_Settle [OF ok, of outs] by (auto simp: on_led_def core_inv_def keeps_def)
  next
    case OpFlushable
    then show ?thesis
      using assms(2) keeps_Flushable [OF ok] by (auto simp: case_prod_unfold Let_def core_inv_def keeps_def)
  qed (use assms(2) keeps_ops [OF ok] keeps_Expand [OF ok] in
      \<open>auto simp: on_led_def core_inv_def keeps_def split: if_splits\<close>)
qed

lemma core_inv_init: "core_inv (sys_init cfg)"
  by (simp add: core_inv_def sys_init_def led_ok_def New_def)

lemma core_inv_run: "led_run ops (sys_init cfg) = Some s \<Longrightarrow> core_inv s"
  by (rule led_run_invariant [where P = core_inv]) (use exec_core core_inv_init in blast)+

end
