(* ===== verification/Canal_LedgerPub.thy ===== *)
theory Canal_LedgerPub
  imports Canal_LedgerSafe
begin

text \<open>
  The publication invariant of the ledger: every position a lane holds for flushing, every one
  \<^verbatim>\<open>Flushable\<close> handed out, every committed cursor and every prefix acknowledgement is a safe
  position at or below the lane's high-water mark, hence before every open group.
\<close>

definition good :: "ledger \<Rightarrow> lane_id \<Rightarrow> position \<Rightarrow> bool" where
  "good l lid p \<longleftrightarrow> pos_Safe p \<and> pos_Seq p \<le> mark l lid"

definition pubs :: "lane_state \<Rightarrow> position set" where
  "pubs st = set_option (ls_pendingFlush st) \<union> set_option (ls_committed st)"

definition ack_good :: "ledger \<Rightarrow> ack \<Rightarrow> bool" where
  "ack_good l a \<longleftrightarrow> (\<exists>st. map_of (led_lanes l) (ack_Lane a) = Some st \<and>
     (ls_ordering st = OrderingPrefix \<longrightarrow> good l (ack_Lane a) (ack_Through a)))"

definition pub_led :: "ledger \<Rightarrow> bool" where
  "pub_led l \<longleftrightarrow> (\<forall>lid st. map_of (led_lanes l) lid = Some st \<longrightarrow> (\<forall>p \<in> pubs st. good l lid p)) \<and>
     (\<forall>a \<in> set (led_acks l). ack_good l a)"

definition pub_ok :: "sys \<Rightarrow> bool" where
  "pub_ok s \<longleftrightarrow> pub_led (sy_led s) \<and> (\<forall>x \<in> set (sy_offered s). good (sy_led s) (fst x) (snd x))"

lemma good_mono: "good l lid p \<Longrightarrow> mark_le l l' \<Longrightarrow> good l' lid p"
  unfolding good_def mark_le_def by (blast intro: order_trans)

text \<open>A step that keeps orderings and publishes nothing but good positions.\<close>

lemma pub_led_step:
  assumes P: "pub_led l" and M: "mark_le l l'"
    and lanes: "\<And>lid. rel_option (\<lambda>st st'. ls_ordering st' = ls_ordering st \<and>
        (\<forall>p \<in> pubs st'. p \<in> pubs st \<or> good l' lid p)) (map_of (led_lanes l) lid) (map_of (led_lanes l') lid)"
    and acks: "\<And>a. a \<in> set (led_acks l') \<Longrightarrow> a \<in> set (led_acks l) \<or> ack_good l' a"
  shows "pub_led l'"
proof -
  have "good l' lid p" if st': "map_of (led_lanes l') lid = Some st'" and p: "p \<in> pubs st'" for lid st' p
  proof -
    obtain st where st: "map_of (led_lanes l) lid = Some st" and "p \<in> pubs st \<or> good l' lid p"
      using lanes [of lid] st' p by (auto elim: option.rel_cases)
    then show ?thesis using P good_mono [OF _ M] unfolding pub_led_def by blast
  qed
  moreover have "ack_good l' a" if a: "a \<in> set (led_acks l)" for a
  proof -
    obtain st where st: "map_of (led_lanes l) (ack_Lane a) = Some st"
      and g: "ls_ordering st = OrderingPrefix \<longrightarrow> good l (ack_Lane a) (ack_Through a)"
      using P a unfolding pub_led_def ack_good_def by blast
    obtain st' where "map_of (led_lanes l') (ack_Lane a) = Some st'" "ls_ordering st' = ls_ordering st"
      using lanes [of "ack_Lane a"] st by (auto elim: option.rel_cases)
    then show ?thesis using g good_mono [OF _ M] by (auto simp: ack_good_def)
  qed
  ultimately show ?thesis using acks unfolding pub_led_def by blast
qed

lemma pub_led_upd:
  assumes "pub_led l" and "mark_le l (upd_lane lid f l)"
    and "\<And>st. map_of (led_lanes l) lid = Some st \<Longrightarrow> ls_ordering (f st) = ls_ordering st \<and>
      (\<forall>p \<in> pubs (f st). p \<in> pubs st \<or> good (upd_lane lid f l) lid p)"
  shows "pub_led (upd_lane lid f l)"
proof (rule pub_led_step [OF assms(1,2)])
  fix k show "rel_option (\<lambda>st st'. ls_ordering st' = ls_ordering st \<and>
      (\<forall>p \<in> pubs st'. p \<in> pubs st \<or> good (upd_lane lid f l) k p))
      (map_of (led_lanes l) k) (map_of (led_lanes (upd_lane lid f l)) k)"
    using assms(3) by (cases "map_of (led_lanes l) k") auto
qed simp

lemma pub_led_amap:
  assumes "pub_led l" and "mark_le l l'" and "led_lanes l' = amap f (led_lanes l)"
    and "\<And>k st. ls_ordering (f k st) = ls_ordering st \<and> pubs (f k st) \<subseteq> pubs st"
    and "\<And>a. a \<in> set (led_acks l') \<Longrightarrow> a \<in> set (led_acks l) \<or> ack_good l' a"
  shows "pub_led l'"
proof (rule pub_led_step [OF assms(1,2)])
  fix k show "rel_option (\<lambda>st st'. ls_ordering st' = ls_ordering st \<and>
      (\<forall>p \<in> pubs st'. p \<in> pubs st \<or> good l' k p)) (map_of (led_lanes l) k) (map_of (led_lanes l') k)"
    using assms(3,4) by (cases "map_of (led_lanes l) k") (auto dest: subsetD)
qed (rule assms(5))

section \<open>Settlement\<close>

lemma pubs_account [simp]: "pubs (account_group g st) = pubs st" "ls_ordering (account_group g st) = ls_ordering st"
  by (simp_all add: pubs_def account_group_def)

lemma pubs_tracker [simp]: "pubs (st\<lparr>ls_tracker := t\<rparr>) = pubs st" "pubs (st\<lparr>ls_pending := n\<rparr>) = pubs st"
  by (simp_all add: pubs_def)

lemma pub_settle_one:
  assumes P: "pub_led l" and ok: "led_ok l F" and so: "settle_one ou (l, adv) = (l', adv')" and av: "adv_ok l adv"
  shows "pub_led l'"
proof (rule pub_led_step [OF P])
  show "mark_le l l'" using settle_one_ok [OF ok so av] by simp
  show "a \<in> set (led_acks l) \<or> ack_good l' a" if "a \<in> set (led_acks l')" for a
    using that so by (auto simp: settle_one_def Let_def split: option.splits prod.splits if_splits)
  show "rel_option (\<lambda>st st'. ls_ordering st' = ls_ordering st \<and> (\<forall>p \<in> pubs st'. p \<in> pubs st \<or> good l' k p))
      (map_of (led_lanes l) k) (map_of (led_lanes l') k)" for k
  proof (rule settle_one_cases [OF ok, of ou adv])
    assume "settle_one ou (l, adv) = (l, adv)"
    with so show ?thesis by (auto intro: option.rel_refl)
  next
    fix gid g0 st t m
    assume "map_of (led_byRec l) (out_Record ou) = Some gid" "map_of (led_groups l) gid = Some g0"
      "map_of (led_lanes l) (g_lane g0) = Some st"
      "settle_ticket ou (group_outcome ou g0) (ls_tracker st) = (t, m)"
    with so show ?thesis
      by (cases "map_of (led_lanes l) k") (auto simp: settle_one_def Let_def split: if_splits)
  qed
qed

lemma pub_settle_fold:
  assumes "pub_led l" and "led_ok l F" and "fold settle_one outs (l, adv) = (l', adv')" and "adv_ok l adv"
  shows "pub_led l'"
  using assms
proof (induction outs arbitrary: l adv)
  case (Cons ou outs)
  obtain l1 adv1 where s: "settle_one ou (l, adv) = (l1, adv1)" by fastforce
  from settle_one_ok [OF Cons.prems(2) s Cons.prems(4)] pub_settle_one [OF Cons.prems(1,2) s Cons.prems(4)]
  show ?case using Cons.IH [of l1 adv1] Cons.prems(3) s by simp
qed simp

lemma pubs_publish: "pubs (publish_pos m st) \<subseteq> pubs st \<union> {p. m = Some p \<and> pos_Safe p}"
  by (auto simp: pubs_def publish_pos_def split: option.splits)

lemma ordering_publish [simp]: "ls_ordering (publish_pos m st) = ls_ordering st"
  by (simp add: publish_pos_def split: option.splits)

lemma pub_apply_advance:
  assumes "pub_led l" and "led_ok l F" and "pos_Seq (snd a) \<le> mark l (fst a)"
  shows "pub_led (apply_advance a l)"
proof -
  have m: "mark_le l (apply_advance a l)"
    using keeps_upd [OF assms(2), of "publish_pos (Some (snd a))" "fst a"] by (simp add: apply_advance_def keeps_def)
  have g: "good (apply_advance a l) (fst a) (snd a)" if "pos_Safe (snd a)"
    by (rule good_mono [OF _ m]) (simp add: good_def that assms(3))
  have "p \<in> pubs st \<or> good (apply_advance a l) (fst a) p" if "p \<in> pubs (publish_pos (Some (snd a)) st)" for p st
    using that pubs_publish [of "Some (snd a)" st] g by auto
  then show ?thesis
    using m unfolding apply_advance_def by (intro pub_led_upd [OF assms(1)]) simp_all
qed

lemma pub_apply_advances:
  assumes "pub_led l" and "led_ok l F" and "adv_ok l adv"
  shows "pub_led (fold apply_advance adv l)"
  using assms
proof (induction adv arbitrary: l)
  case (Cons a adv)
  have k: "keeps F l (apply_advance a l)" using keeps_apply_advances [OF Cons.prems(2), of "[a]"] by simp
  have "pub_led (apply_advance a l)"
    using pub_apply_advance [OF Cons.prems(1,2)] Cons.prems(3) by (simp add: adv_ok_def)
  moreover have "adv_ok (apply_advance a l) adv"
    using adv_ok_mono [of l adv] Cons.prems(3) k by (simp add: adv_ok_def keeps_def)
  ultimately show ?case using Cons.IH k by (simp add: keeps_def)
qed simp

lemma pubs_emit: "ls_ordering (fst (emit_lane k st)) = ls_ordering st \<and> pubs (fst (emit_lane k st)) \<subseteq> pubs st"
  by (auto simp: emit_lane_def clear_acc_def drop_handles_def mark_acked_def pubs_def)

lemma emit_acks:
  "a \<in> set (snd (emit_lane k st)) \<Longrightarrow> ack_Lane a = k \<and> ls_ordering st = OrderingDiscrete"
  by (auto simp: emit_lane_def discrete_due_def discrete_ack_def split: if_splits)

lemma pub_emitDiscrete:
  assumes "pub_led l" and ok: "led_ok l F" shows "pub_led (emitDiscrete l)"
proof (rule pub_led_amap [OF assms(1), where f = "\<lambda>k st. fst (emit_lane k st)"])
  let ?l = "emitDiscrete l"
  show "mark_le l ?l" using keeps_emitDiscrete [OF ok] by (simp add: keeps_def)
  show lanes: "led_lanes ?l = amap (\<lambda>k st. fst (emit_lane k st)) (led_lanes l)" by (simp add: emitDiscrete_def)
  fix a assume "a \<in> set (led_acks ?l)"
  then consider "a \<in> set (led_acks l)" | lid st where "(lid, st) \<in> set (led_lanes l)" "a \<in> set (snd (emit_lane lid st))"
    by (auto simp: emitDiscrete_def split: if_splits)
  then show "a \<in> set (led_acks l) \<or> ack_good ?l a"
  proof cases
    case (2 lid st)
    then have "map_of (led_lanes l) lid = Some st" using ok wf_amap_mem by (fastforce simp: led_ok_def)
    then show ?thesis
      using emit_acks [OF 2(2)] pubs_emit [of lid st] lanes by (simp add: ack_good_def)
  qed simp
qed (rule pubs_emit)

lemma pub_Settle:
  assumes "pub_led l" and ok: "led_ok l F" shows "pub_led (Settle outs l)"
proof -
  obtain l1 adv where f: "fold settle_one outs (l, []) = (l1, adv)" by fastforce
  have s: "led_ok l1 F" "adv_ok l1 adv" using settle_fold_ok [OF ok f] by (simp_all add: adv_ok_def)
  have "pub_led l1" by (rule pub_settle_fold [OF assms f]) (simp add: adv_ok_def)
  then have "pub_led (fold apply_advance adv l1)" by (rule pub_apply_advances [OF _ s])
  moreover have "led_ok (fold apply_advance adv l1) F"
    using keeps_apply_advances [OF s(1)] by (simp add: keeps_def)
  ultimately show ?thesis using pub_emitDiscrete by (simp add: Settle_def f)
qed

section \<open>The other steps\<close>

lemma pub_Flushable:
  assumes P: "pub_led l" and ok: "led_ok l F"
  shows "pub_led (fst (Flushable l)) \<and>
    (\<forall>x \<in> set (snd (Flushable l)). good (fst (Flushable l)) (fst x) (snd x))"
proof -
  have m: "mark_le l (fst (Flushable l))" using keeps_Flushable [OF ok] by (simp add: keeps_def)
  have "pub_led (fst (Flushable l))"
    by (rule pub_led_amap [OF P m, where f = "\<lambda>_ st. fst (flush_lane st)"])
      (auto simp: Flushable_def flush_lane_def pubs_def split: option.splits)
  moreover have "good (fst (Flushable l)) lid p" if off: "(lid, p) \<in> set (snd (Flushable l))" for lid p
  proof -
    obtain st where "(lid, st) \<in> set (led_lanes l)" and fl: "snd (flush_lane st) = Some p"
      using off by (auto simp: Flushable_def split: option.splits)
    then have "map_of (led_lanes l) lid = Some st" using ok wf_amap_mem by (fastforce simp: led_ok_def)
    moreover have "p \<in> pubs st"
      using fl by (auto simp: flush_lane_def pubs_def split: option.splits if_splits)
    ultimately show ?thesis using P good_mono [OF _ m] unfolding pub_led_def by blast
  qed
  ultimately show ?thesis by auto
qed

lemma pubs_commit: "ls_ordering (fst (commit_lane lid p st)) = ls_ordering st \<and>
    pubs (fst (commit_lane lid p st)) \<subseteq> insert p (pubs st)"
  by (auto simp: commit_lane_def clear_acc_def mark_acked_def pubs_def Let_def)

lemma commit_acks: "a \<in> set (snd (commit_lane lid p st)) \<Longrightarrow> ack_Lane a = lid \<and> ack_Through a = p"
  by (auto simp: commit_lane_def prefix_ack_def Let_def split: if_splits)

lemma mark_upd_core: "(\<And>st. same_core st (f st)) \<Longrightarrow> mark (upd_lane lid f l) = mark l"
  by (auto simp: mark_def same_core_def fun_eq_iff split: option.splits)

lemma pub_committed_loop:
  assumes "pub_led l" and "\<forall>x \<in> set m. good l (fst x) (snd x)" and "\<forall>a \<in> set out. ack_good l a"
    and "committed_loop m l out = (l', out')"
  shows "pub_led l' \<and> (\<forall>a \<in> set out'. ack_good l' a) \<and> led_acks l' = led_acks l"
  using assms
proof (induction m l out rule: committed_loop.induct)
  case (2 lid p m l out)
  show ?case
  proof (cases "map_of (led_lanes l) lid")
    case (Some st)
    let ?f = "\<lambda>st. fst (commit_lane lid p st)" and ?as = "snd (commit_lane lid p st)"
    let ?l = "upd_lane lid ?f l"
    have mk: "mark ?l = mark l" by (rule mark_upd_core) (rule same_core_commit)
    have gd: "good ?l = good l" by (simp add: good_def mk fun_eq_iff)
    have "pub_led ?l"
      using "2.prems"(2) pubs_commit [of lid p]
      by (intro pub_led_upd [OF "2.prems"(1)]) (auto simp: mark_le_def mk gd)
    moreover have "ack_good ?l a" if "ack_good l a" for a
      using that pubs_commit [of lid p] by (auto simp: ack_good_def gd)
    moreover have "\<forall>a \<in> set ?as. ack_good ?l a"
      using commit_acks [of _ lid p st] "2.prems"(2) Some by (auto simp: ack_good_def gd)
    ultimately show ?thesis
      using "2.IH"(2) [OF Some] "2.prems"(2-4) Some by (auto simp: gd)
  qed (use 2 in simp)
qed simp

lemma pub_Committed:
  assumes "pub_led l" and "\<forall>x \<in> set m. good l (fst x) (snd x)"
  shows "pub_led (Committed m l)"
proof -
  obtain l' out where c: "committed_loop m l [] = (l', out)" by fastforce
  have p: "pub_led l'" and a: "\<forall>a \<in> set out. ack_good l' a"
    using pub_committed_loop [OF assms _ c] by simp_all
  show ?thesis
  proof (cases "led_closed l'")
    case False
    then have l: "Committed m l = l'\<lparr>led_acks := led_acks l' @ out\<rparr>" by (simp add: Committed_def c)
    show ?thesis unfolding l
      using p a by (auto simp: pub_led_def ack_good_def good_def)
  qed (use p c in \<open>simp add: Committed_def\<close>)
qed

lemma pub_led_quiet:
  assumes "pub_led l" and "keeps F l (upd_lane lid f l)"
    and "\<And>st. ls_ordering (f st) = ls_ordering st \<and> pubs (f st) \<subseteq> pubs st"
  shows "pub_led (upd_lane lid f l)"
  using assms by (intro pub_led_upd) (auto simp: keeps_def)

lemma pub_Lane:
  assumes P: "pub_led l" and ok: "led_ok l F" shows "pub_led (fst (Lane lid ord budget whenF l))"
proof (cases "lid = [] \<or> map_of (led_lanes l) lid \<noteq> None")
  case True
  then show ?thesis using P by (auto simp: Lane_def Let_def split: option.splits)
next
  case False
  let ?l = "fst (Lane lid ord budget whenF l)"
  have m: "mark_le l ?l" using keeps_Lane [OF ok] by (simp add: keeps_def)
  have l: "map_of (led_lanes ?l) = (map_of (led_lanes l))(lid \<mapsto> new_lane lid ord
      (if budget < 1 then cfg_DefaultBudget (led_cfg l) else budget) whenF)" "led_acks ?l = led_acks l"
    using False by (auto simp: Lane_def)
  have "ack_good ?l a" if "ack_good l a" for a
    using that False good_mono [OF _ m] by (auto simp: ack_good_def l)
  moreover have "good ?l k p" if "map_of (led_lanes ?l) k = Some st" "p \<in> pubs st" for k st p
    using that P good_mono [OF _ m] by (auto simp: l pubs_def new_lane_def pub_led_def split: if_splits)
  ultimately show ?thesis using P unfolding pub_led_def l(2) by blast
qed

lemma pub_end:
  assumes P: "pub_led l" and ok: "led_ok l F" and f: "F lid = Some (AtEnd ad how)"
  shows "pub_led (fst (Admit_end ad how l))"
proof -
  let ?l = "fst (Admit_end ad how l)"
  have m: "mark_le l ?l" using exec_end_ok [OF ok f] by simp
  obtain st where st: "map_of (led_lanes l) lid = Some st" using ok f unfolding led_ok_def by blast
  have L: "lane_ok lid st (groups_of l lid) (Some (AtEnd ad how))" using led_okD [OF ok st] f by simp
  then have lid: "ad_lane ad = lid" by (cases how; simp add: lane_ok_def ad_ok_def)
  have seq: "pos_Seq p \<le> mark l lid" if "how = EmptyAdvance (Some p) \<or> how = ShedAdvance (Some p)" for p
    using that L st by (auto simp: lane_ok_def mark_def)
  have gd: "good ?l lid p" if "how = EmptyAdvance (Some p) \<or> how = ShedAdvance (Some p)" "pos_Safe p" for p
    by (rule good_mono [OF _ m]) (use seq that in \<open>simp add: good_def\<close>)
  show ?thesis
  proof (rule pub_led_step [OF P m])
    show "rel_option (\<lambda>st st'. ls_ordering st' = ls_ordering st \<and> (\<forall>p \<in> pubs st'. p \<in> pubs st \<or> good ?l k p))
        (map_of (led_lanes l) k) (map_of (led_lanes ?l) k)" for k
    proof (cases how)
      case (TakenTicket i)
      then show ?thesis
        by (cases "map_of (led_lanes l) k") (auto simp: Admit_end_def pubs_def lid)
    next
      case (EmptyAdvance x)
      then show ?thesis
        using pubs_publish [of x] gd
        by (cases "map_of (led_lanes l) k") (auto simp: Admit_end_def lid pubs_def publish_pos_def split: option.splits)
    next
      case (ShedAdvance x)
      then show ?thesis
        using pubs_publish [of x] gd
        by (cases "map_of (led_lanes l) k") (auto simp: Admit_end_def lid pubs_def publish_pos_def split: option.splits)
    qed
    show "a \<in> set (led_acks l) \<or> ack_good ?l a" if "a \<in> set (led_acks ?l)" for a
      using that by (auto simp: Admit_end_def split: tracked_as.splits if_splits)
  qed
qed

lemma pub_track:
  assumes P: "pub_led l" and ok: "led_ok l F" and f: "F lid = Some (AtTrack ad)"
    and tr: "Admit_track now ad l = (l', Ready r)"
  shows "pub_led l'"
proof -
  have m: "mark_le l l'" using exec_track_ok [OF ok f tr] by simp
  obtain st where st: "map_of (led_lanes l) lid = Some st" using ok f unfolding led_ok_def by blast
  then have "map_of (led_lanes l) (ad_lane ad) = Some st"
    using led_okD [OF ok st] f by (simp add: lane_ok_def ad_ok_def)
  from this tr obtain t where "l' = upd_lane (ad_lane ad) (\<lambda>s. s\<lparr>ls_tracker := t\<rparr>) l"
    by (rule Admit_track_cases)
  with m P show ?thesis by (auto intro!: pub_led_upd)
qed

lemma pub_Expand:
  assumes "pub_led l" and "led_ok l F" and "expand_ok gid n l" shows "pub_led (fst (Expand gid n l))"
proof (rule pub_led_step [OF assms(1)])
  let ?l = "fst (Expand gid n l)"
  show "mark_le l ?l" using keeps_Expand [OF assms(2,3)] by (simp add: keeps_def)
  show "rel_option (\<lambda>st st'. ls_ordering st' = ls_ordering st \<and> (\<forall>p \<in> pubs st'. p \<in> pubs st \<or> good ?l k p))
      (map_of (led_lanes l) k) (map_of (led_lanes ?l) k)" for k
    by (cases "map_of (led_lanes l) k") (auto simp: Expand_def Let_def split: option.splits)
  show "a \<in> set (led_acks l) \<or> ack_good ?l a" if "a \<in> set (led_acks ?l)" for a
    using that by (auto simp: Expand_def Let_def split: option.splits if_splits)
qed

lemma pub_same_lanes:
  assumes "pub_led l" and "led_lanes l' = led_lanes l" and "led_acks l' = led_acks l" shows "pub_led l'"
  using assms by (simp add: pub_led_def ack_good_def good_def mark_def)

lemma pub_begin:
  assumes P: "pub_led l" shows "pub_led (fst (Admit_begin now b l))"
proof -
  have "fst (Admit_begin now b l) = l \<or> (\<exists>n. fst (Admit_begin now b l) = upd_lane (b_Lane b) (\<lambda>st. st\<lparr>ls_seq := n\<rparr>) l)"
    by (auto simp: Admit_begin_def Let_def split: option.splits)
  moreover have "mark (upd_lane (b_Lane b) (\<lambda>st. st\<lparr>ls_seq := n\<rparr>) l) = mark l" for n
    by (auto simp: mark_def fun_eq_iff split: option.splits)
  ultimately show ?thesis
    using P by (auto intro!: pub_led_upd simp: mark_le_def pubs_def)
qed

lemma pub_Close: assumes "pub_led l" and "led_ok l F" shows "pub_led (ledger_Close l)"
proof (cases "led_closed l")
  case False
  then show ?thesis
    using keeps_Close [OF assms(2)]
    by (intro pub_led_amap [OF assms(1), where f = "\<lambda>_ st. st\<lparr>ls_tracker := tracker_Close (ls_tracker st)\<rparr>"])
      (auto simp: ledger_Close_def keeps_def)
qed (use assms in \<open>simp add: ledger_Close_def\<close>)

lemma pub_quiet_ops:
  assumes P: "pub_led l" and ok: "led_ok l F"
  shows "pub_led (SetEpoch lid e l)" "pub_led (FinishLane lid l)"
    "pub_led (fst (RequestRetire lid l))" "pub_led (fst (Revoke lid l))" "pub_led (fst (Retirable l))"
    "pub_led (Register rid gid l)" "pub_led (reap_tick now l)"
proof -
  note k = keeps_SetEpoch [OF ok] keeps_FinishLane [OF ok] keeps_RequestRetire [OF ok] keeps_Revoke [OF ok]
    keeps_Retirable [OF ok]
  show "pub_led (SetEpoch lid e l)"
    using k(1) unfolding SetEpoch_def by (rule pub_led_quiet [OF P]) (simp add: pubs_def)
  show "pub_led (FinishLane lid l)"
    using k(2) unfolding FinishLane_def by (rule pub_led_quiet [OF P]) (simp add: pubs_def)
  show "pub_led (fst (RequestRetire lid l))"
    using k(3) [of lid] P
    by (cases "map_of (led_lanes l) lid") (auto simp: RequestRetire_def pubs_def intro!: pub_led_quiet)
  show "pub_led (fst (Revoke lid l))"
    using k(4) [of lid] P
    by (cases "map_of (led_lanes l) lid")
      (auto simp: Revoke_def pubs_def drop_handles_def clear_acc_def intro!: pub_led_quiet)
  show "pub_led (fst (Retirable l))"
    using k(5)
    by (intro pub_led_amap [OF P, where f = "\<lambda>_ st. if retire_due st then st\<lparr>ls_retireReported := True\<rparr> else st"])
      (auto simp: Retirable_def keeps_def pubs_def)
  show "pub_led (Register rid gid l)"
    using P by (auto simp: Register_def intro: pub_same_lanes split: option.splits)
  show "pub_led (reap_tick now l)"
    by (rule pub_same_lanes [OF P]) (simp_all add: reap_tick_def)
qed

lemma exec_pub:
  assumes core: "core_inv s" and P: "pub_ok s" and ex: "led_exec op s = Some s'"
  shows "pub_ok s'"
proof -
  let ?F = "map_of (sy_adm s)"
  have ok: "led_ok (sy_led s) ?F" using core by (simp add: core_inv_def)
  have pl: "pub_led (sy_led s)" and off: "\<forall>x \<in> set (sy_offered s). good (sy_led s) (fst x) (snd x)"
    using P by (simp_all add: pub_ok_def)
  have m: "mark_le (sy_led s) (sy_led s')" using exec_core [OF core ex] by simp
  have off': "\<forall>x \<in> set (sy_offered s). good (sy_led s') (fst x) (snd x)"
    using off good_mono [OF _ m] by blast
  have fin: "pub_ok s'" if "pub_led (sy_led s')" "sy_offered s' = sy_offered s"
    using that off' by (simp add: pub_ok_def)
  show ?thesis
  proof (cases op)
    case (OpAdmitBegin now b)
    then have "sy_led s' = fst (Admit_begin now b (sy_led s))" "sy_offered s' = sy_offered s"
      using ex by (auto split: if_splits prod.splits sum.splits)
    then show ?thesis using fin pub_begin [OF pl, of now b] by simp
  next
    case (OpAdmitTrack now lid)
    then obtain ad r where f: "?F lid = Some (AtTrack ad)"
      and "Admit_track now ad (sy_led s) = (sy_led s', Ready r)" "sy_offered s' = sy_offered s"
      using ex by (auto split: option.splits frame.splits prod.splits waiting.splits sum.splits)
    then show ?thesis using fin pub_track [OF pl ok] by blast
  next
    case (OpAdmitCancel lid)
    then show ?thesis using ex pl by (intro fin) (auto split: option.splits frame.splits)
  next
    case (OpAdmitEnd lid)
    then obtain ad how where "?F lid = Some (AtEnd ad how)"
      and "sy_led s' = fst (Admit_end ad how (sy_led s))" "sy_offered s' = sy_offered s"
      using ex by (auto split: option.splits frame.splits)
    then show ?thesis using fin pub_end [OF pl ok] by simp
  next
    case (OpSettle outs)
    then show ?thesis using ex pub_Settle [OF pl ok, of outs] by (intro fin) (auto simp: on_led_def)
  next
    case OpFlushable
    then have "s' = s\<lparr>sy_led := fst (Flushable (sy_led s)),
        sy_offered := sy_offered s @ snd (Flushable (sy_led s))\<rparr>"
      using ex by (simp add: case_prod_unfold Let_def)
    then show ?thesis
      using pub_Flushable [OF pl ok] off' by (simp add: pub_ok_def ball_Un)
  next
    case (OpCommitted x)
    then have "set x \<subseteq> set (sy_offered s)" and s': "s' = on_led (Committed x) s"
      using ex by (auto split: if_splits)
    with off have "\<forall>y \<in> set x. good (sy_led s) (fst y) (snd y)" by blast
    then show ?thesis using pub_Committed [OF pl, of x] by (intro fin) (simp_all add: s' on_led_def)
  next
    case (OpExpand gid n)
    then show ?thesis using ex pub_Expand [OF pl ok] by (intro fin) (auto simp: on_led_def split: if_splits)
  qed (use ex pub_quiet_ops [OF pl ok] pub_Lane [OF pl ok] pub_Close [OF pl ok] fin in
      \<open>auto simp: on_led_def\<close>)
qed

lemma pub_ok_run: "led_run ops (sys_init cfg) = Some s \<Longrightarrow> core_inv s \<and> pub_ok s"
proof (rule led_run_invariant [where P = "\<lambda>s. core_inv s \<and> pub_ok s"])
  show "core_inv (sys_init cfg) \<and> pub_ok (sys_init cfg)"
    using core_inv_init by (simp add: pub_ok_def pub_led_def sys_init_def New_def)
qed (use exec_core exec_pub in blast)+

section \<open>What this says about open groups\<close>

text \<open>The tracked position of an open group, and "before every open group of the lane".\<close>

definition group_pos :: "ledger \<Rightarrow> group \<Rightarrow> position option" where
  "group_pos l g = (case (map_of (led_lanes l) (g_lane g), g_ticket g) of
     (Some st, Some i) \<Rightarrow> map_option nd_payload (unresolved (ls_tracker st) i)
   | _ \<Rightarrow> None)"

definition before_open :: "ledger \<Rightarrow> lane_id \<Rightarrow> position \<Rightarrow> bool" where
  "before_open l lid p \<longleftrightarrow> list_all (\<lambda>(gid, g). g_lane g = lid \<longrightarrow>
     (case group_pos l g of None \<Rightarrow> False | Some q \<Rightarrow> pos_Seq p < pos_Seq q)) (led_groups l)"

lemma good_before_open:
  assumes ok: "led_ok l F" and g: "good l lid p" shows "before_open l lid p"
proof -
  have "\<exists>q. group_pos l gr = Some q \<and> pos_Seq p < pos_Seq q"
    if m: "(gid, gr) \<in> set (led_groups l)" and lid: "g_lane gr = lid" for gid gr
  proof -
    have "wf_amap (led_groups l)" using ok by (simp add: led_ok_def)
    with m have mo: "map_of (led_groups l) gid = Some gr" by (simp add: wf_amap_mem)
    obtain st where st: "map_of (led_lanes l) lid = Some st"
      using ok mo lid unfolding led_ok_def by blast
    have L: "lane_ok lid st (groups_of l lid) (F lid)" by (rule led_okD [OF ok st])
    have "groups_of l lid gid = Some gr" using mo lid by (simp add: groups_of_def)
    then have "grp_ok (ls_tracker st) gr" using L by (simp add: lane_ok_def groups_ok_def)
    then obtain i nd where i: "g_ticket gr = Some i" and u: "unresolved (ls_tracker st) i = Some nd"
      unfolding grp_ok_def by blast
    have "seq_ok pos_Seq (ls_seq st) (ls_tracker st)" using L by (simp add: lane_ok_def)
    from pt.live_above [OF this u] show ?thesis
      using i u st lid g by (simp add: group_pos_def good_def mark_def)
  qed
  then show ?thesis unfolding before_open_def list_all_iff by fastforce
qed

end
