(* ===== verification/Canal_LedgerAcks.thy ===== *)
theory Canal_LedgerAcks
  imports Canal_LedgerPub
begin

text \<open>
  The acknowledgements a ledger sends: which records they account for, that the final one of a
  lane is final, and that a fenced lane is silent. Acknowledgements are sent by \<^verbatim>\<open>emitDiscrete\<close> and
  by \<^verbatim>\<open>Committed\<close> alone; both act on each lane through \<open>emits\<close>.
\<close>

definition lane_acks :: "lane_id \<Rightarrow> ack list \<Rightarrow> ack list" where
  "lane_acks lid as = filter (\<lambda>a. ack_Lane a = lid) as"

text \<open>What the sending of \<open>as\<close> does to the state of the lane \<open>k\<close> they are for.\<close>

definition emits :: "lane_id \<Rightarrow> lane_state \<Rightarrow> lane_state \<Rightarrow> ack list \<Rightarrow> bool" where
  "emits k st st' as \<longleftrightarrow> ls_fenced st' = ls_fenced st \<and> ls_epoch st' = ls_epoch st \<and>
     ls_retireReported st' = ls_retireReported st \<and>
     (as = [] \<and> ls_recordsCommitted st' = ls_recordsCommitted st \<and> ls_finishAcked st' = ls_finishAcked st \<or>
      (\<exists>a. as = [a] \<and> ack_Lane a = k \<and> \<not> ls_finishAcked st \<and> \<not> ls_fenced st \<and> ack_Epoch a = ls_epoch st \<and>
         (ack_LaneFinished a \<longrightarrow> ls_laneFinished st \<and> ls_pending st = 0) \<and>
         ls_recordsCommitted st' = ls_recordsCommitted st + ack_Records a \<and>
         ls_finishAcked st' = ack_LaneFinished a))"

definition emission :: "ledger \<Rightarrow> ledger \<Rightarrow> ack list \<Rightarrow> bool" where
  "emission l l' as \<longleftrightarrow> led_closed l' = led_closed l \<and>
     led_acks l' = (if led_closed l then led_acks l else led_acks l @ as) \<and>
     (\<forall>a \<in> set as. map_of (led_lanes l) (ack_Lane a) \<noteq> None) \<and> distinct (map ack_Lane as) \<and>
     (\<forall>k. rel_option (\<lambda>st st'. emits k st st' (lane_acks k as)) (map_of (led_lanes l) k) (map_of (led_lanes l') k))"

lemma lane_acks_simps [simp]:
  "lane_acks k [] = []" "lane_acks k (xs @ ys) = lane_acks k xs @ lane_acks k ys"
  "lane_acks k (a # as) = (if ack_Lane a = k then a # lane_acks k as else lane_acks k as)"
  by (simp_all add: lane_acks_def)

lemma lane_acks_other: "\<forall>a \<in> set as. ack_Lane a \<noteq> k \<Longrightarrow> lane_acks k as = []"
  by (simp add: lane_acks_def)

lemma emit_emits: "emits k st (fst (emit_lane k st)) (snd (emit_lane k st))"
  by (simp add: emits_def emit_lane_def clear_acc_def drop_handles_def mark_acked_def
      discrete_ack_def ls_fenced_def)

lemma commit_emits: "emits k st (fst (commit_lane k p st)) (snd (commit_lane k p st))"
  by (simp add: emits_def commit_lane_def Let_def clear_acc_def mark_acked_def prefix_ack_def ls_fenced_def)

lemma lane_acks_concat:
  assumes "distinct (map fst lanes)" and "\<And>k st. \<forall>a \<in> set (f k st). ack_Lane a = k"
  shows "lane_acks k (concat (map (\<lambda>(k, st). f k st) lanes)) =
    (case map_of lanes k of None \<Rightarrow> [] | Some st \<Rightarrow> f k st)"
  using assms(1)
proof (induction lanes)
  case (Cons x lanes)
  obtain j st where x: "x = (j, st)" by (cases x)
  have own: "lane_acks k (f j st) = (if j = k then f j st else [])"
    using assms(2) [of j st] by (auto simp: lane_acks_def filter_id_conv)
  have "map_of lanes k = None" if "j = k" using Cons.prems that by (auto simp: x map_of_eq_None_iff)
  with own Cons show ?case by (auto simp: x)
qed simp

lemma distinct_concat_acks:
  assumes "distinct (map fst lanes)" and "\<And>k st. \<forall>a \<in> set (f k st). ack_Lane a = k"
    and "\<And>k st. length (f k st) \<le> 1"
  shows "distinct (map ack_Lane (concat (map (\<lambda>(k, st). f k st) lanes)))"
  using assms(1)
proof (induction lanes)
  case (Cons x lanes)
  obtain j st where x: "x = (j, st)" by (cases x)
  have "distinct (map ack_Lane (f j st))"
    using assms(3) [of j st] by (cases "f j st") auto
  moreover have "ack_Lane a \<noteq> ack_Lane b"
    if "a \<in> set (f j st)" "(i, s) \<in> set lanes" "b \<in> set (f i s)" for a b i s
    using that assms(2) Cons.prems by (force simp: x)
  ultimately show ?case using Cons by (fastforce simp: x)
qed simp

lemma emit_lane_acks: "\<forall>a \<in> set (snd (emit_lane k st)). ack_Lane a = k" "length (snd (emit_lane k st)) \<le> 1"
  by (simp_all add: emit_lane_def discrete_ack_def)

lemma emission_emitDiscrete:
  assumes "wf_amap (led_lanes l)"
  shows "emission l (emitDiscrete l) (concat (map (\<lambda>(k, st). snd (emit_lane k st)) (led_lanes l)))"
proof -
  let ?as = "concat (map (\<lambda>(k, st). snd (emit_lane k st)) (led_lanes l))"
  have d: "distinct (map fst (led_lanes l))" using assms by (simp add: wf_amap_def)
  have la: "lane_acks k ?as = (case map_of (led_lanes l) k of None \<Rightarrow> [] | Some st \<Rightarrow> snd (emit_lane k st))" for k
    by (rule lane_acks_concat [OF d]) (rule emit_lane_acks(1))
  have "distinct (map ack_Lane ?as)"
    by (rule distinct_concat_acks [OF d]) (rule emit_lane_acks)+
  moreover have "\<forall>a \<in> set ?as. map_of (led_lanes l) (ack_Lane a) \<noteq> None"
    using emit_lane_acks(1) d by (fastforce simp: map_of_eq_None_iff)
  moreover have "rel_option (\<lambda>st st'. emits k st st' (lane_acks k ?as))
      (map_of (led_lanes l) k) (map_of (led_lanes (emitDiscrete l)) k)" for k
    by (cases "map_of (led_lanes l) k") (simp_all add: la emitDiscrete_def emit_emits)
  ultimately show ?thesis by (simp add: emission_def emitDiscrete_def)
qed

lemma commit_lane_acks: "\<forall>a \<in> set (snd (commit_lane k p st)). ack_Lane a = k" "length (snd (commit_lane k p st)) \<le> 1"
  by (simp_all add: commit_lane_def Let_def prefix_ack_def)

lemma committed_loop_spec:
  assumes "distinct (map fst m)" and "committed_loop m l out = (l', out')"
  shows "\<exists>as. out' = out @ as \<and> distinct (map ack_Lane as) \<and> led_closed l' = led_closed l \<and> led_acks l' = led_acks l \<and>
    (\<forall>a \<in> set as. ack_Lane a \<in> fst ` set m \<and> map_of (led_lanes l) (ack_Lane a) \<noteq> None) \<and>
    (\<forall>k. rel_option (\<lambda>st st'. emits k st st' (lane_acks k as)) (map_of (led_lanes l) k) (map_of (led_lanes l') k)) \<and>
    (\<forall>k. k \<notin> fst ` set m \<longrightarrow> map_of (led_lanes l') k = map_of (led_lanes l) k)"
  using assms
proof (induction m l out arbitrary: l' out' rule: committed_loop.induct)
  case (1 l out)
  have "rel_option (\<lambda>st st'. emits k st st' []) x x" for k x
    by (cases x) (simp_all add: emits_def)
  with 1 show ?case by auto
next
  case (2 lid p m l out)
  show ?case
  proof (cases "map_of (led_lanes l) lid")
    case None
    from "2.IH"(1) [OF None] "2.prems" None show ?thesis by fastforce
  next
    case (Some st)
    let ?l = "upd_lane lid (\<lambda>st. fst (commit_lane lid p st)) l" and ?a = "snd (commit_lane lid p st)"
    obtain as where as: "out' = (out @ ?a) @ as" "distinct (map ack_Lane as)" "led_closed l' = led_closed ?l"
      "led_acks l' = led_acks ?l"
      "\<forall>a \<in> set as. ack_Lane a \<in> fst ` set m \<and> map_of (led_lanes ?l) (ack_Lane a) \<noteq> None"
      "\<forall>k. rel_option (\<lambda>st st'. emits k st st' (lane_acks k as)) (map_of (led_lanes ?l) k) (map_of (led_lanes l') k)"
      "\<forall>k. k \<notin> fst ` set m \<longrightarrow> map_of (led_lanes l') k = map_of (led_lanes ?l) k"
      using "2.IH"(2) [OF Some] "2.prems" Some by fastforce
    have lm: "lid \<notin> fst ` set m" using "2.prems"(1) by auto
    have new: "lane_acks lid as = []" using as(5) lm by (intro lane_acks_other) auto
    have a1: "lane_acks k ?a = (if k = lid then ?a else [])" for k
      using commit_lane_acks(1) [of lid p st] by (auto simp: lane_acks_def filter_id_conv)
    have "distinct (map ack_Lane ?a)" using commit_lane_acks(2) [of lid p st] by (cases ?a) auto
    then have dist: "distinct (map ack_Lane (?a @ as))"
      using as(2,5) lm commit_lane_acks(1) [of lid p st] by auto
    have "rel_option (\<lambda>st st'. emits k st st' (lane_acks k (?a @ as))) (map_of (led_lanes l) k) (map_of (led_lanes l') k)" for k
    proof (cases "k = lid")
      case True
      then show ?thesis using as(7) lm Some new a1 [of lid] commit_emits by simp
    next
      case False
      then show ?thesis using as(6) a1 [of k] by (auto dest: spec [of _ k])
    qed
    moreover have "\<forall>k. k \<notin> fst ` set ((lid, p) # m) \<longrightarrow> map_of (led_lanes l') k = map_of (led_lanes l) k"
      using as(7) by auto
    moreover have "\<forall>a \<in> set (?a @ as). ack_Lane a \<in> fst ` set ((lid, p) # m) \<and> map_of (led_lanes l) (ack_Lane a) \<noteq> None"
      using as(5) commit_lane_acks(1) [of lid p st] Some by (auto split: if_splits)
    ultimately show ?thesis using as(1,3,4) dist by (intro exI [of _ "?a @ as"]) simp
  qed
qed

lemma emission_Committed:
  assumes "distinct (map fst m)" shows "\<exists>as. emission l (Committed m l) as"
proof -
  obtain l' out where c: "committed_loop m l [] = (l', out)" by fastforce
  from committed_loop_spec [OF assms c] c show ?thesis
    by (auto simp: emission_def Committed_def)
qed

section \<open>Steps that send nothing\<close>

definition same_acct :: "lane_state \<Rightarrow> lane_state \<Rightarrow> bool" where
  "same_acct st st' \<longleftrightarrow> ls_recordsCommitted st' = ls_recordsCommitted st \<and>
     ls_finishAcked st' = ls_finishAcked st \<and> (ls_retireReported st \<longrightarrow> ls_retireReported st')"

definition silent :: "ledger \<Rightarrow> ledger \<Rightarrow> bool" where
  "silent l l' \<longleftrightarrow> led_acks l' = led_acks l \<and> (led_closed l \<longrightarrow> led_closed l') \<and>
     (\<forall>k. map_of (led_lanes l) k \<noteq> None \<longrightarrow>
        rel_option same_acct (map_of (led_lanes l) k) (map_of (led_lanes l') k)) \<and>
     (\<forall>k st. map_of (led_lanes l) k = None \<longrightarrow> map_of (led_lanes l') k = Some st \<longrightarrow>
        ls_recordsCommitted st = 0)"

lemma silent_refl [simp]: "silent l l"
  by (auto simp: silent_def same_acct_def)

lemma silent_upd:
  assumes "\<And>st. same_acct st (f st)" and "led_acks l' = led_acks l" and "led_closed l' = led_closed l"
    and "led_lanes l' = led_lanes l"
  shows "silent l (upd_lane lid f l')"
  using assms by (auto simp: silent_def same_acct_def)

lemma silent_amap:
  assumes "\<And>k st. same_acct st (f k st)" and "led_acks l' = led_acks l" and "led_closed l \<longrightarrow> led_closed l'"
    and "led_lanes l' = amap f (led_lanes l)"
  shows "silent l l'"
  using assms by (auto simp: silent_def)

lemma silent_trans: "silent l l' \<Longrightarrow> silent l' l'' \<Longrightarrow> silent l l''"
  unfolding silent_def
proof (intro conjI allI impI)
  assume a: "led_acks l' = led_acks l \<and> (led_closed l \<longrightarrow> led_closed l') \<and>
     (\<forall>k. map_of (led_lanes l) k \<noteq> None \<longrightarrow> rel_option same_acct (map_of (led_lanes l) k) (map_of (led_lanes l') k)) \<and>
     (\<forall>k st. map_of (led_lanes l) k = None \<longrightarrow> map_of (led_lanes l') k = Some st \<longrightarrow> ls_recordsCommitted st = 0)"
    and b: "led_acks l'' = led_acks l' \<and> (led_closed l' \<longrightarrow> led_closed l'') \<and>
     (\<forall>k. map_of (led_lanes l') k \<noteq> None \<longrightarrow> rel_option same_acct (map_of (led_lanes l') k) (map_of (led_lanes l'') k)) \<and>
     (\<forall>k st. map_of (led_lanes l') k = None \<longrightarrow> map_of (led_lanes l'') k = Some st \<longrightarrow> ls_recordsCommitted st = 0)"
  show "led_acks l'' = led_acks l" using a b by simp
  show "led_closed l''" if "led_closed l" using that a b by simp
  show "rel_option same_acct (map_of (led_lanes l) k) (map_of (led_lanes l'') k)" if n: "map_of (led_lanes l) k \<noteq> None" for k
  proof -
    obtain st st' where "map_of (led_lanes l) k = Some st" "map_of (led_lanes l') k = Some st'" "same_acct st st'"
      using a n by (metis option.exhaust option.rel_distinct(2) option_rel_Some1)
    moreover from this b obtain st'' where "map_of (led_lanes l'') k = Some st''" "same_acct st' st''"
      by (metis option.distinct(1) option_rel_Some1)
    ultimately show ?thesis by (auto simp: same_acct_def)
  qed
  show "ls_recordsCommitted st = 0" if "map_of (led_lanes l) k = None" "map_of (led_lanes l'') k = Some st" for k st
  proof (cases "map_of (led_lanes l') k")
    case None
    then show ?thesis using b that by simp
  next
    case (Some st')
    then have "ls_recordsCommitted st' = 0" using a that by simp
    moreover have "same_acct st' st" using b Some that(2) by (metis option.distinct(1) option.rel_inject(2))
    ultimately show ?thesis by (simp add: same_acct_def)
  qed
qed

lemma same_acct_account: "same_acct st (account_group g st)"
  by (simp add: same_acct_def account_group_def)

lemma same_acct_publish: "same_acct st (publish_pos m st)"
  by (simp add: same_acct_def publish_pos_def split: option.splits)

lemma silent_settle_one: "silent l (fst (settle_one ou (l, adv)))"
  by (auto simp: settle_one_def Let_def same_acct_def account_group_def intro!: silent_upd
      split: option.splits prod.splits) (auto simp: silent_def same_acct_def option.rel_refl)

lemma silent_settle_fold: "silent l (fst (fold settle_one outs (l, adv)))"
proof (induction outs arbitrary: l adv)
  case (Cons ou outs)
  obtain l1 adv1 where s: "settle_one ou (l, adv) = (l1, adv1)" by fastforce
  with silent_settle_one [of l ou adv] Cons [of l1 adv1] show ?case by (auto intro: silent_trans)
qed simp

lemma silent_advances: "silent l (fold apply_advance adv l)"
proof (induction adv arbitrary: l)
  case (Cons a adv)
  have "silent l (apply_advance a l)"
    unfolding apply_advance_def by (rule silent_upd) (simp_all add: same_acct_publish)
  with Cons [of "apply_advance a l"] show ?case by (auto intro: silent_trans)
qed simp

lemma silent_same_lanes:
  assumes "led_lanes l' = led_lanes l" and "led_acks l' = led_acks l" and "led_closed l' = led_closed l"
  shows "silent l l'"
  using assms by (auto simp: silent_def same_acct_def option.rel_refl)

lemma silent_upd_ops:
  "silent l (SetEpoch lid e l)" "silent l (FinishLane lid l)" "silent l (fst (RequestRetire lid l))"
  "silent l (fst (Revoke lid l))" "silent l (fst (Expand gid n l))"
  by (auto simp: SetEpoch_def FinishLane_def RequestRetire_def Revoke_def Expand_def Let_def same_acct_def
      drop_handles_def clear_acc_def intro!: silent_upd intro: silent_same_lanes split: option.splits)

lemma silent_amap_ops:
  "silent l (fst (Retirable l))" "silent l (fst (Flushable l))" "silent l (ledger_Close l)"
proof -
  show "silent l (fst (Retirable l))"
    by (rule silent_amap [where f = "\<lambda>_ st. if retire_due st then st\<lparr>ls_retireReported := True\<rparr> else st"])
      (auto simp: Retirable_def same_acct_def)
  show "silent l (fst (Flushable l))"
    by (rule silent_amap [where f = "\<lambda>_ st. fst (flush_lane st)"])
      (auto simp: Flushable_def same_acct_def flush_lane_def split: option.splits)
  show "silent l (ledger_Close l)"
    by (cases "led_closed l") (simp_all add: ledger_Close_def silent_def same_acct_def option.rel_map option.rel_refl)
qed

lemma silent_same_ops: "silent l (reap_tick now l)" "silent l (Register rid gid l)"
  by (auto simp: reap_tick_def Register_def intro: silent_same_lanes split: option.splits)

lemmas silent_ops = silent_upd_ops silent_amap_ops silent_same_ops

lemma silent_Lane: "silent l (fst (Lane lid ord budget whenF l))"
  by (auto simp: Lane_def Let_def silent_def same_acct_def new_lane_def option.rel_refl split: option.splits)

lemma silent_begin: "silent l (fst (Admit_begin now b l))"
  by (auto simp: Admit_begin_def Let_def same_acct_def intro!: silent_upd split: option.splits)

lemma silent_track: "silent l (fst (Admit_track now ad l))"
  by (auto simp: Admit_track_def Let_def same_acct_def intro!: silent_upd
      split: option.splits prod.splits track_result.splits)

lemma silent_end: "silent l (fst (Admit_end ad how l))"
  by (auto simp: Admit_end_def same_acct_def publish_pos_def intro!: silent_upd
      split: tracked_as.splits option.splits)

section \<open>The accounting invariant\<close>

definition acked :: "lane_id \<Rightarrow> ledger \<Rightarrow> nat" where
  "acked lid l = sum_list (map ack_Records (lane_acks lid (led_acks l)))"

definition final_acks :: "ack list \<Rightarrow> bool" where
  "final_acks as \<longleftrightarrow> sorted_wrt (\<lambda>a b. ack_LaneFinished a \<longrightarrow> ack_Lane b \<noteq> ack_Lane a) as"

definition acct_inv :: "ledger \<Rightarrow> bool" where
  "acct_inv l \<longleftrightarrow> final_acks (led_acks l) \<and>
     (\<forall>a \<in> set (led_acks l). \<exists>st. map_of (led_lanes l) (ack_Lane a) = Some st \<and>
        (ack_LaneFinished a \<longrightarrow> ls_finishAcked st)) \<and>
     (\<forall>lid st. map_of (led_lanes l) lid = Some st \<longrightarrow> \<not> led_closed l \<longrightarrow>
        ls_recordsCommitted st = acked lid l)"

lemma silent_lane:
  assumes "silent l l'" and "map_of (led_lanes l) k = Some st"
  obtains st' where "map_of (led_lanes l') k = Some st'" and "same_acct st st'"
proof -
  have "rel_option same_acct (map_of (led_lanes l) k) (map_of (led_lanes l') k)"
    using assms unfolding silent_def by blast
  with assms(2) that show ?thesis by (cases "map_of (led_lanes l') k") auto
qed

lemma final_acks_distinct: "distinct (map ack_Lane as) \<Longrightarrow> final_acks as"
  unfolding final_acks_def by (induction as) (auto simp: image_iff)

lemma acct_invI:
  assumes "final_acks (led_acks l)"
    and "\<And>a. a \<in> set (led_acks l) \<Longrightarrow> \<exists>st. map_of (led_lanes l) (ack_Lane a) = Some st \<and>
        (ack_LaneFinished a \<longrightarrow> ls_finishAcked st)"
    and "\<And>lid st. map_of (led_lanes l) lid = Some st \<Longrightarrow> \<not> led_closed l \<Longrightarrow> ls_recordsCommitted st = acked lid l"
  shows "acct_inv l"
  using assms unfolding acct_inv_def by blast

lemma acct_invD:
  assumes "acct_inv l"
  shows "final_acks (led_acks l)"
    and "a \<in> set (led_acks l) \<Longrightarrow> \<exists>st. map_of (led_lanes l) (ack_Lane a) = Some st \<and>
        (ack_LaneFinished a \<longrightarrow> ls_finishAcked st)"
    and "map_of (led_lanes l) lid = Some st \<Longrightarrow> \<not> led_closed l \<Longrightarrow> ls_recordsCommitted st = acked lid l"
  using assms unfolding acct_inv_def by blast+

lemma acct_silent:
  assumes A: "acct_inv l" and S: "silent l l'" shows "acct_inv l'"
proof (rule acct_invI)
  have acks: "led_acks l' = led_acks l" using S by (simp add: silent_def)
  show "final_acks (led_acks l')" using acct_invD(1) [OF A] by (simp only: acks)
  show "\<exists>st'. map_of (led_lanes l') (ack_Lane a) = Some st' \<and> (ack_LaneFinished a \<longrightarrow> ls_finishAcked st')"
    if a: "a \<in> set (led_acks l')" for a
  proof -
    obtain st where st: "map_of (led_lanes l) (ack_Lane a) = Some st" "ack_LaneFinished a \<longrightarrow> ls_finishAcked st"
      using acct_invD(2) [OF A, of a] a by (auto simp: acks)
    obtain st' where "map_of (led_lanes l') (ack_Lane a) = Some st'" "same_acct st st'"
      by (rule silent_lane [OF S st(1)])
    with st show ?thesis by (simp add: same_acct_def)
  qed
  show "ls_recordsCommitted st' = acked lid l'"
    if st': "map_of (led_lanes l') lid = Some st'" and nc: "\<not> led_closed l'" for lid st'
  proof (cases "map_of (led_lanes l) lid")
    case None
    have "ack_Lane a \<noteq> lid" if "a \<in> set (led_acks l)" for a
      using acct_invD(2) [OF A that] None by auto
    then have "lane_acks lid (led_acks l) = []" by (intro lane_acks_other) blast
    moreover have "ls_recordsCommitted st' = 0" using S None st' unfolding silent_def by blast
    ultimately show ?thesis by (simp add: acked_def acks)
  next
    case (Some st)
    from silent_lane [OF S this] st' have "same_acct st st'" by auto
    moreover have "\<not> led_closed l" using S nc by (auto simp: silent_def)
    ultimately show ?thesis
      using acct_invD(3) [OF A Some] by (simp add: same_acct_def acked_def acks)
  qed
qed

lemma emission_lane:
  assumes "emission l l' as" and "map_of (led_lanes l) k = Some st"
  obtains st' where "map_of (led_lanes l') k = Some st'" and "emits k st st' (lane_acks k as)"
proof -
  have "rel_option (\<lambda>st st'. emits k st st' (lane_acks k as)) (map_of (led_lanes l) k) (map_of (led_lanes l') k)"
    using assms(1) unfolding emission_def by blast
  with assms(2) that show ?thesis by (cases "map_of (led_lanes l') k") auto
qed

lemma emission_back:
  assumes "emission l l' as" and "map_of (led_lanes l') k = Some st'"
  obtains st where "map_of (led_lanes l) k = Some st" and "emits k st st' (lane_acks k as)"
proof -
  have "rel_option (\<lambda>st st'. emits k st st' (lane_acks k as)) (map_of (led_lanes l) k) (map_of (led_lanes l') k)"
    using assms(1) unfolding emission_def by blast
  with assms(2) that show ?thesis by (cases "map_of (led_lanes l) k") auto
qed

lemma emits_memD:
  assumes e: "emits k st st' as" and a: "a \<in> set as"
  shows "\<not> ls_finishAcked st \<and> \<not> ls_fenced st \<and> ls_finishAcked st' = ack_LaneFinished a \<and>
      ack_Epoch a = ls_epoch st \<and> (ack_LaneFinished a \<longrightarrow> ls_laneFinished st \<and> ls_pending st = 0)"
proof -
  have "as \<noteq> []" using a by auto
  with e obtain b where b: "as = [b]" and "\<not> ls_finishAcked st \<and> \<not> ls_fenced st \<and> ls_finishAcked st' = ack_LaneFinished b \<and>
      ack_Epoch b = ls_epoch st \<and> (ack_LaneFinished b \<longrightarrow> ls_laneFinished st \<and> ls_pending st = 0)"
    unfolding emits_def by blast
  moreover have "a = b" using a b by simp
  ultimately show ?thesis by simp
qed

lemma emission_acked:
  assumes E: "emission l l' as" and a: "a \<in> set as"
  obtains st st' where "map_of (led_lanes l) (ack_Lane a) = Some st" "map_of (led_lanes l') (ack_Lane a) = Some st'"
    "\<not> ls_finishAcked st" "\<not> ls_fenced st" "ls_finishAcked st' = ack_LaneFinished a" "ack_Epoch a = ls_epoch st"
    "ack_LaneFinished a \<longrightarrow> ls_laneFinished st \<and> ls_pending st = 0"
proof -
  have "map_of (led_lanes l) (ack_Lane a) \<noteq> None" using E a unfolding emission_def by blast
  then obtain st where st: "map_of (led_lanes l) (ack_Lane a) = Some st" by blast
  then obtain st' where st': "map_of (led_lanes l') (ack_Lane a) = Some st'"
    and em: "emits (ack_Lane a) st st' (lane_acks (ack_Lane a) as)" by (rule emission_lane [OF E])
  have "a \<in> set (lane_acks (ack_Lane a) as)" using a by (simp add: lane_acks_def)
  note m = emits_memD [OF em this]
  show ?thesis by (rule that [OF st st']) (use m in blast)+
qed

lemma emission_old:
  assumes A: "acct_inv l" and E: "emission l l' as" and a: "a \<in> set (led_acks l)"
  obtains st st' where "map_of (led_lanes l) (ack_Lane a) = Some st" "map_of (led_lanes l') (ack_Lane a) = Some st'"
    "ack_LaneFinished a \<longrightarrow> ls_finishAcked st" "ack_LaneFinished a \<longrightarrow> ls_finishAcked st'"
proof -
  obtain st where st: "map_of (led_lanes l) (ack_Lane a) = Some st" "ack_LaneFinished a \<longrightarrow> ls_finishAcked st"
    using acct_invD(2) [OF A a] by blast
  obtain st' where st': "map_of (led_lanes l') (ack_Lane a) = Some st'"
    and "emits (ack_Lane a) st st' (lane_acks (ack_Lane a) as)" by (rule emission_lane [OF E st(1)])
  with st(2) have "ack_LaneFinished a \<longrightarrow> ls_finishAcked st'" by (auto simp: emits_def)
  then show ?thesis using that [OF st(1) st'] st(2) by simp
qed

lemma acct_emission:
  assumes A: "acct_inv l" and E: "emission l l' as" shows "acct_inv l'"
proof (rule acct_invI)
  have acks: "led_acks l' = (if led_closed l then led_acks l else led_acks l @ as)"
    and cl: "led_closed l' = led_closed l" using E by (simp_all add: emission_def)
  have "ack_Lane b \<noteq> ack_Lane a" if ab: "a \<in> set (led_acks l)" "b \<in> set as" "ack_LaneFinished a" for a b
  proof
    assume eq: "ack_Lane b = ack_Lane a"
    obtain st where st: "map_of (led_lanes l) (ack_Lane a) = Some st" "ls_finishAcked st"
      using ab(3) by (auto intro: emission_old [OF A E ab(1)])
    obtain st1 where "map_of (led_lanes l) (ack_Lane b) = Some st1" "\<not> ls_finishAcked st1"
      by (rule emission_acked [OF E ab(2)])
    with st show False using eq by simp
  qed
  moreover have "final_acks as" using E by (simp add: emission_def final_acks_distinct)
  ultimately show "final_acks (led_acks l')"
    using acct_invD(1) [OF A] by (auto simp: acks final_acks_def sorted_wrt_append)
  show "\<exists>st. map_of (led_lanes l') (ack_Lane a) = Some st \<and> (ack_LaneFinished a \<longrightarrow> ls_finishAcked st)"
    if a: "a \<in> set (led_acks l')" for a
  proof -
    consider "a \<in> set (led_acks l)" | "a \<in> set as" using a by (auto simp: acks split: if_splits)
    then show ?thesis
    proof cases
      case 1
      then show ?thesis by (rule emission_old [OF A E]) blast
    next
      case 2
      then show ?thesis by (rule emission_acked [OF E]) blast
    qed
  qed
  show "ls_recordsCommitted st' = acked lid l'"
    if st': "map_of (led_lanes l') lid = Some st'" and nc: "\<not> led_closed l'" for lid st'
  proof -
    obtain st where st: "map_of (led_lanes l) lid = Some st" and em: "emits lid st st' (lane_acks lid as)"
      by (rule emission_back [OF E st'])
    have "ls_recordsCommitted st = acked lid l" using acct_invD(3) [OF A st] nc cl by simp
    with em nc cl show ?thesis by (auto simp: emits_def acked_def acks)
  qed
qed

section \<open>One step of the state machine\<close>

definition lease :: "ledger \<Rightarrow> lane_id \<Rightarrow> (nat \<times> nat) option" where
  "lease l k = map_option (\<lambda>st. (ls_epoch st, ls_fencedThrough st)) (map_of (led_lanes l) k)"

lemma lease_settle_one: "lease (fst (settle_one ou (l, adv))) k = lease l k"
  by (auto simp: lease_def settle_one_def Let_def account_group_def comp_def split: option.splits prod.splits)

lemma lease_settle_fold: "lease (fst (fold settle_one outs (l, adv))) k = lease l k"
proof (induction outs arbitrary: l adv)
  case (Cons ou outs)
  obtain l1 adv1 where s: "settle_one ou (l, adv) = (l1, adv1)" by fastforce
  with lease_settle_one [of ou l adv] Cons [of l1 adv1] show ?case by simp
qed simp

lemma lease_advances: "lease (fold apply_advance adv l) k = lease l k"
proof (induction adv arbitrary: l)
  case (Cons a adv)
  have "lease (apply_advance a l) k = lease l k"
    by (auto simp: lease_def apply_advance_def publish_pos_def option.map_comp comp_def)
  with Cons show ?case by simp
qed simp

text \<open>Every step is silent, or silent up to a sending of acknowledgements that ends it.\<close>

definition acks_step :: "ledger \<Rightarrow> ledger \<Rightarrow> bool" where
  "acks_step l l' \<longleftrightarrow> silent l l' \<or>
     (\<exists>l1 as. silent l l1 \<and> (\<forall>k. lease l1 k = lease l k) \<and> emission l1 l' as)"

lemma acks_step_Settle:
  assumes "led_ok l F" shows "acks_step l (Settle outs l)"
proof -
  obtain l1 adv where f: "fold settle_one outs (l, []) = (l1, adv)" by fastforce
  let ?l2 = "fold apply_advance adv l1"
  have "led_ok l1 F" using settle_fold_ok [OF assms f] by (simp add: adv_ok_def)
  then have "led_ok ?l2 F" using keeps_apply_advances by (simp add: keeps_def)
  then have "wf_amap (led_lanes ?l2)" by (simp add: led_ok_def)
  from emission_emitDiscrete [OF this]
  have "emission ?l2 (Settle outs l) (concat (map (\<lambda>(k, st). snd (emit_lane k st)) (led_lanes ?l2)))"
    by (simp add: Settle_def f)
  moreover have "silent l ?l2"
    using silent_settle_fold [of l outs "[]"] silent_advances [of l1 adv] f by (auto intro: silent_trans)
  moreover have "\<forall>k. lease ?l2 k = lease l k"
    using lease_settle_fold [of outs l "[]"] f lease_advances by simp
  ultimately show ?thesis unfolding acks_step_def by blast
qed

lemma exec_acks:
  assumes core: "core_inv s" and ex: "led_exec op s = Some s'"
  shows "acks_step (sy_led s) (sy_led s')"
proof -
  let ?F = "map_of (sy_adm s)"
  have ok: "led_ok (sy_led s) ?F" using core by (simp add: core_inv_def)
  show ?thesis
  proof (cases op)
    case (OpSettle outs)
    then show ?thesis using ex acks_step_Settle [OF ok, of outs] by (auto simp: on_led_def)
  next
    case (OpCommitted m)
    then have "distinct (map fst m)" "s' = on_led (Committed m) s" using ex by (auto split: if_splits)
    then show ?thesis
      using emission_Committed [of m "sy_led s"] by (auto simp: acks_step_def on_led_def intro: silent_refl)
  next
    case (OpAdmitBegin now b)
    then have "sy_led s' = fst (Admit_begin now b (sy_led s))"
      using ex by (auto split: if_splits prod.splits sum.splits)
    then show ?thesis using silent_begin [of "sy_led s" now b] by (simp add: acks_step_def)
  next
    case (OpAdmitTrack now lid)
    then obtain ad r where "Admit_track now ad (sy_led s) = (sy_led s', Ready r)"
      using ex by (auto split: option.splits frame.splits prod.splits waiting.splits sum.splits)
    then show ?thesis using silent_track [of "sy_led s" now ad] by (simp add: acks_step_def)
  next
    case (OpAdmitCancel lid)
    then show ?thesis using ex by (auto simp: acks_step_def split: option.splits frame.splits)
  next
    case (OpAdmitEnd lid)
    then obtain ad how where "sy_led s' = fst (Admit_end ad how (sy_led s))"
      using ex by (auto split: option.splits frame.splits)
    then show ?thesis using silent_end by (simp add: acks_step_def)
  next
    case OpFlushable
    then have "sy_led s' = fst (Flushable (sy_led s))" using ex by (auto simp: case_prod_unfold Let_def)
    then show ?thesis by (simp add: acks_step_def silent_ops)
  qed (use ex in \<open>auto simp: acks_step_def on_led_def silent_ops silent_Lane split: if_splits\<close>)
qed

lemma acct_inv_init: "acct_inv (sy_led (sys_init cfg))"
  by (simp add: acct_inv_def sys_init_def New_def final_acks_def)

lemma acct_inv_run:
  assumes "led_run ops (sys_init cfg) = Some s" shows "acct_inv (sy_led s)"
proof -
  have "core_inv s \<and> acct_inv (sy_led s)"
  proof (rule led_run_invariant [where P = "\<lambda>s. core_inv s \<and> acct_inv (sy_led s)", OF _ assms])
    fix op :: "('a, 'b) led_op" and s s'
    assume "core_inv s \<and> acct_inv (sy_led s)" and ex: "led_exec op s = Some s'"
    then show "core_inv s' \<and> acct_inv (sy_led s')"
      using exec_core [OF _ ex] exec_acks [OF _ ex] acct_silent acct_emission
      unfolding acks_step_def by blast
  qed (simp add: core_inv_init acct_inv_init)
  then show ?thesis by simp
qed

lemma fenced_lease:
  "lease l k = lease l' k \<Longrightarrow> map_of (led_lanes l) k = Some st \<Longrightarrow>
   \<exists>st'. map_of (led_lanes l') k = Some st' \<and> ls_fenced st' = ls_fenced st \<and> ls_epoch st' = ls_epoch st"
  by (cases "map_of (led_lanes l') k") (auto simp: lease_def ls_fenced_def)

lemma fenced_step_silent:
  assumes a: "acks_step l l'" and st: "map_of (led_lanes l) k = Some st" and f: "ls_fenced st"
  shows "lane_acks k (led_acks l') = lane_acks k (led_acks l)"
proof -
  consider "silent l l'" | l1 as where "silent l l1" "\<forall>k. lease l1 k = lease l k" "emission l1 l' as"
    using a unfolding acks_step_def by blast
  then show ?thesis
  proof cases
    case (2 l1 as)
    have "lane_acks k as = []"
    proof (rule lane_acks_other, intro ballI notI)
      fix x assume x: "x \<in> set as" "ack_Lane x = k"
      obtain st1 where "map_of (led_lanes l1) (ack_Lane x) = Some st1" "\<not> ls_fenced st1"
        by (rule emission_acked [OF 2(3) x(1)])
      then show False using fenced_lease [of l k l1 st] 2(2) st f x(2) by auto
    qed
    then show ?thesis using 2 by (simp add: emission_def silent_def)
  qed (simp add: silent_def)
qed

end
