(* ===== verification/Canal_LedgerProps.thy ===== *)
theory Canal_LedgerProps
  imports Canal_LedgerAcks "HOL-Library.Code_Target_Numeral"
begin

text \<open>
  The properties of the ledger that its clients rely on, each with a run of the state machine
  that exercises it.
\<close>

section \<open>Sample runs\<close>

definition ex_cfg :: led_config where
  "ex_cfg = \<lparr>cfg_Tenant = ''acme'', cfg_Pipeline = ''p'', cfg_DefaultBudget = 10, cfg_GroupTTL = 0\<rparr>"

definition ex_alloc :: "record_id \<Rightarrow> group_id \<Rightarrow> allocator" where
  "ex_alloc r g = NewAllocator ''acme'' ''p'' ''src'' ''L'' ''s'' r g"

text \<open>A batch of \<open>n\<close> records of group \<open>g\<close> whose ids start at \<open>r\<close>.\<close>

fun ex_fill :: "nat \<Rightarrow> allocator option \<times> (unit, unit) batch \<Rightarrow> (unit, unit) batch" where
  "ex_fill 0 (a, b) = b"
| "ex_fill (Suc n) (a, b) = (let (a', b', _) = Add 0 a b in ex_fill n (a', b'))"

definition ex_batch :: "nat \<Rightarrow> record_id \<Rightarrow> group_id \<Rightarrow> (unit, unit) batch" where
  "ex_batch n r g = (ex_fill n (NewBatch (Some (ex_alloc r g)) 8))
     \<lparr>b_Position := zero_position\<lparr>pos_Safe := True\<rparr>\<rparr>"

definition ex_admit :: "nat \<Rightarrow> record_id \<Rightarrow> group_id \<Rightarrow> (unit, unit) led_op list" where
  "ex_admit n r g = [OpAdmitBegin 0 (ex_batch n r g), OpAdmitTrack 0 ''L'', OpAdmitEnd ''L'']"

definition ex_out :: "disposition \<Rightarrow> record_id \<Rightarrow> unit outcome" where
  "ex_out d r = \<lparr>out_Record = r, out_Disposition = d, out_Node = ''snk'', out_Fault = None\<rparr>"

definition ex_run :: "(unit, unit) led_op list \<Rightarrow> sys option" where
  "ex_run ops = led_run ops (sys_init ex_cfg)"

text \<open>Three batches, the first two settled out of order and committed, the third still open.\<close>

definition ex_ops :: "(unit, unit) led_op list" where
  "ex_ops = OpLane ''L'' OrderingPrefix 10 WhenFullBlock # OpSetEpoch ''L'' 1 #
     ex_admit 2 1 1 @ ex_admit 1 3 2 @ ex_admit 1 4 3 @
     [OpSettle [ex_out Delivered 3], OpSettle [ex_out Delivered 1, ex_out Delivered 2], OpFlushable,
      OpCommitted [(''L'', zero_position\<lparr>pos_Safe := True, pos_Seq := 2\<rparr>)]]"

lemma ex_ops_run:
  "case ex_run ex_ops of None \<Rightarrow> False | Some s \<Rightarrow>
     map ack_Lane (led_acks (sy_led s)) = [''L''] \<and> map ack_Records (led_acks (sy_led s)) = [3] \<and>
     map fst (led_groups (sy_led s)) = [3] \<and>
     map_option ls_ordering (map_of (led_lanes (sy_led s)) ''L'') = Some OrderingPrefix"
  by code_simp

section \<open>Draining and closing groups\<close>

lemma run_led_ok: "led_run ops (sys_init cfg) = Some s \<Longrightarrow> led_ok (sy_led s) (map_of (sy_adm s))"
  using core_inv_run by (simp add: core_inv_def)

lemma drained_lane:
  assumes ok: "led_ok l F" and st: "map_of (led_lanes l) lid = Some st" and n: "F lid = None"
    and g: "\<forall>x \<in> set (led_groups l). g_lane (snd x) \<noteq> lid"
  shows "tr_list (ls_tracker st) = [] \<and> ls_pending st = 0"
proof -
  have G: "groups_of l lid = (\<lambda>_. None)"
  proof
    fix gid show "groups_of l lid gid = None"
      using g by (cases "map_of (led_groups l) gid") (fastforce simp: groups_of_def dest: map_of_SomeD)+
  qed
  have L: "lane_ok lid st (\<lambda>_. None) None" using led_okD [OF ok st] n G by simp
  then have "unresolved (ls_tracker st) = Map.empty" by (simp add: lane_ok_def tickets_def)
  then show ?thesis using L drained by (auto simp: lane_ok_def groups_ok_def)
qed

text \<open>One outcome for a record of an open group moves the group one settlement closer to closing.\<close>

lemma settle_one_progress:
  assumes ok: "led_ok l F" and r: "map_of (led_byRec l) (out_Record ou) = Some gid"
    and g: "map_of (led_groups l) gid = Some g0" and so: "settle_one ou (l, adv) = (l', adv')"
  shows "map_of (led_groups l') gid = (if g_refs g0 \<le> g_settled g0 + 1 then None else Some (group_outcome ou g0))"
    and "map_of (led_byRec l') = (map_of (led_byRec l))(out_Record ou := None)"
    and "g_settled (group_outcome ou g0) = g_settled g0 + 1"
proof -
  obtain st where st: "map_of (led_lanes l) (g_lane g0) = Some st" using ok g unfolding led_ok_def by blast
  have "groups_of l (g_lane g0) gid = Some g0" using g by (simp add: groups_of_def)
  then have "grp_ok (ls_tracker st) g0" using led_okD [OF ok st] by (simp add: lane_ok_def groups_ok_def)
  then show s1: "g_settled (group_outcome ou g0) = g_settled g0 + 1"
    by (simp add: grp_ok_def u32_add_small)
  then show "map_of (led_groups l') gid = (if g_refs g0 \<le> g_settled g0 + 1 then None else Some (group_outcome ou g0))"
    "map_of (led_byRec l') = (map_of (led_byRec l))(out_Record ou := None)"
    using so r g st s1 by (auto simp: settle_one_def Let_def split: prod.splits if_splits)
qed

lemma settle_fold_closes:
  assumes "led_ok l F" and "adv_ok l adv" and "fold settle_one outs (l, adv) = (l', adv')"
    and "\<forall>ou \<in> set outs. map_of (led_byRec l) (out_Record ou) = Some gid"
    and "distinct (map out_Record outs)" and "map_of (led_groups l) gid = Some g"
    and "length outs = g_refs g - g_settled g"
  shows "map_of (led_groups l') gid = None"
  using assms
proof (induction outs arbitrary: l adv g)
  case Nil
  obtain st where st: "map_of (led_lanes l) (g_lane g) = Some st"
    using Nil.prems(1,6) unfolding led_ok_def by blast
  have "groups_of l (g_lane g) gid = Some g" using Nil.prems(6) by (simp add: groups_of_def)
  then have "grp_ok (ls_tracker st) g"
    using led_okD [OF Nil.prems(1) st] by (simp add: lane_ok_def groups_ok_def)
  then show ?case using Nil.prems(7) by (simp add: grp_ok_def)
next
  case (Cons ou outs)
  obtain l1 adv1 where s: "settle_one ou (l, adv) = (l1, adv1)" by fastforce
  note pr = settle_one_progress [OF Cons.prems(1) _ Cons.prems(6) s]
  have byrec: "map_of (led_byRec l) (out_Record ou) = Some gid" using Cons.prems(4) by simp
  note step = settle_one_ok [OF Cons.prems(1) s Cons.prems(2)]
  have fold: "fold settle_one outs (l1, adv1) = (l', adv')" using Cons.prems(3) s by simp
  show ?case
  proof (cases "g_refs g \<le> g_settled g + 1")
    case True
    then have "outs = []" using Cons.prems(7) by (cases outs) auto
    with fold pr(1) [OF byrec] True show ?thesis by simp
  next
    case False
    have "\<forall>o' \<in> set outs. map_of (led_byRec l1) (out_Record o') = Some gid"
      using Cons.prems(4,5) pr(2) [OF byrec] by (auto simp: image_iff)
    moreover have "map_of (led_groups l1) gid = Some (group_outcome ou g)"
      using pr(1) [OF byrec] False by simp
    moreover have "length outs = g_refs (group_outcome ou g) - g_settled (group_outcome ou g)"
      using Cons.prems(7) False pr(3) [OF byrec] by simp
    ultimately show ?thesis using Cons.IH [of l1 adv1] step fold Cons.prems(5) by simp
  qed
qed

lemma settle_one_forgets:
  assumes "\<exists>gid g. map_of (led_byRec (fst s)) (out_Record ou) = Some gid \<and> map_of (led_groups (fst s)) gid = Some g"
  shows "map_of (led_byRec (fst (settle_one ou s))) (out_Record ou) = None"
proof -
  obtain l adv where s: "s = (l, adv)" by (cases s)
  obtain gid g where "map_of (led_byRec l) (out_Record ou) = Some gid" "map_of (led_groups l) gid = Some g"
    using assms s by auto
  then show ?thesis
    by (cases "map_of (led_lanes l) (g_lane (group_outcome ou g))")
      (simp_all add: s settle_one_def Let_def case_prod_unfold)
qed

lemma groups_after_settle [simp]:
  "led_groups (emitDiscrete l) = led_groups l" "led_groups (fold apply_advance adv l) = led_groups l"
proof -
  show "led_groups (emitDiscrete l) = led_groups l" by (simp add: emitDiscrete_def)
  show "led_groups (fold apply_advance adv l) = led_groups l"
    by (induction adv arbitrary: l) (simp_all add: apply_advance_def)
qed

section \<open>Properties\<close>

text \<open>
  C19: In every reachable state of the ledger, lane by lane: the tracker's own invariant holds and
  positions are tracked in increasing sequence; the open groups are exactly the unresolved tickets
  (but for the ticket an admission in flight has just taken); each ticket has as many references
  outstanding as its group has outcomes to come; \<open>pending\<close> counts the open groups.
\<close>

theorem ledger_invariant:
  "led_run ops (sys_init cfg) = Some s \<Longrightarrow> core_inv s"
  by (rule core_inv_run)

theorem ledger_invariant_witness:
  "\<exists>s. ex_run ex_ops = Some s \<and> core_inv s \<and> map fst (led_groups (sy_led s)) = [3]"
proof -
  obtain s where s: "ex_run ex_ops = Some s" "map fst (led_groups (sy_led s)) = [3]"
    using ex_ops_run by (auto split: option.splits)
  with ledger_invariant [of ex_ops ex_cfg s] show ?thesis by (auto simp: ex_run_def)
qed

text \<open>
  C2: No acknowledgement a source has ever been sent for a prefix lane reaches a group that is
  still open: its position was declared safe by the source and its sequence is below the position
  of every group of that lane with a record still unsettled.
\<close>

theorem ack_before_every_open_group:
  assumes "led_run ops (sys_init cfg) = Some s" and "a \<in> set (led_acks (sy_led s))"
    and "map_option ls_ordering (map_of (led_lanes (sy_led s)) (ack_Lane a)) = Some OrderingPrefix"
  shows "pos_Safe (ack_Through a) \<and> before_open (sy_led s) (ack_Lane a) (ack_Through a)"
proof -
  have "pub_ok s" using pub_ok_run [OF assms(1)] by simp
  then have "good (sy_led s) (ack_Lane a) (ack_Through a)"
    using assms(2,3) unfolding pub_ok_def pub_led_def ack_good_def by fastforce
  then show ?thesis using good_before_open [OF run_led_ok [OF assms(1)]] by (auto simp: good_def)
qed

theorem ack_before_every_open_group_witness:
  "\<exists>s a. ex_run ex_ops = Some s \<and> led_acks (sy_led s) = [a] \<and> map fst (led_groups (sy_led s)) = [3] \<and>
     pos_Safe (ack_Through a) \<and> before_open (sy_led s) (ack_Lane a) (ack_Through a)"
proof -
  obtain s where s: "ex_run ex_ops = Some s" "map ack_Lane (led_acks (sy_led s)) = [''L'']"
    "map fst (led_groups (sy_led s)) = [3]"
    "map_option ls_ordering (map_of (led_lanes (sy_led s)) ''L'') = Some OrderingPrefix"
    using ex_ops_run by (auto split: option.splits)
  then obtain a where a: "led_acks (sy_led s) = [a]" "ack_Lane a = ''L''" by auto
  from ack_before_every_open_group [of ex_ops ex_cfg s a] s a show ?thesis by (auto simp: ex_run_def)
qed

text \<open>
  What \<^verbatim>\<open>Flushable\<close> offers for a durable write is safe, precedes every open group of its lane,
  and lies strictly beyond the lane's committed cursor.
\<close>

theorem flushable_before_every_open_group:
  assumes "led_run ops (sys_init cfg) = Some s" and "(lid, p) \<in> set (snd (Flushable (sy_led s)))"
  shows "pos_Safe p \<and> before_open (sy_led s) lid p \<and>
    (\<forall>st c. map_of (led_lanes (sy_led s)) lid = Some st \<longrightarrow> ls_committed st = Some c \<longrightarrow> pos_Seq c < pos_Seq p)"
proof -
  have ok: "led_ok (sy_led s) (map_of (sy_adm s))" by (rule run_led_ok [OF assms(1)])
  have pl: "pub_led (sy_led s)" using pub_ok_run [OF assms(1)] by (simp add: pub_ok_def)
  obtain st where "(lid, st) \<in> set (led_lanes (sy_led s))" and fl: "snd (flush_lane st) = Some p"
    using assms(2) by (auto simp: Flushable_def split: option.splits)
  moreover have "wf_amap (led_lanes (sy_led s))" using ok by (simp add: led_ok_def)
  ultimately have st: "map_of (led_lanes (sy_led s)) lid = Some st" by (simp add: wf_amap_mem)
  have "p \<in> pubs st" using fl by (auto simp: flush_lane_def pubs_def split: option.splits if_splits)
  then have "good (sy_led s) lid p" using pl st unfolding pub_led_def by blast
  moreover have "\<forall>c. ls_committed st = Some c \<longrightarrow> pos_Seq c < pos_Seq p"
    using fl by (auto simp: flush_lane_def split: option.splits if_splits)
  ultimately show ?thesis using good_before_open [OF ok] st by (auto simp: good_def)
qed

theorem flushable_before_every_open_group_witness:
  "\<exists>s p. ex_run (butlast (butlast ex_ops)) = Some s \<and> snd (Flushable (sy_led s)) = [(''L'', p)] \<and> pos_Seq p = 2 \<and>
     pos_Safe p \<and> before_open (sy_led s) ''L'' p"
proof -
  have "case ex_run (butlast (butlast ex_ops)) of None \<Rightarrow> False | Some s \<Rightarrow>
      map (\<lambda>(k, p). (k, pos_Seq p)) (snd (Flushable (sy_led s))) = [(''L'', 2)]" by code_simp
  then obtain s where s: "ex_run (butlast (butlast ex_ops)) = Some s"
    and "map (\<lambda>(k, p). (k, pos_Seq p)) (snd (Flushable (sy_led s))) = [(''L'', 2)]"
    by (auto split: option.splits)
  then obtain p where p: "snd (Flushable (sy_led s)) = [(''L'', p)]" "pos_Seq p = 2" by auto
  from flushable_before_every_open_group [of "butlast (butlast ex_ops)" ex_cfg s "''L''" p] s p
  show ?thesis by (auto simp: ex_run_def)
qed

text \<open>
  The records a lane's acknowledgements report add up to its \<open>recordsCommitted\<close> counter, for as
  long as the ledger is open.
\<close>

theorem records_committed_equals_acknowledged:
  assumes "led_run ops (sys_init cfg) = Some s" and "\<not> led_closed (sy_led s)"
    and "map_of (led_lanes (sy_led s)) lid = Some st"
  shows "ls_recordsCommitted st = sum_list (map ack_Records (lane_acks lid (led_acks (sy_led s))))"
  using acct_invD(3) [OF acct_inv_run [OF assms(1)] assms(3,2)] by (simp add: acked_def)

theorem records_committed_equals_acknowledged_witness:
  "\<exists>s st. ex_run ex_ops = Some s \<and> map_of (led_lanes (sy_led s)) ''L'' = Some st \<and> ls_recordsCommitted st = 3"
proof -
  have "case ex_run ex_ops of None \<Rightarrow> False | Some s \<Rightarrow> \<not> led_closed (sy_led s) \<and>
      map_of (led_lanes (sy_led s)) ''L'' \<noteq> None \<and>
      sum_list (map ack_Records (lane_acks ''L'' (led_acks (sy_led s)))) = 3" by code_simp
  then obtain s st where s: "ex_run ex_ops = Some s" "\<not> led_closed (sy_led s)"
    "map_of (led_lanes (sy_led s)) ''L'' = Some st"
    "sum_list (map ack_Records (lane_acks ''L'' (led_acks (sy_led s)))) = 3"
    by (auto split: option.splits)
  from records_committed_equals_acknowledged [of ex_ops ex_cfg s "''L''" st] s show ?thesis by (auto simp: ex_run_def)
qed

text \<open>
  The acknowledgement that carries \<^verbatim>\<open>LaneFinished\<close> is the last one of its lane.
\<close>

theorem lane_finished_ack_is_final:
  assumes "led_run ops (sys_init cfg) = Some s" and "led_acks (sy_led s) = xs @ a # ys"
    and "ack_LaneFinished a"
  shows "lane_acks (ack_Lane a) ys = []"
  using acct_invD(1) [OF acct_inv_run [OF assms(1)]] assms(2,3)
  by (auto simp: final_acks_def sorted_wrt_append intro!: lane_acks_other)

text \<open>A lane finished before its second batch is flushed, then flushed once more.\<close>

definition ex_finish :: "(unit, unit) led_op list" where
  "ex_finish = OpLane ''L'' OrderingPrefix 10 WhenFullBlock # OpSetEpoch ''L'' 1 #
     ex_admit 2 1 1 @ ex_admit 1 3 2 @ [OpFinishLane ''L'', OpSettle [ex_out Delivered 1, ex_out Delivered 2],
       OpFlushable, OpCommitted [(''L'', zero_position\<lparr>pos_Safe := True, pos_Seq := 1\<rparr>)],
       OpSettle [ex_out Abandoned 3], OpFlushable,
       OpCommitted [(''L'', zero_position\<lparr>pos_Safe := True, pos_Seq := 2\<rparr>)]] @
     ex_admit 1 4 3 @ [OpSettle [ex_out Delivered 4], OpFlushable,
       OpCommitted [(''L'', zero_position\<lparr>pos_Safe := True, pos_Seq := 3\<rparr>)]]"

theorem lane_finished_ack_is_final_witness:
  "\<exists>s a b. ex_run ex_finish = Some s \<and> led_acks (sy_led s) = [a, b] \<and> \<not> ack_LaneFinished a \<and> ack_LaneFinished b \<and>
     lane_acks (ack_Lane b) [] = []"
proof -
  have "case ex_run ex_finish of None \<Rightarrow> False | Some s \<Rightarrow>
      map ack_LaneFinished (led_acks (sy_led s)) = [False, True]" by code_simp
  then obtain s where s: "ex_run ex_finish = Some s" "map ack_LaneFinished (led_acks (sy_led s)) = [False, True]"
    by (auto split: option.splits)
  then obtain a b where ab: "led_acks (sy_led s) = [a, b]" "\<not> ack_LaneFinished a" "ack_LaneFinished b"
    by (auto simp: map_eq_Cons_conv)
  have "lane_acks (ack_Lane b) [] = []"
    by (rule lane_finished_ack_is_final [of ex_finish ex_cfg s "[a]" b "[]"])
      (use s ab in \<open>simp_all add: ex_run_def\<close>)
  with s ab show ?thesis by blast
qed

text \<open>
  C21: Settlement is live: once an outcome has arrived for as many distinct records of an open group
  as it has references outstanding, in any order and with any dispositions, the group is closed.
\<close>

theorem settling_every_record_closes_the_group:
  assumes "led_run ops (sys_init cfg) = Some s" and "map_of (led_groups (sy_led s)) gid = Some g"
    and "\<forall>ou \<in> set outs. map_of (led_byRec (sy_led s)) (out_Record ou) = Some gid"
    and "distinct (map out_Record outs)" and "length outs = g_refs g - g_settled g"
  shows "map_of (led_groups (Settle outs (sy_led s))) gid = None"
proof -
  obtain l1 adv where f: "fold settle_one outs (sy_led s, []) = (l1, adv)" by fastforce
  have "map_of (led_groups l1) gid = None"
    by (rule settle_fold_closes [OF run_led_ok [OF assms(1)] _ f assms(3,4,2,5)]) (simp add: adv_ok_def)
  then show ?thesis by (simp add: Settle_def f)
qed

definition ex_two_open :: "(unit, unit) led_op list" where
  "ex_two_open = take 8 ex_ops"

theorem settling_every_record_closes_the_group_witness:
  "\<exists>s. ex_run ex_two_open = Some s \<and> map_of (led_groups (sy_led s)) 1 \<noteq> None \<and>
     map_of (led_groups (Settle [ex_out Abandoned 2, ex_out Delivered 1] (sy_led s))) 1 = None"
proof -
  have "case ex_run ex_two_open of None \<Rightarrow> False | Some s \<Rightarrow>
      map_option (\<lambda>g. (g_refs g, g_settled g)) (map_of (led_groups (sy_led s)) 1) = Some (2, 0) \<and>
      map_of (led_byRec (sy_led s)) 1 = Some 1 \<and> map_of (led_byRec (sy_led s)) 2 = Some 1" by code_simp
  then obtain s g where s: "ex_run ex_two_open = Some s" "map_of (led_groups (sy_led s)) 1 = Some g"
    "g_refs g = 2" "g_settled g = 0" "map_of (led_byRec (sy_led s)) 1 = Some 1" "map_of (led_byRec (sy_led s)) 2 = Some 1"
    by (auto split: option.splits)
  have "map_of (led_groups (Settle [ex_out Abandoned 2, ex_out Delivered 1] (sy_led s))) 1 = None"
    by (rule settling_every_record_closes_the_group [of ex_two_open ex_cfg s 1 g])
      (use s in \<open>simp_all add: ex_run_def ex_out_def\<close>)
  with s show ?thesis by auto
qed

text \<open>
  Admission is live: when a lane has no open group and no admission in flight its tracker is
  empty, so the next batch is admitted at once whatever its weight and budget, unless the tracker
  was closed.
\<close>

theorem drained_lane_admits:
  assumes "led_run ops (sys_init cfg) = Some s" and "map_of (led_lanes (sy_led s)) lid = Some st"
    and "map_of (sy_adm s) lid = None" and "list_all (\<lambda>x. g_lane (snd x) \<noteq> lid) (led_groups (sy_led s))"
    and "\<not> tr_closed (ls_tracker st)"
  shows "snd (TryTrack now p w r (ls_tracker st)) = Some (tr_fresh (ls_tracker st))"
proof -
  have "tr_list (ls_tracker st) = []"
    using drained_lane [OF run_led_ok [OF assms(1)] assms(2,3)] assms(4) by (simp add: list_all_iff)
  moreover have "tracker_inv (ls_tracker st)"
    using led_okD [OF run_led_ok [OF assms(1)] assms(2)] by (simp add: lane_ok_def seq_ok_def)
  ultimately have "has_room w (ls_tracker st)"
    by (simp add: has_room_def tracker_inv_def pre_inv_def)
  then show ?thesis using assms(5) by (simp add: TryTrack_def appendLocked_def)
qed

theorem drained_lane_admits_witness:
  "\<exists>s st. ex_run ex_finish = Some s \<and> map_of (led_lanes (sy_led s)) ''L'' = Some st \<and>
     snd (TryTrack 0 zero_position 1000 1000 (ls_tracker st)) = Some (tr_fresh (ls_tracker st))"
proof -
  have "case ex_run ex_finish of None \<Rightarrow> False | Some s \<Rightarrow> sy_adm s = [] \<and> led_groups (sy_led s) = [] \<and>
      map_option (tr_closed \<circ> ls_tracker) (map_of (led_lanes (sy_led s)) ''L'') = Some False" by code_simp
  then obtain s st where s: "ex_run ex_finish = Some s" "sy_adm s = []" "led_groups (sy_led s) = []"
    "map_of (led_lanes (sy_led s)) ''L'' = Some st" "\<not> tr_closed (ls_tracker st)"
    by (auto split: option.splits)
  from drained_lane_admits [of ex_finish ex_cfg s "''L''" st 0 zero_position 1000 1000] s
  show ?thesis by (auto simp: ex_run_def)
qed

text \<open>
  A second outcome for the same record changes nothing: neither the group, nor the tracker, nor
  any counter of the lane.
\<close>

theorem settling_twice_is_settling_once:
  "out_Record ou' = out_Record ou \<Longrightarrow> settle_one ou' (settle_one ou s) = settle_one ou s"
proof (cases "\<exists>gid g. map_of (led_byRec (fst s)) (out_Record ou) = Some gid \<and> map_of (led_groups (fst s)) gid = Some g")
  case True
  assume r: "out_Record ou' = out_Record ou"
  have "map_of (led_byRec (fst (settle_one ou s))) (out_Record ou) = None"
    by (rule settle_one_forgets [OF True])
  then show ?thesis using r by (cases "settle_one ou s") (simp add: settle_one_def)
next
  case False
  assume r: "out_Record ou' = out_Record ou"
  have "settle_one ou s = s" "settle_one ou' s = s"
    using False r by (cases s; auto simp: settle_one_def split: option.splits)+
  then show ?thesis by simp
qed

theorem settling_twice_is_settling_once_witness:
  "\<exists>s. ex_run ex_two_open = Some s \<and> map_of (led_byRec (sy_led s)) 1 = Some 1 \<and>
     settle_one (ex_out Abandoned 1) (settle_one (ex_out Delivered 1) (sy_led s, [])) =
       settle_one (ex_out Delivered 1) (sy_led s, [])"
proof -
  have "case ex_run ex_two_open of None \<Rightarrow> False | Some s \<Rightarrow> map_of (led_byRec (sy_led s)) 1 = Some 1" by code_simp
  then obtain s where "ex_run ex_two_open = Some s" "map_of (led_byRec (sy_led s)) 1 = Some 1"
    by (auto split: option.splits)
  with settling_twice_is_settling_once [of "ex_out Abandoned 1" "ex_out Delivered 1" "(sy_led s, [])"]
  show ?thesis by (auto simp: ex_out_def)
qed

section \<open>Behaviours that differ from the documentation\<close>

text \<open>
  A batch read under a lost lease is still in flight when the lane is claimed again and a second
  batch is read and settled under the new lease. When the first one settles too, the tracker
  advances through both positions in one move, and \<^verbatim>\<open>Settle\<close> discards that advance because the group
  it settled was fenced.
\<close>

definition ex_swallow :: "(unit, unit) led_op list" where
  "ex_swallow = OpLane ''L'' OrderingPrefix 10 WhenFullBlock # OpSetEpoch ''L'' 1 # ex_admit 1 1 1 @
     [OpRevoke ''L'', OpSetEpoch ''L'' 2] @ ex_admit 1 2 2 @
     [OpSettle [ex_out Delivered 2], OpSettle [ex_out Delivered 1]]"

text \<open>
  After that run nothing is in flight and the tracker has resolved the position of the second
  batch, read and delivered under the current lease, yet the ledger offers nothing to flush: the
  position is lost until the lane produces another one.
\<close>

theorem fenced_settlement_swallows_current_position:
  "case ex_run ex_swallow of None \<Rightarrow> False | Some s \<Rightarrow>
     led_groups (sy_led s) = [] \<and>
     map_option (\<lambda>st. map_option pos_Seq (tr_resolved (ls_tracker st))) (map_of (led_lanes (sy_led s)) ''L'') =
       Some (Some 2) \<and>
     map_option ls_fenced (map_of (led_lanes (sy_led s)) ''L'') = Some False \<and>
     snd (Flushable (sy_led s)) = []"
  by code_simp

text \<open>
  An idle poll's empty batch passes the fence check, the lane is revoked, and the admission then
  publishes the position it tracked, without checking the fence again.
\<close>

definition ex_late_publish :: "(unit, unit) led_op list" where
  "ex_late_publish = [OpLane ''L'' OrderingPrefix 10 WhenFullBlock, OpSetEpoch ''L'' 1,
     OpAdmitBegin 0 (ex_batch 0 1 1), OpAdmitTrack 0 ''L'', OpRevoke ''L'', OpAdmitEnd ''L'',
     OpSetEpoch ''L'' 2]"

text \<open>
  When the lane is claimed again under epoch two, before anything is read under it, the ledger
  offers for flushing the position that was read under the lease that was lost.
\<close>

theorem revoked_lease_position_is_offered:
  "case ex_run ex_late_publish of None \<Rightarrow> False | Some s \<Rightarrow>
     map (\<lambda>(k, p). (k, pos_Seq p)) (snd (Flushable (sy_led s))) = [(''L'', 1)] \<and>
     map_option (\<lambda>st. (ls_epoch st, ls_fencedThrough st)) (map_of (led_lanes (sy_led s)) ''L'') = Some (2, 1)"
  by code_simp

definition ex_mixed :: "(unit, unit) led_op list" where
  "ex_mixed = OpLane ''L'' OrderingPrefix 10 WhenFullBlock # ex_admit 2 1 1 @ ex_admit 2 3 2 @
     [OpSettle [ex_out Delivered 1, ex_out Abandoned 2]]"

text \<open>
  The tracker's counters attribute a whole group to its last outcome: of two groups of two
  records with one record delivered and one abandoned each, settled in opposite orders, the first
  counts two abandoned records and the second none, although one of each was abandoned (and the
  acknowledgement accumulator does count two).
\<close>

theorem group_counted_by_its_last_outcome:
  "map_option (\<lambda>s. map_option (\<lambda>st. (Counts (ls_tracker st), ls_ackAbandoned st)) (map_of (led_lanes (sy_led s)) ''L''))
     (ex_run ex_mixed) = Some (Some ((4, 0, 2), 1)) \<and>
   map_option (\<lambda>s. map_option (\<lambda>st. (Counts (ls_tracker st), ls_ackAbandoned st)) (map_of (led_lanes (sy_led s)) ''L''))
     (ex_run (ex_mixed @ [OpSettle [ex_out Abandoned 3, ex_out Delivered 4]])) = Some (Some ((4, 2, 2), 2))"
  by code_simp

end
