(* ===== verification/Canal_Fault.thy ===== *)
theory Canal_Fault
  imports Canal_Prelude
begin

text \<open>
  The fault vocabulary and the retry policy: \<^verbatim>\<open>pkg/fault\<close> (class.go, op.go, fault.go, retry.go).

  Errors are a tree. A plain error carries its text, a wrapped one (\<^verbatim>\<open>fmt.Errorf\<close> with a \<^verbatim>\<open>%w\<close> verb)
  its rendered text and its cause, a joined one (\<^verbatim>\<open>errors.Join\<close>) its list, and a \<^verbatim>\<open>*fault.Fault\<close> its
  fields. \<^verbatim>\<open>errors.As\<close> descends into joined errors and \<^verbatim>\<open>errors.Unwrap\<close> does not, as the standard
  library documents. A duration is an integer number of nanoseconds. A \<^verbatim>\<open>float64\<close> is a finite
  rational or one of the three special values, with exact arithmetic on the finite ones: rounding
  does not matter to what is proved here, since the only products are compared with a ceiling.
  A random draw is an integer argument reduced into the interval the generator is asked for.
\<close>

section \<open>Classes and operations\<close>

datatype fault_class = Unclassified | TransientUpstream | TransientInternal | Throttled | Indeterminate
  | PermanentUpstream | PermanentInternal | PermanentMapping | PermanentContract
  | DuplicateIdempotent | ClockSkew | Fenced | NotConnected | EndOfInput

datatype blame = BlameUnknown | BlameConfig | BlameUpstream | BlameCanal

datatype fault_op = FOpUnknown | FOpOpen | FOpRead | FOpDecompress | FOpDeframe | FOpDecode | FOpTransform
  | FOpEncode | FOpFrame | FOpCompress | FOpWrite | FOpFlush | FOpPrepare | FOpCommitSink
  | FOpCommitSource | FOpPersist | FOpBuffer | FOpDiscover | FOpValidate | FOpSchemaApply | FOpClose

fun class_String :: "fault_class \<Rightarrow> string" where
  "class_String Unclassified = ''unclassified''"
| "class_String TransientUpstream = ''transient_upstream''"
| "class_String TransientInternal = ''transient_internal''"
| "class_String Throttled = ''throttled''"
| "class_String Indeterminate = ''indeterminate''"
| "class_String PermanentUpstream = ''permanent_upstream''"
| "class_String PermanentInternal = ''permanent_internal''"
| "class_String PermanentMapping = ''permanent_mapping''"
| "class_String PermanentContract = ''permanent_contract''"
| "class_String DuplicateIdempotent = ''duplicate_idempotent''"
| "class_String ClockSkew = ''clock_skew''"
| "class_String Fenced = ''fenced''"
| "class_String NotConnected = ''not_connected''"
| "class_String EndOfInput = ''end_of_input''"

fun op_String :: "fault_op \<Rightarrow> string" where
  "op_String FOpUnknown = ''unknown''"
| "op_String FOpOpen = ''open''"
| "op_String FOpRead = ''read''"
| "op_String FOpDecompress = ''decompress''"
| "op_String FOpDeframe = ''deframe''"
| "op_String FOpDecode = ''decode''"
| "op_String FOpTransform = ''transform''"
| "op_String FOpEncode = ''encode''"
| "op_String FOpFrame = ''frame''"
| "op_String FOpCompress = ''compress''"
| "op_String FOpWrite = ''write''"
| "op_String FOpFlush = ''flush''"
| "op_String FOpPrepare = ''prepare''"
| "op_String FOpCommitSink = ''commit_sink''"
| "op_String FOpCommitSource = ''commit_source''"
| "op_String FOpPersist = ''persist''"
| "op_String FOpBuffer = ''buffer''"
| "op_String FOpDiscover = ''discover''"
| "op_String FOpValidate = ''validate''"
| "op_String FOpSchemaApply = ''schema_apply''"
| "op_String FOpClose = ''close''"

definition Blames :: "fault_class \<Rightarrow> blame" where
  "Blames c = (case c of
      TransientUpstream \<Rightarrow> BlameUpstream | PermanentUpstream \<Rightarrow> BlameUpstream
    | DuplicateIdempotent \<Rightarrow> BlameUpstream | Throttled \<Rightarrow> BlameUpstream
    | PermanentMapping \<Rightarrow> BlameConfig | PermanentContract \<Rightarrow> BlameConfig | ClockSkew \<Rightarrow> BlameConfig
    | TransientInternal \<Rightarrow> BlameCanal | PermanentInternal \<Rightarrow> BlameCanal | Fenced \<Rightarrow> BlameCanal
    | Unclassified \<Rightarrow> BlameCanal
    | Indeterminate \<Rightarrow> BlameUpstream | NotConnected \<Rightarrow> BlameUpstream | EndOfInput \<Rightarrow> BlameUpstream)"

definition class_Terminal :: "fault_class \<Rightarrow> bool" where
  "class_Terminal c \<longleftrightarrow> c \<in> {PermanentUpstream, PermanentInternal, PermanentMapping, PermanentContract}"

definition Counted :: "fault_class \<Rightarrow> bool" where
  "Counted c \<longleftrightarrow> c \<notin> {Throttled, NotConnected, EndOfInput}"

section \<open>Errors and faults\<close>

datatype err =
    Plain string
  | Wrap string err
  | Join "err list"
  | Fault (f_Class: fault_class) (f_Op: fault_op) (f_Stream: stream_name) (f_Lane: lane_id) (f_Node: node_id)
      (f_Record: record_id) (f_RetryAfter: duration) (f_User: string) (f_Dev: string) (f_Err: "err option")

fun is_fault :: "err \<Rightarrow> bool" where
  "is_fault (Fault _ _ _ _ _ _ _ _ _ _) = True"
| "is_fault _ = False"

definition fault_New :: "fault_class \<Rightarrow> fault_op \<Rightarrow> err option \<Rightarrow> err" where
  "fault_New c op e = Fault c op [] [] [] 0 0 [] [] e"

definition Transient :: "fault_op \<Rightarrow> err option \<Rightarrow> err" where "Transient = fault_New TransientUpstream"
definition Internal :: "fault_op \<Rightarrow> err option \<Rightarrow> err" where "Internal = fault_New TransientInternal"
definition Unknown :: "fault_op \<Rightarrow> err option \<Rightarrow> err" where "Unknown = fault_New Indeterminate"
definition Permanent :: "fault_op \<Rightarrow> err option \<Rightarrow> err" where "Permanent = fault_New PermanentUpstream"
definition Mapping :: "fault_op \<Rightarrow> err option \<Rightarrow> err" where "Mapping = fault_New PermanentMapping"
definition Contract :: "fault_op \<Rightarrow> err option \<Rightarrow> err" where "Contract = fault_New PermanentContract"
definition Duplicate_fault :: "fault_op \<Rightarrow> err option \<Rightarrow> err" where
  "Duplicate_fault = fault_New DuplicateIdempotent"
definition Bug :: "fault_op \<Rightarrow> err option \<Rightarrow> err" where "Bug = fault_New PermanentInternal"

definition Throttle :: "fault_op \<Rightarrow> duration \<Rightarrow> err option \<Rightarrow> err" where
  "Throttle op after e = Fault Throttled op [] [] [] 0 after [] [] e"

definition ErrNotConnected :: err where
  "ErrNotConnected = fault_New NotConnected FOpUnknown (Some (Plain ''component is not connected''))"
definition ErrEndOfInput :: err where
  "ErrEndOfInput = fault_New EndOfInput FOpRead (Some (Plain ''no more input''))"
definition ErrFenced :: err where
  "ErrFenced = fault_New Fenced FOpPersist (Some (Plain ''lease epoch is stale for this lane''))"
definition ErrDeclined :: err where
  "ErrDeclined = fault_New PermanentContract FOpValidate (Some (Plain ''capability declined for this configuration''))"

text \<open>\<^verbatim>\<open>Error\<close>: the text of an error; the list of a joined one is separated by newlines.\<close>

fun lines_of :: "string list \<Rightarrow> string" where
  "lines_of [] = []"
| "lines_of [s] = s"
| "lines_of (s # ss) = s @ CHR 0x0A # lines_of ss"

fun fault_Error :: "err \<Rightarrow> string" where
  "fault_Error (Plain s) = s"
| "fault_Error (Wrap s _) = s"
| "fault_Error (Join es) = lines_of (map fault_Error es)"
| "fault_Error (Fault c op _ _ _ _ _ user dev e) =
     class_String c @ ''/'' @ op_String op @
     (if user \<noteq> [] then '': '' @ user else if dev \<noteq> [] then '': '' @ dev else []) @
     (case e of None \<Rightarrow> [] | Some e' \<Rightarrow> '': '' @ fault_Error e')"

text \<open>The fault \<^verbatim>\<open>errors.As\<close> finds: the first one in a depth-first walk of the tree.\<close>

fun fault_As :: "err \<Rightarrow> err option" and fault_As_list :: "err list \<Rightarrow> err option" where
  "fault_As (Plain _) = None"
| "fault_As (Wrap _ e) = fault_As e"
| "fault_As (Join es) = fault_As_list es"
| "fault_As (Fault c op s l n r a u d e) = Some (Fault c op s l n r a u d e)"
| "fault_As_list [] = None"
| "fault_As_list (e # es) = (case fault_As e of Some f \<Rightarrow> Some f | None \<Rightarrow> fault_As_list es)"

definition ClassOf :: "err \<Rightarrow> fault_class" where
  "ClassOf e = (case fault_As e of Some f \<Rightarrow> f_Class f | None \<Rightarrow> Unclassified)"

text \<open>\<^verbatim>\<open>errors.Unwrap\<close> of a joined error is nil, so this walk ends there.\<close>

fun RetryAfterOf :: "err \<Rightarrow> duration option" where
  "RetryAfterOf (Plain _) = None"
| "RetryAfterOf (Wrap _ e) = RetryAfterOf e"
| "RetryAfterOf (Join _) = None"
| "RetryAfterOf (Fault _ _ _ _ _ _ after _ _ e) =
     (if after > 0 then Some after else case e of None \<Rightarrow> None | Some e' \<Rightarrow> RetryAfterOf e')"

definition fault_Is :: "err \<Rightarrow> err \<Rightarrow> bool" where
  "fault_Is f t \<longleftrightarrow> is_fault t \<and> f_Class t = f_Class f \<and>
     (f_Op t = FOpUnknown \<or> f_Op t = f_Op f) \<and> (f_Lane t = [] \<or> f_Lane t = f_Lane f) \<and>
     (f_Node t = [] \<or> f_Node t = f_Node f) \<and> (f_Record t = 0 \<or> f_Record t = f_Record f)"

text \<open>
  \<^verbatim>\<open>errors.Is\<close> against a fault: identity of pointers is equality of values here, and it adds nothing,
  since a fault matches itself.
\<close>

fun errors_Is :: "err \<Rightarrow> err \<Rightarrow> bool" where
  "errors_Is (Plain s) t = (t = Plain s)"
| "errors_Is (Wrap s e) t = (t = Wrap s e \<or> errors_Is e t)"
| "errors_Is (Join es) t = (t = Join es \<or> list_ex (\<lambda>e. errors_Is e t) es)"
| "errors_Is (Fault c op s l n r a u d e) t =
     (fault_Is (Fault c op s l n r a u d e) t \<or> (case e of None \<Rightarrow> False | Some e' \<Rightarrow> errors_Is e' t))"

definition asFault :: "err \<Rightarrow> err" where
  "asFault e = (case fault_As e of Some f \<Rightarrow> f | None \<Rightarrow> Bug FOpWrite (Some e))"

section \<open>The retry policy\<close>

datatype float64 = Fin rat | PInf | NInf | NaN

datatype retry_terminal = TerminalInvalid | TerminalDeadLetter | TerminalDrop | TerminalStop

datatype indeterminacy = IndeterminateStall | IndeterminateRetry | IndeterminateDeadLetter

record backoff =
  bo_Initial :: duration
  bo_Max :: duration
  bo_MaxElapsed :: duration
  bo_Multiplier :: float64

record retry_policy =
  rp_MaxAttempts :: int
  rp_Backoff :: backoff
  rp_Terminal :: retry_terminal
  rp_OnIndeterminate :: indeterminacy

definition DefaultBackoff :: backoff where
  "DefaultBackoff = \<lparr>bo_Initial = 100 * millisecond, bo_Max = 5 * second, bo_MaxElapsed = 0, bo_Multiplier = Fin 2\<rparr>"

definition DefaultRetry :: retry_policy where
  "DefaultRetry = \<lparr>rp_MaxAttempts = 4, rp_Backoff = DefaultBackoff, rp_Terminal = TerminalStop,
     rp_OnIndeterminate = IndeterminateStall\<rparr>"

definition unboundedCeiling :: duration where
  "unboundedCeiling = 3600 * second"

text \<open>Comparisons with a float: every one is false on \<^verbatim>\<open>NaN\<close>.\<close>

fun f64_le :: "float64 \<Rightarrow> float64 \<Rightarrow> bool" where
  "f64_le NaN _ = False"
| "f64_le _ NaN = False"
| "f64_le NInf _ = True"
| "f64_le _ PInf = True"
| "f64_le (Fin a) (Fin b) = (a \<le> b)"
| "f64_le _ _ = False"

definition f64_lt :: "float64 \<Rightarrow> float64 \<Rightarrow> bool" where
  "f64_lt a b \<longleftrightarrow> f64_le a b \<and> \<not> f64_le b a"

text \<open>\<^verbatim>\<open>math.Pow\<close> with an exponent that is a natural number and a base that is at least one.\<close>

definition f64_pow :: "float64 \<Rightarrow> nat \<Rightarrow> float64" where
  "f64_pow x n = (if n = 0 then Fin 1 else case x of Fin m \<Rightarrow> Fin (m ^ n) | _ \<Rightarrow> x)"

fun f64_scale :: "int \<Rightarrow> float64 \<Rightarrow> float64" where
  "f64_scale i (Fin m) = Fin (of_int i * m)"
| "f64_scale i PInf = (if i = 0 then NaN else if i > 0 then PInf else NInf)"
| "f64_scale i NInf = (if i = 0 then NaN else if i > 0 then NInf else PInf)"
| "f64_scale i NaN = NaN"

text \<open>\<^verbatim>\<open>int64(x)\<close> truncates towards zero; the code converts only finite values.\<close>

fun f64_trunc :: "float64 \<Rightarrow> int" where
  "f64_trunc (Fin m) = (if m \<ge> 0 then \<lfloor>m\<rfloor> else \<lceil>m\<rceil>)"
| "f64_trunc _ = 0"

text \<open>\<^verbatim>\<open>rand.Int64N\<close> panics, here \<open>None\<close>, unless its argument is positive.\<close>

definition Int64N :: "int \<Rightarrow> int \<Rightarrow> int option" where
  "Int64N u n = (if n \<le> 0 then None else Some (u mod n))"

datatype retry_invalid = MaxAttemptsTooSmall | TerminalRequired | InitialNotPositive | MaxBelowInitial
  | MultiplierBelowOne

definition Validate :: "retry_policy \<Rightarrow> retry_invalid list" where
  "Validate p =
     (if rp_MaxAttempts p < 1 then [MaxAttemptsTooSmall] else []) @
     (if rp_Terminal p = TerminalInvalid then [TerminalRequired] else []) @
     (if rp_MaxAttempts p > 1 then
        (if bo_Initial (rp_Backoff p) \<le> 0 then [InitialNotPositive] else []) @
        (if bo_Max (rp_Backoff p) < bo_Initial (rp_Backoff p) then [MaxBelowInitial] else []) @
        (if f64_lt (bo_Multiplier (rp_Backoff p)) (Fin 1) then [MultiplierBelowOne] else [])
      else [])"

definition backoff_ceiling :: "backoff \<Rightarrow> duration" where
  "backoff_ceiling b = (if bo_Max b \<le> 0 then unboundedCeiling else bo_Max b)"

definition backoff_exp :: "backoff \<Rightarrow> int \<Rightarrow> float64" where
  "backoff_exp b attempt =
     (let m = (if \<not> f64_le (Fin 1) (bo_Multiplier b) then Fin 1 else bo_Multiplier b);
          e = f64_scale (bo_Initial b) (f64_pow m (nat (attempt - 1)));
          ceiling = Fin (of_int (backoff_ceiling b))
      in if \<not> f64_le e ceiling then ceiling else e)"

text \<open>\<^verbatim>\<open>Next\<close>: \<open>None\<close> is a panic of the generator; \<open>u\<close> is its draw.\<close>

definition Next :: "int \<Rightarrow> retry_policy \<Rightarrow> int \<Rightarrow> (duration \<times> bool) option" where
  "Next u p attempt =
     (if attempt < 1 \<or> attempt \<ge> rp_MaxAttempts p then Some (0, False)
      else let e = backoff_exp (rp_Backoff p) attempt in
        if f64_le e (Fin 0) then Some (0, True)
        else map_option (\<lambda>d. (d + 1, True)) (Int64N u (f64_trunc e)))"

section \<open>Lemmas\<close>

lemma ClassOf_Fault [simp]: "ClassOf (Fault c op s l n r a u d e) = c"
  by (simp add: ClassOf_def)

lemma ClassOf_Wrap [simp]: "ClassOf (Wrap s e) = ClassOf e"
  by (simp add: ClassOf_def)

lemma ClassOf_Plain [simp]: "ClassOf (Plain s) = Unclassified"
  by (simp add: ClassOf_def)

lemma ClassOf_New [simp]: "ClassOf (fault_New c op e) = c"
  by (simp add: fault_New_def)

lemma fault_As_is_fault:
  "fault_As e = Some f \<Longrightarrow> is_fault f"
  "fault_As_list es = Some f \<Longrightarrow> is_fault f"
  by (induction e and es rule: fault_As_fault_As_list.induct) (auto split: option.splits)

lemma unboundedCeiling_pos: "unboundedCeiling > 0"
  by (simp add: unboundedCeiling_def second_def millisecond_def)

lemma backoff_ceiling_pos [simp]: "backoff_ceiling b > 0"
  using unboundedCeiling_pos by (simp add: backoff_ceiling_def)

lemma f64_le_Fin_iff: "f64_le x (Fin b) \<longleftrightarrow> x = NInf \<or> (\<exists>a. x = Fin a \<and> a \<le> b)"
  by (cases x) simp_all

lemma pow_ge_one: "f64_le (Fin 1) m \<Longrightarrow> f64_pow m n = PInf \<or> (\<exists>q \<ge> 1. f64_pow m n = Fin q)"
  by (cases m) (auto simp: f64_pow_def one_le_power)

text \<open>The exponential is either not positive or a finite number of at least one nanosecond.\<close>

lemma backoff_exp_cases:
  "f64_le (backoff_exp b k) (Fin 0) \<or>
   (\<exists>q. backoff_exp b k = Fin q \<and> 1 \<le> q \<and> q \<le> of_int (backoff_ceiling b))"
proof -
  define m where "m = (if \<not> f64_le (Fin 1) (bo_Multiplier b) then Fin 1 else bo_Multiplier b)"
  have m: "f64_le (Fin 1) m" by (simp add: m_def)
  define e where "e = f64_scale (bo_Initial b) (f64_pow m (nat (k - 1)))"
  have eq: "backoff_exp b k = (if \<not> f64_le e (Fin (of_int (backoff_ceiling b))) then Fin (of_int (backoff_ceiling b)) else e)"
    by (simp add: backoff_exp_def m_def e_def Let_def)
  have c: "(1::rat) \<le> of_int (backoff_ceiling b)"
    using backoff_ceiling_pos [of b] by linarith
  show ?thesis
  proof (cases "f64_le e (Fin (of_int (backoff_ceiling b)))")
    case False
    then show ?thesis using c by (simp add: eq)
  next
    case True
    then consider "e = NInf" | a where "e = Fin a" "a \<le> of_int (backoff_ceiling b)"
      by (auto simp: f64_le_Fin_iff)
    then show ?thesis
    proof cases
      case 1
      then show ?thesis using True by (simp add: eq)
    next
      case 2
      have "a \<le> 0 \<or> 1 \<le> a"
      proof (cases "bo_Initial b \<le> 0")
        case True
        then show ?thesis
          using pow_ge_one [OF m, of "nat (k - 1)"] 2(1) by (auto simp: e_def mult_nonpos_nonneg split: if_splits)
      next
        case False
        then have i: "(1::rat) \<le> of_int (bo_Initial b)" by linarith
        show ?thesis
          using pow_ge_one [OF m, of "nat (k - 1)"] 2(1) mult_mono [OF i, of 1] False
          by (auto simp: e_def split: if_splits)
      qed
      then show ?thesis using 2 True by (auto simp: eq)
    qed
  qed
qed

lemma Next_cases:
  obtains "Next u p k = Some (0, False)" "k < 1 \<or> k \<ge> rp_MaxAttempts p"
  | d where "Next u p k = Some (d, True)" "0 \<le> d" "d \<le> backoff_ceiling (rp_Backoff p)"
      "1 \<le> k" "k < rp_MaxAttempts p"
proof (cases "k < 1 \<or> k \<ge> rp_MaxAttempts p")
  case True
  then show thesis by (intro that(1)) (auto simp: Next_def)
next
  case False
  let ?e = "backoff_exp (rp_Backoff p) k"
  have "\<exists>d. Next u p k = Some (d, True) \<and> 0 \<le> d \<and> d \<le> backoff_ceiling (rp_Backoff p)"
  proof (cases "f64_le ?e (Fin 0)")
    case True
    have "0 \<le> backoff_ceiling (rp_Backoff p)" by (simp add: order_less_imp_le)
    then show ?thesis using False True by (auto simp: Next_def Let_def)
  next
    case nz: False
    then obtain q where q: "?e = Fin q" "1 \<le> q" "q \<le> of_int (backoff_ceiling (rp_Backoff p))"
      using backoff_exp_cases [of "rp_Backoff p" k] by auto
    have t: "f64_trunc ?e = \<lfloor>q\<rfloor>" using q by simp
    have "1 \<le> \<lfloor>q\<rfloor>" using q(2) by (simp add: le_floor_iff)
    moreover have "\<lfloor>q\<rfloor> \<le> backoff_ceiling (rp_Backoff p)" using q(3) by (simp add: floor_le_iff)
    ultimately have "0 \<le> u mod \<lfloor>q\<rfloor> + 1 \<and> u mod \<lfloor>q\<rfloor> + 1 \<le> backoff_ceiling (rp_Backoff p)"
      using pos_mod_bound [of "\<lfloor>q\<rfloor>" u] pos_mod_sign [of "\<lfloor>q\<rfloor>" u] by linarith
    then show ?thesis using False nz t q(2) by (auto simp: Next_def Let_def Int64N_def)
  qed
  then show thesis using False that(2) by auto
qed

end
