(* ===== verification/Canal_Retry.thy ===== *)
theory Canal_Retry
  imports Canal_Fault
begin

text \<open>
  The routing of a fault: \<^verbatim>\<open>internal/engine/retry.go\<close>. \<open>route\<close> is the pure decision tree, returning the
  updated attempt beside the decision; \<open>None\<close> is a panic of the random generator, which the proofs
  exclude. The reason strings are those of \<^verbatim>\<open>pkg/telemetry/status.go\<close>.
\<close>

section \<open>The decision tree\<close>

datatype route_disp = dispRetry | dispDeadLetter | dispDrop | dispStop | dispStall

record attempt =
  at_count :: int
  at_started :: time

record routing =
  rt_disp :: route_disp
  rt_delay :: duration
  rt_reason :: string

definition ReasonIndeterminateWrite :: string where "ReasonIndeterminateWrite = ''indeterminate_write''"
definition ReasonRetriesExhausted :: string where "ReasonRetriesExhausted = ''retries_exhausted''"
definition ReasonTerminalFault :: string where "ReasonTerminalFault = ''terminal_fault''"
definition ReasonSustainedBackoff :: string where "ReasonSustainedBackoff = ''sustained_backoff''"
definition ReasonNotConnected :: string where "ReasonNotConnected = ''not_connected''"

definition uncountedFloor :: duration where
  "uncountedFloor = 100 * millisecond"

definition terminalRouting :: "retry_policy \<Rightarrow> fault_class \<Rightarrow> routing" where
  "terminalRouting p c = \<lparr>rt_disp = (case rp_Terminal p of TerminalDeadLetter \<Rightarrow> dispDeadLetter
       | TerminalDrop \<Rightarrow> dispDrop | _ \<Rightarrow> dispStop), rt_delay = 0,
     rt_reason = (if class_Terminal c then ReasonTerminalFault else ReasonRetriesExhausted)\<rparr>"

definition routed_class :: "err \<Rightarrow> fault_class" where
  "routed_class e = (if ClassOf e = Unclassified then PermanentInternal else ClassOf e)"

definition route_schedule :: "int \<Rightarrow> err \<Rightarrow> fault_class \<Rightarrow> retry_policy \<Rightarrow> attempt \<Rightarrow> routing option" where
  "route_schedule u e c p a =
     (case Next u p (if at_count a < 1 then 1 else at_count a) of
        None \<Rightarrow> None
      | Some (delay, again) \<Rightarrow> Some (
          if Counted c \<and> \<not> again then terminalRouting p c
          else
            let d1 = (if \<not> again then bo_Max (rp_Backoff p) else delay);
                d2 = (case RetryAfterOf e of Some hint \<Rightarrow> hint | None \<Rightarrow> d1);
                d3 = (if d2 \<le> 0 then uncountedFloor else d2)
            in \<lparr>rt_disp = dispRetry, rt_delay = d3,
                 rt_reason = (if c = NotConnected then ReasonNotConnected else ReasonSustainedBackoff)\<rparr>))"

definition route :: "int \<Rightarrow> err \<Rightarrow> bool \<Rightarrow> retry_policy \<Rightarrow> attempt \<Rightarrow> time \<Rightarrow> (attempt \<times> routing) option" where
  "route u e idempotent p a now =
     (let c = routed_class e in
      if c = Indeterminate \<and> \<not> idempotent \<and> rp_OnIndeterminate p = IndeterminateDeadLetter then
        Some (a, \<lparr>rt_disp = dispDeadLetter, rt_delay = 0, rt_reason = ReasonIndeterminateWrite\<rparr>)
      else if c = Indeterminate \<and> \<not> idempotent \<and> rp_OnIndeterminate p \<noteq> IndeterminateRetry then
        Some (a, \<lparr>rt_disp = dispStall, rt_delay = 0, rt_reason = ReasonIndeterminateWrite\<rparr>)
      else if class_Terminal c then Some (a, terminalRouting p c)
      else
        let a' = (if Counted c then a\<lparr>at_count := at_count a + 1\<rparr> else a) in
        if bo_MaxElapsed (rp_Backoff p) > 0 \<and> \<not> time_is_zero (at_started a') \<and>
           now - at_started a' \<ge> bo_MaxElapsed (rp_Backoff p)
        then Some (a', terminalRouting p c)
        else map_option (Pair a') (route_schedule u e c p a'))"

section \<open>Lemmas\<close>

lemma terminalRouting_no_retry [simp]: "rt_disp (terminalRouting p c) \<noteq> dispRetry" "rt_disp (terminalRouting p c) \<noteq> dispStall"
  by (simp_all add: terminalRouting_def split: retry_terminal.splits)

lemma routed_class_not_unclassified [simp]: "routed_class e \<noteq> Unclassified"
  by (simp add: routed_class_def)

lemma RetryAfterOf_pos: "RetryAfterOf e = Some h \<Longrightarrow> 0 < h"
  by (induction e rule: RetryAfterOf.induct) (auto split: if_splits option.splits)

lemma route_schedule_cases:
  obtains "route_schedule u e c p a = Some (terminalRouting p c)" "Counted c"
      "max 1 (at_count a) \<ge> rp_MaxAttempts p"
  | rt where "route_schedule u e c p a = Some rt" "rt_disp rt = dispRetry" "0 < rt_delay rt"
      "RetryAfterOf e = None \<longrightarrow> rt_delay rt \<le> max (backoff_ceiling (rp_Backoff p)) uncountedFloor"
      "\<forall>h. RetryAfterOf e = Some h \<longrightarrow> rt_delay rt = h"
      "Counted c \<longrightarrow> max 1 (at_count a) < rp_MaxAttempts p"
proof -
  let ?k = "if at_count a < 1 then 1 else at_count a"
  have k: "?k = max 1 (at_count a)" by simp
  have fl: "0 < uncountedFloor" by (simp add: uncountedFloor_def millisecond_def)
  have ceil: "bo_Max (rp_Backoff p) \<le> backoff_ceiling (rp_Backoff p)"
    using unboundedCeiling_pos by (simp add: backoff_ceiling_def)
  show thesis
  proof (rule Next_cases [of u p ?k])
    assume n: "Next u p ?k = Some (0, False)" "?k < 1 \<or> ?k \<ge> rp_MaxAttempts p"
    show thesis
    proof (cases "Counted c")
      case True
      show thesis by (rule that(1)) (use n k True in \<open>simp_all add: route_schedule_def split: if_splits\<close>)
    next
      case False
      show thesis
        by (rule that(2) [OF _ _ _ _ _ ])
          (use n False fl ceil RetryAfterOf_pos [of e] in
            \<open>auto simp: route_schedule_def Let_def max_def split: option.splits\<close>)
    qed
  next
    fix d
    assume n: "Next u p ?k = Some (d, True)" "0 \<le> d" "d \<le> backoff_ceiling (rp_Backoff p)"
      "1 \<le> ?k" "?k < rp_MaxAttempts p"
    show thesis
      by (rule that(2) [OF _ _ _ _ _ ])
        (use n fl RetryAfterOf_pos [of e] in
          \<open>auto simp: route_schedule_def Let_def max_def split: option.splits if_splits\<close>)
  qed
qed

text \<open>What a decision to retry implies.\<close>

lemma route_retryD:
  assumes "route u e idem p a now = Some (a', rt)" and "rt_disp rt = dispRetry"
  shows "\<not> class_Terminal (routed_class e)" and
    "a' = (if Counted (routed_class e) then a\<lparr>at_count := at_count a + 1\<rparr> else a)" and
    "Counted (routed_class e) \<longrightarrow> max 1 (at_count a') < rp_MaxAttempts p" and
    "0 < rt_delay rt" and
    "RetryAfterOf e = None \<longrightarrow> rt_delay rt \<le> max (backoff_ceiling (rp_Backoff p)) uncountedFloor" and
    "\<forall>h. RetryAfterOf e = Some h \<longrightarrow> rt_delay rt = h" and
    "routed_class e = Indeterminate \<longrightarrow> idem \<or> rp_OnIndeterminate p = IndeterminateRetry" and
    "\<not> (bo_MaxElapsed (rp_Backoff p) > 0 \<and> at_started a \<noteq> 0 \<and> now - at_started a \<ge> bo_MaxElapsed (rp_Backoff p))"
proof -
  let ?c = "routed_class e"
  let ?a = "if Counted ?c then a\<lparr>at_count := at_count a + 1\<rparr> else a"
  have st: "at_started ?a = at_started a" by simp
  show t: "\<not> class_Terminal ?c"
    using assms by (auto simp: route_def Let_def split: if_splits)
  show i: "?c = Indeterminate \<longrightarrow> idem \<or> rp_OnIndeterminate p = IndeterminateRetry"
    using assms by (auto simp: route_def Let_def split: if_splits)
  show m: "\<not> (bo_MaxElapsed (rp_Backoff p) > 0 \<and> at_started a \<noteq> 0 \<and> now - at_started a \<ge> bo_MaxElapsed (rp_Backoff p))"
    using assms t i by (auto simp: route_def Let_def time_is_zero_def split: if_splits)
  have r: "map_option (Pair ?a) (route_schedule u e ?c p ?a) = Some (a', rt)"
    using assms t i m unfolding route_def Let_def time_is_zero_def st by (auto split: if_splits)
  then have rt: "route_schedule u e ?c p ?a = Some rt" and a': "a' = ?a" by auto
  from rt assms(2) have "0 < rt_delay rt \<and>
    (RetryAfterOf e = None \<longrightarrow> rt_delay rt \<le> max (backoff_ceiling (rp_Backoff p)) uncountedFloor) \<and>
    (\<forall>h. RetryAfterOf e = Some h \<longrightarrow> rt_delay rt = h) \<and>
    (Counted ?c \<longrightarrow> max 1 (at_count ?a) < rp_MaxAttempts p)"
    by (cases rule: route_schedule_cases [of u e ?c p ?a]) auto
  then show "0 < rt_delay rt"
    "RetryAfterOf e = None \<longrightarrow> rt_delay rt \<le> max (backoff_ceiling (rp_Backoff p)) uncountedFloor"
    "\<forall>h. RetryAfterOf e = Some h \<longrightarrow> rt_delay rt = h"
    "Counted ?c \<longrightarrow> max 1 (at_count a') < rp_MaxAttempts p"
    by (simp_all add: a')
  show "a' = ?a" by (rule a')
qed

text \<open>\<open>route\<close> never panics.\<close>

lemma route_schedule_total: "\<exists>rt. route_schedule u e c p a = Some rt"
  by (rule route_schedule_cases [of u e c p a]) auto

lemma route_total: "\<exists>a' rt. route u e idem p a now = Some (a', rt)"
proof -
  have "route u e idem p a now \<noteq> None"
    by (simp add: route_def Let_def route_schedule_total)
  then show ?thesis by auto
qed

section \<open>A record's life in the retry loop\<close>

text \<open>One fault after another for the same record, as the write loop routes them.\<close>

fun routes :: "bool \<Rightarrow> retry_policy \<Rightarrow> (err \<times> time \<times> int) list \<Rightarrow> attempt \<Rightarrow> (attempt \<times> routing list) option" where
  "routes idem p [] a = Some (a, [])"
| "routes idem p ((e, now, u) # evs) a =
     (case route u e idem p a now of
        None \<Rightarrow> None
      | Some (a', rt) \<Rightarrow> map_option (apsnd (Cons rt)) (routes idem p evs a'))"

definition counted_faults :: "(err \<times> time \<times> int) list \<Rightarrow> nat" where
  "counted_faults evs = length (filter (\<lambda>(e, _). Counted (routed_class e)) evs)"

lemma routes_retried:
  assumes "routes idem p evs a = Some (a', rts)" and "\<forall>rt \<in> set rts. rt_disp rt = dispRetry" and "0 \<le> at_count a"
  shows "at_count a' = at_count a + int (counted_faults evs) \<and> at_started a' = at_started a \<and>
    (counted_faults evs > 0 \<longrightarrow> at_count a' < rp_MaxAttempts p)"
  using assms
proof (induction evs arbitrary: a rts)
  case Nil
  then show ?case by (simp add: counted_faults_def)
next
  case (Cons ev evs)
  obtain e now u where ev: "ev = (e, now, u)" by (cases ev)
  obtain b rt where b: "route u e idem p a now = Some (b, rt)" using route_total by blast
  obtain rts' where r: "routes idem p evs b = Some (a', rts')" and rts: "rts = rt # rts'"
    using Cons.prems(1) by (auto simp: ev b)
  note d = route_retryD [OF b]
  have rt: "rt_disp rt = dispRetry" using Cons.prems(2) by (simp add: rts)
  have b': "b = (if Counted (routed_class e) then a\<lparr>at_count := at_count a + 1\<rparr> else a)" by (rule d(2) [OF rt])
  have "at_count a' = at_count b + int (counted_faults evs) \<and> at_started a' = at_started b \<and>
    (counted_faults evs > 0 \<longrightarrow> at_count a' < rp_MaxAttempts p)"
    by (rule Cons.IH [OF r]) (use Cons.prems rts b' in simp_all)
  then show ?case using d(3) [OF rt] b' by (auto simp: counted_faults_def ev)
qed

section \<open>Properties\<close>

text \<open>
  A decision to retry is always a justified one: the fault's class is not terminal (an
  unclassified error counts as a terminal one), an indeterminate write is repeated only against an
  idempotent sink or on the operator's explicit word, the elapsed-time bound is not yet reached,
  and the wait is positive, honours the remote's hint when there is one and otherwise stays within
  the policy's ceiling.
\<close>

theorem retry_is_justified:
  assumes "route u e idem p a now = Some (a', rt)" and "rt_disp rt = dispRetry"
  shows "\<not> class_Terminal (ClassOf e) \<and> ClassOf e \<noteq> Unclassified \<and>
    (ClassOf e = Indeterminate \<longrightarrow> idem \<or> rp_OnIndeterminate p = IndeterminateRetry) \<and>
    (bo_MaxElapsed (rp_Backoff p) > 0 \<and> at_started a \<noteq> 0 \<longrightarrow> now - at_started a < bo_MaxElapsed (rp_Backoff p)) \<and>
    0 < rt_delay rt \<and>
    (case RetryAfterOf e of Some h \<Rightarrow> rt_delay rt = h
     | None \<Rightarrow> rt_delay rt \<le> max (backoff_ceiling (rp_Backoff p)) uncountedFloor)"
  using route_retryD [OF assms]
  by (auto simp: routed_class_def class_Terminal_def split: if_splits option.splits)

definition ex_throttled :: err where
  "ex_throttled = Wrap ''sink s: throttled'' (Throttle FOpWrite (2 * second) None)"

theorem retry_is_justified_witness:
  "\<exists>a' rt. route 7 ex_throttled False DefaultRetry \<lparr>at_count = 0, at_started = 5\<rparr> 9 = Some (a', rt) \<and>
     rt_delay rt = 2 * second \<and> at_count a' = 0"
proof -
  have "case route 7 ex_throttled False DefaultRetry \<lparr>at_count = 0, at_started = 5\<rparr> 9 of None \<Rightarrow> False
    | Some (a', rt) \<Rightarrow> rt_disp rt = dispRetry \<and> at_count a' = 0" by code_simp
  then obtain a' rt where r: "route 7 ex_throttled False DefaultRetry \<lparr>at_count = 0, at_started = 5\<rparr> 9 = Some (a', rt)"
    "rt_disp rt = dispRetry" "at_count a' = 0"
    by (cases "route 7 ex_throttled False DefaultRetry \<lparr>at_count = 0, at_started = 5\<rparr> 9") auto
  have "RetryAfterOf ex_throttled = Some (2 * second)" by code_simp
  with retry_is_justified [OF r(1,2)] r show ?thesis by simp
qed

text \<open>
  Counted faults exhaust the policy: however a record's faults are interleaved with flow
  control, if every one of them was answered with another attempt then fewer than \<^verbatim>\<open>MaxAttempts\<close> of
  them were counted, so the fault that spends the last attempt is answered with a terminal
  disposition.
\<close>

theorem counted_faults_are_retried_less_than_max_attempts:
  assumes "routes idem p evs \<lparr>at_count = 0, at_started = t0\<rparr> = Some (a, rts)"
    and "\<forall>rt \<in> set rts. rt_disp rt = dispRetry"
  shows "int (counted_faults evs) < max 1 (rp_MaxAttempts p)"
  using routes_retried [OF assms] by auto

theorem counted_faults_are_retried_less_than_max_attempts_witness:
  "\<exists>a rts. routes False DefaultRetry (replicate 3 (Transient FOpWrite None, 10, 0) @ [(ex_throttled, 20, 1)])
       \<lparr>at_count = 0, at_started = 5\<rparr> = Some (a, rts) \<and>
     int (counted_faults (replicate 3 (Transient FOpWrite None, 10, 0) @ [(ex_throttled, 20, 1)])) < max 1 4"
proof -
  let ?evs = "replicate 3 (Transient FOpWrite None, 10::int, 0::int) @ [(ex_throttled, 20, 1)]"
  have "case routes False DefaultRetry ?evs \<lparr>at_count = 0, at_started = 5\<rparr> of None \<Rightarrow> False
    | Some (a, rts) \<Rightarrow> (\<forall>rt \<in> set rts. rt_disp rt = dispRetry)" by code_simp
  then obtain a rts where r: "routes False DefaultRetry ?evs \<lparr>at_count = 0, at_started = 5\<rparr> = Some (a, rts)"
    "\<forall>rt \<in> set rts. rt_disp rt = dispRetry"
    by (cases "routes False DefaultRetry ?evs \<lparr>at_count = 0, at_started = 5\<rparr>") auto
  have "rp_MaxAttempts DefaultRetry = 4" by (simp add: DefaultRetry_def)
  with counted_faults_are_retried_less_than_max_attempts [OF r] r(1) show ?thesis by simp
qed

section \<open>Behaviours that differ from the documentation\<close>

lemma route_throttled_default:
  "\<exists>rt. route u (Throttle FOpWrite h None) idem DefaultRetry a now = Some (a, rt) \<and> rt_disp rt = dispRetry"
proof -
  let ?e = "Throttle FOpWrite h None"
  have c: "routed_class ?e = Throttled" by (simp add: routed_class_def Throttle_def)
  obtain rt where "route_schedule u ?e Throttled DefaultRetry a = Some rt" "rt_disp rt = dispRetry"
    by (rule route_schedule_cases [of u ?e Throttled DefaultRetry a]) (simp_all add: Counted_def)
  then show ?thesis
    by (simp add: route_def c Counted_def class_Terminal_def DefaultRetry_def DefaultBackoff_def)
qed

text \<open>
  Under the default policy a rate-limited record is retried forever: every throttling fault, at
  any time and after any number of others, is answered with another attempt, since it is not
  counted and the default policy has no elapsed-time bound.
\<close>

theorem throttled_record_is_retried_forever:
  "\<exists>rt. route u (Throttle FOpWrite h None) idem DefaultRetry a now = Some (a, rt) \<and> rt_disp rt = dispRetry"
  by (rule route_throttled_default)

text \<open>
  Under a dead-lettering policy a structural disagreement and a bug of canal's own are
  dead-lettered as if they were the record's fault, an unclassified error among them.
\<close>

theorem bugs_are_dead_lettered:
  "\<lbrakk>ClassOf e \<in> {PermanentContract, PermanentInternal, Unclassified}; rp_Terminal p = TerminalDeadLetter\<rbrakk> \<Longrightarrow>
   map_option (rt_disp \<circ> snd) (route u e idem p a now) = Some dispDeadLetter"
  by (auto simp: route_def routed_class_def class_Terminal_def terminalRouting_def)

theorem bugs_are_dead_lettered_witness:
  "map_option (rt_disp \<circ> snd) (route 0 (Plain ''a bare error'') True (DefaultRetry\<lparr>rp_Terminal := TerminalDeadLetter\<rparr>)
      \<lparr>at_count = 0, at_started = 5\<rparr> 9) = Some dispDeadLetter"
  using bugs_are_dead_lettered [of "Plain ''a bare error''" "DefaultRetry\<lparr>rp_Terminal := TerminalDeadLetter\<rparr>" 0 True
      "\<lparr>at_count = 0, at_started = 5\<rparr>" 9] by simp

text \<open>
  A rate limit reported inside a joined error keeps its class and loses its hint.
\<close>

theorem hint_in_joined_error_is_lost:
  "ClassOf (Join [Plain m, Throttle op (2 * second) None]) = Throttled \<and>
   RetryAfterOf (Throttle op (2 * second) None) = Some (2 * second) \<and>
   RetryAfterOf (Join [Plain m, Throttle op (2 * second) None]) = None"
  by (simp add: Throttle_def ClassOf_def second_def millisecond_def)

end
