(* ===== verification/Canal_Write.thy ===== *)
theory Canal_Write
  imports Canal_Retry Canal_Ledger
begin

text \<open>
  The write path: \<^verbatim>\<open>internal/engine/write.go\<close>, \<^verbatim>\<open>marked.go\<close>, \<^verbatim>\<open>durability.go\<close>, the request building and
  delivery of \<^verbatim>\<open>run.go\<close>, the encoding of \<^verbatim>\<open>codec.go\<close>, the nack queue of \<^verbatim>\<open>control.go\<close> and the result
  contract of \<^verbatim>\<open>pkg/connector/sink.go\<close>.

  Sinks and codecs are connectors, so they are parameters: functions that act on a world of type
  \<open>'w\<close>, the state of everything outside the engine. A sink call ends in one of four ways, which
  \<open>sandbox\<close> turns into a result or an error as the code does. An encoder is represented by the bytes
  it appends, which is all its contract lets it do to the buffer. One turn of the retry loop
  consumes one \<open>write_round\<close>: the clock readings, the random draws and the end of the sleep of that turn.
  A turn that finds no round left is a loop still running, the value \<open>None\<close>.
  The runner keeps, beside the ledger, the list \<open>rn_outs\<close> of all outcomes it has settled so far;
  no definition reads it. Log lines and metrics are not modelled, and the texts of the engine's own
  error messages are abbreviated.
\<close>

section \<open>Requests, results and sinks\<close>

record 'v request =
  rq_Body :: bytes
  rq_Records :: "ref list"
  rq_Rows :: "('v, err) rec list option"
  rq_Count :: nat
  rq_UncompressedBytes :: nat
  rq_ContentType :: string
  rq_ContentEncoding :: string

record record_fault =
  rf_Record :: record_id
  rf_Class :: fault_class
  rf_Op :: fault_op
  rf_User :: string
  rf_Dev :: string

definition rf_Fault :: "record_fault \<Rightarrow> err" where
  "rf_Fault f = Fault (rf_Class f) (rf_Op f) [] [] [] (rf_Record f) 0 (rf_User f) (rf_Dev f) None"

record write_result =
  wr_Failed :: "record_fault list"
  wr_Deferred :: "record_id list"
  wr_Duplicates :: "record_id list"
  wr_Written :: int

definition Reconcile :: "nat \<Rightarrow> write_result \<Rightarrow> bool \<times> int" where
  "Reconcile count r =
     (let want = int count - int (length (wr_Failed r)) - int (length (wr_Deferred r)) in (wr_Written r = want, want))"

definition AllWritten :: "nat \<Rightarrow> write_result" where
  "AllWritten n = \<lparr>wr_Failed = [], wr_Deferred = [], wr_Duplicates = [], wr_Written = int n\<rparr>"

datatype 'r call = Returned 'r | ReturnedErr err | Panicked string | Abandoned_call err

definition sandbox :: "string \<Rightarrow> 'w \<times> 'r call \<Rightarrow> 'w \<times> (err + 'r)" where
  "sandbox name c = (fst c, case snd c of
      Returned r \<Rightarrow> Inr r
    | ReturnedErr e \<Rightarrow> Inl e
    | Panicked m \<Rightarrow> Inl (Bug FOpUnknown (Some (Plain (''component panicked: '' @ m))))
    | Abandoned_call ctx \<Rightarrow> Inl (Internal FOpUnknown (Some (Wrap ''component did not return before its deadline''
        (Join [Plain ''the call was abandoned'', ctx])))))"

datatype flush_reason = FlushCheckpoint | FlushEndOfInput | FlushDrain | FlushSchemaChange

record ('v, 'w) sink =
  sk_Name :: string
  sk_Structured :: bool
  sk_Idempotent :: bool
  sk_Committer :: bool
  sk_Write :: "'v request \<Rightarrow> 'w \<Rightarrow> 'w \<times> write_result call"
  sk_Flush :: "(flush_reason \<Rightarrow> 'w \<Rightarrow> 'w \<times> write_result call) option"

definition defersDurability :: "('v, 'w) sink \<Rightarrow> bool" where
  "defersDurability sk \<longleftrightarrow> sk_Flush sk \<noteq> None \<or> sk_Committer sk"

definition commitsDurability :: "('v, 'w) sink \<Rightarrow> bool" where
  "commitsDurability sk \<longleftrightarrow> sk_Committer sk"

record framer =
  fr_Frame :: "bytes \<Rightarrow> bytes \<Rightarrow> err + bytes"
  fr_Terminator :: bytes

record ('v, 'w) codec_chain =
  cc_Encode :: "('v, err) rec \<Rightarrow> 'w \<Rightarrow> 'w \<times> (err + bytes)"
  cc_framer :: "framer option"
  cc_Compress :: "(bytes \<Rightarrow> err + bytes) option"
  cc_contentType :: string
  cc_contentEncoding :: string

definition batches :: "('v, 'w) codec_chain \<Rightarrow> bool" where
  "batches cc \<longleftrightarrow> cc_framer cc \<noteq> None"

definition rec_ID :: "('v, 'e) rec \<Rightarrow> record_id" where
  "rec_ID r = o_ID (rec_origin r)"

section \<open>Building requests\<close>

definition cc_encode :: "('v, 'w) codec_chain \<Rightarrow> bytes \<Rightarrow> ('v, err) rec \<Rightarrow> 'w \<Rightarrow> 'w \<times> (err + bytes)" where
  "cc_encode cc dst r w =
     (let (w', out) = cc_Encode cc r w in
      (w', case out of Inl e \<Rightarrow> Inl e
         | Inr payload \<Rightarrow> (case cc_framer cc of None \<Rightarrow> Inr (dst @ payload) | Some f \<Rightarrow> fr_Frame f dst payload)))"

definition encode_fault :: "('v, err) rec \<Rightarrow> err \<Rightarrow> err" where
  "encode_fault r e = Mapping FOpEncode (Some (Wrap (''encoding record: '' @ fault_Error e) e))"

definition finish :: "('v, 'w) codec_chain \<Rightarrow> bytes \<Rightarrow> ref list \<Rightarrow> nat \<Rightarrow> err + 'v request" where
  "finish cc body refs count =
     bind_result
       (case cc_Compress cc of None \<Rightarrow> Inr body
        | Some f \<Rightarrow> (case f body of Inr out \<Rightarrow> Inr out
            | Inl e \<Rightarrow> Inl (Permanent FOpEncode (Some (Wrap (''compressing a request: '' @ fault_Error e) e)))))
       (\<lambda>body'. Inr \<lparr>rq_Body = body', rq_Records = refs, rq_Rows = None, rq_Count = count,
          rq_UncompressedBytes = length body, rq_ContentType = cc_contentType cc,
          rq_ContentEncoding = cc_contentEncoding cc\<rparr>)"

text \<open>The two loops of \<^verbatim>\<open>buildRequests\<close>: one body for all records, or one request for each.\<close>

fun encode_all :: "('v, 'w) codec_chain \<Rightarrow> bytes \<Rightarrow> ('v, err) rec list \<Rightarrow> 'w \<Rightarrow> 'w \<times> (err + bytes)" where
  "encode_all cc body [] w = (w, Inr body)"
| "encode_all cc body (r # rs) w =
     (case cc_encode cc body r w of
        (w', Inl e) \<Rightarrow> (w', Inl (encode_fault r e))
      | (w', Inr body') \<Rightarrow> encode_all cc body' rs w')"

type_synonym 'v sink_call = "'v request \<times> ('v, err) rec list"

fun encode_each :: "('v, 'w) codec_chain \<Rightarrow> ('v, err) rec list \<Rightarrow> 'w \<Rightarrow> 'w \<times> (err + 'v sink_call list)" where
  "encode_each cc [] w = (w, Inr [])"
| "encode_each cc (r # rs) w =
     (case cc_encode cc [] r w of
        (w', Inl e) \<Rightarrow> (w', Inl (encode_fault r e))
      | (w', Inr body) \<Rightarrow>
          (case finish cc body [Ref r] 1 of
             Inl e \<Rightarrow> (w', Inl e)
           | Inr rq \<Rightarrow> (case encode_each cc rs w' of
               (w'', Inl e) \<Rightarrow> (w'', Inl e)
             | (w'', Inr rqs) \<Rightarrow> (w'', Inr ((rq, [r]) # rqs)))))"

definition buildRequests ::
  "('v, 'w) sink \<Rightarrow> ('v, 'w) codec_chain \<Rightarrow> ('v, err) rec list \<Rightarrow> 'w \<Rightarrow> 'w \<times> (err + 'v sink_call list)"
where
  "buildRequests sk cc rs w =
     (if sk_Structured sk then
        (w, Inr [(\<lparr>rq_Body = [], rq_Records = map Ref rs, rq_Rows = Some rs, rq_Count = length rs,
           rq_UncompressedBytes = 0, rq_ContentType = [], rq_ContentEncoding = []\<rparr>, rs)])
      else if batches cc then
        (case encode_all cc [] rs w of
           (w', Inl e) \<Rightarrow> (w', Inl e)
         | (w', Inr body) \<Rightarrow>
             (w', bind_result (finish cc (body @ (case cc_framer cc of None \<Rightarrow> [] | Some f \<Rightarrow> fr_Terminator f))
                (map Ref rs) (length rs)) (\<lambda>rq. Inr [(rq, rs)])))
      else encode_each cc rs w)"

section \<open>The runner\<close>

record nack =
  nk_Handle :: "bytes option"
  nk_Position :: position
  nk_Class :: fault_class
  nk_Reason :: string
  nk_Attempts :: int

record ('v, 'w) write_env =
  we_sinks :: "node_id \<Rightarrow> ('v, 'w) sink"
  we_codecs :: "node_id \<Rightarrow> ('v, 'w) codec_chain"
  we_retry :: retry_policy
  we_mainSinks :: "node_id list"
  we_failedSinks :: "node_id list"
  we_trigger :: nat
  we_nackable :: "lane_id \<Rightarrow> bool"
  we_ordering :: "lane_id \<Rightarrow> ordering"

record ('v, 'w) runner =
  rn_world :: 'w
  rn_ledger :: ledger
  rn_outs :: "err outcome list"
  rn_pending :: "(node_id \<times> ('v, err) rec list) list"
  rn_covered :: "(node_id \<times> (lane_id \<times> position) list) list"
  rn_nacks :: "(lane_id \<times> nack list) list"
  rn_failure :: "err option"

definition held :: "node_id \<Rightarrow> ('v, 'w) runner \<Rightarrow> ('v, err) rec list" where
  "held nid r = (case map_of (rn_pending r) nid of None \<Rightarrow> [] | Some rs \<Rightarrow> rs)"

definition settle :: "err outcome list \<Rightarrow> ('v, 'w) runner \<Rightarrow> ('v, 'w) runner" where
  "settle outs r = r\<lparr>rn_ledger := Settle outs (rn_ledger r), rn_outs := rn_outs r @ outs\<rparr>"

definition maxQueuedNacks :: nat where "maxQueuedNacks = 1024"

definition queueNack :: "lane_id \<Rightarrow> nack \<Rightarrow> (lane_id \<times> nack list) list \<Rightarrow> (lane_id \<times> nack list) list" where
  "queueNack lane n m =
     (let q = (case map_of m lane of None \<Rightarrow> [] | Some q \<Rightarrow> q) @ [n]
      in aput lane (drop (length q - maxQueuedNacks) q) m)"

definition nack_for :: "('v, 'w) write_env \<Rightarrow> ('v, err) rec \<Rightarrow> position \<Rightarrow> err \<Rightarrow> string \<Rightarrow> int \<Rightarrow> ('v, 'w) runner \<Rightarrow>
  ('v, 'w) runner" where
  "nack_for we rc pos ferr reason attempts r =
     (let lane = o_Lane (rec_origin rc) in
      if \<not> we_nackable we lane then r
      else let n = \<lparr>nk_Handle = (if we_ordering we lane = OrderingDiscrete then rec_handle rc else None),
                    nk_Position = (if we_ordering we lane = OrderingDiscrete then zero_position else pos),
                    nk_Class = ClassOf ferr, nk_Reason = reason, nk_Attempts = attempts\<rparr>
           in r\<lparr>rn_nacks := queueNack lane n (rn_nacks r)\<rparr>)"

definition abandon :: "('v, 'w) write_env \<Rightarrow> node_id \<Rightarrow> ('v, err) rec \<Rightarrow> err \<Rightarrow> string \<Rightarrow> position \<Rightarrow> int \<Rightarrow>
  ('v, 'w) runner \<Rightarrow> ('v, 'w) runner" where
  "abandon we nid rc ferr reason pos attempts r =
     settle [\<lparr>out_Record = rec_ID rc, out_Disposition = Abandoned, out_Node = nid, out_Fault = Some (asFault ferr)\<rparr>]
       (nack_for we rc pos ferr reason attempts r)"

section \<open>Holding what is not durable yet\<close>

definition hold :: "node_id \<Rightarrow> ('v, err) rec list \<Rightarrow> lane_id \<Rightarrow> position \<Rightarrow> ('v, 'w) runner \<Rightarrow> ('v, 'w) runner" where
  "hold nid rs lane pos r =
     (if rs = [] then r
      else r\<lparr>rn_pending := aput nid (held nid r @ rs) (rn_pending r),
             rn_covered := aput nid (aput lane pos
               (case map_of (rn_covered r) nid of None \<Rightarrow> [] | Some m \<Rightarrow> m)) (rn_covered r)\<rparr>)"

definition takeCovered :: "node_id \<Rightarrow> ('v, 'w) runner \<Rightarrow> ('v, 'w) runner \<times> (lane_id \<times> position) list" where
  "takeCovered nid r = (r\<lparr>rn_covered := adel nid (rn_covered r)\<rparr>,
     case map_of (rn_covered r) nid of None \<Rightarrow> [] | Some m \<Rightarrow> m)"

definition take_held :: "node_id \<Rightarrow> ('v, 'w) runner \<Rightarrow> ('v, 'w) runner \<times> ('v, err) rec list" where
  "take_held nid r = (r\<lparr>rn_pending := adel nid (rn_pending r)\<rparr>, held nid r)"

definition returnUnflushed :: "node_id \<Rightarrow> ('v, err) rec list \<Rightarrow> ('v, 'w) runner \<Rightarrow> ('v, 'w) runner" where
  "returnUnflushed nid rs r = (if rs = [] then r else r\<lparr>rn_pending := aput nid (rs @ held nid r) (rn_pending r)\<rparr>)"

definition due :: "('v, 'w) write_env \<Rightarrow> node_id \<Rightarrow> ('v, 'w) runner \<Rightarrow> bool" where
  "due we nid r \<longleftrightarrow> we_trigger we > 0 \<and> length (held nid r) \<ge> we_trigger we"

definition outstanding :: "('v, 'w) runner \<Rightarrow> (node_id \<times> nat) list" where
  "outstanding r = map (\<lambda>(nid, rs). (nid, length rs)) (filter (\<lambda>(_, rs). rs \<noteq> []) (rn_pending r))"

definition outcomesFor :: "node_id \<Rightarrow> ('v, err) rec list \<Rightarrow> write_result \<Rightarrow> err outcome list" where
  "outcomesFor node rs ans =
     map (\<lambda>rc. case map_of (rev (map (\<lambda>f. (rf_Record f, rf_Fault f)) (wr_Failed ans))) (rec_ID rc) of
         Some f \<Rightarrow> \<lparr>out_Record = rec_ID rc, out_Disposition = Abandoned, out_Node = node, out_Fault = Some f\<rparr>
       | None \<Rightarrow> \<lparr>out_Record = rec_ID rc,
           out_Disposition = (if rec_ID rc \<in> set (wr_Duplicates ans) then Duplicate else Delivered),
           out_Node = node, out_Fault = None\<rparr>) rs"

definition settleOrHold :: "node_id \<Rightarrow> ('v, 'w) sink \<Rightarrow> ('v, err) rec list \<Rightarrow> write_result \<Rightarrow> lane_id \<Rightarrow> position \<Rightarrow>
  ('v, 'w) runner \<Rightarrow> ('v, 'w) runner" where
  "settleOrHold nid sk landed ans lane pos r =
     (if landed = [] then r
      else if defersDurability sk then hold nid landed lane pos r
      else settle (outcomesFor nid landed ans) r)"

section \<open>One write\<close>

definition named :: "write_result \<Rightarrow> record_id \<Rightarrow> err option" where
  "named ans = map_of (rev (map (\<lambda>f. (rf_Record f, rf_Fault f)) (wr_Failed ans)))"

fun note_failed :: "(record_id \<Rightarrow> err option) \<Rightarrow> ('v, err) rec list \<Rightarrow> (record_id \<times> err) list \<Rightarrow> (record_id \<times> err) list" where
  "note_failed f [] m = m"
| "note_failed f (r # rs) m = note_failed f rs (case f (rec_ID r) of None \<Rightarrow> m | Some e \<Rightarrow> aput (rec_ID r) e m)"

fun write_requests :: "node_id \<Rightarrow> ('v, 'w) sink \<Rightarrow> lane_id \<Rightarrow> position \<Rightarrow> 'v sink_call list \<Rightarrow> ('v, 'w) runner \<Rightarrow>
  (record_id \<times> err) list \<Rightarrow> ('v, 'w) runner \<times> (err + (record_id \<times> err) list)" where
  "write_requests nid sk lane pos [] r failed = (r, Inr failed)"
| "write_requests nid sk lane pos ((rq, rs) # rest) r failed =
     (let (w, ans) = sandbox (sk_Name sk) (sk_Write sk rq (rn_world r)); r1 = r\<lparr>rn_world := w\<rparr> in
      case ans of
        Inl e \<Rightarrow> write_requests nid sk lane pos rest r1 (note_failed (\<lambda>_. Some e) rs failed)
      | Inr wr \<Rightarrow>
          if \<not> fst (Reconcile (rq_Count rq) wr) then
            (r1, Inl (Contract FOpWrite (Some (Plain (''engine: records unaccounted for by sink '' @ nid)))))
          else if wr_Deferred wr \<noteq> [] then
            (r1, Inl (Contract FOpWrite (Some (Plain (''engine: records deferred from Write by sink '' @ nid)))))
          else
            write_requests nid sk lane pos rest
              (settleOrHold nid sk (filter (\<lambda>rc. named wr (rec_ID rc) = None) rs) wr lane pos r1)
              (note_failed (named wr) rs failed))"

definition writeOnce :: "('v, 'w) write_env \<Rightarrow> node_id \<Rightarrow> ('v, err) rec list \<Rightarrow> lane_id \<Rightarrow> position \<Rightarrow> ('v, 'w) runner \<Rightarrow>
  ('v, 'w) runner \<times> (err + (record_id \<times> err) list)" where
  "writeOnce we nid pending lane pos r =
     (case buildRequests (we_sinks we nid) (we_codecs we nid) pending (rn_world r) of
        (w, Inl e) \<Rightarrow> (r\<lparr>rn_world := w\<rparr>, Inr (note_failed (\<lambda>_. Some e) pending []))
      | (w, Inr reqs) \<Rightarrow> write_requests nid (we_sinks we nid) lane pos reqs (r\<lparr>rn_world := w\<rparr>) [])"

section \<open>Dead letters\<close>

fun dead_calls :: "string \<Rightarrow> ('v, 'w) sink \<Rightarrow> 'v sink_call list \<Rightarrow> 'w \<Rightarrow> 'w \<times> err option" where
  "dead_calls what sk [] w = (w, None)"
| "dead_calls what sk ((rq, _) # rest) w =
     (case sandbox (sk_Name sk) (sk_Write sk rq w) of
        (w', Inl e) \<Rightarrow> (w', Some (Wrap (what @ fault_Error e) e))
      | (w', Inr _) \<Rightarrow> dead_calls what sk rest w')"

fun dead_sinks :: "('v, 'w) write_env \<Rightarrow> node_id list \<Rightarrow> ('v, err) rec \<Rightarrow> 'w \<Rightarrow> 'w \<times> err option" where
  "dead_sinks we [] rc w = (w, None)"
| "dead_sinks we (nid # nids) rc w =
     (case buildRequests (we_sinks we nid) (we_codecs we nid) [rc] w of
        (w1, Inl e) \<Rightarrow> (w1, Some (Wrap (''engine: encoding for dead-letter sink: '' @ fault_Error e) e))
      | (w1, Inr reqs) \<Rightarrow>
          (case dead_calls ''engine: dead-lettering: '' (we_sinks we nid) reqs w1 of
             (w2, Some e) \<Rightarrow> (w2, Some e)
           | (w2, None) \<Rightarrow> dead_sinks we nids rc w2))"

definition deadLetter :: "('v, 'w) write_env \<Rightarrow> ('v, err) rec \<Rightarrow> ('v, 'w) runner \<Rightarrow> ('v, 'w) runner \<times> err option" where
  "deadLetter we rc r =
     (if we_failedSinks we = [] then (r, Some (Bug FOpWrite (Some (Plain ''engine: no failed edge''))))
      else let (w, e) = dead_sinks we (we_failedSinks we) rc (rn_world r) in (r\<lparr>rn_world := w\<rparr>, e))"

section \<open>The retry loop\<close>

record write_round =
  rd_started :: "record_id \<Rightarrow> time"
  rd_now :: "record_id \<Rightarrow> time"
  rd_draw :: "record_id \<Rightarrow> int"
  rd_sleep :: "err option"

type_synonym attempts = "(record_id \<times> attempt) list"

definition att :: "write_round \<Rightarrow> record_id \<Rightarrow> attempts \<Rightarrow> attempt" where
  "att rd k m = (case map_of m k of Some a \<Rightarrow> a | None \<Rightarrow> \<lparr>at_count = 0, at_started = rd_started rd k\<rparr>)"

fun route_failed :: "('v, 'w) write_env \<Rightarrow> node_id \<Rightarrow> position \<Rightarrow> write_round \<Rightarrow> (record_id \<Rightarrow> err option) \<Rightarrow>
  ('v, err) rec list \<Rightarrow> ('v, 'w) runner \<Rightarrow> attempts \<Rightarrow> ('v, err) rec list \<Rightarrow> duration \<Rightarrow>
  ('v, 'w) runner \<times> (err + attempts \<times> ('v, err) rec list \<times> duration)" where
  "route_failed we nid pos rd failed [] r atts again wait = (r, Inr (atts, again, wait))"
| "route_failed we nid pos rd failed (rc # rcs) r atts again wait =
     (case failed (rec_ID rc) of
        None \<Rightarrow> route_failed we nid pos rd failed rcs r atts again wait
      | Some ferr \<Rightarrow>
          (case route (rd_draw rd (rec_ID rc)) ferr (sk_Idempotent (we_sinks we nid)) (we_retry we)
                  (att rd (rec_ID rc) atts) (rd_now rd (rec_ID rc)) of
             None \<Rightarrow> (r, Inl (Plain ''panic''))
           | Some (a, rt) \<Rightarrow>
               let atts' = aput (rec_ID rc) a atts in
               (case rt_disp rt of
                  dispRetry \<Rightarrow> route_failed we nid pos rd failed rcs r atts' (again @ [rc]) (max wait (rt_delay rt))
                | dispDeadLetter \<Rightarrow>
                    (case deadLetter we rc r of
                       (r', Some e) \<Rightarrow> (r', Inl e)
                     | (r', None) \<Rightarrow> route_failed we nid pos rd failed rcs
                         (abandon we nid rc ferr (rt_reason rt) pos (at_count a) r') atts' again wait)
                | dispDrop \<Rightarrow> route_failed we nid pos rd failed rcs
                    (abandon we nid rc ferr (rt_reason rt) pos (at_count a) r) atts' again wait
                | dispStall \<Rightarrow> (r, Inl (Contract FOpWrite (Some (Wrap (''engine: ambiguous write: '' @ fault_Error ferr) ferr))))
                | dispStop \<Rightarrow> (r, Inl (Wrap (''engine: sink '' @ nid @ '': '' @ fault_Error ferr) ferr)))))"

fun write_loop :: "('v, 'w) write_env \<Rightarrow> node_id \<Rightarrow> lane_id \<Rightarrow> position \<Rightarrow> write_round list \<Rightarrow> ('v, err) rec list \<Rightarrow> attempts \<Rightarrow>
  ('v, 'w) runner \<Rightarrow> (('v, 'w) runner \<times> err option) option" where
  "write_loop we nid lane pos rds [] atts r = Some (r, None)"
| "write_loop we nid lane pos [] (rc # rcs) atts r = None"
| "write_loop we nid lane pos (rd # rds) (rc # rcs) atts r =
     (case writeOnce we nid (rc # rcs) lane pos r of
        (r1, Inl e) \<Rightarrow> Some (r1, Some e)
      | (r1, Inr failed) \<Rightarrow>
          if failed = [] then Some (r1, None)
          else (case route_failed we nid pos rd (map_of failed) (rc # rcs) r1 atts [] 0 of
              (r2, Inl e) \<Rightarrow> Some (r2, Some e)
            | (r2, Inr (atts', again, wait)) \<Rightarrow>
                if again = [] then Some (r2, None)
                else (case rd_sleep rd of
                    Some e \<Rightarrow> Some (r2, Some e)
                  | None \<Rightarrow> write_loop we nid lane pos rds again atts' r2)))"

definition writeSet :: "('v, 'w) write_env \<Rightarrow> node_id \<Rightarrow> ('v, err) rec list \<Rightarrow> lane_id \<Rightarrow> position \<Rightarrow> write_round list \<Rightarrow>
  ('v, 'w) runner \<Rightarrow> (('v, 'w) runner \<times> err option) option" where
  "writeSet we nid rs lane pos rds r = write_loop we nid lane pos rds rs [] r"

section \<open>Flushing a sink\<close>

definition flushOne :: "node_id \<Rightarrow> string \<Rightarrow> (flush_reason \<Rightarrow> 'w \<Rightarrow> 'w \<times> write_result call) \<Rightarrow> ('v, err) rec list \<Rightarrow> flush_reason \<Rightarrow>
  ('v, 'w) runner \<Rightarrow> ('v, 'w) runner \<times> err option" where
  "flushOne nid name fl rs reason r =
     (let (w, ans) = sandbox name (fl reason (rn_world r)); r1 = r\<lparr>rn_world := w\<rparr> in
      case ans of
        Inl e \<Rightarrow> (returnUnflushed nid rs r1, Some (Wrap (''engine: flushing sink '' @ nid @ '': '' @ fault_Error e) e))
      | Inr wr \<Rightarrow>
          let notDurable = (\<lambda>rc. rec_ID rc \<in> set (map rf_Record (wr_Failed wr)) \<union> set (wr_Deferred wr));
              durable = filter (\<lambda>rc. \<not> notDurable rc) rs;
              r2 = returnUnflushed nid (filter notDurable rs) r1
          in ((if durable = [] then r2
               else settle (outcomesFor nid durable \<lparr>wr_Failed = [], wr_Deferred = [], wr_Duplicates = wr_Duplicates wr,
                  wr_Written = 0\<rparr>) r2), None))"

definition fail :: "err option \<Rightarrow> ('v, 'w) runner \<Rightarrow> ('v, 'w) runner" where
  "fail e r = r\<lparr>rn_failure := (case rn_failure r of Some x \<Rightarrow> Some x | None \<Rightarrow> e)\<rparr>"

definition signalFlush :: "node_id \<Rightarrow> string \<Rightarrow> (flush_reason \<Rightarrow> 'w \<Rightarrow> 'w \<times> write_result call) \<Rightarrow> flush_reason \<Rightarrow>
  ('v, 'w) runner \<Rightarrow> ('v, 'w) runner \<times> err option" where
  "signalFlush nid name fl reason r =
     (let (w, ans) = sandbox name (fl reason (rn_world r)) in
      (r\<lparr>rn_world := w\<rparr>, case ans of Inr _ \<Rightarrow> None
         | Inl e \<Rightarrow> Some (Wrap (''engine: signalling sink '' @ nid @ '': '' @ fault_Error e) e)))"

fun flushSinks :: "('v, 'w) write_env \<Rightarrow> flush_reason \<Rightarrow> node_id list \<Rightarrow> ('v, 'w) runner \<Rightarrow> ('v, 'w) runner" where
  "flushSinks we reason [] r = r"
| "flushSinks we reason (nid # nids) r =
     (let sk = we_sinks we nid in
      case sk_Flush sk of
        None \<Rightarrow> flushSinks we reason nids r
      | Some fl \<Rightarrow>
          if commitsDurability sk then
            (case signalFlush nid (sk_Name sk) fl reason r of
               (r1, Some e) \<Rightarrow> fail (Some e) r1
             | (r1, None) \<Rightarrow> flushSinks we reason nids r1)
          else
            (let (r1, rs) = take_held nid r in
             if rs = [] \<and> reason = FlushCheckpoint then flushSinks we reason nids r1
             else (case flushOne nid (sk_Name sk) fl rs reason r1 of
                 (r2, Some e) \<Rightarrow> fail (Some e) r2
               | (r2, None) \<Rightarrow> flushSinks we reason nids r2)))"

definition flushIfDue :: "('v, 'w) write_env \<Rightarrow> node_id \<Rightarrow> ('v, 'w) runner \<Rightarrow> ('v, 'w) runner" where
  "flushIfDue we nid r =
     (let sk = we_sinks we nid in
      case sk_Flush sk of
        None \<Rightarrow> r
      | Some fl \<Rightarrow>
          if commitsDurability sk \<or> \<not> due we nid r then r
          else (let (r1, rs) = take_held nid r in
            if rs = [] then r1
            else (case flushOne nid (sk_Name sk) fl rs FlushCheckpoint r1 of
                (r2, Some e) \<Rightarrow> fail (Some e) r2
              | (r2, None) \<Rightarrow> r2)))"

section \<open>Delivery\<close>

fun deliver_to :: "('v, 'w) write_env \<Rightarrow> node_id list \<Rightarrow> ('v, err) batch \<Rightarrow> write_round list list \<Rightarrow> ('v, 'w) runner \<Rightarrow>
  (('v, 'w) runner \<times> err option) option" where
  "deliver_to we [] b rdss r = Some (r, None)"
| "deliver_to we (nid # nids) b rdss r =
     (case writeSet we nid (b_Records b) (b_Lane b) (b_Position b) (case rdss of [] \<Rightarrow> [] | rds # _ \<Rightarrow> rds) r of
        None \<Rightarrow> None
      | Some (r1, Some e) \<Rightarrow> Some (r1, Some e)
      | Some (r1, None) \<Rightarrow> deliver_to we nids b (tl rdss) (flushIfDue we nid r1))"

definition deliver :: "('v, 'w) write_env \<Rightarrow> ('v, err) batch \<Rightarrow> write_round list list \<Rightarrow> ('v, 'w) runner \<Rightarrow>
  (('v, 'w) runner \<times> err option) option" where
  "deliver we b rdss r = deliver_to we (we_mainSinks we) b rdss r"

section \<open>Records their source marked as failed\<close>

definition markedGone :: "('v, 'w) write_env \<Rightarrow> ('v, err) rec \<Rightarrow> err \<Rightarrow> ('v, 'w) runner \<Rightarrow> ('v, 'w) runner" where
  "markedGone we rc ferr r = nack_for we rc zero_position ferr ReasonTerminalFault 0 r"

fun route_marked :: "('v, 'w) write_env \<Rightarrow> node_id \<Rightarrow> ('v, err) rec list \<Rightarrow> ('v, err) rec list \<Rightarrow> ('v, 'w) runner \<Rightarrow>
  ('v, 'w) runner \<times> (err + ('v, err) rec list)" where
  "route_marked we node [] kept r = (r, Inr kept)"
| "route_marked we node (rc # rcs) kept r =
     (case rec_fault rc of
        None \<Rightarrow> route_marked we node rcs (kept @ [rc]) r
      | Some ferr \<Rightarrow>
          (case rp_Terminal (we_retry we) of
             TerminalDeadLetter \<Rightarrow>
               (case deadLetter we rc r of
                  (r1, Some e) \<Rightarrow> (r1, Inl e)
                | (r1, None) \<Rightarrow> route_marked we node rcs kept (markedGone we rc ferr r1))
           | TerminalDrop \<Rightarrow> route_marked we node rcs kept (markedGone we rc ferr r)
           | _ \<Rightarrow> (r, Inl (Wrap (''engine: source '' @ node @ '' marked a record failed: '' @ fault_Error ferr) ferr))))"

definition routeMarked :: "('v, 'w) write_env \<Rightarrow> node_id \<Rightarrow> ('v, err) batch \<Rightarrow> ('v, 'w) runner \<Rightarrow>
  ('v, 'w) runner \<times> ('v, err) batch \<times> err option" where
  "routeMarked we node b r =
     (if list_all (\<lambda>rc. rec_fault rc = None) (b_Records b) then (r, b, None)
      else case route_marked we node (b_Records b) [] r of
          (r1, Inl e) \<Rightarrow> (r1, b, Some e)
        | (r1, Inr kept) \<Rightarrow> (r1, b\<lparr>b_Records := kept\<rparr>, None))"

end
