(* ===== verification/Canal_WriteAcct.thy ===== *)
theory Canal_WriteAcct
  imports Canal_Write
begin

text \<open>
  The write path accounts for every record. A record is accounted for when it has been settled, or
  is held until the sink that accepted it makes it durable. \<open>accounted\<close> counts how often that is the
  case. The first group of lemmas follows the count through one write, the routing of its failures
  and the retry loop; the second bounds the number of turns of that loop when the sink raises no
  flow-control faults; the third follows the count through a flush.
\<close>

section \<open>Counting what is accounted for\<close>

definition held_count :: "record_id \<Rightarrow> (node_id \<times> ('v, err) rec list) list \<Rightarrow> nat" where
  "held_count k m = sum_list (map (\<lambda>(_, rs). count_list (map rec_ID rs) k) m)"

definition accounted :: "record_id \<Rightarrow> ('v, 'w) runner \<Rightarrow> nat" where
  "accounted k r = count_list (map out_Record (rn_outs r)) k + held_count k (rn_pending r)"

abbreviation ids :: "('v, err) rec list \<Rightarrow> record_id list" where
  "ids rs \<equiv> map rec_ID rs"

named_theorems acct \<open>how an operation changes the count of a record\<close>

lemma held_count_aput:
  "held_count k (AList.update n rs m) + count_list (ids (case map_of m n of None \<Rightarrow> [] | Some xs \<Rightarrow> xs)) k =
   held_count k m + count_list (ids rs) k"
  by (induction m) (auto simp: held_count_def split: option.splits)

lemma held_count_adel:
  "wf_amap m \<Longrightarrow> held_count k (AList.delete n m) + count_list (ids (case map_of m n of None \<Rightarrow> [] | Some xs \<Rightarrow> xs)) k =
   held_count k m"
proof (induction m)
  case Nil
  then show ?case by (simp add: held_count_def)
next
  case (Cons x m)
  obtain n' rs where x: "x = (n', rs)" by (cases x)
  have w: "wf_amap m" "n' \<notin> fst ` set m" using Cons.prems by (simp_all add: x wf_amap_def)
  show ?case
  proof (cases "n' = n")
    case True
    then have "AList.delete n m = m" using w(2) by (simp add: delete_id)
    moreover have "AList.delete n (x # m) = AList.delete n m" using True by (simp add: x)
    ultimately show ?thesis using True by (simp add: x held_count_def)
  next
    case False
    then show ?thesis using Cons.IH [OF w(1)] by (simp add: x held_count_def)
  qed
qed

lemma accounted_world [acct]: "accounted k (r\<lparr>rn_world := w\<rparr>) = accounted k r"
  by (simp add: accounted_def)

lemma accounted_failure [acct]: "accounted k (fail e r) = accounted k r"
  by (simp add: accounted_def fail_def)

lemma accounted_nack [acct]: "accounted k (nack_for we rc p e reason n r) = accounted k r"
  by (simp add: accounted_def nack_for_def Let_def)

lemma accounted_settle [acct]: "accounted k (settle outs r) = accounted k r + count_list (map out_Record outs) k"
  by (simp add: accounted_def settle_def)

lemma accounted_hold [acct]: "accounted k (hold n rs lane p r) = accounted k r + count_list (ids rs) k"
  using held_count_aput [of k n "held n r @ rs" "rn_pending r"]
  by (simp add: accounted_def hold_def held_def)

lemma accounted_return [acct]: "accounted k (returnUnflushed n rs r) = accounted k r + count_list (ids rs) k"
  using held_count_aput [of k n "rs @ held n r" "rn_pending r"]
  by (simp add: accounted_def returnUnflushed_def held_def)

lemma accounted_take:
  "wf_amap (rn_pending r) \<Longrightarrow> take_held n r = (r', rs) \<Longrightarrow> accounted k r' + count_list (ids rs) k = accounted k r"
  using held_count_adel [of "rn_pending r" k n] by (auto simp: accounted_def take_held_def held_def)

lemma outcomesFor_ids [simp]: "map out_Record (outcomesFor n rs wr) = ids rs"
  by (auto simp: outcomesFor_def comp_def split: option.splits intro!: map_cong)

lemma accounted_settleOrHold [acct]:
  "accounted k (settleOrHold n sk landed wr lane p r) = accounted k r + count_list (ids landed) k"
  by (simp add: settleOrHold_def acct)

lemma accounted_abandon [acct]:
  "accounted k (abandon we n rc e reason p c r) = accounted k r + (if k = rec_ID rc then 1 else 0)"
  by (simp add: abandon_def acct)

lemma accounted_deadLetter [acct]: "deadLetter we rc r = (r', e) \<Longrightarrow> accounted k r' = accounted k r"
  by (auto simp: deadLetter_def acct split: if_splits prod.splits)

section \<open>One write\<close>

lemma map_of_note_failed:
  "map_of (note_failed f rs m) k = (if k \<in> set (ids rs) \<and> f k \<noteq> None then f k else map_of m k)"
  by (induction f rs m rule: note_failed.induct) (auto split: option.splits)

lemma count_ids_1: "distinct xs \<Longrightarrow> count_list xs k = (if k \<in> set xs then 1 else 0)"
  by (induction xs) auto

lemma count_filter_ids:
  "distinct (ids rs) \<Longrightarrow> count_list (ids (filter P rs)) k = (if \<exists>rc \<in> set rs. rec_ID rc = k \<and> P rc then 1 else 0)"
  by (subst count_ids_1) (auto simp: distinct_map_filter)

text \<open>
  \<open>answers rs r r' failed\<close>: every record of \<open>rs\<close> was accounted for once more unless \<open>failed\<close> names it,
  and no other record was touched.
\<close>

definition answers :: "record_id set \<Rightarrow> (record_id \<Rightarrow> err option) \<Rightarrow> ('v, 'w) runner \<Rightarrow> ('v, 'w) runner \<Rightarrow> bool" where
  "answers K failed r r' \<longleftrightarrow>
     (\<forall>k. accounted k r' = accounted k r + (if k \<in> K \<and> failed k = None then 1 else 0))"

definition at_most_once :: "record_id set \<Rightarrow> ('v, 'w) runner \<Rightarrow> ('v, 'w) runner \<Rightarrow> bool" where
  "at_most_once K r r' \<longleftrightarrow> (\<forall>k. accounted k r \<le> accounted k r' \<and> accounted k r' \<le> accounted k r + (if k \<in> K then 1 else 0))"

lemma at_most_once_world [simp]: "at_most_once K (r\<lparr>rn_world := w\<rparr>) r' = at_most_once K r r'"
  by (simp add: at_most_once_def acct)

lemma answers_world [simp]: "answers K f (r\<lparr>rn_world := w\<rparr>) r' = answers K f r r'"
  by (simp add: answers_def acct)

lemma write_requests_step:
  assumes "distinct (ids rs)"
  shows "accounted k (settleOrHold n sk (filter (\<lambda>rc. named wr (rec_ID rc) = None) rs) wr lane p (r\<lparr>rn_world := w\<rparr>)) =
    accounted k r + (if k \<in> set (ids rs) \<and> named wr k = None then 1 else 0)"
  using assms by (auto simp: acct count_filter_ids)

abbreviation call_ids :: "'v sink_call list \<Rightarrow> record_id list" where
  "call_ids reqs \<equiv> ids (concat (map snd reqs))"

lemma write_requests_spec:
  assumes "distinct (call_ids reqs)" and "\<forall>k \<in> set (call_ids reqs). map_of failed k = None"
  shows "case write_requests n sk lane p reqs r failed of
      (r', Inl e) \<Rightarrow> at_most_once (set (call_ids reqs)) r r'
    | (r', Inr failed') \<Rightarrow> answers (set (call_ids reqs)) (map_of failed') r r' \<and>
        (\<forall>k. k \<notin> set (call_ids reqs) \<longrightarrow> map_of failed' k = map_of failed k)"
  using assms
proof (induction reqs arbitrary: r failed)
  case Nil
  then show ?case by (simp add: answers_def)
next
  case (Cons req reqs)
  obtain rq rs where req: "req = (rq, rs)" by (cases req)
  obtain w a where sb: "sandbox (sk_Name sk) (sk_Write sk rq (rn_world r)) = (w, a)" by fastforce
  have d: "distinct (ids rs)" "distinct (call_ids reqs)" "set (ids rs) \<inter> set (call_ids reqs) = {}"
    using Cons.prems(1) by (auto simp: req)
  let ?K = "set (ids rs)" and ?L = "set (call_ids reqs)"
  have KL: "set (call_ids (req # reqs)) = ?K \<union> ?L" by (simp add: req image_Un)
  have none: "map_of failed k = None" if "k \<in> ?K \<union> ?L" for k using Cons.prems(2) that unfolding KL by blast
  \<comment> \<open>one request that went through as a whole, followed by the others\<close>
  have step: "case write_requests n sk lane p reqs r1 (note_failed f rs failed) of
      (r', Inl e) \<Rightarrow> at_most_once (?K \<union> ?L) r r'
    | (r', Inr failed') \<Rightarrow> answers (?K \<union> ?L) (map_of failed') r r' \<and>
        (\<forall>k. k \<notin> ?K \<union> ?L \<longrightarrow> map_of failed' k = map_of failed k)"
    if acc: "\<And>k. accounted k r1 = accounted k r + (if k \<in> ?K \<and> f k = None then 1 else 0)" for r1 f
  proof -
    have "\<forall>k \<in> ?L. map_of (note_failed f rs failed) k = None"
      using none d(3) by (auto simp: map_of_note_failed)
    note IH = Cons.IH [OF d(2) this, of r1]
    obtain r' ans where wq: "write_requests n sk lane p reqs r1 (note_failed f rs failed) = (r', ans)" by fastforce
    have dj: "\<not> (k \<in> ?K \<and> k \<in> ?L)" for k using d(3) by blast
    show ?thesis
    proof (cases ans)
      case (Inl e)
      then have IH: "at_most_once ?L r1 r'" using IH by (simp add: wq)
      have "accounted k r \<le> accounted k r' \<and> accounted k r' \<le> accounted k r + (if k \<in> ?K \<union> ?L then 1 else 0)" for k
        using IH acc [of k] dj [of k] unfolding at_most_once_def by (auto dest!: spec [of _ k] split: if_splits)
      then show ?thesis by (simp add: wq Inl at_most_once_def)
    next
      case (Inr failed')
      then have a: "answers ?L (map_of failed') r1 r'"
        and o: "\<And>k. k \<notin> ?L \<Longrightarrow> map_of failed' k = map_of (note_failed f rs failed) k" using IH by (simp_all add: wq)
      have "accounted k r' = accounted k r + (if k \<in> ?K \<union> ?L \<and> map_of failed' k = None then 1 else 0)" for k
        using a acc [of k] dj [of k] o [of k] none [of k] unfolding answers_def map_of_note_failed
        by (auto dest!: spec [of _ k] split: if_splits)
      moreover have "map_of failed' k = map_of failed k" if "k \<notin> ?K \<union> ?L" for k
        using o [of k] that by (simp add: map_of_note_failed)
      ultimately show ?thesis by (simp add: wq Inr answers_def)
    qed
  qed
  show ?case
  proof (cases a)
    case (Inl e)
    have "accounted k (r\<lparr>rn_world := w\<rparr>) = accounted k r + (if k \<in> ?K \<and> Some e = None then 1 else 0)" for k
      by (simp add: acct)
    from step [OF this] show ?thesis unfolding KL by (simp add: req sb Inl)
  next
    case (Inr wr)
    have "at_most_once (?K \<union> ?L) r (r\<lparr>rn_world := w\<rparr>)" by (simp add: at_most_once_def acct)
    then show ?thesis
      using step [OF write_requests_step [OF d(1), where n = n and sk = sk and wr = wr and lane = lane and p = p and w = w]]
      unfolding KL by (simp add: req sb Inr Let_def del: set_map set_concat Un_iff)
  qed
qed

text \<open>The requests a batch becomes carry exactly its records, in order.\<close>

lemma encode_each_records: "encode_each cc rs w = (w', Inr reqs) \<Longrightarrow> concat (map snd reqs) = rs"
  by (induction cc rs w arbitrary: reqs rule: encode_each.induct) (auto split: prod.splits sum.splits)

lemma buildRequests_records: "buildRequests sk cc rs w = (w', Inr reqs) \<Longrightarrow> concat (map snd reqs) = rs"
  by (auto simp: buildRequests_def encode_each_records bind_result_Inr_iff split: if_splits prod.splits sum.splits)

lemma writeOnce_spec:
  assumes "distinct (ids rs)"
  shows "case writeOnce we n rs lane p r of
      (r', Inl e) \<Rightarrow> at_most_once (set (ids rs)) r r'
    | (r', Inr failed) \<Rightarrow> answers (set (ids rs)) (map_of failed) r r' \<and> (\<forall>k. k \<notin> set (ids rs) \<longrightarrow> map_of failed k = None)"
proof -
  obtain w b where br: "buildRequests (we_sinks we n) (we_codecs we n) rs (rn_world r) = (w, b)" by fastforce
  show ?thesis
  proof (cases b)
    case (Inl e)
    have "answers (set (ids rs)) (map_of (note_failed (\<lambda>_. Some e) rs [])) r (r\<lparr>rn_world := w\<rparr>)"
      by (simp add: answers_def map_of_note_failed acct)
    then show ?thesis by (simp add: writeOnce_def br Inl map_of_note_failed)
  next
    case (Inr reqs)
    have c: "concat (map snd reqs) = rs" by (rule buildRequests_records [OF br [unfolded Inr]])
    have "case write_requests n (we_sinks we n) lane p reqs (r\<lparr>rn_world := w\<rparr>) [] of
        (r', Inl e) \<Rightarrow> at_most_once (set (ids rs)) (r\<lparr>rn_world := w\<rparr>) r'
      | (r', Inr failed') \<Rightarrow> answers (set (ids rs)) (map_of failed') (r\<lparr>rn_world := w\<rparr>) r' \<and>
          (\<forall>k. k \<notin> set (ids rs) \<longrightarrow> map_of failed' k = map_of [] k)"
      by (rule write_requests_spec [of reqs "[]", unfolded c, OF assms]) simp
    then show ?thesis
      by (cases "write_requests n (we_sinks we n) lane p reqs (r\<lparr>rn_world := w\<rparr>) []";
          cases "snd (write_requests n (we_sinks we n) lane p reqs (r\<lparr>rn_world := w\<rparr>) [])")
        (simp_all add: writeOnce_def br Inr)
  qed
qed

section \<open>Routing the failures\<close>

definition routed_to :: "(record_id \<Rightarrow> err option) \<Rightarrow> ('v, err) rec list \<Rightarrow> ('v, err) rec list \<Rightarrow> record_id \<Rightarrow> nat" where
  "routed_to failed rs again k = (if k \<in> set (ids rs) \<and> failed k \<noteq> None \<and> k \<notin> set (ids again) then 1 else 0)"

definition route_ok :: "(record_id \<Rightarrow> err option) \<Rightarrow> ('v, err) rec list \<Rightarrow> ('v, err) rec list \<Rightarrow> ('v, 'w) runner \<Rightarrow>
  ('v, 'w) runner \<times> (err + attempts \<times> ('v, err) rec list \<times> duration) \<Rightarrow> bool" where
  "route_ok failed rcs again r x \<longleftrightarrow> (case x of
      (r', Inl e) \<Rightarrow> at_most_once {k \<in> set (ids rcs). failed k \<noteq> None} r r'
    | (r', Inr (atts', again', wait')) \<Rightarrow> \<exists>P. again' = again @ filter P rcs \<and>
        (\<forall>rc \<in> set rcs. P rc \<longrightarrow> failed (rec_ID rc) \<noteq> None) \<and>
        (\<forall>k. accounted k r' = accounted k r + routed_to failed rcs (filter P rcs) k))"

lemma route_failed_spec:
  assumes "distinct (ids rcs)"
  shows "route_ok failed rcs again r (route_failed we n p rd failed rcs r atts again wait)"
  using assms
proof (induction rcs arbitrary: r atts again wait)
  case Nil
  then show ?case by (simp add: routed_to_def route_ok_def)
next
  case (Cons rc rcs)
  let ?k = "rec_ID rc"
  have d: "distinct (ids rcs)" "?k \<notin> set (ids rcs)" using Cons.prems by simp_all
  \<comment> \<open>the rest of the records, after this one was accounted for or not\<close>
  have rest: "route_ok failed (rc # rcs) again r
      (route_failed we n p rd failed rcs rx atts' (again @ (if b then [rc] else [])) wait')"
    if acc: "\<And>k. accounted k rx = accounted k r + (if k = ?k \<and> failed ?k \<noteq> None \<and> \<not> b then 1 else 0)"
      and b: "b \<Longrightarrow> failed ?k \<noteq> None" for rx atts' wait' b
  proof -
    obtain r' ans where rf: "route_failed we n p rd failed rcs rx atts' (again @ (if b then [rc] else [])) wait' = (r', ans)"
      by fastforce
    note IH = Cons.IH [OF d(1), where r = rx and atts = atts' and again = "again @ (if b then [rc] else [])" and wait = wait', unfolded rf]
    show ?thesis
    proof (cases ans)
      case (Inl e)
      then have "at_most_once {k \<in> set (ids rcs). failed k \<noteq> None} rx r'" using IH by (simp add: route_ok_def)
      then have "accounted k r \<le> accounted k r' \<and> accounted k r' \<le> accounted k r + (if k \<in> {k \<in> set (ids (rc # rcs)). failed k \<noteq> None} then 1 else 0)" for k
        using acc [of k] d(2) unfolding at_most_once_def by (auto dest!: spec [of _ k] split: if_splits)
      then show ?thesis by (simp add: rf Inl at_most_once_def route_ok_def)
    next
      case (Inr x)
      obtain atts'' again' w'' where x: "x = (atts'', again', w'')" by (cases x)
      from IH obtain P where P: "again' = (again @ (if b then [rc] else [])) @ filter P rcs"
        "\<forall>x \<in> set rcs. P x \<longrightarrow> failed (rec_ID x) \<noteq> None"
        "\<forall>k. accounted k r' = accounted k rx + routed_to failed rcs (filter P rcs) k"
        by (auto simp: Inr x route_ok_def)
      define Q where "Q = (\<lambda>y. if rec_ID y = ?k then b else P y)"
      have "filter Q rcs = filter P rcs" using d(2) by (intro filter_cong) (auto simp: Q_def image_iff)
      then have Q: "filter Q (rc # rcs) = (if b then [rc] else []) @ filter P rcs" by (simp add: Q_def)
      have "accounted k r' = accounted k r + routed_to failed (rc # rcs) (filter Q (rc # rcs)) k" for k
        using P(3) acc [of k] d(2) b unfolding Q routed_to_def
        by (auto dest!: spec [of _ k] split: if_splits)
      moreover have "\<forall>y \<in> set (rc # rcs). Q y \<longrightarrow> failed (rec_ID y) \<noteq> None"
        using P(2) b by (auto simp: Q_def split: if_splits)
      moreover have "again' = again @ filter Q (rc # rcs)" using P(1) Q by simp
      ultimately show ?thesis unfolding route_ok_def rf Inr x prod.case sum.case by blast
    qed
  qed
  show ?case
  proof (cases "failed ?k")
    case None
    show ?thesis using rest [where rx = r and b = False and atts' = atts and wait' = wait] None by simp
  next
    case (Some ferr)
    obtain a rt where ro: "route (rd_draw rd ?k) ferr (sk_Idempotent (we_sinks we n)) (we_retry we) (att rd ?k atts) (rd_now rd ?k) = Some (a, rt)"
      using route_total by blast
    have refl_amo: "at_most_once K r r" for K by (simp add: at_most_once_def)
    show ?thesis
    proof (cases "rt_disp rt")
      case dispRetry
      show ?thesis using rest [where rx = r and b = True and atts' = "AList.update ?k a atts" and wait' = "max wait (rt_delay rt)"] Some ro dispRetry by simp
    next
      case dispDeadLetter
      obtain r1 de where dl: "deadLetter we rc r = (r1, de)" by fastforce
      have acc: "accounted k r1 = accounted k r" for k using accounted_deadLetter [OF dl] .
      show ?thesis
      proof (cases de)
        case None
        show ?thesis
          using rest [where rx = "abandon we n rc ferr (rt_reason rt) p (at_count a) r1" and b = False and atts' = "AList.update ?k a atts" and wait' = wait] Some ro
            dispDeadLetter dl None by (simp add: acct acc)
      next
        case (Some e)
        have "at_most_once K r r1" for K by (simp add: at_most_once_def acc)
        then show ?thesis using \<open>failed ?k = Some ferr\<close> ro dispDeadLetter dl Some by (simp add: route_ok_def)
      qed
    next
      case dispDrop
      show ?thesis
        using rest [where rx = "abandon we n rc ferr (rt_reason rt) p (at_count a) r" and b = False and atts' = "AList.update ?k a atts" and wait' = wait] Some ro dispDrop
        by (simp add: acct)
    qed (use Some ro refl_amo in \<open>simp_all add: route_ok_def\<close>)
  qed
qed

section \<open>The retry loop\<close>

lemma write_loop_spec:
  assumes "write_loop we n lane p rds rs atts r = Some (r', e)" and "distinct (ids rs)"
  shows "at_most_once (set (ids rs)) r r' \<and> (e = None \<longrightarrow> (\<forall>k \<in> set (ids rs). accounted k r' = accounted k r + 1))"
  using assms
proof (induction we n lane p rds rs atts r arbitrary: r' e rule: write_loop.induct)
  case (3 we n lane p rd rds rc rcs atts r)
  note route_failed.simps [simp del]
  let ?rs = "rc # rcs"
  let ?K = "set (ids ?rs)"
  obtain r1 ans where wo: "writeOnce we n ?rs lane p r = (r1, ans)" by fastforce
  note W = writeOnce_spec [OF "3.prems"(2), where we = we and n = n and lane = lane and p = p and r = r, unfolded wo prod.case]
  show ?case
  proof (cases ans)
    case (Inl x)
    then have "at_most_once ?K r r1" using W by simp
    then show ?thesis using "3.prems"(1) by (auto simp: wo Inl)
  next
    case (Inr failed)
    have a: "answers ?K (map_of failed) r r1" and o: "\<And>k. k \<notin> ?K \<Longrightarrow> map_of failed k = None"
      using W by (simp_all add: Inr)
    have acc1: "accounted k r1 = accounted k r + (if k \<in> ?K \<and> map_of failed k = None then 1 else 0)" for k
      using a by (simp add: answers_def)
    show ?thesis
    proof (cases "failed = []")
      case True
      then have "r' = r1" "e = None" using "3.prems"(1) by (simp_all add: wo Inr)
      then show ?thesis using acc1 True by (simp add: at_most_once_def)
    next
      case False
      obtain r2 ans2 where rf: "route_failed we n p rd (map_of failed) ?rs r1 atts [] 0 = (r2, ans2)" by fastforce
      note R = route_failed_spec [OF "3.prems"(2), where failed = "map_of failed" and again = "[]" and r = r1 and we = we and n = n
          and p = p and rd = rd and atts = atts and wait = 0, unfolded rf route_ok_def prod.case]
      show ?thesis
      proof (cases ans2)
        case (Inl x)
        have R: "at_most_once {k \<in> ?K. map_of failed k \<noteq> None} r1 r2" using R by (simp add: Inl)
        have "accounted k r \<le> accounted k r2 \<and> accounted k r2 \<le> accounted k r + (if k \<in> ?K then 1 else 0)" for k
          using R acc1 [of k] unfolding at_most_once_def by (auto dest!: spec [of _ k] split: if_splits)
        moreover have "r' = r2" "e \<noteq> None" using "3.prems"(1) False by (auto simp: wo Inr rf Inl)
        ultimately show ?thesis by (auto simp: at_most_once_def)
      next
        case y: (Inr y)
        obtain atts' again wait where y': "y = (atts', again, wait)" by (cases y)
        obtain P where P: "again = filter P ?rs" "\<forall>x \<in> set ?rs. P x \<longrightarrow> map_of failed (rec_ID x) \<noteq> None"
          "\<And>k. accounted k r2 = accounted k r1 + routed_to (map_of failed) ?rs again k"
          using R by (auto simp: y y')
        have acc2: "accounted k r2 = accounted k r + (if k \<in> ?K \<and> k \<notin> set (ids again) then 1 else 0)" for k
        proof -
          have "map_of failed k \<noteq> None" if "k \<in> set (ids again)"
            using P(2) that unfolding P(1) set_map set_filter by blast
          moreover have "k \<in> ?K" if "k \<in> set (ids again)"
            using that unfolding P(1) set_map set_filter by blast
          ultimately show ?thesis using P(3) [of k] acc1 [of k] by (auto simp: routed_to_def)
        qed
        have da: "distinct (ids again)" using "3.prems"(2) unfolding P(1) by (rule distinct_map_filter)
        have sub: "set (ids again) \<subseteq> ?K" unfolding P(1) set_map set_filter by blast
        have amo2: "at_most_once ?K r r2" by (simp add: at_most_once_def acc2)
        show ?thesis
        proof (cases "again = []")
          case True
          then have "r' = r2" "e = None" using "3.prems"(1) False by (simp_all add: wo Inr rf y y')
          then show ?thesis using amo2 acc2 True by simp
        next
          case ne: False
          show ?thesis
          proof (cases "rd_sleep rd")
            case (Some x)
            then have "r' = r2" "e = Some x" using "3.prems"(1) False ne by (simp_all add: wo Inr rf y y')
            then show ?thesis using amo2 by auto
          next
            case None
            then have "write_loop we n lane p rds again atts' r2 = Some (r', e)"
              using "3.prems"(1) False ne by (simp add: wo Inr rf y y')
            from "3.IH" [OF wo [symmetric] Inr False rf [symmetric] y y' [symmetric] refl ne None this da]
            have IH: "at_most_once (set (ids again)) r2 r'" "e = None \<Longrightarrow> \<forall>k \<in> set (ids again). accounted k r' = accounted k r2 + 1"
              by simp_all
            have "accounted k r \<le> accounted k r' \<and> accounted k r' \<le> accounted k r + (if k \<in> ?K then 1 else 0)" for k
              using IH(1) acc2 [of k] sub unfolding at_most_once_def by (auto dest!: spec [of _ k] split: if_splits)
            moreover have "accounted k r' = accounted k r + 1" if "e = None" "k \<in> ?K" for k
              using IH acc2 [of k] that unfolding at_most_once_def
              by (cases "k \<in> set (ids again)") (auto dest!: spec [of _ k] split: if_splits)
            ultimately show ?thesis by (simp add: at_most_once_def)
          qed
        qed
      qed
    qed
  qed
qed (auto simp: at_most_once_def)

section \<open>The loop ends\<close>

text \<open>A sink that raises no flow-control fault, whatever it is asked and whenever.\<close>

definition counted_sink :: "('v, 'w) sink \<Rightarrow> bool" where
  "counted_sink sk \<longleftrightarrow> (\<forall>rq w. case snd (sk_Write sk rq w) of
      Returned wr \<Rightarrow> \<forall>f \<in> set (wr_Failed wr). Counted (rf_Class f)
    | ReturnedErr e \<Rightarrow> Counted (ClassOf e)
    | _ \<Rightarrow> True)"

definition all_counted :: "(record_id \<times> err) list \<Rightarrow> bool" where
  "all_counted m \<longleftrightarrow> (\<forall>k e. map_of m k = Some e \<longrightarrow> Counted (ClassOf e))"

lemma Counted_routed: "Counted (ClassOf e) \<Longrightarrow> Counted (routed_class e)"
  by (auto simp: routed_class_def Counted_def)

lemma all_counted_note:
  "all_counted m \<Longrightarrow> (\<And>k e. f k = Some e \<Longrightarrow> Counted (ClassOf e)) \<Longrightarrow> all_counted (note_failed f rs m)"
  by (auto simp: all_counted_def map_of_note_failed split: if_splits)

lemma ClassOf_rf_Fault [simp]: "ClassOf (rf_Fault f) = rf_Class f"
  by (simp add: rf_Fault_def)

lemma named_counted: "named wr k = Some e \<Longrightarrow> \<exists>f \<in> set (wr_Failed wr). e = rf_Fault f"
  by (auto simp: named_def dest!: map_of_SomeD)

lemma sandbox_counted:
  "counted_sink sk \<Longrightarrow> sandbox nm (sk_Write sk rq w) = (w', Inl e) \<Longrightarrow> Counted (ClassOf e)"
  "counted_sink sk \<Longrightarrow> sandbox nm (sk_Write sk rq w) = (w', Inr wr) \<Longrightarrow> named wr k = Some e \<Longrightarrow> Counted (ClassOf e)"
  unfolding counted_sink_def sandbox_def
  by (drule spec [of _ rq], drule spec [of _ w],
      auto simp: Bug_def Internal_def Counted_def dest!: named_counted split: call.splits)+

lemma write_requests_counted:
  "counted_sink sk \<Longrightarrow> all_counted failed \<Longrightarrow> write_requests n sk lane p reqs r failed = (r', Inr failed') \<Longrightarrow> all_counted failed'"
proof (induction reqs arbitrary: r failed)
  case (Cons req reqs)
  obtain rq rs where req: "req = (rq, rs)" by (cases req)
  obtain w a where sb: "sandbox (sk_Name sk) (sk_Write sk rq (rn_world r)) = (w, a)" by fastforce
  show ?case
  proof (cases a)
    case (Inl e)
    have "all_counted (note_failed (\<lambda>_. Some e) rs failed)"
      by (rule all_counted_note) (use Cons.prems sandbox_counted(1) sb Inl in auto)
    then show ?thesis using Cons.IH [OF Cons.prems(1)] Cons.prems(3) by (simp add: req sb Inl)
  next
    case (Inr wr)
    have "all_counted (note_failed (named wr) rs failed)"
      by (rule all_counted_note) (use Cons.prems sandbox_counted(2) sb Inr in auto)
    then show ?thesis using Cons.IH [OF Cons.prems(1)] Cons.prems(3)
      by (simp add: req sb Inr Let_def split: if_splits)
  qed
qed simp

lemma encode_fault_counted: "Counted (ClassOf (encode_fault rc e))"
  by (simp add: encode_fault_def Mapping_def Counted_def)

lemma buildRequests_counted: "buildRequests sk cc rs w = (w', Inl e) \<Longrightarrow> Counted (ClassOf e)"
proof -
  note ef = encode_fault_counted
  have fi: "finish cc body refs count = Inl e' \<Longrightarrow> Counted (ClassOf e')" for body refs count e'
    by (auto simp: finish_def Permanent_def Counted_def split: option.splits sum.splits)
  have ea: "encode_all cc body rs w = (w', Inl e') \<Longrightarrow> Counted (ClassOf e')" for body rs w w' e'
    by (induction cc body rs w rule: encode_all.induct) (auto simp: ef split: prod.splits sum.splits)
  have ec: "encode_each cc rs w = (w', Inl e') \<Longrightarrow> Counted (ClassOf e')" for rs w w' e'
    by (induction rs arbitrary: w) (auto simp: ef dest: fi split: prod.splits sum.splits)
  have bi: "bind_result (finish cc body refs count) (\<lambda>rq. Inr [(rq, rs)]) = Inl e' \<Longrightarrow> Counted (ClassOf e')"
    for body refs count e' rs
    by (cases "finish cc body refs count") (auto dest: fi)
  assume "buildRequests sk cc rs w = (w', Inl e)"
  then show ?thesis
    by (auto simp: buildRequests_def dest: ea ec bi split: if_splits prod.splits sum.splits)
qed

lemma writeOnce_counted:
  assumes "counted_sink (we_sinks we n)" and "writeOnce we n rs lane p r = (r', Inr failed)"
  shows "all_counted failed"
proof -
  have e: "all_counted []" by (simp add: all_counted_def)
  obtain w b where b: "buildRequests (we_sinks we n) (we_codecs we n) rs (rn_world r) = (w, b)" by fastforce
  show ?thesis
  proof (cases b)
    case (Inl x)
    then have "failed = note_failed (\<lambda>_. Some x) rs []" using assms(2) by (simp add: writeOnce_def b)
    then show ?thesis using buildRequests_counted [OF b [unfolded Inl]] by (auto intro!: all_counted_note [OF e])
  next
    case (Inr reqs)
    show ?thesis
      by (rule write_requests_counted [OF assms(1) e]) (use assms(2) in \<open>simp add: writeOnce_def b Inr\<close>)
  qed
qed

text \<open>A record that is presented again has spent one attempt more, and has one left.\<close>

definition spent :: "int \<Rightarrow> int \<Rightarrow> attempts \<Rightarrow> ('v, err) rec list \<Rightarrow> bool" where
  "spent m bnd atts rs \<longleftrightarrow> (\<forall>rc \<in> set rs. \<exists>a. map_of atts (rec_ID rc) = Some a \<and> m \<le> at_count a \<and> at_count a < bnd)"

lemma route_failed_spends:
  assumes "route_failed we n p rd failed rcs r atts again wait = (r', Inr (atts', again', wait'))"
    and "\<forall>k e. failed k = Some e \<longrightarrow> Counted (ClassOf e)" and "distinct (ids rcs)"
    and "\<forall>rc \<in> set rcs. m \<le> at_count (att rd (rec_ID rc) atts)"
    and "spent (m + 1) (rp_MaxAttempts (we_retry we)) atts again" and "set (ids again) \<inter> set (ids rcs) = {}"
  shows "spent (m + 1) (rp_MaxAttempts (we_retry we)) atts' again'"
  using assms
proof (induction rcs arbitrary: r atts again wait)
  case (Cons rc rcs)
  let ?k = "rec_ID rc" and ?lim = "rp_MaxAttempts (we_retry we)"
  have d: "distinct (ids rcs)" "?k \<notin> set (ids rcs)" using Cons.prems(3) by simp_all
  show ?case
  proof (cases "failed ?k")
    case None
    show ?thesis by (rule Cons.IH) (use Cons.prems None d in auto)
  next
    case (Some ferr)
    let ?a = "att rd ?k atts"
    obtain a rt where ro: "route (rd_draw rd ?k) ferr (sk_Idempotent (we_sinks we n)) (we_retry we) ?a (rd_now rd ?k) = Some (a, rt)"
      using route_total by blast
    let ?atts = "AList.update ?k a atts"
    have m: "\<forall>x \<in> set rcs. m \<le> at_count (att rd (rec_ID x) ?atts)"
      using Cons.prems(4) d(2) by (auto simp: att_def image_iff)
    have sp: "spent (m + 1) ?lim ?atts again"
      using Cons.prems(5,6) unfolding spent_def by (auto simp: image_iff)
    have dj: "set (ids again) \<inter> set (ids rcs) = {}" using Cons.prems(6) by auto
    show ?thesis
    proof (cases "rt_disp rt")
      case dispRetry
      have c: "Counted (routed_class ferr)" using Cons.prems(2) Some Counted_routed by blast
      have "at_count a = at_count ?a + 1" "at_count a < ?lim"
        using route_retryD(2,3) [OF ro dispRetry] c by simp_all
      then have "spent (m + 1) ?lim ?atts (again @ [rc])"
        using sp Cons.prems(4) unfolding spent_def by auto
      moreover have "route_failed we n p rd failed rcs r ?atts (again @ [rc]) (max wait (rt_delay rt)) = (r', Inr (atts', again', wait'))"
        using Cons.prems(1) Some ro dispRetry by simp
      ultimately show ?thesis using Cons.IH Cons.prems(2) d m dj by auto
    next
      case dispDeadLetter
      obtain rx where "route_failed we n p rd failed rcs rx ?atts again wait = (r', Inr (atts', again', wait'))"
        using Cons.prems(1) Some ro dispDeadLetter by (auto split: prod.splits option.splits)
      then show ?thesis using Cons.IH [OF _ Cons.prems(2) d(1) m sp dj] by blast
    next
      case dispDrop
      obtain rx where "route_failed we n p rd failed rcs rx ?atts again wait = (r', Inr (atts', again', wait'))"
        using Cons.prems(1) Some ro dispDrop by auto
      then show ?thesis using Cons.IH [OF _ Cons.prems(2) d(1) m sp dj] by blast
    qed (use Cons.prems(1) Some ro in simp_all)
  qed
qed simp

lemma write_loop_returns:
  assumes "counted_sink (we_sinks we n)" and "distinct (ids rs)"
    and "spent m (rp_MaxAttempts (we_retry we)) atts rs \<or> m = 0 \<and> atts = []"
    and "0 \<le> m" and "m + int (length rds) \<ge> max 1 (rp_MaxAttempts (we_retry we))"
  shows "\<exists>r' e. write_loop we n lane p rds rs atts r = Some (r', e)"
  using assms(2-)
proof (induction rds arbitrary: rs atts r m)
  case Nil
  let ?lim = "rp_MaxAttempts (we_retry we)"
  have "rs = []"
  proof (rule ccontr)
    assume "rs \<noteq> []"
    then obtain rc where rc: "rc \<in> set rs" by (cases rs) auto
    have "1 \<le> m" "?lim \<le> m" using Nil.prems(4) by simp_all
    then have "spent m ?lim atts rs" using Nil.prems(2) by auto
    then obtain a :: attempt where "m \<le> at_count a" "at_count a < ?lim" using rc unfolding spent_def by blast
    then show False using \<open>?lim \<le> m\<close> by simp
  qed
  then show ?case by simp
next
  case (Cons rd rds)
  let ?lim = "rp_MaxAttempts (we_retry we)"
  show ?case
  proof (cases rs)
    case rs: (Cons rc rcs)
    note route_failed.simps [simp del]
    obtain r1 ans where wo: "writeOnce we n rs lane p r = (r1, ans)" by fastforce
    show ?thesis
    proof (cases ans)
      case (Inr failed)
      obtain r2 ans2 where rf: "route_failed we n p rd (map_of failed) rs r1 atts [] 0 = (r2, ans2)" by fastforce
      show ?thesis
      proof (cases "failed = [] \<or> (\<exists>e. ans2 = Inl e)")
        case False
        then obtain atts' again wait where y: "ans2 = Inr (atts', again, wait)"
          by (cases ans2) auto
        have ac: "\<forall>k e. map_of failed k = Some e \<longrightarrow> Counted (ClassOf e)"
          using writeOnce_counted [OF assms(1) wo [unfolded Inr]] by (simp add: all_counted_def)
        have lo: "\<forall>rc \<in> set rs. m \<le> at_count (att rd (rec_ID rc) atts)"
          using Cons.prems(2) by (auto simp: spent_def att_def split: option.splits)
        have sp: "spent (m + 1) ?lim atts' again"
          by (rule route_failed_spends [OF rf [unfolded y] ac Cons.prems(1) lo]) (simp_all add: spent_def)
        obtain P where "again = filter P rs"
          using route_failed_spec [OF Cons.prems(1), where failed = "map_of failed" and again = "[]" and r = r1 and we = we and n = n
            and p = p and rd = rd and atts = atts and wait = 0, unfolded rf route_ok_def y] by auto
        then have da: "distinct (ids again)" using Cons.prems(1) by (simp add: distinct_map_filter)
        have "\<exists>r' e. write_loop we n lane p rds again atts' r2 = Some (r', e)"
          by (rule Cons.IH [where m = "m + 1"]) (use sp da Cons.prems in auto)
        then show ?thesis using False
          by (auto simp: rs wo [unfolded rs] Inr rf [unfolded rs] y split: option.splits)
      qed (auto simp: rs wo [unfolded rs] Inr rf [unfolded rs])
    qed (simp add: rs wo [unfolded rs])
  qed simp
qed

section \<open>Flushing\<close>

lemma count_partition: "count_list (ids (filter P rs)) k + count_list (ids (filter (\<lambda>x. \<not> P x) rs)) k = count_list (ids rs) k"
  by (induction rs) auto

lemma accounted_flushOne: "accounted k (fst (flushOne n nm fl rs reason r)) = accounted k r + count_list (ids rs) k"
proof -
  obtain w a where sb: "sandbox nm (fl reason (rn_world r)) = (w, a)" by fastforce
  show ?thesis
  proof (cases a)
    case (Inr wr)
    let ?P = "\<lambda>rc. rec_ID rc \<in> set (map rf_Record (wr_Failed wr)) \<union> set (wr_Deferred wr)"
    show ?thesis
      using count_partition [of ?P rs k] by (auto simp: flushOne_def sb Inr Let_def acct)
  qed (simp add: flushOne_def sb Let_def acct)
qed

lemma wf_pending [simp]:
  "wf_amap (rn_pending r) \<Longrightarrow> wf_amap (rn_pending (returnUnflushed n rs r))"
  "rn_pending (settle outs r) = rn_pending r"
  "rn_pending (fail e r) = rn_pending r"
  by (simp_all add: returnUnflushed_def settle_def fail_def)

lemma wf_flushOne: "wf_amap (rn_pending r) \<Longrightarrow> wf_amap (rn_pending (fst (flushOne n nm fl rs reason r)))"
  by (auto simp: flushOne_def Let_def split: prod.splits sum.splits)

lemma wf_take: "wf_amap (rn_pending r) \<Longrightarrow> wf_amap (rn_pending (fst (take_held n r)))"
  by (simp add: take_held_def)

lemma accounted_flush_held:
  assumes "wf_amap (rn_pending r)" and "take_held n r = (r1, rs)"
  shows "accounted k (fst (flushOne n nm fl rs reason r1)) = accounted k r"
    and "wf_amap (rn_pending (fst (flushOne n nm fl rs reason r1)))"
    and "rs = [] \<Longrightarrow> accounted k r1 = accounted k r" and "wf_amap (rn_pending r1)"
proof -
  show w: "wf_amap (rn_pending r1)" using wf_take [OF assms(1), of n] by (simp add: assms(2))
  show "wf_amap (rn_pending (fst (flushOne n nm fl rs reason r1)))" by (rule wf_flushOne [OF w])
qed (use accounted_take [OF assms, of k] in \<open>simp_all add: accounted_flushOne\<close>)

lemma accounted_signal: "signalFlush n nm fl reason r = (r', e) \<Longrightarrow> accounted k r' = accounted k r \<and> rn_pending r' = rn_pending r"
  by (auto simp: signalFlush_def accounted_def split: prod.splits)

lemma accounted_flushSinks: "wf_amap (rn_pending r) \<Longrightarrow> accounted k (flushSinks we reason ns r) = accounted k r"
proof (induction ns arbitrary: r)
  case (Cons n ns)
  show ?case
  proof (cases "sk_Flush (we_sinks we n)")
    case None
    then show ?thesis using Cons by simp
  next
    case fl: (Some fl)
    obtain r1 rs where t: "take_held n r = (r1, rs)" by fastforce
    note F = accounted_flush_held [OF Cons.prems t]
    show ?thesis
    proof (cases "commitsDurability (we_sinks we n)")
      case True
      obtain r2 e where s: "signalFlush n (sk_Name (we_sinks we n)) fl reason r = (r2, e)" by fastforce
      show ?thesis using True fl s accounted_signal [OF s] Cons by (cases e) (simp_all add: Let_def acct)
    next
      case False
      obtain r2 e where s: "flushOne n (sk_Name (we_sinks we n)) fl rs reason r1 = (r2, e)" by fastforce
      have 2: "accounted k r2 = accounted k r" "wf_amap (rn_pending r2)"
        using F(1) [where nm = "sk_Name (we_sinks we n)" and fl = fl and reason = reason]
          F(2) [where nm = "sk_Name (we_sinks we n)" and fl = fl and reason = reason] by (simp_all add: s)
      have skip: "rs = [] \<Longrightarrow> accounted k (flushSinks we reason ns r1) = accounted k r"
        using Cons.IH [OF F(4)] F(3) by simp
      show ?thesis using False fl t s 2 skip Cons.IH [OF 2(2)] by (cases e) (auto simp: Let_def acct)
    qed
  qed
qed simp

end
