(* ===== verification/Canal_WriteProps.thy ===== *)
theory Canal_WriteProps
  imports Canal_WriteAcct "HOL-Library.Code_Target_Numeral"
begin

text \<open>
  What the write path guarantees, and where it differs from its documentation, on sinks given as
  concrete functions.
\<close>

section \<open>Example sinks and codecs\<close>

text \<open>The world of the examples is the list of record ids written so far, in order.\<close>

type_synonym ex_world = "(node_id \<times> record_id) list"

definition ex_rec :: "record_id \<Rightarrow> bytes \<Rightarrow> (unit, err) rec" where
  "ex_rec k body = \<lparr>rec_origin = \<lparr>o_Tenant = ''t'', o_Pipeline = ''p'', o_Node = ''src'', o_Lane = ''L'', o_Stream = ''s'',
     o_Group = 1, o_ID = k, o_Key = None, o_Upstream = None, o_ReadAt = 0, o_Parent = 0, o_Parents = None, o_Root = k, o_refs = 1\<rparr>,
     rec_Dest = ''s'', rec_EventTime = 0, rec_Payload = BytesPayload (Some body), rec_Meta = empty_meta, rec_Change = None,
     rec_Schema = None, rec_handle = None, rec_fault = None\<rparr>"

definition ex_accept :: "node_id \<Rightarrow> unit request \<Rightarrow> ex_world \<Rightarrow> ex_world \<times> write_result call" where
  "ex_accept n rq w = (w @ map (\<lambda>x. (n, ref_ID x)) (rq_Records rq), Returned (AllWritten (rq_Count rq)))"

definition ex_refuse :: "err \<Rightarrow> unit request \<Rightarrow> ex_world \<Rightarrow> ex_world \<times> write_result call" where
  "ex_refuse e rq w = (w, ReturnedErr e)"

definition ex_sink :: "node_id \<Rightarrow> (unit request \<Rightarrow> ex_world \<Rightarrow> ex_world \<times> write_result call) \<Rightarrow> (unit, ex_world) sink" where
  "ex_sink n f = \<lparr>sk_Name = n, sk_Structured = False, sk_Idempotent = False, sk_Committer = False, sk_Write = f, sk_Flush = None\<rparr>"

text \<open>A codec that cannot encode an empty body and separates records by newlines.\<close>

definition ex_codec :: "(unit, ex_world) codec_chain" where
  "ex_codec = \<lparr>cc_Encode = (\<lambda>r w. (w, case pl_Bytes (rec_Payload r) of
        (Some b, _) \<Rightarrow> if b = [] then Inl (Plain ''empty body'') else Inr b | (None, _) \<Rightarrow> Inr [])),
     cc_framer = Some \<lparr>fr_Frame = (\<lambda>dst b. Inr (dst @ b @ [CHR 0x0A])), fr_Terminator = []\<rparr>,
     cc_Compress = None, cc_contentType = ''text'', cc_contentEncoding = []\<rparr>"

definition ex_env :: "(node_id \<Rightarrow> (unit, ex_world) sink) \<Rightarrow> retry_policy \<Rightarrow> (unit, ex_world) write_env" where
  "ex_env sinks pol = \<lparr>we_sinks = sinks, we_codecs = (\<lambda>_. ex_codec), we_retry = pol, we_mainSinks = [''A'', ''B''],
     we_failedSinks = [], we_trigger = 0, we_nackable = (\<lambda>_. False), we_ordering = (\<lambda>_. OrderingPrefix)\<rparr>"

definition ex_pos :: position where
  "ex_pos = zero_position\<lparr>pos_Safe := True\<rparr>"

definition ex_batch2 :: "(unit, err) rec list \<Rightarrow> (unit, err) batch" where
  "ex_batch2 rs = \<lparr>b_Records = rs, b_Lane = ''L'', b_Position = ex_pos, b_EndOfLane = False, b_group = 1, b_cap = 10\<rparr>"

text \<open>A runner whose ledger has admitted the batch.\<close>

definition ex_ledger :: "(unit, err) batch \<Rightarrow> ledger" where
  "ex_ledger b = fst (Admit 0 b (SetEpoch ''L'' 1 (fst (Lane ''L'' OrderingPrefix 10 WhenFullBlock
     (New \<lparr>cfg_Tenant = ''t'', cfg_Pipeline = ''p'', cfg_DefaultBudget = 10, cfg_GroupTTL = 0\<rparr>)))))"

definition ex_runner :: "(unit, err) batch \<Rightarrow> (unit, ex_world) runner" where
  "ex_runner b = \<lparr>rn_world = [], rn_ledger = ex_ledger b, rn_outs = [], rn_pending = [], rn_covered = [], rn_nacks = [],
     rn_failure = None\<rparr>"

definition ex_round :: write_round where
  "ex_round = \<lparr>rd_started = (\<lambda>_. 1), rd_now = (\<lambda>_. 2), rd_draw = (\<lambda>_. 0), rd_sleep = None\<rparr>"

text \<open>A sink that refuses record two for a transient reason the first time it is asked.\<close>

definition ex_flaky :: "unit request \<Rightarrow> ex_world \<Rightarrow> ex_world \<times> write_result call" where
  "ex_flaky rq w = (if w = [] then ([(''A'', 1)], Returned \<lparr>wr_Failed = [\<lparr>rf_Record = 2, rf_Class = TransientUpstream,
      rf_Op = FOpWrite, rf_User = [], rf_Dev = []\<rparr>], wr_Deferred = [], wr_Duplicates = [], wr_Written = 1\<rparr>)
    else ex_accept ''A'' rq w)"

definition ex_two :: "(unit, err) batch" where
  "ex_two = ex_batch2 [ex_rec 1 ''a'', ex_rec 2 ''b'']"

section \<open>Properties\<close>

text \<open>
  C25: When a set of records with distinct ids has been written, however often it took and whatever the
  sink answered, each of them has been accounted for exactly once: settled with one outcome, or held
  for the flush that earns it. When the write fails instead, each has been accounted for at most
  once, so nothing is settled that is still to be decided, and no other record is touched.
\<close>

theorem each_record_is_decided_once:
  assumes "writeSet we n rs lane p rds r = Some (r', e)" and "distinct (map rec_ID rs)"
  shows "(e = None \<longrightarrow> (\<forall>rc \<in> set rs. accounted (rec_ID rc) r' = accounted (rec_ID rc) r + 1)) \<and>
    (\<forall>rc \<in> set rs. accounted (rec_ID rc) r' \<le> accounted (rec_ID rc) r + 1) \<and>
    (\<forall>k. k \<notin> rec_ID ` set rs \<longrightarrow> accounted k r' = accounted k r)"
  using write_loop_spec [OF assms(1) [unfolded writeSet_def] assms(2)]
  by (fastforce simp: at_most_once_def dest: spec split: if_splits)

theorem each_record_is_decided_once_witness:
  "\<exists>r'. writeSet (ex_env (\<lambda>n. ex_sink n ex_flaky) DefaultRetry) ''A'' (b_Records ex_two) ''L'' ex_pos [ex_round, ex_round]
       (ex_runner ex_two) = Some (r', None) \<and>
     rn_world r' = [(''A'', 1), (''A'', 2)] \<and> (\<forall>rc \<in> set (b_Records ex_two). accounted (rec_ID rc) r' = 1)"
proof -
  let ?w = "writeSet (ex_env (\<lambda>n. ex_sink n ex_flaky) DefaultRetry) ''A'' (b_Records ex_two) ''L'' ex_pos [ex_round, ex_round]
       (ex_runner ex_two)"
  have "map_option (\<lambda>(r', e). (rn_world r', e)) ?w = Some ([(''A'', 1), (''A'', 2)], None)" by code_simp
  then obtain r' where r': "?w = Some (r', None)" "rn_world r' = [(''A'', 1), (''A'', 2)]" by auto
  have d: "distinct (map rec_ID (b_Records ex_two))" by code_simp
  have z: "\<forall>rc \<in> set (b_Records ex_two). accounted (rec_ID rc) (ex_runner ex_two) = 0" by code_simp
  from each_record_is_decided_once [OF r'(1) d] z r' show ?thesis by auto
qed

text \<open>
  C26: The write loop ends. Against a sink that raises no flow-control fault, a write returns after at
  most \<^verbatim>\<open>MaxAttempts\<close> rounds, whatever the faults, the clock and the random draws are.
\<close>

theorem write_returns_within_max_attempts:
  assumes "counted_sink (we_sinks we n)" and "distinct (map rec_ID rs)"
    and "int (length rds) \<ge> max 1 (rp_MaxAttempts (we_retry we))"
  shows "\<exists>r' e. writeSet we n rs lane p rds r = Some (r', e)"
  using write_loop_returns [OF assms(1,2), of 0 "[]" rds lane p r] assms(3) by (simp add: writeSet_def)

theorem write_returns_within_max_attempts_witness:
  "\<exists>r' e. writeSet (ex_env (\<lambda>n. ex_sink n (ex_refuse (Transient FOpWrite None))) DefaultRetry) ''A'' (b_Records ex_two) ''L'' ex_pos
       (replicate 4 ex_round) (ex_runner ex_two) = Some (r', e)"
proof (rule write_returns_within_max_attempts)
  show "counted_sink (we_sinks (ex_env (\<lambda>n. ex_sink n (ex_refuse (Transient FOpWrite None))) DefaultRetry) ''A'')"
    by (simp add: counted_sink_def ex_env_def ex_sink_def ex_refuse_def Transient_def Counted_def)
  show "distinct (map rec_ID (b_Records ex_two))" by code_simp
  show "max 1 (rp_MaxAttempts (we_retry (ex_env (\<lambda>n. ex_sink n (ex_refuse (Transient FOpWrite None))) DefaultRetry)))
      \<le> int (length (replicate 4 ex_round))" by (simp add: ex_env_def DefaultRetry_def)
qed

text \<open>
  A flush of all sinks neither loses nor duplicates a record: every record that was settled or
  held before it is settled or held after it, exactly as often.
\<close>

theorem flush_loses_nothing:
  "wf_amap (rn_pending r) \<Longrightarrow> accounted k (flushSinks we reason ns r) = accounted k r"
  by (rule accounted_flushSinks)

text \<open>A sink that holds two records and makes only the first one durable.\<close>

definition ex_holding :: "(unit, ex_world) runner" where
  "ex_holding = hold ''A'' (b_Records ex_two) ''L'' ex_pos (ex_runner ex_two)"

definition ex_flusher :: "node_id \<Rightarrow> (unit, ex_world) sink" where
  "ex_flusher n = (ex_sink n (ex_accept n))\<lparr>sk_Flush := Some (\<lambda>_ w. (w, Returned \<lparr>wr_Failed = [], wr_Deferred = [2],
     wr_Duplicates = [], wr_Written = 1\<rparr>))\<rparr>"

theorem flush_loses_nothing_witness:
  "map out_Record (rn_outs (flushSinks (ex_env ex_flusher DefaultRetry) FlushCheckpoint [''A''] ex_holding)) = [1] \<and>
   accounted 2 (flushSinks (ex_env ex_flusher DefaultRetry) FlushCheckpoint [''A''] ex_holding) = 1"
proof -
  have o: "map out_Record (rn_outs (flushSinks (ex_env ex_flusher DefaultRetry) FlushCheckpoint [''A''] ex_holding)) = [1]" by code_simp
  have w: "wf_amap (rn_pending ex_holding)" "accounted 2 ex_holding = 1" by code_simp+
  show ?thesis using o w(2) flush_loses_nothing [OF w(1), of 2 "ex_env ex_flusher DefaultRetry" FlushCheckpoint "[''A'']"] by simp
qed

section \<open>Behaviours that differ from the documentation\<close>

definition ex_one_bad :: "(unit, err) batch" where
  "ex_one_bad = ex_batch2 [ex_rec 1 ''a'', ex_rec 2 []]"

text \<open>
  One record that cannot be encoded takes its whole request with it: of a batch of two, with one
  empty body the codec refuses, both are abandoned under a dropping policy, and neither is written,
  although the sink accepts the first one when it is presented alone.
\<close>

theorem encode_error_abandons_healthy_records:
  "map_option (\<lambda>(r', e). (rn_world r', map (\<lambda>x. (out_Record x, out_Disposition x)) (rn_outs r'), e))
     (writeSet (ex_env (\<lambda>n. ex_sink n (ex_accept n)) (DefaultRetry\<lparr>rp_Terminal := TerminalDrop\<rparr>)) ''A''
        (b_Records ex_one_bad) ''L'' ex_pos [ex_round] (ex_runner ex_one_bad)) =
     Some ([], [(1, Abandoned), (2, Abandoned)], None) \<and>
   map_option (\<lambda>(r', e). (rn_world r', map (\<lambda>x. (out_Record x, out_Disposition x)) (rn_outs r'), e))
     (writeSet (ex_env (\<lambda>n. ex_sink n (ex_accept n)) (DefaultRetry\<lparr>rp_Terminal := TerminalDrop\<rparr>)) ''A''
        [ex_rec 1 ''a''] ''L'' ex_pos [ex_round] (ex_runner ex_one_bad)) =
     Some ([(''A'', 1)], [(1, Delivered)], None)"
  by (rule conjI; code_simp)

end
