(* ===== verification/Canal_Store.thy ===== *)
theory Canal_Store
  imports Canal_Keys Canal_Fault
begin

text \<open>
  The state-store contract: the atomic batch of \<^verbatim>\<open>pkg/store/key.go\<close>, the capabilities of
  \<^verbatim>\<open>pkg/store/state_store.go\<close>, and the interface locale \<open>state_store\<close> that says what
  \<^verbatim>\<open>StateStore.Set\<close> promises. The in-memory store and the write-ahead log both interpret it.

  Rows are keyed by the rendered key, as in the code. A batch's writes are a Go map keyed by the
  rendered key, hence an association list with distinct keys.
\<close>

section \<open>Batches\<close>

record versioned =
  v_Key :: store_key
  v_Value :: "bytes option"
  v_IfVersion :: nat
  v_Version :: nat
  v_Epoch :: nat

record deletion =
  d_Key :: store_key
  d_Epoch :: nat

record sbatch =
  sb_Epoch :: nat
  sb_Writes :: "(string \<times> versioned) list"
  sb_Deletes :: "deletion list"

definition NewSBatch :: "nat \<Rightarrow> sbatch" where
  "NewSBatch e = \<lparr>sb_Epoch = e, sb_Writes = [], sb_Deletes = []\<rparr>"

definition PutFenced :: "store_key \<Rightarrow> bytes option \<Rightarrow> nat \<Rightarrow> nat \<Rightarrow> sbatch \<Rightarrow> sbatch" where
  "PutFenced k value ifVersion epoch b = b\<lparr>sb_Writes := aput (key_String k)
     \<lparr>v_Key = k, v_Value = value, v_IfVersion = ifVersion, v_Version = 0, v_Epoch = epoch\<rparr> (sb_Writes b)\<rparr>"

definition Put :: "store_key \<Rightarrow> bytes option \<Rightarrow> nat \<Rightarrow> sbatch \<Rightarrow> sbatch" where
  "Put k value ifVersion b = b\<lparr>sb_Writes := aput (key_String k)
     \<lparr>v_Key = k, v_Value = value, v_IfVersion = ifVersion, v_Version = 0, v_Epoch = 0\<rparr> (sb_Writes b)\<rparr>"

definition Del :: "store_key \<Rightarrow> sbatch \<Rightarrow> sbatch" where
  "Del k b = b\<lparr>sb_Deletes := sb_Deletes b @ [\<lparr>d_Key = k, d_Epoch = 0\<rparr>]\<rparr>"

definition DelFenced :: "store_key \<Rightarrow> nat \<Rightarrow> sbatch \<Rightarrow> sbatch" where
  "DelFenced k e b = b\<lparr>sb_Deletes := sb_Deletes b @ [\<lparr>d_Key = k, d_Epoch = e\<rparr>]\<rparr>"

definition EpochFor :: "sbatch \<Rightarrow> versioned \<Rightarrow> nat" where
  "EpochFor b v = (if v_Epoch v \<noteq> 0 then v_Epoch v else sb_Epoch b)"

definition EpochForDelete :: "sbatch \<Rightarrow> deletion \<Rightarrow> nat" where
  "EpochForDelete b d = (if d_Epoch d \<noteq> 0 then d_Epoch d else sb_Epoch b)"

definition sbatch_Len :: "sbatch \<Rightarrow> nat" where
  "sbatch_Len b = length (sb_Writes b) + length (sb_Deletes b)"

text \<open>A batch built by the operations above: distinct names, each the rendering of its key.\<close>

definition wf_batch :: "sbatch \<Rightarrow> bool" where
  "wf_batch b \<longleftrightarrow> wf_amap (sb_Writes b) \<and> (\<forall>(n, v) \<in> set (sb_Writes b). n = key_String (v_Key v))"

lemma wf_batch_New [simp]: "wf_batch (NewSBatch e)"
  by (simp add: wf_batch_def NewSBatch_def)

lemma set_aput_subset: "set (AList.update k v m) \<subseteq> insert (k, v) (set m)"
  by (induction m) auto

lemma wf_batch_ops [simp]:
  "wf_batch b \<Longrightarrow> wf_batch (Put k v i b)"
  "wf_batch b \<Longrightarrow> wf_batch (PutFenced k v i e b)"
  "wf_batch b \<Longrightarrow> wf_batch (Del k b)"
  "wf_batch b \<Longrightarrow> wf_batch (DelFenced k e b)"
  unfolding wf_batch_def Put_def PutFenced_def Del_def DelFenced_def
  by (auto dest!: subsetD [OF set_aput_subset])

section \<open>Capabilities\<close>

datatype durability = DurabilityNone | DurabilityProcess | DurabilityNode | DurabilityCluster

datatype guarantee = AtMostOnce | AtLeastOnce | EffectivelyOnce | ExactlyOnce

fun durability_rank :: "durability \<Rightarrow> nat" where
  "durability_rank DurabilityNone = 0"
| "durability_rank DurabilityProcess = 1"
| "durability_rank DurabilityNode = 2"
| "durability_rank DurabilityCluster = 3"

fun guarantee_rank :: "guarantee \<Rightarrow> nat" where
  "guarantee_rank AtMostOnce = 0"
| "guarantee_rank AtLeastOnce = 1"
| "guarantee_rank EffectivelyOnce = 2"
| "guarantee_rank ExactlyOnce = 3"

record store_caps =
  sc_AtomicMultiKey :: bool
  sc_CAS :: bool
  sc_EpochFencing :: bool
  sc_Durability :: durability
  sc_FlushIsDurable :: bool

datatype unsupported = NotDurableOnReturn | NoFencing | VolatileDomain | TornCheckpoint

definition Supports :: "guarantee \<Rightarrow> store_caps \<Rightarrow> unsupported option" where
  "Supports g c =
     (if \<not> sc_FlushIsDurable c then Some NotDurableOnReturn
      else if \<not> sc_CAS c \<or> \<not> sc_EpochFencing c then Some NoFencing
      else if guarantee_rank g > guarantee_rank AtLeastOnce \<and>
              durability_rank (sc_Durability c) < durability_rank DurabilityNode then Some VolatileDomain
      else if guarantee_rank g > guarantee_rank AtLeastOnce \<and> \<not> sc_AtomicMultiKey c then Some TornCheckpoint
      else None)"

section \<open>What a batch requires and does, abstractly\<close>

text \<open>
  A state of the contract is what a store shows of a name: its row, as the bytes of its value and
  its version, and its fence floor, the highest epoch that ever wrote or deleted it.
\<close>

type_synonym row = "bytes \<times> nat"
type_synonym view = "(string \<Rightarrow> row option) \<times> (string \<Rightarrow> nat)"

definition content :: "bytes option \<Rightarrow> bytes" where
  "content v = (case v of None \<Rightarrow> [] | Some b \<Rightarrow> b)"

definition cas_ok :: "versioned \<Rightarrow> row option \<Rightarrow> bool" where
  "cas_ok v r \<longleftrightarrow> (case r of None \<Rightarrow> v_IfVersion v = 0 | Some (_, ver) \<Rightarrow> v_IfVersion v \<noteq> 0 \<and> v_IfVersion v = ver)"

definition allowed :: "sbatch \<Rightarrow> view \<Rightarrow> bool" where
  "allowed b s \<longleftrightarrow>
     (\<forall>(n, v) \<in> set (sb_Writes b). snd s n \<le> EpochFor b v \<and> cas_ok v (fst s n)) \<and>
     (\<forall>d \<in> set (sb_Deletes b). snd s (key_String (d_Key d)) \<le> EpochForDelete b d)"

definition put_view :: "sbatch \<Rightarrow> string \<times> versioned \<Rightarrow> view \<Rightarrow> view" where
  "put_view b x s = (case x of (n, v) \<Rightarrow>
     ((fst s)(n := Some (content (v_Value v), (case fst s n of None \<Rightarrow> 1 | Some (_, ver) \<Rightarrow> ver + 1))),
      (snd s)(n := max (snd s n) (EpochFor b v))))"

definition del_view :: "sbatch \<Rightarrow> deletion \<Rightarrow> view \<Rightarrow> view" where
  "del_view b d s = (let n = key_String (d_Key d) in
     ((fst s)(n := None), (snd s)(n := max (snd s n) (EpochForDelete b d))))"

definition commit_view :: "sbatch \<Rightarrow> view \<Rightarrow> view" where
  "commit_view b s = fold (del_view b) (sb_Deletes b) (fold (put_view b) (sb_Writes b) s)"

text \<open>The abstract store: all of the batch or none of it.\<close>

definition set_view :: "sbatch \<Rightarrow> view \<Rightarrow> view \<times> bool" where
  "set_view b s = (if allowed b s then (commit_view b s, True) else (s, False))"

definition touches :: "sbatch \<Rightarrow> string \<Rightarrow> nat \<Rightarrow> bool" where
  "touches b n e \<longleftrightarrow> (\<exists>v. (n, v) \<in> set (sb_Writes b) \<and> EpochFor b v = e) \<or>
     (\<exists>d \<in> set (sb_Deletes b). key_String (d_Key d) = n \<and> EpochForDelete b d = e)"

lemma floor_put [simp]: "snd (put_view b x s) n = (if n = fst x then max (snd s n) (EpochFor b (snd x)) else snd s n)"
  by (cases x) (simp add: put_view_def)

lemma floor_del [simp]:
  "snd (del_view b d s) n = (if n = key_String (d_Key d) then max (snd s n) (EpochForDelete b d) else snd s n)"
  by (simp add: del_view_def Let_def)

lemma floor_puts_mono: "snd s n \<le> snd (fold (put_view b) ws s) n"
proof (induction ws arbitrary: s)
  case (Cons x ws)
  have "snd s n \<le> snd (put_view b x s) n" by simp
  also have "\<dots> \<le> snd (fold (put_view b) ws (put_view b x s)) n" by (rule Cons.IH)
  finally show ?case by simp
qed simp

lemma floor_dels_mono: "snd s n \<le> snd (fold (del_view b) ds s) n"
proof (induction ds arbitrary: s)
  case (Cons x ds)
  have "snd s n \<le> snd (del_view b x s) n" by simp
  also have "\<dots> \<le> snd (fold (del_view b) ds (del_view b x s)) n" by (rule Cons.IH)
  finally show ?case by simp
qed simp

lemma floor_commit_mono: "snd s n \<le> snd (commit_view b s) n"
  unfolding commit_view_def using floor_puts_mono floor_dels_mono order_trans by blast

lemma floor_puts_ge: "(n, v) \<in> set ws \<Longrightarrow> EpochFor b v \<le> snd (fold (put_view b) ws s) n"
proof (induction ws arbitrary: s)
  case (Cons w ws)
  then show ?case
  proof (cases "w = (n, v)")
    case True
    then have "EpochFor b v \<le> snd (put_view b w s) n" by simp
    also have "\<dots> \<le> snd (fold (put_view b) ws (put_view b w s)) n" by (rule floor_puts_mono)
    finally show ?thesis by simp
  qed simp
qed simp

lemma floor_dels_ge: "d \<in> set ds \<Longrightarrow> EpochForDelete b d \<le> snd (fold (del_view b) ds s) (key_String (d_Key d))"
proof (induction ds arbitrary: s)
  case (Cons x ds)
  then show ?case
  proof (cases "x = d")
    case True
    then have "EpochForDelete b d \<le> snd (del_view b x s) (key_String (d_Key d))" by simp
    also have "\<dots> \<le> snd (fold (del_view b) ds (del_view b x s)) (key_String (d_Key d))" by (rule floor_dels_mono)
    finally show ?thesis by simp
  qed simp
qed simp

lemma floor_commit_ge:
  assumes "touches b n e"
  shows "e \<le> snd (commit_view b s) n"
  using assms floor_puts_ge floor_dels_ge order_trans [OF floor_puts_ge floor_dels_mono]
  unfolding touches_def commit_view_def by blast

lemma allowed_touches: "allowed b s \<Longrightarrow> touches b n e \<Longrightarrow> snd s n \<le> e"
  unfolding allowed_def touches_def by fastforce

section \<open>The interface\<close>

text \<open>
  A provider's \<open>set\<close> returns an error or none. Its laws are that it simulates the abstract store on
  the states of its invariant and the batches of \<open>fits\<close>.
\<close>

text \<open>A sequence of batches handed to a store, with whether each was accepted.\<close>

fun run_sets :: "(sbatch \<Rightarrow> 's \<Rightarrow> 's \<times> err option) \<Rightarrow> sbatch list \<Rightarrow> 's \<Rightarrow> 's \<times> bool list" where
  "run_sets set_op [] s = (s, [])"
| "run_sets set_op (b # bs) s =
     (let (s', e) = set_op b s; (s'', rs) = run_sets set_op bs s' in (s'', (e = None) # rs))"

fun run_fits :: "(sbatch \<Rightarrow> 's \<Rightarrow> 's \<times> err option) \<Rightarrow> (sbatch \<Rightarrow> 's \<Rightarrow> bool) \<Rightarrow> sbatch list \<Rightarrow> 's \<Rightarrow> bool" where
  "run_fits set_op fits [] s = True"
| "run_fits set_op fits (b # bs) s = (fits b s \<and> run_fits set_op fits bs (fst (set_op b s)))"

locale state_store =
  fixes view :: "'s \<Rightarrow> view"
    and set_op :: "sbatch \<Rightarrow> 's \<Rightarrow> 's \<times> err option"
    and invar :: "'s \<Rightarrow> bool"
    and fits :: "sbatch \<Rightarrow> 's \<Rightarrow> bool"
  assumes set_invar: "invar s \<Longrightarrow> fits b s \<Longrightarrow> invar (fst (set_op b s))"
    and set_refines: "invar s \<Longrightarrow> fits b s \<Longrightarrow>
      (view (fst (set_op b s)), snd (set_op b s) = None) = set_view b (view s)"
begin

abbreviation sets :: "sbatch list \<Rightarrow> 's \<Rightarrow> 's \<times> bool list" where
  "sets \<equiv> run_sets set_op"

abbreviation all_fit :: "sbatch list \<Rightarrow> 's \<Rightarrow> bool" where
  "all_fit \<equiv> run_fits set_op fits"

lemma set_ok_iff: "invar s \<Longrightarrow> fits b s \<Longrightarrow> snd (set_op b s) = None \<longleftrightarrow> allowed b (view s)"
  using set_refines [of s b] by (auto simp: set_view_def split: if_splits)

lemma view_set:
  "invar s \<Longrightarrow> fits b s \<Longrightarrow> view (fst (set_op b s)) = (if allowed b (view s) then commit_view b (view s) else view s)"
  using set_refines [of s b] by (auto simp: set_view_def split: if_splits)

lemma rejected_unchanged:
  "invar s \<Longrightarrow> fits b s \<Longrightarrow> snd (set_op b s) \<noteq> None \<Longrightarrow> view (fst (set_op b s)) = view s"
  using set_ok_iff view_set by auto

lemma floor_mono: "invar s \<Longrightarrow> fits b s \<Longrightarrow> snd (view s) n \<le> snd (view (fst (set_op b s))) n"
  by (simp add: view_set floor_commit_mono)

lemma floors_mono: "invar s \<Longrightarrow> all_fit bs s \<Longrightarrow> snd (view s) n \<le> snd (view (fst (sets bs s))) n"
proof (induction bs arbitrary: s)
  case (Cons b bs)
  have "snd (view s) n \<le> snd (view (fst (set_op b s))) n" using Cons.prems floor_mono by simp
  also have "\<dots> \<le> snd (view (fst (sets bs (fst (set_op b s))))) n"
    using Cons.prems by (intro Cons.IH) (simp_all add: set_invar)
  finally show ?case by (simp add: case_prod_unfold Let_def)
qed simp

lemma sets_invar: "invar s \<Longrightarrow> all_fit bs s \<Longrightarrow> invar (fst (sets bs s))"
  by (induction bs arbitrary: s) (simp_all add: set_invar case_prod_unfold Let_def)

text \<open>
  Once a batch was accepted for a name under some epoch, no later batch that touches the name under a
  lower epoch is ever accepted, whatever is written or deleted in between.
\<close>

lemma superseded_refused:
  assumes "invar s" and "fits b s" and "snd (set_op b s) = None" and "touches b n e"
    and "all_fit bs (fst (set_op b s))" and "s' = fst (sets bs (fst (set_op b s)))"
    and "fits b' s'" and "touches b' n e'" and "e' < e"
  shows "snd (set_op b' s') \<noteq> None"
proof -
  let ?s = "fst (set_op b s)"
  have i: "invar ?s" by (rule set_invar [OF assms(1,2)])
  have "e \<le> snd (view ?s) n"
    using assms(1-4) set_ok_iff view_set floor_commit_ge by simp
  also have "\<dots> \<le> snd (view s') n" unfolding assms(6) by (rule floors_mono [OF i assms(5)])
  finally have "e' < snd (view s') n" using assms(9) by simp
  then have "\<not> allowed b' (view s')" using allowed_touches [OF _ assms(8)] by fastforce
  moreover have "invar s'" unfolding assms(6) by (rule sets_invar [OF i assms(5)])
  ultimately show ?thesis using set_ok_iff [OF _ assms(7)] by simp
qed

end

section \<open>Two stores that keep the contract agree\<close>

text \<open>The answers of a store depend only on the abstract store it simulates.\<close>

fun view_sets :: "sbatch list \<Rightarrow> view \<Rightarrow> view \<times> bool list" where
  "view_sets [] s = (s, [])"
| "view_sets (b # bs) s = (let (s', ok) = set_view b s; (s'', rs) = view_sets bs s' in (s'', ok # rs))"

context state_store
begin

lemma sets_refine: "invar s \<Longrightarrow> all_fit bs s \<Longrightarrow> (view (fst (sets bs s)), snd (sets bs s)) = view_sets bs (view s)"
proof (induction bs arbitrary: s)
  case (Cons b bs)
  have r: "set_view b (view s) = (view (fst (set_op b s)), snd (set_op b s) = None)"
    using set_refines [of s b] Cons.prems by simp
  have IH: "view_sets bs (view (fst (set_op b s))) =
      (view (fst (sets bs (fst (set_op b s)))), snd (sets bs (fst (set_op b s))))"
    using Cons.IH [of "fst (set_op b s)"] Cons.prems set_invar by simp
  show ?case by (simp add: r IH case_prod_unfold Let_def)
qed simp

end

end
