(* ===== verification/Canal_Memstore.thy ===== *)
theory Canal_Memstore
  imports Canal_Store
begin

text \<open>
  The in-memory state store, \<^verbatim>\<open>internal/example/memstore/store.go\<close>. Its two maps are association lists
  with distinct keys. Deep copies are the identity on immutable values. The order in which \<^verbatim>\<open>Set\<close>
  visits the writes is the list order of the batch; only which error is reported depends on it.
\<close>

record memstore =
  ms_data :: "(string \<times> versioned) list"
  ms_epochs :: "(string \<times> nat) list"

definition mem_New :: memstore where
  "mem_New = \<lparr>ms_data = [], ms_epochs = []\<rparr>"

definition floor_of :: "(string \<times> nat) list \<Rightarrow> string \<Rightarrow> nat" where
  "floor_of m n = (case map_of m n of None \<Rightarrow> 0 | Some e \<Rightarrow> e)"

definition raise_floor :: "string \<Rightarrow> nat \<Rightarrow> (string \<times> nat) list \<Rightarrow> (string \<times> nat) list" where
  "raise_floor n e m = (if e > floor_of m n then aput n e m else m)"

definition version_of :: "(string \<times> versioned) list \<Rightarrow> string \<Rightarrow> nat" where
  "version_of m n = (case map_of m n of None \<Rightarrow> 0 | Some v \<Rightarrow> v_Version v)"

definition mem_Get :: "store_key list \<Rightarrow> memstore \<Rightarrow> (string \<times> versioned) list" where
  "mem_Get keys s = fold (\<lambda>k out. case map_of (ms_data s) (key_String k) of
      None \<Rightarrow> out | Some v \<Rightarrow> aput (key_String k) v out) keys []"

definition range_rows :: "store_key \<Rightarrow> (string \<times> versioned) list \<Rightarrow> (store_key \<times> versioned) list" where
  "range_rows prefix data =
     map (\<lambda>(_, v). (v_Key v, v)) (sort_key fst (filter (\<lambda>(_, v). key_Prefix (v_Key v) prefix) data))"

definition mem_Range :: "store_key \<Rightarrow> memstore \<Rightarrow> (store_key \<times> versioned) list" where
  "mem_Range prefix s = range_rows prefix (ms_data s)"

text \<open>The first pass of \<^verbatim>\<open>Set\<close>, shared in shape by both stores: the writes, then the deletes.\<close>

fun check_writes :: "sbatch \<Rightarrow> (string \<times> versioned) list \<Rightarrow> (string \<times> nat) list \<Rightarrow> (string \<times> versioned) list \<Rightarrow> err option" where
  "check_writes b data epochs [] = None"
| "check_writes b data epochs ((n, v) # ws) =
     (if EpochFor b v < floor_of epochs n then Some ErrFenced
      else case map_of data n of
        Some cur \<Rightarrow>
          if v_IfVersion v = 0 then Some (Contract FOpPersist (Some (Plain ''exists but the write required it not to'')))
          else if v_Version cur \<noteq> v_IfVersion v then Some (Contract FOpPersist (Some (Plain ''is at another version'')))
          else check_writes b data epochs ws
      | None \<Rightarrow>
          if v_IfVersion v \<noteq> 0 then Some (Contract FOpPersist (Some (Plain ''is at another version'')))
          else check_writes b data epochs ws)"

fun check_deletes :: "sbatch \<Rightarrow> (string \<times> nat) list \<Rightarrow> deletion list \<Rightarrow> err option" where
  "check_deletes b epochs [] = None"
| "check_deletes b epochs (d # ds) =
     (if EpochForDelete b d < floor_of epochs (key_String (d_Key d)) then Some ErrFenced
      else check_deletes b epochs ds)"

definition mem_write :: "sbatch \<Rightarrow> string \<times> versioned \<Rightarrow> memstore \<Rightarrow> memstore" where
  "mem_write b x s = (case x of (n, v) \<Rightarrow>
     \<lparr>ms_data = aput n (v\<lparr>v_Version := version_of (ms_data s) n + 1\<rparr>) (ms_data s),
      ms_epochs = raise_floor n (EpochFor b v) (ms_epochs s)\<rparr>)"

definition mem_delete :: "sbatch \<Rightarrow> deletion \<Rightarrow> memstore \<Rightarrow> memstore" where
  "mem_delete b d s = (let n = key_String (d_Key d) in
     \<lparr>ms_data = adel n (ms_data s), ms_epochs = raise_floor n (EpochForDelete b d) (ms_epochs s)\<rparr>)"

definition mem_Set :: "sbatch \<Rightarrow> memstore \<Rightarrow> memstore \<times> err option" where
  "mem_Set b s =
     (case check_writes b (ms_data s) (ms_epochs s) (sb_Writes b) of
        Some e \<Rightarrow> (s, Some e)
      | None \<Rightarrow>
          (case check_deletes b (ms_epochs s) (sb_Deletes b) of
             Some e \<Rightarrow> (s, Some e)
           | None \<Rightarrow> (fold (mem_delete b) (sb_Deletes b) (fold (mem_write b) (sb_Writes b) s), None)))"

definition mem_Delete :: "store_key list \<Rightarrow> memstore \<Rightarrow> memstore" where
  "mem_Delete keys s = s\<lparr>ms_data := fold (\<lambda>k. adel (key_String k)) keys (ms_data s)\<rparr>"

definition mem_Caps :: store_caps where
  "mem_Caps = \<lparr>sc_AtomicMultiKey = True, sc_CAS = True, sc_EpochFencing = True, sc_Durability = DurabilityNone,
     sc_FlushIsDurable = True\<rparr>"

section \<open>The contract holds\<close>

definition rows :: "(string \<times> versioned) list \<Rightarrow> string \<Rightarrow> row option" where
  "rows data n = map_option (\<lambda>v. (content (v_Value v), v_Version v)) (map_of data n)"

definition mem_view :: "memstore \<Rightarrow> view" where
  "mem_view s = (rows (ms_data s), floor_of (ms_epochs s))"

text \<open>Versions start at one, so version zero can mean absence.\<close>

definition versions_ok :: "(string \<times> versioned) list \<Rightarrow> bool" where
  "versions_ok data \<longleftrightarrow> (\<forall>n v. map_of data n = Some v \<longrightarrow> 0 < v_Version v)"

lemma floor_raise [simp]: "floor_of (raise_floor n e m) k = (if k = n then max (floor_of m n) e else floor_of m k)"
  by (auto simp: raise_floor_def floor_of_def split: option.splits)

lemma rows_aput [simp]: "rows (AList.update n v data) = (rows data)(n := Some (content (v_Value v), v_Version v))"
  by (auto simp: rows_def)

lemma rows_adel [simp]: "rows (AList.delete n data) = (rows data)(n := None)"
  by (auto simp: rows_def)

lemma versions_ok_upd [simp]:
  "versions_ok data \<Longrightarrow> 0 < v_Version v \<Longrightarrow> versions_ok (AList.update n v data)"
  "versions_ok data \<Longrightarrow> versions_ok (AList.delete n data)"
  by (auto simp: versions_ok_def)

lemma check_writes_iff:
  "versions_ok data \<Longrightarrow> check_writes b data epochs ws = None \<longleftrightarrow>
     (\<forall>(n, v) \<in> set ws. floor_of epochs n \<le> EpochFor b v \<and> cas_ok v (rows data n))"
proof (induction ws)
  case (Cons x ws)
  obtain n v where x: "x = (n, v)" by (cases x)
  let ?ok = "\<forall>(n, v) \<in> set ws. floor_of epochs n \<le> EpochFor b v \<and> cas_ok v (rows data n)"
  have IH: "check_writes b data epochs ws = None \<longleftrightarrow> ?ok" using Cons by simp
  have "check_writes b data epochs (x # ws) = None \<longleftrightarrow>
      (floor_of epochs n \<le> EpochFor b v \<and> cas_ok v (rows data n)) \<and> check_writes b data epochs ws = None"
  proof (cases "map_of data n")
    case (Some cur)
    have "0 < v_Version cur" using Cons.prems Some by (auto simp: versions_ok_def)
    then show ?thesis by (auto simp: x Some cas_ok_def rows_def not_less)
  qed (simp add: x cas_ok_def rows_def not_less)
  then show ?case by (simp add: IH x)
qed simp

lemma check_deletes_iff:
  "check_deletes b epochs ds = None \<longleftrightarrow> (\<forall>d \<in> set ds. floor_of epochs (key_String (d_Key d)) \<le> EpochForDelete b d)"
  by (induction ds) (auto simp: not_less)

lemma next_version: "(case rows data n of None \<Rightarrow> 1 | Some (_, ver) \<Rightarrow> ver + 1) = version_of data n + 1"
  by (simp add: rows_def version_of_def split: option.splits)

lemma mem_write_view: "mem_view (mem_write b x s) = put_view b x (mem_view s)"
  using next_version [of "ms_data s" "fst x"]
  by (cases x) (auto simp: mem_view_def mem_write_def put_view_def)

lemma mem_delete_view: "mem_view (mem_delete b d s) = del_view b d (mem_view s)"
  by (auto simp: mem_view_def mem_delete_def del_view_def Let_def)

lemma mem_writes_view: "mem_view (fold (mem_write b) ws s) = fold (put_view b) ws (mem_view s)"
  by (induction ws arbitrary: s) (simp_all add: mem_write_view)

lemma mem_deletes_view: "mem_view (fold (mem_delete b) ds s) = fold (del_view b) ds (mem_view s)"
  by (induction ds arbitrary: s) (simp_all add: mem_delete_view)

lemma mem_writes_ok: "versions_ok (ms_data s) \<Longrightarrow> versions_ok (ms_data (fold (mem_write b) ws s))"
  by (induction ws arbitrary: s) (auto simp: mem_write_def)

lemma mem_deletes_ok: "versions_ok (ms_data s) \<Longrightarrow> versions_ok (ms_data (fold (mem_delete b) ds s))"
  by (induction ds arbitrary: s) (auto simp: mem_delete_def Let_def)

lemma mem_allowed:
  "versions_ok (ms_data s) \<Longrightarrow>
   check_writes b (ms_data s) (ms_epochs s) (sb_Writes b) = None \<and> check_deletes b (ms_epochs s) (sb_Deletes b) = None \<longleftrightarrow>
   allowed b (mem_view s)"
  by (simp add: check_writes_iff check_deletes_iff allowed_def mem_view_def)

interpretation mem: state_store mem_view mem_Set "\<lambda>s. versions_ok (ms_data s)" "\<lambda>_ _. True"
proof unfold_locales
  fix s :: memstore and b
  assume v: "versions_ok (ms_data s)"
  show "versions_ok (ms_data (fst (mem_Set b s)))"
    using v by (simp add: mem_Set_def mem_writes_ok mem_deletes_ok split: option.splits)
  show "(mem_view (fst (mem_Set b s)), snd (mem_Set b s) = None) = set_view b (mem_view s)"
    using mem_allowed [OF v, of b]
    by (auto simp: mem_Set_def set_view_def commit_view_def mem_writes_view mem_deletes_view split: option.splits)
qed

lemma mem_New_ok: "versions_ok (ms_data mem_New)"
  by (simp add: mem_New_def versions_ok_def)

end
