(* ===== verification/Canal_WalFormat.thy ===== *)
theory Canal_WalFormat
  imports Canal_Keys "HOL-Library.Word"
begin

text \<open>
  The on-disk format of the write-ahead log, \<^verbatim>\<open>pkg/store/wal/format.go\<close>, and what it uses of the
  standard library: unsigned varints (\<^verbatim>\<open>encoding/binary\<close>), big-endian 32-bit integers and the CRC-32C
  checksum (\<^verbatim>\<open>hash/crc32\<close>, the Castagnoli polynomial, bit by bit).

  The decoding cursor is a parser on the remaining bytes: it returns the value and the rest, or
  \<open>None\<close> for the error that sticks to the cursor. The interface locale \<open>codec\<close> states the law a field's
  writer and reader keep, that reading what was written gives it back and leaves the rest; every
  field of the format interprets it.
\<close>

section \<open>Codecs\<close>

type_synonym 'a parser = "bytes \<Rightarrow> ('a \<times> bytes) option"

text \<open>Reading \<open>n\<close> items in a row.\<close>

fun read_many :: "'a parser \<Rightarrow> nat \<Rightarrow> 'a list parser" where
  "read_many p n bs =
     (if n = 0 then Some ([], bs)
      else case p bs of
        None \<Rightarrow> None
      | Some (x, bs') \<Rightarrow> (case read_many p (n - 1) bs' of None \<Rightarrow> None | Some (xs, r) \<Rightarrow> Some (x # xs, r)))"

declare read_many.simps [simp del]

lemma read_many_0 [simp]: "read_many p 0 bs = Some ([], bs)"
  by (simp add: read_many.simps)

lemma read_many_Suc [simp]:
  "read_many p (Suc n) bs = (case p bs of None \<Rightarrow> None
     | Some (x, bs') \<Rightarrow> (case read_many p n bs' of None \<Rightarrow> None | Some (xs, r) \<Rightarrow> Some (x # xs, r)))"
  by (subst read_many.simps) (auto split: option.splits)

locale codec =
  fixes put :: "'a \<Rightarrow> bytes"
    and get :: "'a parser"
    and fits :: "'a \<Rightarrow> bool"
  assumes get_put: "fits x \<Longrightarrow> get (put x @ rest) = Some (x, rest)"
begin

lemma put_inj: "fits x \<Longrightarrow> fits y \<Longrightarrow> put x @ r = put y @ s \<Longrightarrow> x = y \<and> r = s"
proof -
  assume a: "fits x" "fits y" "put x @ r = put y @ s"
  have "Some (x, r) = get (put x @ r)" by (rule get_put [OF a(1), symmetric])
  also have "\<dots> = Some (y, s)" unfolding a(3) by (rule get_put [OF a(2)])
  finally show ?thesis by simp
qed

lemma get_many: "list_all fits xs \<Longrightarrow> read_many get (length xs) (concat (map put xs) @ rest) = Some (xs, rest)"
  by (induction xs) (simp_all add: get_put)

end

section \<open>Bytes and integers\<close>

definition byte :: "nat \<Rightarrow> char" where
  "byte n = char_of (n mod 256)"

definition code :: "char \<Rightarrow> nat" where
  "code c = of_char c"

lemma code_byte [simp]: "code (byte n) = n mod 256"
  by (simp add: code_def byte_def)

lemma code_less [simp]: "code c < 256"
  by (simp add: code_def)

text \<open>\<^verbatim>\<open>binary.AppendUvarint\<close>: what is appended for \<open>v\<close>.\<close>

fun AppendUvarint :: "nat \<Rightarrow> bytes" where
  "AppendUvarint v = (if v < 128 then [byte v] else byte (v mod 128 + 128) # AppendUvarint (v div 128))"

declare AppendUvarint.simps [simp del]

text \<open>\<^verbatim>\<open>binary.Uvarint\<close>: at most ten bytes, the tenth at most one.\<close>

fun uvarint_from :: "nat \<Rightarrow> nat \<Rightarrow> nat parser" where
  "uvarint_from i x [] = None"
| "uvarint_from i x (c # cs) =
     (if i = 10 then None
      else if code c < 128 then
        (if i = 9 \<and> code c > 1 then None else Some (x + code c * 2 ^ (7 * i), cs))
      else uvarint_from (i + 1) (x + (code c mod 128) * 2 ^ (7 * i)) cs)"

definition uvarint :: "nat parser" where
  "uvarint = uvarint_from 0 0"

definition u64 :: "nat \<Rightarrow> bool" where
  "u64 n \<longleftrightarrow> n < 2 ^ 64"

lemma uvarint_from_append:
  "i \<le> 9 \<Longrightarrow> v < 2 ^ (64 - 7 * i) \<Longrightarrow> uvarint_from i x (AppendUvarint v @ rest) = Some (x + v * 2 ^ (7 * i), rest)"
proof (induction v arbitrary: i x rule: AppendUvarint.induct)
  case (1 v)
  show ?case
  proof (cases "v < 128")
    case True
    moreover have "\<not> (i = 9 \<and> 1 < v)" using "1.prems"(2) by auto
    ultimately show ?thesis using "1.prems"(1) by (subst AppendUvarint.simps) auto
  next
    case False
    have i: "i \<le> 8"
    proof (rule ccontr)
      assume "\<not> i \<le> 8"
      then have "i = 9" using "1.prems"(1) by simp
      then show False using "1.prems"(2) False by simp
    qed
    have e: "64 - 7 * i = 7 + (64 - 7 * (i + 1))" using i by simp
    have "v < 2 ^ 7 * 2 ^ (64 - 7 * (i + 1))" using "1.prems"(2) unfolding e power_add .
    then have d: "v div 128 < 2 ^ (64 - 7 * (i + 1))" by (simp add: div_less_iff_less_mult mult.commute)
    have p: "(2::nat) ^ (7 * (i + 1)) = 128 * 2 ^ (7 * i)" by (simp add: power_add)
    define q m where "q = v div 128" and "m = v mod 128"
    have v: "v = m + 128 * q" by (simp add: q_def m_def)
    have s: "x + m * 2 ^ (7 * i) + q * 2 ^ (7 * (i + 1)) = x + v * 2 ^ (7 * i)"
      unfolding p v by (simp add: algebra_simps)
    have b: "code (byte (v mod 128 + 128)) = v mod 128 + 128" by simp
    have "uvarint_from i x (AppendUvarint v @ rest) =
        uvarint_from (i + 1) (x + v mod 128 * 2 ^ (7 * i)) (AppendUvarint (v div 128) @ rest)"
      using False i by (subst AppendUvarint.simps) (simp add: b)
    also have "\<dots> = Some (x + v * 2 ^ (7 * i), rest)"
      using "1.IH" [OF False, of "i + 1" "x + v mod 128 * 2 ^ (7 * i)"] i d s unfolding q_def m_def by simp
    finally show ?thesis .
  qed
qed

interpretation uvarint: codec AppendUvarint uvarint u64
  by unfold_locales (simp add: uvarint_def u64_def uvarint_from_append)

lemma length_AppendUvarint_pos: "0 < length (AppendUvarint v)"
  by (subst AppendUvarint.simps) simp

text \<open>\<^verbatim>\<open>binary.BigEndian.PutUint32\<close> and \<^verbatim>\<open>Uint32\<close>.\<close>

definition PutUint32 :: "nat \<Rightarrow> bytes" where
  "PutUint32 n = [byte (n div 2 ^ 24), byte (n div 2 ^ 16), byte (n div 2 ^ 8), byte n]"

definition Uint32 :: "bytes \<Rightarrow> nat" where
  "Uint32 bs = foldl (\<lambda>x c. x * 256 + code c) 0 bs"

lemma length_PutUint32 [simp]: "length (PutUint32 n) = 4"
  by (simp add: PutUint32_def)

lemma Uint32_PutUint32: "n < 2 ^ 32 \<Longrightarrow> Uint32 (PutUint32 n) = n"
proof -
  assume n: "n < 2 ^ 32"
  let ?a = "n div 16777216" and ?b = "n div 65536" and ?c = "n div 256"
  have 1: "?b div 256 = ?a" "?c div 256 = ?b" by (simp_all add: div_mult2_eq [symmetric])
  have m: "?a mod 256 = ?a" using n by (simp add: div_less_iff_less_mult)
  then have "((?a * 256 + ?b mod 256) * 256 + ?c mod 256) * 256 + n mod 256 = n"
    using 1 div_mult_mod_eq [of ?b 256] div_mult_mod_eq [of ?c 256] div_mult_mod_eq [of n 256] by simp
  then show ?thesis using m by (simp add: Uint32_def PutUint32_def)
qed

section \<open>The checksum\<close>

unbundle bit_operations_syntax

definition crc_bit :: "32 word \<Rightarrow> 32 word" where
  "crc_bit c = (if bit c 0 then drop_bit 1 c XOR 0x82F63B78 else drop_bit 1 c)"

definition crc_byte :: "char \<Rightarrow> 32 word \<Rightarrow> 32 word" where
  "crc_byte b c = (crc_bit ^^ 8) (c XOR word_of_nat (code b))"

definition crc32c :: "bytes \<Rightarrow> nat" where
  "crc32c bs = unat (NOT (fold crc_byte bs (NOT 0)))"

lemma crc32c_less [simp]: "crc32c bs < 2 ^ 32"
  unfolding crc32c_def using unsigned_less [of "NOT (fold crc_byte bs (NOT 0)) :: 32 word"] by simp

section \<open>Fields\<close>

definition appendBytes :: "bytes \<Rightarrow> bytes" where
  "appendBytes v = AppendUvarint (length v) @ v"

definition cursor_bytes :: "bytes parser" where
  "cursor_bytes bs = (case uvarint bs of
      None \<Rightarrow> None
    | Some (n, r) \<Rightarrow> if n > length r then None else Some (take n r, drop n r))"

definition short :: "bytes \<Rightarrow> bool" where
  "short v \<longleftrightarrow> u64 (length v)"

interpretation field: codec appendBytes cursor_bytes short
  by unfold_locales (simp add: appendBytes_def cursor_bytes_def short_def uvarint.get_put)

definition appendKey :: "store_key \<Rightarrow> bytes" where
  "appendKey k = appendBytes (key_Tenant k) @ appendBytes (key_Space k) @
     AppendUvarint (length (key_Parts k)) @ concat (map appendBytes (key_Parts k))"

definition cursor_key :: "store_key parser" where
  "cursor_key bs = (case cursor_bytes bs of None \<Rightarrow> None | Some (tenant, r1) \<Rightarrow>
     (case cursor_bytes r1 of None \<Rightarrow> None | Some (space, r2) \<Rightarrow>
     (case uvarint r2 of None \<Rightarrow> None | Some (n, r3) \<Rightarrow>
       if n > length r3 then None
       else (case read_many cursor_bytes n r3 of None \<Rightarrow> None | Some (parts, r4) \<Rightarrow>
         Some (\<lparr>key_Tenant = tenant, key_Space = space, key_Parts = parts\<rparr>, r4)))))"

definition key_fits :: "store_key \<Rightarrow> bool" where
  "key_fits k \<longleftrightarrow> short (key_Tenant k) \<and> short (key_Space k) \<and> u64 (length (key_Parts k)) \<and> list_all short (key_Parts k)"

lemma length_concat_ge: "(\<And>x. x \<in> set xs \<Longrightarrow> 0 < length (f x)) \<Longrightarrow> length xs \<le> length (concat (map f xs))"
proof (induction xs)
  case (Cons x xs)
  have "1 \<le> length (f x)" using Cons.prems [of x] by (simp add: Suc_le_eq)
  moreover have "length xs \<le> length (concat (map f xs))" using Cons by simp
  ultimately show ?case by simp
qed simp

lemma appendBytes_pos: "0 < length (appendBytes v)"
  using length_AppendUvarint_pos by (simp add: appendBytes_def)

interpretation key: codec appendKey cursor_key key_fits
proof unfold_locales
  fix k rest
  assume k: "key_fits k"
  have "length (key_Parts k) \<le> length (concat (map appendBytes (key_Parts k)))"
    by (rule length_concat_ge) (rule appendBytes_pos)
  then have "\<not> length (key_Parts k) > length (concat (map appendBytes (key_Parts k)) @ rest)" by simp
  then show "cursor_key (appendKey k @ rest) = Some (k, rest)"
    using k field.get_many [of "key_Parts k" rest]
    by (simp add: cursor_key_def appendKey_def key_fits_def field.get_put uvarint.get_put del: length_append)
qed

section \<open>Entries\<close>

record applied_write =
  aw_key :: store_key
  aw_value :: "bytes option"
  aw_version :: nat
  aw_epochSeen :: nat

record applied_delete =
  ad_key :: store_key
  ad_epoch :: nat

record entry =
  en_writes :: "applied_write list"
  en_deletes :: "applied_delete list"

definition magic :: bytes where "magic = ''CANALWAL''"
definition formatV1 :: nat where "formatV1 = 1"
definition formatVersion :: nat where "formatVersion = 2"
definition headerLen :: nat where "headerLen = 10"
definition frameHeader :: nat where "frameHeader = 8"
definition opBatch :: nat where "opBatch = 1"
definition maxFrame :: nat where "maxFrame = 64 * 2 ^ 20"

text \<open>A nil value and an empty one are written alike, and read back as an empty one.\<close>

definition appendWrite :: "applied_write \<Rightarrow> bytes" where
  "appendWrite w = appendKey (aw_key w) @ appendBytes (case aw_value w of None \<Rightarrow> [] | Some b \<Rightarrow> b) @
     AppendUvarint (aw_version w) @ AppendUvarint (aw_epochSeen w)"

definition cursor_write :: "applied_write parser" where
  "cursor_write bs = (case cursor_key bs of None \<Rightarrow> None | Some (k, r1) \<Rightarrow>
     (case cursor_bytes r1 of None \<Rightarrow> None | Some (v, r2) \<Rightarrow>
     (case uvarint r2 of None \<Rightarrow> None | Some (ver, r3) \<Rightarrow>
     (case uvarint r3 of None \<Rightarrow> None | Some (ep, r4) \<Rightarrow>
       Some (\<lparr>aw_key = k, aw_value = Some v, aw_version = ver, aw_epochSeen = ep\<rparr>, r4)))))"

definition write_fits :: "applied_write \<Rightarrow> bool" where
  "write_fits w \<longleftrightarrow> key_fits (aw_key w) \<and> (case aw_value w of None \<Rightarrow> False | Some b \<Rightarrow> short b) \<and> u64 (aw_version w) \<and> u64 (aw_epochSeen w)"

interpretation row_write: codec appendWrite cursor_write write_fits
  by unfold_locales
    (auto simp: cursor_write_def appendWrite_def write_fits_def key.get_put field.get_put uvarint.get_put split: option.splits)

definition appendDelete :: "applied_delete \<Rightarrow> bytes" where
  "appendDelete d = appendKey (ad_key d) @ AppendUvarint (ad_epoch d)"

definition cursor_delete :: "nat \<Rightarrow> applied_delete parser" where
  "cursor_delete v bs = (case cursor_key bs of None \<Rightarrow> None | Some (k, r1) \<Rightarrow>
     if v \<ge> formatVersion then
       (case uvarint r1 of None \<Rightarrow> None | Some (ep, r2) \<Rightarrow> Some (\<lparr>ad_key = k, ad_epoch = ep\<rparr>, r2))
     else Some (\<lparr>ad_key = k, ad_epoch = 0\<rparr>, r1))"

definition delete_fits :: "applied_delete \<Rightarrow> bool" where
  "delete_fits d \<longleftrightarrow> key_fits (ad_key d) \<and> u64 (ad_epoch d)"

interpretation row_delete: codec appendDelete "cursor_delete formatVersion" delete_fits
  by unfold_locales (simp add: cursor_delete_def appendDelete_def delete_fits_def key.get_put uvarint.get_put)

definition payload_of :: "entry \<Rightarrow> bytes" where
  "payload_of e = byte opBatch # AppendUvarint (length (en_writes e)) @ concat (map appendWrite (en_writes e)) @
     AppendUvarint (length (en_deletes e)) @ concat (map appendDelete (en_deletes e))"

definition encode :: "entry \<Rightarrow> bytes" where
  "encode e = (let p = payload_of e in PutUint32 (length p mod 2 ^ 32) @ PutUint32 (crc32c p) @ p)"

definition decode :: "bytes \<Rightarrow> nat \<Rightarrow> entry option" where
  "decode p v = (case p of [] \<Rightarrow> None | c # r0 \<Rightarrow>
     if code c \<noteq> opBatch then None
     else (case uvarint r0 of None \<Rightarrow> None | Some (nw, r1) \<Rightarrow>
       if nw > length p then None
       else (case read_many cursor_write nw r1 of None \<Rightarrow> None | Some (ws, r2) \<Rightarrow>
         (case uvarint r2 of None \<Rightarrow> None | Some (nd, r3) \<Rightarrow>
           if nd > length p then None
           else (case read_many (cursor_delete v) nd r3 of None \<Rightarrow> None | Some (ds, _) \<Rightarrow>
             Some \<lparr>en_writes = ws, en_deletes = ds\<rparr>)))))"

datatype frame = FrameEOF | FrameTorn | Frame bytes bytes

definition readFrame :: "bytes \<Rightarrow> frame" where
  "readFrame r =
     (if r = [] then FrameEOF
      else if length r < frameHeader then FrameTorn
      else let n = Uint32 (take 4 r); want = Uint32 (take 4 (drop 4 r)); r' = drop frameHeader r in
        if n = 0 \<or> n > maxFrame then FrameTorn
        else if length r' < n then FrameTorn
        else if crc32c (take n r') \<noteq> want then FrameTorn
        else Frame (take n r') (drop n r'))"

section \<open>Round trips\<close>

definition entry_fits :: "entry \<Rightarrow> bool" where
  "entry_fits e \<longleftrightarrow> u64 (length (en_writes e)) \<and> list_all write_fits (en_writes e) \<and>
     u64 (length (en_deletes e)) \<and> list_all delete_fits (en_deletes e)"

definition frame_fits :: "entry \<Rightarrow> bool" where
  "frame_fits e \<longleftrightarrow> length (payload_of e) \<le> maxFrame"

lemma appendKey_pos: "0 < length (appendKey k)"
  using appendBytes_pos by (simp add: appendKey_def)

lemma appendWrite_pos: "0 < length (appendWrite w)"
  using appendKey_pos by (simp add: appendWrite_def)

lemma appendDelete_pos: "0 < length (appendDelete w)"
  using appendKey_pos by (simp add: appendDelete_def)

lemma decode_payload:
  assumes "entry_fits e"
  shows "decode (payload_of e) formatVersion = Some e"
proof -
  have w: "length (en_writes e) \<le> length (concat (map appendWrite (en_writes e)))"
    by (rule length_concat_ge) (rule appendWrite_pos)
  have d: "length (en_deletes e) \<le> length (concat (map appendDelete (en_deletes e)))"
    by (rule length_concat_ge) (rule appendDelete_pos)
  have lw: "\<not> length (en_writes e) > length (payload_of e)" and ld: "\<not> length (en_deletes e) > length (payload_of e)"
    using w d by (simp_all add: payload_of_def)
  note f = assms [unfolded entry_fits_def]
  have dm: "read_many (cursor_delete formatVersion) (length (en_deletes e)) (concat (map appendDelete (en_deletes e))) =
      Some (en_deletes e, [])"
    using row_delete.get_many [of "en_deletes e" "[]"] f by simp
  let ?rest = "AppendUvarint (length (en_deletes e)) @ concat (map appendDelete (en_deletes e))"
  have wm: "read_many cursor_write (length (en_writes e)) (concat (map appendWrite (en_writes e)) @ ?rest) =
      Some (en_writes e, ?rest)"
    using row_write.get_many [of "en_writes e" ?rest] f by simp
  show ?thesis
    using f lw ld unfolding decode_def payload_of_def
    by (simp add: opBatch_def uvarint.get_put wm dm del: length_append length_concat length_map)
qed

lemma payload_pos: "0 < length (payload_of e)"
  by (simp add: payload_of_def)

lemma maxFrame_less: "maxFrame < 2 ^ 32"
  by (simp add: maxFrame_def)

lemma length_encode: "length (encode e) = frameHeader + length (payload_of e)"
  by (simp add: encode_def Let_def frameHeader_def)

lemma readFrame_encode:
  assumes "frame_fits e"
  shows "readFrame (encode e @ rest) = Frame (payload_of e) rest"
proof -
  let ?p = "payload_of e"
  have l: "length ?p \<le> maxFrame" using assms by (simp add: frame_fits_def)
  then have n: "length ?p mod 2 ^ 32 = length ?p" using maxFrame_less by simp
  have t1: "take 4 (encode e @ rest) = PutUint32 (length ?p)"
    and t2: "take 4 (drop 4 (encode e @ rest)) = PutUint32 (crc32c ?p)"
    and t3: "drop frameHeader (encode e @ rest) = ?p @ rest"
    unfolding encode_def Let_def n frameHeader_def by simp_all
  have u1: "Uint32 (PutUint32 (length ?p)) = length ?p"
    by (rule Uint32_PutUint32) (use l maxFrame_less in simp)
  have u2: "Uint32 (PutUint32 (crc32c ?p)) = crc32c ?p" by (rule Uint32_PutUint32) (rule crc32c_less)
  have ne: "encode e @ rest \<noteq> []" "\<not> length (encode e @ rest) < frameHeader"
    using length_encode [of e] payload_pos [of e] by (auto simp: frameHeader_def)
  show ?thesis
    unfolding readFrame_def Let_def t1 t2 t3 u1 u2 using ne l payload_pos [of e] by simp
qed

text \<open>A frame that was cut short, anywhere but at its very beginning, is a torn tail.\<close>

lemma readFrame_torn:
  assumes "frame_fits e" and "0 < m" and "m < length (encode e)"
  shows "readFrame (take m (encode e)) = FrameTorn"
proof (cases "m < frameHeader")
  case True
  have "take m (encode e) \<noteq> []" using assms by (metis length_greater_0_conv length_take min_less_iff_conj order_less_trans)
  then show ?thesis using True assms(3) by (simp add: readFrame_def)
next
  case False
  let ?p = "payload_of e" and ?r = "take m (encode e)"
  have l: "length ?p \<le> maxFrame" using assms(1) by (simp add: frame_fits_def)
  then have n: "length ?p mod 2 ^ 32 = length ?p" using maxFrame_less by simp
  have "take 4 ?r = PutUint32 (length ?p)"
    using False unfolding encode_def Let_def n frameHeader_def by (simp add: take_take min_def)
  then have u: "Uint32 (take 4 ?r) = length ?p"
    using Uint32_PutUint32 [of "length ?p"] l maxFrame_less by simp
  have "length (drop frameHeader ?r) < length ?p"
    using assms(3) False by (simp add: length_encode)
  then show ?thesis
    using False assms(3) unfolding readFrame_def Let_def u by (auto simp: frameHeader_def)
qed

text \<open>A frame beyond the bound is taken for a torn tail although it is complete.\<close>

lemma readFrame_oversized:
  assumes "maxFrame < length (payload_of e)" and "length (payload_of e) < 2 ^ 32"
  shows "readFrame (encode e @ rest) = FrameTorn"
proof -
  let ?p = "payload_of e"
  have n: "length ?p mod 2 ^ 32 = length ?p" using assms(2) by simp
  have "take 4 (encode e @ rest) = PutUint32 (length ?p)"
    unfolding encode_def Let_def n by simp
  then have "Uint32 (take 4 (encode e @ rest)) = length ?p" using Uint32_PutUint32 [OF assms(2)] by simp
  moreover have "encode e @ rest \<noteq> []" "\<not> length (encode e @ rest) < frameHeader"
    using length_encode [of e] payload_pos [of e] by (auto simp: frameHeader_def)
  ultimately show ?thesis using assms(1) by (simp add: readFrame_def Let_def)
qed

end
