(* ===== verification/Canal_Wal.thy ===== *)
theory Canal_Wal
  imports Canal_Memstore Canal_WalFormat
begin

text \<open>
  The write-ahead-log state store, \<^verbatim>\<open>pkg/store/wal/wal.go\<close>. The state is the log file's contents, the
  in-memory index and the handle. What the operating system answers is an argument of each
  operation: an append may succeed, fail after some of the frame's bytes reached the file, or fail
  to sync; a compaction may succeed, fail before the swap, or fail during it, with the new log in
  place or not. The directory lock, and errors of opening, sizing and truncating the file, are not
  modelled.
\<close>

section \<open>State\<close>

record windex =
  ix_data :: "(string \<times> versioned) list"
  ix_epochs :: "(string \<times> nat) list"
  ix_floorKeys :: "(string \<times> store_key) list"

definition empty_index :: windex where
  "empty_index = \<lparr>ix_data = [], ix_epochs = [], ix_floorKeys = []\<rparr>"

record wal =
  ws_log :: bytes
  ws_open :: bool
  ws_ix :: windex
  ws_readVersion :: nat
  ws_bytes :: nat
  ws_live :: nat
  ws_closed :: bool

datatype append_io = AppendOK | WriteFails nat err | SyncFails err

datatype compact_io = CompactOK | CompactFails err | SwapFails bool err

definition errClosed :: err where
  "errClosed = Plain ''wal: the store is closed''"

section \<open>The redo step\<close>

definition apply_write :: "applied_write \<Rightarrow> windex \<Rightarrow> windex" where
  "apply_write w ix = (let n = key_String (aw_key w) in
     \<lparr>ix_data = aput n \<lparr>v_Key = aw_key w, v_Value = aw_value w, v_IfVersion = 0, v_Version = aw_version w, v_Epoch = 0\<rparr> (ix_data ix),
      ix_epochs = raise_floor n (aw_epochSeen w) (ix_epochs ix),
      ix_floorKeys = adel n (ix_floorKeys ix)\<rparr>)"

definition apply_delete :: "applied_delete \<Rightarrow> windex \<Rightarrow> windex" where
  "apply_delete d ix = (let n = key_String (ad_key d); ep = raise_floor n (ad_epoch d) (ix_epochs ix) in
     \<lparr>ix_data = adel n (ix_data ix), ix_epochs = ep,
      ix_floorKeys = (if floor_of ep n > 0 then aput n (ad_key d) (ix_floorKeys ix) else ix_floorKeys ix)\<rparr>)"

definition wal_apply :: "entry \<Rightarrow> windex \<Rightarrow> windex" where
  "wal_apply e ix = fold apply_delete (en_deletes e) (fold apply_write (en_writes e) ix)"

section \<open>Compaction\<close>

definition log_header :: bytes where
  "log_header = magic @ [byte (formatVersion div 256), byte formatVersion]"

definition row_entry :: "windex \<Rightarrow> string \<times> versioned \<Rightarrow> entry" where
  "row_entry ix x = (case x of (n, v) \<Rightarrow>
     \<lparr>en_writes = [\<lparr>aw_key = v_Key v, aw_value = v_Value v, aw_version = v_Version v, aw_epochSeen = floor_of (ix_epochs ix) n\<rparr>],
      en_deletes = []\<rparr>)"

definition floor_entry :: "windex \<Rightarrow> string \<times> store_key \<Rightarrow> entry" where
  "floor_entry ix x = (case x of (n, k) \<Rightarrow>
     \<lparr>en_writes = [], en_deletes = [\<lparr>ad_key = k, ad_epoch = floor_of (ix_epochs ix) n\<rparr>]\<rparr>)"

definition compact_entries :: "windex \<Rightarrow> entry list" where
  "compact_entries ix = map (row_entry ix) (sort_key fst (ix_data ix)) @ map (floor_entry ix) (sort_key fst (ix_floorKeys ix))"

definition compacted_log :: "windex \<Rightarrow> bytes" where
  "compacted_log ix = log_header @ concat (map encode (compact_entries ix))"

definition liveBytes :: "windex \<Rightarrow> nat" where
  "liveBytes ix = sum_list (map (\<lambda>(_, v). length (content (v_Value v)) + length (key_String (v_Key v)) + 32) (ix_data ix)) + headerLen"

definition compactLocked :: "compact_io \<Rightarrow> wal \<Rightarrow> wal \<times> err option" where
  "compactLocked io s = (case io of
      CompactFails e \<Rightarrow> (s, Some e)
    | SwapFails renamed e \<Rightarrow> (s\<lparr>ws_open := False, ws_log := (if renamed then compacted_log (ws_ix s) else ws_log s)\<rparr>, Some e)
    | CompactOK \<Rightarrow> (s\<lparr>ws_log := compacted_log (ws_ix s), ws_bytes := length (compacted_log (ws_ix s)),
         ws_live := liveBytes (ws_ix s)\<rparr>, None))"

definition compactMinBytes :: nat where "compactMinBytes = 2 ^ 20"

definition maybeCompact :: "compact_io \<Rightarrow> wal \<Rightarrow> wal \<times> err option" where
  "maybeCompact io s =
     (if ws_bytes s < compactMinBytes \<or> 2 * ws_live s \<ge> ws_bytes s then (s, None) else compactLocked io s)"

section \<open>Opening\<close>

lemma readFrame_shorter: "readFrame r = Frame p rest \<Longrightarrow> length rest < length r"
  by (auto simp: readFrame_def Let_def frameHeader_def split: if_splits)

function replay_loop :: "nat \<Rightarrow> bytes \<Rightarrow> nat \<Rightarrow> windex \<Rightarrow> err + windex \<times> nat" where
  "replay_loop v r offset ix =
     (case readFrame r of
        FrameEOF \<Rightarrow> Inr (ix, offset)
      | FrameTorn \<Rightarrow> Inr (ix, offset)
      | Frame p rest \<Rightarrow>
          (case decode p v of
             None \<Rightarrow> Inl (Plain ''wal: a frame passed its checksum but does not parse'')
           | Some e \<Rightarrow> replay_loop v rest (offset + frameHeader + length p) (wal_apply e ix)))"
  by pat_completeness auto

termination
  by (relation "measure (\<lambda>(v, r, offset, ix). length r)") (auto dest: readFrame_shorter)

declare replay_loop.simps [simp del]

definition opened_wal :: "bytes \<Rightarrow> nat \<Rightarrow> windex \<Rightarrow> nat \<Rightarrow> wal" where
  "opened_wal file v ix live = \<lparr>ws_log = file, ws_open = True, ws_ix = ix, ws_readVersion = v, ws_bytes = length file,
     ws_live = live, ws_closed = False\<rparr>"

definition replay :: "bytes \<Rightarrow> err + wal" where
  "replay file =
     (if file = [] then Inr (opened_wal log_header formatVersion empty_index 0)
      else if length file < headerLen then Inl (Plain ''wal: the file is shorter than its header'')
      else if take (length magic) file \<noteq> magic then Inl (Plain ''wal: the file does not begin with the canal magic'')
      else let v = code (file ! 8) * 256 + code (file ! 9) in
        if v \<noteq> formatVersion \<and> v \<noteq> formatV1 then Inl (Plain ''wal: the format version is outside the window'')
        else bind_result (replay_loop v (drop headerLen file) headerLen empty_index)
          (\<lambda>(ix, offset). Inr (opened_wal (take offset file) v ix (liveBytes ix))))"

definition wal_Open :: "compact_io \<Rightarrow> bytes \<Rightarrow> err + wal" where
  "wal_Open io file = bind_result (replay file) (\<lambda>s.
     if ws_readVersion s \<noteq> formatVersion then
       (case compactLocked io s of
          (_, Some e) \<Rightarrow> Inl (Wrap (''wal: rewriting: '' @ fault_Error e) e)
        | (s', None) \<Rightarrow> Inr (s'\<lparr>ws_readVersion := formatVersion\<rparr>))
     else Inr s)"

section \<open>Operations\<close>

definition wal_append :: "append_io \<Rightarrow> bytes \<Rightarrow> wal \<Rightarrow> wal \<times> err option" where
  "wal_append io frame s =
     (if \<not> ws_open s then (s, Some (Unknown FOpPersist (Some (Plain ''wal: appending: file already closed''))))
      else case io of
        AppendOK \<Rightarrow> (s\<lparr>ws_log := ws_log s @ frame\<rparr>, None)
      | WriteFails n e \<Rightarrow> (s\<lparr>ws_log := ws_log s @ take n frame\<rparr>, Some (Unknown FOpPersist (Some (Wrap ''wal: appending'' e))))
      | SyncFails e \<Rightarrow> (s\<lparr>ws_log := ws_log s @ frame\<rparr>, Some (Unknown FOpPersist (Some (Wrap ''wal: syncing'' e)))))"

definition batch_entry :: "sbatch \<Rightarrow> windex \<Rightarrow> entry" where
  "batch_entry b ix =
     \<lparr>en_writes = map (\<lambda>(n, v). \<lparr>aw_key = v_Key v, aw_value = v_Value v, aw_version = version_of (ix_data ix) n + 1,
         aw_epochSeen = max (EpochFor b v) (floor_of (ix_epochs ix) n)\<rparr>) (sort_key fst (sb_Writes b)),
      en_deletes = map (\<lambda>d. \<lparr>ad_key = d_Key d, ad_epoch = EpochForDelete b d\<rparr>) (sb_Deletes b)\<rparr>"

definition wal_commit :: "append_io \<Rightarrow> compact_io \<Rightarrow> entry \<Rightarrow> wal \<Rightarrow> wal \<times> err option" where
  "wal_commit aio cio e s =
     (case wal_append aio (encode e) s of
        (s1, Some x) \<Rightarrow> (s1, Some x)
      | (s1, None) \<Rightarrow>
          let ix = wal_apply e (ws_ix s1) in
          maybeCompact cio (s1\<lparr>ws_ix := ix, ws_bytes := ws_bytes s1 + length (encode e), ws_live := liveBytes ix\<rparr>))"

definition wal_Set :: "append_io \<Rightarrow> compact_io \<Rightarrow> sbatch \<Rightarrow> wal \<Rightarrow> wal \<times> err option" where
  "wal_Set aio cio b s =
     (if ws_closed s then (s, Some errClosed)
      else case check_writes b (ix_data (ws_ix s)) (ix_epochs (ws_ix s)) (sb_Writes b) of
        Some e \<Rightarrow> (s, Some e)
      | None \<Rightarrow>
          (case check_deletes b (ix_epochs (ws_ix s)) (sb_Deletes b) of
             Some e \<Rightarrow> (s, Some e)
           | None \<Rightarrow> wal_commit aio cio (batch_entry b (ws_ix s)) s))"

definition wal_Delete :: "append_io \<Rightarrow> compact_io \<Rightarrow> store_key list \<Rightarrow> wal \<Rightarrow> wal \<times> err option" where
  "wal_Delete aio cio keys s =
     (if keys = [] then (s, None)
      else if ws_closed s then (s, Some errClosed)
      else wal_commit aio cio \<lparr>en_writes = [], en_deletes = map (\<lambda>k. \<lparr>ad_key = k, ad_epoch = 0\<rparr>) keys\<rparr> s)"

definition wal_Get :: "store_key list \<Rightarrow> wal \<Rightarrow> err + (string \<times> versioned) list" where
  "wal_Get keys s =
     (if ws_closed s then Inl errClosed
      else Inr (fold (\<lambda>k out. case map_of (ix_data (ws_ix s)) (key_String k) of
        None \<Rightarrow> out | Some v \<Rightarrow> aput (key_String k) v out) keys []))"

definition wal_Range :: "store_key \<Rightarrow> wal \<Rightarrow> err + (store_key \<times> versioned) list" where
  "wal_Range prefix s = (if ws_closed s then Inl errClosed else Inr (range_rows prefix (ix_data (ws_ix s))))"

definition wal_Caps :: store_caps where
  "wal_Caps = \<lparr>sc_AtomicMultiKey = True, sc_CAS = True, sc_EpochFencing = True, sc_Durability = DurabilityNode,
     sc_FlushIsDurable = True\<rparr>"

definition wal_Close :: "wal \<Rightarrow> wal" where
  "wal_Close s = (if ws_closed s then s else s\<lparr>ws_closed := True, ws_open := False\<rparr>)"

end
