(* ===== verification/Canal_WalInv.thy ===== *)
theory Canal_WalInv
  imports Canal_Wal
begin

text \<open>
  The write-ahead log keeps the state-store contract, and its log always replays to its index. The
  first section relates an index to what replaying the decoded frames gives, up to the one thing
  encoding forgets, whether an empty value was nil. The second shows what the redo of a batch does to
  every name, the third that compaction forgets nothing, and the fourth interprets \<open>state_store\<close>.
\<close>

section \<open>Indexes up to nil values\<close>

definition full :: "windex \<Rightarrow> string \<Rightarrow> (store_key \<times> bytes \<times> nat) option" where
  "full ix n = map_option (\<lambda>v. (v_Key v, content (v_Value v), v_Version v)) (map_of (ix_data ix) n)"

definition index_eq :: "windex \<Rightarrow> windex \<Rightarrow> bool" where
  "index_eq i j \<longleftrightarrow> full i = full j \<and> floor_of (ix_epochs i) = floor_of (ix_epochs j) \<and>
     map_of (ix_floorKeys i) = map_of (ix_floorKeys j)"

definition ix_view :: "windex \<Rightarrow> view" where
  "ix_view ix = (rows (ix_data ix), floor_of (ix_epochs ix))"

definition norm_write :: "applied_write \<Rightarrow> applied_write" where
  "norm_write w = w\<lparr>aw_value := Some (content (aw_value w))\<rparr>"

definition norm_entry :: "entry \<Rightarrow> entry" where
  "norm_entry e = e\<lparr>en_writes := map norm_write (en_writes e)\<rparr>"

lemma index_eq_refl [simp]: "index_eq i i"
  by (simp add: index_eq_def)

lemma index_eq_trans: "index_eq i j \<Longrightarrow> index_eq j k \<Longrightarrow> index_eq i k"
  by (simp add: index_eq_def)

lemma index_eq_sym: "index_eq i j \<Longrightarrow> index_eq j i"
  by (simp add: index_eq_def)

lemma rows_full: "rows (ix_data ix) n = map_option snd (full ix n)"
  by (simp add: rows_def full_def option.map_comp comp_def)

lemma index_eq_view: "index_eq i j \<Longrightarrow> ix_view i = ix_view j"
  by (simp add: index_eq_def ix_view_def rows_full fun_eq_iff)

lemma full_apply_write:
  "full (apply_write w ix) = (full ix)(key_String (aw_key w) := Some (aw_key w, content (aw_value w), aw_version w))"
  by (auto simp: full_def apply_write_def Let_def)

lemma full_apply_delete: "full (apply_delete d ix) = (full ix)(key_String (ad_key d) := None)"
  by (auto simp: full_def apply_delete_def Let_def)

lemma floor_apply_write:
  "floor_of (ix_epochs (apply_write w ix)) =
   (floor_of (ix_epochs ix))(key_String (aw_key w) := max (floor_of (ix_epochs ix) (key_String (aw_key w))) (aw_epochSeen w))"
  by (auto simp: apply_write_def Let_def)

lemma floor_apply_delete:
  "floor_of (ix_epochs (apply_delete d ix)) =
   (floor_of (ix_epochs ix))(key_String (ad_key d) := max (floor_of (ix_epochs ix) (key_String (ad_key d))) (ad_epoch d))"
  by (auto simp: apply_delete_def Let_def)

lemma keys_apply_write: "map_of (ix_floorKeys (apply_write w ix)) = (map_of (ix_floorKeys ix))(key_String (aw_key w) := None)"
  by (simp add: apply_write_def Let_def)

lemma keys_apply_delete:
  "map_of (ix_floorKeys (apply_delete d ix)) =
   (let n = key_String (ad_key d) in if max (floor_of (ix_epochs ix) n) (ad_epoch d) > 0
    then (map_of (ix_floorKeys ix))(n \<mapsto> ad_key d) else map_of (ix_floorKeys ix))"
  by (simp add: apply_delete_def Let_def)

lemmas redo = full_apply_write full_apply_delete floor_apply_write floor_apply_delete keys_apply_write keys_apply_delete

lemma content_content [simp]: "content (Some b) = b" "content None = []"
  by (simp_all add: content_def)

lemma norm_write_simps [simp]:
  "aw_key (norm_write w) = aw_key w" "content (aw_value (norm_write w)) = content (aw_value w)"
  "aw_version (norm_write w) = aw_version w" "aw_epochSeen (norm_write w) = aw_epochSeen w"
  by (simp_all add: norm_write_def)

lemma apply_write_cong: "index_eq i j \<Longrightarrow> index_eq (apply_write (norm_write w) i) (apply_write w j)"
  by (simp add: index_eq_def redo)

lemma apply_delete_cong: "index_eq i j \<Longrightarrow> index_eq (apply_delete d i) (apply_delete d j)"
  by (simp add: index_eq_def redo Let_def)

lemma apply_writes_cong: "index_eq i j \<Longrightarrow> index_eq (fold apply_write (map norm_write ws) i) (fold apply_write ws j)"
  by (induction ws arbitrary: i j) (simp_all add: apply_write_cong)

lemma apply_deletes_cong: "index_eq i j \<Longrightarrow> index_eq (fold apply_delete ds i) (fold apply_delete ds j)"
  by (induction ds arbitrary: i j) (simp_all add: apply_delete_cong)

lemma wal_apply_cong: "index_eq i j \<Longrightarrow> index_eq (wal_apply (norm_entry e) i) (wal_apply e j)"
  by (simp add: wal_apply_def norm_entry_def apply_writes_cong apply_deletes_cong)

lemma wal_applies_cong:
  "index_eq i j \<Longrightarrow> index_eq (fold wal_apply (map norm_entry es) i) (fold wal_apply es j)"
  by (induction es arbitrary: i j) (simp_all add: wal_apply_cong)

section \<open>Replaying a log\<close>

definition good :: "entry \<Rightarrow> bool" where
  "good e \<longleftrightarrow> entry_fits (norm_entry e) \<and> frame_fits e \<and> (\<forall>w \<in> set (en_writes e). 0 < aw_version w)"

lemma appendWrite_norm: "appendWrite (norm_write w) = appendWrite w"
  by (simp add: appendWrite_def norm_write_def content_def split: option.splits)

lemma payload_norm: "payload_of (norm_entry e) = payload_of e"
  by (simp add: payload_of_def norm_entry_def comp_def appendWrite_norm)

lemma decode_good: "good e \<Longrightarrow> decode (payload_of e) formatVersion = Some (norm_entry e)"
  using decode_payload [of "norm_entry e"] by (simp add: good_def payload_norm)

definition frames :: "entry list \<Rightarrow> bytes" where
  "frames es = concat (map encode es)"

lemma frames_simps [simp]: "frames [] = []" "frames (e # es) = encode e @ frames es" "frames (es @ fs) = frames es @ frames fs"
  by (simp_all add: frames_def)

lemma replay_loop_frames:
  "list_all good es \<Longrightarrow> replay_loop formatVersion (frames es @ tail) offset ix =
     replay_loop formatVersion tail (offset + length (frames es)) (fold wal_apply (map norm_entry es) ix)"
proof (induction es arbitrary: offset ix)
  case (Cons e es)
  then have g: "good e" and gs: "list_all good es" by simp_all
  have "readFrame (encode e @ frames es @ tail) = Frame (payload_of e) (frames es @ tail)"
    using g readFrame_encode by (simp add: good_def)
  then have "replay_loop formatVersion (frames (e # es) @ tail) offset ix =
      replay_loop formatVersion (frames es @ tail) (offset + frameHeader + length (payload_of e)) (wal_apply (norm_entry e) ix)"
    by (subst replay_loop.simps) (simp add: decode_good [OF g])
  then show ?case using Cons.IH [OF gs] by (simp add: length_encode algebra_simps)
qed simp

lemma header_facts:
  "length log_header = headerLen" "take (length magic) (log_header @ xs) = magic" "log_header @ xs \<noteq> []"
  "code ((log_header @ xs) ! 8) * 256 + code ((log_header @ xs) ! 9) = formatVersion"
  by (simp_all add: log_header_def magic_def headerLen_def formatVersion_def)

lemma replay_frames:
  assumes "list_all good es" and "readFrame tail = FrameEOF \<or> readFrame tail = FrameTorn"
  defines "ix \<equiv> fold wal_apply (map norm_entry es) empty_index"
  shows "replay (log_header @ frames es @ tail) = Inr (opened_wal (log_header @ frames es) formatVersion ix (liveBytes ix))"
proof -
  let ?f = "log_header @ frames es @ tail"
  have loop: "replay_loop formatVersion (frames es @ tail) headerLen empty_index = Inr (ix, headerLen + length (frames es))"
    using assms(2) unfolding replay_loop_frames [OF assms(1)] ix_def by (subst replay_loop.simps) auto
  have l: "\<not> length ?f < headerLen" using header_facts(1) by simp
  have d: "drop headerLen ?f = frames es @ tail" "take (headerLen + length (frames es)) ?f = log_header @ frames es"
    using header_facts(1) by simp_all
  have "replay ?f = bind_result (replay_loop formatVersion (drop headerLen ?f) headerLen empty_index)
      (\<lambda>(ix, offset). Inr (opened_wal (take offset ?f) formatVersion ix (liveBytes ix)))"
    unfolding replay_def Let_def header_facts(2,4) using l header_facts(3) [of "frames es @ tail"]
    by (simp del: length_append append_is_Nil_conv drop_append take_append)
  then show ?thesis by (simp only: d loop bind_result_simps prod.case)
qed

lemma Open_frames:
  assumes "list_all good es" and "readFrame tail = FrameEOF \<or> readFrame tail = FrameTorn"
  defines "ix \<equiv> fold wal_apply (map norm_entry es) empty_index"
  shows "wal_Open io (log_header @ frames es @ tail) = Inr (opened_wal (log_header @ frames es) formatVersion ix (liveBytes ix))"
  unfolding wal_Open_def replay_frames [OF assms(1,2)] ix_def by (simp add: opened_wal_def)

lemma readFrame_Nil [simp]: "readFrame [] = FrameEOF"
  by (simp add: readFrame_def)

section \<open>What the redo of a batch does\<close>

lemma puts_pointwise:
  "wf_amap ws \<Longrightarrow> fold (put_view b) ws s =
     ((\<lambda>n. case map_of ws n of None \<Rightarrow> fst s n
         | Some v \<Rightarrow> Some (content (v_Value v), (case fst s n of None \<Rightarrow> 1 | Some (_, ver) \<Rightarrow> ver + 1))),
      (\<lambda>n. case map_of ws n of None \<Rightarrow> snd s n | Some v \<Rightarrow> max (snd s n) (EpochFor b v)))"
proof (induction ws arbitrary: s)
  case (Cons x ws)
  obtain m u where x: "x = (m, u)" by (cases x)
  have w: "wf_amap ws" and m: "map_of ws m = None"
    using Cons.prems by (simp_all add: x wf_amap_def map_of_eq_None_iff)
  show ?case
    using m by (simp add: Cons.IH [OF w]) (auto simp: x put_view_def fun_eq_iff split: option.splits)
qed simp

lemma writes_pointwise:
  assumes "wf_amap ws" and "\<forall>(n, v) \<in> set ws. n = key_String (v_Key v)"
  shows "ix_view (fold apply_write (map (\<lambda>(n, v). \<lparr>aw_key = v_Key v, aw_value = v_Value v, aw_version = ver n, aw_epochSeen = ep n v\<rparr>) ws) ix) =
     ((\<lambda>n. case map_of ws n of None \<Rightarrow> rows (ix_data ix) n | Some v \<Rightarrow> Some (content (v_Value v), ver n)),
      (\<lambda>n. case map_of ws n of None \<Rightarrow> floor_of (ix_epochs ix) n | Some v \<Rightarrow> max (floor_of (ix_epochs ix) n) (ep n v)))"
  using assms
proof (induction ws arbitrary: ix)
  case Nil
  then show ?case by (simp add: ix_view_def)
next
  case (Cons x ws)
  obtain m u where x: "x = (m, u)" by (cases x)
  have w: "wf_amap ws" and m: "map_of ws m = None" and k: "m = key_String (v_Key u)"
    and ks: "\<forall>(n, v) \<in> set ws. n = key_String (v_Key v)"
    using Cons.prems by (simp_all add: x wf_amap_def map_of_eq_None_iff)
  show ?case
    using m by (simp add: x Cons.IH [OF w ks])
      (auto simp: fun_eq_iff rows_full redo k [symmetric] split: option.splits)
qed

lemma map_of_sort:
  assumes "wf_amap m"
  shows "map_of (sort_key fst m) = map_of m" and "wf_amap (sort_key fst m)"
proof -
  have "distinct m \<and> inj_on fst (set m)" using assms by (simp add: wf_amap_def distinct_map)
  then show w: "wf_amap (sort_key fst m)" by (simp add: wf_amap_def distinct_map)
  show "map_of (sort_key fst m) = map_of m"
  proof (rule ext)
    fix n
    have "map_of (sort_key fst m) n = Some v \<longleftrightarrow> map_of m n = Some v" for v
      using wf_amap_mem [OF w, of n v] wf_amap_mem [OF assms, of n v] by simp
    then show "map_of (sort_key fst m) n = map_of m n"
      by (cases "map_of m n"; cases "map_of (sort_key fst m) n") auto
  qed
qed

lemma deletes_view:
  "ix_view (fold apply_delete (map (\<lambda>d. \<lparr>ad_key = d_Key d, ad_epoch = EpochForDelete b d\<rparr>) ds) ix) =
   fold (del_view b) ds (ix_view ix)"
proof (induction ds arbitrary: ix)
  case (Cons d ds)
  have "ix_view (apply_delete \<lparr>ad_key = d_Key d, ad_epoch = EpochForDelete b d\<rparr> ix) = del_view b d (ix_view ix)"
    by (auto simp: ix_view_def del_view_def Let_def rows_full redo fun_eq_iff)
  then show ?case using Cons.IH by simp
qed simp

lemma batch_entry_view:
  assumes "wf_batch b"
  shows "ix_view (wal_apply (batch_entry b ix) ix) = commit_view b (ix_view ix)"
proof -
  let ?ws = "sort_key fst (sb_Writes b)"
  have w: "wf_amap (sb_Writes b)" and k: "\<forall>(n, v) \<in> set ?ws. n = key_String (v_Key v)"
    using assms by (auto simp: wf_batch_def)
  have nv: "(case rows (ix_data ix) n of None \<Rightarrow> 1 | Some (_, ver) \<Rightarrow> ver + 1) = version_of (ix_data ix) n + 1" for n
    by (rule next_version)
  have "ix_view (fold apply_write (en_writes (batch_entry b ix)) ix) = fold (put_view b) (sb_Writes b) (ix_view ix)"
    unfolding batch_entry_def entry.simps writes_pointwise [OF map_of_sort(2) [OF w] k] puts_pointwise [OF w] map_of_sort(1) [OF w]
    using nv by (auto simp: ix_view_def fun_eq_iff max.commute max.left_commute split: option.splits)
  then show ?thesis
    unfolding wal_apply_def commit_view_def by (simp add: batch_entry_def deletes_view)
qed

section \<open>Well-formed indexes\<close>

text \<open>
  Rows are filed under the rendering of their key at a positive version; a floor without a row has
  its structured key remembered, and only such a floor has.
\<close>

definition index_ok :: "windex \<Rightarrow> bool" where
  "index_ok ix \<longleftrightarrow> wf_amap (ix_data ix) \<and> wf_amap (ix_floorKeys ix) \<and> versions_ok (ix_data ix) \<and>
     (\<forall>n v. map_of (ix_data ix) n = Some v \<longrightarrow> n = key_String (v_Key v)) \<and>
     (\<forall>n k. map_of (ix_floorKeys ix) n = Some k \<longrightarrow> n = key_String k) \<and>
     (\<forall>n. map_of (ix_floorKeys ix) n \<noteq> None \<longleftrightarrow> map_of (ix_data ix) n = None \<and> 0 < floor_of (ix_epochs ix) n)"

lemma index_ok_empty [simp]: "index_ok empty_index"
  by (simp add: index_ok_def empty_index_def versions_ok_def floor_of_def)

lemma index_ok_write: "index_ok ix \<Longrightarrow> 0 < aw_version w \<Longrightarrow> index_ok (apply_write w ix)"
  unfolding index_ok_def apply_write_def Let_def by simp

lemma index_ok_delete: "index_ok ix \<Longrightarrow> index_ok (apply_delete d ix)"
  unfolding index_ok_def apply_delete_def Let_def by simp

lemma index_ok_writes: "index_ok ix \<Longrightarrow> \<forall>w \<in> set ws. 0 < aw_version w \<Longrightarrow> index_ok (fold apply_write ws ix)"
  by (induction ws arbitrary: ix) (simp_all add: index_ok_write)

lemma index_ok_deletes: "index_ok ix \<Longrightarrow> index_ok (fold apply_delete ds ix)"
  by (induction ds arbitrary: ix) (simp_all add: index_ok_delete)

lemma index_ok_apply: "index_ok ix \<Longrightarrow> \<forall>w \<in> set (en_writes e). 0 < aw_version w \<Longrightarrow> index_ok (wal_apply e ix)"
  by (simp add: wal_apply_def index_ok_writes index_ok_deletes)

lemma index_ok_batch: "index_ok ix \<Longrightarrow> index_ok (wal_apply (batch_entry b ix) ix)"
  by (rule index_ok_apply) (auto simp: batch_entry_def)

section \<open>Compaction forgets nothing\<close>

lemma redo_rows:
  "wf_amap xs \<Longrightarrow> \<forall>(n, v) \<in> set xs. n = key_String (v_Key v) \<Longrightarrow> j = fold wal_apply (map (row_entry ix) xs) i \<Longrightarrow>
   full j n = (case map_of xs n of None \<Rightarrow> full i n | Some v \<Rightarrow> Some (v_Key v, content (v_Value v), v_Version v)) \<and>
   floor_of (ix_epochs j) n = (case map_of xs n of None \<Rightarrow> floor_of (ix_epochs i) n
     | Some v \<Rightarrow> max (floor_of (ix_epochs i) n) (floor_of (ix_epochs ix) n)) \<and>
   map_of (ix_floorKeys j) n = (if map_of xs n = None then map_of (ix_floorKeys i) n else None)"
proof (induction xs arbitrary: i)
  case (Cons x xs)
  obtain m u where x: "x = (m, u)" by (cases x)
  have w: "wf_amap xs" and m: "map_of xs m = None" and k: "m = key_String (v_Key u)"
    and ks: "\<forall>(n, v) \<in> set xs. n = key_String (v_Key v)"
    using Cons.prems by (simp_all add: x wf_amap_def map_of_eq_None_iff)
  have j: "j = fold wal_apply (map (row_entry ix) xs) (wal_apply (row_entry ix x) i)" using Cons.prems by simp
  show ?case unfolding Cons.IH [OF w ks j, THEN conjunct1] Cons.IH [OF w ks j, THEN conjunct2, THEN conjunct1]
      Cons.IH [OF w ks j, THEN conjunct2, THEN conjunct2]
    using m by (auto simp: x row_entry_def wal_apply_def redo k [symmetric] split: option.splits)
qed simp

lemma redo_floors:
  "wf_amap xs \<Longrightarrow> \<forall>(n, k) \<in> set xs. n = key_String k \<Longrightarrow> \<forall>(n, k) \<in> set xs. 0 < floor_of (ix_epochs ix) n \<Longrightarrow>
   j = fold wal_apply (map (floor_entry ix) xs) i \<Longrightarrow>
   full j n = (if map_of xs n = None then full i n else None) \<and>
   floor_of (ix_epochs j) n = (if map_of xs n = None then floor_of (ix_epochs i) n
     else max (floor_of (ix_epochs i) n) (floor_of (ix_epochs ix) n)) \<and>
   map_of (ix_floorKeys j) n = (case map_of xs n of None \<Rightarrow> map_of (ix_floorKeys i) n | Some k \<Rightarrow> Some k)"
proof (induction xs arbitrary: i)
  case (Cons x xs)
  obtain m u where x: "x = (m, u)" by (cases x)
  have w: "wf_amap xs" and m: "map_of xs m = None" and k: "m = key_String u" and f: "0 < floor_of (ix_epochs ix) m"
    and ks: "\<forall>(n, k) \<in> set xs. n = key_String k" "\<forall>(n, k) \<in> set xs. 0 < floor_of (ix_epochs ix) n"
    using Cons.prems by (simp_all add: x wf_amap_def map_of_eq_None_iff)
  have j: "j = fold wal_apply (map (floor_entry ix) xs) (wal_apply (floor_entry ix x) i)" using Cons.prems by simp
  show ?case unfolding Cons.IH [OF w ks j, THEN conjunct1] Cons.IH [OF w ks j, THEN conjunct2, THEN conjunct1]
      Cons.IH [OF w ks j, THEN conjunct2, THEN conjunct2]
    using m f by (auto simp: x floor_entry_def wal_apply_def redo k [symmetric] Let_def less_max_iff_disj split: option.splits)
qed simp

lemma compact_replays:
  assumes "index_ok ix"
  shows "index_eq (fold wal_apply (compact_entries ix) empty_index) ix"
proof -
  let ?d = "sort_key fst (ix_data ix)" and ?f = "sort_key fst (ix_floorKeys ix)"
  note ok = assms [unfolded index_ok_def]
  have wd: "wf_amap (ix_data ix)" and wk: "wf_amap (ix_floorKeys ix)" using ok by simp_all
  have kd: "\<forall>(n, v) \<in> set ?d. n = key_String (v_Key v)"
    using ok wf_amap_mem [OF wd] by auto
  have kf: "\<forall>(n, k) \<in> set ?f. n = key_String k" using ok wf_amap_mem [OF wk] by auto
  have fl: "\<forall>(n, k) \<in> set ?f. 0 < floor_of (ix_epochs ix) n"
  proof clarsimp
    fix n k
    assume "(n, k) \<in> set (ix_floorKeys ix)"
    then have "map_of (ix_floorKeys ix) n \<noteq> None" using wf_amap_mem [OF wk, of n k] by simp
    then show "0 < floor_of (ix_epochs ix) n" using ok by blast
  qed
  define i where "i = fold wal_apply (map (row_entry ix) ?d) empty_index"
  define j where "j = fold wal_apply (map (floor_entry ix) ?f) i"
  note R = redo_rows [OF map_of_sort(2) [OF wd] kd i_def, unfolded map_of_sort(1) [OF wd]]
  note F = redo_floors [OF map_of_sort(2) [OF wk] kf fl j_def, unfolded map_of_sort(1) [OF wk]]
  have e: "full empty_index n = None" "floor_of (ix_epochs empty_index) n = 0" "map_of (ix_floorKeys empty_index) n = None" for n
    by (simp_all add: full_def empty_index_def floor_of_def)
  have cases: "(map_of (ix_floorKeys ix) n \<noteq> None) = (map_of (ix_data ix) n = None \<and> 0 < floor_of (ix_epochs ix) n)" for n
    using ok by blast
  have fx: "full ix n = (case map_of (ix_data ix) n of None \<Rightarrow> None | Some v \<Rightarrow> Some (v_Key v, content (v_Value v), v_Version v))" for n
    by (simp add: full_def split: option.splits)
  have "full j n = full ix n" for n
    using cases [of n] by (auto simp: F R e fx split: option.splits)
  moreover have "floor_of (ix_epochs j) n = floor_of (ix_epochs ix) n" for n
    using cases [of n] by (auto simp: F R e split: option.splits)
  moreover have "map_of (ix_floorKeys j) n = map_of (ix_floorKeys ix) n" for n
    using cases [of n] by (auto simp: F R e split: option.splits)
  ultimately show ?thesis
    by (simp add: index_eq_def fun_eq_iff compact_entries_def i_def j_def)
qed

section \<open>The contract holds\<close>

definition wal_view :: "wal \<Rightarrow> view" where
  "wal_view s = ix_view (ws_ix s)"

text \<open>The log is a header and frames that replay to the index.\<close>

definition replays_to :: "bytes \<Rightarrow> windex \<Rightarrow> bool" where
  "replays_to file ix \<longleftrightarrow> (\<exists>es. list_all good es \<and> file = log_header @ frames es \<and>
     index_eq (fold wal_apply (map norm_entry es) empty_index) ix)"

definition wal_inv :: "wal \<Rightarrow> bool" where
  "wal_inv s \<longleftrightarrow> \<not> ws_closed s \<and> ws_open s \<and> index_ok (ws_ix s) \<and> replays_to (ws_log s) (ws_ix s) \<and>
     ws_bytes s = length (ws_log s)"

text \<open>Every frame the batch can cause to be written stays within the bounds of the format.\<close>

definition entry_ok :: "entry \<Rightarrow> windex \<Rightarrow> bool" where
  "entry_ok e ix \<longleftrightarrow> good e \<and> list_all good (compact_entries (wal_apply e ix))"

definition wal_fits :: "sbatch \<Rightarrow> wal \<Rightarrow> bool" where
  "wal_fits b s \<longleftrightarrow> wf_batch b \<and> entry_ok (batch_entry b (ws_ix s)) (ws_ix s)"

lemma replays_empty: "replays_to log_header empty_index"
  unfolding replays_to_def by (rule exI [of _ "[]"]) simp

lemma replays_append:
  assumes "replays_to file ix" and "good e"
  shows "replays_to (file @ encode e) (wal_apply e ix)"
proof -
  obtain es where es: "list_all good es" "file = log_header @ frames es"
      "index_eq (fold wal_apply (map norm_entry es) empty_index) ix"
    using assms(1) unfolding replays_to_def by blast
  have "index_eq (fold wal_apply (map norm_entry (es @ [e])) empty_index) (wal_apply e ix)"
    using wal_apply_cong [OF es(3), of e] by simp
  then show ?thesis unfolding replays_to_def using es assms(2) by (intro exI [of _ "es @ [e]"]) simp
qed

lemma replays_compacted:
  assumes "index_ok ix" and "list_all good (compact_entries ix)"
  shows "replays_to (compacted_log ix) ix"
proof -
  have "index_eq (fold wal_apply (map norm_entry (compact_entries ix)) empty_index) (fold wal_apply (compact_entries ix) empty_index)"
    by (rule wal_applies_cong) simp
  then have "index_eq (fold wal_apply (map norm_entry (compact_entries ix)) empty_index) ix"
    using compact_replays [OF assms(1)] index_eq_trans by blast
  then show ?thesis unfolding replays_to_def
    using assms(2) by (intro exI [of _ "compact_entries ix"]) (simp add: compacted_log_def frames_def)
qed

text \<open>A committed entry keeps the invariant, is redone, and is reported as a success.\<close>

lemma commit_facts:
  assumes "wal_inv s" and "entry_ok e (ws_ix s)" and "index_ok (wal_apply e (ws_ix s))"
  shows "wal_inv (fst (wal_commit AppendOK CompactOK e s))"
    and "ws_ix (fst (wal_commit AppendOK CompactOK e s)) = wal_apply e (ws_ix s)"
    and "snd (wal_commit AppendOK CompactOK e s) = None"
proof -
  have "replays_to (ws_log s @ encode e) (wal_apply e (ws_ix s))" "replays_to (compacted_log (wal_apply e (ws_ix s))) (wal_apply e (ws_ix s))"
    using assms replays_append replays_compacted by (simp_all add: wal_inv_def entry_ok_def)
  then show "wal_inv (fst (wal_commit AppendOK CompactOK e s))"
    using assms by (auto simp: wal_inv_def wal_commit_def wal_append_def maybeCompact_def compactLocked_def Let_def)
  show "ws_ix (fst (wal_commit AppendOK CompactOK e s)) = wal_apply e (ws_ix s)"
      "snd (wal_commit AppendOK CompactOK e s) = None"
    using assms(1) by (simp_all add: wal_inv_def wal_commit_def wal_append_def maybeCompact_def compactLocked_def Let_def)
qed

lemma wal_allowed:
  assumes "wal_inv s"
  shows "check_writes b (ix_data (ws_ix s)) (ix_epochs (ws_ix s)) (sb_Writes b) = None \<and>
      check_deletes b (ix_epochs (ws_ix s)) (sb_Deletes b) = None \<longleftrightarrow> allowed b (wal_view s)"
  using assms mem_allowed [of "\<lparr>ms_data = ix_data (ws_ix s), ms_epochs = ix_epochs (ws_ix s)\<rparr>" b]
  by (simp add: wal_inv_def index_ok_def wal_view_def ix_view_def mem_view_def)

lemma wal_Set_cases:
  assumes "wal_inv s"
  shows "allowed b (wal_view s) \<Longrightarrow> wal_Set aio cio b s = wal_commit aio cio (batch_entry b (ws_ix s)) s"
    and "\<not> allowed b (wal_view s) \<Longrightarrow> \<exists>e. wal_Set aio cio b s = (s, Some e)"
  using assms wal_allowed [OF assms, of b] by (auto simp: wal_Set_def wal_inv_def split: option.splits)

text \<open>An accepted batch on a log that stays small.\<close>

lemma wal_Set_small:
  assumes "wal_inv s" and "allowed b (wal_view s)" and "e = batch_entry b (ws_ix s)"
    and "ws_bytes s + frameHeader + length (payload_of e) < compactMinBytes"
  shows "wal_Set AppendOK cio b s = (s\<lparr>ws_log := ws_log s @ encode e, ws_ix := wal_apply e (ws_ix s),
     ws_bytes := ws_bytes s + length (encode e), ws_live := liveBytes (wal_apply e (ws_ix s))\<rparr>, None)"
  using assms(1,4) unfolding wal_Set_cases(1) [OF assms(1,2)] assms(3) [symmetric]
  by (simp add: wal_inv_def wal_commit_def wal_append_def maybeCompact_def Let_def length_encode)

interpretation wal: state_store wal_view "wal_Set AppendOK CompactOK" wal_inv wal_fits
proof unfold_locales
  fix s b
  assume i: "wal_inv s" and f: "wal_fits b s"
  let ?e = "batch_entry b (ws_ix s)"
  note facts = commit_facts [OF i, of ?e]
  have ok: "entry_ok ?e (ws_ix s)" "index_ok (wal_apply ?e (ws_ix s))" "wf_batch b"
    using f i by (simp_all add: wal_fits_def wal_inv_def index_ok_batch)
  show "wal_inv (fst (wal_Set AppendOK CompactOK b s))"
    using wal_Set_cases [OF i, of b AppendOK CompactOK] facts(1) [OF ok(1,2)] i
    by (cases "allowed b (wal_view s)") auto
  show "(wal_view (fst (wal_Set AppendOK CompactOK b s)), snd (wal_Set AppendOK CompactOK b s) = None) = set_view b (wal_view s)"
    using wal_Set_cases [OF i, of b AppendOK CompactOK] facts(2,3) [OF ok(1,2)] batch_entry_view [OF ok(3), of "ws_ix s"]
    by (cases "allowed b (wal_view s)") (auto simp: set_view_def wal_view_def)
qed

lemma Open_empty: "wal_Open io [] = Inr (opened_wal log_header formatVersion empty_index 0)"
  by (simp add: wal_Open_def replay_def opened_wal_def)

lemma wal_inv_empty: "wal_inv (opened_wal log_header formatVersion empty_index 0)"
  by (simp add: wal_inv_def opened_wal_def replays_empty)

text \<open>Reopening after a crash: whatever is behind the last whole frame is dropped.\<close>

lemma index_ok_replayed: "list_all good es \<Longrightarrow> index_ok i \<Longrightarrow> index_ok (fold wal_apply (map norm_entry es) i)"
proof (induction es arbitrary: i)
  case (Cons e es)
  have "index_ok (wal_apply (norm_entry e) i)"
    by (rule index_ok_apply) (use Cons.prems in \<open>auto simp: good_def norm_entry_def\<close>)
  then show ?case using Cons by simp
qed simp

lemma Open_replays:
  assumes "replays_to file ix" and "readFrame tail = FrameEOF \<or> readFrame tail = FrameTorn"
  obtains s where "wal_Open io (file @ tail) = Inr s" and "index_eq (ws_ix s) ix" and "ws_log s = file" and "wal_inv s"
proof -
  obtain es where es: "list_all good es" "file = log_header @ frames es"
      "index_eq (fold wal_apply (map norm_entry es) empty_index) ix"
    using assms(1) unfolding replays_to_def by blast
  let ?ix = "fold wal_apply (map norm_entry es) empty_index"
  let ?s = "opened_wal (log_header @ frames es) formatVersion ?ix (liveBytes ?ix)"
  have "replays_to file ?ix" unfolding replays_to_def using es by (intro exI [of _ es]) simp
  then have "wal_inv ?s" using es index_ok_replayed by (simp add: wal_inv_def opened_wal_def)
  then show thesis
    using that [of ?s] Open_frames [OF es(1) assms(2), of io] es(2,3) by (simp add: opened_wal_def)
qed

end
