(* ===== verification/Canal_WalProps.thy ===== *)
theory Canal_WalProps
  imports Canal_WalInv "HOL-Library.Code_Target_Numeral"
begin

text \<open>
  The properties of the state stores: the frame format, recovery of the write-ahead log after a crash
  at any byte, compaction, the fence across restarts, the agreement of the two stores, and two cases
  in which the log loses an acknowledged batch.
\<close>

section \<open>Shared lemmas\<close>

lemma torn_tail:
  assumes "frame_fits e" and "m < length (encode e)"
  shows "readFrame (take m (encode e)) = FrameEOF \<or> readFrame (take m (encode e)) = FrameTorn"
  using readFrame_torn [OF assms(1) _ assms(2)] by (cases "m = 0") simp_all

lemma Open_view:
  assumes "replays_to file ix" and "readFrame tail = FrameEOF \<or> readFrame tail = FrameTorn"
  shows "\<exists>s. wal_Open io (file @ tail) = Inr s \<and> wal_inv s \<and> wal_view s = ix_view ix"
  using Open_replays [OF assms, of io] index_eq_view unfolding wal_view_def by metis

lemma Open_log: "replays_to file ix \<Longrightarrow> \<exists>s. wal_Open io file = Inr s \<and> wal_inv s \<and> wal_view s = ix_view ix"
  using Open_view [where tail = "[]"] by simp

text \<open>What the file holds after an attempt to commit, and what the caller was told.\<close>

lemma commit_log:
  assumes "wal_inv s" and "entry_ok e (ws_ix s)" and "index_ok (wal_apply e (ws_ix s))"
    and "wal_commit aio cio e s = (s', r)"
  shows "(replays_to (ws_log s') (wal_apply e (ws_ix s)) \<and> (r = None \<longrightarrow> ws_ix s' = wal_apply e (ws_ix s))) \<or>
     (r \<noteq> None \<and> (\<exists>m < length (encode e). ws_log s' = ws_log s @ take m (encode e)))"
proof -
  let ?j = "wal_apply e (ws_ix s)"
  have w: "replays_to (ws_log s @ encode e) ?j" "replays_to (compacted_log ?j) ?j"
    using assms replays_append replays_compacted by (simp_all add: wal_inv_def entry_ok_def)
  have o: "ws_open s" using assms(1) by (simp add: wal_inv_def)
  show ?thesis
  proof (cases aio)
    case AppendOK
    then show ?thesis using w o assms(4)
      by (auto simp: wal_commit_def wal_append_def maybeCompact_def compactLocked_def Let_def
          split: if_splits compact_io.splits)
  next
    case (WriteFails m x)
    then have "ws_log s' = ws_log s @ take m (encode e)" "r \<noteq> None"
      using o assms(4) by (auto simp: wal_commit_def wal_append_def)
    then show ?thesis using w by (cases "m < length (encode e)") auto
  next
    case (SyncFails x)
    then show ?thesis using w o assms(4) by (auto simp: wal_commit_def wal_append_def)
  qed
qed

section \<open>The format\<close>

text \<open>
  A frame is read back. For every entry whose numbers fit 64 bits and whose payload is within the
  bound, reading the encoded frame, whatever follows it in the file, gives a payload that decodes to
  the entry, and the bytes behind the frame.
\<close>
theorem frame_round_trip:
  assumes "entry_fits e" and "frame_fits e"
  shows "\<exists>p. readFrame (encode e @ rest) = Frame p rest \<and> decode p formatVersion = Some e"
  using readFrame_encode [OF assms(2)] decode_payload [OF assms(1)] by blast

definition k1 :: store_key where
  "k1 = \<lparr>key_Tenant = ''t'', key_Space = ''s'', key_Parts = [''a'']\<rparr>"

definition e1 :: entry where
  "e1 = \<lparr>en_writes = [\<lparr>aw_key = k1, aw_value = Some ''x'', aw_version = 1, aw_epochSeen = 300\<rparr>],
     en_deletes = [\<lparr>ad_key = k1, ad_epoch = 2\<rparr>]\<rparr>"

theorem frame_round_trip_witness:
  "\<exists>p. readFrame (encode e1 @ ''zz'') = Frame p ''zz'' \<and> decode p formatVersion = Some e1"
proof (rule frame_round_trip)
  show "entry_fits e1" by code_simp
  show "frame_fits e1" by code_simp
qed

section \<open>Crashes\<close>

text \<open>
  C4: A batch is all or nothing across a crash. Let the store be in step with its log, every frame of
  which is whole, and let every frame the batch can cause to be written be within the bound of the format.
  Then, whatever the operating system answers to the append and to the compaction, a store that is
  reopened on the file the Set left behind opens, is well formed, and shows exactly what the running
  store showed when the Set was reported as done; when it was reported as failed the reopened store
  shows either the contents before the batch or all of it. Neither condition can be dropped: a frame
  beyond the bound is lost, and so is what is written behind a torn one.
\<close>
theorem reopening_after_set_is_atomic:
  assumes "wal_inv s" and "wal_fits b s" and "wal_Set aio cio b s = (s', r)"
  shows "\<exists>s''. wal_Open io (ws_log s') = Inr s'' \<and> wal_inv s'' \<and>
     (r = None \<longrightarrow> wal_view s'' = wal_view s' \<and> wal_view s' = commit_view b (wal_view s)) \<and>
     (r \<noteq> None \<longrightarrow> wal_view s'' = wal_view s \<or> allowed b (wal_view s) \<and> wal_view s'' = commit_view b (wal_view s))"
proof (cases "allowed b (wal_view s)")
  case False
  then have "s' = s" "r \<noteq> None" using wal_Set_cases(2) [OF assms(1) False, of aio cio] assms(3) by auto
  then show ?thesis using Open_log [of "ws_log s" "ws_ix s" io] assms(1) by (auto simp: wal_inv_def wal_view_def)
next
  case True
  let ?e = "batch_entry b (ws_ix s)"
  have r: "replays_to (ws_log s) (ws_ix s)" and ok: "entry_ok ?e (ws_ix s)" "index_ok (wal_apply ?e (ws_ix s))" "wf_batch b"
    using assms(1,2) by (simp_all add: wal_fits_def wal_inv_def index_ok_batch)
  have v: "ix_view (wal_apply ?e (ws_ix s)) = commit_view b (wal_view s)"
    using batch_entry_view [OF ok(3)] by (simp add: wal_view_def)
  have "wal_commit aio cio ?e s = (s', r)" using wal_Set_cases(1) [OF assms(1) True] assms(3) by simp
  then consider "replays_to (ws_log s') (wal_apply ?e (ws_ix s))" "r = None \<Longrightarrow> ws_ix s' = wal_apply ?e (ws_ix s)"
    | m where "r \<noteq> None" "m < length (encode ?e)" "ws_log s' = ws_log s @ take m (encode ?e)"
    using commit_log [OF assms(1) ok(1,2)] by blast
  then show ?thesis
  proof cases
    case 1
    then show ?thesis using Open_log [OF 1(1), of io] v True by (auto simp: wal_view_def)
  next
    case 2
    then show ?thesis
      using Open_view [OF r torn_tail [OF _ 2(2)], of io] ok(1) by (auto simp: wal_view_def entry_ok_def good_def)
  qed
qed

definition fresh :: wal where
  "fresh = opened_wal log_header formatVersion empty_index 0"

definition b1 :: sbatch where
  "b1 = Put k1 (Some ''x'') 0 (NewSBatch 7)"

lemma fresh_inv: "wal_inv fresh"
  by (simp add: fresh_def wal_inv_empty)

lemma b1_fits: "wal_fits b1 fresh"
  by code_simp

theorem reopening_after_set_is_atomic_witness:
  "\<exists>s''. wal_Open CompactOK (ws_log (fst (wal_Set (WriteFails 9 ErrFenced) CompactOK b1 fresh))) = Inr s'' \<and> wal_inv s'' \<and>
     (snd (wal_Set (WriteFails 9 ErrFenced) CompactOK b1 fresh) = None \<longrightarrow>
        wal_view s'' = wal_view (fst (wal_Set (WriteFails 9 ErrFenced) CompactOK b1 fresh)) \<and>
        wal_view (fst (wal_Set (WriteFails 9 ErrFenced) CompactOK b1 fresh)) = commit_view b1 (wal_view fresh)) \<and>
     (snd (wal_Set (WriteFails 9 ErrFenced) CompactOK b1 fresh) \<noteq> None \<longrightarrow>
        wal_view s'' = wal_view fresh \<or> allowed b1 (wal_view fresh) \<and> wal_view s'' = commit_view b1 (wal_view fresh))"
  by (rule reopening_after_set_is_atomic [OF fresh_inv b1_fits]) simp


definition b2 :: sbatch where
  "b2 = DelFenced k1 9 (NewSBatch 0)"

definition ix1 :: windex where "ix1 = wal_apply (batch_entry b1 empty_index) empty_index"
definition ix2 :: windex where "ix2 = wal_apply (batch_entry b2 ix1) ix1"

definition s1 :: wal where
  "s1 = fst (wal_Set AppendOK CompactOK b1 fresh)"

definition s2 :: wal where
  "s2 = fst (wal_Set AppendOK CompactOK b2 s1)"

lemma s1_inv: "wal_inv s1"
  unfolding s1_def by (rule wal.set_invar [OF fresh_inv b1_fits])

lemma s1_def': "wal_Set AppendOK CompactOK b1 fresh = (s1, None)" "ws_ix s1 = ix1" "ws_bytes s1 < 100"
    "ws_log s1 = log_header @ encode (batch_entry b1 empty_index)"
proof -
  have "allowed b1 (wal_view fresh)" by code_simp
  moreover have "ws_bytes fresh + frameHeader + length (payload_of (batch_entry b1 empty_index)) < 100" by code_simp
  moreover have "(100 :: nat) < compactMinBytes" by (simp add: compactMinBytes_def)
  moreover have "ws_ix fresh = empty_index" "ws_log fresh = log_header" by (simp_all add: fresh_def opened_wal_def)
  ultimately show "wal_Set AppendOK CompactOK b1 fresh = (s1, None)" "ws_ix s1 = ix1" "ws_bytes s1 < 100"
      "ws_log s1 = log_header @ encode (batch_entry b1 empty_index)"
    unfolding s1_def using wal_Set_small [OF fresh_inv, of b1 _ CompactOK] by (simp_all add: ix1_def length_encode)
qed

lemma s2_def': "wal_Set AppendOK CompactOK b2 s1 = (s2, None)" "ws_ix s2 = ix2"
    "ws_log s2 = log_header @ frames [batch_entry b1 empty_index, batch_entry b2 ix1]"
proof -
  have "allowed b2 (ix_view ix1)" by code_simp
  then have "allowed b2 (wal_view s1)" by (simp add: wal_view_def s1_def')
  moreover have "frameHeader + length (payload_of (batch_entry b2 ix1)) < 100" by code_simp
  moreover have "(200 :: nat) < compactMinBytes" by (simp add: compactMinBytes_def)
  ultimately show "wal_Set AppendOK CompactOK b2 s1 = (s2, None)" "ws_ix s2 = ix2"
      "ws_log s2 = log_header @ frames [batch_entry b1 empty_index, batch_entry b2 ix1]"
    unfolding s2_def using wal_Set_small [OF s1_inv, of b2 _ CompactOK] s1_def' by (simp_all add: ix2_def)
qed

lemma b2_fits: "wal_fits b2 s1"
proof -
  have "wf_batch b2 \<and> entry_ok (batch_entry b2 ix1) ix1" by code_simp
  then show ?thesis by (simp add: wal_fits_def s1_def')
qed

lemma b12_fit: "run_fits (wal_Set AppendOK CompactOK) wal_fits [b1, b2] fresh"
  using b1_fits b2_fits by (simp add: s1_def')




section \<open>The fence\<close>

lemma superseded_refused_reopened:
  assumes "wal_inv s" and "wal_fits b s" and "wal_Set AppendOK CompactOK b s = (t, None)" and "touches b n e"
    and "run_fits (wal_Set AppendOK CompactOK) wal_fits bs t" and "run_sets (wal_Set AppendOK CompactOK) bs t = (u, rs)"
    and "wal_Open io (ws_log u) = Inr v" and "wal_fits b' v" and "touches b' n e'" and "e' < e"
  shows "snd (wal_Set AppendOK CompactOK b' v) \<noteq> None"
proof -
  have t: "wal_inv t" using wal.set_invar [OF assms(1,2)] assms(3) by simp
  have u: "wal_inv u" using wal.sets_invar [OF t assms(5)] assms(6) by simp
  have v: "wal_inv v" "wal_view v = wal_view u"
    using Open_log [of "ws_log u" "ws_ix u" io] u assms(7) by (auto simp: wal_inv_def wal_view_def)
  have "e \<le> snd (wal_view t) n"
    using wal.set_ok_iff [OF assms(1,2)] wal.view_set [OF assms(1,2)] assms(3) floor_commit_ge [OF assms(4)] by simp
  also have "\<dots> \<le> snd (wal_view v) n" using wal.floors_mono [OF t assms(5), of n] assms(6) v(2) by simp
  finally have "\<not> allowed b' (wal_view v)" using allowed_touches [OF _ assms(9)] assms(10) by fastforce
  then show ?thesis using wal.set_ok_iff [OF v(1) assms(8)] by simp
qed

text \<open>
  A superseded writer stays refused. Once a batch that touches a name under an epoch was accepted,
  then whatever batches follow, and after the store was reopened, a batch that touches the same name
  under a lower epoch is refused. A row's floor outlives the row.
\<close>
theorem superseded_writer_is_refused_after_restart:
  assumes "wal_inv s" and "wal_fits b s" and "wal_Set AppendOK CompactOK b s = (t, None)" and "touches b n e"
    and "run_fits (wal_Set AppendOK CompactOK) wal_fits bs t" and "run_sets (wal_Set AppendOK CompactOK) bs t = (u, rs)"
    and "wal_Open io (ws_log u) = Inr v" and "wal_fits b' v" and "touches b' n e'" and "e' < e"
  shows "snd (wal_Set AppendOK CompactOK b' v) \<noteq> None"
  by (rule superseded_refused_reopened [OF assms])

definition b3 :: sbatch where
  "b3 = Put k1 (Some ''old'') 0 (NewSBatch 6)"

definition ix3 :: windex where
  "ix3 = fold wal_apply (map norm_entry [batch_entry b1 empty_index, batch_entry b2 ix1]) empty_index"

theorem superseded_writer_is_refused_after_restart_witness:
  "\<exists>v. wal_Open CompactOK (ws_log s2) = Inr v \<and> snd (wal_Set AppendOK CompactOK b3 v) \<noteq> None"
proof -
  have g: "list_all good [batch_entry b1 empty_index, batch_entry b2 ix1]" by code_simp
  then obtain v where v: "wal_Open CompactOK (ws_log s2) = Inr v" "ws_ix v = ix3"
    using Open_frames [OF g, of "[]" CompactOK] by (simp add: s2_def' opened_wal_def ix3_def)
  have "wf_batch b3 \<and> entry_ok (batch_entry b3 ix3) ix3" by code_simp
  then have f: "wal_fits b3 v" by (simp add: wal_fits_def v(2))
  have t: "touches b1 (key_String k1) 7" "touches b3 (key_String k1) 6"
    by (simp_all add: touches_def b1_def b3_def Put_def NewSBatch_def EpochFor_def)
  have r: "run_fits (wal_Set AppendOK CompactOK) wal_fits [b2] s1"
      "run_sets (wal_Set AppendOK CompactOK) [b2] s1 = (s2, [True])"
    using b2_fits by (simp_all add: s2_def')
  have "snd (wal_Set AppendOK CompactOK b3 v) \<noteq> None"
    by (rule superseded_writer_is_refused_after_restart
        [OF fresh_inv b1_fits s1_def'(1) t(1) r v(1) f t(2)]) simp
  then show ?thesis using v(1) by blast
qed

section \<open>The two stores agree\<close>

text \<open>
  C23: The in-memory store and the write-ahead log are the same store. Handed the same batches from
  empty, each of whose frames is within the bound of the format, and with an operating system that
  serves every append and every compaction, both accept and refuse the same ones and end with the same
  rows, versions and floors; and the log, reopened, still does.
\<close>
theorem the_two_stores_agree:
  assumes "run_fits (wal_Set AppendOK CompactOK) wal_fits bs fresh"
  shows "snd (run_sets mem_Set bs mem_New) = snd (run_sets (wal_Set AppendOK CompactOK) bs fresh) \<and>
     mem_view (fst (run_sets mem_Set bs mem_New)) = wal_view (fst (run_sets (wal_Set AppendOK CompactOK) bs fresh)) \<and>
     (\<exists>s. wal_Open io (ws_log (fst (run_sets (wal_Set AppendOK CompactOK) bs fresh))) = Inr s \<and>
        wal_view s = mem_view (fst (run_sets mem_Set bs mem_New)))"
proof -
  have f: "run_fits mem_Set (\<lambda>_ _. True) cs m" for cs m by (induction cs arbitrary: m) simp_all
  have v: "mem_view mem_New = wal_view fresh"
    by (simp add: mem_view_def mem_New_def wal_view_def ix_view_def fresh_def opened_wal_def empty_index_def)
  note m = mem.sets_refine [OF mem_New_ok f, of bs] and w = wal.sets_refine [OF fresh_inv assms]
  have "wal_inv (fst (run_sets (wal_Set AppendOK CompactOK) bs fresh))"
    by (rule wal.sets_invar [OF fresh_inv assms])
  then show ?thesis using m w v Open_log [where io = io]
    unfolding wal_inv_def wal_view_def by (metis prod.inject)
qed

theorem the_two_stores_agree_witness:
  "snd (run_sets mem_Set [b1, b2] mem_New) = snd (run_sets (wal_Set AppendOK CompactOK) [b1, b2] fresh) \<and>
   mem_view (fst (run_sets mem_Set [b1, b2] mem_New)) = wal_view (fst (run_sets (wal_Set AppendOK CompactOK) [b1, b2] fresh)) \<and>
   (\<exists>s. wal_Open CompactOK (ws_log (fst (run_sets (wal_Set AppendOK CompactOK) [b1, b2] fresh))) = Inr s \<and>
      wal_view s = mem_view (fst (run_sets mem_Set [b1, b2] mem_New)))"
  by (rule the_two_stores_agree [OF b12_fit])

section \<open>Acknowledged batches that a restart loses\<close>

text \<open>
  C40: A batch whose frame exceeds the bound is accepted, applied and reported as durable, although
  the reader takes such a frame for a torn tail: reopening the log shows the store as it was before
  the batch. The hypotheses are that the batch is allowed, its payload is beyond the bound and short of
  4 GiB, and at least half of the log is live, so that no compaction follows.
\<close>
theorem oversized_batch_is_acknowledged_and_lost:
  assumes "wal_inv s" and "wf_batch b" and "allowed b (wal_view s)" and "e = batch_entry b (ws_ix s)"
    and "maxFrame < length (payload_of e)" and "length (payload_of e) < 2 ^ 32"
    and "ws_bytes s + length (encode e) \<le> 2 * liveBytes (wal_apply e (ws_ix s))"
  shows "\<exists>s' s''. wal_Set AppendOK cio b s = (s', None) \<and> wal_view s' = commit_view b (wal_view s) \<and>
     wal_Open io (ws_log s') = Inr s'' \<and> wal_view s'' = wal_view s"
proof -
  let ?s' = "s\<lparr>ws_log := ws_log s @ encode e, ws_ix := wal_apply e (ws_ix s),
     ws_bytes := ws_bytes s + length (encode e), ws_live := liveBytes (wal_apply e (ws_ix s))\<rparr>"
  have "wal_Set AppendOK cio b s = (?s', None)"
    using assms(1,7) unfolding wal_Set_cases(1) [OF assms(1,3)] assms(4) [symmetric]
    by (simp add: wal_inv_def wal_commit_def wal_append_def maybeCompact_def Let_def)
  moreover have "wal_view ?s' = commit_view b (wal_view s)"
    using batch_entry_view [OF assms(2)] by (simp add: wal_view_def assms(4))
  moreover have "replays_to (ws_log s) (ws_ix s)" using assms(1) by (simp add: wal_inv_def)
  moreover have "readFrame (encode e) = FrameTorn" using readFrame_oversized [OF assms(5,6), of "[]"] by simp
  ultimately show ?thesis using Open_view [of "ws_log s" "ws_ix s" "encode e" io] by (auto simp: wal_view_def)
qed

definition big :: "bytes \<Rightarrow> sbatch" where
  "big v = Put k1 (Some v) 0 (NewSBatch 7)"

lemma big_entry: "batch_entry (big v) empty_index =
    \<lparr>en_writes = [\<lparr>aw_key = k1, aw_value = Some v, aw_version = 1, aw_epochSeen = 7\<rparr>], en_deletes = []\<rparr>"
  by (simp add: batch_entry_def big_def Put_def NewSBatch_def EpochFor_def version_of_def floor_of_def empty_index_def)

lemma big_payload: "length (payload_of (batch_entry (big v) empty_index)) = length v + length (AppendUvarint (length v)) + 12"
proof -
  have "length (appendKey k1) = 7" "length (AppendUvarint 0) = 1" "length (AppendUvarint 1) = 1" "length (AppendUvarint 7) = 1"
    by code_simp+
  then show ?thesis by (simp add: big_entry payload_of_def appendWrite_def appendBytes_def)
qed

lemma big_live: "length v + 42 \<le> liveBytes (wal_apply (batch_entry (big v) empty_index) empty_index)"
  unfolding big_entry
  by (simp add: wal_apply_def apply_write_def Let_def liveBytes_def empty_index_def content_def headerLen_def)

theorem oversized_batch_is_acknowledged_and_lost_witness:
  "\<exists>v s' s''. length v = 67108864 \<and> wal_Set AppendOK CompactOK (big v) fresh = (s', None) \<and>
     wal_view s' = commit_view (big v) (wal_view fresh) \<and>
     wal_Open CompactOK (ws_log s') = Inr s'' \<and> wal_view s'' = wal_view fresh"
proof -
  obtain v :: bytes where v: "length v = 67108864" using Ex_list_of_length by blast
  have u: "length (AppendUvarint 67108864) = 4" by code_simp
  have f: "ws_ix fresh = empty_index" "ws_bytes fresh = 10" by (simp_all add: fresh_def opened_wal_def log_header_def magic_def)
  have w: "wf_batch (big v)" by (simp add: big_def)
  have "allowed (big v) (ix_view empty_index)"
    by (simp add: allowed_def big_def Put_def NewSBatch_def ix_view_def empty_index_def floor_of_def rows_def cas_ok_def)
  then have al: "allowed (big v) (wal_view fresh)" by (simp add: wal_view_def f)
  have "\<exists>s' s''. wal_Set AppendOK CompactOK (big v) fresh = (s', None) \<and>
     wal_view s' = commit_view (big v) (wal_view fresh) \<and> wal_Open CompactOK (ws_log s') = Inr s'' \<and> wal_view s'' = wal_view fresh"
    by (rule oversized_batch_is_acknowledged_and_lost [OF fresh_inv w al refl])
      (use big_live [of v] in \<open>simp_all add: f big_payload v u length_encode maxFrame_def frameHeader_def\<close>)
  then show ?thesis using v by blast
qed

text \<open>
  A failed append leaves its bytes in the file, and the store goes on appending behind them. Every
  batch accepted afterwards is reported as durable and is lost at the next opening, which stops at the
  torn frame: the reopened store shows what it showed before the failed batch. The hypothesis on
  \<^verbatim>\<open>readFrame\<close> is that the torn frame, read on into the next one, is not a frame.
\<close>
theorem batch_after_failed_append_is_lost:
  assumes "wal_inv s" and "allowed b (wal_view s)" and "wal_Set (WriteFails m x) cio b s = (s', r)"
    and "wf_batch c" and "allowed c (wal_view s')"
    and "readFrame (take m (encode (batch_entry b (ws_ix s))) @ encode (batch_entry c (ws_ix s))) = FrameTorn"
    and "ws_bytes s + length (encode (batch_entry c (ws_ix s))) < compactMinBytes"
  shows "r \<noteq> None \<and> (\<exists>t u. wal_Set AppendOK cio' c s' = (t, None) \<and> wal_view t = commit_view c (wal_view s) \<and>
     wal_Open io (ws_log t) = Inr u \<and> wal_view u = wal_view s)"
proof -
  let ?e = "batch_entry b (ws_ix s)" and ?d = "batch_entry c (ws_ix s)"
  let ?t = "s\<lparr>ws_log := ws_log s @ take m (encode ?e) @ encode ?d, ws_ix := wal_apply ?d (ws_ix s),
     ws_bytes := ws_bytes s + length (encode ?d), ws_live := liveBytes (wal_apply ?d (ws_ix s))\<rparr>"
  have s: "s' = s\<lparr>ws_log := ws_log s @ take m (encode ?e)\<rparr>" "r \<noteq> None"
    using assms(1,3) unfolding wal_Set_cases(1) [OF assms(1,2)]
    by (auto simp: wal_inv_def wal_commit_def wal_append_def)
  have "allowed c (wal_view s)" using assms(5) s(1) by (simp add: wal_view_def)
  then have "wal_Set AppendOK cio' c s' = (?t, None)"
    using assms(1,7) wal_allowed [OF assms(1), of c]
    by (simp add: s(1) wal_inv_def wal_Set_def wal_commit_def wal_append_def maybeCompact_def Let_def)
  moreover have "wal_view ?t = commit_view c (wal_view s)"
    using batch_entry_view [OF assms(4)] by (simp add: wal_view_def)
  moreover have "replays_to (ws_log s) (ws_ix s)" using assms(1) by (simp add: wal_inv_def)
  ultimately show ?thesis
    using s(2) Open_view [of "ws_log s" "ws_ix s" "take m (encode ?e) @ encode ?d" io] assms(6) by (auto simp: wal_view_def)
qed

lemma torn_prefix:
  assumes "length (payload_of e) < 256" and "length (payload_of d) < 256"
  shows "readFrame (take 1 (encode e) @ encode d) = FrameTorn"
proof -
  have "take 1 (encode e) = [byte 0]"
    using assms(1) by (simp add: encode_def Let_def PutUint32_def)
  moreover have "take 3 (encode d) = [byte 0, byte 0, byte 0]"
    using assms(2) by (simp add: encode_def Let_def PutUint32_def)
  ultimately have "take 4 (take 1 (encode e) @ encode d) = [byte 0, byte 0, byte 0, byte 0]" by simp
  then have "Uint32 (take 4 (take 1 (encode e) @ encode d)) = 0" by (simp add: Uint32_def)
  moreover have "frameHeader \<le> length (take 1 (encode e) @ encode d)" "take 1 (encode e) @ encode d \<noteq> []"
    using length_encode [of d] payload_pos [of d] by auto
  ultimately show ?thesis unfolding readFrame_def Let_def by simp
qed

theorem batch_after_failed_append_is_lost_witness:
  "\<exists>t u. wal_Set AppendOK CompactOK b1 (fst (wal_Set (WriteFails 1 ErrFenced) CompactOK b1 fresh)) = (t, None) \<and>
     wal_view t = commit_view b1 (wal_view fresh) \<and> wal_Open CompactOK (ws_log t) = Inr u \<and> wal_view u = wal_view fresh"
proof -
  let ?s = "fst (wal_Set (WriteFails 1 ErrFenced) CompactOK b1 fresh)"
  have f: "ws_ix fresh = empty_index" "ws_bytes fresh = 10" by (simp_all add: fresh_def opened_wal_def log_header_def magic_def)
  have al: "allowed b1 (wal_view fresh)" by code_simp
  have p: "length (payload_of (batch_entry b1 empty_index)) < 256" by code_simp
  have "wal_Set (WriteFails 1 ErrFenced) CompactOK b1 fresh = (?s, snd (wal_Set (WriteFails 1 ErrFenced) CompactOK b1 fresh))" by simp
  moreover have "wal_view ?s = wal_view fresh"
    unfolding wal_Set_cases(1) [OF fresh_inv al]
    by (simp add: wal_commit_def wal_append_def wal_view_def fresh_def opened_wal_def)
  moreover have "wf_batch b1" by (simp add: b1_def)
  ultimately show ?thesis
    using batch_after_failed_append_is_lost [OF fresh_inv al, of 1 ErrFenced CompactOK ?s
        "snd (wal_Set (WriteFails 1 ErrFenced) CompactOK b1 fresh)" b1 CompactOK CompactOK]
      torn_prefix [OF p p] al p by (simp add: f length_encode frameHeader_def compactMinBytes_def)
qed

end
