(* ===== verification/Canal_Coordinator.thy ===== *)
theory Canal_Coordinator
  imports Canal_Keys Canal_Record Canal_Fault
begin

text \<open>
  The coordinator: the rows and leases of \<^verbatim>\<open>pkg/store/coordinator.go\<close> and the in-memory coordinator
  of \<^verbatim>\<open>internal/example/memstore/coordinator.go\<close>, with membership, the advisory leader claim, the plan
  and the placement protocol (claim, renew, release).

  Every method runs under one mutex and is one step; the clock is an argument. A leadership handle is
  its index in the list of handles the coordinator gave out, and the channel \<^verbatim>\<open>changes\<close> is a generation
  number: the channel a caller got at generation \<open>g\<close> is closed when the number has moved past \<open>g\<close>.
  An error's text names the reason and leaves out the values the code formats into it.
\<close>

section \<open>Data\<close>

record worker_info =
  wi_ID :: worker_id
  wi_Tenant :: tenant_id
  wi_Address :: string
  wi_Version :: string
  wi_Started :: time
  wi_Labels :: "(string \<times> string) list"

record lane_row =
  lr_ID :: lane_id
  lr_Name :: string
  lr_Group :: lane_group
  lr_After :: "lane_group list"
  lr_Spec :: blob
  lr_Bounded :: bool
  lr_Finished :: bool
  lr_FinishedAt :: time
  lr_Weight :: nat

record assignment =
  as_ID :: assignment_id
  as_Tenant :: tenant_id
  as_Pipeline :: pipeline_id
  as_Generation :: nat
  as_Lane :: lane_row
  as_Worker :: worker_id
  as_Epoch :: nat
  as_LeaseExpires :: time
  as_Gated :: bool

record lease =
  le_Assignment :: assignment_id
  le_Worker :: worker_id
  le_Epoch :: nat
  le_Expires :: time

definition lease_Valid :: "time \<Rightarrow> lease \<Rightarrow> bool" where
  "lease_Valid now l \<longleftrightarrow> now < le_Expires l"

definition DefaultLeaseTTL :: duration where "DefaultLeaseTTL = 30 * second"
definition DefaultRenewInterval :: duration where "DefaultRenewInterval = 10 * second"
definition DefaultReassignmentDelay :: duration where "DefaultReassignmentDelay = 120 * second"

record assignment_row =
  ar_a :: assignment
  ar_ttl :: duration

record leadership =
  ld_held :: bool
  ld_lost :: bool

record coordinator =
  co_workers :: "(worker_id \<times> worker_info) list"
  co_changes :: nat
  co_handles :: "leadership list"
  co_leader :: "nat option"
  co_rows :: "(assignment_id \<times> assignment_row) list"
  co_epoch :: nat

definition NewCoordinator :: coordinator where
  "NewCoordinator = \<lparr>co_workers = [], co_changes = 0, co_handles = [], co_leader = None, co_rows = [], co_epoch = 0\<rparr>"

section \<open>Membership\<close>

definition notifyLocked :: "coordinator \<Rightarrow> coordinator" where
  "notifyLocked c = c\<lparr>co_changes := co_changes c + 1\<rparr>"

definition co_Join :: "worker_info \<Rightarrow> coordinator \<Rightarrow> coordinator \<times> (err + worker_id)" where
  "co_Join w c =
     (if wi_ID w = [] then (c, Inl (Contract FOpOpen (Some (Plain ''memstore: a worker needs an id to join''))))
      else (notifyLocked (c\<lparr>co_workers := aput (wi_ID w) w (co_workers c)\<rparr>), Inr (wi_ID w)))"

definition mb_Workers :: "coordinator \<Rightarrow> worker_info list" where
  "mb_Workers c = sort_key wi_ID (map snd (co_workers c))"

definition mb_Changes :: "coordinator \<Rightarrow> nat" where
  "mb_Changes c = co_changes c"

definition mb_Leave :: "worker_id \<Rightarrow> coordinator \<Rightarrow> coordinator" where
  "mb_Leave w c = (case map_of (co_workers c) w of
      None \<Rightarrow> c
    | Some _ \<Rightarrow> notifyLocked (c\<lparr>co_workers := adel w (co_workers c)\<rparr>))"

section \<open>Leadership\<close>

definition co_Campaign :: "coordinator \<Rightarrow> coordinator \<times> nat" where
  "co_Campaign c = (let n = length (co_handles c) in
     (if co_leader c = None
      then c\<lparr>co_leader := Some n, co_handles := co_handles c @ [\<lparr>ld_held = True, ld_lost = False\<rparr>]\<rparr>
      else c\<lparr>co_handles := co_handles c @ [\<lparr>ld_held = False, ld_lost = True\<rparr>]\<rparr>, n))"

definition ld_IsLeader :: "nat \<Rightarrow> coordinator \<Rightarrow> bool" where
  "ld_IsLeader n c \<longleftrightarrow> n < length (co_handles c) \<and> ld_held (co_handles c ! n)"

definition ld_Lost :: "nat \<Rightarrow> coordinator \<Rightarrow> bool" where
  "ld_Lost n c \<longleftrightarrow> n < length (co_handles c) \<and> ld_lost (co_handles c ! n)"

definition ld_Resign :: "nat \<Rightarrow> coordinator \<Rightarrow> coordinator" where
  "ld_Resign n c = (if \<not> ld_IsLeader n c then c
     else c\<lparr>co_leader := None, co_handles := (co_handles c)[n := \<lparr>ld_held = False, ld_lost = True\<rparr>]\<rparr>)"

section \<open>The plan\<close>

fun plan_check :: "tenant_id \<Rightarrow> pipeline_id \<Rightarrow> nat \<Rightarrow> assignment_id list \<Rightarrow> lane_row list \<Rightarrow> err + assignment_id list" where
  "plan_check t p gen kept [] = Inr kept"
| "plan_check t p gen kept (lr # lrs) =
     (if lr_ID lr = [] then Inl (Contract FOpPersist (Some (Plain ''memstore: a lane row needs an id to be planned'')))
      else let aid = AssignmentIDFor t p gen (lr_ID lr) in
        if aid \<in> set kept then Inl (Contract FOpPersist (Some (Plain ''memstore: lane appears twice in one plan'')))
        else plan_check t p gen (kept @ [aid]) lrs)"

definition new_row :: "tenant_id \<Rightarrow> pipeline_id \<Rightarrow> nat \<Rightarrow> lane_row \<Rightarrow> assignment_row" where
  "new_row t p gen lr = \<lparr>ar_a = \<lparr>as_ID = AssignmentIDFor t p gen (lr_ID lr), as_Tenant = t, as_Pipeline = p,
     as_Generation = gen, as_Lane = lr, as_Worker = [], as_Epoch = 0, as_LeaseExpires = 0, as_Gated = False\<rparr>, ar_ttl = 0\<rparr>"

definition set_lane :: "lane_row \<Rightarrow> assignment_row \<Rightarrow> assignment_row" where
  "set_lane lr row = row\<lparr>ar_a := (ar_a row)\<lparr>as_Lane := lr\<rparr>\<rparr>"

definition plan_row :: "tenant_id \<Rightarrow> pipeline_id \<Rightarrow> nat \<Rightarrow> lane_row \<Rightarrow>
    (assignment_id \<times> assignment_row) list \<Rightarrow> (assignment_id \<times> assignment_row) list" where
  "plan_row t p gen lr rows = (let aid = AssignmentIDFor t p gen (lr_ID lr) in
     aput aid (case map_of rows aid of None \<Rightarrow> new_row t p gen lr | Some row \<Rightarrow> set_lane lr row) rows)"

definition of_pipeline :: "tenant_id \<Rightarrow> pipeline_id \<Rightarrow> assignment_row \<Rightarrow> bool" where
  "of_pipeline t p row \<longleftrightarrow> as_Tenant (ar_a row) = t \<and> as_Pipeline (ar_a row) = p"

definition undone :: "lane_row \<Rightarrow> bool" where
  "undone lr \<longleftrightarrow> \<not> lr_Finished lr \<or> time_is_zero (lr_FinishedAt lr)"

definition gate_closed :: "assignment_row list \<Rightarrow> lane_row \<Rightarrow> bool" where
  "gate_closed mine lr \<longleftrightarrow>
     list_ex (\<lambda>want. list_ex (\<lambda>other. lr_Group (as_Lane (ar_a other)) = want \<and> undone (as_Lane (ar_a other))) mine) (lr_After lr)"

definition mine_of :: "tenant_id \<Rightarrow> pipeline_id \<Rightarrow> nat \<Rightarrow> (assignment_id \<times> assignment_row) list \<Rightarrow> assignment_row list" where
  "mine_of t p gen rows = filter (\<lambda>row. of_pipeline t p row \<and> as_Generation (ar_a row) = gen) (map snd rows)"

definition regateLocked :: "tenant_id \<Rightarrow> pipeline_id \<Rightarrow> nat \<Rightarrow>
    (assignment_id \<times> assignment_row) list \<Rightarrow> (assignment_id \<times> assignment_row) list" where
  "regateLocked t p gen rows = (let mine = mine_of t p gen rows in
     amap (\<lambda>_ row. if of_pipeline t p row \<and> as_Generation (ar_a row) = gen
        then row\<lparr>ar_a := (ar_a row)\<lparr>as_Gated := gate_closed mine (as_Lane (ar_a row))\<rparr>\<rparr> else row) rows)"

definition co_Plan :: "tenant_id \<Rightarrow> pipeline_id \<Rightarrow> nat \<Rightarrow> lane_row list \<Rightarrow> coordinator \<Rightarrow> coordinator \<times> err option" where
  "co_Plan t p gen lrs c =
     (if list_ex (\<lambda>(_, row). of_pipeline t p row \<and> as_Generation (ar_a row) > gen) (co_rows c)
      then (c, Some (Contract FOpPersist (Some (Plain ''memstore: refusing to plan an older generation''))))
      else case plan_check t p gen [] lrs of
        Inl e \<Rightarrow> (c, Some e)
      | Inr kept \<Rightarrow>
          let written = fold (plan_row t p gen) lrs (co_rows c);
              current = filter (\<lambda>(aid, row). \<not> (of_pipeline t p row \<and> (as_Generation (ar_a row) < gen \<or> aid \<notin> set kept))) written
          in (c\<lparr>co_rows := regateLocked t p gen current\<rparr>, None))"

definition co_Assignments :: "tenant_id \<Rightarrow> pipeline_id \<Rightarrow> coordinator \<Rightarrow> assignment list" where
  "co_Assignments t p c = sort_key as_ID (map ar_a (filter (of_pipeline t p) (map snd (co_rows c))))"

section \<open>The placement protocol\<close>

definition co_fenced :: "string \<Rightarrow> err" where
  "co_fenced s = fault_New Fenced FOpPersist (Some (Plain (''memstore: '' @ s)))"

definition leaseOf :: "assignment_row \<Rightarrow> lease" where
  "leaseOf row = \<lparr>le_Assignment = as_ID (ar_a row), le_Worker = as_Worker (ar_a row),
     le_Epoch = as_Epoch (ar_a row), le_Expires = as_LeaseExpires (ar_a row)\<rparr>"

definition holderLocked :: "assignment_row \<Rightarrow> time \<Rightarrow> worker_id \<times> time" where
  "holderLocked row now =
     (if as_Worker (ar_a row) = [] then ([], 0)
      else if now < as_LeaseExpires (ar_a row) then (as_Worker (ar_a row), as_LeaseExpires (ar_a row))
      else if now < as_LeaseExpires (ar_a row) + DefaultReassignmentDelay
        then (as_Worker (ar_a row), as_LeaseExpires (ar_a row) + DefaultReassignmentDelay)
      else ([], 0))"

definition grant :: "worker_id \<Rightarrow> nat \<Rightarrow> time \<Rightarrow> duration \<Rightarrow> assignment_row \<Rightarrow> assignment_row" where
  "grant w e now ttl row = \<lparr>ar_a = (ar_a row)\<lparr>as_Worker := w, as_Epoch := e, as_LeaseExpires := now + ttl\<rparr>, ar_ttl = ttl\<rparr>"

definition co_Claim :: "assignment_id \<Rightarrow> worker_id \<Rightarrow> duration \<Rightarrow> time \<Rightarrow> coordinator \<Rightarrow> coordinator \<times> (err + lease)" where
  "co_Claim a w ttl0 now c =
     (if w = [] then (c, Inl (Contract FOpPersist (Some (Plain ''memstore: a claim needs a worker id''))))
      else let ttl = (if ttl0 \<le> 0 then DefaultLeaseTTL else ttl0) in
        case map_of (co_rows c) a of
          None \<Rightarrow> (c, Inl (co_fenced ''assignment is not in the plan''))
        | Some row \<Rightarrow>
            if as_Gated (ar_a row) then (c, Inl (co_fenced ''assignment is gated''))
            else if lr_Finished (as_Lane (ar_a row)) then (c, Inl (co_fenced ''assignment is finished''))
            else if fst (holderLocked row now) \<noteq> [] \<and> fst (holderLocked row now) \<noteq> w
              then (c, Inl (co_fenced ''assignment is held''))
            else let row' = grant w (co_epoch c + 1) now ttl row in
              (c\<lparr>co_epoch := co_epoch c + 1, co_rows := aput a row' (co_rows c)\<rparr>, Inr (leaseOf row')))"

definition co_Renew :: "lease \<Rightarrow> time \<Rightarrow> coordinator \<Rightarrow> coordinator \<times> (err + lease)" where
  "co_Renew l now c =
     (case map_of (co_rows c) (le_Assignment l) of
        None \<Rightarrow> (c, Inl (co_fenced ''assignment is not in the plan''))
      | Some row \<Rightarrow>
          if as_Worker (ar_a row) \<noteq> le_Worker l \<or> as_Epoch (ar_a row) \<noteq> le_Epoch l
          then (c, Inl (co_fenced ''assignment is now held by another''))
          else if \<not> now < as_LeaseExpires (ar_a row) then (c, Inl (co_fenced ''the lease expired''))
          else let row' = row\<lparr>ar_a := (ar_a row)\<lparr>as_LeaseExpires := now + ar_ttl row\<rparr>\<rparr> in
            (c\<lparr>co_rows := aput (le_Assignment l) row' (co_rows c)\<rparr>, Inr (leaseOf row')))"

definition co_Release :: "lease \<Rightarrow> coordinator \<Rightarrow> coordinator \<times> err option" where
  "co_Release l c =
     (case map_of (co_rows c) (le_Assignment l) of
        None \<Rightarrow> (c, None)
      | Some row \<Rightarrow>
          if as_Worker (ar_a row) \<noteq> le_Worker l \<or> as_Epoch (ar_a row) \<noteq> le_Epoch l
          then (c, Some (co_fenced ''assignment is now held by another''))
          else (c\<lparr>co_rows := aput (le_Assignment l)
             (row\<lparr>ar_a := (ar_a row)\<lparr>as_Worker := [], as_Epoch := 0, as_LeaseExpires := 0\<rparr>\<rparr>) (co_rows c)\<rparr>, None))"

section \<open>Runs\<close>

text \<open>The operations as data, the lease an operation hands out, and sequences of operations.\<close>

datatype co_op = OpJoin worker_info | OpLeave worker_id | OpCampaign | OpResign nat
  | OpPlan tenant_id pipeline_id nat "lane_row list"
  | OpClaim assignment_id worker_id duration time
  | OpRenew lease time
  | OpRelease lease

fun co_step :: "co_op \<Rightarrow> coordinator \<Rightarrow> coordinator" where
  "co_step (OpJoin w) c = fst (co_Join w c)"
| "co_step (OpLeave w) c = mb_Leave w c"
| "co_step OpCampaign c = fst (co_Campaign c)"
| "co_step (OpResign n) c = ld_Resign n c"
| "co_step (OpPlan t p gen lrs) c = fst (co_Plan t p gen lrs c)"
| "co_step (OpClaim a w ttl now) c = fst (co_Claim a w ttl now c)"
| "co_step (OpRenew l now) c = fst (co_Renew l now c)"
| "co_step (OpRelease l) c = fst (co_Release l c)"

fun granted :: "co_op \<Rightarrow> coordinator \<Rightarrow> lease list" where
  "granted (OpClaim a w ttl now) c = (case snd (co_Claim a w ttl now c) of Inl _ \<Rightarrow> [] | Inr l \<Rightarrow> [l])"
| "granted _ c = []"

fun co_run :: "co_op list \<Rightarrow> coordinator \<Rightarrow> coordinator" where
  "co_run [] c = c"
| "co_run (x # xs) c = co_run xs (co_step x c)"

fun grants :: "co_op list \<Rightarrow> coordinator \<Rightarrow> lease list" where
  "grants [] c = []"
| "grants (x # xs) c = granted x c @ grants xs (co_step x c)"

end
