(* ===== verification/Canal_CoordInv.thy ===== *)
theory Canal_CoordInv
  imports Canal_Coordinator
begin

text \<open>
  The invariant of the coordinator, and what a run of operations hands out. The part of a row that
  the plan decides (\<open>static\<close>: identity, lane, gate) and the part the placement protocol decides
  (\<open>placement\<close>: worker, epoch, expiry) are kept apart, because no operation changes both.
\<close>

section \<open>The two halves of a row\<close>

definition static :: "assignment_row \<Rightarrow> assignment" where
  "static row = (ar_a row)\<lparr>as_Worker := [], as_Epoch := 0, as_LeaseExpires := 0\<rparr>"

definition placement :: "assignment_row \<Rightarrow> worker_id \<times> nat \<times> time \<times> duration" where
  "placement row = (as_Worker (ar_a row), as_Epoch (ar_a row), as_LeaseExpires (ar_a row), ar_ttl row)"

definition statics :: "coordinator \<Rightarrow> assignment_id \<Rightarrow> assignment option" where
  "statics c a = map_option static (map_of (co_rows c) a)"

definition same_plan :: "assignment \<Rightarrow> assignment \<Rightarrow> bool" where
  "same_plan x y \<longleftrightarrow> as_Tenant x = as_Tenant y \<and> as_Pipeline x = as_Pipeline y"

definition waits :: "(assignment_id \<Rightarrow> assignment option) \<Rightarrow> assignment \<Rightarrow> bool" where
  "waits m x \<longleftrightarrow> (\<exists>b y. m b = Some y \<and> same_plan x y \<and> as_Generation y = as_Generation x \<and>
     lr_Group (as_Lane y) \<in> set (lr_After (as_Lane x)) \<and> undone (as_Lane y))"

definition id_named :: "assignment_id \<Rightarrow> assignment \<Rightarrow> bool" where
  "id_named a x \<longleftrightarrow> as_ID x = a \<and> a = AssignmentIDFor (as_Tenant x) (as_Pipeline x) (as_Generation x) (lr_ID (as_Lane x))"

definition static_ok :: "(assignment_id \<Rightarrow> assignment option) \<Rightarrow> bool" where
  "static_ok m \<longleftrightarrow> (\<forall>a x. m a = Some x \<longrightarrow> id_named a x \<and> (as_Gated x \<longleftrightarrow> waits m x) \<and>
     (\<forall>b y. m b = Some y \<and> same_plan x y \<longrightarrow> as_Generation y = as_Generation x))"

definition epochs_ok :: "coordinator \<Rightarrow> bool" where
  "epochs_ok c \<longleftrightarrow> (\<forall>a row. map_of (co_rows c) a = Some row \<longrightarrow>
     as_Epoch (ar_a row) \<le> co_epoch c \<and> (as_Epoch (ar_a row) = 0 \<longleftrightarrow> as_Worker (ar_a row) = []) \<and>
     (\<forall>b row'. map_of (co_rows c) b = Some row' \<and> as_Epoch (ar_a row') = as_Epoch (ar_a row) \<and> as_Epoch (ar_a row) \<noteq> 0 \<longrightarrow> b = a))"

definition co_inv :: "coordinator \<Rightarrow> bool" where
  "co_inv c \<longleftrightarrow> wf_amap (co_rows c) \<and> static_ok (statics c) \<and> epochs_ok c"

lemma static_simps [simp]:
  "as_ID (static row) = as_ID (ar_a row)" "as_Tenant (static row) = as_Tenant (ar_a row)"
  "as_Pipeline (static row) = as_Pipeline (ar_a row)" "as_Generation (static row) = as_Generation (ar_a row)"
  "as_Lane (static row) = as_Lane (ar_a row)" "as_Gated (static row) = as_Gated (ar_a row)"
  by (simp_all add: static_def)

lemma static_upd [simp]:
  "static (row\<lparr>ar_a := (ar_a row)\<lparr>as_LeaseExpires := t\<rparr>\<rparr>) = static row"
  "static (row\<lparr>ar_a := (ar_a row)\<lparr>as_Worker := w, as_Epoch := e, as_LeaseExpires := t\<rparr>\<rparr>) = static row"
  "static (grant w e now ttl row) = static row"
  by (simp_all add: static_def grant_def)

lemma statics_replace: "map_of (co_rows c) a = Some row \<Longrightarrow> static row' = static row \<Longrightarrow>
    statics (c\<lparr>co_epoch := e, co_rows := AList.update a row' (co_rows c)\<rparr>) = statics c"
  "map_of (co_rows c) a = Some row \<Longrightarrow> static row' = static row \<Longrightarrow>
    statics (c\<lparr>co_rows := AList.update a row' (co_rows c)\<rparr>) = statics c"
  by (auto simp: statics_def fun_eq_iff)

lemma static_okD:
  assumes "static_ok (statics c)" and "map_of (co_rows c) a = Some row"
  shows "id_named a (static row)" and "as_Gated (ar_a row) \<longleftrightarrow> waits (statics c) (static row)"
    and "statics c b = Some y \<Longrightarrow> same_plan (static row) y \<Longrightarrow> as_Generation y = as_Generation (ar_a row)"
proof -
  have s: "statics c a = Some (static row)" using assms(2) by (simp add: statics_def)
  note ok = assms(1) [unfolded static_ok_def, rule_format, OF s]
  show "id_named a (static row)" "as_Gated (ar_a row) \<longleftrightarrow> waits (statics c) (static row)" using ok by simp_all
  show "statics c b = Some y \<Longrightarrow> same_plan (static row) y \<Longrightarrow> as_Generation y = as_Generation (ar_a row)"
    using ok by simp
qed

section \<open>Planning\<close>

lemma wf_plan_rows: "wf_amap rows \<Longrightarrow> wf_amap (fold (plan_row t p gen) lrs rows)"
  by (induction lrs arbitrary: rows) (simp_all add: plan_row_def Let_def)

lemma set_lane_simps [simp]:
  "set_lane lr (set_lane lr' row) = set_lane lr row" "placement (set_lane lr row) = placement row"
  "as_Tenant (ar_a (set_lane lr row)) = as_Tenant (ar_a row)" "as_Pipeline (ar_a (set_lane lr row)) = as_Pipeline (ar_a row)"
  "as_Generation (ar_a (set_lane lr row)) = as_Generation (ar_a row)" "as_Lane (ar_a (set_lane lr row)) = lr"
  "as_ID (ar_a (set_lane lr row)) = as_ID (ar_a row)"
  by (simp_all add: set_lane_def placement_def)

lemma new_row_simps [simp]:
  "as_Tenant (ar_a (new_row t p gen lr)) = t" "as_Pipeline (ar_a (new_row t p gen lr)) = p"
  "as_Generation (ar_a (new_row t p gen lr)) = gen" "as_Lane (ar_a (new_row t p gen lr)) = lr"
  "as_ID (ar_a (new_row t p gen lr)) = AssignmentIDFor t p gen (lr_ID lr)"
  "placement (new_row t p gen lr) = ([], 0, 0, 0)"
  by (simp_all add: new_row_def placement_def)

text \<open>Where a written row comes from.\<close>

lemma plan_rows_origin:
  "map_of (fold (plan_row t p gen) lrs rows) a = Some row \<Longrightarrow>
   map_of rows a = Some row \<and> a \<notin> (\<lambda>lr. AssignmentIDFor t p gen (lr_ID lr)) ` set lrs \<or>
   (\<exists>lr \<in> set lrs. a = AssignmentIDFor t p gen (lr_ID lr) \<and>
      (row = new_row t p gen lr \<and> map_of rows a = None \<or> (\<exists>row0. map_of rows a = Some row0 \<and> row = set_lane lr row0)))"
proof (induction lrs arbitrary: rows)
  case (Cons lr lrs)
  let ?rows = "plan_row t p gen lr rows" and ?a = "AssignmentIDFor t p gen (lr_ID lr)"
  have new: "set_lane lr' (new_row t p gen lr) = new_row t p gen lr'" if "lr_ID lr' = lr_ID lr" for lr'
    using that by (simp add: set_lane_def new_row_def)
  have at: "map_of ?rows b = (if b = ?a then Some (case map_of rows ?a of None \<Rightarrow> new_row t p gen lr | Some row \<Rightarrow> set_lane lr row)
      else map_of rows b)" for b
    by (simp add: plan_row_def Let_def)
  consider "map_of ?rows a = Some row" "a \<notin> (\<lambda>lr. AssignmentIDFor t p gen (lr_ID lr)) ` set lrs"
    | lr' where "lr' \<in> set lrs" "a = AssignmentIDFor t p gen (lr_ID lr')"
        "row = new_row t p gen lr' \<and> map_of ?rows a = None \<or> (\<exists>row0. map_of ?rows a = Some row0 \<and> row = set_lane lr' row0)"
    using Cons.IH [of ?rows] Cons.prems unfolding fold_simps(2) comp_apply by blast
  then show ?case
  proof cases
    case 1
    show ?thesis
    proof (cases "a = ?a")
      case True
      then have "row = new_row t p gen lr \<and> map_of rows a = None \<or> (\<exists>row0. map_of rows a = Some row0 \<and> row = set_lane lr row0)"
        using 1(1) unfolding at by (cases "map_of rows ?a") simp_all
      then show ?thesis using True by (intro disjI2 bexI [of _ lr]) simp_all
    next
      case False
      then show ?thesis using 1 unfolding at by simp
    qed
  next
    case 2
    show ?thesis
    proof (cases "a = ?a")
      case True
      then have "lr_ID lr' = lr_ID lr" using 2(2) by (simp add: AssignmentIDFor_eq_iff)
      then have "row = new_row t p gen lr' \<and> map_of rows a = None \<or> (\<exists>row0. map_of rows a = Some row0 \<and> row = set_lane lr' row0)"
        using 2(3) True new [of lr'] unfolding at by (cases "map_of rows ?a") auto
      then show ?thesis using 2(1,2) by (intro disjI2 bexI [of _ lr']) simp_all
    next
      case False
      then have "map_of ?rows a = map_of rows a" unfolding at by simp
      then show ?thesis using 2 by (intro disjI2 bexI [of _ lr']) simp_all
    qed
  qed
qed simp

lemma plan_rows_keep:
  "map_of rows a = Some row0 \<Longrightarrow> \<exists>row. map_of (fold (plan_row t p gen) lrs rows) a = Some row \<and> placement row = placement row0"
proof (induction lrs arbitrary: rows row0)
  case (Cons lr lrs)
  have "\<exists>row1. map_of (plan_row t p gen lr rows) a = Some row1 \<and> placement row1 = placement row0"
    using Cons.prems by (auto simp: plan_row_def Let_def)
  then obtain row1 where row1: "map_of (plan_row t p gen lr rows) a = Some row1" "placement row1 = placement row0" by blast
  then show ?case using Cons.IH [OF row1(1)] by simp
qed simp

lemma plan_check_kept:
  "plan_check t p gen kept lrs = Inr kept' \<Longrightarrow> set kept' = set kept \<union> (\<lambda>lr. AssignmentIDFor t p gen (lr_ID lr)) ` set lrs"
  by (induction lrs arbitrary: kept) (auto simp: Let_def split: if_splits)

lemma plan_rows_other:
  "a \<notin> (\<lambda>lr. AssignmentIDFor t p gen (lr_ID lr)) ` set lrs \<Longrightarrow> map_of (fold (plan_row t p gen) lrs rows) a = map_of rows a"
  by (induction lrs arbitrary: rows) (simp_all add: plan_row_def Let_def)

definition plan_current :: "tenant_id \<Rightarrow> pipeline_id \<Rightarrow> nat \<Rightarrow> lane_row list \<Rightarrow> coordinator \<Rightarrow> (assignment_id \<times> assignment_row) list" where
  "plan_current t p gen lrs c = filter (\<lambda>(aid, row). \<not> (of_pipeline t p row \<and>
     (as_Generation (ar_a row) < gen \<or> aid \<notin> (\<lambda>lr. AssignmentIDFor t p gen (lr_ID lr)) ` set lrs))) (fold (plan_row t p gen) lrs (co_rows c))"

definition plan_refused :: "tenant_id \<Rightarrow> pipeline_id \<Rightarrow> nat \<Rightarrow> coordinator \<Rightarrow> bool" where
  "plan_refused t p gen c \<longleftrightarrow> list_ex (\<lambda>(_, row). of_pipeline t p row \<and> as_Generation (ar_a row) > gen) (co_rows c)"

lemma co_Plan_cases:
  obtains e where "co_Plan t p gen lrs c = (c, Some e)"
  | "\<not> plan_refused t p gen c" "co_Plan t p gen lrs c = (c\<lparr>co_rows := regateLocked t p gen (plan_current t p gen lrs c)\<rparr>, None)"
proof (cases "plan_refused t p gen c")
  case True
  then show thesis using that(1) by (simp add: co_Plan_def plan_refused_def)
next
  case False
  show thesis
  proof (cases "plan_check t p gen [] lrs")
    case (Inl e)
    then show thesis using that(1) False by (simp add: co_Plan_def plan_refused_def)
  next
    case (Inr kept)
    then show thesis using that(2) False plan_check_kept [OF Inr]
      by (simp add: co_Plan_def plan_refused_def plan_current_def Let_def)
  qed
qed

text \<open>The rows of a coordinator whose invariant holds, before the gates are recomputed.\<close>

lemma named_of_pipeline:
  assumes "static_ok (statics c)" and "map_of (co_rows c) a = Some row" and "a = AssignmentIDFor t p gen l"
  shows "of_pipeline t p row" and "as_Generation (ar_a row) = gen"
  using static_okD(1) [OF assms(1,2)] assms(3) by (simp_all add: id_named_def of_pipeline_def AssignmentIDFor_eq_iff)

lemma plan_current_other:
  assumes "wf_amap (co_rows c)" and "static_ok (statics c)" and "\<not> of_pipeline t p row"
  shows "map_of (plan_current t p gen lrs c) a = Some row \<longleftrightarrow> map_of (co_rows c) a = Some row"
proof (cases "a \<in> (\<lambda>lr. AssignmentIDFor t p gen (lr_ID lr)) ` set lrs")
  case True
  then obtain l where a: "a = AssignmentIDFor t p gen l" by blast
  have "of_pipeline t p row'" if "map_of (fold (plan_row t p gen) lrs (co_rows c)) a = Some row'" for row'
    using plan_rows_origin [OF that] named_of_pipeline(1) [OF assms(2) _ a] by (auto simp: of_pipeline_def)
  then show ?thesis
    using assms named_of_pipeline(1) [OF assms(2) _ a]
    by (auto simp: plan_current_def map_of_filter_amap wf_plan_rows)
next
  case False
  then show ?thesis using assms plan_rows_other [OF False, of "co_rows c"]
    by (simp add: plan_current_def map_of_filter_amap wf_plan_rows)
qed

lemma plan_current_mine:
  assumes "wf_amap (co_rows c)" and "static_ok (statics c)" and "\<not> plan_refused t p gen c"
    and "map_of (plan_current t p gen lrs c) a = Some row" and "of_pipeline t p row"
  obtains lr where "lr \<in> set lrs" and "a = AssignmentIDFor t p gen (lr_ID lr)" and "as_Lane (ar_a row) = lr"
    and "as_Generation (ar_a row) = gen" and "as_ID (ar_a row) = a"
    and "placement row = ([], 0, 0, 0) \<and> map_of (co_rows c) a = None \<or>
      (\<exists>row0. map_of (co_rows c) a = Some row0 \<and> placement row = placement row0)"
proof -
  have k: "map_of (fold (plan_row t p gen) lrs (co_rows c)) a = Some row" "a \<in> (\<lambda>lr. AssignmentIDFor t p gen (lr_ID lr)) ` set lrs"
    using assms(1,4,5) by (auto simp: plan_current_def map_of_filter_amap wf_plan_rows)
  then obtain lr where lr: "lr \<in> set lrs" "a = AssignmentIDFor t p gen (lr_ID lr)"
      "row = new_row t p gen lr \<and> map_of (co_rows c) a = None \<or> (\<exists>row0. map_of (co_rows c) a = Some row0 \<and> row = set_lane lr row0)"
    using plan_rows_origin [OF k(1)] by blast
  show thesis
  proof (cases "map_of (co_rows c) a")
    case None
    then have "row = new_row t p gen lr" using lr(3) by simp
    then show thesis using that [OF lr(1,2)] None lr(2) by simp
  next
    case (Some row0)
    then have r: "row = set_lane lr row0" using lr(3) by simp
    have "as_ID (ar_a row0) = a" using static_okD(1) [OF assms(2) Some] by (simp add: id_named_def)
    then show thesis
      using that [OF lr(1,2)] named_of_pipeline(2) [OF assms(2) Some lr(2)] Some by (simp add: r)
  qed
qed

lemma gate_closed_iff:
  assumes "wf_amap rows"
  shows "gate_closed (mine_of t p gen rows) lr \<longleftrightarrow> (\<exists>b row. map_of rows b = Some row \<and> of_pipeline t p row \<and>
     as_Generation (ar_a row) = gen \<and> lr_Group (as_Lane (ar_a row)) \<in> set (lr_After lr) \<and> undone (as_Lane (ar_a row)))"
  using wf_amap_mem [OF assms]
  by (auto simp: gate_closed_def mine_of_def list_ex_iff image_iff) (metis snd_conv)+

section \<open>The invariant is kept by planning\<close>

definition regated :: "tenant_id \<Rightarrow> pipeline_id \<Rightarrow> nat \<Rightarrow> (assignment_id \<times> assignment_row) list \<Rightarrow> assignment_row \<Rightarrow> assignment_row" where
  "regated t p gen rows row = (if of_pipeline t p row \<and> as_Generation (ar_a row) = gen
     then row\<lparr>ar_a := (ar_a row)\<lparr>as_Gated := gate_closed (mine_of t p gen rows) (as_Lane (ar_a row))\<rparr>\<rparr> else row)"

lemma map_of_regate: "map_of (regateLocked t p gen rows) a = map_option (regated t p gen rows) (map_of rows a)"
  by (simp add: regateLocked_def Let_def regated_def [abs_def])

lemma regated_simps [simp]:
  "placement (regated t p gen rows row) = placement row" "of_pipeline t' p' (regated t p gen rows row) = of_pipeline t' p' row"
  "as_ID (ar_a (regated t p gen rows row)) = as_ID (ar_a row)" "as_Tenant (ar_a (regated t p gen rows row)) = as_Tenant (ar_a row)"
  "as_Pipeline (ar_a (regated t p gen rows row)) = as_Pipeline (ar_a row)"
  "as_Generation (ar_a (regated t p gen rows row)) = as_Generation (ar_a row)"
  "as_Lane (ar_a (regated t p gen rows row)) = as_Lane (ar_a row)"
  "\<not> of_pipeline t p row \<Longrightarrow> regated t p gen rows row = row"
  by (auto simp: regated_def placement_def of_pipeline_def)

lemma plan_static_ok:
  assumes i: "wf_amap (co_rows c)" "static_ok (statics c)" and n: "\<not> plan_refused t p gen c"
    and c': "c' = c\<lparr>co_rows := regateLocked t p gen (plan_current t p gen lrs c)\<rparr>"
  shows "static_ok (statics c')"
proof -
  let ?C = "plan_current t p gen lrs c"
  have wC: "wf_amap ?C" using i(1) by (simp add: plan_current_def wf_plan_rows)
  have st: "statics c' b = map_option (\<lambda>row. static (regated t p gen ?C row)) (map_of ?C b)" for b
    by (simp add: statics_def c' map_of_regate option.map_comp comp_def)
  have other: "statics c' b = Some y \<longleftrightarrow> statics c b = Some y" if "\<not> (as_Tenant y = t \<and> as_Pipeline y = p)" for b y
  proof -
    have "statics c' b = Some y \<longleftrightarrow> (\<exists>row. map_of ?C b = Some row \<and> \<not> of_pipeline t p row \<and> y = static row)"
      unfolding st using that by (auto simp: of_pipeline_def)
    also have "\<dots> \<longleftrightarrow> (\<exists>row. map_of (co_rows c) b = Some row \<and> \<not> of_pipeline t p row \<and> y = static row)"
      using plan_current_other [OF i] by metis
    also have "\<dots> \<longleftrightarrow> statics c b = Some y" using that by (auto simp: statics_def of_pipeline_def)
    finally show ?thesis .
  qed
  have mine: "\<exists>row. map_of ?C b = Some row \<and> of_pipeline t p row \<and> as_Generation (ar_a row) = gen \<and> y = static (regated t p gen ?C row)"
    if "statics c' b = Some y" "as_Tenant y = t" "as_Pipeline y = p" for b y
  proof -
    obtain row where row: "map_of ?C b = Some row" "y = static (regated t p gen ?C row)"
      using \<open>statics c' b = Some y\<close> unfolding st by blast
    then have o: "of_pipeline t p row" using that(2,3) by (simp add: of_pipeline_def)
    show ?thesis using plan_current_mine [OF i n row(1) o] row o by metis
  qed
  show ?thesis unfolding static_ok_def
  proof (intro allI impI, goal_cases)
    case (1 a x)
    show ?case
    proof (cases "as_Tenant x = t \<and> as_Pipeline x = p")
      case True
      then obtain row where row: "map_of ?C a = Some row" "of_pipeline t p row" "as_Generation (ar_a row) = gen"
          "x = static (regated t p gen ?C row)" using mine [OF 1] by blast
      obtain lr where lr: "a = AssignmentIDFor t p gen (lr_ID lr)" "as_Lane (ar_a row) = lr" "as_ID (ar_a row) = a"
        using plan_current_mine [OF i n row(1,2)] by metis
      have g: "as_Gated x \<longleftrightarrow> gate_closed (mine_of t p gen ?C) (as_Lane x)" using row by (simp add: regated_def static_def)
      have gx: "as_Generation x = gen" using row(3,4) by simp
      have "waits (statics c') x \<longleftrightarrow> (\<exists>b y. statics c' b = Some y \<and> as_Tenant y = t \<and> as_Pipeline y = p \<and> as_Generation y = gen \<and>
          lr_Group (as_Lane y) \<in> set (lr_After (as_Lane x)) \<and> undone (as_Lane y))"
        unfolding waits_def same_plan_def gx True [THEN conjunct1] True [THEN conjunct2] by (intro iff_exI) auto
      also have "\<dots> \<longleftrightarrow> gate_closed (mine_of t p gen ?C) (as_Lane x)"
        unfolding gate_closed_iff [OF wC] st
        by (rule iff_exI) (auto simp: of_pipeline_def map_option_case split: option.splits)
      finally have "as_Gated x \<longleftrightarrow> waits (statics c') x" using g by simp
      moreover have "id_named a x" using row lr by (simp add: id_named_def of_pipeline_def)
      moreover have "as_Generation y = as_Generation x" if "statics c' b = Some y" "same_plan x y" for b y
        using mine [OF that(1)] that(2) True row(3,4) by (auto simp: same_plan_def)
      ultimately show ?thesis by blast
    next
      case False
      have x: "statics c a = Some x" using 1 other [OF False] by simp
      have o: "statics c' b = Some y \<longleftrightarrow> statics c b = Some y" if "same_plan x y" for b y
        using other [of y b] False that by (auto simp: same_plan_def)
      have "waits (statics c') x \<longleftrightarrow> waits (statics c) x" unfolding waits_def using o by blast
      then show ?thesis using i(2) [unfolded static_ok_def, rule_format, OF x] o by blast
    qed
  qed
qed

lemma plan_origin:
  assumes w: "wf_amap (co_rows c)" "static_ok (statics c)" and n: "\<not> plan_refused t p gen c"
    and at: "map_of (regateLocked t p gen (plan_current t p gen lrs c)) a = Some row"
  shows "placement row = ([], 0, 0, 0) \<or> (\<exists>row0. map_of (co_rows c) a = Some row0 \<and> placement row = placement row0)"
proof -
  let ?C = "plan_current t p gen lrs c"
  obtain row1 where row1: "map_of ?C a = Some row1" "row = regated t p gen ?C row1"
    using at by (auto simp: map_of_regate)
  show ?thesis
  proof (cases "of_pipeline t p row1")
    case True
    show ?thesis using plan_current_mine [OF w n row1(1) True] row1(2) by (metis regated_simps(1))
  next
    case False
    then show ?thesis using plan_current_other [OF w False] row1 by auto
  qed
qed

lemma plan_epochs_ok:
  assumes i: "co_inv c" and n: "\<not> plan_refused t p gen c"
    and c': "c' = c\<lparr>co_rows := regateLocked t p gen (plan_current t p gen lrs c)\<rparr>"
  shows "epochs_ok c'"
proof -
  have w: "wf_amap (co_rows c)" "static_ok (statics c)" and e: "epochs_ok c" using i by (simp_all add: co_inv_def)
  have origin: "placement row = ([], 0, 0, 0) \<or> (\<exists>row0. map_of (co_rows c) a = Some row0 \<and> placement row = placement row0)"
    if "map_of (co_rows c') a = Some row" for a row
    using plan_origin [OF w n] that by (simp add: c')
  show ?thesis unfolding epochs_ok_def
  proof (intro allI impI, goal_cases)
    case (1 a row)
    have ep: "as_Worker (ar_a row) = fst (placement row)" "as_Epoch (ar_a row) = fst (snd (placement row))" for row
      by (simp_all add: placement_def)
    show ?case
    proof (cases "placement row = ([], 0, 0, 0)")
      case True
      then show ?thesis by (simp add: ep)
    next
      case False
      then obtain row0 where row0: "map_of (co_rows c) a = Some row0" "placement row = placement row0" using origin [OF 1] by blast
      note e0 = e [unfolded epochs_ok_def, rule_format, OF row0(1)]
      have "b = a" if h: "map_of (co_rows c') b = Some row'" "as_Epoch (ar_a row') = as_Epoch (ar_a row)" "as_Epoch (ar_a row) \<noteq> 0" for b row'
      proof -
        obtain row0' where "map_of (co_rows c) b = Some row0'" "placement row' = placement row0'"
          using origin [OF h(1)] h(2,3) by (auto simp: ep)
        then show ?thesis using e0 row0(2) h(2,3) by (metis ep(2))
      qed
      moreover have "co_epoch c' = co_epoch c" by (simp add: c')
      ultimately show ?thesis using e0 row0(2) by (metis ep)
    qed
  qed
qed

lemma plan_inv: "co_inv c \<Longrightarrow> co_inv (fst (co_Plan t p gen lrs c))"
proof (cases rule: co_Plan_cases [of t p gen lrs c])
  case 2
  assume i: "co_inv c"
  have "wf_amap (plan_current t p gen lrs c)" using i by (simp add: co_inv_def plan_current_def wf_plan_rows)
  then show ?thesis
    using i plan_static_ok [OF _ _ 2(1) refl, of lrs] plan_epochs_ok [OF i 2(1) refl, of lrs]
    by (simp add: 2(2) co_inv_def regateLocked_def Let_def)
qed simp

section \<open>The invariant is kept by every operation\<close>

lemma replace_inv:
  assumes i: "co_inv c" and at: "map_of (co_rows c) a = Some row" and st: "static row' = static row" and e: "co_epoch c \<le> e"
    and ep: "as_Epoch (ar_a row') = 0 \<longleftrightarrow> as_Worker (ar_a row') = []"
    and new: "as_Epoch (ar_a row') = as_Epoch (ar_a row) \<or> as_Epoch (ar_a row') = 0 \<or> co_epoch c < as_Epoch (ar_a row') \<and> as_Epoch (ar_a row') \<le> e"
  shows "co_inv (c\<lparr>co_epoch := e, co_rows := aput a row' (co_rows c)\<rparr>)"
proof -
  let ?c = "c\<lparr>co_epoch := e, co_rows := aput a row' (co_rows c)\<rparr>"
  have ok: "epochs_ok c" using i by (simp add: co_inv_def)
  have le: "as_Epoch (ar_a r) \<le> co_epoch c" "as_Epoch (ar_a r) = 0 \<longleftrightarrow> as_Worker (ar_a r) = []" if "map_of (co_rows c) b = Some r" for b r
    using ok that unfolding epochs_ok_def by blast+
  have un: "b' = b" if "map_of (co_rows c) b = Some r" "map_of (co_rows c) b' = Some r'" "as_Epoch (ar_a r') = as_Epoch (ar_a r)" "as_Epoch (ar_a r) \<noteq> 0" for b b' r r'
    using ok that unfolding epochs_ok_def by blast
  have fresh: "as_Epoch (ar_a r) \<noteq> as_Epoch (ar_a row')" if "map_of (co_rows c) b = Some r" "b \<noteq> a" "as_Epoch (ar_a row') \<noteq> 0" for b r
    using new
  proof (elim disjE)
    assume "as_Epoch (ar_a row') = as_Epoch (ar_a row)"
    then show ?thesis using un [OF at that(1)] that(2,3) by auto
  qed (use that le [OF that(1)] in auto)
  have "epochs_ok ?c" unfolding epochs_ok_def
  proof (intro allI impI, goal_cases)
    case (1 b r)
    have "as_Epoch (ar_a r) \<le> e \<and> (as_Epoch (ar_a r) = 0 \<longleftrightarrow> as_Worker (ar_a r) = [])"
      using 1 le [OF at] le [of b r] new e ep by (auto split: if_splits)
    moreover have "b' = b" if "map_of (co_rows ?c) b' = Some r'" "as_Epoch (ar_a r') = as_Epoch (ar_a r)" "as_Epoch (ar_a r) \<noteq> 0" for b' r'
    proof (cases "b = a \<longleftrightarrow> b' = a")
      case True
      then show ?thesis using 1 that un [of b r b' r'] by (auto split: if_splits)
    next
      case False
      then show ?thesis using 1 that fresh [of b r] fresh [of b' r'] by (cases "b = a") simp_all
    qed
    ultimately show ?case by simp
  qed
  moreover have "statics ?c = statics c" by (rule statics_replace(1) [OF at st])
  ultimately show ?thesis using i by (simp add: co_inv_def)
qed

text \<open>The outcomes of the placement protocol.\<close>

lemma claim_cases:
  obtains e where "co_Claim a w ttl now c = (c, Inl e)"
  | row where "map_of (co_rows c) a = Some row" "w \<noteq> []" "\<not> as_Gated (ar_a row)" "\<not> lr_Finished (as_Lane (ar_a row))"
      "fst (holderLocked row now) = [] \<or> fst (holderLocked row now) = w"
      "co_Claim a w ttl now c = (c\<lparr>co_epoch := co_epoch c + 1,
         co_rows := aput a (grant w (co_epoch c + 1) now (if ttl \<le> 0 then DefaultLeaseTTL else ttl) row) (co_rows c)\<rparr>,
         Inr (leaseOf (grant w (co_epoch c + 1) now (if ttl \<le> 0 then DefaultLeaseTTL else ttl) row)))"
proof (cases "w = []")
  case True
  then show thesis using that(1) by (simp add: co_Claim_def)
next
  case False
  show thesis
  proof (cases "map_of (co_rows c) a")
    case None
    then show thesis using that(1) False by (simp add: co_Claim_def Let_def)
  next
    case (Some row)
    consider "as_Gated (ar_a row) \<or> lr_Finished (as_Lane (ar_a row)) \<or>
        \<not> (fst (holderLocked row now) = [] \<or> fst (holderLocked row now) = w)"
      | "\<not> as_Gated (ar_a row)" "\<not> lr_Finished (as_Lane (ar_a row))" "fst (holderLocked row now) = [] \<or> fst (holderLocked row now) = w"
      by blast
    then show thesis
    proof cases
      case 1
      then have "\<exists>e. co_Claim a w ttl now c = (c, Inl e)" using False Some by (auto simp: co_Claim_def Let_def)
      then show thesis using that(1) by blast
    next
      case 2
      then show thesis using that(2) [OF Some False] False Some by (auto simp: co_Claim_def Let_def)
    qed
  qed
qed

lemma renew_cases:
  obtains e where "co_Renew l now c = (c, Inl e)"
  | row where "map_of (co_rows c) (le_Assignment l) = Some row" "as_Worker (ar_a row) = le_Worker l"
      "as_Epoch (ar_a row) = le_Epoch l" "now < as_LeaseExpires (ar_a row)"
      "co_Renew l now c = (c\<lparr>co_rows := aput (le_Assignment l) (row\<lparr>ar_a := (ar_a row)\<lparr>as_LeaseExpires := now + ar_ttl row\<rparr>\<rparr>) (co_rows c)\<rparr>,
         Inr (leaseOf (row\<lparr>ar_a := (ar_a row)\<lparr>as_LeaseExpires := now + ar_ttl row\<rparr>\<rparr>)))"
proof (cases "map_of (co_rows c) (le_Assignment l)")
  case None
  then show thesis using that(1) by (simp add: co_Renew_def)
next
  case (Some row)
  show thesis
  proof (cases "as_Worker (ar_a row) = le_Worker l \<and> as_Epoch (ar_a row) = le_Epoch l \<and> now < as_LeaseExpires (ar_a row)")
    case True
    then show thesis using that(2) [OF Some] Some by (simp add: co_Renew_def Let_def)
  next
    case False
    then have "\<exists>e. co_Renew l now c = (c, Inl e)" using Some by (auto simp: co_Renew_def)
    then show thesis using that(1) by blast
  qed
qed

lemma release_cases:
  obtains r where "co_Release l c = (c, r)"
  | row where "map_of (co_rows c) (le_Assignment l) = Some row" "as_Worker (ar_a row) = le_Worker l" "as_Epoch (ar_a row) = le_Epoch l"
      "co_Release l c = (c\<lparr>co_rows := aput (le_Assignment l)
         (row\<lparr>ar_a := (ar_a row)\<lparr>as_Worker := [], as_Epoch := 0, as_LeaseExpires := 0\<rparr>\<rparr>) (co_rows c)\<rparr>, None)"
proof (cases "map_of (co_rows c) (le_Assignment l)")
  case None
  then show thesis using that(1) by (simp add: co_Release_def)
next
  case (Some row)
  show thesis
  proof (cases "as_Worker (ar_a row) = le_Worker l \<and> as_Epoch (ar_a row) = le_Epoch l")
    case True
    then show thesis using that(2) [OF Some] Some by (simp add: co_Release_def)
  next
    case False
    then show thesis using that(1) Some by (auto simp: co_Release_def)
  qed
qed

lemma grant_simps [simp]:
  "as_Worker (ar_a (grant w e now ttl row)) = w" "as_Epoch (ar_a (grant w e now ttl row)) = e"
  "as_LeaseExpires (ar_a (grant w e now ttl row)) = now + ttl" "ar_ttl (grant w e now ttl row) = ttl"
  "as_ID (ar_a (grant w e now ttl row)) = as_ID (ar_a row)"
  by (simp_all add: grant_def)

lemma co_epoch_same [simp]: "c\<lparr>co_epoch := co_epoch c, co_rows := r\<rparr> = c\<lparr>co_rows := r\<rparr>"
  by (cases c) simp

lemma co_ok_epoch: "co_inv c \<Longrightarrow> map_of (co_rows c) a = Some row \<Longrightarrow> as_Epoch (ar_a row) = 0 \<longleftrightarrow> as_Worker (ar_a row) = []"
  unfolding co_inv_def epochs_ok_def by blast

lemma claim_inv: "co_inv c \<Longrightarrow> co_inv (fst (co_Claim a w ttl now c))"
  by (cases rule: claim_cases [of a w ttl now c]) (simp_all add: replace_inv)

lemma renew_inv: "co_inv c \<Longrightarrow> co_inv (fst (co_Renew l now c))"
proof (cases rule: renew_cases [of l now c])
  case (2 row)
  assume i: "co_inv c"
  then show ?thesis using replace_inv [OF i 2(1) static_upd(1) order_refl] co_ok_epoch [OF i 2(1)] by (simp add: 2(5))
qed simp

lemma release_inv: "co_inv c \<Longrightarrow> co_inv (fst (co_Release l c))"
proof (cases rule: release_cases [of l c])
  case (2 row)
  assume i: "co_inv c"
  then show ?thesis using replace_inv [OF i 2(1) static_upd(2) order_refl] by (simp add: 2(4))
qed simp

lemma co_inv_cong: "co_rows c' = co_rows c \<Longrightarrow> co_epoch c' = co_epoch c \<Longrightarrow> co_inv c' = co_inv c"
  by (simp add: co_inv_def statics_def [abs_def] epochs_ok_def)

lemma other_ops [simp]:
  "co_rows (fst (co_Join wi c)) = co_rows c" "co_epoch (fst (co_Join wi c)) = co_epoch c"
  "co_rows (mb_Leave w c) = co_rows c" "co_epoch (mb_Leave w c) = co_epoch c"
  "co_rows (fst (co_Campaign c)) = co_rows c" "co_epoch (fst (co_Campaign c)) = co_epoch c"
  "co_rows (ld_Resign n c) = co_rows c" "co_epoch (ld_Resign n c) = co_epoch c"
  by (simp_all add: co_Join_def mb_Leave_def co_Campaign_def ld_Resign_def notifyLocked_def Let_def split: option.splits)

lemma NewCoordinator_inv: "co_inv NewCoordinator"
  by (simp add: co_inv_def NewCoordinator_def statics_def [abs_def] static_ok_def epochs_ok_def)

lemma other_inv:
  "co_inv c \<Longrightarrow> co_inv (fst (co_Join wi c))" "co_inv c \<Longrightarrow> co_inv (mb_Leave w c)"
  "co_inv c \<Longrightarrow> co_inv (fst (co_Campaign c))" "co_inv c \<Longrightarrow> co_inv (ld_Resign n c)"
  by (simp_all only: co_inv_cong [OF other_ops(1,2)] co_inv_cong [OF other_ops(3,4)]
      co_inv_cong [OF other_ops(5,6)] co_inv_cong [OF other_ops(7,8)])

lemma step_inv: "co_inv c \<Longrightarrow> co_inv (co_step x c)"
  by (cases x) (simp_all add: plan_inv claim_inv renew_inv release_inv other_inv)

lemma run_inv: "co_inv c \<Longrightarrow> co_inv (co_run xs c)"
  by (induction xs arbitrary: c) (simp_all add: step_inv)

end
