(* ===== verification/Canal_CoordProps.thy ===== *)
theory Canal_CoordProps
  imports Canal_CoordInv "HOL-Library.Code_Target_Numeral"
begin

text \<open>
  What the coordinator promises: every claim is numbered above all earlier ones and only the latest
  claim of a lane can be renewed; a held lane is not given away before its lease and the reassignment
  delay have run out; a gated lane is never claimed.
\<close>

section \<open>The history of claims\<close>

definition hist_ok :: "lease list \<Rightarrow> coordinator \<Rightarrow> bool" where
  "hist_ok H c \<longleftrightarrow> sorted_wrt (<) (map le_Epoch H) \<and> (\<forall>g \<in> set H. le_Epoch g \<le> co_epoch c) \<and>
     (\<forall>a row. map_of (co_rows c) a = Some row \<and> as_Epoch (ar_a row) \<noteq> 0 \<longrightarrow>
        (\<exists>g \<in> set H. le_Assignment g = a \<and> le_Worker g = as_Worker (ar_a row) \<and> le_Epoch g = as_Epoch (ar_a row)) \<and>
        (\<forall>g \<in> set H. le_Assignment g = a \<longrightarrow> le_Epoch g \<le> as_Epoch (ar_a row)))"

definition holds_same :: "assignment_row \<Rightarrow> assignment_row \<Rightarrow> bool" where
  "holds_same r r' \<longleftrightarrow> as_Worker (ar_a r) = as_Worker (ar_a r') \<and> as_Epoch (ar_a r) = as_Epoch (ar_a r')"

lemma hist_keep:
  assumes "hist_ok H c" and "co_epoch c' = co_epoch c"
    and "\<And>a row. map_of (co_rows c') a = Some row \<Longrightarrow> as_Epoch (ar_a row) \<noteq> 0 \<Longrightarrow> \<exists>row0. map_of (co_rows c) a = Some row0 \<and> holds_same row row0"
  shows "hist_ok H c'"
  using assms(1) unfolding hist_ok_def
proof (elim conjE, intro conjI allI impI, goal_cases)
  case (3 a row)
  then obtain row0 where "map_of (co_rows c) a = Some row0" "holds_same row row0" using assms(3) [of a row] by blast
  then show ?case using 3 by (auto simp: holds_same_def)
next
  case (4 a row)
  then obtain row0 where "map_of (co_rows c) a = Some row0" "holds_same row row0" using assms(3) [of a row] by blast
  then show ?case using 4 by (auto simp: holds_same_def)
qed (simp_all add: assms(2))

lemma holds_same_refl [simp]: "holds_same r r"
  by (simp add: holds_same_def)

lemma placement_holds: "placement r = placement r' \<Longrightarrow> holds_same r r'"
  by (simp add: placement_def holds_same_def)

lemma claim_hist:
  assumes i: "co_inv c" and h: "hist_ok H c"
  shows "hist_ok (H @ granted (OpClaim a w ttl now) c) (co_step (OpClaim a w ttl now) c)"
proof (cases rule: claim_cases [of a w ttl now c])
  case (1 e)
  then show ?thesis using h by simp
next
  case (2 row)
  define row' where "row' = grant w (co_epoch c + 1) now (if ttl \<le> 0 then DefaultLeaseTTL else ttl) row"
  have a: "as_ID (ar_a row) = a" using i 2(1) static_okD(1) [of c a row] by (simp add: co_inv_def id_named_def)
  have top: "\<forall>g \<in> set H. le_Epoch g < co_epoch c + 1" using h by (auto simp: hist_ok_def)
  have rows: "co_rows (co_step (OpClaim a w ttl now) c) = aput a row' (co_rows c)"
    "co_epoch (co_step (OpClaim a w ttl now) c) = co_epoch c + 1" "granted (OpClaim a w ttl now) c = [leaseOf row']"
    by (simp_all add: 2(6) row'_def)
  have l: "le_Assignment (leaseOf row') = a" "le_Worker (leaseOf row') = w" "le_Epoch (leaseOf row') = co_epoch c + 1"
    by (simp_all add: leaseOf_def a row'_def)
  have "sorted_wrt (<) (map le_Epoch (H @ [leaseOf row']))"
    using h top by (simp add: sorted_wrt_append l hist_ok_def)
  moreover have "\<forall>g \<in> set (H @ [leaseOf row']). le_Epoch g \<le> co_epoch c + 1" using top l by auto
  moreover have "(\<exists>g \<in> set (H @ [leaseOf row']). le_Assignment g = b \<and> le_Worker g = as_Worker (ar_a r) \<and> le_Epoch g = as_Epoch (ar_a r)) \<and>
      (\<forall>g \<in> set (H @ [leaseOf row']). le_Assignment g = b \<longrightarrow> le_Epoch g \<le> as_Epoch (ar_a r))"
    if "map_of (aput a row' (co_rows c)) b = Some r" "as_Epoch (ar_a r) \<noteq> 0" for b r
  proof (cases "b = a")
    case True
    then have "r = row'" using that(1) by simp
    moreover have "as_Worker (ar_a row') = w" "as_Epoch (ar_a row') = co_epoch c + 1" by (simp_all add: row'_def)
    ultimately show ?thesis using True l top by (simp add: less_imp_le)
  next
    case False
    then have "map_of (co_rows c) b = Some r" using that(1) by simp
    then show ?thesis using h that(2) False l unfolding hist_ok_def by simp
  qed
  ultimately show ?thesis unfolding hist_ok_def rows by blast
qed

lemma plan_hist:
  assumes "co_inv c" and "hist_ok H c"
  shows "hist_ok H (fst (co_Plan t p gen lrs c))"
proof (cases rule: co_Plan_cases [of t p gen lrs c])
  case (1 e)
  then show ?thesis using assms by simp
next
  case 2
  have w: "wf_amap (co_rows c)" "static_ok (statics c)" using assms(1) by (simp_all add: co_inv_def)
  show ?thesis
  proof (rule hist_keep [OF assms(2)])
    show "co_epoch (fst (co_Plan t p gen lrs c)) = co_epoch c" by (simp add: 2(2))
    fix a row
    assume "map_of (co_rows (fst (co_Plan t p gen lrs c))) a = Some row" "as_Epoch (ar_a row) \<noteq> 0"
    then show "\<exists>row0. map_of (co_rows c) a = Some row0 \<and> holds_same row row0"
      using plan_origin [OF w 2(1), of lrs a row] placement_holds by (auto simp: 2(2) placement_def)
  qed
qed

lemma renew_hist: "hist_ok H c \<Longrightarrow> hist_ok H (fst (co_Renew l now c))"
proof (cases rule: renew_cases [of l now c])
  case (2 row)
  assume h: "hist_ok H c"
  show ?thesis
    by (rule hist_keep [OF h]) (use 2(1) in \<open>auto simp: 2(5) holds_same_def split: if_splits\<close>)
qed simp

lemma release_hist: "hist_ok H c \<Longrightarrow> hist_ok H (fst (co_Release l c))"
proof (cases rule: release_cases [of l c])
  case (2 row)
  assume h: "hist_ok H c"
  show ?thesis
    by (rule hist_keep [OF h]) (auto simp: 2(4) split: if_splits)
qed simp

lemma hist_cong: "co_rows c' = co_rows c \<Longrightarrow> co_epoch c' = co_epoch c \<Longrightarrow> hist_ok H c' = hist_ok H c"
  by (simp add: hist_ok_def)

lemma step_hist: "co_inv c \<Longrightarrow> hist_ok H c \<Longrightarrow> hist_ok (H @ granted x c) (co_step x c)"
proof (cases x)
  case (OpClaim a w ttl now)
  then show "co_inv c \<Longrightarrow> hist_ok H c \<Longrightarrow> ?thesis" using claim_hist by simp
qed (simp_all add: plan_hist renew_hist release_hist hist_cong [OF other_ops(1,2)] hist_cong [OF other_ops(3,4)]
    hist_cong [OF other_ops(5,6)] hist_cong [OF other_ops(7,8)])

lemma run_hist: "co_inv c \<Longrightarrow> hist_ok H c \<Longrightarrow> hist_ok (H @ grants xs c) (co_run xs c)"
proof (induction xs arbitrary: c H)
  case (Cons x xs)
  then show ?case using Cons.IH [OF step_inv step_hist, of c H x] by simp
qed simp

lemma New_hist: "hist_ok [] NewCoordinator"
  by (simp add: hist_ok_def NewCoordinator_def)

section \<open>A held lane stays where it is\<close>

definition held_by :: "assignment_id \<Rightarrow> worker_id \<Rightarrow> nat \<Rightarrow> time \<Rightarrow> duration \<Rightarrow> coordinator \<Rightarrow> bool" where
  "held_by a w e t0 ttl c \<longleftrightarrow> (\<exists>row. map_of (co_rows c) a = Some row \<and> as_Worker (ar_a row) = w \<and> as_Epoch (ar_a row) = e \<and>
     ar_ttl row = ttl \<and> t0 + ttl \<le> as_LeaseExpires (ar_a row))"

text \<open>
  The operations that do not end a holding of lane \<open>l\<close> by worker \<open>w\<close> at epoch \<open>e\<close> that began at \<open>t0\<close>:
  a plan of the pipeline that is older, or of the same generation and names the lane; a claim by
  another worker before the reservation ends; a renewal that does not run before the claim; a release
  of another lease.
\<close>

fun leaves_held :: "tenant_id \<Rightarrow> pipeline_id \<Rightarrow> nat \<Rightarrow> lane_id \<Rightarrow> worker_id \<Rightarrow> nat \<Rightarrow> time \<Rightarrow> duration \<Rightarrow> co_op \<Rightarrow> bool" where
  "leaves_held t p g l w e t0 ttl (OpPlan t' p' g' lrs) = (t' = t \<and> p' = p \<longrightarrow> g' < g \<or> g' = g \<and> l \<in> lr_ID ` set lrs)"
| "leaves_held t p g l w e t0 ttl (OpClaim a w' ttl' now) =
     (a = AssignmentIDFor t p g l \<longrightarrow> w' \<noteq> w \<and> now < t0 + ttl + DefaultReassignmentDelay)"
| "leaves_held t p g l w e t0 ttl (OpRenew x now) = (le_Assignment x = AssignmentIDFor t p g l \<longrightarrow> t0 \<le> now)"
| "leaves_held t p g l w e t0 ttl (OpRelease x) =
     (le_Assignment x = AssignmentIDFor t p g l \<longrightarrow> \<not> (le_Worker x = w \<and> le_Epoch x = e))"
| "leaves_held t p g l w e t0 ttl _ = True"

lemma plan_leaves:
  assumes i: "co_inv c" and at: "map_of (co_rows c) a = Some row" and a: "a = AssignmentIDFor t p g l"
    and k: "t' = t \<and> p' = p \<longrightarrow> g' < g \<or> g' = g \<and> l \<in> lr_ID ` set lrs"
  shows "\<exists>row'. map_of (co_rows (fst (co_Plan t' p' g' lrs c))) a = Some row' \<and> placement row' = placement row"
proof (cases rule: co_Plan_cases [of t' p' g' lrs c])
  case (1 e)
  then show ?thesis using at by simp
next
  case 2
  have w: "wf_amap (co_rows c)" "static_ok (statics c)" using i by (simp_all add: co_inv_def)
  note tp = named_of_pipeline [OF w(2) at a]
  have ng: "\<not> (t' = t \<and> p' = p \<and> g' < g)"
    using 2(1) tp at wf_amap_mem [OF w(1), of a row] by (auto simp: plan_refused_def list_ex_iff)
  obtain row1 where row1: "map_of (fold (plan_row t' p' g') lrs (co_rows c)) a = Some row1" "placement row1 = placement row"
    using plan_rows_keep [OF at] by blast
  have "of_pipeline t p row1 \<and> as_Generation (ar_a row1) = g"
    using plan_rows_origin [OF row1(1)] tp at by (auto simp: of_pipeline_def)
  then have "map_of (plan_current t' p' g' lrs c) a = Some row1"
    using row1(1) k ng w(1) by (auto simp: plan_current_def map_of_filter_amap wf_plan_rows of_pipeline_def a)
  then show ?thesis using row1(2) by (simp add: 2(2) map_of_regate)
qed

lemma holder_reserved:
  "as_Worker (ar_a row) = w \<Longrightarrow> w \<noteq> [] \<Longrightarrow> now < as_LeaseExpires (ar_a row) + DefaultReassignmentDelay \<Longrightarrow> fst (holderLocked row now) = w"
  by (simp add: holderLocked_def)

lemma held_claim:
  assumes "held_by a w e t0 ttl c" and "w \<noteq> []" and "w' \<noteq> w" and "now < t0 + ttl + DefaultReassignmentDelay"
  shows "\<exists>x. co_Claim a w' ttl' now c = (c, Inl x)"
proof (cases rule: claim_cases [of a w' ttl' now c])
  case (2 row)
  then have "fst (holderLocked row now) = w" using assms by (auto simp: held_by_def intro: holder_reserved)
  then show ?thesis using 2(5) assms(2,3) by simp
qed blast

lemma held_step:
  assumes i: "co_inv c" and h: "held_by a w e t0 ttl c" and "w \<noteq> []" and a: "a = AssignmentIDFor t p g l"
    and k: "leaves_held t p g l w e t0 ttl x"
  shows "held_by a w e t0 ttl (co_step x c)"
proof (cases x)
  case (OpPlan t' p' g' lrs)
  obtain row where row: "map_of (co_rows c) a = Some row" and r: "as_Worker (ar_a row) = w" "as_Epoch (ar_a row) = e"
      "ar_ttl row = ttl" "t0 + ttl \<le> as_LeaseExpires (ar_a row)"
    using h unfolding held_by_def by blast
  have "t' = t \<and> p' = p \<longrightarrow> g' < g \<or> g' = g \<and> l \<in> lr_ID ` set lrs" using k OpPlan by simp
  then show ?thesis using plan_leaves [OF i row a, of t' p' g' lrs] r by (auto simp: held_by_def OpPlan placement_def)
next
  case (OpClaim b w' ttl' now)
  show ?thesis
  proof (cases "b = a")
    case True
    then have "w' \<noteq> w" "now < t0 + ttl + DefaultReassignmentDelay" using k by (simp_all add: OpClaim a)
    then show ?thesis using held_claim [OF h assms(3), of w' now ttl'] True h by (auto simp: OpClaim)
  next
    case False
    then show ?thesis using h by (cases rule: claim_cases [of b w' ttl' now c]) (simp_all add: OpClaim held_by_def)
  qed
next
  case (OpRenew y now)
  then have "le_Assignment y = a \<Longrightarrow> t0 \<le> now" using k by (simp add: a)
  then show ?thesis using h by (cases rule: renew_cases [of y now c]) (auto simp: OpRenew held_by_def)
next
  case (OpRelease y)
  then have "le_Assignment y = a \<Longrightarrow> \<not> (le_Worker y = w \<and> le_Epoch y = e)" using k by (simp add: a)
  then show ?thesis using h by (cases rule: release_cases [of y c]) (auto simp: OpRelease held_by_def)
qed (use h in \<open>simp_all add: held_by_def\<close>)

lemma held_run:
  assumes "co_inv c" and "held_by a w e t0 ttl c" and "w \<noteq> []" and "a = AssignmentIDFor t p g l"
    and "list_all (leaves_held t p g l w e t0 ttl) xs"
  shows "held_by a w e t0 ttl (co_run xs c)"
  using assms
proof (induction xs arbitrary: c)
  case (Cons x xs)
  have "held_by a w e t0 ttl (co_step x c)" using Cons.prems by (intro held_step [of c a w e t0 ttl t p g l x]) simp_all
  then show ?case using Cons by (simp add: step_inv)
qed simp

lemma claim_held:
  assumes "co_inv c" and "co_Claim a w ttl t0 c = (c1, Inr x)"
  shows "w \<noteq> []" and "held_by a w (le_Epoch x) t0 (le_Expires x - t0) c1" and "le_Assignment x = a" and "le_Worker x = w"
    and "le_Epoch x = co_epoch c + 1" and "co_inv c1"
proof -
  obtain row where row: "map_of (co_rows c) a = Some row" "w \<noteq> []"
      "c1 = c\<lparr>co_epoch := co_epoch c + 1, co_rows := aput a (grant w (co_epoch c + 1) t0 (if ttl \<le> 0 then DefaultLeaseTTL else ttl) row) (co_rows c)\<rparr>"
      "x = leaseOf (grant w (co_epoch c + 1) t0 (if ttl \<le> 0 then DefaultLeaseTTL else ttl) row)"
    using assms(2) by (cases rule: claim_cases [of a w ttl t0 c]) auto
  have "as_ID (ar_a row) = a" using assms(1) row(1) static_okD(1) [of c a row] by (simp add: co_inv_def id_named_def)
  then show "w \<noteq> []" "held_by a w (le_Epoch x) t0 (le_Expires x - t0) c1" "le_Assignment x = a" "le_Worker x = w" "le_Epoch x = co_epoch c + 1"
    using row by (simp_all add: leaseOf_def held_by_def)
  show "co_inv c1" using claim_inv [OF assms(1), of a w ttl t0] assms(2) by simp
qed

section \<open>Properties\<close>

text \<open>
  C6: The epoch is a fencing token. In every run of the coordinator the epochs of the leases handed
  out by claims strictly increase; and a lease that is renewed, or whose release changes anything, is the
  latest claim of its lane, and a renewal keeps its epoch. Whoever claimed the lane earlier can do
  neither. (A release of a lane that has left the plan is answered with success and changes nothing.)
\<close>
theorem only_the_latest_claim_renews:
  assumes "le_Worker x \<noteq> []"
    and "snd (co_Renew x now (co_run xs NewCoordinator)) = Inr y \<or> fst (co_Release x (co_run xs NewCoordinator)) \<noteq> co_run xs NewCoordinator"
  shows "sorted_wrt (<) (map le_Epoch (grants xs NewCoordinator)) \<and>
     (snd (co_Renew x now (co_run xs NewCoordinator)) = Inr y \<longrightarrow> le_Epoch y = le_Epoch x) \<and>
     (\<exists>g \<in> set (grants xs NewCoordinator). le_Assignment g = le_Assignment x \<and> le_Worker g = le_Worker x \<and> le_Epoch g = le_Epoch x) \<and>
     (\<forall>g \<in> set (grants xs NewCoordinator). le_Assignment g = le_Assignment x \<longrightarrow> le_Epoch g \<le> le_Epoch x)"
proof -
  let ?c = "co_run xs NewCoordinator"
  have i: "co_inv ?c" by (rule run_inv [OF NewCoordinator_inv])
  have h: "hist_ok (grants xs NewCoordinator) ?c" using run_hist [OF NewCoordinator_inv New_hist, of xs] by simp
  have y: "le_Epoch y = le_Epoch x" if "snd (co_Renew x now ?c) = Inr y"
    using that by (cases rule: renew_cases [of x now ?c]) (auto simp: leaseOf_def)
  obtain row where row: "map_of (co_rows ?c) (le_Assignment x) = Some row" "as_Worker (ar_a row) = le_Worker x"
      "as_Epoch (ar_a row) = le_Epoch x"
  proof (cases "snd (co_Renew x now ?c) = Inr y")
    case True
    then show ?thesis by (cases rule: renew_cases [of x now ?c]) (auto intro: that)
  next
    case False
    with assms(2) show ?thesis by (cases rule: release_cases [of x ?c]) (auto intro: that)
  qed
  have "as_Epoch (ar_a row) \<noteq> 0" using co_ok_epoch [OF i row(1)] row(2) assms(1) by simp
  then have "(\<exists>g \<in> set (grants xs NewCoordinator). le_Assignment g = le_Assignment x \<and> le_Worker g = le_Worker x \<and> le_Epoch g = le_Epoch x) \<and>
      (\<forall>g \<in> set (grants xs NewCoordinator). le_Assignment g = le_Assignment x \<longrightarrow> le_Epoch g \<le> le_Epoch x) \<and>
      sorted_wrt (<) (map le_Epoch (grants xs NewCoordinator))"
    using h row(1) unfolding hist_ok_def row(2,3) [symmetric] by (metis row(3))
  with y show ?thesis by blast
qed

definition lane_a :: lane_row where
  "lane_a = \<lparr>lr_ID = ''a'', lr_Name = ''a'', lr_Group = ''snapshot'', lr_After = [], lr_Spec = zero_blob, lr_Bounded = True,
     lr_Finished = False, lr_FinishedAt = 0, lr_Weight = 1\<rparr>"

definition lane_b :: lane_row where
  "lane_b = lane_a\<lparr>lr_ID := ''b'', lr_Group := ''stream'', lr_After := [''snapshot'']\<rparr>"

definition id_a :: assignment_id where "id_a = AssignmentIDFor ''t'' ''p'' 1 ''a''"

text \<open>A plan of two lanes, a claim by one worker, its release, and a claim by another.\<close>

definition ops1 :: "co_op list" where
  "ops1 = [OpPlan ''t'' ''p'' 1 [lane_a, lane_b], OpClaim id_a ''w1'' 100 5,
     OpRelease \<lparr>le_Assignment = id_a, le_Worker = ''w1'', le_Epoch = 1, le_Expires = 105\<rparr>, OpClaim id_a ''w2'' 100 50]"

definition lease2 :: lease where
  "lease2 = \<lparr>le_Assignment = id_a, le_Worker = ''w2'', le_Epoch = 2, le_Expires = 150\<rparr>"

theorem only_the_latest_claim_renews_witness:
  "sorted_wrt (<) (map le_Epoch (grants ops1 NewCoordinator)) \<and> length (grants ops1 NewCoordinator) = 2 \<and>
   (\<exists>g. g = hd (grants ops1 NewCoordinator) \<and> le_Assignment g = id_a \<and> le_Epoch g \<le> le_Epoch lease2)"
proof -
  have r: "snd (co_Renew lease2 60 (co_run ops1 NewCoordinator)) = Inr (lease2\<lparr>le_Expires := 160\<rparr>)" by code_simp
  have w: "le_Worker lease2 \<noteq> []" "le_Assignment lease2 = id_a" by (simp_all add: lease2_def)
  have "length (grants ops1 NewCoordinator) = 2" "le_Assignment (hd (grants ops1 NewCoordinator)) = id_a"
    "hd (grants ops1 NewCoordinator) \<in> set (grants ops1 NewCoordinator)" by code_simp+
  with only_the_latest_claim_renews [OF w(1) disjI1 [OF r]] w(2) show ?thesis by simp
qed

text \<open>
  C7: A held lane is not given away. After a worker's claim succeeded, and whatever joins, leaves,
  campaigns, re-plans that keep the lane, foreign claims, renewals and releases of other leases follow,
  every claim of the lane by another worker before the lease and the reassignment delay have run out
  is refused, and the holder's own renewal before the expiry succeeds at the same epoch.
\<close>
theorem held_lane_is_not_given_away:
  assumes "co_Claim (AssignmentIDFor t p g l) w ttl t0 (co_run ys NewCoordinator) = (c, Inr x)"
    and "list_all (leaves_held t p g l w (le_Epoch x) t0 (le_Expires x - t0)) xs"
  shows "(w' \<noteq> w \<and> now < le_Expires x + DefaultReassignmentDelay \<longrightarrow>
        (\<exists>e. snd (co_Claim (AssignmentIDFor t p g l) w' ttl' now (co_run xs c)) = Inl e)) \<and>
     (now < le_Expires x \<longrightarrow> (\<exists>y. snd (co_Renew x now (co_run xs c)) = Inr y \<and> le_Epoch y = le_Epoch x))"
proof -
  let ?a = "AssignmentIDFor t p g l" and ?d = "le_Expires x - t0"
  note ch = claim_held [OF run_inv [OF NewCoordinator_inv] assms(1)]
  have h: "held_by ?a w (le_Epoch x) t0 ?d (co_run xs c)" by (rule held_run [OF ch(6,2,1) refl assms(2)])
  then obtain row where row: "map_of (co_rows (co_run xs c)) ?a = Some row" "as_Worker (ar_a row) = w"
      "as_Epoch (ar_a row) = le_Epoch x" "le_Expires x \<le> as_LeaseExpires (ar_a row)"
    by (auto simp: held_by_def)
  have "\<exists>e. snd (co_Claim ?a w' ttl' now (co_run xs c)) = Inl e" if "w' \<noteq> w" "now < le_Expires x + DefaultReassignmentDelay"
    using held_claim [OF h ch(1) that(1), of now ttl'] that(2) by auto
  moreover have "\<exists>y. snd (co_Renew x now (co_run xs c)) = Inr y \<and> le_Epoch y = le_Epoch x" if "now < le_Expires x"
    using row that ch(3,4) by (simp add: co_Renew_def leaseOf_def Let_def)
  ultimately show ?thesis by blast
qed

definition plan1 :: "co_op list" where
  "plan1 = [OpPlan ''t'' ''p'' 1 [lane_a, lane_b]]"

definition lease1 :: lease where
  "lease1 = \<lparr>le_Assignment = id_a, le_Worker = ''w1'', le_Epoch = 1, le_Expires = 105\<rparr>"

definition ops2 :: "co_op list" where
  "ops2 = [OpPlan ''t'' ''p'' 1 [lane_a], OpClaim id_a ''w2'' 100 110, OpRenew lease1 50]"

theorem held_lane_is_not_given_away_witness:
  "\<exists>c. co_Claim id_a ''w1'' 100 5 (co_run plan1 NewCoordinator) = (c, Inr lease1) \<and>
     (\<exists>e. snd (co_Claim id_a ''w2'' 100 1000 (co_run ops2 c)) = Inl e) \<and>
     (\<exists>y. snd (co_Renew lease1 104 (co_run ops2 c)) = Inr y \<and> le_Epoch y = 1)"
proof -
  let ?c = "fst (co_Claim id_a ''w1'' 100 5 (co_run plan1 NewCoordinator))"
  have "snd (co_Claim id_a ''w1'' 100 5 (co_run plan1 NewCoordinator)) = Inr lease1" by code_simp
  then have c: "co_Claim id_a ''w1'' 100 5 (co_run plan1 NewCoordinator) = (?c, Inr lease1)" by (simp add: prod_eq_iff)
  have k: "list_all (leaves_held ''t'' ''p'' 1 ''a'' ''w1'' 1 5 100) ops2" by code_simp
  have e: "le_Expires lease1 = 105" "le_Epoch lease1 = 1" by (simp_all add: lease1_def)
  have d: "(1000 :: int) < 105 + DefaultReassignmentDelay" by (simp add: DefaultReassignmentDelay_def second_def millisecond_def)
  note r = held_lane_is_not_given_away [OF c [unfolded id_a_def], of ops2]
  have "\<exists>e. snd (co_Claim id_a ''w2'' 100 1000 (co_run ops2 ?c)) = Inl e"
    using r [of "''w2''" 1000 100] k e d by (simp add: id_a_def)
  moreover have "\<exists>y. snd (co_Renew lease1 104 (co_run ops2 ?c)) = Inr y \<and> le_Epoch y = 1"
    using r [of "''w1''" 104 100] k e by (simp add: id_a_def)
  ultimately show ?thesis using c by blast
qed

text \<open>
  C17: The gates hold. In every run, a claim that succeeds is for a planned lane that is not finished
  and whose predecessors are all durably finished: every lane of the same pipeline in a group the
  claimed lane starts after is finished and has the time at which that became durable.
\<close>
theorem claimed_lane_has_its_gates_open:
  assumes "co_Claim a w ttl now (co_run xs NewCoordinator) = (c, Inr x)"
  shows "\<exists>row. map_of (co_rows (co_run xs NewCoordinator)) a = Some row \<and> \<not> lr_Finished (as_Lane (ar_a row)) \<and>
     (\<forall>b other. map_of (co_rows (co_run xs NewCoordinator)) b = Some other \<and>
        as_Tenant (ar_a other) = as_Tenant (ar_a row) \<and> as_Pipeline (ar_a other) = as_Pipeline (ar_a row) \<and>
        lr_Group (as_Lane (ar_a other)) \<in> set (lr_After (as_Lane (ar_a row))) \<longrightarrow>
        lr_Finished (as_Lane (ar_a other)) \<and> lr_FinishedAt (as_Lane (ar_a other)) \<noteq> 0)"
proof -
  let ?c = "co_run xs NewCoordinator"
  have ok: "static_ok (statics ?c)" using run_inv [OF NewCoordinator_inv] by (simp add: co_inv_def)
  obtain row where row: "map_of (co_rows ?c) a = Some row" "\<not> as_Gated (ar_a row)" "\<not> lr_Finished (as_Lane (ar_a row))"
    using assms by (cases rule: claim_cases [of a w ttl now ?c]) auto
  have "lr_Finished (as_Lane (ar_a other)) \<and> lr_FinishedAt (as_Lane (ar_a other)) \<noteq> 0"
    if o: "map_of (co_rows ?c) b = Some other" "as_Tenant (ar_a other) = as_Tenant (ar_a row)"
      "as_Pipeline (ar_a other) = as_Pipeline (ar_a row)" "lr_Group (as_Lane (ar_a other)) \<in> set (lr_After (as_Lane (ar_a row)))" for b other
  proof -
    have s: "statics ?c b = Some (static other)" "same_plan (static row) (static other)"
      using o by (simp_all add: statics_def same_plan_def)
    have "as_Generation (ar_a other) = as_Generation (ar_a row)" using static_okD(3) [OF ok row(1) s] by simp
    then have "waits (statics ?c) (static row) \<or> \<not> undone (as_Lane (ar_a other))"
      using s o(4) unfolding waits_def by fastforce
    then show ?thesis using static_okD(2) [OF ok row(1)] row(2) by (simp add: undone_def time_is_zero_def)
  qed
  then show ?thesis using row by blast
qed

definition lane_a_done :: lane_row where
  "lane_a_done = lane_a\<lparr>lr_Finished := True, lr_FinishedAt := 7\<rparr>"

theorem claimed_lane_has_its_gates_open_witness:
  "\<exists>row other. map_of (co_rows (co_run [OpPlan ''t'' ''p'' 1 [lane_a_done, lane_b]] NewCoordinator)) (AssignmentIDFor ''t'' ''p'' 1 ''b'') = Some row \<and>
     map_of (co_rows (co_run [OpPlan ''t'' ''p'' 1 [lane_a_done, lane_b]] NewCoordinator)) id_a = Some other \<and>
     \<not> lr_Finished (as_Lane (ar_a row)) \<and> lr_Finished (as_Lane (ar_a other)) \<and> lr_FinishedAt (as_Lane (ar_a other)) \<noteq> 0"
proof -
  let ?c = "co_run [OpPlan ''t'' ''p'' 1 [lane_a_done, lane_b]] NewCoordinator" and ?b = "AssignmentIDFor ''t'' ''p'' 1 ''b''"
  let ?r = "co_Claim ?b ''w'' 100 9 ?c"
  have "case snd ?r of Inl _ \<Rightarrow> False | Inr _ \<Rightarrow> True" by code_simp
  then obtain x where "?r = (fst ?r, Inr x)" by (cases "snd ?r") (auto simp: prod_eq_iff)
  from claimed_lane_has_its_gates_open [OF this] obtain row where row: "map_of (co_rows ?c) ?b = Some row" "\<not> lr_Finished (as_Lane (ar_a row))"
    and g: "\<And>b other. map_of (co_rows ?c) b = Some other \<Longrightarrow> as_Tenant (ar_a other) = as_Tenant (ar_a row) \<Longrightarrow>
        as_Pipeline (ar_a other) = as_Pipeline (ar_a row) \<Longrightarrow> lr_Group (as_Lane (ar_a other)) \<in> set (lr_After (as_Lane (ar_a row))) \<Longrightarrow>
        lr_Finished (as_Lane (ar_a other)) \<and> lr_FinishedAt (as_Lane (ar_a other)) \<noteq> 0" by blast
  have "case (map_of (co_rows ?c) ?b, map_of (co_rows ?c) id_a) of (Some r, Some u) \<Rightarrow>
      as_Tenant (ar_a u) = as_Tenant (ar_a r) \<and> as_Pipeline (ar_a u) = as_Pipeline (ar_a r) \<and>
      lr_Group (as_Lane (ar_a u)) \<in> set (lr_After (as_Lane (ar_a r))) | _ \<Rightarrow> False" by code_simp
  then obtain other where "map_of (co_rows ?c) id_a = Some other" "as_Tenant (ar_a other) = as_Tenant (ar_a row)"
      "as_Pipeline (ar_a other) = as_Pipeline (ar_a row)" "lr_Group (as_Lane (ar_a other)) \<in> set (lr_After (as_Lane (ar_a row)))"
    unfolding row(1) by (cases "map_of (co_rows ?c) id_a") auto
  with g row show ?thesis by blast
qed

end
