(* ===== verification/Canal_Lease.thy ===== *)
theory Canal_Lease
  imports Canal_CoordInv Canal_Ledger
begin

text \<open>
  The worker's side of leases, \<^verbatim>\<open>internal/engine/lease.go\<close>: the lease table with its questions (which
  epoch fences a lane, may this worker write) and its actions (claim, renew, release), and what the
  runner does with them on a tick of the lease loop.

  The coordinator is reached through the interface \<^verbatim>\<open>store.Coordinator\<close>, here a record of the four
  placement operations on a coordinator state \<open>'c\<close>. The locale \<open>lease_authority\<close> says what the table
  relies on; the in-memory coordinator interprets it. Logs, metrics and the event noted on the source
  are left out.
\<close>

section \<open>The interface\<close>

record 'c coord_ops =
  cc_Plan :: "tenant_id \<Rightarrow> pipeline_id \<Rightarrow> nat \<Rightarrow> lane_row list \<Rightarrow> 'c \<Rightarrow> 'c \<times> err option"
  cc_Claim :: "assignment_id \<Rightarrow> worker_id \<Rightarrow> duration \<Rightarrow> 'c \<Rightarrow> 'c \<times> (err + lease)"
  cc_Renew :: "lease \<Rightarrow> 'c \<Rightarrow> 'c \<times> (err + lease)"
  cc_Release :: "lease \<Rightarrow> 'c \<Rightarrow> 'c \<times> err option"

definition mem_ops :: "time \<Rightarrow> coordinator coord_ops" where
  "mem_ops now = \<lparr>cc_Plan = co_Plan, cc_Claim = (\<lambda>a w ttl. co_Claim a w ttl now), cc_Renew = (\<lambda>l. co_Renew l now), cc_Release = co_Release\<rparr>"

section \<open>The lease table\<close>

record lease_table =
  lt_held :: "(lane_id \<times> lease) list"
  lt_coord :: bool
  lt_gen :: nat
  lt_tenant :: tenant_id
  lt_pipeline :: pipeline_id
  lt_worker :: worker_id

definition newLeaseTable :: "bool \<Rightarrow> nat \<Rightarrow> tenant_id \<Rightarrow> pipeline_id \<Rightarrow> worker_id \<Rightarrow> lease_table" where
  "newLeaseTable coord gen t p w = \<lparr>lt_held = [], lt_coord = coord, lt_gen = gen, lt_tenant = t, lt_pipeline = p, lt_worker = w\<rparr>"

definition coordinated :: "lease_table \<Rightarrow> bool" where
  "coordinated lt \<longleftrightarrow> lt_coord lt"

definition singleWorkerEpoch :: nat where
  "singleWorkerEpoch = 1"

definition epochFor :: "lane_id \<Rightarrow> lease_table \<Rightarrow> nat" where
  "epochFor lane lt = (if \<not> coordinated lt then singleWorkerEpoch
     else case map_of (lt_held lt) lane of Some l \<Rightarrow> le_Epoch l | None \<Rightarrow> 0)"

definition fenceFor :: "lane_id \<Rightarrow> time \<Rightarrow> lease_table \<Rightarrow> nat \<times> bool" where
  "fenceFor lane now lt = (if \<not> coordinated lt then (singleWorkerEpoch, True)
     else case map_of (lt_held lt) lane of
       None \<Rightarrow> (0, False)
     | Some l \<Rightarrow> if \<not> lease_Valid now l then (0, False) else (le_Epoch l, True))"

definition lt_holds :: "lane_id \<Rightarrow> time \<Rightarrow> lease_table \<Rightarrow> bool" where
  "lt_holds lane now lt \<longleftrightarrow> \<not> coordinated lt \<or>
     (case map_of (lt_held lt) lane of None \<Rightarrow> False | Some l \<Rightarrow> lease_Valid now l)"

definition soonestExpiry :: "lease_table \<Rightarrow> time option" where
  "soonestExpiry lt = (if \<not> coordinated lt then None
     else let soonest = fold (\<lambda>(_, l) s. if time_is_zero s \<or> le_Expires l < s then le_Expires l else s) (lt_held lt) 0
       in if time_is_zero soonest then None else Some soonest)"

definition claim_one :: "'c coord_ops \<Rightarrow> time \<Rightarrow> lane_row \<Rightarrow> lease_table \<times> 'c \<Rightarrow> lease_table \<times> 'c" where
  "claim_one ops now row s = (let (lt, c) = s in
     if (case map_of (lt_held lt) (lr_ID row) of None \<Rightarrow> False | Some l \<Rightarrow> lease_Valid now l) then s
     else case cc_Claim ops (AssignmentIDFor (lt_tenant lt) (lt_pipeline lt) (lt_gen lt) (lr_ID row)) (lt_worker lt) DefaultLeaseTTL c of
       (c', Inl _) \<Rightarrow> (lt, c')
     | (c', Inr got) \<Rightarrow> (lt\<lparr>lt_held := aput (lr_ID row) got (lt_held lt)\<rparr>, c'))"

definition lt_claim :: "'c coord_ops \<Rightarrow> time \<Rightarrow> lane_row list \<Rightarrow> lease_table \<times> 'c \<Rightarrow> lease_table \<times> 'c" where
  "lt_claim ops now rows s = (if \<not> coordinated (fst s) then s else fold (claim_one ops now) rows s)"

text \<open>The loop of \<^verbatim>\<open>renew\<close> over the snapshot of the table; \<open>stopping\<close> says whether the context is done.\<close>

fun renew_loop :: "'c coord_ops \<Rightarrow> (lane_id \<Rightarrow> bool) \<Rightarrow> (lane_id \<times> lease) list \<Rightarrow> lease_table \<times> 'c \<Rightarrow> lane_id list \<Rightarrow>
    (lease_table \<times> 'c) \<times> lane_id list" where
  "renew_loop ops stopping [] s lost = (s, lost)"
| "renew_loop ops stopping ((lane, l) # ls) (lt, c) lost =
     (case cc_Renew ops l c of
        (c', Inr got) \<Rightarrow> renew_loop ops stopping ls (lt\<lparr>lt_held := aput lane got (lt_held lt)\<rparr>, c') lost
      | (c', Inl _) \<Rightarrow>
          if stopping lane then ((lt, c'), lost)
          else renew_loop ops stopping ls (lt\<lparr>lt_held := adel lane (lt_held lt)\<rparr>, c') (lost @ [lane]))"

definition lt_renew :: "'c coord_ops \<Rightarrow> (lane_id \<Rightarrow> bool) \<Rightarrow> lease_table \<times> 'c \<Rightarrow> (lease_table \<times> 'c) \<times> lane_id list" where
  "lt_renew ops stopping s = (if \<not> coordinated (fst s) then (s, []) else renew_loop ops stopping (lt_held (fst s)) s [])"

definition releaseAll :: "'c coord_ops \<Rightarrow> lease_table \<times> 'c \<Rightarrow> lease_table \<times> 'c" where
  "releaseAll ops s = (if \<not> coordinated (fst s) then s
     else ((fst s)\<lparr>lt_held := []\<rparr>, fold (\<lambda>(_, l) c. fst (cc_Release ops l c)) (lt_held (fst s)) (snd s)))"

section \<open>The runner's side\<close>

definition planAndClaim :: "'c coord_ops \<Rightarrow> bool \<Rightarrow> time \<Rightarrow> lane_row list \<Rightarrow> (lease_table \<times> 'c) \<times> ledger \<Rightarrow> (lease_table \<times> 'c) \<times> ledger" where
  "planAndClaim ops leader now rows s = (let ((lt, c), led) = s in
     if \<not> coordinated lt then s
     else case (if leader then cc_Plan ops (lt_tenant lt) (lt_pipeline lt) (lt_gen lt) rows c else (c, None)) of
       (c', Some _) \<Rightarrow> ((lt, c'), led)
     | (c', None) \<Rightarrow>
         let (lt', c'') = lt_claim ops now rows (lt, c') in
         ((lt', c''), fold (\<lambda>row. SetEpoch (lr_ID row) (epochFor (lr_ID row) lt')) rows led))"

definition replanAndClaim :: "'c coord_ops \<Rightarrow> bool \<Rightarrow> time \<Rightarrow> (node_id \<times> lane_row list) list \<Rightarrow>
    (lease_table \<times> 'c) \<times> ledger \<Rightarrow> (lease_table \<times> 'c) \<times> ledger" where
  "replanAndClaim ops leader now nodes s = fold (\<lambda>(_, rows). planAndClaim ops leader now rows) nodes s"

definition laneRevoked :: "lane_id \<Rightarrow> ledger \<Rightarrow> ledger" where
  "laneRevoked lane led = fst (Revoke lane led)"

definition leaseTick :: "'c coord_ops \<Rightarrow> (lane_id \<Rightarrow> bool) \<Rightarrow> bool \<Rightarrow> time \<Rightarrow> (node_id \<times> lane_row list) list \<Rightarrow>
    (lease_table \<times> 'c) \<times> ledger \<Rightarrow> (lease_table \<times> 'c) \<times> ledger" where
  "leaseTick ops stopping leader now nodes s =
     (if \<not> coordinated (fst (fst s)) then s
      else let (s', lost) = lt_renew ops stopping (fst s) in
        replanAndClaim ops leader now nodes (s', fold laneRevoked lost (snd s)))"

definition commitAllowed :: "lane_id \<Rightarrow> time \<Rightarrow> lease_table \<Rightarrow> bool" where
  "commitAllowed lane now lt = lt_holds lane now lt"

section \<open>The table and the ledger agree\<close>

text \<open>
  The relation between the table and the ledger, given the highest epoch \<open>n\<close> the coordinator has handed
  out: a held lane carries its lease's epoch in the ledger, above everything the ledger has fenced.
\<close>

definition lease_sync :: "nat \<Rightarrow> lease_table \<Rightarrow> ledger \<Rightarrow> bool" where
  "lease_sync n lt led \<longleftrightarrow> wf_amap (lt_held lt) \<and>
     (\<forall>lane l. map_of (lt_held lt) lane = Some l \<longrightarrow> 0 < le_Epoch l \<and> le_Epoch l \<le> n) \<and>
     (\<forall>lane st. map_of (led_lanes led) lane = Some st \<longrightarrow> ls_epoch st \<le> n \<and> ls_fencedThrough st \<le> n) \<and>
     (\<forall>lane l st. map_of (lt_held lt) lane = Some l \<and> map_of (led_lanes led) lane = Some st \<longrightarrow>
        ls_epoch st = le_Epoch l \<and> ls_fencedThrough st < le_Epoch l)"

lemma lease_sync_mono: "lease_sync n lt led \<Longrightarrow> n \<le> m \<Longrightarrow> lease_sync m lt led"
  unfolding lease_sync_def by (meson order_trans)

lemma lanes_upd: "map_of (led_lanes (upd_lane lid f led)) k = (if k = lid then map_option f (map_of (led_lanes led) k) else map_of (led_lanes led) k)"
  by (cases "map_of (led_lanes led) k") (auto simp: upd_lane_def)

lemma lanes_SetEpochs:
  "map_of (led_lanes (fold (\<lambda>row. SetEpoch (lr_ID row) (e (lr_ID row))) rows led)) k =
   (if k \<in> lr_ID ` set rows then map_option (\<lambda>st. st\<lparr>ls_epoch := e k\<rparr>) (map_of (led_lanes led) k) else map_of (led_lanes led) k)"
  by (induction rows arbitrary: led) (auto simp: SetEpoch_def lanes_upd option.map_comp comp_def)

definition fence_lane :: "lane_state \<Rightarrow> lane_state" where
  "fence_lane st = drop_handles (clear_acc (st\<lparr>ls_fencedThrough := max (max 1 (ls_epoch st)) (ls_fencedThrough st),
     ls_resolved := None, ls_pendingFlush := None\<rparr>))"

lemma fence_lane_simps [simp]:
  "ls_epoch (fence_lane st) = ls_epoch st" "ls_fencedThrough (fence_lane st) = max (max 1 (ls_epoch st)) (ls_fencedThrough st)"
  by (simp_all add: fence_lane_def clear_acc_def drop_handles_def)

lemma lanes_laneRevoked:
  "map_of (led_lanes (laneRevoked lane led)) k = (if k = lane then map_option fence_lane (map_of (led_lanes led) k) else map_of (led_lanes led) k)"
  by (auto simp: laneRevoked_def Revoke_def lanes_upd fence_lane_def [abs_def] split: option.splits)

lemma lanes_revoked_other: "k \<notin> set lost \<Longrightarrow> map_of (led_lanes (fold laneRevoked lost led)) k = map_of (led_lanes led) k"
  by (induction lost arbitrary: led) (simp_all add: lanes_laneRevoked)

lemma lanes_revoked_bounds:
  assumes "\<forall>k st. map_of (led_lanes led) k = Some st \<longrightarrow> ls_epoch st \<le> n \<and> ls_fencedThrough st \<le> n" and "lost \<noteq> [] \<Longrightarrow> 1 \<le> n"
    and "map_of (led_lanes (fold laneRevoked lost led)) k = Some st"
  shows "ls_epoch st \<le> n \<and> ls_fencedThrough st \<le> n"
  using assms
proof (induction lost arbitrary: led)
  case (Cons lane lost)
  have "\<forall>k st. map_of (led_lanes (laneRevoked lane led)) k = Some st \<longrightarrow> ls_epoch st \<le> n \<and> ls_fencedThrough st \<le> n"
    using Cons.prems(1,2) by (auto simp: lanes_laneRevoked split: if_splits)
  then show ?case using Cons.IH Cons.prems by simp
qed simp

section \<open>What the table relies on\<close>

text \<open>
  A coordinator numbers its claims: \<open>top\<close> is the highest epoch it ever gave out. A claim's epoch is
  above it, a renewal keeps its epoch, and nothing lowers \<open>top\<close>.
\<close>

locale lease_authority =
  fixes ops :: "'c coord_ops"
    and top :: "'c \<Rightarrow> nat"
    and ok :: "'c \<Rightarrow> bool"
  assumes claim_fresh: "ok c \<Longrightarrow> cc_Claim ops a w ttl c = (c', Inr l) \<Longrightarrow> le_Epoch l = top c' \<and> top c < top c' \<and> le_Assignment l = a"
    and claim_refused: "ok c \<Longrightarrow> cc_Claim ops a w ttl c = (c', Inl e) \<Longrightarrow> top c \<le> top c'"
    and claim_ok: "ok c \<Longrightarrow> ok (fst (cc_Claim ops a w ttl c))"
    and renew_keeps: "ok c \<Longrightarrow> cc_Renew ops l c = (c', Inr l') \<Longrightarrow> le_Epoch l' = le_Epoch l"
    and renew_top: "ok c \<Longrightarrow> top c \<le> top (fst (cc_Renew ops l c))"
    and renew_ok: "ok c \<Longrightarrow> ok (fst (cc_Renew ops l c))"
    and plan_top: "ok c \<Longrightarrow> top c \<le> top (fst (cc_Plan ops t p g rows c))"
    and plan_ok: "ok c \<Longrightarrow> ok (fst (cc_Plan ops t p g rows c))"
begin

lemma claim_one_sync:
  assumes "ok c" and "claim_one ops now row (lt, c) = (lt', c')" and "wf_amap (lt_held lt)"
    and "\<forall>lane l. map_of (lt_held lt) lane = Some l \<longrightarrow> 0 < le_Epoch l \<and> le_Epoch l \<le> top c"
  shows "ok c' \<and> top c \<le> top c' \<and> wf_amap (lt_held lt') \<and> lt_coord lt' = lt_coord lt \<and>
     (\<forall>lane l. map_of (lt_held lt') lane = Some l \<longrightarrow> 0 < le_Epoch l \<and> le_Epoch l \<le> top c' \<and>
       (map_of (lt_held lt) lane = Some l \<or> lane = lr_ID row \<and> top c < le_Epoch l))"
proof -
  let ?a = "AssignmentIDFor (lt_tenant lt) (lt_pipeline lt) (lt_gen lt) (lr_ID row)"
  obtain d r where d: "cc_Claim ops ?a (lt_worker lt) DefaultLeaseTTL c = (d, r)" by fastforce
  have o: "ok d" using claim_ok [OF assms(1)] d by (metis fst_conv)
  consider "(lt', c') = (lt, c)" | e where "r = Inl e" "(lt', c') = (lt, d)"
    | l where "r = Inr l" "lt' = lt\<lparr>lt_held := aput (lr_ID row) l (lt_held lt)\<rparr>" "c' = d"
    using assms(2) d by (cases r) (auto simp: claim_one_def split: if_splits)
  then show ?thesis
  proof cases
    case 1
    then show ?thesis using assms by simp
  next
    case 2
    then have "top c \<le> top d" using claim_refused [OF assms(1)] d by blast
    then show ?thesis using 2 o assms(3,4) by (auto intro: order_trans)
  next
    case 3
    then have "le_Epoch l = top d" "top c < top d" using claim_fresh [OF assms(1)] d by blast+
    moreover from this have "le_Epoch m \<le> top d" if "le_Epoch m \<le> top c" for m using that by simp
    ultimately show ?thesis using 3 o assms(3,4) by auto
  qed
qed

lemma claims_sync:
  assumes "ok c" and "fold (claim_one ops now) rows (lt, c) = (lt', c')" and "wf_amap (lt_held lt)"
    and "\<forall>lane l. map_of (lt_held lt) lane = Some l \<longrightarrow> 0 < le_Epoch l \<and> le_Epoch l \<le> top c"
  shows "ok c' \<and> top c \<le> top c' \<and> wf_amap (lt_held lt') \<and> lt_coord lt' = lt_coord lt \<and>
     (\<forall>lane l. map_of (lt_held lt') lane = Some l \<longrightarrow> 0 < le_Epoch l \<and> le_Epoch l \<le> top c' \<and>
       (map_of (lt_held lt) lane = Some l \<or> lane \<in> lr_ID ` set rows \<and> top c < le_Epoch l))"
  using assms
proof (induction rows arbitrary: lt c)
  case (Cons row rows)
  obtain lt1 c1 where 1: "claim_one ops now row (lt, c) = (lt1, c1)" by fastforce
  note s1 = claim_one_sync [OF Cons.prems(1) 1 Cons.prems(3,4)]
  have f: "fold (claim_one ops now) rows (lt1, c1) = (lt', c')" using Cons.prems(2) 1 by simp
  note IH = Cons.IH [OF _ f]
  show ?case
  proof (intro conjI allI impI, goal_cases)
    case (5 lane l)
    then show ?case using IH s1 by blast
  next
    case (6 lane l)
    then show ?case using IH s1 by blast
  next
    case (7 lane l)
    then have "map_of (lt_held lt1) lane = Some l \<or> lane \<in> lr_ID ` set rows \<and> top c1 < le_Epoch l" using IH s1 by blast
    then show ?case using s1 by (auto intro: order.strict_trans1)
  qed (use IH s1 in \<open>auto intro: order_trans\<close>)
qed simp

text \<open>Renewing loses leases or keeps their epochs.\<close>

lemma renew_loop_sync:
  assumes "ok c" and "renew_loop ops stopping cur (lt, c) lost = ((lt', c'), lost')" and "wf_amap (lt_held lt)" and "wf_amap cur"
    and "\<forall>(lane, l) \<in> set cur. map_of (lt_held lt) lane = Some l" and "\<forall>lane \<in> set lost. map_of (lt_held lt) lane = None"
  shows "ok c' \<and> top c \<le> top c' \<and> wf_amap (lt_held lt') \<and> lt_coord lt' = lt_coord lt \<and> set lost' \<subseteq> set lost \<union> fst ` set cur \<and>
     (\<forall>lane \<in> set lost'. map_of (lt_held lt') lane = None) \<and>
     (\<forall>lane l'. map_of (lt_held lt') lane = Some l' \<longrightarrow> (\<exists>l. map_of (lt_held lt) lane = Some l \<and> le_Epoch l' = le_Epoch l))"
  using assms
proof (induction cur arbitrary: lt c lost)
  case (Cons x cur)
  obtain lane l where x: "x = (lane, l)" by (cases x)
  obtain d r where d: "cc_Renew ops l c = (d, r)" by fastforce
  have od: "ok d" "top c \<le> top d" using renew_ok [OF Cons.prems(1), of l] renew_top [OF Cons.prems(1), of l] d by simp_all
  have h: "map_of (lt_held lt) lane = Some l" and w: "wf_amap cur" and nx: "lane \<notin> fst ` set cur"
    and rest: "\<forall>(k, m) \<in> set cur. map_of (lt_held lt) k = Some m"
    using Cons.prems(4,5) by (auto simp: x wf_amap_def)
  have nl: "lane \<notin> set lost" using Cons.prems(6) h by force
  have rest': "\<forall>(k, m) \<in> set cur. k \<noteq> lane \<and> map_of (lt_held lt) k = Some m" using rest nx by force
  show ?case
  proof (cases r)
    case (Inr got)
    let ?lt = "lt\<lparr>lt_held := aput lane got (lt_held lt)\<rparr>"
    have e: "le_Epoch got = le_Epoch l" using renew_keeps [OF Cons.prems(1)] d Inr by blast
    have f: "renew_loop ops stopping cur (?lt, d) lost = ((lt', c'), lost')" using Cons.prems(2) d Inr by (simp add: x)
    have pre: "\<forall>(k, m) \<in> set cur. map_of (lt_held ?lt) k = Some m" "\<forall>k \<in> set lost. map_of (lt_held ?lt) k = None"
      using rest' Cons.prems(6) nl by auto
    have w': "wf_amap (lt_held ?lt)" using Cons.prems(3) by simp
    note IH = Cons.IH [OF od(1) f w' w pre]
    show ?thesis
    proof (intro conjI, goal_cases)
      case 7
      show ?case
      proof (intro allI impI)
        fix k l' assume "map_of (lt_held lt') k = Some l'"
        then obtain m where "map_of (lt_held ?lt) k = Some m" "le_Epoch l' = le_Epoch m" using IH by blast
        then show "\<exists>m. map_of (lt_held lt) k = Some m \<and> le_Epoch l' = le_Epoch m" using h e by (cases "k = lane") auto
      qed
    qed (use IH od in \<open>auto simp: x intro: order_trans\<close>)
  next
    case (Inl e)
    show ?thesis
    proof (cases "stopping lane")
      case True
      then have "lt' = lt" "c' = d" "lost' = lost" using Cons.prems(2) d Inl by (auto simp: x)
      then show ?thesis using od Cons.prems(3,6) by auto
    next
      case False
      let ?lt = "lt\<lparr>lt_held := adel lane (lt_held lt)\<rparr>"
      have f: "renew_loop ops stopping cur (?lt, d) (lost @ [lane]) = ((lt', c'), lost')" using Cons.prems(2) d Inl False by (simp add: x)
      have pre: "\<forall>(k, m) \<in> set cur. map_of (lt_held ?lt) k = Some m" "\<forall>k \<in> set (lost @ [lane]). map_of (lt_held ?lt) k = None"
        using rest' Cons.prems(6) nl by auto
      have w': "wf_amap (lt_held ?lt)" using Cons.prems(3) by simp
      note IH = Cons.IH [OF od(1) f w' w pre]
      show ?thesis
      proof (intro conjI, goal_cases)
        case 7
        show ?case
        proof (intro allI impI)
          fix k l' assume "map_of (lt_held lt') k = Some l'"
          then obtain m where "map_of (lt_held ?lt) k = Some m" "le_Epoch l' = le_Epoch m" using IH by blast
          then show "\<exists>m. map_of (lt_held lt) k = Some m \<and> le_Epoch l' = le_Epoch m" by (cases "k = lane") auto
        qed
      qed (use IH od in \<open>auto simp: x intro: order_trans\<close>)
    qed
  qed
qed auto

lemma planAndClaim_sync:
  assumes "ok c" and "lease_sync (top c) lt led" and "planAndClaim ops leader now rows ((lt, c), led) = ((lt', c'), led')"
  shows "ok c' \<and> lease_sync (top c') lt' led'"
proof (cases "coordinated lt")
  case False
  then show ?thesis using assms by (simp add: planAndClaim_def)
next
  case True
  obtain d r where d: "(if leader then cc_Plan ops (lt_tenant lt) (lt_pipeline lt) (lt_gen lt) rows c else (c, None)) = (d, r)" by fastforce
  have od: "ok d" "top c \<le> top d"
    using plan_ok [OF assms(1)] plan_top [OF assms(1)] d assms(1) by (metis fst_conv order_refl)+
  have sd: "lease_sync (top d) lt led" by (rule lease_sync_mono [OF assms(2) od(2)])
  note sd' = sd [unfolded lease_sync_def]
  show ?thesis
  proof (cases r)
    case (Some e)
    then show ?thesis using assms(3) True d od sd by (simp add: planAndClaim_def)
  next
    case None
    have f: "fold (claim_one ops now) rows (lt, d) = (lt', c')"
      and led: "led' = fold (\<lambda>row. SetEpoch (lr_ID row) (epochFor (lr_ID row) lt')) rows led"
      using assms(3) True d None by (auto simp: planAndClaim_def lt_claim_def split: prod.splits)
    note cl = claims_sync [OF od(1) f]
    have w: "wf_amap (lt_held lt)" and h: "\<forall>lane l. map_of (lt_held lt) lane = Some l \<longrightarrow> 0 < le_Epoch l \<and> le_Epoch l \<le> top d"
      using sd' by simp_all
    have co: "coordinated lt'" using cl [OF w h] True by (simp add: coordinated_def)
    have lanes: "map_of (led_lanes led') k = (if k \<in> lr_ID ` set rows then map_option (\<lambda>st. st\<lparr>ls_epoch := epochFor k lt'\<rparr>) (map_of (led_lanes led) k)
        else map_of (led_lanes led) k)" for k
      unfolding led by (rule lanes_SetEpochs)
    have ef: "epochFor k lt' \<le> top c'" for k using cl [OF w h] co by (auto simp: epochFor_def split: option.splits)
    have "ls_epoch st \<le> top c' \<and> ls_fencedThrough st \<le> top c'" if "map_of (led_lanes led') k = Some st" for k st
    proof -
      have "\<And>st. map_of (led_lanes led) k = Some st \<Longrightarrow> ls_epoch st \<le> top d \<and> ls_fencedThrough st \<le> top d" using sd' by blast
      moreover have "top d \<le> top c'" using cl [OF w h] by blast
      ultimately show ?thesis using that ef [of k] unfolding lanes by (fastforce split: if_splits)
    qed
    moreover have "ls_epoch st = le_Epoch l \<and> ls_fencedThrough st < le_Epoch l"
      if hl: "map_of (lt_held lt') k = Some l" and st: "map_of (led_lanes led') k = Some st" for k l st
    proof -
      obtain st0 where st0: "map_of (led_lanes led) k = Some st0" "ls_fencedThrough st = ls_fencedThrough st0"
        "ls_epoch st = (if k \<in> lr_ID ` set rows then epochFor k lt' else ls_epoch st0)"
        using st unfolding lanes by (auto split: if_splits)
      have e: "epochFor k lt' = le_Epoch l" using hl co by (simp add: epochFor_def)
      have "map_of (lt_held lt) k = Some l \<or> k \<in> lr_ID ` set rows \<and> top d < le_Epoch l" using cl [OF w h] hl by blast
      then show ?thesis
      proof
        assume "map_of (lt_held lt) k = Some l"
        then have "ls_epoch st0 = le_Epoch l \<and> ls_fencedThrough st0 < le_Epoch l" using sd' st0(1) by blast
        then show ?thesis using st0 e by simp
      next
        assume "k \<in> lr_ID ` set rows \<and> top d < le_Epoch l"
        moreover have "ls_fencedThrough st0 \<le> top d" using sd' st0(1) by blast
        ultimately show ?thesis using st0 e by simp
      qed
    qed
    ultimately show ?thesis using cl [OF w h] unfolding lease_sync_def by blast
  qed
qed

lemma replan_sync:
  "ok c \<Longrightarrow> lease_sync (top c) lt led \<Longrightarrow> replanAndClaim ops leader now nodes ((lt, c), led) = ((lt', c'), led') \<Longrightarrow>
   ok c' \<and> lease_sync (top c') lt' led'"
proof (induction nodes arbitrary: lt c led)
  case (Cons x nodes)
  obtain n rows where x: "x = (n, rows)" by (cases x)
  obtain lt1 c1 led1 where 1: "planAndClaim ops leader now rows ((lt, c), led) = ((lt1, c1), led1)" by (metis prod_cases3 surj_pair)
  have "ok c1" "lease_sync (top c1) lt1 led1" using planAndClaim_sync [OF Cons.prems(1,2) 1] by simp_all
  moreover have "replanAndClaim ops leader now nodes ((lt1, c1), led1) = ((lt', c'), led')"
    using Cons.prems(3) 1 by (simp add: replanAndClaim_def x)
  ultimately show ?case by (rule Cons.IH)
qed (simp add: replanAndClaim_def)

lemma renew_sync:
  assumes "ok c" and "lease_sync (top c) lt led" and "coordinated lt" and "lt_renew ops stopping (lt, c) = ((lt', c'), lost)"
  shows "ok c' \<and> lease_sync (top c') lt' (fold laneRevoked lost led)"
proof -
  note sy = assms(2) [unfolded lease_sync_def]
  have w: "wf_amap (lt_held lt)" using sy by simp
  have f: "renew_loop ops stopping (lt_held lt) (lt, c) [] = ((lt', c'), lost)" using assms(3,4) by (simp add: lt_renew_def)
  have cur: "\<forall>(lane, l) \<in> set (lt_held lt). map_of (lt_held lt) lane = Some l" using wf_amap_mem [OF w] by auto
  have r: "ok c' \<and> top c \<le> top c' \<and> wf_amap (lt_held lt') \<and> lt_coord lt' = lt_coord lt \<and> set lost \<subseteq> set [] \<union> fst ` set (lt_held lt) \<and>
     (\<forall>lane \<in> set lost. map_of (lt_held lt') lane = None) \<and>
     (\<forall>lane l'. map_of (lt_held lt') lane = Some l' \<longrightarrow> (\<exists>l. map_of (lt_held lt) lane = Some l \<and> le_Epoch l' = le_Epoch l))"
    by (rule renew_loop_sync [OF assms(1) f w w cur]) simp
  have one: "1 \<le> top c'" if "lost \<noteq> []"
  proof -
    obtain lane l where "(lane, l) \<in> set (lt_held lt)" using r \<open>lost \<noteq> []\<close> by (cases lost) auto
    then have "0 < le_Epoch l \<and> le_Epoch l \<le> top c" using cur sy by blast
    then show ?thesis using r by linarith
  qed
  have b: "\<forall>k st. map_of (led_lanes led) k = Some st \<longrightarrow> ls_epoch st \<le> top c' \<and> ls_fencedThrough st \<le> top c'"
    using lease_sync_mono [OF assms(2), of "top c'"] r by (simp add: lease_sync_def)
  have "0 < le_Epoch l \<and> le_Epoch l \<le> top c'" if "map_of (lt_held lt') k = Some l" for k l
    using r that sy by (metis order_trans)
  moreover have "ls_epoch st = le_Epoch l \<and> ls_fencedThrough st < le_Epoch l"
    if h: "map_of (lt_held lt') k = Some l" and st: "map_of (led_lanes (fold laneRevoked lost led)) k = Some st" for k l st
  proof -
    have "k \<notin> set lost" using r h by auto
    then have "map_of (led_lanes led) k = Some st" using st lanes_revoked_other by metis
    moreover obtain l0 where "map_of (lt_held lt) k = Some l0" "le_Epoch l = le_Epoch l0" using r h by blast
    ultimately show ?thesis using sy by metis
  qed
  ultimately show ?thesis using r lanes_revoked_bounds [OF b one] unfolding lease_sync_def by blast
qed

lemma leaseTick_sync:
  assumes "ok c" and "lease_sync (top c) lt led" and "leaseTick ops stopping leader now nodes ((lt, c), led) = ((lt', c'), led')"
  shows "ok c' \<and> lease_sync (top c') lt' led'"
proof (cases "coordinated lt")
  case False
  then show ?thesis using assms by (simp add: leaseTick_def)
next
  case True
  obtain lt1 c1 lost where 1: "lt_renew ops stopping (lt, c) = ((lt1, c1), lost)" by (metis prod_cases3 surj_pair)
  have "replanAndClaim ops leader now nodes ((lt1, c1), fold laneRevoked lost led) = ((lt', c'), led')"
    using assms(3) True 1 by (simp add: leaseTick_def)
  then show ?thesis using renew_sync [OF assms(1,2) True 1] replan_sync by blast
qed

end

section \<open>The in-memory coordinator is an authority\<close>

interpretation mem_co: lease_authority "mem_ops now" co_epoch co_inv for now
proof unfold_locales
  fix c :: coordinator and a w ttl c' l e l' t p g rows
  assume i: "co_inv c"
  show "cc_Claim (mem_ops now) a w ttl c = (c', Inr l) \<Longrightarrow> le_Epoch l = co_epoch c' \<and> co_epoch c < co_epoch c' \<and> le_Assignment l = a"
  proof -
    assume "cc_Claim (mem_ops now) a w ttl c = (c', Inr l)"
    then have cl: "co_Claim a w ttl now c = (c', Inr l)" by (simp add: mem_ops_def)
    then show ?thesis
    proof (cases rule: claim_cases [of a w ttl now c])
      case (2 row)
      have "as_ID (ar_a row) = a" using i 2(1) static_okD(1) [of c a row] by (simp add: co_inv_def id_named_def)
      then show ?thesis using cl 2(6) by (auto simp: leaseOf_def)
    qed simp
  qed
  show "cc_Claim (mem_ops now) a w ttl c = (c', Inl e) \<Longrightarrow> co_epoch c \<le> co_epoch c'"
    by (cases rule: claim_cases [of a w ttl now c]) (auto simp: mem_ops_def)
  show "co_inv (fst (cc_Claim (mem_ops now) a w ttl c))" using claim_inv [OF i] by (simp add: mem_ops_def)
  show "cc_Renew (mem_ops now) l c = (c', Inr l') \<Longrightarrow> le_Epoch l' = le_Epoch l"
    by (cases rule: renew_cases [of l now c]) (auto simp: mem_ops_def leaseOf_def)
  show "co_epoch c \<le> co_epoch (fst (cc_Renew (mem_ops now) l c))"
    by (cases rule: renew_cases [of l now c]) (simp_all add: mem_ops_def)
  show "co_inv (fst (cc_Renew (mem_ops now) l c))" using renew_inv [OF i] by (simp add: mem_ops_def)
  show "co_epoch c \<le> co_epoch (fst (cc_Plan (mem_ops now) t p g rows c))"
    by (cases rule: co_Plan_cases [of t p g rows c]) (simp_all add: mem_ops_def)
  show "co_inv (fst (cc_Plan (mem_ops now) t p g rows c))" using plan_inv [OF i] by (simp add: mem_ops_def)
qed

end
