(* ===== verification/Canal_LeaseProps.thy ===== *)
theory Canal_LeaseProps
  imports Canal_Lease Canal_CoordProps
begin

text \<open>
  The properties of the worker's leases: a held lane is never fenced in the ledger, so that its
  records can be acknowledged, and planning node by node withdraws the other nodes' lanes.
\<close>

lemma step_epoch: "co_epoch c \<le> co_epoch (co_step x c)"
proof (cases x)
  case (OpPlan t p gen lrs)
  then show ?thesis by (cases rule: co_Plan_cases [of t p gen lrs c]) simp_all
next
  case (OpClaim a w ttl now)
  then show ?thesis by (cases rule: claim_cases [of a w ttl now c]) simp_all
next
  case (OpRenew l now)
  then show ?thesis by (cases rule: renew_cases [of l now c]) simp_all
next
  case (OpRelease l)
  then show ?thesis by (cases rule: release_cases [of l c]) simp_all
qed simp_all

lemma run_epoch: "co_epoch c \<le> co_epoch (co_run xs c)"
  by (induction xs arbitrary: c) (auto intro: order_trans [OF step_epoch])

text \<open>
  C16: A lane this worker holds is never fenced in its ledger. Whatever the other workers do at the
  coordinator in between, a tick of the lease loop (renew, fence what was lost, plan and claim) keeps
  the table and the ledger in step: every lane held after the tick carries its lease's epoch in the
  ledger, above everything the ledger has fenced, a lane lost and claimed again in the same tick
  included.
\<close>
theorem held_lane_is_never_fenced:
  assumes "co_inv c" and "lease_sync (co_epoch c) lt led"
    and "leaseTick (mem_ops now) stopping leader now nodes ((lt, co_run xs c), led) = ((lt', c'), led')"
  shows "co_inv c' \<and> lease_sync (co_epoch c') lt' led' \<and>
     (\<forall>lane l st. map_of (lt_held lt') lane = Some l \<and> map_of (led_lanes led') lane = Some st \<longrightarrow>
        ls_epoch st = le_Epoch l \<and> \<not> ls_fenced st)"
proof -
  have "lease_sync (co_epoch (co_run xs c)) lt led" by (rule lease_sync_mono [OF assms(2) run_epoch])
  then have s: "co_inv c' \<and> lease_sync (co_epoch c') lt' led'"
    using mem_co.leaseTick_sync [OF run_inv [OF assms(1)] _ assms(3)] by blast
  then have "ls_epoch st = le_Epoch l \<and> ls_fencedThrough st < le_Epoch l"
    if "map_of (lt_held lt') lane = Some l" "map_of (led_lanes led') lane = Some st" for lane l st
    using that unfolding lease_sync_def by blast
  then show ?thesis using s by (fastforce simp: ls_fenced_def)
qed

definition table0 :: lease_table where
  "table0 = newLeaseTable True 1 ''t'' ''p'' ''w1''"

definition ledger0 :: ledger where
  "ledger0 = (New \<lparr>cfg_Tenant = ''t'', cfg_Pipeline = ''p'', cfg_DefaultBudget = 10, cfg_GroupTTL = 0\<rparr>)\<lparr>led_lanes := [(''a'', new_lane ''a'' OrderingPrefix 10 WhenFullBlock)]\<rparr>"

definition tick1 :: "(lease_table \<times> coordinator) \<times> ledger" where
  "tick1 = leaseTick (mem_ops 5) (\<lambda>_. False) True 5 [(''n'', [lane_a])] ((table0, NewCoordinator), ledger0)"

lemma tick1_sync: "lease_sync 0 table0 ledger0"
  by (simp add: lease_sync_def table0_def newLeaseTable_def ledger0_def New_def new_lane_def)

lemma tick1_inv: "co_inv (snd (fst tick1))"
proof -
  have "leaseTick (mem_ops 5) (\<lambda>_. False) True 5 [(''n'', [lane_a])] ((table0, NewCoordinator), ledger0) =
      ((fst (fst tick1), snd (fst tick1)), snd tick1)" by (simp add: tick1_def)
  moreover have "lease_sync (co_epoch NewCoordinator) table0 ledger0" using tick1_sync by (simp add: NewCoordinator_def)
  ultimately show ?thesis using mem_co.leaseTick_sync [OF NewCoordinator_inv] by blast
qed

theorem held_lane_is_never_fenced_witness:
  "\<exists>l st. co_inv (snd (fst tick1)) \<and> map_of (lt_held (fst (fst tick1))) ''a'' = Some l \<and> map_of (led_lanes (snd tick1)) ''a'' = Some st \<and>
     ls_epoch st = le_Epoch l \<and> \<not> ls_fenced st"
proof -
  have "map_of (lt_held (fst (fst tick1))) ''a'' \<noteq> None" "map_of (led_lanes (snd tick1)) ''a'' \<noteq> None" by code_simp+
  then obtain l st where "map_of (lt_held (fst (fst tick1))) ''a'' = Some l" "map_of (led_lanes (snd tick1)) ''a'' = Some st" by blast
  moreover have "leaseTick (mem_ops 5) (\<lambda>_. False) True 5 [(''n'', [lane_a])] ((table0, co_run [] NewCoordinator), ledger0) =
      ((fst (fst tick1), snd (fst tick1)), snd tick1)" by (simp add: tick1_def)
  moreover have "lease_sync (co_epoch NewCoordinator) table0 ledger0" using tick1_sync by (simp add: NewCoordinator_def)
  ultimately show ?thesis using held_lane_is_never_fenced [OF NewCoordinator_inv] by blast
qed

section \<open>Planning node by node\<close>

lemma claim_keeps_absent: "map_of (co_rows c) a = None \<Longrightarrow> map_of (co_rows (fst (co_Claim b w ttl now c))) a = None"
  by (cases rule: claim_cases [of b w ttl now c]) auto

lemma claims_keep_absent:
  "map_of (co_rows c) a = None \<Longrightarrow> map_of (co_rows (snd (fold (claim_one (mem_ops now) now) rows (lt, c)))) a = None"
proof (induction rows arbitrary: lt c)
  case (Cons row rows)
  obtain lt1 c1 where 1: "claim_one (mem_ops now) now row (lt, c) = (lt1, c1)" by fastforce
  let ?b = "AssignmentIDFor (lt_tenant lt) (lt_pipeline lt) (lt_gen lt) (lr_ID row)"
  have "c1 = c \<or> c1 = fst (co_Claim ?b (lt_worker lt) DefaultLeaseTTL now c)"
    using 1 by (auto simp: claim_one_def mem_ops_def split: if_splits prod.splits sum.splits)
  then have "map_of (co_rows c1) a = None" using Cons.prems claim_keeps_absent by metis
  then show ?case using Cons.IH [of c1 lt1] 1 by simp
qed simp

lemma plan_withdraws:
  assumes "co_inv c" and "snd (co_Plan t p gen rows c) = None" and "lane \<notin> lr_ID ` set rows"
  shows "map_of (co_rows (fst (co_Plan t p gen rows c))) (AssignmentIDFor t p gen lane) = None"
proof (cases rule: co_Plan_cases [of t p gen rows c])
  case (1 e)
  then show ?thesis using assms(2) by simp
next
  case 2
  let ?a = "AssignmentIDFor t p gen lane"
  have w: "wf_amap (co_rows c)" "static_ok (statics c)" using assms(1) by (simp_all add: co_inv_def)
  have "map_of (plan_current t p gen rows c) ?a = None"
  proof (rule ccontr)
    assume "map_of (plan_current t p gen rows c) ?a \<noteq> None"
    then obtain row where row: "map_of (plan_current t p gen rows c) ?a = Some row" by blast
    have "of_pipeline t p row"
      using plan_current_other [OF w, of t p row gen rows ?a] row named_of_pipeline(1) [OF w(2) _ refl] by blast
    then obtain lr where "lr \<in> set rows" "?a = AssignmentIDFor t p gen (lr_ID lr)"
      using plan_current_mine [OF w 2(1) row] by metis
    then show False using assms(3) by (simp add: AssignmentIDFor_eq_iff)
  qed
  then show ?thesis by (simp add: 2(2) map_of_regate)
qed

text \<open>
  Planning is a complete statement of the pipeline's lanes, and the engine plans one node's lanes
  at a time. When the leader has planned one source node's lanes, every lane that is not among them,
  another source node's for instance, is out of the plan: its lease cannot be renewed and it cannot be
  claimed by anybody.
\<close>
theorem planning_one_node_withdraws_the_others:
  assumes "co_inv c" and "coordinated lt" and "snd (co_Plan (lt_tenant lt) (lt_pipeline lt) (lt_gen lt) rows c) = None"
    and "planAndClaim (mem_ops now) True now rows ((lt, c), led) = ((lt', c'), led')"
    and "lane \<notin> lr_ID ` set rows" and "le_Assignment l = AssignmentIDFor (lt_tenant lt) (lt_pipeline lt) (lt_gen lt) lane"
  shows "(\<exists>e. snd (co_Renew l now' c') = Inl e) \<and> (\<exists>e. snd (co_Claim (le_Assignment l) w ttl now' c') = Inl e)"
proof -
  let ?p = "co_Plan (lt_tenant lt) (lt_pipeline lt) (lt_gen lt) rows c"
  have "?p = (fst ?p, None)" using assms(3) by (simp add: prod_eq_iff)
  then have "c' = snd (fold (claim_one (mem_ops now) now) rows (lt, fst ?p))"
    using assms(2,4) by (auto simp: planAndClaim_def lt_claim_def mem_ops_def split: prod.splits option.splits)
  moreover have "map_of (co_rows (fst ?p)) (le_Assignment l) = None" unfolding assms(6) by (rule plan_withdraws [OF assms(1,3,5)])
  ultimately have "map_of (co_rows c') (le_Assignment l) = None" using claims_keep_absent by metis
  then show ?thesis by (simp add: co_Renew_def co_Claim_def Let_def)
qed

definition lane_c :: lane_row where
  "lane_c = lane_a\<lparr>lr_ID := ''c''\<rparr>"

text \<open>Node one's lane is claimed on the first tick; node two plans its own lane.\<close>

theorem planning_one_node_withdraws_the_others_witness:
  "\<exists>l c'. map_of (lt_held (fst (fst tick1))) ''a'' = Some l \<and>
     c' = snd (fst (planAndClaim (mem_ops 6) True 6 [lane_c] tick1)) \<and>
     (\<exists>e. snd (co_Renew l 7 c') = Inl e) \<and> (\<exists>e. snd (co_Claim (le_Assignment l) ''w1'' 100 7 c') = Inl e)"
proof -
  let ?lt = "fst (fst tick1)" and ?c = "snd (fst tick1)" and ?led = "snd tick1"
  let ?r = "planAndClaim (mem_ops 6) True 6 [lane_c] ((?lt, ?c), ?led)"
  have c: "coordinated ?lt" and p: "snd (co_Plan (lt_tenant ?lt) (lt_pipeline ?lt) (lt_gen ?lt) [lane_c] ?c) = None"
    and n: "''a'' \<notin> lr_ID ` set [lane_c]"
    and m: "map_option le_Assignment (map_of (lt_held ?lt) ''a'') = Some (AssignmentIDFor (lt_tenant ?lt) (lt_pipeline ?lt) (lt_gen ?lt) ''a'')"
    by code_simp+
  obtain l where l: "map_of (lt_held ?lt) ''a'' = Some l" "le_Assignment l = AssignmentIDFor (lt_tenant ?lt) (lt_pipeline ?lt) (lt_gen ?lt) ''a''"
    using m by blast
  have r: "?r = ((fst (fst ?r), snd (fst ?r)), snd ?r)" by simp
  have "tick1 = ((?lt, ?c), ?led)" by simp
  then show ?thesis
    using planning_one_node_withdraws_the_others [OF tick1_inv c p r n l(2), of 7 "''w1''" 100] l(1) by metis
qed

end
