(* ===== verification/Canal_LaneCtl.thy ===== *)
theory Canal_LaneCtl
  imports Canal_Lease Canal_Store
begin

text \<open>
  The lane table of a source node, \<^verbatim>\<open>laneCtl\<close>, and the connector state handle, \<^verbatim>\<open>stateHandle\<close>, of
  \<^verbatim>\<open>internal/engine/runtime.go\<close>, with the lane types of \<^verbatim>\<open>pkg/connector/lane.go\<close> and \<^verbatim>\<open>state.go\<close>.

  Every operation takes the state it shares with the rest of the engine as arguments: the lease table
  is read, the ledger and the state store are passed in and returned. The store is reached through its
  interface, a record of operations on a store state \<open>'s\<close>. The byte form of a row is the JSON encoding of
  a lane record, which nothing in the engine inspects: encoder and decoder are a record of two functions.
  Each critical section of \<^verbatim>\<open>writeMu\<close> is one step; \<open>now\<close> is what the clock answers.
\<close>

section \<open>Data\<close>

datatype boundedness = Unbounded | Bounded

datatype lane_kind = LaneKindStream | LaneKindScan | LaneKindBackfill

record lane_spec =
  sp_Name :: string
  sp_Stream :: stream_name
  sp_Kind :: lane_kind
  sp_Ordering :: ordering
  sp_Boundedness :: boundedness
  sp_Group :: lane_group
  sp_StartAfter :: "lane_group list"
  sp_Spec :: blob
  sp_Weight :: nat
  sp_Label :: string
  sp_Budget :: int
  sp_MidLaneResume :: "bool option"

record lane_assignment =
  la_ID :: lane_id
  la_Spec :: lane_spec
  la_Cursor :: position
  la_Epoch :: nat
  la_Finished :: bool
  la_FinishedAt :: time
  la_GatedOn :: "lane_group list"
  la_Worker :: string

record lane_query =
  lq_After :: lane_id
  lq_Limit :: int
  lq_Streams :: "stream_name list"
  lq_Kinds :: "lane_kind list"
  lq_Groups :: "lane_group list"
  lq_IncludeFinished :: bool
  lq_IncludeGated :: bool

record lane_record =
  lx_Spec :: lane_spec
  lx_Cursor :: position
  lx_CursorEpoch :: nat
  lx_Finished :: bool
  lx_FinishedAt :: time

record lane_codec =
  lk_marshal :: "lane_record \<Rightarrow> err + bytes"
  lk_unmarshal :: "bytes \<Rightarrow> err + lane_record"

record 's state_ops =
  so_Get :: "store_key list \<Rightarrow> 's \<Rightarrow> err + (string \<times> versioned) list"
  so_Range :: "store_key \<Rightarrow> 's \<Rightarrow> err + (store_key \<times> versioned) list"
  so_Set :: "sbatch \<Rightarrow> 's \<Rightarrow> 's \<times> err option"

record spec_fields =
  sf_tenant :: tenant_id
  sf_pipeline :: pipeline_id
  sf_budget :: int

record lane_ctl =
  lc_fields :: spec_fields
  lc_node :: node_id
  lc_worker :: worker_id
  lc_lanes :: "(lane_id \<times> lane_record) list"
  lc_order :: "lane_id list"
  lc_versions :: "(lane_id \<times> nat) list"
  lc_changes :: nat
  lc_finishPending :: "lane_id list"

definition newLaneCtl :: "worker_id \<Rightarrow> spec_fields \<Rightarrow> node_id \<Rightarrow> lane_ctl" where
  "newLaneCtl w f node = \<lparr>lc_fields = f, lc_node = node, lc_worker = w, lc_lanes = [], lc_order = [], lc_versions = [],
     lc_changes = 0, lc_finishPending = []\<rparr>"

definition lc_key :: "lane_ctl \<Rightarrow> lane_id \<Rightarrow> store_key" where
  "lc_key l lane = LaneKey (sf_tenant (lc_fields l)) (sf_pipeline (lc_fields l)) lane"

definition lc_notify :: "lane_ctl \<Rightarrow> lane_ctl" where
  "lc_notify l = l\<lparr>lc_changes := lc_changes l + 1\<rparr>"

definition versionOf :: "lane_id \<Rightarrow> lane_ctl \<Rightarrow> nat" where
  "versionOf lane l = (case map_of (lc_versions l) lane of None \<Rightarrow> 0 | Some v \<Rightarrow> v)"

definition bump_version :: "lane_id \<Rightarrow> lane_ctl \<Rightarrow> lane_ctl" where
  "bump_version lane l = l\<lparr>lc_versions := aput lane (versionOf lane l + 1) (lc_versions l)\<rparr>"

definition lc_has :: "lane_id \<Rightarrow> lane_ctl \<Rightarrow> bool" where
  "lc_has lane l \<longleftrightarrow> map_of (lc_lanes l) lane \<noteq> None"

section \<open>Registering a lane with the ledger\<close>

definition ledger_fault :: "ledger_error \<Rightarrow> err" where
  "ledger_fault e = Contract FOpBuffer (Some (Plain (case e of
     ContractEmptyLane \<Rightarrow> ''lane id is empty'' | _ \<Rightarrow> ''lane was registered under another ordering'')))"

text \<open>The closure \<^verbatim>\<open>openSources\<close> hands the table.\<close>

definition ledgerFor :: "when_full \<Rightarrow> lease_table \<Rightarrow> lane_id \<Rightarrow> ordering \<Rightarrow> int \<Rightarrow> ledger \<Rightarrow> ledger \<times> err option" where
  "ledgerFor whenFull lt lane ord budget led =
     (case Lane lane ord budget whenFull led of
        (led', Some e) \<Rightarrow> (led', Some (ledger_fault e))
      | (led', None) \<Rightarrow> (SetEpoch lane (epochFor lane lt) led', None))"

definition lane_budget :: "lane_ctl \<Rightarrow> lane_spec \<Rightarrow> int" where
  "lane_budget l s = (if sp_Budget s = 0 then sf_budget (lc_fields l) else sp_Budget s)"

fun register_all :: "when_full \<Rightarrow> lease_table \<Rightarrow> lane_ctl \<Rightarrow> (lane_id \<times> lane_spec) list \<Rightarrow> ledger \<Rightarrow> ledger \<times> err option" where
  "register_all whenFull lt l [] led = (led, None)"
| "register_all whenFull lt l ((lane, s) # xs) led =
     (case ledgerFor whenFull lt lane (sp_Ordering s) (lane_budget l s) led of
        (led', Some e) \<Rightarrow> (led', Some e)
      | (led', None) \<Rightarrow> register_all whenFull lt l xs led')"

section \<open>Loading the table\<close>

fun load_rows :: "lane_codec \<Rightarrow> (store_key \<times> versioned) list \<Rightarrow> lane_ctl \<Rightarrow> lane_ctl \<times> err option" where
  "load_rows c [] l = (l, None)"
| "load_rows c ((k, v) # rows) l =
     (case lk_unmarshal c (content (v_Value v)) of
        Inl e \<Rightarrow> (l, Some (Contract FOpOpen (Some (Wrap ''lane row is unreadable by this build'' e))))
      | Inr rec \<Rightarrow>
          let lane = last (key_Parts k) in
          load_rows c rows (l\<lparr>lc_lanes := aput lane rec (lc_lanes l), lc_versions := aput lane (v_Version v) (lc_versions l),
            lc_order := lc_order l @ [lane]\<rparr>))"

definition lane_prefix :: "lane_ctl \<Rightarrow> store_key" where
  "lane_prefix l = \<lparr>key_Tenant = sf_tenant (lc_fields l), key_Space = SpaceLane, key_Parts = [sf_pipeline (lc_fields l)]\<rparr>"

definition lane_specs :: "lane_ctl \<Rightarrow> (lane_id \<times> lane_spec) list" where
  "lane_specs l = map (\<lambda>lane. (lane, lx_Spec (the (map_of (lc_lanes l) lane)))) (lc_order l)"

definition lc_load :: "lane_codec \<Rightarrow> 's state_ops \<Rightarrow> when_full \<Rightarrow> lease_table \<Rightarrow> lane_ctl \<times> ledger \<times> 's \<Rightarrow>
    (lane_ctl \<times> ledger \<times> 's) \<times> err option" where
  "lc_load c ops whenFull lt z = (let (l, led, s) = z in
     case so_Range ops (lane_prefix l) s of
       Inl e \<Rightarrow> (z, Some (Wrap ''reading the lane table'' e))
     | Inr rows \<Rightarrow>
         (case load_rows c rows l of
            (l', Some e) \<Rightarrow> ((l', led, s), Some e)
          | (l', None) \<Rightarrow> let (led', e) = register_all whenFull lt l' (lane_specs l') led in ((l', led', s), e)))"

section \<open>Announcing lanes\<close>

definition new_record :: "lane_spec \<Rightarrow> lane_record" where
  "new_record s = \<lparr>lx_Spec = s, lx_Cursor = zero_position, lx_CursorEpoch = 0, lx_Finished = False, lx_FinishedAt = 0\<rparr>"

text \<open>The loop over the specs: the ids, for each the fresh record if the lane is not known, and the batch.\<close>

fun announce_specs :: "lane_codec \<Rightarrow> lane_ctl \<Rightarrow> lane_spec list \<Rightarrow> (lane_id \<times> lane_record option) list \<Rightarrow> sbatch \<Rightarrow>
    err + (lane_id \<times> lane_record option) list \<times> sbatch" where
  "announce_specs c l [] acc b = Inr (acc, b)"
| "announce_specs c l (s # ss) acc b =
     (if sp_Name s = [] then Inl (Contract FOpOpen (Some (Plain ''a lane spec has no Name'')))
      else let lane = DeriveLaneID (sf_tenant (lc_fields l)) (sf_pipeline (lc_fields l)) (lc_node l) (sp_Name s) in
        if lc_has lane l then announce_specs c l ss (acc @ [(lane, None)]) b
        else case lk_marshal c (new_record s) of
            Inl e \<Rightarrow> Inl (Wrap ''encoding lane'' e)
          | Inr body \<Rightarrow> announce_specs c l ss (acc @ [(lane, Some (new_record s))]) (Put (lc_key l lane) (Some body) 0 b))"

definition add_fresh :: "lane_id \<times> lane_record option \<Rightarrow> lane_ctl \<Rightarrow> lane_ctl" where
  "add_fresh x l = (case x of (lane, None) \<Rightarrow> l
     | (lane, Some rec) \<Rightarrow> l\<lparr>lc_lanes := aput lane rec (lc_lanes l), lc_versions := aput lane 1 (lc_versions l),
         lc_order := lc_order l @ [lane]\<rparr>)"

definition announceMany :: "lane_codec \<Rightarrow> 's state_ops \<Rightarrow> when_full \<Rightarrow> lease_table \<Rightarrow> lane_spec list \<Rightarrow> lane_ctl \<times> ledger \<times> 's \<Rightarrow>
    (lane_ctl \<times> ledger \<times> 's) \<times> (err + lane_id list)" where
  "announceMany c ops whenFull lt specs z = (let (l, led, s) = z in
     if specs = [] then (z, Inr [])
     else case announce_specs c l specs [] (NewSBatch singleWorkerEpoch) of
       Inl e \<Rightarrow> (z, Inl e)
     | Inr (fresh, b) \<Rightarrow>
         (case (if sbatch_Len b > 0 then so_Set ops b s else (s, None)) of
            (s', Some e) \<Rightarrow> ((l, led, s'), Inl e)
          | (s', None) \<Rightarrow>
              let l' = fold add_fresh fresh l in
              (case register_all whenFull lt l' (zip (map fst fresh) specs) led of
                 (led', Some e) \<Rightarrow> ((l', led', s'), Inl e)
               | (led', None) \<Rightarrow> ((lc_notify l', led', s'), Inr (map fst fresh)))))"

text \<open>\<^verbatim>\<open>afterAnnounce\<close> plans and claims; it is absent for a worker with no coordinator.\<close>

definition AnnounceMany :: "lane_codec \<Rightarrow> 's state_ops \<Rightarrow> when_full \<Rightarrow> lease_table \<Rightarrow> ('x \<Rightarrow> 'x) option \<Rightarrow> lane_spec list \<Rightarrow>
    (lane_ctl \<times> ledger \<times> 's) \<times> 'x \<Rightarrow> ((lane_ctl \<times> ledger \<times> 's) \<times> 'x) \<times> (err + lane_id list)" where
  "AnnounceMany c ops whenFull lt afterAnnounce specs zx =
     (case announceMany c ops whenFull lt specs (fst zx) of
        (z, Inl e) \<Rightarrow> ((z, snd zx), Inl e)
      | (z, Inr ids) \<Rightarrow> ((z, (case afterAnnounce of None \<Rightarrow> snd zx | Some f \<Rightarrow> f (snd zx))), Inr ids))"

definition Announce :: "lane_codec \<Rightarrow> 's state_ops \<Rightarrow> when_full \<Rightarrow> lease_table \<Rightarrow> ('x \<Rightarrow> 'x) option \<Rightarrow> lane_spec \<Rightarrow>
    (lane_ctl \<times> ledger \<times> 's) \<times> 'x \<Rightarrow> ((lane_ctl \<times> ledger \<times> 's) \<times> 'x) \<times> (err + lane_id)" where
  "Announce c ops whenFull lt afterAnnounce spec zx =
     (case AnnounceMany c ops whenFull lt afterAnnounce [spec] zx of
        (zx', Inl e) \<Rightarrow> (zx', Inl e)
      | (zx', Inr ids) \<Rightarrow> (zx', Inr (hd ids)))"

section \<open>What a worker may read\<close>

definition durably_finished :: "lane_record \<Rightarrow> bool" where
  "durably_finished rec \<longleftrightarrow> lx_Finished rec \<and> \<not> time_is_zero (lx_FinishedAt rec)"

definition gatedOnLocked :: "lane_ctl \<Rightarrow> lane_record \<Rightarrow> lane_group list" where
  "gatedOnLocked l rec = filter (\<lambda>g. list_ex (\<lambda>(_, other). sp_Group (lx_Spec other) = g \<and> \<not> durably_finished other) (lc_lanes l))
     (sp_StartAfter (lx_Spec rec))"

definition assignment_of :: "lease_table \<Rightarrow> lane_ctl \<Rightarrow> lane_id \<Rightarrow> lane_record \<Rightarrow> lane_assignment" where
  "assignment_of lt l lane rec = \<lparr>la_ID = lane, la_Spec = lx_Spec rec, la_Cursor = lx_Cursor rec, la_Epoch = epochFor lane lt,
     la_Finished = False, la_FinishedAt = 0, la_GatedOn = [], la_Worker = lc_worker l\<rparr>"

definition offered :: "lease_table \<Rightarrow> time \<Rightarrow> lane_ctl \<Rightarrow> lane_id \<Rightarrow> lane_record \<Rightarrow> bool" where
  "offered lt now l lane rec \<longleftrightarrow> \<not> lx_Finished rec \<and> lane \<notin> set (lc_finishPending l) \<and> lt_holds lane now lt \<and> gatedOnLocked l rec = []"

text \<open>
  An entry of \<^verbatim>\<open>order\<close> with no record contributes nothing here, where the code would dereference nil. The operations
  keep the list and the map in step but for one case, which \<open>Canal_WatchProps\<close> shows: a name given twice in
  one announcement is listed twice, and forgetting the lane takes only one of the entries away.
\<close>

definition Assigned :: "lease_table \<Rightarrow> time \<Rightarrow> lane_ctl \<Rightarrow> lane_assignment list" where
  "Assigned lt now l = concat (map (\<lambda>lane. case map_of (lc_lanes l) lane of
       None \<Rightarrow> [] | Some rec \<Rightarrow> if offered lt now l lane rec then [assignment_of lt l lane rec] else []) (lc_order l))"

definition containsAny :: "'a list \<Rightarrow> 'a \<Rightarrow> bool" where
  "containsAny have want \<longleftrightarrow> list_ex (\<lambda>h. h = want) have"

definition selected :: "lane_query \<Rightarrow> lane_ctl \<Rightarrow> lane_record \<Rightarrow> bool" where
  "selected q l rec \<longleftrightarrow> (lx_Finished rec \<longrightarrow> lq_IncludeFinished q) \<and>
     (lq_Groups q \<noteq> [] \<longrightarrow> containsAny (lq_Groups q) (sp_Group (lx_Spec rec))) \<and>
     (lq_Streams q \<noteq> [] \<longrightarrow> containsAny (lq_Streams q) (sp_Stream (lx_Spec rec))) \<and>
     (lq_Kinds q \<noteq> [] \<longrightarrow> containsAny (lq_Kinds q) (sp_Kind (lx_Spec rec))) \<and>
     (lq_IncludeGated q \<or> gatedOnLocked l rec = [])"

definition Table :: "lane_query \<Rightarrow> lease_table \<Rightarrow> lane_ctl \<Rightarrow> lane_assignment list" where
  "Table q lt l = concat (map (\<lambda>lane. case map_of (lc_lanes l) lane of
       None \<Rightarrow> [] | Some rec \<Rightarrow> if selected q l rec
         then [(assignment_of lt l lane rec)\<lparr>la_Finished := lx_Finished rec, la_FinishedAt := lx_FinishedAt rec, la_GatedOn := gatedOnLocked l rec\<rparr>]
         else []) (lc_order l))"

definition Revoked :: "lease_table \<Rightarrow> time \<Rightarrow> lane_id \<Rightarrow> bool" where
  "Revoked lt now lane \<longleftrightarrow> \<not> lt_holds lane now lt"

definition laneRows :: "lane_ctl \<Rightarrow> lane_row list" where
  "laneRows l = map (\<lambda>lane. let rec = the (map_of (lc_lanes l) lane) in
     \<lparr>lr_ID = lane, lr_Name = sp_Name (lx_Spec rec), lr_Group = sp_Group (lx_Spec rec), lr_After = sp_StartAfter (lx_Spec rec),
      lr_Spec = zero_blob, lr_Bounded = (sp_Boundedness (lx_Spec rec) = Bounded), lr_Finished = lx_Finished rec,
      lr_FinishedAt = lx_FinishedAt rec, lr_Weight = sp_Weight (lx_Spec rec)\<rparr>) (lc_order l)"

text \<open>The allowance the closure of \<^verbatim>\<open>openSources\<close> reports; it fills two of the fields.\<close>

record lane_admission =
  am_Budget :: int
  am_Headroom :: int
  am_Known :: bool
  am_Blocked :: bool

definition Admission :: "time \<Rightarrow> ledger \<Rightarrow> lane_id \<Rightarrow> lane_admission" where
  "Admission now led lane = (case Stats now lane led of
     None \<Rightarrow> \<lparr>am_Budget = 0, am_Headroom = 0, am_Known = False, am_Blocked = False\<rparr>
   | Some st \<Rightarrow> \<lparr>am_Budget = sta_InFlightBudget st, am_Headroom = sta_InFlightBudget st - int (sta_InFlight st),
       am_Known = False, am_Blocked = False\<rparr>)"

section \<open>Durable writes\<close>

definition not_held :: err where
  "not_held = fault_New Fenced FOpPersist (Some (Plain ''lane is no longer held by this worker''))"

definition lc_mutate :: "lane_codec \<Rightarrow> 's state_ops \<Rightarrow> lease_table \<Rightarrow> time \<Rightarrow> lane_id \<Rightarrow> (lane_record \<Rightarrow> err + lane_record) \<Rightarrow>
    lane_ctl \<times> 's \<Rightarrow> (lane_ctl \<times> 's) \<times> err option" where
  "lc_mutate c ops lt now lane f z = (let (l, s) = z in
     case map_of (lc_lanes l) lane of
       None \<Rightarrow> (z, Some (Contract FOpPersist (Some (Plain ''lane was never announced''))))
     | Some rec \<Rightarrow>
       (case f rec of Inl e \<Rightarrow> (z, Some e)
        | Inr upd \<Rightarrow>
          (case lk_marshal c upd of Inl e \<Rightarrow> (z, Some (Wrap ''encoding lane'' e))
           | Inr body \<Rightarrow>
             (case fenceFor lane now lt of
                (_, False) \<Rightarrow> (z, Some not_held)
              | (epoch, True) \<Rightarrow>
                (case so_Set ops (PutFenced (lc_key l lane) (Some body) (versionOf lane l) epoch (NewSBatch singleWorkerEpoch)) s of
                   (s', Some e) \<Rightarrow> ((l, s'), Some e)
                 | (s', None) \<Rightarrow> ((bump_version lane (l\<lparr>lc_lanes := aput lane upd (lc_lanes l)\<rparr>), s'), None))))))"

definition seed_record :: "position \<Rightarrow> lane_record \<Rightarrow> err + lane_record" where
  "seed_record cursor rec = (if blob_IsZero (pos_Token (lx_Cursor rec)) then Inr (rec\<lparr>lx_Cursor := cursor\<rparr>)
     else Inl (Contract FOpOpen (Some (Plain ''lane has already made progress''))))"

definition Seed :: "lane_codec \<Rightarrow> 's state_ops \<Rightarrow> lease_table \<Rightarrow> time \<Rightarrow> lane_id \<Rightarrow> position \<Rightarrow> lane_ctl \<times> 's \<Rightarrow> (lane_ctl \<times> 's) \<times> err option" where
  "Seed c ops lt now lane cursor = lc_mutate c ops lt now lane (seed_record cursor)"

definition retire_record :: "time \<Rightarrow> lane_record \<Rightarrow> err + lane_record" where
  "retire_record stamp rec = Inr (rec\<lparr>lx_Finished := True, lx_FinishedAt := stamp\<rparr>)"

definition unpend :: "lane_id \<Rightarrow> lane_ctl \<Rightarrow> lane_ctl" where
  "unpend lane l = l\<lparr>lc_finishPending := removeAll lane (lc_finishPending l)\<rparr>"

definition retire :: "lane_codec \<Rightarrow> 's state_ops \<Rightarrow> lease_table \<Rightarrow> time \<Rightarrow> lane_id \<Rightarrow> lane_ctl \<times> 's \<Rightarrow> (lane_ctl \<times> 's) \<times> err option" where
  "retire c ops lt now lane z =
     (case lc_mutate c ops lt now lane (retire_record now) z of
        ((l, s), None) \<Rightarrow> ((lc_notify (unpend lane l), s), None)
      | ((l, s), Some e) \<Rightarrow> ((if ClassOf e = Fenced then unpend lane l else l, s), Some e))"

text \<open>\<open>finish\<close> is the ledger's \<^verbatim>\<open>RequestRetire\<close>, as \<^verbatim>\<open>openSources\<close> passes it.\<close>

definition Finish :: "lane_codec \<Rightarrow> 's state_ops \<Rightarrow> lease_table \<Rightarrow> time \<Rightarrow> lane_id \<Rightarrow> lane_ctl \<times> ledger \<times> 's \<Rightarrow>
    (lane_ctl \<times> ledger \<times> 's) \<times> err option" where
  "Finish c ops lt now lane z = (let (l, led, s) = z; (led', drained) = RequestRetire lane led in
     if drained then let ((l', s'), e) = retire c ops lt now lane (l, s) in ((l', led', s'), e)
     else ((lc_notify (l\<lparr>lc_finishPending := List.insert lane (lc_finishPending l)\<rparr>), led', s), None))"

definition Forget :: "'s state_ops \<Rightarrow> lease_table \<Rightarrow> time \<Rightarrow> lane_id \<Rightarrow> lane_ctl \<times> 's \<Rightarrow> (lane_ctl \<times> 's) \<times> err option" where
  "Forget ops lt now lane z = (let (l, s) = z in
     if \<not> lc_has lane l then (z, None)
     else case fenceFor lane now lt of
       (_, False) \<Rightarrow> (z, Some not_held)
     | (epoch, True) \<Rightarrow>
         (case so_Set ops (DelFenced (lc_key l lane) epoch (NewSBatch singleWorkerEpoch)) s of
            (s', Some e) \<Rightarrow> ((l, s'), Some e)
          | (s', None) \<Rightarrow> ((lc_notify (l\<lparr>lc_lanes := adel lane (lc_lanes l), lc_order := remove1 lane (lc_order l)\<rparr>), s'), None)))"

text \<open>The loop of \<^verbatim>\<open>stage\<close>; the second part of its answer is the map of what was staged.\<close>

fun stage_rows :: "lane_codec \<Rightarrow> lease_table \<Rightarrow> time \<Rightarrow> lane_ctl \<Rightarrow> (lane_id \<times> position) list \<Rightarrow> sbatch \<Rightarrow> (lane_id \<times> position) list \<Rightarrow>
    sbatch \<times> (err + (lane_id \<times> position) list)" where
  "stage_rows c lt now l [] b staged = (b, Inr staged)"
| "stage_rows c lt now l ((lane, pos) # ps) b staged =
     (case map_of (lc_lanes l) lane of
        None \<Rightarrow> stage_rows c lt now l ps b staged
      | Some rec \<Rightarrow>
          (case fenceFor lane now lt of
             (_, False) \<Rightarrow> stage_rows c lt now l ps b staged
           | (epoch, True) \<Rightarrow>
               (case lk_marshal c (rec\<lparr>lx_Cursor := pos, lx_CursorEpoch := epoch\<rparr>) of
                  Inl e \<Rightarrow> (b, Inl (Wrap ''encoding lane'' e))
                | Inr body \<Rightarrow> stage_rows c lt now l ps (PutFenced (lc_key l lane) (Some body) (versionOf lane l) epoch b)
                    (aput lane pos staged))))"

definition lc_stage :: "lane_codec \<Rightarrow> lease_table \<Rightarrow> time \<Rightarrow> (lane_id \<times> position) list \<Rightarrow> lane_ctl \<Rightarrow> sbatch \<Rightarrow>
    sbatch \<times> (err + (lane_id \<times> position) list)" where
  "lc_stage c lt now positions l b = stage_rows c lt now l positions b []"

text \<open>The function \<^verbatim>\<open>stage\<close> returns, called with \<open>true\<close>; called with \<open>false\<close> it changes nothing.\<close>

definition land_one :: "lane_id \<times> position \<Rightarrow> lane_ctl \<Rightarrow> lane_ctl" where
  "land_one x l = (case x of (lane, pos) \<Rightarrow>
     bump_version lane (l\<lparr>lc_lanes := amap (\<lambda>k rec. if k = lane then rec\<lparr>lx_Cursor := pos\<rparr> else rec) (lc_lanes l)\<rparr>))"

definition stage_landed :: "(lane_id \<times> position) list \<Rightarrow> lane_ctl \<Rightarrow> lane_ctl" where
  "stage_landed staged l = fold land_one staged l"

text \<open>\<^verbatim>\<open>laneCtl.commit\<close>, which nothing in the engine calls: the flush writes its cursors through \<^verbatim>\<open>stage\<close>.\<close>

definition lc_commit :: "lane_codec \<Rightarrow> 's state_ops \<Rightarrow> lease_table \<Rightarrow> time \<Rightarrow> (lane_id \<times> position) list \<Rightarrow> lane_ctl \<times> 's \<Rightarrow>
    (lane_ctl \<times> 's) \<times> err option" where
  "lc_commit c ops lt now positions z = (let (l, s) = z in
     if positions = [] then (z, None)
     else case lc_stage c lt now positions l (NewSBatch singleWorkerEpoch) of
       (b, Inl e) \<Rightarrow> (z, Some e)
     | (b, Inr staged) \<Rightarrow>
         if sbatch_Len b = 0 then (z, None)
         else (case so_Set ops b s of
            (s', Some e) \<Rightarrow> ((l, s'), Some e)
          | (s', None) \<Rightarrow> ((stage_landed staged l, s'), None)))"

section \<open>The connector's state handle\<close>

record state_handle =
  sh_tenant :: tenant_id
  sh_pipeline :: pipeline_id
  sh_node :: node_id

record blob_codec =
  bk_marshal :: "blob \<Rightarrow> err + bytes"
  bk_unmarshal :: "bytes \<Rightarrow> err + blob"

definition sh_key :: "state_handle \<Rightarrow> lane_id \<Rightarrow> store_key" where
  "sh_key h lane = ConnectorKey (sh_tenant h) (sh_pipeline h) (sh_node h) lane"

definition sh_get :: "blob_codec \<Rightarrow> 's state_ops \<Rightarrow> store_key \<Rightarrow> 's \<Rightarrow> err + blob \<times> nat" where
  "sh_get c ops k s = (case so_Get ops [k] s of
     Inl e \<Rightarrow> Inl e
   | Inr m \<Rightarrow> (case map_of m (key_String k) of
       None \<Rightarrow> Inr (zero_blob, 0)
     | Some v \<Rightarrow> (case bk_unmarshal c (content (v_Value v)) of
         Inl e \<Rightarrow> Inl (Contract FOpOpen (Some (Wrap ''connector state is unreadable'' e)))
       | Inr b \<Rightarrow> Inr (b, v_Version v))))"

definition sh_Get :: "blob_codec \<Rightarrow> 's state_ops \<Rightarrow> state_handle \<Rightarrow> lane_id \<Rightarrow> 's \<Rightarrow> err + blob \<times> nat" where
  "sh_Get c ops h lane = sh_get c ops (sh_key h lane)"

definition sh_Shared :: "blob_codec \<Rightarrow> 's state_ops \<Rightarrow> state_handle \<Rightarrow> 's \<Rightarrow> err + blob \<times> nat" where
  "sh_Shared c ops h = sh_get c ops (ConnectorNodeKey (sh_tenant h) (sh_pipeline h) (sh_node h))"

definition sh_set :: "blob_codec \<Rightarrow> 's state_ops \<Rightarrow> store_key \<Rightarrow> blob \<Rightarrow> nat \<Rightarrow> nat \<Rightarrow> 's \<Rightarrow> 's \<times> (err + nat)" where
  "sh_set c ops k b ifVersion epoch s = (case bk_marshal c b of
     Inl e \<Rightarrow> (s, Inl (Wrap ''encoding connector state'' e))
   | Inr body \<Rightarrow> (case so_Set ops (PutFenced k (Some body) ifVersion epoch (NewSBatch singleWorkerEpoch)) s of
       (s', Some e) \<Rightarrow> (s', Inl e)
     | (s', None) \<Rightarrow> (s', Inr (ifVersion + 1))))"

definition sh_Set :: "blob_codec \<Rightarrow> 's state_ops \<Rightarrow> lease_table \<Rightarrow> time \<Rightarrow> state_handle \<Rightarrow> lane_id \<Rightarrow> blob \<Rightarrow> nat \<Rightarrow> 's \<Rightarrow> 's \<times> (err + nat)" where
  "sh_Set c ops lt now h lane b ifVersion s = (case fenceFor lane now lt of
     (_, False) \<Rightarrow> (s, Inl not_held)
   | (epoch, True) \<Rightarrow> sh_set c ops (sh_key h lane) b ifVersion epoch s)"

definition sh_SetShared :: "blob_codec \<Rightarrow> 's state_ops \<Rightarrow> state_handle \<Rightarrow> blob \<Rightarrow> nat \<Rightarrow> 's \<Rightarrow> 's \<times> (err + nat)" where
  "sh_SetShared c ops h b ifVersion = sh_set c ops (ConnectorNodeKey (sh_tenant h) (sh_pipeline h) (sh_node h)) b ifVersion 0"

record swrite =
  sw_Blob :: blob
  sw_IfVersion :: nat
  sw_Epoch :: nat

record state_write =
  st_Lanes :: "(lane_id \<times> swrite) list"
  st_Shared :: "swrite option"

fun set_many_rows :: "blob_codec \<Rightarrow> lease_table \<Rightarrow> time \<Rightarrow> state_handle \<Rightarrow> (lane_id \<times> swrite) list \<Rightarrow> sbatch \<Rightarrow> err + sbatch" where
  "set_many_rows c lt now h [] b = Inr b"
| "set_many_rows c lt now h ((lane, w) # ws) b = (case fenceFor lane now lt of
     (_, False) \<Rightarrow> Inl not_held
   | (epoch, True) \<Rightarrow> (case bk_marshal c (sw_Blob w) of
       Inl e \<Rightarrow> Inl (Wrap ''encoding connector state for lane'' e)
     | Inr body \<Rightarrow> set_many_rows c lt now h ws
         (PutFenced (sh_key h lane) (Some body) (sw_IfVersion w) (if sw_Epoch w \<noteq> 0 then sw_Epoch w else epoch) b)))"

definition sh_SetMany :: "blob_codec \<Rightarrow> 's state_ops \<Rightarrow> lease_table \<Rightarrow> time \<Rightarrow> state_handle \<Rightarrow> state_write \<Rightarrow> 's \<Rightarrow> 's \<times> err option" where
  "sh_SetMany c ops lt now h w s =
     (case set_many_rows c lt now h (st_Lanes w) (NewSBatch singleWorkerEpoch) of
        Inl e \<Rightarrow> (s, Some e)
      | Inr b \<Rightarrow>
          (case (case st_Shared w of None \<Rightarrow> Inr b
                 | Some x \<Rightarrow> (case bk_marshal c (sw_Blob x) of
                     Inl e \<Rightarrow> Inl (Wrap ''encoding shared connector state'' e)
                   | Inr body \<Rightarrow> Inr (PutFenced (ConnectorNodeKey (sh_tenant h) (sh_pipeline h) (sh_node h)) (Some body)
                       (sw_IfVersion x) (sw_Epoch x) b))) of
             Inl e \<Rightarrow> (s, Some e)
           | Inr b' \<Rightarrow> if sbatch_Len b' = 0 then (s, None) else so_Set ops b' s))"

definition sh_Delete :: "'s state_ops \<Rightarrow> lease_table \<Rightarrow> time \<Rightarrow> state_handle \<Rightarrow> lane_id \<Rightarrow> 's \<Rightarrow> 's \<times> err option" where
  "sh_Delete ops lt now h lane s = (case fenceFor lane now lt of
     (_, False) \<Rightarrow> (s, Some not_held)
   | (epoch, True) \<Rightarrow> so_Set ops (DelFenced (sh_key h lane) epoch (NewSBatch singleWorkerEpoch)) s)"

end
