(* ===== verification/Canal_Commit.thy ===== *)
theory Canal_Commit
  imports Canal_Write Canal_LaneCtl
begin

text \<open>
  The two-phase commit and the checkpoint, \<^verbatim>\<open>internal/engine/commit.go\<close> and \<^verbatim>\<open>checkpoint.go\<close>, and the
  flush that drives them, \<^verbatim>\<open>flushOnce\<close>, \<^verbatim>\<open>retireLanes\<close>, \<^verbatim>\<open>fillLaneStates\<close> and \<^verbatim>\<open>commitPump\<close> of
  \<^verbatim>\<open>internal/engine/run.go\<close>, with the committer types of \<^verbatim>\<open>pkg/connector/sink_optional.go\<close>.

  The sinks' committers and the sources are functions on the world \<open>'w\<close>, the state store is a record of
  operations on \<open>'s\<close>, and the JSON encodings are functions. Logs and metrics are left out. Maps the code
  iterates are association lists with distinct keys.
\<close>

section \<open>Committables\<close>

record commit_point =
  pt_ID :: nat
  pt_Reason :: flush_reason
  pt_Deadline :: time

record committable =
  cm_Checkpoint :: nat
  cm_Node :: node_id
  cm_Handle :: blob
  cm_Lanes :: "lane_id list"
  cm_Cursors :: "(lane_id \<times> position) list"
  cm_Records :: int
  cm_FirstRec :: record_id
  cm_LastRec :: record_id
  cm_Attempt :: int
  cm_Expires :: time

datatype commit_disposition = DispositionCommitted | DispositionAlreadyCommitted | DispositionRetryLater
  | DispositionDeadLetter | DispositionAborted | DispositionOther nat

record commit_outcome =
  co_Handle :: blob
  co_Disposition :: commit_disposition
  co_Fault :: "err option"

record 'w committer =
  ct_PrepareCommit :: "commit_point \<Rightarrow> 'w \<Rightarrow> 'w \<times> committable list call"
  ct_Commit :: "committable list \<Rightarrow> 'w \<Rightarrow> 'w \<times> commit_outcome list call"
  ct_AbortStale :: "committable list \<Rightarrow> 'w \<Rightarrow> 'w \<times> unit call"
  ct_ResolveStale :: "(committable list \<Rightarrow> 'w \<Rightarrow> 'w \<times> commit_outcome list call) option"

record 'w writer_state =
  ws_SnapshotState :: "nat \<Rightarrow> 'w \<Rightarrow> 'w \<times> blob list call"
  ws_RestoreState :: "blob list \<Rightarrow> 'w \<Rightarrow> 'w \<times> unit call"

section \<open>The checkpoint\<close>

definition CheckpointFormat :: nat where "CheckpointFormat = 1"

record header =
  hd_Format :: nat
  hd_ID :: nat
  hd_Tenant :: tenant_id
  hd_Pipeline :: pipeline_id
  hd_Generation :: nat
  hd_Epoch :: nat
  hd_Worker :: string
  hd_CanalVersion :: string
  hd_Connectors :: "(string \<times> string) list"
  hd_CommittedAt :: time
  hd_RecordsIn :: int
  hd_RecordsOut :: int
  hd_BytesOut :: int

record cp_lane =
  cl_Spec :: blob
  cl_Cursor :: position
  cl_CursorEpoch :: nat
  cl_Group :: lane_group
  cl_After :: "lane_group list"
  cl_Kind :: lane_kind
  cl_Ordering :: ordering
  cl_Bounded :: bool
  cl_Finished :: bool
  cl_FinishedAt :: time
  cl_Label :: string
  cl_Weight :: nat
  cl_Version :: nat

record checkpoint =
  cp_Header :: header
  cp_Lanes :: "(lane_id \<times> cp_lane) list"
  cp_Committables :: "(nat \<times> committable list) list"
  cp_WriterState :: "(node_id \<times> blob list) list"
  cp_TransformState :: "(node_id \<times> blob list) list"
  cp_SchemaEpoch :: nat

definition Stamp :: "checkpoint \<Rightarrow> checkpoint" where
  "Stamp cp = cp\<lparr>cp_Header := (cp_Header cp)\<lparr>hd_Format := CheckpointFormat\<rparr>\<rparr>"

definition WrittenByNewerBuild :: "checkpoint \<Rightarrow> bool" where
  "WrittenByNewerBuild cp \<longleftrightarrow> hd_Format (cp_Header cp) > CheckpointFormat"

record checkpoint_codec =
  pk_marshal :: "checkpoint \<Rightarrow> err + bytes"
  pk_unmarshal :: "bytes \<Rightarrow> err + checkpoint"

section \<open>The checkpointer\<close>

record checkpointer =
  ck_id :: nat
  ck_pending :: "(nat \<times> committable list) list"
  ck_writerState :: "(node_id \<times> blob list) list"

definition newCheckpointer :: checkpointer where
  "newCheckpointer = \<lparr>ck_id = 0, ck_pending = [], ck_writerState = []\<rparr>"

definition ck_next :: "checkpointer \<Rightarrow> checkpointer \<times> nat" where
  "ck_next c = (c\<lparr>ck_id := ck_id c + 1\<rparr>, ck_id c + 1)"

definition pending_at :: "nat \<Rightarrow> checkpointer \<Rightarrow> committable list" where
  "pending_at i c = (case map_of (ck_pending c) i of None \<Rightarrow> [] | Some cs \<Rightarrow> cs)"

definition ck_stage :: "nat \<Rightarrow> committable list \<Rightarrow> checkpointer \<Rightarrow> checkpointer" where
  "ck_stage i cs c = (if cs = [] then c else c\<lparr>ck_pending := aput i (pending_at i c @ cs) (ck_pending c)\<rparr>)"

definition keep_others :: "nat \<Rightarrow> node_id \<Rightarrow> nat \<times> committable list \<Rightarrow> nat \<times> committable list" where
  "keep_others i node x = (fst x, if fst x > i then snd x else filter (\<lambda>cm. cm_Node cm \<noteq> node) (snd x))"

definition ck_confirm :: "nat \<Rightarrow> node_id \<Rightarrow> checkpointer \<Rightarrow> checkpointer" where
  "ck_confirm i node c = c\<lparr>ck_pending := filter (\<lambda>(at_id, cs). at_id > i \<or> cs \<noteq> []) (map (keep_others i node) (ck_pending c))\<rparr>"

definition offerable :: "checkpointer \<Rightarrow> committable list" where
  "offerable c = concat (map (\<lambda>i. pending_at i c) (sort (map fst (ck_pending c))))"

definition hasPending :: "checkpointer \<Rightarrow> bool" where
  "hasPending c \<longleftrightarrow> ck_pending c \<noteq> []"

definition ck_snapshot :: "checkpointer \<Rightarrow> (nat \<times> committable list) list" where
  "ck_snapshot c = ck_pending c"

section \<open>Records a committable is responsible for\<close>

type_synonym 'v awaiting = "(nat \<times> (node_id \<times> ('v, err) rec list) list) list"

definition aw_at :: "nat \<Rightarrow> 'v awaiting \<Rightarrow> (node_id \<times> ('v, err) rec list) list" where
  "aw_at i a = (case map_of a i of None \<Rightarrow> [] | Some m \<Rightarrow> m)"

definition aw_recs :: "node_id \<Rightarrow> (node_id \<times> ('v, err) rec list) list \<Rightarrow> ('v, err) rec list" where
  "aw_recs node m = (case map_of m node of None \<Rightarrow> [] | Some rs \<Rightarrow> rs)"

definition aw_hold :: "nat \<Rightarrow> node_id \<Rightarrow> ('v, err) rec list \<Rightarrow> 'v awaiting \<Rightarrow> 'v awaiting" where
  "aw_hold i node rs a = (if rs = [] then a else aput i (aput node (aw_recs node (aw_at i a) @ rs) (aw_at i a)) a)"

definition aw_release :: "nat \<Rightarrow> node_id \<Rightarrow> 'v awaiting \<Rightarrow> 'v awaiting \<times> ('v, err) rec list" where
  "aw_release i node a =
     (filter (\<lambda>(at_id, m). at_id > i \<or> m \<noteq> []) (map (\<lambda>(at_id, m). (at_id, if at_id > i then m else adel node m)) a),
      concat (map (\<lambda>(at_id, m). if at_id > i then [] else aw_recs node m) a))"

definition aw_outstanding :: "'v awaiting \<Rightarrow> nat" where
  "aw_outstanding a = sum_list (map (\<lambda>(_, m). sum_list (map (\<lambda>(_, rs). length rs) m)) a)"

text \<open>A handle rendered as \<^verbatim>\<open>%d:%x\<close>.\<close>

definition hex_digit :: "nat \<Rightarrow> char" where
  "hex_digit n = char_of (if n < 10 then 48 + n else 87 + n)"

definition hex :: "bytes \<Rightarrow> string" where
  "hex bs = concat (map (\<lambda>c. [hex_digit (of_char c div 16), hex_digit (of_char c mod 16)]) bs)"

definition blobKey :: "blob \<Rightarrow> string" where
  "blobKey b = FormatUint (blob_Version b) @ '':'' @ hex (content (blob_Bytes b))"

section \<open>The engine's durable side\<close>

record ('v, 'w, 's) engine =
  en_run :: "('v, 'w) runner"
  en_ck :: checkpointer
  en_await :: "'v awaiting"
  en_ckVersion :: nat
  en_lanes :: "(node_id \<times> lane_ctl) list"
  en_store :: 's

record ('v, 'w, 's) engine_env =
  ee_we :: "('v, 'w) write_env"
  ee_inGraph :: "node_id \<Rightarrow> bool"
  ee_committer :: "node_id \<Rightarrow> 'w committer"
  ee_state :: "node_id \<Rightarrow> 'w writer_state option"
  ee_sourceCommit :: "node_id \<Rightarrow> ack \<Rightarrow> 'w \<Rightarrow> 'w \<times> unit call"
  ee_codec :: lane_codec
  ee_cpCodec :: checkpoint_codec
  ee_ops :: "'s state_ops"
  ee_tenant :: tenant_id
  ee_pipeline :: pipeline_id
  ee_revision :: nat
  ee_worker :: worker_id
  ee_version :: string
  ee_sources :: "(node_id \<times> string \<times> nat) list"
  ee_sinkNames :: "(node_id \<times> string \<times> nat) list"
  ee_grace :: duration

definition on_run :: "(('v, 'w) runner \<Rightarrow> ('v, 'w) runner) \<Rightarrow> ('v, 'w, 's) engine \<Rightarrow> ('v, 'w, 's) engine" where
  "on_run f en = en\<lparr>en_run := f (en_run en)\<rparr>"

definition set_world :: "'w \<Rightarrow> ('v, 'w, 's) engine \<Rightarrow> ('v, 'w, 's) engine" where
  "set_world w en = on_run (\<lambda>r. r\<lparr>rn_world := w\<rparr>) en"

definition committerSinks :: "('v, 'w, 's) engine_env \<Rightarrow> node_id list" where
  "committerSinks ev = filter (\<lambda>nid. commitsDurability (we_sinks (ee_we ev) nid)) (we_mainSinks (ee_we ev))"

definition mint :: "commit_point \<Rightarrow> node_id \<Rightarrow> (lane_id \<times> position) list \<Rightarrow> nat \<Rightarrow> committable \<Rightarrow> committable" where
  "mint point nid covered n c = c\<lparr>cm_Checkpoint := pt_ID point, cm_Node := nid, cm_Lanes := sort (map fst covered), cm_Cursors := covered,
     cm_Records := (if cm_Records c = 0 then int n else cm_Records c)\<rparr>"

fun prepare_sinks :: "('v, 'w, 's) engine_env \<Rightarrow> commit_point \<Rightarrow> node_id list \<Rightarrow> committable list \<Rightarrow> ('v, 'w, 's) engine \<Rightarrow>
    ('v, 'w, 's) engine \<times> (err + committable list)" where
  "prepare_sinks ev point [] acc en = (en, Inr acc)"
| "prepare_sinks ev point (nid # nids) acc en =
     (let (r1, covered) = takeCovered nid (en_run en);
          (r2, hs) = take_held nid r1;
          (w, ans) = sandbox (sk_Name (we_sinks (ee_we ev) nid)) (ct_PrepareCommit (ee_committer ev nid) point (rn_world r2));
          r3 = r2\<lparr>rn_world := w\<rparr>
      in case ans of
        Inl e \<Rightarrow> (en\<lparr>en_run := returnUnflushed nid hs r3\<rparr>, Inl (Wrap ''preparing a commit for sink'' e))
      | Inr cs \<Rightarrow>
          if cs = [] then prepare_sinks ev point nids acc (en\<lparr>en_run := returnUnflushed nid hs r3\<rparr>)
          else prepare_sinks ev point nids (acc @ map (mint point nid covered (length hs)) cs)
            (en\<lparr>en_run := r3, en_await := aw_hold (pt_ID point) nid hs (en_await en)\<rparr>))"

definition prepare :: "('v, 'w, 's) engine_env \<Rightarrow> commit_point \<Rightarrow> ('v, 'w, 's) engine \<Rightarrow>
    ('v, 'w, 's) engine \<times> (err + committable list)" where
  "prepare ev point en = prepare_sinks ev point (committerSinks ev) [] en"

section \<open>Publishing\<close>

definition answered :: "commit_outcome list \<Rightarrow> string \<Rightarrow> commit_outcome option" where
  "answered outs = map_of (rev (map (\<lambda>u. (blobKey (co_Handle u), u)) outs))"

definition faultOf :: "commit_outcome \<Rightarrow> err" where
  "faultOf u = (case co_Fault u of Some f \<Rightarrow> f | None \<Rightarrow> Plain ''no fault was attached'')"

fun classify :: "(string \<Rightarrow> commit_outcome option) \<Rightarrow> committable list \<Rightarrow> committable list \<Rightarrow> committable list \<Rightarrow>
    err + committable list \<times> committable list" where
  "classify ans [] confirmed aborted = Inr (confirmed, aborted)"
| "classify ans (c # cs) confirmed aborted =
     (case ans (blobKey (cm_Handle c)) of
        None \<Rightarrow> classify ans cs confirmed aborted
      | Some u \<Rightarrow>
          (case co_Disposition u of
             DispositionCommitted \<Rightarrow> classify ans cs (confirmed @ [c]) aborted
           | DispositionAlreadyCommitted \<Rightarrow> classify ans cs (confirmed @ [c]) aborted
           | DispositionRetryLater \<Rightarrow> classify ans cs confirmed aborted
           | DispositionDeadLetter \<Rightarrow> Inl (Contract FOpCommitSink (Some (Wrap ''sink dead-lettered a committable'' (faultOf u))))
           | DispositionAborted \<Rightarrow> classify ans cs confirmed (aborted @ [c])
           | DispositionOther _ \<Rightarrow> Inl (Contract FOpCommitSink (Some (Plain ''disposition is not in the closed set'')))))"

definition confirmed_high :: "nat \<Rightarrow> committable list \<Rightarrow> nat" where
  "confirmed_high i confirmed = fold (\<lambda>c high. if cm_Checkpoint c > high then cm_Checkpoint c else high) confirmed i"

definition release_settle :: "nat \<Rightarrow> node_id \<Rightarrow> ('v, 'w, 's) engine \<Rightarrow> ('v, 'w, 's) engine" where
  "release_settle high node en = (let (a, recs) = aw_release high node (en_await en); en1 = en\<lparr>en_await := a\<rparr> in
     (if recs = [] then en1
      else on_run (settle (outcomesFor node recs \<lparr>wr_Failed = [], wr_Deferred = [], wr_Duplicates = [], wr_Written = 0\<rparr>)) en1)
     \<lparr>en_ck := ck_confirm high node (en_ck en)\<rparr>)"

definition applyOutcomes :: "node_id \<Rightarrow> nat \<Rightarrow> committable list \<Rightarrow> commit_outcome list \<Rightarrow> ('v, 'w, 's) engine \<Rightarrow>
    ('v, 'w, 's) engine \<times> err option" where
  "applyOutcomes node i sent outs en =
     (case classify (answered outs) sent [] [] of
        Inl e \<Rightarrow> (en, Some e)
      | Inr (confirmed, aborted) \<Rightarrow>
          if confirmed = [] \<and> aborted \<noteq> [] then (en, Some (Contract FOpCommitSink (Some (Plain ''sink rolled back a committable''))))
          else if confirmed = [] then (en, None)
          else (release_settle (confirmed_high i confirmed) node en, None))"

definition by_node :: "node_id \<Rightarrow> committable list \<Rightarrow> committable list" where
  "by_node node cs = filter (\<lambda>c. cm_Node c = node) cs"

definition nodes_of :: "committable list \<Rightarrow> node_id list" where
  "nodes_of cs = sort (remdups (map cm_Node cs))"

fun publish_nodes :: "('v, 'w, 's) engine_env \<Rightarrow> nat \<Rightarrow> committable list \<Rightarrow> node_id list \<Rightarrow> ('v, 'w, 's) engine \<Rightarrow>
    ('v, 'w, 's) engine \<times> err option" where
  "publish_nodes ev i cs [] en = (en, None)"
| "publish_nodes ev i cs (node # nodes) en =
     (let (w, ans) = sandbox (sk_Name (we_sinks (ee_we ev) node)) (ct_Commit (ee_committer ev node) (by_node node cs) (rn_world (en_run en)));
          en1 = set_world w en
      in case ans of
        Inl e \<Rightarrow> (en1, Some (Wrap ''committing at sink'' e))
      | Inr outs \<Rightarrow>
          (case applyOutcomes node i (by_node node cs) outs en1 of
             (en2, Some e) \<Rightarrow> (en2, Some e)
           | (en2, None) \<Rightarrow> publish_nodes ev i cs nodes en2))"

definition publish :: "('v, 'w, 's) engine_env \<Rightarrow> nat \<Rightarrow> committable list \<Rightarrow> ('v, 'w, 's) engine \<Rightarrow> ('v, 'w, 's) engine \<times> err option" where
  "publish ev i cs en = publish_nodes ev i cs (nodes_of cs) en"

section \<open>Assembling and writing the checkpoint\<close>

definition connectorVersions :: "('v, 'w, 's) engine_env \<Rightarrow> (string \<times> string) list" where
  "connectorVersions ev = fold (\<lambda>(_, name, api). aput name (FormatUint api))
     (sort_key fst (ee_sources ev) @ sort_key fst (ee_sinkNames ev)) []"

fun snapshot_states :: "('v, 'w, 's) engine_env \<Rightarrow> nat \<Rightarrow> node_id list \<Rightarrow> (node_id \<times> blob list) list \<Rightarrow> ('v, 'w, 's) engine \<Rightarrow>
    ('v, 'w, 's) engine \<times> (err + (node_id \<times> blob list) list)" where
  "snapshot_states ev i [] ws en = (en, Inr ws)"
| "snapshot_states ev i (node # nodes) ws en =
     (case ee_state ev node of
        None \<Rightarrow> snapshot_states ev i nodes ws en
      | Some st \<Rightarrow>
          (let (w, ans) = sandbox (sk_Name (we_sinks (ee_we ev) node)) (ws_SnapshotState st i (rn_world (en_run en)));
               en1 = set_world w en
           in case ans of
             Inl e \<Rightarrow> (en1, Inl (Wrap ''snapshotting writer state'' e))
           | Inr bs \<Rightarrow> snapshot_states ev i nodes (if bs = [] then ws else aput node bs ws) en1))"

definition new_checkpoint :: "('v, 'w, 's) engine_env \<Rightarrow> nat \<Rightarrow> time \<Rightarrow> checkpointer \<Rightarrow> checkpoint" where
  "new_checkpoint ev i now ck =
     \<lparr>cp_Header = \<lparr>hd_Format = 0, hd_ID = i, hd_Tenant = ee_tenant ev, hd_Pipeline = ee_pipeline ev, hd_Generation = ee_revision ev,
        hd_Epoch = singleWorkerEpoch, hd_Worker = ee_worker ev, hd_CanalVersion = ee_version ev,
        hd_Connectors = connectorVersions ev, hd_CommittedAt = now, hd_RecordsIn = 0, hd_RecordsOut = 0, hd_BytesOut = 0\<rparr>,
      cp_Lanes = [], cp_Committables = ck_snapshot ck, cp_WriterState = [], cp_TransformState = [], cp_SchemaEpoch = 0\<rparr>"

definition buildCheckpoint :: "('v, 'w, 's) engine_env \<Rightarrow> nat \<Rightarrow> time \<Rightarrow> ('v, 'w, 's) engine \<Rightarrow> ('v, 'w, 's) engine \<times> (err + checkpoint)" where
  "buildCheckpoint ev i now en =
     (case snapshot_states ev i (we_mainSinks (ee_we ev)) [] en of
        (en1, Inl e) \<Rightarrow> (en1, Inl e)
      | (en1, Inr ws) \<Rightarrow> (en1, Inr (Stamp ((new_checkpoint ev i now (en_ck en))\<lparr>cp_WriterState := ws\<rparr>))))"

definition lane_state_of :: "lane_ctl \<Rightarrow> (lane_id \<times> position) list \<Rightarrow> lane_id \<Rightarrow> lane_record \<Rightarrow> cp_lane" where
  "lane_state_of l positions lane rec =
     \<lparr>cl_Spec = zero_blob, cl_Cursor = (case map_of positions lane of Some pos \<Rightarrow> pos | None \<Rightarrow> lx_Cursor rec), cl_CursorEpoch = lx_CursorEpoch rec,
      cl_Group = sp_Group (lx_Spec rec), cl_After = sp_StartAfter (lx_Spec rec), cl_Kind = sp_Kind (lx_Spec rec),
      cl_Ordering = sp_Ordering (lx_Spec rec), cl_Bounded = (sp_Boundedness (lx_Spec rec) = Bounded), cl_Finished = lx_Finished rec,
      cl_FinishedAt = lx_FinishedAt rec, cl_Label = sp_Label (lx_Spec rec), cl_Weight = 0, cl_Version = versionOf lane l\<rparr>"

definition fillLaneStates :: "(node_id \<times> lane_ctl) list \<Rightarrow> (lane_id \<times> position) list \<Rightarrow> checkpoint \<Rightarrow> checkpoint" where
  "fillLaneStates ctls positions cp = cp\<lparr>cp_Lanes := fold (\<lambda>(_, l). fold (\<lambda>(lane, rec). aput lane (lane_state_of l positions lane rec)) (lc_lanes l))
     ctls (cp_Lanes cp)\<rparr>"

text \<open>Staging every node's cursors into one batch; the answer lists what each node staged.\<close>

fun stage_nodes :: "lane_codec \<Rightarrow> lease_table \<Rightarrow> time \<Rightarrow> (lane_id \<times> position) list \<Rightarrow> (node_id \<times> lane_ctl) list \<Rightarrow> sbatch \<Rightarrow>
    err + sbatch \<times> (node_id \<times> (lane_id \<times> position) list) list" where
  "stage_nodes c lt now positions [] b = Inr (b, [])"
| "stage_nodes c lt now positions ((node, l) # ctls) b =
     (case lc_stage c lt now positions l b of
        (b', Inl e) \<Rightarrow> Inl e
      | (b', Inr staged) \<Rightarrow>
          (case stage_nodes c lt now positions ctls b' of
             Inl e \<Rightarrow> Inl e
           | Inr (b'', rest) \<Rightarrow> Inr (b'', (node, staged) # rest)))"

definition land_nodes :: "(node_id \<times> (lane_id \<times> position) list) list \<Rightarrow> (node_id \<times> lane_ctl) list \<Rightarrow> (node_id \<times> lane_ctl) list" where
  "land_nodes dones ctls = amap (\<lambda>node l. case map_of dones node of None \<Rightarrow> l | Some staged \<Rightarrow> stage_landed staged l) ctls"

definition persistCheckpoint :: "('v, 'w, 's) engine_env \<Rightarrow> lease_table \<Rightarrow> time \<Rightarrow> checkpoint \<Rightarrow> (lane_id \<times> position) list \<Rightarrow>
    ('v, 'w, 's) engine \<Rightarrow> ('v, 'w, 's) engine \<times> err option" where
  "persistCheckpoint ev lt now cp positions en =
     (case stage_nodes (ee_codec ev) lt now positions (sort_key fst (en_lanes en)) (NewSBatch singleWorkerEpoch) of
        Inl e \<Rightarrow> (en, Some e)
      | Inr (b, dones) \<Rightarrow>
          (case pk_marshal (ee_cpCodec ev) cp of
             Inl e \<Rightarrow> (en, Some (Wrap ''encoding the checkpoint'' e))
           | Inr body \<Rightarrow>
               (case so_Set (ee_ops ev) (Put (CheckpointKey (ee_tenant ev) (ee_pipeline ev)) (Some body) (en_ckVersion en) b) (en_store en) of
                  (s, Some e) \<Rightarrow> (en\<lparr>en_store := s\<rparr>, Some (Wrap ''writing checkpoint'' e))
                | (s, None) \<Rightarrow> (en\<lparr>en_store := s, en_ckVersion := en_ckVersion en + 1, en_lanes := land_nodes dones (en_lanes en)\<rparr>, None))))"

section \<open>The flush\<close>

definition laneCtlOwning :: "lane_id \<Rightarrow> (node_id \<times> lane_ctl) list \<Rightarrow> (node_id \<times> lane_ctl) option" where
  "laneCtlOwning lane ctls = find (\<lambda>(_, l). lc_has lane l) ctls"

fun retire_lanes :: "('v, 'w, 's) engine_env \<Rightarrow> lease_table \<Rightarrow> time \<Rightarrow> lane_id list \<Rightarrow> ('v, 'w, 's) engine \<Rightarrow> ('v, 'w, 's) engine" where
  "retire_lanes ev lt now [] en = en"
| "retire_lanes ev lt now (lane # lanes) en =
     (case laneCtlOwning lane (en_lanes en) of
        None \<Rightarrow> retire_lanes ev lt now lanes en
      | Some (node, l) \<Rightarrow>
          (let ((l', s), er) = retire (ee_codec ev) (ee_ops ev) lt now lane (l, en_store en);
               en1 = en\<lparr>en_lanes := aput node l' (en_lanes en), en_store := s\<rparr>
           in case er of
             None \<Rightarrow> retire_lanes ev lt now lanes en1
           | Some e \<Rightarrow> if ClassOf e = Fenced then retire_lanes ev lt now lanes en1 else on_run (fail (Some e)) en1))"

definition retireLanes :: "('v, 'w, 's) engine_env \<Rightarrow> lease_table \<Rightarrow> time \<Rightarrow> ('v, 'w, 's) engine \<Rightarrow> ('v, 'w, 's) engine" where
  "retireLanes ev lt now en = (let (led, lanes) = Retirable (rn_ledger (en_run en)) in
     retire_lanes ev lt now lanes (on_run (\<lambda>r. r\<lparr>rn_ledger := led\<rparr>) en))"

definition commit_positions :: "(lane_id \<times> position) list \<Rightarrow> ('v, 'w, 's) engine \<Rightarrow> ('v, 'w, 's) engine" where
  "commit_positions flushable en =
     (if flushable = [] then en else on_run (\<lambda>r. r\<lparr>rn_ledger := Committed flushable (rn_ledger r)\<rparr>) en)"

text \<open>The flush after the ledger was asked what resolved: checkpoint, publication, acknowledgement, retirement.\<close>

definition flush_write :: "('v, 'w, 's) engine_env \<Rightarrow> lease_table \<Rightarrow> time \<Rightarrow> nat \<Rightarrow> (lane_id \<times> position) list \<Rightarrow> ('v, 'w, 's) engine \<Rightarrow>
    ('v, 'w, 's) engine" where
  "flush_write ev lt now i flushable en =
     (case buildCheckpoint ev i now en of
        (en1, Inl e) \<Rightarrow> on_run (fail (Some e)) en1
      | (en1, Inr cp) \<Rightarrow>
          (case persistCheckpoint ev lt now (fillLaneStates (en_lanes en1) flushable cp) flushable en1 of
             (en2, Some e) \<Rightarrow> on_run (fail (Some e)) en2
           | (en2, None) \<Rightarrow>
               (let offer = offerable (en_ck en2) in
                case (if offer = [] then (en2, None) else publish ev i offer en2) of
                  (en3, Some e) \<Rightarrow> on_run (fail (Some e)) en3
                | (en3, None) \<Rightarrow> retireLanes ev lt now (commit_positions flushable en3))))"

definition flush_prepared :: "('v, 'w, 's) engine_env \<Rightarrow> lease_table \<Rightarrow> time \<Rightarrow> nat \<Rightarrow> committable list \<Rightarrow> ('v, 'w, 's) engine \<Rightarrow>
    ('v, 'w, 's) engine" where
  "flush_prepared ev lt now i minted en =
     (let en2 = en\<lparr>en_ck := ck_stage i minted (en_ck en)\<rparr>;
          (led, flushable) = Flushable (rn_ledger (en_run en2));
          en3 = on_run (\<lambda>r. r\<lparr>rn_ledger := led\<rparr>) en2
      in if flushable = [] \<and> minted = [] \<and> \<not> hasPending (en_ck en3) then retireLanes ev lt now en3
         else flush_write ev lt now i flushable en3)"

definition flushOnce :: "('v, 'w, 's) engine_env \<Rightarrow> lease_table \<Rightarrow> time \<Rightarrow> flush_reason \<Rightarrow> ('v, 'w, 's) engine \<Rightarrow> ('v, 'w, 's) engine" where
  "flushOnce ev lt now reason en =
     (let en0 = on_run (flushSinks (ee_we ev) reason (we_mainSinks (ee_we ev))) en;
          (ck, i) = ck_next (en_ck en0)
      in case prepare ev \<lparr>pt_ID = i, pt_Reason = reason, pt_Deadline = now + ee_grace ev\<rparr> (en0\<lparr>en_ck := ck\<rparr>) of
        (en1, Inl e) \<Rightarrow> on_run (fail (Some e)) en1
      | (en1, Inr minted) \<Rightarrow> flush_prepared ev lt now i minted en1)"

section \<open>Acknowledging the source\<close>

definition sourceFor :: "lane_id \<Rightarrow> (node_id \<times> lane_ctl) list \<Rightarrow> node_id option" where
  "sourceFor lane ctls = map_option fst (laneCtlOwning lane ctls)"

text \<open>One turn of the commit pump for one acknowledgement; a refusal by the source is logged only.\<close>

definition pump_ack :: "('v, 'w, 's) engine_env \<Rightarrow> lease_table \<Rightarrow> time \<Rightarrow> ack \<Rightarrow> ('v, 'w, 's) engine \<Rightarrow> ('v, 'w, 's) engine" where
  "pump_ack ev lt now a en =
     (case sourceFor (ack_Lane a) (en_lanes en) of
        None \<Rightarrow> en
      | Some node \<Rightarrow>
          if \<not> commitAllowed (ack_Lane a) now lt then en
          else set_world (fst (sandbox [] (ee_sourceCommit ev node a (rn_world (en_run en))))) en)"

section \<open>Recovery\<close>

fun restore_states :: "('v, 'w, 's) engine_env \<Rightarrow> (node_id \<times> blob list) list \<Rightarrow> ('v, 'w, 's) engine \<Rightarrow> ('v, 'w, 's) engine \<times> err option" where
  "restore_states ev [] en = (en, None)"
| "restore_states ev ((node, bs) # ws) en =
     (case (if ee_inGraph ev node then ee_state ev node else None) of
        None \<Rightarrow> restore_states ev ws en
      | Some st \<Rightarrow>
          (let (w, ans) = sandbox (sk_Name (we_sinks (ee_we ev) node)) (ws_RestoreState st bs (rn_world (en_run en)));
               en1 = set_world w en
           in case ans of Inl e \<Rightarrow> (en1, Some (Wrap ''restoring writer state'' e)) | Inr _ \<Rightarrow> restore_states ev ws en1))"

definition restoreWriterState :: "('v, 'w, 's) engine_env \<Rightarrow> (node_id \<times> blob list) list \<Rightarrow> ('v, 'w, 's) engine \<Rightarrow>
    ('v, 'w, 's) engine \<times> err option" where
  "restoreWriterState ev ws en = restore_states ev (sort_key fst ws) en"

fun reportResolved :: "(string \<Rightarrow> commit_outcome option) \<Rightarrow> committable list \<Rightarrow> err option" where
  "reportResolved ans [] = None"
| "reportResolved ans (c # cs) =
     (case ans (blobKey (cm_Handle c)) of
        None \<Rightarrow> Some (Contract FOpOpen (Some (Plain ''sink did not answer for a recovered committable'')))
      | Some u \<Rightarrow>
          if co_Disposition u \<in> {DispositionCommitted, DispositionAlreadyCommitted, DispositionAborted} then reportResolved ans cs
          else if co_Disposition u = DispositionRetryLater
          then Some (Contract FOpOpen (Some (Plain ''sink cannot tell whether a recovered committable landed'')))
          else Some (Contract FOpOpen (Some (Plain ''sink answered a recovered committable with another disposition''))))"

definition aborted_outcome :: "committable \<Rightarrow> commit_outcome" where
  "aborted_outcome c = \<lparr>co_Handle = cm_Handle c, co_Disposition = DispositionAborted, co_Fault = None\<rparr>"

definition resolve_call :: "'w committer \<Rightarrow> committable list \<Rightarrow> 'w \<Rightarrow> 'w \<times> commit_outcome list call" where
  "resolve_call ct cs w = (case ct_ResolveStale ct of
     Some f \<Rightarrow> f cs w
   | None \<Rightarrow> (let (w', ans) = ct_AbortStale ct cs w in
       (w', case ans of Returned _ \<Rightarrow> Returned (map aborted_outcome cs) | ReturnedErr e \<Rightarrow> ReturnedErr e
          | Panicked m \<Rightarrow> Panicked m | Abandoned_call e \<Rightarrow> Abandoned_call e)))"

definition cp0 :: nat where "cp0 = 0"

fun resolve_nodes :: "('v, 'w, 's) engine_env \<Rightarrow> committable list \<Rightarrow> node_id list \<Rightarrow> ('v, 'w, 's) engine \<Rightarrow> ('v, 'w, 's) engine \<times> err option" where
  "resolve_nodes ev cs [] en = (en, None)"
| "resolve_nodes ev cs (node # nodes) en =
     (if \<not> ee_inGraph ev node \<or> \<not> sk_Committer (we_sinks (ee_we ev) node)
      then (en, Some (Contract FOpOpen (Some (Plain ''committables were recovered for a node that is not a Committer''))))
      else let (w, ans) = sandbox (sk_Name (we_sinks (ee_we ev) node))
                 (resolve_call (ee_committer ev node) (by_node node cs) (rn_world (en_run en)));
               en1 = set_world w en
           in case ans of
             Inl e \<Rightarrow> (en1, Some (Wrap ''resolving stale committables'' e))
           | Inr outs \<Rightarrow>
               (case reportResolved (answered outs) (by_node node cs) of
                  Some e \<Rightarrow> (en1, Some e)
                | None \<Rightarrow> resolve_nodes ev cs nodes (en1\<lparr>en_ck := ck_confirm cp0 node (en_ck en1)\<rparr>)))"

definition resolveStale :: "('v, 'w, 's) engine_env \<Rightarrow> (nat \<times> committable list) list \<Rightarrow> ('v, 'w, 's) engine \<Rightarrow>
    ('v, 'w, 's) engine \<times> err option" where
  "resolveStale ev pending en = (let cs = concat (map snd pending) in resolve_nodes ev cs (nodes_of cs) en)"

definition recoverCheckpoint :: "('v, 'w, 's) engine_env \<Rightarrow> ('v, 'w, 's) engine \<Rightarrow> ('v, 'w, 's) engine \<times> err option" where
  "recoverCheckpoint ev en = (let key = CheckpointKey (ee_tenant ev) (ee_pipeline ev) in
     case so_Get (ee_ops ev) [key] (en_store en) of
       Inl e \<Rightarrow> (en, Some (Wrap ''reading the checkpoint'' e))
     | Inr m \<Rightarrow>
         (case map_of m (key_String key) of
            None \<Rightarrow> (en, None)
          | Some v \<Rightarrow>
              (let en1 = en\<lparr>en_ckVersion := v_Version v\<rparr> in
               case pk_unmarshal (ee_cpCodec ev) (content (v_Value v)) of
                 Inl e \<Rightarrow> (en1, Some (Contract FOpOpen (Some (Wrap ''the checkpoint is unreadable by this build'' e))))
               | Inr cp \<Rightarrow>
                   (case restoreWriterState ev (cp_WriterState cp) (en1\<lparr>en_ck := (en_ck en1)\<lparr>ck_id := hd_ID (cp_Header cp)\<rparr>\<rparr>) of
                      (en2, Some e) \<Rightarrow> (en2, Some e)
                    | (en2, None) \<Rightarrow> resolveStale ev (cp_Committables cp) en2))))"

end
