(* ===== verification/Canal_CommitAcct.thy ===== *)
theory Canal_CommitAcct
  imports Canal_Commit Canal_WriteAcct
begin

text \<open>
  The commit path accounts for every record. To what the write path counts, settled and held, comes
  what a committable is responsible for. \<open>in_hand\<close> counts all three; every step of a flush keeps it,
  and only a sink's confirmation turns an awaited record into a settled one.
\<close>

section \<open>Counting\<close>

definition aw_count :: "record_id \<Rightarrow> 'v awaiting \<Rightarrow> nat" where
  "aw_count k a = sum_list (map (\<lambda>(_, m). held_count k m) a)"

definition in_hand :: "record_id \<Rightarrow> ('v, 'w, 's) engine \<Rightarrow> nat" where
  "in_hand k en = accounted k (en_run en) + aw_count k (en_await en)"

definition aw_ok :: "'v awaiting \<Rightarrow> bool" where
  "aw_ok a \<longleftrightarrow> wf_amap a \<and> list_all (\<lambda>(_, m). wf_amap m) a"

definition eng_ok :: "('v, 'w, 's) engine \<Rightarrow> bool" where
  "eng_ok en \<longleftrightarrow> wf_amap (rn_pending (en_run en)) \<and> aw_ok (en_await en)"

lemma aw_count_put: "aw_count k (AList.update i m a) + held_count k (aw_at i a) = aw_count k a + held_count k m"
  by (induction a) (auto simp: aw_count_def aw_at_def held_count_def split: option.splits)

lemma aw_count_hold: "aw_count k (aw_hold i node rs a) = aw_count k a + count_list (ids rs) k"
proof -
  have "held_count k (AList.update node (aw_recs node (aw_at i a) @ rs) (aw_at i a)) = held_count k (aw_at i a) + count_list (ids rs) k"
    using held_count_aput [of k node "aw_recs node (aw_at i a) @ rs" "aw_at i a"] by (simp add: aw_recs_def)
  then show ?thesis
    using aw_count_put [of k i "AList.update node (aw_recs node (aw_at i a) @ rs) (aw_at i a)" a] by (simp add: aw_hold_def)
qed

lemma aw_ok_at: "aw_ok a \<Longrightarrow> wf_amap (aw_at i a)"
  by (auto simp: aw_ok_def aw_at_def list_all_iff split: option.splits dest: map_of_SomeD)

lemma aw_ok_put: "aw_ok a \<Longrightarrow> wf_amap m \<Longrightarrow> aw_ok (AList.update i m a)"
  using set_aput_subset [of i m a] by (auto simp: aw_ok_def list_all_iff)

lemma aw_ok_hold: "aw_ok a \<Longrightarrow> aw_ok (aw_hold i node rs a)"
  by (simp add: aw_hold_def aw_ok_put aw_ok_at)

lemma release_one:
  "wf_amap m \<Longrightarrow> held_count k (AList.delete node m) + count_list (ids (aw_recs node m)) k = held_count k m"
  using held_count_adel [of m k node] by (simp add: aw_recs_def)

lemma aw_release_count:
  assumes "aw_ok a" and "aw_release i node a = (a', recs)"
  shows "aw_ok a' \<and> aw_count k a' + count_list (ids recs) k = aw_count k a"
proof -
  let ?f = "\<lambda>(at_id :: nat, m). (at_id, if at_id > i then m else adel node m)"
  have "wf_amap (filter P (map ?f a))" if "wf_amap a" for P and a :: "'a awaiting"
    using that by (intro wf_amap_filter) (simp add: wf_amap_def comp_def case_prod_unfold)
  moreover have "list_all (\<lambda>(_, m). wf_amap m) (filter P (map ?f a))" if "list_all (\<lambda>(_, m). wf_amap m) a" for P
    using that by (auto simp: list_all_iff)
  moreover have "aw_count k (filter (\<lambda>(at_id, m). at_id > i \<or> m \<noteq> []) (map ?f a)) +
      count_list (ids (concat (map (\<lambda>(at_id, m). if at_id > i then [] else aw_recs node m) a))) k = aw_count k a"
    if "list_all (\<lambda>(_, m). wf_amap m) a" for a :: "'a awaiting"
    using that
  proof (induction a)
    case (Cons x a)
    obtain j m where x: "x = (j, m)" by (cases x)
    have m: "wf_amap m" and IH: "aw_count k (filter (\<lambda>(at_id, m). at_id > i \<or> m \<noteq> []) (map ?f a)) +
        count_list (ids (concat (map (\<lambda>(at_id, m). if at_id > i then [] else aw_recs node m) a))) k = aw_count k a"
      using Cons by (simp_all add: x)
    have "AList.delete node m = [] \<Longrightarrow> held_count k (AList.delete node m) = 0" by (simp add: held_count_def)
    then show ?case using IH release_one [OF m, of k node] by (auto simp: x aw_count_def)
  qed (simp add: aw_count_def)
  ultimately show ?thesis using assms by (auto simp: aw_ok_def aw_release_def)
qed

section \<open>The steps of a flush\<close>

lemma acct_set_world [simp]: "in_hand k (set_world w en) = in_hand k en" "eng_ok (set_world w en) = eng_ok en"
  by (simp_all add: in_hand_def eng_ok_def set_world_def on_run_def acct)

lemma acct_fail [simp]: "in_hand k (on_run (fail e) en) = in_hand k en" "eng_ok (on_run (fail e) en) = eng_ok en"
  by (simp_all add: in_hand_def eng_ok_def on_run_def acct)

lemma wf_flushSinks: "wf_amap (rn_pending r) \<Longrightarrow> wf_amap (rn_pending (flushSinks we reason ns r))"
proof (induction ns arbitrary: r)
  case (Cons n ns)
  let ?nm = "sk_Name (we_sinks we n)"
  obtain r1 rs where t: "take_held n r = (r1, rs)" by fastforce
  have w: "wf_amap (rn_pending r1)" using wf_take [OF Cons.prems, of n] t by simp
  show ?case
  proof (cases "sk_Flush (we_sinks we n)")
    case (Some fl)
    obtain r2 e2 where f: "flushOne n ?nm fl rs reason r1 = (r2, e2)" by fastforce
    obtain r3 e3 where s: "signalFlush n ?nm fl reason r = (r3, e3)" by fastforce
    have "wf_amap (rn_pending r2)" using wf_flushOne [OF w, of n ?nm fl rs reason] f by simp
    then have w2: "wf_amap (rn_pending (flushSinks we reason ns r2))" "wf_amap (rn_pending (fail x r2))" for x
      using Cons.IH by simp_all
    have "rn_pending r3 = rn_pending r" using accounted_signal [OF s] by simp
    then have w3: "wf_amap (rn_pending (flushSinks we reason ns r3))" "wf_amap (rn_pending (fail x r3))" for x
      using Cons by simp_all
    have w1: "wf_amap (rn_pending (flushSinks we reason ns r1))" by (rule Cons.IH [OF w])
    define quiet where "quiet \<longleftrightarrow> rs = [] \<and> reason = FlushCheckpoint"
    have e: "flushSinks we reason (n # ns) r =
        (if commitsDurability (we_sinks we n) then (case e3 of None \<Rightarrow> flushSinks we reason ns r3 | Some e \<Rightarrow> fail (Some e) r3)
         else if quiet then flushSinks we reason ns r1
         else (case e2 of None \<Rightarrow> flushSinks we reason ns r2 | Some e \<Rightarrow> fail (Some e) r2))"
      by (auto simp: Some t f s quiet_def Let_def split: option.splits)
    show ?thesis unfolding e using w1 w2 w3 by (auto split: option.splits)
  qed (use Cons in simp)
qed simp

lemma prepare_sinks_acct:
  assumes "eng_ok en"
  shows "eng_ok (fst (prepare_sinks ev point ns acc en)) \<and> in_hand k (fst (prepare_sinks ev point ns acc en)) = in_hand k en"
  using assms
proof (induction ns arbitrary: acc en)
  case (Cons nid ns)
  obtain r1 covered where c: "takeCovered nid (en_run en) = (r1, covered)" by fastforce
  obtain r2 hs where t: "take_held nid r1 = (r2, hs)" by fastforce
  obtain w ans where s: "sandbox (sk_Name (we_sinks (ee_we ev) nid)) (ct_PrepareCommit (ee_committer ev nid) point (rn_world r2)) = (w, ans)"
    by fastforce
  let ?r3 = "r2\<lparr>rn_world := w\<rparr>"
  have p1: "rn_pending r1 = rn_pending (en_run en)" "accounted k r1 = accounted k (en_run en)"
    using c by (auto simp: takeCovered_def accounted_def)
  have wf: "wf_amap (rn_pending r1)" "aw_ok (en_await en)" using Cons.prems p1 by (simp_all add: eng_ok_def)
  have a2: "accounted k ?r3 + count_list (ids hs) k = accounted k (en_run en)"
    using accounted_take [OF wf(1) t, of k] p1(2) by (simp add: acct)
  have w3: "wf_amap (rn_pending ?r3)" using wf(1) t by (auto simp: take_held_def)
  have ret: "eng_ok (en\<lparr>en_run := returnUnflushed nid hs ?r3\<rparr>)" "in_hand k (en\<lparr>en_run := returnUnflushed nid hs ?r3\<rparr>) = in_hand k en"
    using w3 wf(2) a2 by (simp_all add: eng_ok_def in_hand_def acct)
  have kept: "eng_ok (en\<lparr>en_run := ?r3, en_await := aw_hold (pt_ID point) nid hs (en_await en)\<rparr>)"
      "in_hand k (en\<lparr>en_run := ?r3, en_await := aw_hold (pt_ID point) nid hs (en_await en)\<rparr>) = in_hand k en"
    using w3 wf(2) a2 by (simp_all add: eng_ok_def in_hand_def aw_ok_hold aw_count_hold)
  show ?case
  proof (cases ans)
    case (Inl e)
    then show ?thesis using ret by (simp add: c t s)
  next
    case (Inr cs)
    then show ?thesis
      using Cons.IH [OF ret(1), of acc] Cons.IH [OF kept(1), of "acc @ map (mint point nid covered (length hs)) cs"] ret(2) kept(2)
      by (simp add: c t s Let_def)
  qed
qed simp

lemma release_settle_acct:
  assumes "eng_ok en"
  shows "eng_ok (release_settle high node en) \<and> in_hand k (release_settle high node en) = in_hand k en"
proof -
  obtain a recs where r: "aw_release high node (en_await en) = (a, recs)" by fastforce
  have "aw_ok a" "aw_count k a + count_list (ids recs) k = aw_count k (en_await en)"
    using aw_release_count [OF _ r, of k] assms by (simp_all add: eng_ok_def)
  then show ?thesis
    using assms by (auto simp: release_settle_def Let_def r eng_ok_def in_hand_def on_run_def acct)
qed

lemma applyOutcomes_acct:
  "eng_ok en \<Longrightarrow> eng_ok (fst (applyOutcomes node i sent outs en)) \<and> in_hand k (fst (applyOutcomes node i sent outs en)) = in_hand k en"
  using release_settle_acct by (auto simp: applyOutcomes_def split: sum.splits prod.splits)

lemma publish_acct:
  "eng_ok en \<Longrightarrow> eng_ok (fst (publish_nodes ev i cs ns en)) \<and> in_hand k (fst (publish_nodes ev i cs ns en)) = in_hand k en"
proof (induction ns arbitrary: en)
  case (Cons node ns)
  obtain w ans where s: "sandbox (sk_Name (we_sinks (ee_we ev) node)) (ct_Commit (ee_committer ev node) (by_node node cs) (rn_world (en_run en))) = (w, ans)"
    by fastforce
  show ?case
  proof (cases ans)
    case (Inr outs)
    obtain en2 er where a: "applyOutcomes node i (by_node node cs) outs (set_world w en) = (en2, er)" by fastforce
    have "eng_ok en2 \<and> in_hand k en2 = in_hand k en"
      using applyOutcomes_acct [of "set_world w en" node i "by_node node cs" outs k] Cons.prems a by simp
    then show ?thesis using Cons.IH [of en2] by (simp add: s Inr a split: option.splits)
  qed (use Cons.prems in \<open>simp add: s\<close>)
qed simp

lemma snapshot_acct:
  "eng_ok en \<Longrightarrow> eng_ok (fst (snapshot_states ev i ns ws en)) \<and> in_hand k (fst (snapshot_states ev i ns ws en)) = in_hand k en"
proof (induction ns arbitrary: ws en)
  case (Cons node ns)
  then show ?case by (auto simp: Let_def split: option.splits sum.splits prod.splits)
qed simp

lemma acct_cong: "en_run en' = en_run en \<Longrightarrow> en_await en' = en_await en \<Longrightarrow> eng_ok en' = eng_ok en \<and> in_hand k en' = in_hand k en"
  by (simp add: eng_ok_def in_hand_def)

lemma persist_acct: "persistCheckpoint ev lt now cp positions en = (en', er) \<Longrightarrow> en_run en' = en_run en \<and> en_await en' = en_await en"
  by (auto simp: persistCheckpoint_def split: sum.splits prod.splits option.splits)

lemma retire_acct: "eng_ok en \<Longrightarrow> eng_ok (retire_lanes ev lt now ls en) \<and> in_hand k (retire_lanes ev lt now ls en) = in_hand k en"
proof (induction ls arbitrary: en)
  case (Cons lane ls)
  have "eng_ok (en\<lparr>en_lanes := x, en_store := y\<rparr>) \<and> in_hand k (en\<lparr>en_lanes := x, en_store := y\<rparr>) = in_hand k en" for x y
    using Cons.prems by (simp add: eng_ok_def in_hand_def)
  then show ?case using Cons by (auto simp: Let_def split: option.splits prod.splits)
qed simp

lemma acct_ledger: "eng_ok (on_run (\<lambda>r. r\<lparr>rn_ledger := f r\<rparr>) en) = eng_ok en" "in_hand k (on_run (\<lambda>r. r\<lparr>rn_ledger := f r\<rparr>) en) = in_hand k en"
  by (simp_all add: eng_ok_def in_hand_def on_run_def accounted_def)

lemma retireLanes_acct: "eng_ok en \<Longrightarrow> eng_ok (retireLanes ev lt now en) \<and> in_hand k (retireLanes ev lt now en) = in_hand k en"
  by (simp add: retireLanes_def case_prod_unfold Let_def retire_acct acct_ledger)

lemma commit_positions_acct: "eng_ok (commit_positions ps en) = eng_ok en" "in_hand k (commit_positions ps en) = in_hand k en"
  by (simp_all add: commit_positions_def acct_ledger)

lemma buildCheckpoint_acct:
  "eng_ok en \<Longrightarrow> eng_ok (fst (buildCheckpoint ev i now en)) \<and> in_hand k (fst (buildCheckpoint ev i now en)) = in_hand k en"
  using snapshot_acct [of en ev i "we_mainSinks (ee_we ev)" "[]" k] by (auto simp: buildCheckpoint_def split: sum.splits prod.splits)

lemma flush_write_acct:
  assumes "eng_ok en"
  shows "eng_ok (flush_write ev lt now i ps en) \<and> in_hand k (flush_write ev lt now i ps en) = in_hand k en"
proof -
  obtain en1 bc where b: "buildCheckpoint ev i now en = (en1, bc)" by fastforce
  have 1: "eng_ok en1" "in_hand k en1 = in_hand k en" using buildCheckpoint_acct [OF assms, of ev i now k] b by simp_all
  show ?thesis
  proof (cases bc)
    case (Inr cp)
    obtain en2 er where p: "persistCheckpoint ev lt now (fillLaneStates (en_lanes en1) ps cp) ps en1 = (en2, er)" by fastforce
    have 2: "eng_ok en2" "in_hand k en2 = in_hand k en" using acct_cong [of en2 en1 k] persist_acct [OF p] 1 by simp_all
    obtain en3 er3 where o: "(if offerable (en_ck en2) = [] then (en2, None) else publish ev i (offerable (en_ck en2)) en2) = (en3, er3)"
      by fastforce
    have 3: "eng_ok en3" "in_hand k en3 = in_hand k en"
      using publish_acct [OF 2(1), of ev i "offerable (en_ck en2)" "nodes_of (offerable (en_ck en2))" k] 2 o
      by (auto simp: publish_def split: if_splits)
    show ?thesis using 2 3 by (simp add: flush_write_def b Inr p o Let_def retireLanes_acct commit_positions_acct split: option.splits)
  qed (use 1 in \<open>simp add: flush_write_def b\<close>)
qed

lemma flush_prepared_acct:
  assumes "eng_ok en"
  shows "eng_ok (flush_prepared ev lt now i minted en) \<and> in_hand k (flush_prepared ev lt now i minted en) = in_hand k en"
proof -
  obtain led fl where f: "Flushable (rn_ledger (en_run en)) = (led, fl)" by fastforce
  define en3 where "en3 = on_run (\<lambda>r. r\<lparr>rn_ledger := led\<rparr>) (en\<lparr>en_ck := ck_stage i minted (en_ck en)\<rparr>)"
  have 3: "eng_ok en3" "in_hand k en3 = in_hand k en"
    using assms by (simp_all add: en3_def acct_ledger) (simp_all add: eng_ok_def in_hand_def)
  have "flush_prepared ev lt now i minted en = (if fl = [] \<and> minted = [] \<and> \<not> hasPending (en_ck en3) then retireLanes ev lt now en3
      else flush_write ev lt now i fl en3)"
    by (auto simp: flush_prepared_def f Let_def en3_def)
  then show ?thesis using retireLanes_acct [OF 3(1), of ev lt now k] flush_write_acct [OF 3(1), of ev lt now i fl k] 3(2) by presburger
qed

lemma flushOnce_acct:
  assumes "eng_ok en"
  shows "eng_ok (flushOnce ev lt now reason en) \<and> in_hand k (flushOnce ev lt now reason en) = in_hand k en"
proof -
  define en0 where "en0 = on_run (flushSinks (ee_we ev) reason (we_mainSinks (ee_we ev))) en"
  define i where "i = ck_id (en_ck en0) + 1"
  define en1 where "en1 = en0\<lparr>en_ck := (en_ck en0)\<lparr>ck_id := i\<rparr>\<rparr>"
  let ?pt = "\<lparr>pt_ID = i, pt_Reason = reason, pt_Deadline = now + ee_grace ev\<rparr>"
  have 1: "eng_ok en1" "in_hand k en1 = in_hand k en"
    using assms accounted_flushSinks [of "en_run en" k] wf_flushSinks [of "en_run en"]
    by (simp_all add: en0_def en1_def on_run_def eng_ok_def in_hand_def)
  obtain en2 er where p: "prepare ev ?pt en1 = (en2, er)" by fastforce
  have 2: "eng_ok en2" "in_hand k en2 = in_hand k en"
    using prepare_sinks_acct [OF 1(1), of ev ?pt "committerSinks ev" "[]" k] p 1(2) by (simp_all add: prepare_def)
  have e: "flushOnce ev lt now reason en =
      (case prepare ev ?pt en1 of (e1, Inl e) \<Rightarrow> on_run (fail (Some e)) e1 | (e1, Inr minted) \<Rightarrow> flush_prepared ev lt now i minted e1)"
    by (simp add: flushOnce_def Let_def ck_next_def en1_def i_def en0_def)
  show ?thesis using 2 flush_prepared_acct [OF 2(1)] by (simp add: e p split: sum.splits)
qed

end
