(* ===== verification/Canal_Durable.thy ===== *)
theory Canal_Durable
  imports Canal_CommitAcct Canal_LedgerPub
begin

text \<open>
  What is durable. The ledger, the lane tables and the state store are run together: ledger operations
  of the read and write paths, flushes, and the lane operations of the sources, in any order, with
  another writer of the same store. The invariant says of every cursor in a lane table and in a lane
  row of the store that it is where the lane started, or safe and before every open group.

  The locale \<open>lane_store\<close> is what the lane tables rely on: a state store whose range scan shows its rows.
  The write-ahead log and the in-memory store interpret it.
\<close>

section \<open>The ledger underneath\<close>

definition sys_of :: "(lane_id \<times> frame) list \<Rightarrow> (lane_id \<times> position) list \<Rightarrow> ledger \<Rightarrow> sys" where
  "sys_of adm off led = \<lparr>sy_led = led, sy_adm = adm, sy_offered = off\<rparr>"

definition live :: "(lane_id \<times> frame) list \<Rightarrow> (lane_id \<times> position) list \<Rightarrow> ledger \<Rightarrow> bool" where
  "live adm off led \<longleftrightarrow> core_inv (sys_of adm off led) \<and> pub_ok (sys_of adm off led)"

lemma sys_of_simps [simp]:
  "sy_led (sys_of adm off led) = led" "sy_adm (sys_of adm off led) = adm" "sy_offered (sys_of adm off led) = off"
  "sys_of (sy_adm s) (sy_offered s) (sy_led s) = s"
  by (simp_all add: sys_of_def)

lemma live_exec:
  assumes "live adm off led" and "led_exec op (sys_of adm off led) = Some s'"
  shows "live (sy_adm s') (sy_offered s') (sy_led s') \<and> mark_le led (sy_led s')"
  using exec_core [OF _ assms(2)] exec_pub [OF _ _ assms(2)] assms(1) by (simp add: live_def)

text \<open>\<open>extends\<close>: the ledger moved on by operations of its own.\<close>

definition extends :: "(lane_id \<times> frame) list \<Rightarrow> (lane_id \<times> position) list \<Rightarrow> ledger \<Rightarrow> ledger \<Rightarrow> bool" where
  "extends adm off led led' \<longleftrightarrow> live adm off led' \<and> mark_le led led'"

lemma extends_refl: "live adm off led \<Longrightarrow> extends adm off led led"
  by (simp add: extends_def)

lemma extends_trans: "extends adm off l1 l2 \<Longrightarrow> extends adm off l2 l3 \<Longrightarrow> extends adm off l1 l3"
  unfolding extends_def using mark_le_trans by blast

lemma extends_exec:
  assumes "extends adm off l0 led" and "led_exec (op :: ('v, 'e) led_op) (sys_of adm off led) = Some s'"
    and "sy_adm s' = adm" and "sy_offered s' = off"
  shows "extends adm off l0 (sy_led s')"
  using live_exec [OF _ assms(2)] assms(1,3,4) mark_le_trans unfolding extends_def by auto

lemma extends_ops:
  assumes "extends adm off l0 led"
  shows "extends adm off l0 (Settle (outs :: err outcome list) led)" and "extends adm off l0 (SetEpoch lane e led)"
    and "extends adm off l0 (fst (Lane lane ord budget whenF led))" and "extends adm off l0 (fst (RequestRetire lane led))"
    and "extends adm off l0 (fst (Retirable led))"
  using extends_exec [OF assms, where op = "OpSettle outs :: (unit, err) led_op"]
    extends_exec [OF assms, where op = "OpSetEpoch lane e :: (unit, err) led_op"]
    extends_exec [OF assms, where op = "OpLane lane ord budget whenF :: (unit, err) led_op"]
    extends_exec [OF assms, where op = "OpRequestRetire lane :: (unit, err) led_op"]
    extends_exec [OF assms, where op = "OpRetirable :: (unit, err) led_op"]
  by (simp_all add: on_led_def)

lemma flushable_keys: "wf_amap (led_lanes led) \<Longrightarrow> distinct (map fst (snd (Flushable led)))"
proof -
  have "set (map fst (concat (map (\<lambda>(lid, st). case snd (flush_lane st) of None \<Rightarrow> [] | Some p \<Rightarrow> [(lid, p)]) m))) \<subseteq> fst ` set m"
    for m :: "(lane_id \<times> lane_state) list" by (force split: option.splits)
  then have "distinct (map fst m) \<Longrightarrow>
      distinct (map fst (concat (map (\<lambda>(lid, st). case snd (flush_lane st) of None \<Rightarrow> [] | Some p \<Rightarrow> [(lid, p)]) m)))"
    for m :: "(lane_id \<times> lane_state) list"
  proof (induction m)
    case (Cons x m)
    then show ?case by (cases x) (force split: option.splits)
  qed simp
  then show "wf_amap (led_lanes led) \<Longrightarrow> distinct (map fst (snd (Flushable led)))" by (simp add: Flushable_def wf_amap_def)
qed

lemma live_Flushable:
  assumes "live adm off led" and "Flushable led = (led', fl)"
  shows "live adm (off @ fl) led' \<and> mark_le led led' \<and> distinct (map fst fl) \<and> (\<forall>x \<in> set fl. good led' (fst x) (snd x))"
proof -
  have x: "led_exec (OpFlushable :: (unit, err) led_op) (sys_of adm off led) = Some (sys_of adm (off @ fl) led')"
    using assms(2) by (simp add: sys_of_def)
  have "wf_amap (led_lanes led)" using assms(1) by (simp add: live_def core_inv_def led_ok_def)
  then have "distinct (map fst fl)" using flushable_keys [of led] assms(2) by simp
  then show ?thesis using live_exec [OF assms(1) x] by (auto simp: live_def pub_ok_def)
qed

lemma live_Committed:
  assumes "live adm off led" and "set fl \<subseteq> set off" and "distinct (map fst fl)"
  shows "extends adm off led (Committed fl led)"
  using live_exec [OF assms(1), of "OpCommitted fl :: (unit, err) led_op"] assms(2,3)
  by (simp add: extends_def on_led_def sys_of_def)

section \<open>Cursors that are safe to restart from\<close>

text \<open>
  \<open>from\<close> gives for each lane the positions it may start from: the zero position, what the store held
  when the run began, and what the source seeded.
\<close>

definition okc :: "(lane_id \<Rightarrow> position set) \<Rightarrow> ledger \<Rightarrow> lane_id \<Rightarrow> position \<Rightarrow> bool" where
  "okc from led lane cur \<longleftrightarrow> cur \<in> from lane \<or> good led lane cur"

definition row_ok :: "lane_codec \<Rightarrow> (lane_id \<Rightarrow> position set) \<Rightarrow> ledger \<Rightarrow> store_key \<Rightarrow> bytes \<Rightarrow> bool" where
  "row_ok c from led k bs \<longleftrightarrow> (\<exists>rec. lk_marshal c rec = Inr bs \<and> okc from led (last (key_Parts k)) (lx_Cursor rec))"

definition LanePrefix :: "tenant_id \<Rightarrow> pipeline_id \<Rightarrow> store_key" where
  "LanePrefix t p = \<lparr>key_Tenant = t, key_Space = SpaceLane, key_Parts = [p]\<rparr>"

definition rows_ok :: "lane_codec \<Rightarrow> store_key \<Rightarrow> (lane_id \<Rightarrow> position set) \<Rightarrow> ledger \<Rightarrow> view \<Rightarrow> bool" where
  "rows_ok c pre from led V \<longleftrightarrow> (\<forall>k bs ver. key_Prefix k pre \<and> fst V (key_String k) = Some (bs, ver) \<longrightarrow> row_ok c from led k bs)"

definition batch_ok :: "lane_codec \<Rightarrow> store_key \<Rightarrow> (lane_id \<Rightarrow> position set) \<Rightarrow> ledger \<Rightarrow> sbatch \<Rightarrow> bool" where
  "batch_ok c pre from led b \<longleftrightarrow>
     (\<forall>k v. (key_String k, v) \<in> set (sb_Writes b) \<and> key_Prefix k pre \<longrightarrow> row_ok c from led k (content (v_Value v)))"

definition ctl_ok :: "store_key \<Rightarrow> (lane_id \<Rightarrow> position set) \<Rightarrow> ledger \<Rightarrow> lane_ctl \<Rightarrow> bool" where
  "ctl_ok pre from led l \<longleftrightarrow> lane_prefix l = pre \<and> (\<forall>(lane, rec) \<in> set (lc_lanes l). okc from led lane (lx_Cursor rec))"

lemma okc_mono: "okc from led lane cur \<Longrightarrow> mark_le led led' \<Longrightarrow> okc from led' lane cur"
  unfolding okc_def using good_mono by blast

lemma row_ok_mono: "row_ok c from led k bs \<Longrightarrow> mark_le led led' \<Longrightarrow> row_ok c from led' k bs"
  unfolding row_ok_def using okc_mono by blast

lemma rows_ok_mono: "rows_ok c pre from led V \<Longrightarrow> mark_le led led' \<Longrightarrow> rows_ok c pre from led' V"
  unfolding rows_ok_def using row_ok_mono by blast

lemma ctl_ok_mono: "ctl_ok pre from led l \<Longrightarrow> mark_le led led' \<Longrightarrow> ctl_ok pre from led' l"
  unfolding ctl_ok_def using okc_mono by blast

lemma lc_key_facts:
  "key_Parts (lc_key l lane) = [sf_pipeline (lc_fields l), lane]"
  "key_Prefix (lc_key l lane) (lane_prefix l)"
  by (simp_all add: lc_key_def LaneKey_def lane_prefix_def key_Prefix_iff)

lemma batch_ok_New [simp]: "batch_ok c pre from led (NewSBatch e)"
  by (simp add: batch_ok_def NewSBatch_def)

lemma batch_ok_write:
  assumes "batch_ok c pre from led b" and "row_ok c from led k bs"
    and "sb_Writes b' = aput (key_String k) v (sb_Writes b)" and "v_Value v = Some bs"
  shows "batch_ok c pre from led b'"
  unfolding batch_ok_def
proof (intro allI impI, elim conjE)
  fix j u assume "(key_String j, u) \<in> set (sb_Writes b')" and p: "key_Prefix j pre"
  then consider "(key_String j, u) = (key_String k, v)" | "(key_String j, u) \<in> set (sb_Writes b)"
    using set_aput_subset [of "key_String k" v "sb_Writes b"] assms(3) by auto
  then show "row_ok c from led j (content (v_Value u))"
    using assms(1,2,4) p by cases (auto simp: batch_ok_def content_def)
qed

lemma batch_ok_lane:
  assumes "batch_ok c pre from led b" and "lk_marshal c rec = Inr bs" and "okc from led lane (lx_Cursor rec)"
  shows "batch_ok c pre from led (PutFenced (lc_key l lane) (Some bs) i e b)" and "batch_ok c pre from led (Put (lc_key l lane) (Some bs) i b)"
proof -
  have r: "row_ok c from led (lc_key l lane) bs" using assms(2,3) by (auto simp: row_ok_def lc_key_facts)
  show "batch_ok c pre from led (PutFenced (lc_key l lane) (Some bs) i e b)"
    using batch_ok_write [OF assms(1) r, of _ "\<lparr>v_Key = lc_key l lane, v_Value = Some bs, v_IfVersion = i, v_Version = 0, v_Epoch = e\<rparr>"]
    by (simp add: PutFenced_def)
  show "batch_ok c pre from led (Put (lc_key l lane) (Some bs) i b)"
    using batch_ok_write [OF assms(1) r, of _ "\<lparr>v_Key = lc_key l lane, v_Value = Some bs, v_IfVersion = i, v_Version = 0, v_Epoch = 0\<rparr>"]
    by (simp add: Put_def)
qed

lemma batch_ok_elsewhere:
  assumes "batch_ok c (LanePrefix t p) from led b" and "key_Space k \<noteq> SpaceLane"
  shows "batch_ok c (LanePrefix t p) from led (Put k v i b)"
  using assms set_aput_subset [of "key_String k" "\<lparr>v_Key = k, v_Value = v, v_IfVersion = i, v_Version = 0, v_Epoch = 0\<rparr>" "sb_Writes b"]
  by (fastforce simp: batch_ok_def Put_def LanePrefix_def key_Prefix_iff)

lemma batch_ok_delete: "batch_ok c pre from led b \<Longrightarrow> batch_ok c pre from led (DelFenced k e b)"
  by (simp add: batch_ok_def DelFenced_def)

lemma ctl_ok_put:
  assumes "ctl_ok pre from led l" and "okc from led lane (lx_Cursor rec)" and "lc_fields l' = lc_fields l"
    and "lc_lanes l' = aput lane rec (lc_lanes l)"
  shows "ctl_ok pre from led l'"
  using assms set_aput_subset [of lane rec "lc_lanes l"] by (auto simp: ctl_ok_def lane_prefix_def)

lemma ctl_ok_same: "ctl_ok pre from led l \<Longrightarrow> lc_fields l' = lc_fields l \<Longrightarrow> set (lc_lanes l') \<subseteq> set (lc_lanes l) \<Longrightarrow> ctl_ok pre from led l'"
  by (auto simp: ctl_ok_def lane_prefix_def)

lemma ctl_okD: "ctl_ok pre from led l \<Longrightarrow> map_of (lc_lanes l) lane = Some rec \<Longrightarrow> okc from led lane (lx_Cursor rec)"
  by (auto simp: ctl_ok_def dest: map_of_SomeD)

section \<open>The lane tables\<close>

lemma stage_ok:
  assumes "ctl_ok pre from led l" and "batch_ok c pre from led b" and "stage_rows c lt now l ps b staged = (b', Inr staged')"
    and "\<forall>(lane, pos) \<in> set ps. okc from led lane pos" and "\<forall>(lane, pos) \<in> set staged. okc from led lane pos"
  shows "batch_ok c pre from led b' \<and> (\<forall>(lane, pos) \<in> set staged'. okc from led lane pos)"
  using assms(2-5)
proof (induction ps arbitrary: b staged)
  case (Cons x ps)
  obtain lane pos where x: "x = (lane, pos)" by (cases x)
  obtain e ok where f: "fenceFor lane now lt = (e, ok)" by fastforce
  show ?case
  proof (cases "map_of (lc_lanes l) lane")
    case (Some rec)
    show ?thesis
    proof (cases ok)
      case True
      obtain body where m: "lk_marshal c (rec\<lparr>lx_Cursor := pos, lx_CursorEpoch := e\<rparr>) = Inr body"
        using Cons.prems(2) Some True f by (auto simp: x split: sum.splits)
      have p: "okc from led lane pos" using Cons.prems(3) by (simp add: x)
      have "batch_ok c pre from led (PutFenced (lc_key l lane) (Some body) (versionOf lane l) e b)"
        using batch_ok_lane(1) [OF Cons.prems(1) m] p by simp
      moreover have "\<forall>(k, p) \<in> set (aput lane pos staged). okc from led k p"
        using p Cons.prems(4) set_aput_subset [of lane pos staged] by auto
      moreover have "\<forall>(k, p) \<in> set ps. okc from led k p" using Cons.prems(3) by simp
      ultimately show ?thesis using Cons.IH Cons.prems(2) Some True f m by (simp add: x)
    qed (use Cons Some f in \<open>simp add: x\<close>)
  qed (use Cons in \<open>simp add: x\<close>)
qed simp

lemma landed_ok:
  assumes "ctl_ok pre from led l" and "\<forall>(lane, pos) \<in> set staged. okc from led lane pos"
  shows "ctl_ok pre from led (stage_landed staged l)"
  unfolding stage_landed_def using assms
proof (induction staged arbitrary: l)
  case (Cons x staged)
  have "ctl_ok pre from led (land_one x l)"
    using Cons.prems by (cases x) (auto simp: ctl_ok_def land_one_def bump_version_def lane_prefix_def amap_def)
  then show ?case using Cons by simp
qed simp

text \<open>
  What is relied on of \<^verbatim>\<open>json.Marshal\<close> and \<^verbatim>\<open>json.Unmarshal\<close>: a lane record reads back as it was written. This asks more
  than \<^verbatim>\<open>encoding/json\<close> gives for every record: a string that is not UTF-8 and an empty slice under
  \<^verbatim>\<open>omitempty\<close> come back changed. What the proofs use of it is the cursor.
\<close>

definition codec_ok :: "lane_codec \<Rightarrow> bool" where
  "codec_ok c \<longleftrightarrow> (\<forall>rec bs. lk_marshal c rec = Inr bs \<longrightarrow> lk_unmarshal c bs = Inr rec)"

lemma load_rows_ok:
  assumes "codec_ok c" and "ctl_ok pre from led l" and "load_rows c rws l = (l', e)"
    and "\<forall>(k, v) \<in> set rws. row_ok c from led k (content (v_Value v))"
  shows "ctl_ok pre from led l'"
  using assms(2-4)
proof (induction rws arbitrary: l)
  case (Cons x rws)
  obtain k v where x: "x = (k, v)" by (cases x)
  show ?case
  proof (cases "lk_unmarshal c (content (v_Value v))")
    case (Inr rec)
    let ?lane = "last (key_Parts k)"
    let ?l = "l\<lparr>lc_lanes := aput ?lane rec (lc_lanes l), lc_versions := aput ?lane (v_Version v) (lc_versions l), lc_order := lc_order l @ [?lane]\<rparr>"
    obtain rec' where "lk_marshal c rec' = Inr (content (v_Value v))" "okc from led ?lane (lx_Cursor rec')"
      using Cons.prems(3) by (auto simp: x row_ok_def)
    then have "okc from led ?lane (lx_Cursor rec)" using assms(1) Inr by (auto simp: codec_ok_def)
    then have "ctl_ok pre from led ?l" by (rule ctl_ok_put [OF Cons.prems(1)]) simp_all
    then show ?thesis using Cons.IH [of ?l] Cons.prems(2,3) Inr by (simp add: x Let_def)
  qed (use Cons.prems in \<open>simp add: x\<close>)
qed simp

lemma announce_ok:
  assumes "\<And>lane. zero_position \<in> from lane" and "batch_ok c pre from led b"
    and "\<forall>(lane, r) \<in> set acc. \<forall>rec. r = Some rec \<longrightarrow> lx_Cursor rec = zero_position"
    and "announce_specs c l ss acc b = Inr (fresh, b')"
  shows "batch_ok c pre from led b' \<and> (\<forall>(lane, r) \<in> set fresh. \<forall>rec. r = Some rec \<longrightarrow> lx_Cursor rec = zero_position)"
  using assms(2-4)
proof (induction ss arbitrary: acc b)
  case (Cons s ss)
  define lane where "lane = DeriveLaneID (sf_tenant (lc_fields l)) (sf_pipeline (lc_fields l)) (lc_node l) (sp_Name s)"
  have n: "sp_Name s \<noteq> []" using Cons.prems(3) by auto
  show ?case
  proof (cases "lc_has lane l")
    case True
    then show ?thesis
      using Cons.IH [OF Cons.prems(1), of "acc @ [(lane, None)]"] Cons.prems(2,3) n by (simp add: lane_def [symmetric] Let_def)
  next
    case False
    obtain body where m: "lk_marshal c (new_record s) = Inr body"
      using Cons.prems(3) n False by (auto simp: lane_def [symmetric] Let_def split: sum.splits)
    have "lx_Cursor (new_record s) = zero_position" by (simp add: new_record_def)
    moreover from this have "batch_ok c pre from led (Put (lc_key l lane) (Some body) 0 b)"
      using batch_ok_lane(2) [OF Cons.prems(1) m] assms(1) by (simp add: okc_def)
    ultimately show ?thesis
      using Cons.IH [of "Put (lc_key l lane) (Some body) 0 b" "acc @ [(lane, Some (new_record s))]"] Cons.prems(2,3) n False m
      by (simp add: lane_def [symmetric] Let_def)
  qed
qed simp

lemma add_fresh_ok:
  assumes "\<And>lane. zero_position \<in> from lane" and "ctl_ok pre from led l"
    and "\<forall>(lane, r) \<in> set fresh. \<forall>rec. r = Some rec \<longrightarrow> lx_Cursor rec = zero_position"
  shows "ctl_ok pre from led (fold add_fresh fresh l)"
  using assms(2,3)
proof (induction fresh arbitrary: l)
  case (Cons x fresh)
  obtain lane r where x: "x = (lane, r)" by (cases x)
  have "ctl_ok pre from led (add_fresh x l)"
  proof (cases r)
    case (Some rec)
    then have "okc from led lane (lx_Cursor rec)" using Cons.prems(2) assms(1) by (simp add: x okc_def)
    then show ?thesis by (rule ctl_ok_put [OF Cons.prems(1)]) (simp_all add: x Some add_fresh_def)
  qed (use Cons.prems in \<open>simp add: x add_fresh_def\<close>)
  then show ?case using Cons by simp
qed simp

lemma register_extends:
  "extends adm off l0 led \<Longrightarrow> register_all whenF lt l xs led = (led', e) \<Longrightarrow> extends adm off l0 led'"
proof (induction xs arbitrary: led)
  case (Cons x xs)
  obtain lane s where x: "x = (lane, s)" by (cases x)
  obtain led1 e1 where r: "Lane lane (sp_Ordering s) (lane_budget l s) whenF led = (led1, e1)" by fastforce
  have "extends adm off l0 led1" using extends_ops(3) [OF Cons.prems(1)] r by (metis fst_conv)
  moreover from this have "extends adm off l0 (SetEpoch lane (epochFor lane lt) led1)" by (rule extends_ops(2))
  ultimately show ?case using Cons r by (auto simp: x ledgerFor_def split: option.splits)
qed simp

section \<open>The store\<close>

text \<open>
  A store watched for whether every batch handed to it so far was one its contract covers. Watching
  changes no answer of the store.
\<close>

definition watched :: "(sbatch \<Rightarrow> 's \<Rightarrow> bool) \<Rightarrow> 's state_ops \<Rightarrow> ('s \<times> bool) state_ops" where
  "watched fits ops = \<lparr>so_Get = (\<lambda>ks z. so_Get ops ks (fst z)), so_Range = (\<lambda>p z. so_Range ops p (fst z)),
     so_Set = (\<lambda>b z. case so_Set ops b (fst z) of (s, e) \<Rightarrow> ((s, snd z \<and> fits b (fst z)), e))\<rparr>"

definition store_ok :: "('s \<Rightarrow> view) \<Rightarrow> ('s \<Rightarrow> bool) \<Rightarrow> lane_codec \<Rightarrow> store_key \<Rightarrow> (lane_id \<Rightarrow> position set) \<Rightarrow> ledger \<Rightarrow> 's \<times> bool \<Rightarrow> bool" where
  "store_ok view invar c pre from led z \<longleftrightarrow> (snd z \<longrightarrow> invar (fst z) \<and> rows_ok c pre from led (view (fst z)))"

lemma store_ok_mono: "store_ok view invar c pre from led z \<Longrightarrow> mark_le led led' \<Longrightarrow> store_ok view invar c pre from led' z"
  unfolding store_ok_def using rows_ok_mono by blast

lemma fold_put_rows:
  "fst (fold (put_view b) ws V) n = Some (bs, ver) \<Longrightarrow> (\<exists>ver. fst V n = Some (bs, ver)) \<or> (\<exists>v. (n, v) \<in> set ws \<and> bs = content (v_Value v))"
proof (induction ws arbitrary: V)
  case (Cons w ws)
  obtain m v where w: "w = (m, v)" by (cases w)
  have "fst (fold (put_view b) ws (put_view b w V)) n = Some (bs, ver)" using Cons.prems by simp
  then consider ver' where "fst (put_view b w V) n = Some (bs, ver')" | v' where "(n, v') \<in> set ws" "bs = content (v_Value v')"
    using Cons.IH by blast
  then show ?case by cases (auto simp: w put_view_def split: if_splits)
qed simp

lemma fold_del_rows: "fst (fold (del_view b) ds V) n = Some r \<Longrightarrow> fst V n = Some r"
proof (induction ds arbitrary: V)
  case (Cons d ds)
  have "fst (del_view b d V) n = Some r" using Cons by simp
  then show ?case by (auto simp: del_view_def Let_def split: if_splits)
qed simp

lemma rows_ok_commit:
  assumes "rows_ok c pre from led V" and "batch_ok c pre from led b"
  shows "rows_ok c pre from led (commit_view b V)"
  unfolding rows_ok_def
proof (intro allI impI, elim conjE)
  fix k bs ver assume k: "key_Prefix k pre" "fst (commit_view b V) (key_String k) = Some (bs, ver)"
  have "fst (fold (put_view b) (sb_Writes b) V) (key_String k) = Some (bs, ver)"
    using fold_del_rows [of b "sb_Deletes b" "fold (put_view b) (sb_Writes b) V" "key_String k" "(bs, ver)"] k(2) by (simp add: commit_view_def)
  from fold_put_rows [OF this] show "row_ok c from led k bs"
    using assms k(1) unfolding rows_ok_def batch_ok_def by blast
qed

text \<open>
  What the lane tables rely on: a state store, and a range scan that shows rows of the prefix with the
  value and version the store holds.
\<close>

locale lane_store = state_store view "so_Set ops" invar fits
  for view :: "'s \<Rightarrow> view" and ops :: "'s state_ops" and invar :: "'s \<Rightarrow> bool" and fits :: "sbatch \<Rightarrow> 's \<Rightarrow> bool" +
  assumes range_shows: "invar s \<Longrightarrow> so_Range ops p s = Inr rws \<Longrightarrow> (k, v) \<in> set rws \<Longrightarrow>
    key_Prefix k p \<and> fst (view s) (key_String k) = Some (content (v_Value v), v_Version v)"
begin

abbreviation sok where "sok \<equiv> store_ok view invar"

lemma set_ok:
  assumes "sok c pre from led z" and "batch_ok c pre from led b" and "so_Set (watched fits ops) b z = (z', e)"
  shows "sok c pre from led z'"
  unfolding store_ok_def
proof
  assume f: "snd z'"
  obtain s s' where z: "z = (s, True)" "fits b s" "so_Set ops b s = (s', e)" "z' = (s', True)"
    using assms(3) f by (cases z) (auto simp: watched_def split: prod.splits)
  have i: "invar s" "rows_ok c pre from led (view s)" using assms(1) z by (simp_all add: store_ok_def)
  have "view s' = (if allowed b (view s) then commit_view b (view s) else view s)" using view_set [OF i(1) z(2)] z(3) by simp
  moreover have "invar s'" using set_invar [OF i(1) z(2)] z(3) by simp
  ultimately show "invar (fst z') \<and> rows_ok c pre from led (view (fst z'))"
    using rows_ok_commit [OF i(2) assms(2)] i(2) z(4) by simp
qed

lemma mutate_ok:
  assumes "ctl_ok pre from led l" and "sok c pre from led z"
    and f: "\<And>rec upd. f rec = Inr upd \<Longrightarrow> okc from led lane (lx_Cursor rec) \<Longrightarrow> okc from led lane (lx_Cursor upd)"
    and "lc_mutate c (watched fits ops) lt now lane f (l, z) = ((l', z'), e)"
  shows "ctl_ok pre from led l' \<and> sok c pre from led z'"
proof (cases "map_of (lc_lanes l) lane")
  case (Some rec)
  obtain ep mine where fe: "fenceFor lane now lt = (ep, mine)" by fastforce
  consider "l' = l" "z' = z" | upd bs where "f rec = Inr upd" "lk_marshal c upd = Inr bs" "mine"
    using assms(4) Some fe by (cases "f rec"; cases mine) (auto simp: lc_mutate_def split: sum.splits)
  then show ?thesis
  proof cases
    case 2
    have u: "okc from led lane (lx_Cursor upd)" by (rule f [OF 2(1) ctl_okD [OF assms(1) Some]])
    define b where "b = PutFenced (lc_key l lane) (Some bs) (versionOf lane l) ep (NewSBatch singleWorkerEpoch)"
    obtain y ey where s: "so_Set (watched fits ops) b z = (y, ey)" by fastforce
    have "batch_ok c pre from led b" unfolding b_def using batch_ok_lane(1) [OF batch_ok_New 2(2) u] .
    then have y: "sok c pre from led y" by (rule set_ok [OF assms(2) _ s])
    have "ctl_ok pre from led (bump_version lane (l\<lparr>lc_lanes := aput lane upd (lc_lanes l)\<rparr>))"
      by (rule ctl_ok_put [OF assms(1) u]) (simp_all add: bump_version_def)
    then show ?thesis
      using assms(1,4) y Some fe 2 s by (auto simp: lc_mutate_def b_def [symmetric] split: option.splits)
  qed (use assms in simp)
qed (use assms in \<open>simp add: lc_mutate_def\<close>)

lemma Seed_ok:
  assumes "ctl_ok pre from led l" and "sok c pre from led z" and "cur \<in> from lane"
    and "Seed c (watched fits ops) lt now lane cur (l, z) = ((l', z'), e)"
  shows "ctl_ok pre from led l' \<and> sok c pre from led z'"
  using assms(3,4) unfolding Seed_def
  by (intro mutate_ok [OF assms(1,2)]) (auto simp: seed_record_def okc_def split: if_splits)

lemma retire_ok:
  assumes "ctl_ok pre from led l" and "sok c pre from led z" and "retire c (watched fits ops) lt now lane (l, z) = ((l', z'), e)"
  shows "ctl_ok pre from led l' \<and> sok c pre from led z'"
proof -
  obtain l1 z1 e1 where m: "lc_mutate c (watched fits ops) lt now lane (retire_record now) (l, z) = ((l1, z1), e1)" by (metis surj_pair)
  have "ctl_ok pre from led l1 \<and> sok c pre from led z1"
    by (rule mutate_ok [OF assms(1,2) _ m]) (auto simp: retire_record_def)
  then show ?thesis
    using assms(3) m by (auto simp: retire_def unpend_def lc_notify_def split: option.splits if_splits elim: ctl_ok_same)
qed

lemma Forget_ok:
  assumes "ctl_ok pre from led l" and "sok c pre from led z" and "Forget (watched fits ops) lt now lane (l, z) = ((l', z'), e)"
  shows "ctl_ok pre from led l' \<and> sok c pre from led z'"
proof -
  obtain ep mine where fe: "fenceFor lane now lt = (ep, mine)" by fastforce
  define b where "b = DelFenced (lc_key l lane) ep (NewSBatch singleWorkerEpoch)"
  obtain y ey where s: "so_Set (watched fits ops) b z = (y, ey)" by fastforce
  have y: "sok c pre from led y" by (rule set_ok [OF assms(2) _ s]) (simp add: b_def batch_ok_delete)
  have d: "ctl_ok pre from led (lc_notify (l\<lparr>lc_lanes := adel lane (lc_lanes l), lc_order := remove1 lane (lc_order l)\<rparr>))"
    by (rule ctl_ok_same [OF assms(1)]) (auto simp: lc_notify_def AList.delete_eq)
  show ?thesis
    using assms y d fe s by (cases mine) (auto simp: Forget_def b_def [symmetric] split: option.splits if_splits)
qed

lemma load_ok:
  assumes "codec_ok c" and "ctl_ok pre from led l" and "sok c pre from led z" and "live adm off led"
    and "snd z" and "lc_load c (watched fits ops) whenF lt (l, led, z) = ((l', led', z'), e)"
  shows "z' = z \<and> extends adm off led led' \<and> ctl_ok pre from led' l'"
proof (cases "so_Range ops (lane_prefix l) (fst z)")
  case (Inl x)
  then show ?thesis using assms extends_refl by (auto simp: lc_load_def watched_def)
next
  case (Inr rws)
  have p: "lane_prefix l = pre" using assms(2) by (simp add: ctl_ok_def)
  have "row_ok c from led k (content (v_Value v))" if "(k, v) \<in> set rws" for k v
    using range_shows [of "fst z" pre rws k v] Inr assms(3,5) that by (auto simp: p store_ok_def rows_ok_def)
  then have r: "\<forall>(k, v) \<in> set rws. row_ok c from led k (content (v_Value v))" by blast
  obtain l1 e1 where lr: "load_rows c rws l = (l1, e1)" by fastforce
  have l1: "ctl_ok pre from led l1" by (rule load_rows_ok [OF assms(1,2) lr r])
  obtain led1 e2 where g: "register_all whenF lt l1 (lane_specs l1) led = (led1, e2)" by fastforce
  have x: "extends adm off led led1" by (rule register_extends [OF extends_refl [OF assms(4)] g])
  then have "ctl_ok pre from led1 l1" using l1 ctl_ok_mono by (auto simp: extends_def)
  then show ?thesis
    using assms(6) Inr lr g x l1 extends_refl [OF assms(4)] by (auto simp: lc_load_def watched_def split: option.splits)
qed

lemma announceMany_ok:
  assumes "\<And>lane. zero_position \<in> from lane" and "ctl_ok pre from led l" and "sok c pre from led z" and "live adm off led"
    and "announceMany c (watched fits ops) whenF lt specs (l, led, z) = ((l', led', z'), e)"
  shows "extends adm off led led' \<and> ctl_ok pre from led' l' \<and> sok c pre from led' z'"
proof (cases "announce_specs c l specs [] (NewSBatch singleWorkerEpoch)")
  case (Inl x)
  then show ?thesis using assms extends_refl by (auto simp: announceMany_def split: if_splits)
next
  case (Inr y)
  obtain fresh b where y: "y = (fresh, b)" by (cases y)
  have b: "batch_ok c pre from led b" and fr: "\<forall>(lane, r) \<in> set fresh. \<forall>rec. r = Some rec \<longrightarrow> lx_Cursor rec = zero_position"
    using announce_ok [OF assms(1) batch_ok_New _ Inr [unfolded y]] by auto
  define st where "st = (if sbatch_Len b > 0 then so_Set (watched fits ops) b z else (z, None))"
  obtain z1 e1 where st: "st = (z1, e1)" by fastforce
  have z1: "sok c pre from led z1" using st assms(3) set_ok [OF assms(3) b] by (auto simp: st_def split: if_splits)
  define l1 where "l1 = fold add_fresh fresh l"
  have l1: "ctl_ok pre from led l1" unfolding l1_def by (rule add_fresh_ok [OF assms(1,2) fr])
  obtain led1 e2 where g: "register_all whenF lt l1 (zip (map fst fresh) specs) led = (led1, e2)" by fastforce
  have x: "extends adm off led led1" by (rule register_extends [OF extends_refl [OF assms(4)] g])
  then have m: "mark_le led led1" by (simp add: extends_def)
  have n: "ctl_ok pre from led1 (lc_notify l1)" "ctl_ok pre from led1 l1"
    using ctl_ok_mono [OF l1 m] by (auto simp: lc_notify_def elim: ctl_ok_same)
  note facts = x n store_ok_mono [OF z1 m] z1 assms(2,3) extends_refl [OF assms(4)]
  show ?thesis
  proof (cases "specs = []")
    case True
    then show ?thesis using assms(5) facts by (simp add: announceMany_def)
  next
    case False
    show ?thesis
      using assms(5) facts False by (auto simp: announceMany_def Inr y st_def [symmetric] st l1_def [symmetric] g Let_def split: option.splits)
  qed
qed

lemma Finish_ok:
  assumes "ctl_ok pre from led l" and "sok c pre from led z" and "live adm off led"
    and "Finish c (watched fits ops) lt now lane (l, led, z) = ((l', led', z'), e)"
  shows "extends adm off led led' \<and> ctl_ok pre from led' l' \<and> sok c pre from led' z'"
proof -
  obtain led1 drained where r: "RequestRetire lane led = (led1, drained)" by fastforce
  have x: "extends adm off led led1" using extends_ops(4) [OF extends_refl [OF assms(3)], of lane] r by simp
  then have m: "mark_le led led1" by (simp add: extends_def)
  have l1: "ctl_ok pre from led1 l" and z1: "sok c pre from led1 z"
    using ctl_ok_mono [OF assms(1) m] store_ok_mono [OF assms(2) m] by blast+
  obtain l2 z2 e2 where t: "retire c (watched fits ops) lt now lane (l, z) = ((l2, z2), e2)" by (metis surj_pair)
  have "ctl_ok pre from led1 (lc_notify (l\<lparr>lc_finishPending := y\<rparr>))" for y
    by (rule ctl_ok_same [OF l1]) (simp_all add: lc_notify_def)
  then show ?thesis
    using assms(4) x z1 retire_ok [OF l1 z1 t] r t by (auto simp: Finish_def Let_def split: if_splits)
qed

end

end
