(* ===== verification/Canal_Pipe.thy ===== *)
theory Canal_Pipe
  imports Canal_Durable
begin

text \<open>
  A pipeline's run: the flush of \<^verbatim>\<open>flushOnce\<close> keeps the invariant of \<open>Canal_Durable\<close>, and so does every
  sequence of ledger operations, flushes, lane operations and writes of others.
\<close>

section \<open>What a flush leaves alone\<close>

abbreviation ledger_of :: "('v, 'w, 's) engine \<Rightarrow> ledger" where
  "ledger_of en \<equiv> rn_ledger (en_run en)"

definition same_durable :: "('v, 'w, 's) engine \<Rightarrow> ('v, 'w, 's) engine \<Rightarrow> bool" where
  "same_durable en en' \<longleftrightarrow> en_store en' = en_store en \<and> en_lanes en' = en_lanes en"

definition settled_from :: "ledger \<Rightarrow> ledger \<Rightarrow> bool" where
  "settled_from l l' \<longleftrightarrow> (\<exists>outss :: err outcome list list. l' = fold Settle outss l)"

lemma settled_refl [simp]: "settled_from l l"
  unfolding settled_from_def by (rule exI [of _ "[]"]) simp

lemma settled_step: "settled_from l l' \<Longrightarrow> settled_from l (Settle (outs :: err outcome list) l')"
  unfolding settled_from_def by (metis fold_append fold_simps comp_apply)

lemma settled_trans: "settled_from l l' \<Longrightarrow> settled_from l' l'' \<Longrightarrow> settled_from l l''"
  unfolding settled_from_def by (metis fold_append comp_apply)

lemma settled_extends: "settled_from led led' \<Longrightarrow> extends adm off l0 led \<Longrightarrow> extends adm off l0 led'"
proof -
  have "extends adm off l0 (fold Settle outss l)" if "extends adm off l0 l" for outss :: "err outcome list list" and l
    using that by (induction outss arbitrary: l) (simp_all add: extends_ops(1))
  then show "settled_from led led' \<Longrightarrow> extends adm off l0 led \<Longrightarrow> extends adm off l0 led'"
    unfolding settled_from_def by blast
qed

lemma ledger_runner [simp]:
  "rn_ledger (returnUnflushed n rs r) = rn_ledger r" "rn_ledger (fail e r) = rn_ledger r"
  "rn_ledger (settle outs r) = Settle outs (rn_ledger r)"
  by (simp_all add: returnUnflushed_def fail_def settle_def)

lemma flushOne_settled: "flushOne n nm fl rs reason r = (r', e) \<Longrightarrow> settled_from (rn_ledger r) (rn_ledger r')"
  by (auto simp: flushOne_def Let_def settled_step split: prod.splits sum.splits)

lemma flushSinks_settled: "settled_from (rn_ledger r) (rn_ledger (flushSinks we reason ns r))"
proof (induction ns arbitrary: r)
  case (Cons n ns)
  let ?nm = "sk_Name (we_sinks we n)"
  obtain r1 rs where t: "take_held n r = (r1, rs)" by fastforce
  have l1: "rn_ledger r1 = rn_ledger r" using t by (auto simp: take_held_def)
  show ?case
  proof (cases "sk_Flush (we_sinks we n)")
    case (Some fl)
    obtain r2 e2 where f: "flushOne n ?nm fl rs reason r1 = (r2, e2)" by fastforce
    obtain r3 e3 where s: "signalFlush n ?nm fl reason r = (r3, e3)" by fastforce
    have l2: "settled_from (rn_ledger r) (rn_ledger r2)" using flushOne_settled [OF f] l1 by simp
    have l3: "rn_ledger r3 = rn_ledger r" using s by (auto simp: signalFlush_def split: prod.splits)
    define quiet where "quiet \<longleftrightarrow> rs = [] \<and> reason = FlushCheckpoint"
    have e: "flushSinks we reason (n # ns) r =
        (if commitsDurability (we_sinks we n) then (case e3 of None \<Rightarrow> flushSinks we reason ns r3 | Some e \<Rightarrow> fail (Some e) r3)
         else if quiet then flushSinks we reason ns r1
         else (case e2 of None \<Rightarrow> flushSinks we reason ns r2 | Some e \<Rightarrow> fail (Some e) r2))"
      by (auto simp: Some t f s quiet_def Let_def split: option.splits)
    show ?thesis unfolding e using Cons [of r1] Cons [of r3] settled_trans [OF l2 Cons [of r2]] l1 l2 l3
      by (auto split: option.splits)
  qed (use Cons in simp)
qed simp

lemma prepare_frame:
  "same_durable en (fst (prepare_sinks ev point ns acc en)) \<and> ledger_of (fst (prepare_sinks ev point ns acc en)) = ledger_of en"
proof (induction ns arbitrary: acc en)
  case (Cons nid ns)
  obtain r1 covered where c: "takeCovered nid (en_run en) = (r1, covered)" by fastforce
  obtain r2 hs where t: "take_held nid r1 = (r2, hs)" by fastforce
  have l: "rn_ledger r2 = ledger_of en" using c t by (auto simp: takeCovered_def take_held_def)
  show ?case using Cons l by (auto simp: c t Let_def same_durable_def split: prod.splits sum.splits)
qed (simp add: same_durable_def)

lemma snapshot_frame:
  "same_durable en (fst (snapshot_states ev i ns ws en)) \<and> ledger_of (fst (snapshot_states ev i ns ws en)) = ledger_of en"
proof (induction ns arbitrary: ws en)
  case (Cons node ns)
  then show ?case by (auto simp: Let_def same_durable_def set_world_def on_run_def split: option.splits sum.splits prod.splits)
qed (simp add: same_durable_def)

lemma release_frame:
  "same_durable en (release_settle hi node en) \<and> settled_from (ledger_of en) (ledger_of (release_settle hi node en))"
  by (auto simp: release_settle_def Let_def same_durable_def on_run_def settled_step split: prod.splits)

lemma applyOutcomes_frame:
  "same_durable en (fst (applyOutcomes node i sent outs en)) \<and> settled_from (ledger_of en) (ledger_of (fst (applyOutcomes node i sent outs en)))"
  using release_frame [of en] by (auto simp: applyOutcomes_def same_durable_def split: sum.splits prod.splits)

lemma publish_frame:
  "same_durable en (fst (publish_nodes ev i cs ns en)) \<and> settled_from (ledger_of en) (ledger_of (fst (publish_nodes ev i cs ns en)))"
proof (induction ns arbitrary: en)
  case (Cons node ns)
  obtain w ans where s: "sandbox (sk_Name (we_sinks (ee_we ev) node)) (ct_Commit (ee_committer ev node) (by_node node cs) (rn_world (en_run en))) = (w, ans)"
    by fastforce
  have w: "same_durable en (set_world w en)" "ledger_of (set_world w en) = ledger_of en" by (simp_all add: same_durable_def set_world_def on_run_def)
  show ?case
  proof (cases ans)
    case (Inr outs)
    obtain en2 er where a: "applyOutcomes node i (by_node node cs) outs (set_world w en) = (en2, er)" by fastforce
    have "same_durable en en2 \<and> settled_from (ledger_of en) (ledger_of en2)"
      using applyOutcomes_frame [of "set_world w en" node i "by_node node cs" outs] a w by (simp add: same_durable_def)
    then show ?thesis using Cons [of en2] settled_trans [of "ledger_of en" "ledger_of en2"]
      by (auto simp: s Inr a same_durable_def split: option.splits)
  qed (use w in \<open>simp add: s\<close>)
qed (simp add: same_durable_def)

section \<open>The checkpoint write\<close>

lemma stage_nodes_ok:
  assumes "\<forall>(node, l) \<in> set ctls. ctl_ok pre from led l" and "batch_ok c pre from led b"
    and "stage_nodes c lt now ps ctls b = Inr (b', dones)" and "\<forall>(lane, pos) \<in> set ps. okc from led lane pos"
  shows "batch_ok c pre from led b' \<and> (\<forall>(node, staged) \<in> set dones. \<forall>(lane, pos) \<in> set staged. okc from led lane pos)"
  using assms(1-3)
proof (induction ctls arbitrary: b b' dones)
  case (Cons x ctls)
  obtain node l where x: "x = (node, l)" by (cases x)
  obtain b1 r where s: "lc_stage c lt now ps l b = (b1, r)" by fastforce
  obtain staged rest where r: "r = Inr staged" "stage_nodes c lt now ps ctls b1 = Inr (b', rest)" "dones = (node, staged) # rest"
    using Cons.prems(3) s by (auto simp: x split: sum.splits prod.splits)
  have "batch_ok c pre from led b1 \<and> (\<forall>(lane, pos) \<in> set staged. okc from led lane pos)"
    using stage_ok [of pre "from" led l c b lt now ps "[]" b1 staged] Cons.prems(1,2) assms(4) s r(1) by (simp add: x lc_stage_def)
  then show ?case using Cons.IH [of b1 b' rest] Cons.prems(1) r by auto
qed simp

definition eng_safe :: "('s \<Rightarrow> view) \<Rightarrow> ('s \<Rightarrow> bool) \<Rightarrow> lane_codec \<Rightarrow> store_key \<Rightarrow> (lane_id \<Rightarrow> position set) \<Rightarrow>
    (lane_id \<times> frame) list \<Rightarrow> (lane_id \<times> position) list \<Rightarrow> ('v, 'w, 's \<times> bool) engine \<Rightarrow> bool" where
  "eng_safe view invar c pre from adm off en \<longleftrightarrow> live adm off (ledger_of en) \<and> store_ok view invar c pre from (ledger_of en) (en_store en) \<and>
     (\<forall>(node, l) \<in> set (en_lanes en). ctl_ok pre from (ledger_of en) l)"

lemma eng_safe_move:
  assumes "eng_safe view invar c pre from adm off en" and "extends adm off' (ledger_of en) (ledger_of en')" and "same_durable en en'"
  shows "eng_safe view invar c pre from adm off' en'"
proof -
  have m: "mark_le (ledger_of en) (ledger_of en')" "live adm off' (ledger_of en')" using assms(2) by (simp_all add: extends_def)
  have "ctl_ok pre from (ledger_of en') l" if "(node, l) \<in> set (en_lanes en)" for node l
    using assms(1) that ctl_ok_mono [OF _ m(1)] unfolding eng_safe_def by blast
  moreover have "store_ok view invar c pre from (ledger_of en') (en_store en)"
    using assms(1) by (intro store_ok_mono [OF _ m(1)]) (simp add: eng_safe_def)
  ultimately show ?thesis using assms(3) m(2) unfolding eng_safe_def same_durable_def by auto
qed

lemma eng_safe_settled:
  assumes "eng_safe view invar c pre from adm off en" and "settled_from (ledger_of en) (ledger_of en')" and "same_durable en en'"
  shows "eng_safe view invar c pre from adm off en'"
proof -
  have "extends adm off (ledger_of en) (ledger_of en)" using assms(1) by (simp add: eng_safe_def extends_refl)
  then show ?thesis using eng_safe_move [OF assms(1) _ assms(3)] settled_extends [OF assms(2)] by blast
qed

lemma eng_safe_fail [simp]: "eng_safe view invar c pre from adm off (on_run (fail e) en) = eng_safe view invar c pre from adm off en"
  by (simp add: eng_safe_def on_run_def)

context lane_store
begin

lemma persist_safe:
  assumes "eng_safe view invar (ee_codec ev) (LanePrefix (ee_tenant ev) (ee_pipeline ev)) from adm off en"
    and "ee_ops ev = watched fits ops" and "persistCheckpoint ev lt now cp ps en = (en', er)"
    and "\<forall>(lane, pos) \<in> set ps. okc from (ledger_of en) lane pos"
  shows "eng_safe view invar (ee_codec ev) (LanePrefix (ee_tenant ev) (ee_pipeline ev)) from adm off en'"
proof (cases "stage_nodes (ee_codec ev) lt now ps (sort_key fst (en_lanes en)) (NewSBatch singleWorkerEpoch)")
  case (Inl e)
  then show ?thesis using assms by (simp add: persistCheckpoint_def)
next
  case (Inr y)
  let ?c = "ee_codec ev" and ?P = "LanePrefix (ee_tenant ev) (ee_pipeline ev)"
  obtain b dones where y: "y = (b, dones)" by (cases y)
  have en: "store_ok view invar ?c ?P from (ledger_of en) (en_store en)" "\<forall>(node, l) \<in> set (en_lanes en). ctl_ok ?P from (ledger_of en) l"
    using assms(1) by (simp_all add: eng_safe_def)
  have st: "batch_ok ?c ?P from (ledger_of en) b" "\<forall>(node, staged) \<in> set dones. \<forall>(lane, pos) \<in> set staged. okc from (ledger_of en) lane pos"
    using stage_nodes_ok [OF _ batch_ok_New Inr [unfolded y] assms(4)] en(2) by simp_all
  show ?thesis
  proof (cases "pk_marshal (ee_cpCodec ev) cp")
    case (Inr body)
    define b' where "b' = Put (CheckpointKey (ee_tenant ev) (ee_pipeline ev)) (Some body) (en_ckVersion en) b"
    obtain z e where z: "so_Set (watched fits ops) b' (en_store en) = (z, e)" by fastforce
    have "batch_ok ?c ?P from (ledger_of en) b'"
      unfolding b'_def by (rule batch_ok_elsewhere [OF st(1)]) (simp add: CheckpointKey_def SpaceCheckpoint_def SpaceLane_def)
    then have zok: "store_ok view invar ?c ?P from (ledger_of en) z" by (rule set_ok [OF en(1) _ z])
    have "ctl_ok ?P from (ledger_of en) l" if mem: "(node, l) \<in> set (land_nodes dones (en_lanes en))" for node l
    proof -
      obtain l0 where l0: "(node, l0) \<in> set (en_lanes en)" "l = (case map_of dones node of None \<Rightarrow> l0 | Some staged \<Rightarrow> stage_landed staged l0)"
        using mem by (auto simp: land_nodes_def amap_def)
      have "ctl_ok ?P from (ledger_of en) l0" using en(2) l0(1) by blast
      then show ?thesis using l0(2) landed_ok [of ?P "from" "ledger_of en" l0] st(2) by (fastforce split: option.splits dest: map_of_SomeD)
    qed
    then show ?thesis
      using assms(1,3) zok z Inr y \<open>stage_nodes _ _ _ _ _ _ = Inr y\<close>
      by (auto simp: persistCheckpoint_def assms(2) b'_def [symmetric] eng_safe_def split: option.splits)
  qed (use assms Inr y in \<open>simp add: persistCheckpoint_def\<close>)
qed

lemma retire_lanes_safe:
  assumes "eng_safe view invar (ee_codec ev) pre from adm off en" and "ee_ops ev = watched fits ops"
  shows "eng_safe view invar (ee_codec ev) pre from adm off (retire_lanes ev lt now ls en)"
  using assms(1)
proof (induction ls arbitrary: en)
  case (Cons lane ls)
  show ?case
  proof (cases "laneCtlOwning lane (en_lanes en)")
    case (Some x)
    obtain node l where x: "x = (node, l)" by (cases x)
    have m: "(node, l) \<in> set (en_lanes en)" using Some by (auto simp: laneCtlOwning_def x find_Some_iff) (metis nth_mem)
    obtain l1 z1 er where r: "retire (ee_codec ev) (watched fits ops) lt now lane (l, en_store en) = ((l1, z1), er)" by (metis surj_pair)
    have "ctl_ok pre from (ledger_of en) l1 \<and> store_ok view invar (ee_codec ev) pre from (ledger_of en) z1"
      using retire_ok [OF _ _ r] Cons.prems m by (auto simp: eng_safe_def)
    then have "eng_safe view invar (ee_codec ev) pre from adm off (en\<lparr>en_lanes := aput node l1 (en_lanes en), en_store := z1\<rparr>)"
      using Cons.prems set_aput_subset [of node l1 "en_lanes en"] by (auto simp: eng_safe_def)
    then show ?thesis using Cons.IH by (auto simp: Some x assms(2) r Let_def split: option.splits)
  qed (use Cons in simp)
qed simp

lemma retireLanes_safe:
  assumes "eng_safe view invar (ee_codec ev) pre from adm off en" and "ee_ops ev = watched fits ops"
  shows "eng_safe view invar (ee_codec ev) pre from adm off (retireLanes ev lt now en)"
proof -
  obtain led ls where r: "Retirable (ledger_of en) = (led, ls)" by fastforce
  have "extends adm off (ledger_of en) led"
    using extends_ops(5) [OF extends_refl, of adm off "ledger_of en"] assms(1) r by (simp add: eng_safe_def)
  then have "eng_safe view invar (ee_codec ev) pre from adm off (on_run (\<lambda>r. r\<lparr>rn_ledger := led\<rparr>) en)"
    by (intro eng_safe_move [OF assms(1)]) (simp_all add: on_run_def same_durable_def)
  then show ?thesis using retire_lanes_safe [OF _ assms(2)] by (simp add: retireLanes_def r)
qed

lemma flush_write_safe:
  assumes "eng_safe view invar (ee_codec ev) (LanePrefix (ee_tenant ev) (ee_pipeline ev)) from adm off en"
    and "ee_ops ev = watched fits ops" and "set ps \<subseteq> set off" and "distinct (map fst ps)"
    and "\<forall>(lane, pos) \<in> set ps. okc from (ledger_of en) lane pos"
  shows "eng_safe view invar (ee_codec ev) (LanePrefix (ee_tenant ev) (ee_pipeline ev)) from adm off (flush_write ev lt now i ps en)"
proof -
  let ?safe = "eng_safe view invar (ee_codec ev) (LanePrefix (ee_tenant ev) (ee_pipeline ev)) from adm off"
  obtain en1 bc where b: "buildCheckpoint ev i now en = (en1, bc)" by fastforce
  have f1: "same_durable en en1" "ledger_of en1 = ledger_of en"
    using b snapshot_frame [of en ev i "we_mainSinks (ee_we ev)" "[]"] by (auto simp: buildCheckpoint_def split: sum.splits prod.splits)
  have 1: "?safe en1" using f1 by (intro eng_safe_settled [OF assms(1)]) simp_all
  show ?thesis
  proof (cases bc)
    case (Inr cp)
    obtain en2 er where p: "persistCheckpoint ev lt now (fillLaneStates (en_lanes en1) ps cp) ps en1 = (en2, er)" by fastforce
    have 2: "?safe en2" using persist_safe [OF 1 assms(2) p] assms(5) f1(2) by simp
    obtain en3 er3 where o: "(if offerable (en_ck en2) = [] then (en2, None) else publish ev i (offerable (en_ck en2)) en2) = (en3, er3)"
      by fastforce
    have f3: "same_durable en2 en3" "settled_from (ledger_of en2) (ledger_of en3)"
      using o publish_frame [of en2 ev i "offerable (en_ck en2)" "nodes_of (offerable (en_ck en2))"]
      by (auto simp: publish_def same_durable_def split: if_splits)
    have 3: "?safe en3" by (rule eng_safe_settled [OF 2 f3(2,1)])
    have l3: "live adm off (ledger_of en3)" using 3 by (simp add: eng_safe_def)
    have "?safe (commit_positions ps en3)"
    proof (cases "ps = []")
      case False
      then show ?thesis
        using live_Committed [OF l3 assms(3,4)] by (intro eng_safe_move [OF 3]) (simp_all add: commit_positions_def on_run_def same_durable_def)
    qed (use 3 in \<open>simp add: commit_positions_def\<close>)
    then have "?safe (retireLanes ev lt now (commit_positions ps en3))" by (rule retireLanes_safe [OF _ assms(2)])
    then show ?thesis using 2 3 by (simp add: flush_write_def b Inr p o Let_def split: option.splits)
  qed (use 1 in \<open>simp add: flush_write_def b\<close>)
qed

lemma flush_prepared_safe:
  assumes "eng_safe view invar (ee_codec ev) (LanePrefix (ee_tenant ev) (ee_pipeline ev)) from adm off en" and "ee_ops ev = watched fits ops"
  shows "\<exists>off'. eng_safe view invar (ee_codec ev) (LanePrefix (ee_tenant ev) (ee_pipeline ev)) from adm off' (flush_prepared ev lt now i minted en)"
proof -
  obtain led fl where f: "Flushable (ledger_of en) = (led, fl)" by fastforce
  define en3 where "en3 = on_run (\<lambda>r. r\<lparr>rn_ledger := led\<rparr>) (en\<lparr>en_ck := ck_stage i minted (en_ck en)\<rparr>)"
  have l: "live adm (off @ fl) led" "mark_le (ledger_of en) led" "distinct (map fst fl)" "\<forall>x \<in> set fl. good led (fst x) (snd x)"
    using live_Flushable [OF _ f, of adm off] assms(1) by (simp_all add: eng_safe_def)
  have e3: "ledger_of en3 = led" "same_durable en en3" by (simp_all add: en3_def on_run_def same_durable_def)
  have 3: "eng_safe view invar (ee_codec ev) (LanePrefix (ee_tenant ev) (ee_pipeline ev)) from adm (off @ fl) en3"
    using l(1,2) e3 by (intro eng_safe_move [OF assms(1)]) (simp_all add: extends_def)
  have "flush_prepared ev lt now i minted en = (if fl = [] \<and> minted = [] \<and> \<not> hasPending (en_ck en3) then retireLanes ev lt now en3
      else flush_write ev lt now i fl en3)"
    by (auto simp: flush_prepared_def f Let_def en3_def)
  moreover have "\<forall>(lane, pos) \<in> set fl. okc from (ledger_of en3) lane pos" using l(4) e3(1) by (auto simp: okc_def)
  ultimately show ?thesis
    using retireLanes_safe [OF 3 assms(2), of lt now] flush_write_safe [OF 3 assms(2) _ l(3), of lt now i] by (auto intro: exI [of _ "off @ fl"])
qed

lemma flushOnce_safe:
  assumes "eng_safe view invar (ee_codec ev) (LanePrefix (ee_tenant ev) (ee_pipeline ev)) from adm off en" and "ee_ops ev = watched fits ops"
  shows "\<exists>off'. eng_safe view invar (ee_codec ev) (LanePrefix (ee_tenant ev) (ee_pipeline ev)) from adm off' (flushOnce ev lt now reason en)"
proof -
  define en0 where "en0 = on_run (flushSinks (ee_we ev) reason (we_mainSinks (ee_we ev))) en"
  define i where "i = ck_id (en_ck en0) + 1"
  define en1 where "en1 = en0\<lparr>en_ck := (en_ck en0)\<lparr>ck_id := i\<rparr>\<rparr>"
  let ?pt = "\<lparr>pt_ID = i, pt_Reason = reason, pt_Deadline = now + ee_grace ev\<rparr>"
  let ?safe = "eng_safe view invar (ee_codec ev) (LanePrefix (ee_tenant ev) (ee_pipeline ev)) from adm off"
  have "settled_from (ledger_of en) (ledger_of en1)" "same_durable en en1"
    using flushSinks_settled [of "en_run en"] by (simp_all add: en0_def en1_def on_run_def same_durable_def)
  then have 1: "?safe en1" by (rule eng_safe_settled [OF assms(1)])
  obtain en2 er where p: "prepare ev ?pt en1 = (en2, er)" by fastforce
  have "same_durable en1 en2" "ledger_of en2 = ledger_of en1"
    using prepare_frame [of en1 ev ?pt "committerSinks ev" "[]"] p by (simp_all add: prepare_def)
  then have 2: "?safe en2" by (intro eng_safe_settled [OF 1]) simp_all
  have e: "flushOnce ev lt now reason en =
      (case prepare ev ?pt en1 of (e1, Inl e) \<Rightarrow> on_run (fail (Some e)) e1 | (e1, Inr minted) \<Rightarrow> flush_prepared ev lt now i minted e1)"
    by (simp add: flushOnce_def Let_def ck_next_def en1_def i_def en0_def)
  show ?thesis using 2 flush_prepared_safe [OF 2 assms(2)] by (auto simp: e p split: sum.splits)
qed

end

section \<open>A run of the pipeline\<close>

text \<open>
  \<open>PLed\<close> is any ledger operation of the read path, the write path and the lease loop; offering and
  committing positions is the flush's alone. \<open>PForeign\<close> is a batch of another writer that leaves the
  lane rows of this pipeline alone.
\<close>

datatype 'v pipe_op =
    PLed "('v, err) led_op"
  | PLoad node_id spec_fields when_full lease_table
  | PAnnounce node_id when_full lease_table "lane_spec list"
  | PSeed node_id lease_table time lane_id position
  | PFinish node_id lease_table time lane_id
  | PForget node_id lease_table time lane_id
  | PFlush lease_table time flush_reason
  | PForeign sbatch

fun outside :: "('v, 'e) led_op \<Rightarrow> bool" where
  "outside OpFlushable = False"
| "outside (OpCommitted m) = False"
| "outside op = True"

definition touches_lanes :: "tenant_id \<Rightarrow> pipeline_id \<Rightarrow> sbatch \<Rightarrow> bool" where
  "touches_lanes t p b \<longleftrightarrow> list_ex (\<lambda>(_, v). key_Prefix (v_Key v) (LanePrefix t p)) (sb_Writes b) \<or>
     list_ex (\<lambda>d. key_Prefix (d_Key d) (LanePrefix t p)) (sb_Deletes b)"

definition put_lanes :: "node_id \<Rightarrow> (lane_ctl \<times> ledger \<times> 's) \<Rightarrow> ('v, 'w, 's) engine \<Rightarrow> ('v, 'w, 's) engine" where
  "put_lanes node z en = (case z of (l, led, s) \<Rightarrow>
     (on_run (\<lambda>r. r\<lparr>rn_ledger := led\<rparr>) en)\<lparr>en_lanes := aput node l (en_lanes en), en_store := s\<rparr>)"

fun pipe_exec :: "('v, 'w, 's) engine_env \<Rightarrow> 'v pipe_op \<Rightarrow> (lane_id \<times> frame) list \<times> ('v, 'w, 's) engine \<Rightarrow>
    ((lane_id \<times> frame) list \<times> ('v, 'w, 's) engine) option" where
  "pipe_exec ev (PLed op) (adm, en) =
     (if \<not> outside op then None
      else case led_exec op (sys_of adm [] (ledger_of en)) of
        None \<Rightarrow> None | Some s \<Rightarrow> Some (sy_adm s, on_run (\<lambda>r. r\<lparr>rn_ledger := sy_led s\<rparr>) en))"
| "pipe_exec ev (PLoad node f whenF lt) (adm, en) =
     (if sf_tenant f \<noteq> ee_tenant ev \<or> sf_pipeline f \<noteq> ee_pipeline ev then None
      else Some (adm, put_lanes node (fst (lc_load (ee_codec ev) (ee_ops ev) whenF lt (newLaneCtl (ee_worker ev) f node, ledger_of en, en_store en))) en))"
| "pipe_exec ev (PAnnounce node whenF lt specs) (adm, en) =
     (case map_of (en_lanes en) node of None \<Rightarrow> None
      | Some l \<Rightarrow> Some (adm, put_lanes node (fst (announceMany (ee_codec ev) (ee_ops ev) whenF lt specs (l, ledger_of en, en_store en))) en))"
| "pipe_exec ev (PSeed node lt now lane cur) (adm, en) =
     (case map_of (en_lanes en) node of None \<Rightarrow> None
      | Some l \<Rightarrow> (case fst (Seed (ee_codec ev) (ee_ops ev) lt now lane cur (l, en_store en)) of
          (l', s) \<Rightarrow> Some (adm, put_lanes node (l', ledger_of en, s) en)))"
| "pipe_exec ev (PFinish node lt now lane) (adm, en) =
     (case map_of (en_lanes en) node of None \<Rightarrow> None
      | Some l \<Rightarrow> Some (adm, put_lanes node (fst (Finish (ee_codec ev) (ee_ops ev) lt now lane (l, ledger_of en, en_store en))) en))"
| "pipe_exec ev (PForget node lt now lane) (adm, en) =
     (case map_of (en_lanes en) node of None \<Rightarrow> None
      | Some l \<Rightarrow> (case fst (Forget (ee_ops ev) lt now lane (l, en_store en)) of
          (l', s) \<Rightarrow> Some (adm, put_lanes node (l', ledger_of en, s) en)))"
| "pipe_exec ev (PFlush lt now reason) (adm, en) = Some (adm, flushOnce ev lt now reason en)"
| "pipe_exec ev (PForeign b) (adm, en) =
     (if touches_lanes (ee_tenant ev) (ee_pipeline ev) b \<or> \<not> wf_batch b then None
      else Some (adm, en\<lparr>en_store := fst (so_Set (ee_ops ev) b (en_store en))\<rparr>))"

fun pipe_run :: "('v, 'w, 's) engine_env \<Rightarrow> 'v pipe_op list \<Rightarrow> (lane_id \<times> frame) list \<times> ('v, 'w, 's) engine \<Rightarrow>
    ((lane_id \<times> frame) list \<times> ('v, 'w, 's) engine) option" where
  "pipe_run ev [] x = Some x"
| "pipe_run ev (op # ops) x = (case pipe_exec ev op x of None \<Rightarrow> None | Some y \<Rightarrow> pipe_run ev ops y)"

fun seeds :: "'v pipe_op list \<Rightarrow> lane_id \<Rightarrow> position set" where
  "seeds [] lane = {}"
| "seeds (PSeed _ _ _ k cur # ops) lane = (if k = lane then insert cur (seeds ops lane) else seeds ops lane)"
| "seeds (_ # ops) lane = seeds ops lane"

section \<open>The store changes by batches only\<close>

definition reached :: "'s state_ops \<Rightarrow> 's \<Rightarrow> 's \<Rightarrow> bool" where
  "reached ops s s' \<longleftrightarrow> (\<exists>bs. s' = fold (\<lambda>b s. fst (so_Set ops b s)) bs s)"

lemma reached_refl [simp]: "reached ops s s"
  unfolding reached_def by (rule exI [of _ "[]"]) simp

lemma reached_set: "so_Set ops b s = (s', e) \<Longrightarrow> reached ops s s'"
  unfolding reached_def by (rule exI [of _ "[b]"]) simp

lemma reached_trans: "reached ops s s' \<Longrightarrow> reached ops s' s'' \<Longrightarrow> reached ops s s''"
  unfolding reached_def by (metis fold_append comp_apply)

lemma reached_watched: "reached (watched fits ops) z z' \<Longrightarrow> snd z' \<Longrightarrow> snd z"
proof -
  have "snd (fold (\<lambda>b s. fst (so_Set (watched fits ops) b s)) bs z) \<Longrightarrow> snd z" for bs
  proof (induction bs arbitrary: z)
    case (Cons b bs)
    then have "snd (fst (so_Set (watched fits ops) b z))" by simp
    then show ?case by (simp add: watched_def split: prod.splits)
  qed simp
  then show "reached (watched fits ops) z z' \<Longrightarrow> snd z' \<Longrightarrow> snd z" unfolding reached_def by blast
qed

lemma mutate_reached: "lc_mutate c ops lt now lane f (l, s) = ((l', s'), e) \<Longrightarrow> reached ops s s'"
  by (auto simp: lc_mutate_def intro: reached_set split: option.splits sum.splits prod.splits bool.splits)

lemma retire_reached:
  assumes "retire c ops lt now lane (l, s) = ((l', s'), e)" shows "reached ops s s'"
proof -
  obtain l1 s1 e1 where m: "lc_mutate c ops lt now lane (retire_record now) (l, s) = ((l1, s1), e1)" by (metis surj_pair)
  then have "s' = s1" using assms by (auto simp: retire_def split: option.splits)
  then show ?thesis using mutate_reached [OF m] by simp
qed

lemma Forget_reached: "Forget ops lt now lane (l, s) = ((l', s'), e) \<Longrightarrow> reached ops s s'"
  by (auto simp: Forget_def intro: reached_set split: option.splits prod.splits bool.splits if_splits)

lemma announce_reached: "announceMany c ops whenF lt specs (l, led, s) = ((l', led', s'), e) \<Longrightarrow> reached ops s s'"
  by (auto simp: announceMany_def Let_def intro: reached_set split: option.splits prod.splits sum.splits if_splits)

lemma load_reached: "lc_load c ops whenF lt (l, led, s) = ((l', led', s'), e) \<Longrightarrow> reached ops s s'"
  by (auto simp: lc_load_def Let_def split: option.splits prod.splits sum.splits)

lemma Finish_reached: "Finish c ops lt now lane (l, led, s) = ((l', led', s'), e) \<Longrightarrow> reached ops s s'"
  by (auto simp: Finish_def Let_def intro: retire_reached split: prod.splits if_splits)

lemma persist_reached: "persistCheckpoint ev lt now cp ps en = (en', er) \<Longrightarrow> reached (ee_ops ev) (en_store en) (en_store en')"
  by (auto simp: persistCheckpoint_def intro: reached_set split: sum.splits prod.splits option.splits)

lemma retire_lanes_reached: "reached (ee_ops ev) (en_store en) (en_store (retire_lanes ev lt now ls en))"
proof (induction ls arbitrary: en)
  case (Cons lane ls)
  show ?case
  proof (cases "laneCtlOwning lane (en_lanes en)")
    case (Some x)
    obtain node l where x: "x = (node, l)" by (cases x)
    obtain l1 s1 er where r: "retire (ee_codec ev) (ee_ops ev) lt now lane (l, en_store en) = ((l1, s1), er)" by (metis surj_pair)
    have "reached (ee_ops ev) (en_store en) (en_store (retire_lanes ev lt now ls (en\<lparr>en_lanes := y, en_store := s1\<rparr>)))" for y
      using reached_trans [OF retire_reached [OF r] Cons [of "en\<lparr>en_lanes := y, en_store := s1\<rparr>", simplified]] .
    then show ?thesis using retire_reached [OF r] by (auto simp: Some x r Let_def on_run_def split: option.splits)
  qed (use Cons in simp)
qed simp

lemma on_run_durable [simp]: "en_store (on_run f en) = en_store en" "en_lanes (on_run f en) = en_lanes en"
  by (simp_all add: on_run_def)

lemma retireLanes_reached: "reached (ee_ops ev) (en_store en) (en_store (retireLanes ev lt now en))"
proof -
  obtain led ls where r: "Retirable (ledger_of en) = (led, ls)" by fastforce
  show ?thesis using retire_lanes_reached [of ev "on_run (\<lambda>r. r\<lparr>rn_ledger := led\<rparr>) en" lt now ls] by (simp add: retireLanes_def r)
qed

lemma flush_write_reached: "reached (ee_ops ev) (en_store en) (en_store (flush_write ev lt now i ps en))"
proof -
  obtain e1 bc where b: "buildCheckpoint ev i now en = (e1, bc)" by fastforce
  have s1: "en_store e1 = en_store en"
    using b snapshot_frame [of en ev i "we_mainSinks (ee_we ev)" "[]"] by (auto simp: buildCheckpoint_def same_durable_def split: sum.splits prod.splits)
  show ?thesis
  proof (cases bc)
    case (Inr cp)
    obtain e2 er where p: "persistCheckpoint ev lt now (fillLaneStates (en_lanes e1) ps cp) ps e1 = (e2, er)" by fastforce
    have r2: "reached (ee_ops ev) (en_store en) (en_store e2)" using persist_reached [OF p] s1 by simp
    obtain e3 er3 where o: "(if offerable (en_ck e2) = [] then (e2, None) else publish ev i (offerable (en_ck e2)) e2) = (e3, er3)" by fastforce
    have s3: "en_store e3 = en_store e2"
      using o publish_frame [of e2 ev i "offerable (en_ck e2)" "nodes_of (offerable (en_ck e2))"] by (auto simp: publish_def same_durable_def split: if_splits)
    have "en_store (commit_positions ps e3) = en_store e2" by (simp add: commit_positions_def s3)
    then have "reached (ee_ops ev) (en_store en) (en_store (retireLanes ev lt now (commit_positions ps e3)))"
      using reached_trans [OF r2] retireLanes_reached [of ev "commit_positions ps e3" lt now] by simp
    then show ?thesis using r2 s3 by (simp add: flush_write_def b Inr p o Let_def split: option.splits)
  qed (simp add: flush_write_def b s1)
qed

lemma flushOnce_reached: "reached (ee_ops ev) (en_store en) (en_store (flushOnce ev lt now reason en))"
proof -
  define en0 where "en0 = on_run (flushSinks (ee_we ev) reason (we_mainSinks (ee_we ev))) en"
  define i where "i = ck_id (en_ck en0) + 1"
  define en1 where "en1 = en0\<lparr>en_ck := (en_ck en0)\<lparr>ck_id := i\<rparr>\<rparr>"
  let ?pt = "\<lparr>pt_ID = i, pt_Reason = reason, pt_Deadline = now + ee_grace ev\<rparr>"
  obtain en2 er where p: "prepare ev ?pt en1 = (en2, er)" by fastforce
  have s2: "en_store en2 = en_store en"
    using prepare_frame [of en1 ev ?pt "committerSinks ev" "[]"] p by (simp add: prepare_def same_durable_def en1_def en0_def on_run_def)
  have e: "flushOnce ev lt now reason en =
      (case prepare ev ?pt en1 of (e1, Inl e) \<Rightarrow> on_run (fail (Some e)) e1 | (e1, Inr minted) \<Rightarrow> flush_prepared ev lt now i minted e1)"
    by (simp add: flushOnce_def Let_def ck_next_def en1_def i_def en0_def)
  have "reached (ee_ops ev) (en_store en2) (en_store (flush_prepared ev lt now i minted en2))" for minted
  proof -
    obtain led fl where f: "Flushable (ledger_of en2) = (led, fl)" by fastforce
    define en3 where "en3 = on_run (\<lambda>r. r\<lparr>rn_ledger := led\<rparr>) (en2\<lparr>en_ck := ck_stage i minted (en_ck en2)\<rparr>)"
    have "flush_prepared ev lt now i minted en2 = (if fl = [] \<and> minted = [] \<and> \<not> hasPending (en_ck en3) then retireLanes ev lt now en3
        else flush_write ev lt now i fl en3)" by (auto simp: flush_prepared_def f Let_def en3_def)
    moreover have "en_store en3 = en_store en2" by (simp add: en3_def on_run_def)
    ultimately show ?thesis using retireLanes_reached [of ev en3 lt now] flush_write_reached [of ev en3 lt now i fl] by simp
  qed
  then show ?thesis using s2 by (auto simp: e p split: sum.splits)
qed

section \<open>Every run keeps the invariant\<close>

lemma outside_off:
  "outside op \<Longrightarrow> led_exec op (sys_of adm off led) = map_option (\<lambda>s. s\<lparr>sy_offered := off\<rparr>) (led_exec op (sys_of adm [] led))"
  by (cases op) (auto simp: sys_of_def on_led_def split: prod.splits sum.splits option.splits frame.splits waiting.splits)

lemma put_lanes_simps [simp]:
  "ledger_of (put_lanes node (l, led, s) en) = led" "en_store (put_lanes node (l, led, s) en) = s"
  "en_lanes (put_lanes node (l, led, s) en) = aput node l (en_lanes en)"
  by (simp_all add: put_lanes_def on_run_def)

lemma eng_safe_put:
  assumes "eng_safe view invar c pre from adm off en" and "extends adm off (ledger_of en) led" and "ctl_ok pre from led l"
    and "store_ok view invar c pre from led s"
  shows "eng_safe view invar c pre from adm off (put_lanes node (l, led, s) en)"
proof -
  have m: "mark_le (ledger_of en) led" "live adm off led" using assms(2) by (simp_all add: extends_def)
  have "ctl_ok pre from led x" if "(n, x) \<in> set (aput node l (en_lanes en))" for n x
    using that assms(1,3) set_aput_subset [of node l "en_lanes en"] ctl_ok_mono [OF _ m(1)] unfolding eng_safe_def by blast
  then show ?thesis using m(2) assms(4) by (auto simp: eng_safe_def)
qed

lemma eng_safeD:
  assumes "eng_safe view invar c pre from adm off en"
  shows "live adm off (ledger_of en)" and "extends adm off (ledger_of en) (ledger_of en)"
    and "store_ok view invar c pre from (ledger_of en) (en_store en)" and "map_of (en_lanes en) node = Some l \<Longrightarrow> ctl_ok pre from (ledger_of en) l"
  using assms by (auto simp: eng_safe_def extends_refl dest: map_of_SomeD)

lemma foreign_ok: "\<not> touches_lanes t p b \<Longrightarrow> wf_batch b \<Longrightarrow> batch_ok c (LanePrefix t p) from led b"
  by (fastforce simp: touches_lanes_def wf_batch_def batch_ok_def list_ex_iff)

lemma pipe_exec_reached:
  assumes "pipe_exec ev op (adm, en) = Some (adm', en')"
  shows "reached (ee_ops ev) (en_store en) (en_store en')"
proof (cases op)
  case (PLoad node f whenF lt)
  obtain l led s e where z: "lc_load (ee_codec ev) (ee_ops ev) whenF lt (newLaneCtl (ee_worker ev) f node, ledger_of en, en_store en) = ((l, led, s), e)"
    by (metis surj_pair)
  then show ?thesis using assms PLoad load_reached [OF z] by (auto split: if_splits)
next
  case (PAnnounce node whenF lt specs)
  then obtain l where l: "map_of (en_lanes en) node = Some l" using assms by (auto split: option.splits)
  obtain l' led s e where z: "announceMany (ee_codec ev) (ee_ops ev) whenF lt specs (l, ledger_of en, en_store en) = ((l', led, s), e)" by (metis surj_pair)
  then show ?thesis using assms PAnnounce l announce_reached [OF z] by auto
next
  case (PSeed node lt now lane cur)
  then obtain l where l: "map_of (en_lanes en) node = Some l" using assms by (auto split: option.splits)
  obtain l' s e where z: "Seed (ee_codec ev) (ee_ops ev) lt now lane cur (l, en_store en) = ((l', s), e)" by (metis surj_pair)
  then show ?thesis using assms PSeed l mutate_reached [OF z [unfolded Seed_def]] by auto
next
  case (PFinish node lt now lane)
  then obtain l where l: "map_of (en_lanes en) node = Some l" using assms by (auto split: option.splits)
  obtain l' led s e where z: "Finish (ee_codec ev) (ee_ops ev) lt now lane (l, ledger_of en, en_store en) = ((l', led, s), e)" by (metis surj_pair)
  then show ?thesis using assms PFinish l Finish_reached [OF z] by auto
next
  case (PForget node lt now lane)
  then obtain l where l: "map_of (en_lanes en) node = Some l" using assms by (auto split: option.splits)
  obtain l' s e where z: "Forget (ee_ops ev) lt now lane (l, en_store en) = ((l', s), e)" by (metis surj_pair)
  then show ?thesis using assms PForget l Forget_reached [OF z] by auto
next
  case (PForeign b)
  then show ?thesis using assms reached_set [of "ee_ops ev" b "en_store en"] by (auto split: if_splits) (metis prod.collapse)
qed (use assms flushOnce_reached in \<open>auto split: if_splits option.splits\<close>)

context lane_store
begin

lemma pipe_exec_safe:
  assumes safe: "eng_safe view invar (ee_codec ev) (LanePrefix (ee_tenant ev) (ee_pipeline ev)) from adm off en"
    and ops: "ee_ops ev = watched fits ops" and cod: "codec_ok (ee_codec ev)" and zero: "\<And>lane. zero_position \<in> from lane"
    and seed: "\<And>lane. seeds [op] lane \<subseteq> from lane" and ex: "pipe_exec ev op (adm, en) = Some (adm', en')" and flag: "snd (en_store en')"
  shows "\<exists>off'. eng_safe view invar (ee_codec ev) (LanePrefix (ee_tenant ev) (ee_pipeline ev)) from adm' off' en'"
proof (cases op)
  let ?P = "LanePrefix (ee_tenant ev) (ee_pipeline ev)"
  note d = eng_safeD [OF safe]
  {
    case (PLed lop)
    then obtain s where s: "outside lop" "led_exec lop (sys_of adm [] (ledger_of en)) = Some s"
        "adm' = sy_adm s" "en' = on_run (\<lambda>r. r\<lparr>rn_ledger := sy_led s\<rparr>) en"
      using ex by (auto split: if_splits option.splits)
    have "led_exec lop (sys_of adm off (ledger_of en)) = Some (s\<lparr>sy_offered := off\<rparr>)"
      unfolding outside_off [OF s(1), of adm off] s(2) by simp
    from live_exec [OF d(1) this] have l: "live (sy_adm s) off (sy_led s)" "mark_le (ledger_of en) (sy_led s)" by simp_all
    have "ctl_ok ?P from (sy_led s) x" if "(n, x) \<in> set (en_lanes en)" for n x
      using safe that ctl_ok_mono [OF _ l(2)] unfolding eng_safe_def by blast
    then show ?thesis
      using l store_ok_mono [OF d(3) l(2)] by (intro exI [of _ off]) (auto simp: s(3,4) eng_safe_def on_run_def)
  next
    case (PLoad node f whenF lt)
    obtain l led z e where z: "lc_load (ee_codec ev) (watched fits ops) whenF lt (newLaneCtl (ee_worker ev) f node, ledger_of en, en_store en) = ((l, led, z), e)"
      by (metis surj_pair)
    have en': "adm' = adm" "en' = put_lanes node (l, led, z) en" "sf_tenant f = ee_tenant ev" "sf_pipeline f = ee_pipeline ev"
      using ex PLoad z by (auto simp: ops split: if_splits)
    have "snd (en_store en)" using reached_watched pipe_exec_reached [OF ex] flag ops by metis
    moreover have "ctl_ok ?P from (ledger_of en) (newLaneCtl (ee_worker ev) f node)"
      by (simp add: ctl_ok_def newLaneCtl_def lane_prefix_def LanePrefix_def en'(3,4))
    ultimately have a: "z = en_store en" "extends adm off (ledger_of en) led" "ctl_ok ?P from led l"
      using load_ok [OF cod _ d(3,1) _ z] by simp_all
    have "mark_le (ledger_of en) led" using a(2) by (simp add: extends_def)
    then have "store_ok view invar (ee_codec ev) ?P from led z" using store_ok_mono [OF d(3)] a(1) by simp
    then show ?thesis using eng_safe_put [OF safe a(2,3), of z node] by (intro exI [of _ off]) (simp add: en'(1,2))
  next
    case (PAnnounce node whenF lt specs)
    then obtain l where l: "map_of (en_lanes en) node = Some l" using ex by (auto split: option.splits)
    obtain l' led z e where z: "announceMany (ee_codec ev) (watched fits ops) whenF lt specs (l, ledger_of en, en_store en) = ((l', led, z), e)"
      by (metis surj_pair)
    have "adm' = adm" "en' = put_lanes node (l', led, z) en" using ex PAnnounce l z by (auto simp: ops)
    moreover have a: "extends adm off (ledger_of en) led" "ctl_ok ?P from led l'" "store_ok view invar (ee_codec ev) ?P from led z"
      using announceMany_ok [OF zero d(4) [OF l] d(3,1) z] by simp_all
    ultimately show ?thesis using eng_safe_put [OF safe a, of node] by (intro exI [of _ off]) simp
  next
    case (PSeed node lt now lane cur)
    then obtain l where l: "map_of (en_lanes en) node = Some l" using ex by (auto split: option.splits)
    obtain l' z e where z: "Seed (ee_codec ev) (watched fits ops) lt now lane cur (l, en_store en) = ((l', z), e)" by (metis surj_pair)
    have "adm' = adm" "en' = put_lanes node (l', ledger_of en, z) en" using ex PSeed l z by (auto simp: ops)
    moreover have "cur \<in> from lane" using seed [of lane] PSeed by simp
    moreover from this have a: "ctl_ok ?P from (ledger_of en) l'" "store_ok view invar (ee_codec ev) ?P from (ledger_of en) z"
      using Seed_ok [OF d(4) [OF l] d(3) _ z] by simp_all
    ultimately show ?thesis using eng_safe_put [OF safe d(2) a, of node] by (intro exI [of _ off]) simp
  next
    case (PFinish node lt now lane)
    then obtain l where l: "map_of (en_lanes en) node = Some l" using ex by (auto split: option.splits)
    obtain l' led z e where z: "Finish (ee_codec ev) (watched fits ops) lt now lane (l, ledger_of en, en_store en) = ((l', led, z), e)" by (metis surj_pair)
    have "adm' = adm" "en' = put_lanes node (l', led, z) en" using ex PFinish l z by (auto simp: ops)
    moreover have a: "extends adm off (ledger_of en) led" "ctl_ok ?P from led l'" "store_ok view invar (ee_codec ev) ?P from led z"
      using Finish_ok [OF d(4) [OF l] d(3,1) z] by simp_all
    ultimately show ?thesis using eng_safe_put [OF safe a, of node] by (intro exI [of _ off]) simp
  next
    case (PForget node lt now lane)
    then obtain l where l: "map_of (en_lanes en) node = Some l" using ex by (auto split: option.splits)
    obtain l' z e where z: "Forget (watched fits ops) lt now lane (l, en_store en) = ((l', z), e)" by (metis surj_pair)
    have "adm' = adm" "en' = put_lanes node (l', ledger_of en, z) en" using ex PForget l z by (auto simp: ops)
    moreover have a: "ctl_ok ?P from (ledger_of en) l'" "store_ok view invar (ee_codec ev) ?P from (ledger_of en) z"
      using Forget_ok [OF d(4) [OF l] d(3) z] by simp_all
    ultimately show ?thesis using eng_safe_put [OF safe d(2) a, of node] by (intro exI [of _ off]) simp
  next
    case (PFlush lt now reason)
    then show ?thesis using ex flushOnce_safe [OF safe ops, of lt now reason] by simp
  next
    case (PForeign b)
    obtain z e where z: "so_Set (watched fits ops) b (en_store en) = (z, e)" by fastforce
    have b: "\<not> touches_lanes (ee_tenant ev) (ee_pipeline ev) b" "wf_batch b" "adm' = adm" "en' = en\<lparr>en_store := z\<rparr>"
      using ex PForeign z by (auto simp: ops split: if_splits)
    have "store_ok view invar (ee_codec ev) ?P from (ledger_of en) z" by (rule set_ok [OF d(3) foreign_ok [OF b(1,2)] z])
    then show ?thesis using safe by (intro exI [of _ off]) (simp add: b(3,4) eng_safe_def)
  }
qed

lemma seeds_Cons: "seeds (op # xs) lane = seeds [op] lane \<union> seeds xs lane"
  by (cases op) auto

lemma pipe_run_safe:
  assumes "eng_safe view invar (ee_codec ev) (LanePrefix (ee_tenant ev) (ee_pipeline ev)) from adm off en"
    and "ee_ops ev = watched fits ops" and "codec_ok (ee_codec ev)" and "\<And>lane. zero_position \<in> from lane"
    and "\<And>lane. seeds xs lane \<subseteq> from lane" and "pipe_run ev xs (adm, en) = Some (adm', en')" and "snd (en_store en')"
  shows "\<exists>off'. eng_safe view invar (ee_codec ev) (LanePrefix (ee_tenant ev) (ee_pipeline ev)) from adm' off' en'"
  using assms(1,5,6)
proof (induction xs arbitrary: adm off en)
  case (Cons x xs)
  obtain adm1 en1 where 1: "pipe_exec ev x (adm, en) = Some (adm1, en1)" and r: "pipe_run ev xs (adm1, en1) = Some (adm', en')"
    using Cons.prems(3) by (auto split: option.splits)
  have "reached (ee_ops ev) (en_store e1) (en_store e2)" if "pipe_run ev xs (a1, e1) = Some (a2, e2)" for xs a1 e1 a2 e2
    using that
  proof (induction xs arbitrary: a1 e1)
    case (Cons y ys)
    then obtain a e where y: "pipe_exec ev y (a1, e1) = Some (a, e)" "pipe_run ev ys (a, e) = Some (a2, e2)" by (auto split: option.splits)
    show ?case by (rule reached_trans [OF pipe_exec_reached [OF y(1)] Cons.IH [OF y(2)]])
  qed simp
  then have f: "snd (en_store en1)" using r reached_watched assms(2,7) by metis
  have s: "seeds [x] lane \<subseteq> from lane" "seeds xs lane \<subseteq> from lane" for lane using Cons.prems(2) [of lane] seeds_Cons [of x xs lane] by auto
  obtain off1 where "eng_safe view invar (ee_codec ev) (LanePrefix (ee_tenant ev) (ee_pipeline ev)) from adm1 off1 en1"
    using pipe_exec_safe [OF Cons.prems(1) assms(2-4) s(1) 1 f] by blast
  then show ?case using Cons.IH s(2) r by blast
qed auto

end

end
