(* ===== verification/Canal_PipeProps.thy ===== *)
theory Canal_PipeProps
  imports Canal_Pipe Canal_WalProps
begin

text \<open>
  The properties of the durable side: the two stores keep what the lane tables rely on, so whoever
  loads the lane table next, after a crash or after taking over, starts no lane beyond a record that
  was not settled.
\<close>

section \<open>The stores as lane stores\<close>

definition wal_ops :: "wal state_ops" where
  "wal_ops = \<lparr>so_Get = wal_Get, so_Range = wal_Range, so_Set = wal_Set AppendOK CompactOK\<rparr>"

definition memstore_ops :: "memstore state_ops" where
  "memstore_ops = \<lparr>so_Get = (\<lambda>ks s. Inr (mem_Get ks s)), so_Range = (\<lambda>p s. Inr (mem_Range p s)), so_Set = mem_Set\<rparr>"

definition keyed :: "(string \<times> versioned) list \<Rightarrow> bool" where
  "keyed data \<longleftrightarrow> wf_amap data \<and> (\<forall>(n, v) \<in> set data. n = key_String (v_Key v))"

lemma range_rows_shows:
  assumes "keyed data" and "(k, v) \<in> set (range_rows p data)"
  shows "key_Prefix k p \<and> rows data (key_String k) = Some (content (v_Value v), v_Version v)"
proof -
  obtain n where "(n, v) \<in> set data" "k = v_Key v" "key_Prefix (v_Key v) p" using assms(2) by (auto simp: range_rows_def)
  moreover from this have "(key_String k, v) \<in> set data" using assms(1) by (auto simp: keyed_def)
  ultimately have "map_of data (key_String k) = Some v" "key_Prefix k p" using assms(1) by (simp_all add: keyed_def wf_amap_mem)
  then show ?thesis by (simp add: rows_def)
qed

lemma keyed_mem_Set: "keyed (ms_data s) \<Longrightarrow> wf_batch b \<Longrightarrow> keyed (ms_data (fst (mem_Set b s)))"
proof -
  have "keyed (ms_data (fold (mem_write b) ws s))" if "keyed (ms_data s)" "\<forall>(n, v) \<in> set ws. n = key_String (v_Key v)" for ws s
    using that
  proof (induction ws arbitrary: s)
    case (Cons w ws)
    obtain n v where w: "w = (n, v)" by (cases w)
    let ?u = "v\<lparr>v_Version := version_of (ms_data s) n + 1\<rparr>"
    have "keyed (ms_data (mem_write b w s))"
      using Cons.prems set_aput_subset [of n ?u "ms_data s"] by (auto simp: w mem_write_def keyed_def)
    then show ?case using Cons by simp
  qed simp
  moreover have "keyed (ms_data (fold (mem_delete b) ds s))" if "keyed (ms_data s)" for ds s
    using that
  proof (induction ds arbitrary: s)
    case (Cons d ds)
    have "keyed (ms_data (mem_delete b d s))" using Cons.prems by (auto simp: mem_delete_def Let_def keyed_def AList.delete_eq)
    then show ?case using Cons.IH by simp
  qed simp
  ultimately show "keyed (ms_data s) \<Longrightarrow> wf_batch b \<Longrightarrow> keyed (ms_data (fst (mem_Set b s)))"
    by (simp add: mem_Set_def wf_batch_def split: option.splits)
qed

interpretation wal_lanes: lane_store wal_view wal_ops wal_inv wal_fits
proof unfold_locales
  fix s p rws k v
  assume "wal_inv s" "so_Range wal_ops p s = Inr rws" "(k, v) \<in> set rws"
  then have i: "index_ok (ws_ix s)" and r: "(k, v) \<in> set (range_rows p (ix_data (ws_ix s)))" by (auto simp: wal_inv_def wal_ops_def wal_Range_def)
  have "keyed (ix_data (ws_ix s))" using i by (auto simp: index_ok_def keyed_def wf_amap_mem)
  then show "key_Prefix k p \<and> fst (wal_view s) (key_String k) = Some (content (v_Value v), v_Version v)"
    using range_rows_shows [OF _ r] by (simp add: wal_view_def ix_view_def)
qed (simp_all add: wal_ops_def wal.set_invar wal.set_refines)

interpretation mem_lanes: lane_store mem_view memstore_ops "\<lambda>s. versions_ok (ms_data s) \<and> keyed (ms_data s)" "\<lambda>b _. wf_batch b"
proof unfold_locales
  fix s p rws k v
  assume "versions_ok (ms_data s) \<and> keyed (ms_data s)" "so_Range memstore_ops p s = Inr rws" "(k, v) \<in> set rws"
  then show "key_Prefix k p \<and> fst (mem_view s) (key_String k) = Some (content (v_Value v), v_Version v)"
    using range_rows_shows [of "ms_data s"] by (auto simp: memstore_ops_def mem_Range_def mem_view_def)
qed (auto simp: memstore_ops_def mem.set_refines keyed_mem_Set intro: mem.set_invar)

section \<open>Who loads the table next\<close>

lemma live_New: "live [] [] (New cfg)"
  using core_inv_init [of cfg] pub_ok_run [of "[] :: (unit, err) led_op list" cfg "sys_init cfg"]
  by (simp add: live_def sys_of_def sys_init_def)

lemma Assigned_cursor:
  assumes "ctl_ok pre from led l" and "a \<in> set (Assigned lt now l)"
  shows "okc from led (la_ID a) (la_Cursor a)"
  using assms ctl_okD by (fastforce simp: Assigned_def assignment_of_def split: option.splits if_splits)

lemma okc_before_open: "live adm off led \<Longrightarrow> okc from led lane cur \<Longrightarrow> cur \<in> from lane \<or> pos_Safe cur \<and> before_open led lane cur"
  using good_before_open by (auto simp: okc_def Canal_LedgerPub.good_def live_def core_inv_def)

text \<open>A table freshly loaded from a store whose lane rows are good has good cursors only.\<close>

lemma loaded_ok:
  assumes "codec_ok c" and "rows_ok c (LanePrefix t p) from led V" and "lc_load c ops whenF lt (newLaneCtl w f node, led0, s) = ((l, led2, sn), None)"
    and "sf_tenant f = t" and "sf_pipeline f = p"
    and shows_V: "\<And>rws k v. so_Range ops (LanePrefix t p) s = Inr rws \<Longrightarrow> (k, v) \<in> set rws \<Longrightarrow>
      key_Prefix k (LanePrefix t p) \<and> fst V (key_String k) = Some (content (v_Value v), v_Version v)"
  shows "ctl_ok (LanePrefix t p) from led l"
proof -
  have pre: "lane_prefix (newLaneCtl w f node) = LanePrefix t p" using assms(4,5) by (simp add: lane_prefix_def newLaneCtl_def LanePrefix_def)
  obtain rws where r: "so_Range ops (LanePrefix t p) s = Inr rws" using assms(3) pre by (auto simp: lc_load_def split: sum.splits)
  have "\<exists>e. load_rows c rws (newLaneCtl w f node) = (l, e)" using assms(3) pre r by (auto simp: lc_load_def Let_def split: option.splits prod.splits)
  moreover have "ctl_ok (LanePrefix t p) from led (newLaneCtl w f node)" by (simp add: ctl_ok_def pre) (simp add: newLaneCtl_def)
  moreover have "\<forall>(k, v) \<in> set rws. row_ok c from led k (content (v_Value v))" using shows_V [OF r] assms(2) unfolding rows_ok_def by blast
  ultimately show ?thesis using load_rows_ok [OF assms(1)] by blast
qed

lemma started_safe:
  assumes "rn_ledger (en_run en) = New cfg" and "en_lanes en = []" and "en_store en = (s, True)" and "invar s"
    and "rows_ok c pre from (New cfg) (view s)"
  shows "eng_safe view invar c pre from [] [] en"
  using assms live_New by (simp add: eng_safe_def store_ok_def)

text \<open>
  C1: A crash loses nothing. Let a pipeline run over a write-ahead log from any lane table, with any
  interleaving of reading, delivery, settlement, flushes with their checkpoints and commits, lane
  operations and writes of others, each batch within the log's frame bound. At any moment the process
  dies, possibly in the middle of an append. The log is reopened, the lane table loaded, and every lane
  a source is then assigned starts where it could start before the run, or where the source seeded it,
  or at a safe position strictly before every group of records that was not settled.
\<close>
theorem restart_resumes_before_every_open_group:
  assumes "pipe_run ev xs ([], en) = Some (adm', en')" and "en_store en' = (s', True)"
    and "ee_ops ev = watched wal_fits wal_ops" and "codec_ok (ee_codec ev)"
    and "rn_ledger (en_run en) = New cfg" and "en_lanes en = []" and "en_store en = (s, True)" and "wal_inv s"
    and "rows_ok (ee_codec ev) (LanePrefix (ee_tenant ev) (ee_pipeline ev)) from (New cfg) (wal_view s)"
    and "\<And>lane. insert zero_position (seeds xs lane) \<subseteq> from lane"
    and "readFrame tail = FrameEOF \<or> readFrame tail = FrameTorn" and "wal_Open io (ws_log s' @ tail) = Inr u"
    and "lc_load (ee_codec ev) wal_ops whenF lt (newLaneCtl w f node, led0, u) = ((l, led2, u2), None)"
    and "sf_tenant f = ee_tenant ev" and "sf_pipeline f = ee_pipeline ev" and "a \<in> set (Assigned lt' now l)"
  shows "la_Cursor a \<in> from (la_ID a) \<or>
    pos_Safe (la_Cursor a) \<and> before_open (rn_ledger (en_run en')) (la_ID a) (la_Cursor a)"
proof -
  let ?P = "LanePrefix (ee_tenant ev) (ee_pipeline ev)" and ?led = "rn_ledger (en_run en')"
  have s0: "eng_safe wal_view wal_inv (ee_codec ev) ?P from [] [] en" using started_safe [of en cfg s wal_inv "ee_codec ev" ?P "from" wal_view] assms(5-9) by blast
  obtain off where e: "eng_safe wal_view wal_inv (ee_codec ev) ?P from adm' off en'"
    using wal_lanes.pipe_run_safe [OF s0 assms(3,4) _ _ assms(1)] assms(2,10) by auto
  have i: "wal_inv s'" "rows_ok (ee_codec ev) ?P from ?led (wal_view s')" using e assms(2) by (simp_all add: eng_safe_def store_ok_def)
  have u: "wal_inv u" "wal_view u = wal_view s'"
    using Open_view [OF _ assms(11), of "ws_log s'" "ws_ix s'" io] i(1) assms(12) by (auto simp: wal_inv_def wal_view_def)
  have "ctl_ok ?P from ?led l"
    by (rule loaded_ok [OF assms(4) i(2) assms(13-15)]) (use wal_lanes.range_shows [OF u(1)] u(2) in auto)
  then show ?thesis using okc_before_open [OF eng_safeD(1) [OF e] Assigned_cursor [OF _ assms(16)]] by blast
qed

text \<open>
  A takeover loses nothing. The same over a shared in-memory store: at any moment another worker may
  load the lane table, and whatever lane it is assigned starts where it could start before, where it was
  seeded, or at a safe position strictly before every group of records the present holder has not
  settled.
\<close>
theorem next_holder_resumes_before_every_open_group:
  assumes "pipe_run ev xs ([], en) = Some (adm', en')" and "en_store en' = (s', True)"
    and "ee_ops ev = watched (\<lambda>b _. wf_batch b) memstore_ops" and "codec_ok (ee_codec ev)"
    and "rn_ledger (en_run en) = New cfg" and "en_lanes en = []" and "en_store en = (s, True)" and "versions_ok (ms_data s) \<and> keyed (ms_data s)"
    and "rows_ok (ee_codec ev) (LanePrefix (ee_tenant ev) (ee_pipeline ev)) from (New cfg) (mem_view s)"
    and "\<And>lane. insert zero_position (seeds xs lane) \<subseteq> from lane"
    and "lc_load (ee_codec ev) memstore_ops whenF lt (newLaneCtl w f node, led0, s') = ((l, led2, u2), None)"
    and "sf_tenant f = ee_tenant ev" and "sf_pipeline f = ee_pipeline ev" and "a \<in> set (Assigned lt' now l)"
  shows "la_Cursor a \<in> from (la_ID a) \<or>
    pos_Safe (la_Cursor a) \<and> before_open (rn_ledger (en_run en')) (la_ID a) (la_Cursor a)"
proof -
  let ?P = "LanePrefix (ee_tenant ev) (ee_pipeline ev)" and ?led = "rn_ledger (en_run en')"
  let ?inv = "\<lambda>s. versions_ok (ms_data s) \<and> keyed (ms_data s)"
  have s0: "eng_safe mem_view ?inv (ee_codec ev) ?P from [] [] en"
    using started_safe [of en cfg s ?inv "ee_codec ev" ?P "from" mem_view] assms(5-9) by blast
  obtain off where e: "eng_safe mem_view ?inv (ee_codec ev) ?P from adm' off en'"
    using mem_lanes.pipe_run_safe [OF s0 assms(3,4) _ _ assms(1)] assms(2,10) by auto
  have i: "?inv s'" "rows_ok (ee_codec ev) ?P from ?led (mem_view s')" using e assms(2) by (simp_all add: eng_safe_def store_ok_def)
  have "ctl_ok ?P from ?led l"
    by (rule loaded_ok [OF assms(4) i(2) assms(11-13)]) (use mem_lanes.range_shows [OF i(1)] in auto)
  then show ?thesis using okc_before_open [OF eng_safeD(1) [OF e] Assigned_cursor [OF _ assms(14)]] by blast
qed

text \<open>One source announces a lane, two batches are read, the first is settled, and the engine flushes.\<close>

definition wx_spec :: lane_spec where
  "wx_spec = \<lparr>sp_Name = ''x'', sp_Stream = ''s'', sp_Kind = LaneKindStream, sp_Ordering = OrderingPrefix, sp_Boundedness = Unbounded,
     sp_Group = [], sp_StartAfter = [], sp_Spec = zero_blob, sp_Weight = 0, sp_Label = [], sp_Budget = 0, sp_MidLaneResume = None\<rparr>"

definition wx_lane :: lane_id where "wx_lane = DeriveLaneID ''t'' ''p'' ''n'' ''x''"

definition wx_r1 :: lane_record where
  "wx_r1 = (new_record wx_spec)\<lparr>lx_Cursor := zero_position\<lparr>pos_Safe := True, pos_Seq := 1\<rparr>, lx_CursorEpoch := 1\<rparr>"

text \<open>A codec for the two records that occur.\<close>

definition wx_codec :: lane_codec where
  "wx_codec = \<lparr>lk_marshal = (\<lambda>r. if r = new_record wx_spec then Inr ''0'' else if r = wx_r1 then Inr ''1'' else Inl (Plain ''other'')),
     lk_unmarshal = (\<lambda>bs. if bs = ''0'' then Inr (new_record wx_spec) else if bs = ''1'' then Inr wx_r1 else Inl (Plain ''other''))\<rparr>"

definition wx_cp :: checkpoint_codec where
  "wx_cp = \<lparr>pk_marshal = (\<lambda>_. Inr ''c''), pk_unmarshal = (\<lambda>_. Inl (Plain ''opaque''))\<rparr>"

definition wx_we :: "(unit, unit) write_env" where
  "wx_we = \<lparr>we_sinks = (\<lambda>_. \<lparr>sk_Name = [], sk_Structured = False, sk_Idempotent = False, sk_Committer = False,
       sk_Write = (\<lambda>rq w. (w, Returned (AllWritten (rq_Count rq)))), sk_Flush = None\<rparr>),
     we_codecs = (\<lambda>_. \<lparr>cc_Encode = (\<lambda>r w. (w, Inr [])), cc_framer = None, cc_Compress = None, cc_contentType = [], cc_contentEncoding = []\<rparr>),
     we_retry = DefaultRetry, we_mainSinks = [''A''], we_failedSinks = [], we_trigger = 0, we_nackable = (\<lambda>_. False),
     we_ordering = (\<lambda>_. OrderingPrefix)\<rparr>"

definition wx_committer :: "unit committer" where
  "wx_committer = \<lparr>ct_PrepareCommit = (\<lambda>_ w. (w, Returned [])), ct_Commit = (\<lambda>_ w. (w, Returned [])), ct_AbortStale = (\<lambda>_ w. (w, Returned ())),
     ct_ResolveStale = None\<rparr>"

definition wx_env :: "'s state_ops \<Rightarrow> (unit, unit, 's) engine_env" where
  "wx_env ops = \<lparr>ee_we = wx_we, ee_inGraph = (\<lambda>_. True), ee_committer = (\<lambda>_. wx_committer), ee_state = (\<lambda>_. None),
     ee_sourceCommit = (\<lambda>_ _ w. (w, Returned ())), ee_codec = wx_codec, ee_cpCodec = wx_cp, ee_ops = ops, ee_tenant = ''t'', ee_pipeline = ''p'',
     ee_revision = 1, ee_worker = ''w1'', ee_version = [], ee_sources = [], ee_sinkNames = [], ee_grace = 0\<rparr>"

definition wx_cfg :: led_config where
  "wx_cfg = \<lparr>cfg_Tenant = ''t'', cfg_Pipeline = ''p'', cfg_DefaultBudget = 10, cfg_GroupTTL = 0\<rparr>"

definition wx_engine :: "'s \<Rightarrow> (unit, unit, 's) engine" where
  "wx_engine s = \<lparr>en_run = \<lparr>rn_world = (), rn_ledger = New wx_cfg, rn_outs = [], rn_pending = [], rn_covered = [], rn_nacks = [], rn_failure = None\<rparr>,
     en_ck = newCheckpointer, en_await = [], en_ckVersion = 0, en_lanes = [], en_store = s\<rparr>"

definition wx_fields :: spec_fields where
  "wx_fields = \<lparr>sf_tenant = ''t'', sf_pipeline = ''p'', sf_budget = 10\<rparr>"

definition wx_lt :: lease_table where "wx_lt = newLeaseTable False 0 ''t'' ''p'' ''w1''"

definition wx_rec :: "record_id \<Rightarrow> group_id \<Rightarrow> (unit, err) rec" where
  "wx_rec k g = \<lparr>rec_origin = \<lparr>o_Tenant = ''t'', o_Pipeline = ''p'', o_Node = ''n'', o_Lane = wx_lane, o_Stream = ''s'',
     o_Group = g, o_ID = k, o_Key = None, o_Upstream = None, o_ReadAt = 0, o_Parent = 0, o_Parents = None, o_Root = k, o_refs = 1\<rparr>,
     rec_Dest = ''s'', rec_EventTime = 0, rec_Payload = BytesPayload (Some ''a''), rec_Meta = empty_meta, rec_Change = None,
     rec_Schema = None, rec_handle = None, rec_fault = None\<rparr>"

definition wx_batch :: "record_id \<Rightarrow> group_id \<Rightarrow> (unit, err) batch" where
  "wx_batch k g = \<lparr>b_Records = [wx_rec k g], b_Lane = wx_lane, b_Position = zero_position\<lparr>pos_Safe := True\<rparr>, b_EndOfLane = False, b_group = g, b_cap = 10\<rparr>"

definition wx_admit :: "record_id \<Rightarrow> group_id \<Rightarrow> unit pipe_op list" where
  "wx_admit k g = [PLed (OpAdmitBegin 0 (wx_batch k g)), PLed (OpAdmitTrack 0 wx_lane), PLed (OpAdmitEnd wx_lane)]"

definition wx_run :: "unit pipe_op list" where
  "wx_run = [PLoad ''n'' wx_fields WhenFullBlock wx_lt, PAnnounce ''n'' WhenFullBlock wx_lt [wx_spec]] @ wx_admit 1 1 @ wx_admit 2 2 @
     [PLed (OpSettle [\<lparr>out_Record = 1, out_Disposition = Delivered, out_Node = ''A'', out_Fault = None\<rparr>]), PFlush wx_lt 5 FlushCheckpoint]"

definition wx_mem :: "(memstore \<times> bool) state_ops" where
  "wx_mem = watched (\<lambda>b _. wf_batch b) memstore_ops"

definition wx_end :: "(unit, unit, memstore \<times> bool) engine" where
  "wx_end = snd (the (pipe_run (wx_env wx_mem) wx_run ([], wx_engine (mem_New, True))))"

definition wx_next :: "(lane_ctl \<times> ledger \<times> memstore) \<times> err option" where
  "wx_next = lc_load wx_codec memstore_ops WhenFullBlock wx_lt (newLaneCtl ''w2'' wx_fields ''n'', New wx_cfg, fst (en_store wx_end))"

lemma wx_codec_ok: "codec_ok wx_codec"
  by (simp add: codec_ok_def wx_codec_def)

lemma wx_runs:
  "case pipe_run (wx_env wx_mem) wx_run ([], wx_engine (mem_New, True)) of None \<Rightarrow> False | Some (adm, en) \<Rightarrow> adm = [] \<and> snd (en_store en)"
  "map fst (led_groups (rn_ledger (en_run wx_end))) = [2]"
  "snd wx_next = None \<and> map (\<lambda>a. (la_ID a, pos_Seq (la_Cursor a))) (Assigned wx_lt 9 (fst (fst wx_next))) = [(wx_lane, 1)]"
  by code_simp+

lemma wx_seeds: "seeds wx_run lane = {}"
  by (simp add: wx_run_def wx_admit_def)

theorem next_holder_resumes_before_every_open_group_witness:
  "\<exists>l a. l = fst (fst wx_next) \<and> Assigned wx_lt 9 l = [a] \<and> map fst (led_groups (rn_ledger (en_run wx_end))) = [2] \<and>
     pos_Safe (la_Cursor a) \<and> before_open (rn_ledger (en_run wx_end)) (la_ID a) (la_Cursor a)"
proof -
  obtain a where a: "Assigned wx_lt 9 (fst (fst wx_next)) = [a]" "pos_Seq (la_Cursor a) = 1" using wx_runs(3) by auto
  obtain adm en where r: "pipe_run (wx_env wx_mem) wx_run ([], wx_engine (mem_New, True)) = Some (adm, en)"
    using wx_runs(1) by (cases "pipe_run (wx_env wx_mem) wx_run ([], wx_engine (mem_New, True))") auto
  then have e: "adm = []" "snd (en_store en)" "wx_end = en" using wx_runs(1) unfolding wx_end_def r by simp_all
  obtain s' where s': "en_store wx_end = (s', True)" "pipe_run (wx_env wx_mem) wx_run ([], wx_engine (mem_New, True)) = Some ([], wx_end)"
    using e r by (cases "en_store en") simp
  have n: "lc_load (ee_codec (wx_env wx_mem)) memstore_ops WhenFullBlock wx_lt (newLaneCtl ''w2'' wx_fields ''n'', New wx_cfg, s') =
      ((fst (fst wx_next), fst (snd (fst wx_next)), snd (snd (fst wx_next))), None)"
    using wx_runs(3) s'(1) by (simp add: wx_next_def wx_env_def prod_eq_iff)
  have "la_Cursor a \<in> (\<lambda>_. {zero_position}) (la_ID a) \<or> pos_Safe (la_Cursor a) \<and> before_open (rn_ledger (en_run wx_end)) (la_ID a) (la_Cursor a)"
    by (rule next_holder_resumes_before_every_open_group [OF s'(2,1), where cfg = wx_cfg and s = mem_New and lt' = wx_lt and now = 9, OF _ _ _ _ _ _ _ _ n])
      (use a in \<open>simp_all add: wx_env_def wx_mem_def wx_codec_ok wx_engine_def wx_seeds wx_fields_def mem_New_def versions_ok_def keyed_def rows_ok_def mem_view_def rows_def\<close>)
  moreover have "la_Cursor a \<noteq> zero_position" using a(2) by (auto simp: zero_position_def)
  ultimately show ?thesis using a(1) wx_runs(2) by simp
qed

text \<open>
  The same run over a log. The frames stay symbolic when it is evaluated: only their lengths are computed.
\<close>

lemma wal_commit_length [code]: "wal_commit aio cio e s =
     (case wal_append aio (encode e) s of
        (t, Some x) \<Rightarrow> (t, Some x)
      | (t, None) \<Rightarrow>
          let ix = wal_apply e (ws_ix t) in
          maybeCompact cio (t\<lparr>ws_ix := ix, ws_bytes := ws_bytes t + (frameHeader + length (payload_of e)), ws_live := liveBytes ix\<rparr>))"
  by (simp add: wal_commit_def length_encode add.assoc split: prod.split option.split)

declare encode_def [code del]

definition wx_wal :: "(wal \<times> bool) state_ops" where
  "wx_wal = watched wal_fits wal_ops"

definition wx_wend :: "(unit, unit, wal \<times> bool) engine" where
  "wx_wend = snd (the (pipe_run (wx_env wx_wal) wx_run ([], wx_engine (fresh, True))))"

definition wx_lanekey :: store_key where
  "wx_lanekey = \<lparr>key_Tenant = ''t'', key_Space = ''lane'', key_Parts = [''p'', wx_lane]\<rparr>"

definition wx_frames :: "entry list" where
  "wx_frames = [\<lparr>en_writes = [\<lparr>aw_key = wx_lanekey, aw_value = Some ''0'', aw_version = 1, aw_epochSeen = 1\<rparr>], en_deletes = []\<rparr>,
     \<lparr>en_writes = [\<lparr>aw_key = \<lparr>key_Tenant = ''t'', key_Space = ''checkpoint'', key_Parts = [''p'']\<rparr>, aw_value = Some ''c'', aw_version = 1, aw_epochSeen = 1\<rparr>,
        \<lparr>aw_key = wx_lanekey, aw_value = Some ''1'', aw_version = 2, aw_epochSeen = 1\<rparr>], en_deletes = []\<rparr>]"

lemma wx_wal_runs:
  "case pipe_run (wx_env wx_wal) wx_run ([], wx_engine (fresh, True)) of None \<Rightarrow> False | Some (adm, en) \<Rightarrow> adm = [] \<and> snd (en_store en)"
  "map fst (led_groups (rn_ledger (en_run wx_wend))) = [2]"
  by code_simp+

lemma wx_wal_log: "ws_log (fst (en_store wx_wend)) = log_header @ frames wx_frames"
  by (code_simp, simp add: numeral_2_eq_2)

definition wx_tail :: bytes where
  "wx_tail = take 5 (encode (hd wx_frames))"

definition wx_reopened :: wal where
  "wx_reopened = (let ix = fold wal_apply (map norm_entry wx_frames) empty_index in
     opened_wal (log_header @ frames wx_frames) formatVersion ix (liveBytes ix))"

definition wx_reloaded :: "(lane_ctl \<times> ledger \<times> wal) \<times> err option" where
  "wx_reloaded = lc_load wx_codec wal_ops WhenFullBlock wx_lt (newLaneCtl ''w1'' wx_fields ''n'', New wx_cfg, wx_reopened)"

lemma wx_frames_good: "list_all good wx_frames"
  by code_simp

lemma wx_reloads:
  "snd wx_reloaded = None \<and> map (\<lambda>a. (la_ID a, pos_Seq (la_Cursor a))) (Assigned wx_lt 9 (fst (fst wx_reloaded))) = [(wx_lane, 1)]"
  by code_simp

lemma wx_tail_torn: "readFrame wx_tail = FrameEOF \<or> readFrame wx_tail = FrameTorn"
proof -
  have "frame_fits (hd wx_frames)" using wx_frames_good by (simp add: wx_frames_def good_def)
  moreover have "5 < length (encode (hd wx_frames))" by (simp add: length_encode frameHeader_def)
  ultimately show ?thesis unfolding wx_tail_def by (rule torn_tail)
qed

theorem restart_resumes_before_every_open_group_witness:
  "\<exists>a. wal_Open CompactOK (ws_log (fst (en_store wx_wend)) @ wx_tail) = Inr wx_reopened \<and>
     Assigned wx_lt 9 (fst (fst wx_reloaded)) = [a] \<and> map fst (led_groups (rn_ledger (en_run wx_wend))) = [2] \<and>
     pos_Safe (la_Cursor a) \<and> before_open (rn_ledger (en_run wx_wend)) (la_ID a) (la_Cursor a)"
proof -
  obtain a where a: "Assigned wx_lt 9 (fst (fst wx_reloaded)) = [a]" "pos_Seq (la_Cursor a) = 1" using wx_reloads by auto
  obtain adm en where r: "pipe_run (wx_env wx_wal) wx_run ([], wx_engine (fresh, True)) = Some (adm, en)"
    using wx_wal_runs(1) by (cases "pipe_run (wx_env wx_wal) wx_run ([], wx_engine (fresh, True))") auto
  then have e: "adm = []" "snd (en_store en)" "wx_wend = en" using wx_wal_runs(1) unfolding wx_wend_def r by simp_all
  obtain s' where s': "en_store wx_wend = (s', True)" "pipe_run (wx_env wx_wal) wx_run ([], wx_engine (fresh, True)) = Some ([], wx_wend)"
    using e r by (cases "en_store en") simp
  have o: "wal_Open CompactOK (ws_log s' @ wx_tail) = Inr wx_reopened"
    using Open_frames [OF wx_frames_good wx_tail_torn, of CompactOK] wx_wal_log s'(1) by (simp add: wx_reopened_def Let_def)
  have n: "lc_load (ee_codec (wx_env wx_wal)) wal_ops WhenFullBlock wx_lt (newLaneCtl ''w1'' wx_fields ''n'', New wx_cfg, wx_reopened) =
      ((fst (fst wx_reloaded), fst (snd (fst wx_reloaded)), snd (snd (fst wx_reloaded))), None)"
    using wx_reloads by (simp add: wx_reloaded_def wx_env_def prod_eq_iff)
  have "la_Cursor a \<in> (\<lambda>_. {zero_position}) (la_ID a) \<or> pos_Safe (la_Cursor a) \<and> before_open (rn_ledger (en_run wx_wend)) (la_ID a) (la_Cursor a)"
    by (rule restart_resumes_before_every_open_group [OF s'(2,1), where cfg = wx_cfg and s = fresh and lt' = wx_lt and now = 9,
          OF _ _ _ _ _ fresh_inv _ _ wx_tail_torn o n])
      (use a in \<open>simp_all add: wx_env_def wx_wal_def wx_codec_ok wx_engine_def wx_seeds wx_fields_def fresh_def opened_wal_def empty_index_def
         rows_ok_def wal_view_def ix_view_def rows_def\<close>)
  moreover have "la_Cursor a \<noteq> zero_position" using a(2) by (auto simp: zero_position_def)
  ultimately show ?thesis using a(1) wx_wal_runs(2) o s'(1) by simp
qed

end
