(* ===== verification/Canal_LaneProps.thy ===== *)
theory Canal_LaneProps
  imports Canal_PipeProps
begin

text \<open>
  The properties of the lane table against a state store: the sole holder's cursor writes land and keep
  table and store in step, and three ways in which the table departs from what the code says of it.
\<close>

section \<open>Table and store in step\<close>

abbreviation row_name :: "lane_ctl \<Rightarrow> lane_id \<Rightarrow> string" where
  "row_name l lane \<equiv> key_String (lc_key l lane)"

text \<open>
  Every lane of the table has a row of the version the table presents, which decodes to the table's
  record, the stamped epoch apart.
\<close>

definition synced :: "lane_codec \<Rightarrow> lane_ctl \<Rightarrow> view \<Rightarrow> bool" where
  "synced c l V \<longleftrightarrow> (\<forall>lane rec. map_of (lc_lanes l) lane = Some rec \<longrightarrow>
     (\<exists>bs e. fst V (row_name l lane) = Some (bs, versionOf lane l) \<and> versionOf lane l \<noteq> 0 \<and>
        lk_unmarshal c bs = Inr (rec\<lparr>lx_CursorEpoch := e\<rparr>)))"

definition held_row :: "lease_table \<Rightarrow> time \<Rightarrow> lane_ctl \<Rightarrow> lane_id \<Rightarrow> (lane_record \<times> nat) option" where
  "held_row lt now l lane = (case map_of (lc_lanes l) lane of None \<Rightarrow> None
     | Some rec \<Rightarrow> (case fenceFor lane now lt of (_, False) \<Rightarrow> None | (e, True) \<Rightarrow> Some (rec, e)))"

definition fenced_write :: "lane_codec \<Rightarrow> lane_ctl \<Rightarrow> lane_id \<Rightarrow> position \<Rightarrow> lane_record \<Rightarrow> nat \<Rightarrow> versioned" where
  "fenced_write c l lane pos rec e = \<lparr>v_Key = lc_key l lane,
     v_Value = Some (projr (lk_marshal c (rec\<lparr>lx_Cursor := pos, lx_CursorEpoch := e\<rparr>))),
     v_IfVersion = versionOf lane l, v_Version = 0, v_Epoch = e\<rparr>"

lemma lc_key_inj [simp]: "lc_key l a = lc_key l b \<longleftrightarrow> a = b"
  by (auto simp: lc_key_def LaneKey_def)

text \<open>The rows a stage writes: the positions of the lanes the worker holds, each under its own epoch.\<close>

definition held_positions :: "lease_table \<Rightarrow> time \<Rightarrow> lane_ctl \<Rightarrow> (lane_id \<times> position) list \<Rightarrow> (lane_id \<times> position) list" where
  "held_positions lt now l ps = filter (\<lambda>(lane, _). held_row lt now l lane \<noteq> None) ps"

definition cursor_row :: "lane_codec \<Rightarrow> lease_table \<Rightarrow> time \<Rightarrow> lane_ctl \<Rightarrow> lane_id \<times> position \<Rightarrow> string \<times> versioned" where
  "cursor_row c lt now l x = (row_name l (fst x), (case the (held_row lt now l (fst x)) of (rec, e) \<Rightarrow> fenced_write c l (fst x) (snd x) rec e))"

lemma fold_aput_fresh:
  "distinct (map fst (acc @ xs)) \<Longrightarrow> fold (\<lambda>(k, v). AList.update k v) xs acc = acc @ xs"
proof (induction xs arbitrary: acc)
  case (Cons x xs)
  obtain k v where x: "x = (k, v)" by (cases x)
  have "AList.update k v acc = acc @ [(k, v)]" if "k \<notin> fst ` set acc" using that by (induction acc) auto
  then show ?case using Cons.IH [of "acc @ [x]"] Cons.prems by (simp add: x)
qed simp

lemma stage_rows_fold:
  assumes "stage_rows c lt now l ps b st = (b', Inr st')"
  shows "b' = b\<lparr>sb_Writes := fold (\<lambda>(n, v). AList.update n v) (map (cursor_row c lt now l) (held_positions lt now l ps)) (sb_Writes b)\<rparr> \<and>
    st' = fold (\<lambda>(k, v). AList.update k v) (held_positions lt now l ps) st"
  using assms
proof (induction ps arbitrary: b st)
  case (Cons x ps)
  obtain k pos where x: "x = (k, pos)" by (cases x)
  show ?case
  proof (cases "held_row lt now l k")
    case None
    then have "stage_rows c lt now l ps b st = stage_rows c lt now l (x # ps) b st"
      by (auto simp: x held_row_def split: option.splits prod.splits bool.splits)
    then show ?thesis using Cons.IH [of b st] Cons.prems None by (simp add: x held_positions_def)
  next
    case (Some y)
    obtain rec e where y: "y = (rec, e)" by (cases y)
    have h: "map_of (lc_lanes l) k = Some rec" "fenceFor k now lt = (e, True)"
      using Some y by (auto simp: held_row_def split: option.splits prod.splits bool.splits)
    obtain body where m: "lk_marshal c (rec\<lparr>lx_Cursor := pos, lx_CursorEpoch := e\<rparr>) = Inr body"
      using Cons.prems h by (auto simp: x split: sum.splits)
    let ?b = "PutFenced (lc_key l k) (Some body) (versionOf k l) e b"
    have q: "?b = b\<lparr>sb_Writes := AList.update (row_name l k) (fenced_write c l k pos rec e) (sb_Writes b)\<rparr>"
      by (simp add: PutFenced_def fenced_write_def m)
    have "stage_rows c lt now l ps ?b (AList.update k pos st) = (b', Inr st')" using Cons.prems h m by (simp add: x)
    from Cons.IH [OF this] show ?thesis unfolding q by (simp add: x Some y held_positions_def cursor_row_def)
  qed
qed (simp add: held_positions_def)

lemma stage_spec:
  assumes "lc_stage c lt now ps l (NewSBatch ep) = (b, Inr st)" and "distinct (map fst ps)"
  shows "st = held_positions lt now l ps \<and>
    b = \<lparr>sb_Epoch = ep, sb_Writes = map (cursor_row c lt now l) (held_positions lt now l ps), sb_Deletes = []\<rparr> \<and> wf_batch b"
proof -
  let ?h = "held_positions lt now l ps"
  have d: "distinct (map fst ?h)" using assms(2) by (simp add: held_positions_def distinct_map_filter)
  have m: "map fst (map (cursor_row c lt now l) ?h) = map (row_name l) (map fst ?h)" by (simp add: cursor_row_def)
  have e: "distinct (map fst (map (cursor_row c lt now l) ?h))"
    unfolding m using d by (subst distinct_map) (simp add: inj_on_def)
  have "st = ?h" "b = \<lparr>sb_Epoch = ep, sb_Writes = map (cursor_row c lt now l) ?h, sb_Deletes = []\<rparr>"
    using stage_rows_fold [of c lt now l ps "NewSBatch ep" "[]"] assms(1) fold_aput_fresh [of "[]" ?h] fold_aput_fresh [of "[]" "map (cursor_row c lt now l) ?h"] d e
    by (simp_all add: lc_stage_def NewSBatch_def)
  then show ?thesis using e by (auto simp: wf_batch_def wf_amap_def cursor_row_def fenced_write_def split: prod.splits)
qed

definition encodable :: "lane_codec \<Rightarrow> lease_table \<Rightarrow> time \<Rightarrow> lane_ctl \<Rightarrow> (lane_id \<times> position) list \<Rightarrow> bool" where
  "encodable c lt now l ps \<longleftrightarrow> (\<forall>(lane, pos) \<in> set ps. case held_row lt now l lane of None \<Rightarrow> True
     | Some (rec, e) \<Rightarrow> isl (lk_marshal c (rec\<lparr>lx_Cursor := pos, lx_CursorEpoch := e\<rparr>)) = False)"

lemma encodableD:
  "encodable c lt now l ps \<Longrightarrow> map_of ps lane = Some pos \<Longrightarrow> held_row lt now l lane = Some (rec, e) \<Longrightarrow>
    \<exists>bs. lk_marshal c (rec\<lparr>lx_Cursor := pos, lx_CursorEpoch := e\<rparr>) = Inr bs"
  by (cases "lk_marshal c (rec\<lparr>lx_Cursor := pos, lx_CursorEpoch := e\<rparr>)") (auto simp: encodable_def dest!: map_of_SomeD)

lemma stage_total: "encodable c lt now l ps \<Longrightarrow> \<exists>b' st'. stage_rows c lt now l ps b st = (b', Inr st')"
proof (induction ps arbitrary: b st)
  case (Cons x ps)
  obtain k pos where x: "x = (k, pos)" by (cases x)
  have n: "encodable c lt now l ps" using Cons.prems by (simp add: encodable_def)
  show ?case
  proof (cases "held_row lt now l k")
    case None
    then have "stage_rows c lt now l (x # ps) b st = stage_rows c lt now l ps b st"
      by (auto simp: x held_row_def split: option.splits prod.splits bool.splits)
    then show ?thesis using Cons.IH [OF n] by simp
  next
    case (Some y)
    obtain rec e where y: "y = (rec, e)" by (cases y)
    have "map_of (lc_lanes l) k = Some rec" "fenceFor k now lt = (e, True)"
      using Some y by (auto simp: held_row_def split: option.splits prod.splits bool.splits)
    moreover obtain bs where "lk_marshal c (rec\<lparr>lx_Cursor := pos, lx_CursorEpoch := e\<rparr>) = Inr bs"
      using encodableD [OF Cons.prems, of k pos] Some y by (auto simp: x)
    ultimately show ?thesis using Cons.IH [OF n] by (simp add: x)
  qed
qed simp

lemma commit_view_writes:
  assumes "wf_amap (sb_Writes b)" and "sb_Deletes b = []"
  shows "fst (commit_view b V) n = (case map_of (sb_Writes b) n of None \<Rightarrow> fst V n
    | Some v \<Rightarrow> Some (content (v_Value v), (case fst V n of None \<Rightarrow> 1 | Some (_, ver) \<Rightarrow> ver + 1)))"
proof -
  have "fst (fold (put_view b) ws V) n = (case map_of ws n of None \<Rightarrow> fst V n
    | Some v \<Rightarrow> Some (content (v_Value v), (case fst V n of None \<Rightarrow> 1 | Some (_, ver) \<Rightarrow> ver + 1)))" if "wf_amap ws" for ws
    using that
  proof (induction ws arbitrary: V)
    case (Cons w ws)
    obtain m v where w: "w = (m, v)" by (cases w)
    have "map_of ws m = None" "wf_amap ws" using Cons.prems by (auto simp: w wf_amap_def map_of_eq_None_iff)
    then show ?case using Cons.IH [of "put_view b w V"] by (auto simp: w put_view_def split: option.splits)
  qed simp
  then show ?thesis using assms by (simp add: commit_view_def)
qed

text \<open>The table after a stage landed.\<close>

lemma landed_fields:
  assumes "distinct (map fst st)"
  shows "lc_fields (stage_landed st l) = lc_fields l"
    and "map_of (lc_lanes (stage_landed st l)) lane =
      map_option (\<lambda>rec. case map_of st lane of None \<Rightarrow> rec | Some pos \<Rightarrow> rec\<lparr>lx_Cursor := pos\<rparr>) (map_of (lc_lanes l) lane)"
    and "versionOf lane (stage_landed st l) = (if lane \<in> fst ` set st then versionOf lane l + 1 else versionOf lane l)"
proof -
  have "lc_fields (fold land_one st l) = lc_fields l \<and>
      map_of (lc_lanes (fold land_one st l)) lane =
        map_option (\<lambda>rec. case map_of st lane of None \<Rightarrow> rec | Some pos \<Rightarrow> rec\<lparr>lx_Cursor := pos\<rparr>) (map_of (lc_lanes l) lane) \<and>
      versionOf lane (fold land_one st l) = (if lane \<in> fst ` set st then versionOf lane l + 1 else versionOf lane l)"
    using assms
  proof (induction st arbitrary: l)
    case (Cons x st)
    obtain k pos where x: "x = (k, pos)" by (cases x)
    have 1: "lc_fields (land_one x l) = lc_fields l"
      "map_of (lc_lanes (land_one x l)) lane = map_option (\<lambda>r. if lane = k then r\<lparr>lx_Cursor := pos\<rparr> else r) (map_of (lc_lanes l) lane)"
      "versionOf lane (land_one x l) = (if lane = k then versionOf lane l + 1 else versionOf lane l)"
      by (simp_all add: x land_one_def bump_version_def versionOf_def)
    have "k \<notin> fst ` set st" "distinct (map fst st)" using Cons.prems by (auto simp: x)
    moreover from this have "map_of st k = None" by (simp add: map_of_eq_None_iff)
    ultimately show ?case using Cons.IH [of "land_one x l"] 1
      by (cases "lane = k") (auto simp: x option.map_comp comp_def)
  qed (simp add: option.map_ident)
  then show "lc_fields (stage_landed st l) = lc_fields l"
    and "map_of (lc_lanes (stage_landed st l)) lane =
      map_option (\<lambda>rec. case map_of st lane of None \<Rightarrow> rec | Some pos \<Rightarrow> rec\<lparr>lx_Cursor := pos\<rparr>) (map_of (lc_lanes l) lane)"
    and "versionOf lane (stage_landed st l) = (if lane \<in> fst ` set st then versionOf lane l + 1 else versionOf lane l)"
    by (simp_all add: stage_landed_def)
qed

context lane_store
begin

text \<open>The batch of a stage against a store in step: it is allowed, and leaves table and store in step.\<close>

lemma staged_allowed:
  assumes "synced c l (view s)" and "distinct (map fst ps)" and "lc_stage c lt now ps l (NewSBatch ep) = (b, Inr st)"
    and floors: "\<And>lane rec e. held_row lt now l lane = Some (rec, e) \<Longrightarrow> snd (view s) (row_name l lane) \<le> e"
  shows "allowed b (view s)"
proof -
  note b = stage_spec [OF assms(3,2)]
  have "snd (view s) n \<le> EpochFor b v \<and> cas_ok v (fst (view s) n)" if "(n, v) \<in> set (sb_Writes b)" for n v
  proof -
    have "(n, v) \<in> cursor_row c lt now l ` set (held_positions lt now l ps)" using that b by simp
    then obtain lane pos where x: "(lane, pos) \<in> set (held_positions lt now l ps)" "(n, v) = cursor_row c lt now l (lane, pos)"
      by (auto simp only: image_iff)
    then obtain rec e where h: "held_row lt now l lane = Some (rec, e)" by (auto simp: held_positions_def)
    then have v: "n = row_name l lane" "v = fenced_write c l lane pos rec e" using x(2) by (simp_all add: cursor_row_def)
    have "map_of (lc_lanes l) lane = Some rec" using h by (auto simp: held_row_def split: option.splits prod.splits bool.splits)
    then obtain bs where "fst (view s) n = Some (bs, versionOf lane l)" "versionOf lane l \<noteq> 0" using assms(1) unfolding synced_def v by blast
    then show ?thesis using floors [OF h] by (auto simp: v fenced_write_def cas_ok_def EpochFor_def)
  qed
  moreover have "sb_Deletes b = []" using b by simp
  ultimately show ?thesis unfolding allowed_def by auto
qed

lemma staged_row:
  assumes "distinct (map fst ps)" and "lc_stage c lt now ps l (NewSBatch ep) = (b, Inr st)"
  shows "map_of (sb_Writes b) (row_name l lane) = (case map_of ps lane of None \<Rightarrow> None
    | Some pos \<Rightarrow> (case held_row lt now l lane of None \<Rightarrow> None | Some (rec, e) \<Rightarrow> Some (fenced_write c l lane pos rec e)))"
    and "map_of st lane = (case map_of ps lane of None \<Rightarrow> None | Some pos \<Rightarrow> if held_row lt now l lane = None then None else Some pos)"
proof -
  note b = stage_spec [OF assms(2,1)]
  have "map_of (held_positions lt now l ps) lane = (case map_of ps lane of None \<Rightarrow> None
      | Some pos \<Rightarrow> if held_row lt now l lane = None then None else Some pos)"
    by (induction ps) (auto simp: held_positions_def split: option.splits)
  then show 2: "map_of st lane = (case map_of ps lane of None \<Rightarrow> None | Some pos \<Rightarrow> if held_row lt now l lane = None then None else Some pos)"
    using b by simp
  have "map_of (map (cursor_row c lt now l) h) (row_name l lane) =
      map_option (\<lambda>pos. case the (held_row lt now l lane) of (rec, e) \<Rightarrow> fenced_write c l lane pos rec e) (map_of h lane)" for h
    by (induction h) (auto simp: cursor_row_def)
  then show "map_of (sb_Writes b) (row_name l lane) = (case map_of ps lane of None \<Rightarrow> None
    | Some pos \<Rightarrow> (case held_row lt now l lane of None \<Rightarrow> None | Some (rec, e) \<Rightarrow> Some (fenced_write c l lane pos rec e)))"
    using b 2 by (auto split: option.splits)
qed

lemma staged_synced:
  assumes "synced c l (view s)" and "codec_ok c" and "encodable c lt now l ps" and "distinct (map fst ps)"
    and "lc_stage c lt now ps l (NewSBatch ep) = (b, Inr st)"
  shows "synced c (stage_landed st l) (commit_view b (view s))"
  unfolding synced_def
proof (intro allI impI)
  fix lane rec assume r: "map_of (lc_lanes (stage_landed st l)) lane = Some rec"
  note b = stage_spec [OF assms(5,4)] and w = staged_row [OF assms(4,5), of lane]
  have d: "distinct (map fst st)" using b assms(4) by (simp add: held_positions_def distinct_map_filter)
  note f = landed_fields(1) [OF d, where l = l] landed_fields(2,3) [OF d, where l = l and lane = lane]
  have n: "row_name (stage_landed st l) lane = row_name l lane" by (simp add: lc_key_def f(1))
  obtain old where o: "map_of (lc_lanes l) lane = Some old" "rec = (case map_of st lane of None \<Rightarrow> old | Some pos \<Rightarrow> old\<lparr>lx_Cursor := pos\<rparr>)"
    using r f(2) by auto
  obtain bs e where s: "fst (view s) (row_name l lane) = Some (bs, versionOf lane l)" "versionOf lane l \<noteq> 0"
      "lk_unmarshal c bs = Inr (old\<lparr>lx_CursorEpoch := e\<rparr>)" using assms(1) o(1) unfolding synced_def by blast
  have c: "fst (commit_view b (view s)) (row_name l lane) = (case map_of (sb_Writes b) (row_name l lane) of None \<Rightarrow> fst (view s) (row_name l lane)
      | Some v \<Rightarrow> Some (content (v_Value v), versionOf lane l + 1))"
    using commit_view_writes [of b "view s" "row_name l lane"] b s(1) by (auto simp: wf_batch_def split: option.splits)
  show "\<exists>bs e. fst (commit_view b (view s)) (row_name (stage_landed st l) lane) = Some (bs, versionOf lane (stage_landed st l)) \<and>
      versionOf lane (stage_landed st l) \<noteq> 0 \<and> lk_unmarshal c bs = Inr (rec\<lparr>lx_CursorEpoch := e\<rparr>)"
  proof (cases "map_of st lane")
    case None
    then have "map_of (sb_Writes b) (row_name l lane) = None" using w by (auto split: option.splits if_splits)
    moreover have "lane \<notin> fst ` set st" using None by (simp add: map_of_eq_None_iff)
    ultimately show ?thesis using s c o(2) None f(3) by (auto simp: n)
  next
    case (Some pos)
    then obtain h e where h: "map_of ps lane = Some pos" "held_row lt now l lane = Some (h, e)" using w(2) by (auto split: option.splits if_splits)
    have "h = old" using h(2) o(1) by (auto simp: held_row_def split: prod.splits bool.splits)
    obtain body where m: "lk_marshal c (old\<lparr>lx_Cursor := pos, lx_CursorEpoch := e\<rparr>) = Inr body"
      using encodableD [OF assms(3) h] \<open>h = old\<close> by blast
    have "map_of (sb_Writes b) (row_name l lane) = Some (fenced_write c l lane pos old e)" using w(1) h \<open>h = old\<close> by simp
    then have "fst (commit_view b (view s)) (row_name l lane) = Some (body, versionOf lane l + 1)" using c m by (simp add: fenced_write_def content_def)
    moreover have "lane \<in> fst ` set st" using Some by (metis map_of_eq_None_iff option.distinct(1))
    moreover have "lk_unmarshal c body = Inr (rec\<lparr>lx_CursorEpoch := e\<rparr>)" using m assms(2) o(2) Some by (simp add: codec_ok_def)
    ultimately show ?thesis using f(3) by (auto simp: n)
  qed
qed

text \<open>The commit of a table in step with the store.\<close>

lemma commit_lands:
  assumes "invar s" and "synced c l (view s)" and "codec_ok c" and "encodable c lt now l ps" and "distinct (map fst ps)"
    and "\<And>lane rec e. held_row lt now l lane = Some (rec, e) \<Longrightarrow> snd (view s) (row_name l lane) \<le> e"
    and "\<And>b st. lc_stage c lt now ps l (NewSBatch singleWorkerEpoch) = (b, Inr st) \<Longrightarrow> fits b s"
  shows "\<exists>l' s'. lc_commit c ops lt now ps (l, s) = ((l', s'), None) \<and> invar s' \<and> synced c l' (view s') \<and>
    (\<forall>lane pos rec. map_of ps lane = Some pos \<and> map_of (lc_lanes l) lane = Some rec \<longrightarrow>
       map_of (lc_lanes l') lane = Some (if held_row lt now l lane = None then rec else rec\<lparr>lx_Cursor := pos\<rparr>))"
proof -
  obtain b st where g: "lc_stage c lt now ps l (NewSBatch singleWorkerEpoch) = (b, Inr st)"
    using stage_total [OF assms(4), of "NewSBatch singleWorkerEpoch" "[]"] unfolding lc_stage_def by blast
  note b = stage_spec [OF g assms(5)] and w = staged_row [OF assms(5) g]
  have d: "distinct (map fst st)" using b assms(5) by (simp add: held_positions_def distinct_map_filter)
  have q: "map_of (lc_lanes (stage_landed st l)) lane = Some (if held_row lt now l lane = None then rec else rec\<lparr>lx_Cursor := pos\<rparr>)"
    if "map_of ps lane = Some pos" "map_of (lc_lanes l) lane = Some rec" for lane pos rec
    using that landed_fields(2) [OF d, of l lane] w(2) [of lane] by simp
  show ?thesis
  proof (cases "st = []")
    case True
    then have "sbatch_Len b = 0" using b by (simp add: sbatch_Len_def)
    then have "lc_commit c ops lt now ps (l, s) = ((l, s), None)" using g by (simp add: lc_commit_def)
    moreover have "stage_landed st l = l" using True by (simp add: stage_landed_def)
    ultimately show ?thesis using assms(1,2) q by auto
  next
    case False
    then have n: "sbatch_Len b \<noteq> 0" "ps \<noteq> []" using b by (auto simp: sbatch_Len_def held_positions_def)
    have a: "allowed b (view s)" by (rule staged_allowed [OF assms(2,5) g assms(6)])
    obtain s' er where z: "so_Set ops b s = (s', er)" by fastforce
    have "view s' = commit_view b (view s)" "er = None" "invar s'"
      using set_refines [OF assms(1) assms(7) [OF g]] set_invar [OF assms(1) assms(7) [OF g]] a z by (auto simp: set_view_def)
    moreover from this have "lc_commit c ops lt now ps (l, s) = ((stage_landed st l, s'), None)" using g n z by (simp add: lc_commit_def)
    moreover have "synced c (stage_landed st l) (commit_view b (view s))" by (rule staged_synced [OF assms(2,3,4,5) g])
    ultimately show ?thesis using q by auto
  qed
qed

end

text \<open>
  C14: The holder's cursor write lands. Let a lane table and the log be in step, and let no later lease
  have written a lane this worker still holds. Then committing positions succeeds, whatever lanes were
  lost meanwhile: the cursor of every held lane is its position, the lanes no longer held keep theirs,
  and table and log are in step again, so that the next write succeeds too.
\<close>
theorem holders_cursor_write_lands:
  assumes "wal_inv s" and "synced c l (wal_view s)" and "codec_ok c" and "encodable c lt now l ps" and "distinct (map fst ps)"
    and "\<And>lane rec e. held_row lt now l lane = Some (rec, e) \<Longrightarrow> snd (wal_view s) (row_name l lane) \<le> e"
    and "\<And>b st. lc_stage c lt now ps l (NewSBatch singleWorkerEpoch) = (b, Inr st) \<Longrightarrow> wal_fits b s"
  shows "\<exists>l' s'. lc_commit c wal_ops lt now ps (l, s) = ((l', s'), None) \<and> wal_inv s' \<and> synced c l' (wal_view s') \<and>
    (\<forall>lane pos rec. map_of ps lane = Some pos \<and> map_of (lc_lanes l) lane = Some rec \<longrightarrow>
       map_of (lc_lanes l') lane = Some (if held_row lt now l lane = None then rec else rec\<lparr>lx_Cursor := pos\<rparr>))"
  by (rule wal_lanes.commit_lands [OF assms])

text \<open>A table with one lane, and the log its announcement left.\<close>

definition vx_table :: lane_ctl where
  "vx_table = (newLaneCtl ''w1'' wx_fields ''n'')\<lparr>lc_lanes := [(wx_lane, new_record wx_spec)], lc_order := [wx_lane], lc_versions := [(wx_lane, 1)]\<rparr>"

definition vx_batch :: sbatch where
  "vx_batch = Put (lc_key vx_table wx_lane) (Some ''0'') 0 (NewSBatch singleWorkerEpoch)"

definition vx_log :: wal where
  "vx_log = fst (wal_Set AppendOK CompactOK vx_batch fresh)"

definition vx_pos :: position where
  "vx_pos = zero_position\<lparr>pos_Safe := True, pos_Seq := 1\<rparr>"

lemma vx_log_inv: "wal_inv vx_log"
proof -
  have "wal_fits vx_batch fresh" by code_simp
  then show ?thesis unfolding vx_log_def by (rule wal.set_invar [OF fresh_inv])
qed

lemma vx_synced: "synced wx_codec vx_table (wal_view vx_log)"
proof -
  have v: "fst (wal_view vx_log) (row_name vx_table wx_lane) = Some (''0'', 1)" by code_simp
  have "versionOf wx_lane vx_table = 1" "map_of (lc_lanes vx_table) = [wx_lane \<mapsto> new_record wx_spec]" by (simp_all add: versionOf_def vx_table_def)
  moreover have "lk_unmarshal wx_codec ''0'' = Inr ((new_record wx_spec)\<lparr>lx_CursorEpoch := 0\<rparr>)" by (simp add: wx_codec_def new_record_def)
  ultimately show ?thesis using v unfolding synced_def by (auto split: if_splits)
qed

theorem holders_cursor_write_lands_witness:
  "\<exists>l' s'. lc_commit wx_codec wal_ops wx_lt 5 [(wx_lane, vx_pos)] (vx_table, vx_log) = ((l', s'), None) \<and> wal_inv s' \<and>
     synced wx_codec l' (wal_view s') \<and> map_of (lc_lanes l') wx_lane = Some ((new_record wx_spec)\<lparr>lx_Cursor := vx_pos\<rparr>)"
proof -
  have e: "encodable wx_codec wx_lt 5 vx_table [(wx_lane, vx_pos)]" by code_simp
  have f: "wal_fits b vx_log" if "lc_stage wx_codec wx_lt 5 [(wx_lane, vx_pos)] vx_table (NewSBatch singleWorkerEpoch) = (b, Inr st)" for b st
  proof -
    have "case lc_stage wx_codec wx_lt 5 [(wx_lane, vx_pos)] vx_table (NewSBatch singleWorkerEpoch) of (b, r) \<Rightarrow> wal_fits b vx_log" by code_simp
    then show ?thesis using that by simp
  qed
  have h: "snd (wal_view vx_log) (row_name vx_table lane) \<le> ep" if "held_row wx_lt 5 vx_table lane = Some (rec, ep)" for lane rec ep
  proof -
    have "lane = wx_lane" "ep = 1" using that
      by (auto simp: held_row_def vx_table_def fenceFor_def wx_lt_def newLeaseTable_def coordinated_def singleWorkerEpoch_def split: if_splits)
    moreover have "snd (wal_view vx_log) (row_name vx_table wx_lane) \<le> 1" by code_simp
    ultimately show ?thesis by simp
  qed
  have r: "held_row wx_lt 5 vx_table wx_lane \<noteq> None" "map_of (lc_lanes vx_table) wx_lane = Some (new_record wx_spec)" by code_simp+
  from holders_cursor_write_lands [OF vx_log_inv vx_synced wx_codec_ok e _ h f] r show ?thesis by fastforce
qed

section \<open>A forgotten lane\<close>

context lane_store
begin

lemma forgotten_is_refused:
  assumes "invar s" and "lc_has lane l" and "fenceFor lane now lt = (e, True)" and "1 < e"
    and "Forget ops lt now lane (l, s) = ((l', s'), None)" and "fits (DelFenced (lc_key l lane) e (NewSBatch singleWorkerEpoch)) s"
    and "sp_Name spec \<noteq> []" and "lane = DeriveLaneID (sf_tenant (lc_fields l)) (sf_pipeline (lc_fields l)) (lc_node l) (sp_Name spec)"
    and "lk_marshal c (new_record spec) = Inr body" and "fits (Put (lc_key l lane) (Some body) 0 (NewSBatch singleWorkerEpoch)) s'"
  shows "\<exists>x. snd (announceMany c ops whenF lt' [spec] (l', led, s')) = Inl x"
proof -
  let ?d = "DelFenced (lc_key l lane) e (NewSBatch singleWorkerEpoch)" and ?b = "Put (lc_key l lane) (Some body) 0 (NewSBatch singleWorkerEpoch)"
  obtain t r where z: "so_Set ops ?d s = (t, r)" by fastforce
  have f: "r = None" "s' = t" "l' = lc_notify (l\<lparr>lc_lanes := AList.delete lane (lc_lanes l), lc_order := remove1 lane (lc_order l)\<rparr>)"
    using assms(2,3,5) z by (auto simp: Forget_def split: option.splits)
  have v: "view s' = commit_view ?d (view s)" "invar s'"
    using set_refines [OF assms(1,6)] set_invar [OF assms(1,6)] z f(1,2) by (auto simp: set_view_def split: if_splits)
  have "touches ?d (row_name l lane) e" using assms(4) by (simp add: touches_def DelFenced_def NewSBatch_def EpochForDelete_def)
  then have "1 < snd (view s') (row_name l lane)" using floor_commit_ge [of ?d "row_name l lane" e "view s"] assms(4) v(1) by simp
  moreover have "touches ?b (row_name l lane) 1" by (simp add: touches_def Put_def NewSBatch_def EpochFor_def singleWorkerEpoch_def)
  ultimately have "\<not> allowed ?b (view s')" using allowed_touches by fastforce
  then have "snd (so_Set ops ?b s') \<noteq> None" using set_refines [OF v(2) assms(10)] by (auto simp: set_view_def)
  moreover have "\<not> lc_has lane l'" "lc_fields l' = lc_fields l" "lc_node l' = lc_node l" by (simp_all add: f(3) lc_notify_def lc_has_def)
  moreover have "lc_key l' lane = lc_key l lane" by (simp add: lc_key_def f(3) lc_notify_def)
  moreover have "0 < sbatch_Len ?b" by (simp add: sbatch_Len_def Put_def NewSBatch_def)
  ultimately show ?thesis using assms(7,8,9) by (auto simp: announceMany_def Let_def split: prod.splits option.splits)
qed

end

text \<open>
  A forgotten lane cannot be announced again. Once a worker that holds a lane under a lease epoch
  above the first has forgotten it, announcing the lane again fails, under any lease: the deletion raised
  the row's fence to the lease's epoch and an announcement is written under the first.
\<close>
theorem forgotten_lane_is_not_announced_again:
  assumes "versions_ok (ms_data s) \<and> keyed (ms_data s)" and "lc_has lane l" and "fenceFor lane now lt = (e, True)" and "1 < e"
    and "Forget memstore_ops lt now lane (l, s) = ((l', s'), None)" and "sp_Name spec \<noteq> []"
    and "lane = DeriveLaneID (sf_tenant (lc_fields l)) (sf_pipeline (lc_fields l)) (lc_node l) (sp_Name spec)"
    and "lk_marshal c (new_record spec) = Inr body"
  shows "\<exists>x. snd (announceMany c memstore_ops whenF lt' [spec] (l', led, s')) = Inl x"
  by (rule mem_lanes.forgotten_is_refused [OF assms(1-5) _ assms(6-8)]) simp_all

definition vx_leases :: lease_table where
  "vx_leases = (newLeaseTable True 0 ''t'' ''p'' ''w1'')\<lparr>lt_held := [(wx_lane, \<lparr>le_Assignment = ''a'', le_Worker = ''w1'', le_Epoch = 2, le_Expires = 100\<rparr>)]\<rparr>"

definition vx_mem :: memstore where
  "vx_mem = fst (mem_Set vx_batch mem_New)"

definition vx_forgot :: "(lane_ctl \<times> memstore) \<times> err option" where
  "vx_forgot = Forget memstore_ops vx_leases 5 wx_lane (vx_table, vx_mem)"

theorem forgotten_lane_is_not_announced_again_witness:
  "snd vx_forgot = None \<and>
   (\<exists>x. snd (announceMany wx_codec memstore_ops WhenFullBlock vx_leases [wx_spec] (fst (fst vx_forgot), New wx_cfg, snd (fst vx_forgot))) = Inl x)"
proof -
  have n: "snd vx_forgot = None" by code_simp
  then have f: "Forget memstore_ops vx_leases 5 wx_lane (vx_table, vx_mem) = ((fst (fst vx_forgot), snd (fst vx_forgot)), None)"
    by (simp add: vx_forgot_def prod_eq_iff)
  have i: "versions_ok (ms_data vx_mem) \<and> keyed (ms_data vx_mem)"
    using mem_lanes.set_invar [of mem_New vx_batch] by (simp add: vx_mem_def vx_batch_def memstore_ops_def mem_New_def versions_ok_def keyed_def)
  have h: "lc_has wx_lane vx_table" "fenceFor wx_lane 5 vx_leases = (2, True)" by code_simp+
  have m: "lk_marshal wx_codec (new_record wx_spec) = Inr ''0''" by (simp add: wx_codec_def)
  from forgotten_lane_is_not_announced_again [OF i h _ f _ _ m, where whenF = WhenFullBlock and lt' = vx_leases and led = "New wx_cfg"] n
  show ?thesis by (simp add: wx_spec_def wx_lane_def vx_table_def newLaneCtl_def wx_fields_def)
qed

section \<open>Whose lanes a node loads\<close>

lemma load_rows_find:
  assumes "load_rows c rws l = (l', None)" and "(k, v) \<in> set rws" and "lk_unmarshal c (content (v_Value v)) = Inr rec"
    and "\<And>k' v'. (k', v') \<in> set rws \<Longrightarrow> last (key_Parts k') = last (key_Parts k) \<Longrightarrow> (k', v') = (k, v)"
  shows "map_of (lc_lanes l') (last (key_Parts k)) = Some rec \<and> last (key_Parts k) \<in> set (lc_order l')"
proof -
  have keep: "map_of (lc_lanes m') x = map_of (lc_lanes m) x \<and> set (lc_order m) \<subseteq> set (lc_order m')"
    if "load_rows c rs m = (m', None)" "\<forall>(k', v') \<in> set rs. last (key_Parts k') \<noteq> x" for rs m m' x
    using that by (induction c rs m rule: load_rows.induct) (auto simp: Let_def split: sum.splits)
  have grow: "set (lc_order m) \<subseteq> set (lc_order m')" if "load_rows c rs m = (m', None)" for rs m m'
    using that by (induction c rs m rule: load_rows.induct) (auto simp: Let_def split: sum.splits)
  show ?thesis using assms
  proof (induction rws arbitrary: l)
    case (Cons r rws)
    obtain k1 v1 where r: "r = (k1, v1)" by (cases r)
    obtain rec1 where u: "lk_unmarshal c (content (v_Value v1)) = Inr rec1" using Cons.prems(1) by (auto simp: r split: sum.splits)
    let ?l = "l\<lparr>lc_lanes := aput (last (key_Parts k1)) rec1 (lc_lanes l), lc_versions := aput (last (key_Parts k1)) (v_Version v1) (lc_versions l),
      lc_order := lc_order l @ [last (key_Parts k1)]\<rparr>"
    have n: "load_rows c rws ?l = (l', None)" using Cons.prems(1) u by (simp add: r Let_def)
    show ?case
    proof (cases "(k, v) \<in> set rws")
      case True
      then show ?thesis using Cons.IH [OF n True Cons.prems(3)] Cons.prems(4) by auto
    next
      case False
      then have e: "(k1, v1) = (k, v)" using Cons.prems(2) r by simp
      have "\<forall>(k', v') \<in> set rws. last (key_Parts k') \<noteq> last (key_Parts k)" using Cons.prems(4) False by fastforce
      from keep [OF n this] show ?thesis using e u Cons.prems(3) grow [OF n] by auto
    qed
  qed simp
qed

lemma mem_Range_iff: "keyed (ms_data s) \<Longrightarrow> (k, v) \<in> set (mem_Range p s) \<longleftrightarrow> map_of (ms_data s) (key_String k) = Some v \<and> v_Key v = k \<and> key_Prefix k p"
proof -
  assume kd: "keyed (ms_data s)"
  have "(k, v) \<in> set (mem_Range p s) \<longleftrightarrow> (\<exists>n. (n, v) \<in> set (ms_data s) \<and> k = v_Key v \<and> key_Prefix (v_Key v) p)"
    by (auto simp: mem_Range_def range_rows_def)
  moreover have "(n, v) \<in> set (ms_data s) \<longleftrightarrow> map_of (ms_data s) n = Some v \<and> n = key_String (v_Key v)" for n
    using kd by (auto simp: keyed_def wf_amap_mem)
  ultimately show ?thesis by auto
qed

lemma load_rows_pending: "load_rows c rws l = (l', e) \<Longrightarrow> lc_finishPending l' = lc_finishPending l"
  by (induction c rws l rule: load_rows.induct) (auto simp: Let_def split: sum.splits)

text \<open>
  A node is offered the lanes of every node. Without a coordinator, a source node that opens over a
  store with a lane row of its pipeline is assigned that lane, whichever node announced it: the table is
  loaded from all lane rows of the pipeline, although the code says it holds this node's.
\<close>
theorem every_node_is_offered_every_lane:
  assumes "keyed (ms_data s)" and "map_of (ms_data s) (key_String (LaneKey t p lane)) = Some v"
    and "set (map fst (mem_Range (LanePrefix t p) s)) \<subseteq> range (LaneKey t p)"
    and "lk_unmarshal c (content (v_Value v)) = Inr rec" and "\<not> lx_Finished rec" and "sp_StartAfter (lx_Spec rec) = []"
    and "\<not> coordinated lt" and "sf_tenant f = t" and "sf_pipeline f = p"
    and "lc_load c memstore_ops whenF lt (newLaneCtl w f node, led, s) = ((l, led', s'), None)"
  shows "\<exists>a. a \<in> set (Assigned lt now l) \<and> la_ID a = lane \<and> la_Cursor a = lx_Cursor rec"
proof -
  have pre: "lane_prefix (newLaneCtl w f node) = LanePrefix t p" using assms(8,9) by (simp add: lane_prefix_def newLaneCtl_def LanePrefix_def)
  have r: "load_rows c (mem_Range (LanePrefix t p) s) (newLaneCtl w f node) = (l, None)"
    using assms(10) pre by (auto simp: lc_load_def memstore_ops_def Let_def split: option.splits prod.splits)
  have "v_Key v = LaneKey t p lane" using assms(1,2) by (auto simp: keyed_def dest!: map_of_SomeD)
  then have m: "(LaneKey t p lane, v) \<in> set (mem_Range (LanePrefix t p) s)"
    using assms(2) by (simp add: mem_Range_iff [OF assms(1)]) (simp add: LaneKey_def LanePrefix_def key_Prefix_iff)
  have u: "(k', v') = (LaneKey t p lane, v)" if "(k', v') \<in> set (mem_Range (LanePrefix t p) s)"
    and "last (key_Parts k') = last (key_Parts (LaneKey t p lane))" for k' v'
  proof -
    have "k' \<in> range (LaneKey t p)" using imageI [OF that(1), of fst] assms(3) by auto
    then show ?thesis using that assms(2) mem_Range_iff [OF assms(1), of k' v'] by (auto simp: LaneKey_def)
  qed
  have f: "map_of (lc_lanes l) lane = Some rec" "lane \<in> set (lc_order l)"
    using load_rows_find [OF r m assms(4) u] by (simp_all add: LaneKey_def)
  have "lc_finishPending l = []" using load_rows_pending [OF r] by (simp add: newLaneCtl_def)
  then have "offered lt now l lane rec" using assms(5,6,7) by (simp add: offered_def lt_holds_def gatedOnLocked_def)
  then have "assignment_of lt l lane rec \<in> set (Assigned lt now l)" using f unfolding Assigned_def by (auto intro!: bexI [of _ lane])
  then show ?thesis by (intro exI [of _ "assignment_of lt l lane rec"]) (simp add: assignment_of_def)
qed

definition vx_other :: "(lane_ctl \<times> ledger \<times> memstore) \<times> err option" where
  "vx_other = lc_load wx_codec memstore_ops WhenFullBlock wx_lt (newLaneCtl ''w1'' wx_fields ''other'', New wx_cfg, vx_mem)"

theorem every_node_is_offered_every_lane_witness:
  "wx_lane = DeriveLaneID ''t'' ''p'' ''n'' ''x'' \<and> lc_node (fst (fst vx_other)) = ''other'' \<and>
     (\<exists>a. a \<in> set (Assigned wx_lt 5 (fst (fst vx_other))) \<and> la_ID a = wx_lane)"
proof -
  have n: "snd vx_other = None" "lc_node (fst (fst vx_other)) = ''other''" by code_simp+
  have l: "lc_load wx_codec memstore_ops WhenFullBlock wx_lt (newLaneCtl ''w1'' wx_fields ''other'', New wx_cfg, vx_mem) =
      ((fst (fst vx_other), fst (snd (fst vx_other)), snd (snd (fst vx_other))), None)" using n(1) by (simp add: vx_other_def prod_eq_iff)
  have k: "keyed (ms_data vx_mem)" by code_simp
  have d: "map_of (ms_data vx_mem) (key_String (LaneKey ''t'' ''p'' wx_lane)) =
      Some \<lparr>v_Key = LaneKey ''t'' ''p'' wx_lane, v_Value = Some ''0'', v_IfVersion = 0, v_Version = 1, v_Epoch = 0\<rparr>" by code_simp
  have o: "map fst (mem_Range (LanePrefix ''t'' ''p'') vx_mem) = [LaneKey ''t'' ''p'' wx_lane]" by code_simp
  have x: "set (map fst (mem_Range (LanePrefix ''t'' ''p'') vx_mem)) \<subseteq> range (LaneKey ''t'' ''p'')" unfolding o by simp
  from every_node_is_offered_every_lane [OF k d x _ _ _ _ _ _ l, where rec = "new_record wx_spec" and now = 5] n(2) show ?thesis
    by (auto simp: wx_lane_def content_def wx_codec_def new_record_def wx_spec_def wx_lt_def newLeaseTable_def coordinated_def wx_fields_def)
qed

end
