(* ===== verification/Canal_CommitProps.thy ===== *)
theory Canal_CommitProps
  imports Canal_LaneProps
begin

text \<open>
  The properties of the two-phase commit and of the checkpoint: what a pending committable looks like,
  that a flush loses no record, when a record held for a commit is settled, and two ways the protocol
  departs from what the code says of it.
\<close>

section \<open>A flush loses nothing\<close>

definition cx_committer :: "unit committer" where
  "cx_committer = wx_committer\<lparr>
     ct_PrepareCommit := (\<lambda>pt w. (w, Returned [\<lparr>cm_Checkpoint = 0, cm_Node = [], cm_Handle = \<lparr>blob_Version = pt_ID pt, blob_Bytes = None\<rparr>,
       cm_Lanes = [], cm_Cursors = [], cm_Records = 0, cm_FirstRec = 0, cm_LastRec = 0, cm_Attempt = 0, cm_Expires = 0\<rparr>])),
     ct_Commit := (\<lambda>cs w. (w, Returned (map (\<lambda>c. \<lparr>co_Handle = cm_Handle c, co_Disposition = DispositionCommitted, co_Fault = None\<rparr>) cs)))\<rparr>"

definition cx_we :: "(unit, unit) write_env" where
  "cx_we = wx_we\<lparr>we_sinks := (\<lambda>_. (we_sinks wx_we [])\<lparr>sk_Committer := True\<rparr>)\<rparr>"

definition cx_env :: "(unit, unit, memstore) engine_env" where
  "cx_env = (wx_env memstore_ops)\<lparr>ee_we := cx_we, ee_committer := (\<lambda>_. cx_committer)\<rparr>"

definition cx_engine :: "(unit, unit, memstore) engine" where
  "cx_engine = on_run (\<lambda>r. r\<lparr>rn_pending := [(''A'', [wx_rec 1 1])], rn_covered := [(''A'', [(wx_lane, zero_position)])]\<rparr>) (wx_engine mem_New)"

text \<open>
  C8: A flush loses no record and invents none. Whatever the sinks answer to Flush, to PrepareCommit and
  to Commit, whatever the store answers to the checkpoint, and wherever the flush fails, a record that
  was settled, held for a flush or held for a commit is so afterwards, exactly as often.
\<close>
theorem checkpoint_loses_nothing:
  assumes "eng_ok en"
  shows "eng_ok (flushOnce ev lt now reason en) \<and> in_hand k (flushOnce ev lt now reason en) = in_hand k en"
  using assms by (rule flushOnce_acct)

theorem checkpoint_loses_nothing_witness:
  "in_hand 1 (flushOnce cx_env wx_lt 5 FlushCheckpoint cx_engine) = 1 \<and>
     rn_outs (en_run cx_engine) = [] \<and> length (rn_outs (en_run (flushOnce cx_env wx_lt 5 FlushCheckpoint cx_engine))) = 1"
proof -
  have "eng_ok cx_engine" by code_simp
  moreover have "in_hand 1 cx_engine = 1" by code_simp
  moreover have "rn_outs (en_run cx_engine) = [] \<and> length (rn_outs (en_run (flushOnce cx_env wx_lt 5 FlushCheckpoint cx_engine))) = 1"
    by code_simp
  ultimately show ?thesis using checkpoint_loses_nothing [of cx_engine cx_env wx_lt 5 FlushCheckpoint 1] by simp
qed

section \<open>Pending committables\<close>

text \<open>What every committable of the pending set under the checkpoint \<open>i\<close> is.\<close>

definition cm_typed :: "('v, 'w, 's) engine_env \<Rightarrow> nat \<Rightarrow> committable \<Rightarrow> bool" where
  "cm_typed ev i c \<longleftrightarrow> cm_Node c \<in> set (committerSinks ev) \<and> cm_Checkpoint c = i \<and> cm_Lanes c = sort (map fst (cm_Cursors c))"

definition ck_typed :: "('v, 'w, 's) engine_env \<Rightarrow> checkpointer \<Rightarrow> bool" where
  "ck_typed ev ck \<longleftrightarrow> wf_amap (ck_pending ck) \<and>
     list_all (\<lambda>(i, cs). 0 < i \<and> i \<le> ck_id ck \<and> cs \<noteq> [] \<and> list_all (cm_typed ev i) cs) (ck_pending ck)"

lemma mint_typed: "nid \<in> set (committerSinks ev) \<Longrightarrow> cm_typed ev (pt_ID pt) (mint pt nid covered n c)"
  by (simp add: cm_typed_def mint_def)

lemma prepare_sinks_typed:
  assumes "prepare_sinks ev pt ns acc en = (en1, Inr cs)" and "set ns \<subseteq> set (committerSinks ev)" and "list_all (cm_typed ev (pt_ID pt)) acc"
  shows "list_all (cm_typed ev (pt_ID pt)) cs"
  using assms
proof (induction ns arbitrary: acc en)
  case (Cons n ns)
  have m: "list_all (cm_typed ev (pt_ID pt)) (map (mint pt n covered k) cs)" for covered k cs
    using Cons.prems(2) by (simp add: list_all_iff mint_typed)
  show ?case using Cons.prems m by (auto simp: Let_def split: prod.splits sum.splits if_splits intro!: Cons.IH)
qed simp

lemma prepare_keeps_ck: "en_ck (fst (prepare_sinks ev pt ns acc en)) = en_ck en"
  by (induction ns arbitrary: acc en) (auto simp: Let_def split: prod.splits sum.splits)

lemma ck_typed_stage:
  assumes "ck_typed ev ck" and "list_all (cm_typed ev (ck_id ck)) cs" and "0 < ck_id ck"
  shows "ck_typed ev (ck_stage (ck_id ck) cs ck)"
proof (cases "cs = []")
  case False
  have "list_all (cm_typed ev (ck_id ck)) (pending_at (ck_id ck) ck)"
    using assms(1) by (cases "map_of (ck_pending ck) (ck_id ck)") (auto simp: pending_at_def ck_typed_def list_all_iff dest!: map_of_SomeD)
  then show ?thesis using assms False set_aput_subset [of "ck_id ck" "pending_at (ck_id ck) ck @ cs" "ck_pending ck"]
    by (fastforce simp: ck_stage_def ck_typed_def list_all_iff)
qed (simp add: ck_stage_def assms(1))

lemma ck_typed_confirm: "ck_typed ev ck \<Longrightarrow> ck_typed ev (ck_confirm i node ck)"
proof -
  have d: "wf_amap xs \<Longrightarrow> wf_amap (filter P (map (keep_others i node) xs))" for P xs
    using distinct_map_filter [of fst "map (keep_others i node) xs" P] by (simp add: wf_amap_def comp_def keep_others_def)
  show "ck_typed ev ck \<Longrightarrow> ck_typed ev (ck_confirm i node ck)"
    using d by (fastforce simp: ck_typed_def ck_confirm_def list_all_iff keep_others_def split: if_splits)
qed

text \<open>Everything else a flush does leaves the pending set alone or confirms part of it.\<close>

lemma on_run_ck [simp]: "en_ck (on_run f en) = en_ck en" "en_ck (set_world w en) = en_ck en"
  by (simp_all add: set_world_def on_run_def)

lemma release_settle_typed: "ck_typed ev (en_ck en) \<Longrightarrow> ck_typed ev (en_ck (release_settle i node en))"
  by (simp add: release_settle_def Let_def ck_typed_confirm split: prod.split)

lemma publish_typed: "ck_typed ev (en_ck en) \<Longrightarrow> ck_typed ev (en_ck (fst (publish_nodes ev i cs ns en)))"
proof (induction ns arbitrary: en)
  case (Cons n ns)
  have a: "ck_typed ev (en_ck (fst (applyOutcomes node i sent outs en)))" if "ck_typed ev (en_ck en)" for node sent outs en
    using that by (auto simp: applyOutcomes_def release_settle_typed split: sum.splits prod.splits)
  obtain w ans where x: "sandbox (sk_Name (we_sinks (ee_we ev) n)) (ct_Commit (ee_committer ev n) (by_node n cs) (rn_world (en_run en))) = (w, ans)"
    by (metis surj_pair)
  show ?case
  proof (cases ans)
    case (Inr outs)
    obtain en2 er where y: "applyOutcomes n i (by_node n cs) outs (set_world w en) = (en2, er)" by (metis surj_pair)
    then have "ck_typed ev (en_ck en2)" using a [of "set_world w en" n "by_node n cs" outs] Cons.prems by simp
    then show ?thesis using Cons.IH x y Inr by (simp split: option.splits)
  qed (use x Cons.prems in simp)
qed simp

lemma snapshot_keeps_ck: "en_ck (fst (snapshot_states ev i ns ws en)) = en_ck en"
  by (induction ns arbitrary: ws en) (auto simp: Let_def split: option.splits prod.splits sum.splits)

lemma buildCheckpoint_keeps_ck: "buildCheckpoint ev i now en = (en', r) \<Longrightarrow> en_ck en' = en_ck en"
  using snapshot_keeps_ck [of ev i "we_mainSinks (ee_we ev)" "[]" en] by (auto simp: buildCheckpoint_def split: prod.splits sum.splits)

lemma persist_keeps_ck: "persistCheckpoint ev lt now cp ps en = (en', r) \<Longrightarrow> en_ck en' = en_ck en"
  by (auto simp: persistCheckpoint_def split: sum.splits prod.splits option.splits)

lemma retire_keeps_ck: "en_ck (retire_lanes ev lt now ls en) = en_ck en"
  by (induction ls arbitrary: en) (auto simp: Let_def split: option.splits prod.splits)

lemma retireLanes_keeps_ck [simp]: "en_ck (retireLanes ev lt now en) = en_ck en"
  by (simp add: retireLanes_def case_prod_unfold Let_def retire_keeps_ck)

lemma commit_positions_keeps_ck [simp]: "en_ck (commit_positions ps en) = en_ck en"
  by (simp add: commit_positions_def)

lemma flush_write_typed:
  assumes "ck_typed ev (en_ck en)"
  shows "ck_typed ev (en_ck (flush_write ev lt now i ps en))"
proof -
  obtain en1 r1 where b: "buildCheckpoint ev i now en = (en1, r1)" by fastforce
  show ?thesis
  proof (cases r1)
    case (Inr cp)
    obtain en2 r2 where p: "persistCheckpoint ev lt now (fillLaneStates (en_lanes en1) ps cp) ps en1 = (en2, r2)" by fastforce
    have t: "ck_typed ev (en_ck en2)" using buildCheckpoint_keeps_ck [OF b] persist_keeps_ck [OF p] assms by simp
    obtain en3 r3 where c: "publish ev i (offerable (en_ck en2)) en2 = (en3, r3)" by fastforce
    have "ck_typed ev (en_ck en3)" using publish_typed [OF t] c by (metis publish_def fst_conv)
    then show ?thesis using t c by (simp add: flush_write_def b Inr p Let_def split: option.splits)
  qed (use buildCheckpoint_keeps_ck [OF b] assms in \<open>simp add: flush_write_def b\<close>)
qed

lemma nodes_of_offerable: "ck_typed ev ck \<Longrightarrow> set (nodes_of (offerable ck)) \<subseteq> set (committerSinks ev)"
  by (auto simp: nodes_of_def offerable_def pending_at_def ck_typed_def list_all_iff cm_typed_def split: option.splits dest!: sym [of "Some _"] map_of_SomeD)

text \<open>
  C10: The pending set is well formed. It starts empty, and every flush, whatever the connectors and the
  store answer, keeps it so: its keys are distinct checkpoint ids that were issued, no entry is empty,
  every committable carries the id it is filed under, names as author a sink of the graph that commits,
  and lists in order the lanes whose cursors it covers. So everything offered for publication goes to a
  sink that can commit it.
\<close>
theorem pending_set_is_well_formed:
  assumes "en_ck en = newCheckpointer \<or> ck_typed ev (en_ck en)"
  shows "ck_typed ev (en_ck (flushOnce ev lt now reason en)) \<and>
    set (nodes_of (offerable (en_ck (flushOnce ev lt now reason en)))) \<subseteq> set (committerSinks ev)"
proof -
  have s0: "ck_typed ev (en_ck en)" using assms by (auto simp: newCheckpointer_def ck_typed_def)
  let ?ck = "(en_ck en)\<lparr>ck_id := ck_id (en_ck en) + 1\<rparr>"
  let ?en = "(on_run (flushSinks (ee_we ev) reason (we_mainSinks (ee_we ev))) en)\<lparr>en_ck := ?ck\<rparr>"
  let ?pt = "\<lparr>pt_ID = ck_id (en_ck en) + 1, pt_Reason = reason, pt_Deadline = now + ee_grace ev\<rparr>"
  have s1: "ck_typed ev ?ck" using s0 by (auto simp: ck_typed_def list_all_iff)
  obtain en1 r1 where p: "prepare_sinks ev ?pt (committerSinks ev) [] ?en = (en1, r1)" by fastforce
  have k: "en_ck en1 = ?ck" using prepare_keeps_ck [of ev ?pt "committerSinks ev" "[]" ?en] p by simp
  have f: "flushOnce ev lt now reason en = (case r1 of Inl e \<Rightarrow> on_run (fail (Some e)) en1
      | Inr minted \<Rightarrow> flush_prepared ev lt now (ck_id (en_ck en) + 1) minted en1)"
    using p by (simp add: flushOnce_def ck_next_def prepare_def split: sum.split)
  have "ck_typed ev (en_ck (flushOnce ev lt now reason en))"
  proof (cases r1)
    case (Inr minted)
    have "list_all (cm_typed ev (ck_id ?ck)) minted" using prepare_sinks_typed [of ev ?pt "committerSinks ev" "[]" ?en en1 minted] p Inr by simp
    then have "ck_typed ev (ck_stage (ck_id ?ck) minted ?ck)" by (intro ck_typed_stage [OF s1]) simp_all
    then show ?thesis by (simp add: f Inr flush_prepared_def Let_def k flush_write_typed split: prod.split) auto
  qed (use s1 k in \<open>simp add: f\<close>)
  then show ?thesis using nodes_of_offerable by blast
qed

definition cx_later :: "(unit, unit, memstore) engine_env" where
  "cx_later = cx_env\<lparr>ee_committer := (\<lambda>_. cx_committer\<lparr>ct_Commit := (\<lambda>cs w. (w, Returned []))\<rparr>)\<rparr>"

theorem pending_set_is_well_formed_witness:
  "ck_typed cx_later (en_ck (flushOnce cx_later wx_lt 5 FlushCheckpoint cx_engine)) \<and>
   nodes_of (offerable (en_ck (flushOnce cx_later wx_lt 5 FlushCheckpoint cx_engine))) = [''A'']"
proof -
  have "en_ck cx_engine = newCheckpointer" by (simp add: cx_engine_def wx_engine_def on_run_def)
  moreover have "nodes_of (offerable (en_ck (flushOnce cx_later wx_lt 5 FlushCheckpoint cx_engine))) = [''A'']" by code_simp
  ultimately show ?thesis using pending_set_is_well_formed [of cx_engine cx_later wx_lt 5 FlushCheckpoint] by simp
qed

section \<open>Settlement waits for a confirmation\<close>

definition confirms :: "commit_outcome \<Rightarrow> bool" where
  "confirms u \<longleftrightarrow> co_Disposition u = DispositionCommitted \<or> co_Disposition u = DispositionAlreadyCommitted"

lemma classify_confirmed:
  assumes "classify ans sent cf ab = Inr (cf', ab')" and "c \<in> set cf'"
  shows "c \<in> set cf \<or> c \<in> set sent \<and> (\<exists>u. ans (blobKey (cm_Handle c)) = Some u \<and> confirms u)"
  using assms
  by (induction ans sent cf ab rule: classify.induct)
    (auto simp: confirms_def split: option.splits commit_disposition.splits)

lemma answered_mem: "answered outs n = Some u \<Longrightarrow> u \<in> set outs \<and> n = blobKey (co_Handle u)"
  by (auto simp: answered_def dest!: map_of_SomeD)

lemma classify_head: "classify ans sent cf ab = Inr (cf', ab') \<Longrightarrow> set cf \<subseteq> set cf' \<and> set ab \<subseteq> set ab'"
  by (induction ans sent cf ab rule: classify.induct) (auto split: option.splits commit_disposition.splits)

text \<open>The records awaiting a commit of a sink and its pending committables, by checkpoint.\<close>

definition aw_of :: "node_id \<Rightarrow> 'v awaiting \<Rightarrow> (nat \<times> ('v, err) rec) set" where
  "aw_of node a = set (concat (map (\<lambda>(i, m). map (Pair i) (aw_recs node m)) a))"

definition pending_of :: "node_id \<Rightarrow> checkpointer \<Rightarrow> (nat \<times> committable) set" where
  "pending_of node ck = set (concat (map (\<lambda>(i, cs). map (Pair i) (by_node node cs)) (ck_pending ck)))"

lemma mem_concat_pairs: "(i, x) \<in> set (concat (map (\<lambda>(j, ys). map (Pair j) (f ys)) zs)) \<longleftrightarrow> (\<exists>ys. (i, ys) \<in> set zs \<and> x \<in> set (f ys))"
  by (induction zs) auto

lemma aw_of_iff: "(i, r) \<in> aw_of node a \<longleftrightarrow> (\<exists>m. (i, m) \<in> set a \<and> r \<in> set (aw_recs node m))"
  unfolding aw_of_def by (rule mem_concat_pairs)

lemma pending_of_iff: "(i, c) \<in> pending_of node ck \<longleftrightarrow> (\<exists>cs. (i, cs) \<in> set (ck_pending ck) \<and> c \<in> set cs \<and> cm_Node c = node)"
  unfolding pending_of_def mem_concat_pairs by (simp add: by_node_def)

lemma mem_confirm: "(j, ds) \<in> set (ck_pending (ck_confirm i node ck)) \<longleftrightarrow>
    (\<exists>cs. (j, cs) \<in> set (ck_pending ck) \<and> ds = (if j > i then cs else filter (\<lambda>cm. cm_Node cm \<noteq> node) cs) \<and> (j > i \<or> ds \<noteq> []))"
  unfolding ck_confirm_def keep_others_def by (cases "j > i") (simp_all add: image_iff Bex_def, blast?)

lemma pending_of_confirm: "(j, c) \<in> pending_of n (ck_confirm i node ck) \<longleftrightarrow> (j, c) \<in> pending_of n ck \<and> (n = node \<longrightarrow> i < j)"
  unfolding pending_of_iff mem_confirm by (cases "j > i") (simp_all, metis (mono_tags, lifting) filter_empty_conv mem_Collect_eq set_filter)

lemma aw_recs_delete: "aw_recs n (AList.delete node m) = (if n = node then [] else aw_recs n m)"
  by (simp add: aw_recs_def AList.map_of_delete)

lemma mem_release: "(j, q) \<in> set (fst (aw_release i node a)) \<longleftrightarrow>
    (\<exists>m. (j, m) \<in> set a \<and> q = (if j > i then m else AList.delete node m) \<and> (j > i \<or> q \<noteq> []))"
  unfolding aw_release_def by (cases "j > i") (simp_all add: image_iff Bex_def, blast?)

lemma aw_recs_Nil [simp]: "aw_recs n [] = []"
  by (simp add: aw_recs_def)

lemma aw_of_release: "(j, r) \<in> aw_of n (fst (aw_release i node a)) \<longleftrightarrow> (j, r) \<in> aw_of n a \<and> (n = node \<longrightarrow> i < j)"
  unfolding aw_of_iff mem_release by (cases "j > i") (simp_all, metis aw_recs_Nil aw_recs_delete list.set(1) empty_iff)

lemma mem_released: "rec \<in> set (snd (aw_release hi node a)) \<longleftrightarrow> (\<exists>j \<le> hi. (j, rec) \<in> aw_of node a)"
proof -
  let ?f = "\<lambda>x. if fst x > hi then [] else aw_recs node (snd x)"
  have "snd (aw_release hi node a) = concat (map ?f a)" by (simp add: aw_release_def case_prod_unfold)
  then have "rec \<in> set (snd (aw_release hi node a)) \<longleftrightarrow> (\<exists>x \<in> set a. fst x \<le> hi \<and> rec \<in> set (aw_recs node (snd x)))"
    by (simp add: linorder_not_less) blast
  then show ?thesis unfolding aw_of_iff by (simp add: Bex_def) blast
qed

lemma confirmed_high_le: "i \<le> h \<Longrightarrow> (\<And>c. c \<in> set cf \<Longrightarrow> cm_Checkpoint c \<le> h) \<Longrightarrow> confirmed_high i cf \<le> h"
  unfolding confirmed_high_def by (induction cf arbitrary: i) auto

lemma all_written_outcomes:
  "map out_Record (outcomesFor node recs \<lparr>wr_Failed = [], wr_Deferred = [], wr_Duplicates = [], wr_Written = 0\<rparr>) = map rec_ID recs"
  by (simp add: outcomesFor_def)

lemma settled_by_release:
  assumes "rec \<in> set (snd (aw_release hi node (en_await en)))"
  shows "rec_ID rec \<in> out_Record ` set (rn_outs (en_run (release_settle hi node en)))"
proof -
  let ?rs = "snd (aw_release hi node (en_await en))"
  let ?outs = "outcomesFor node ?rs \<lparr>wr_Failed = [], wr_Deferred = [], wr_Duplicates = [], wr_Written = 0\<rparr>"
  have "rn_outs (en_run (release_settle hi node en)) = rn_outs (en_run en) @ ?outs"
    using assms by (cases "aw_release hi node (en_await en)") (auto simp: release_settle_def on_run_def settle_def Let_def)
  moreover have "rec_ID rec \<in> out_Record ` set ?outs" using assms all_written_outcomes [of node ?rs] by (metis image_eqI list.set_map)
  ultimately show ?thesis by (simp add: image_Un)
qed

text \<open>
  C9: Nothing is settled without a confirmation. When the answers of a sink to a commit are applied,
  either nothing changes, or the sink answered one of the committables it was handed with "committed" or
  "already committed". Whatever it answered, the records that await another sink's commit and the
  committables of other sinks stay as they are; of its own, none beyond the highest of the ids involved
  is touched; and every record it no longer awaits has been settled.
\<close>
theorem settlement_waits_for_confirmation:
  assumes "applyOutcomes node i sent outs en = (en', r)" and "en' \<noteq> en"
  shows "(\<exists>c \<in> set sent. \<exists>u \<in> set outs. blobKey (co_Handle u) = blobKey (cm_Handle c) \<and> confirms u) \<and>
    (\<forall>n. n \<noteq> node \<longrightarrow> aw_of n (en_await en') = aw_of n (en_await en) \<and> pending_of n (en_ck en') = pending_of n (en_ck en)) \<and>
    (\<forall>(j, rec) \<in> aw_of node (en_await en). (j, rec) \<in> aw_of node (en_await en') \<or>
        j \<le> Max (insert i (cm_Checkpoint ` set sent)) \<and> rec_ID rec \<in> out_Record ` set (rn_outs (en_run en')))"
proof -
  obtain cf ab where c: "classify (answered outs) sent [] [] = Inr (cf, ab)" and n: "cf \<noteq> []"
      and e: "en' = release_settle (confirmed_high i cf) node en"
    using assms by (auto simp: applyOutcomes_def split: sum.splits if_splits)
  have m: "x \<in> set sent \<and> (\<exists>u. answered outs (blobKey (cm_Handle x)) = Some u \<and> confirms u)" if "x \<in> set cf" for x
    using classify_confirmed [OF c that] by simp
  obtain x where x: "x \<in> set cf" using n by (cases cf) auto
  obtain u where "u \<in> set outs" "blobKey (cm_Handle x) = blobKey (co_Handle u)" "confirms u" using m [OF x] answered_mem by metis
  then have A: "\<exists>c \<in> set sent. \<exists>u \<in> set outs. blobKey (co_Handle u) = blobKey (cm_Handle c) \<and> confirms u" using m [OF x] by metis
  have h: "confirmed_high i cf \<le> Max (insert i (cm_Checkpoint ` set sent))"
    using confirmed_high_le [of i "Max (insert i (cm_Checkpoint ` set sent))" cf] m by auto
  have w: "en_await en' = fst (aw_release (confirmed_high i cf) node (en_await en))" "en_ck en' = ck_confirm (confirmed_high i cf) node (en_ck en)"
    by (simp_all add: e release_settle_def Let_def on_run_def split: prod.split)
  have B: "aw_of k (en_await en') = aw_of k (en_await en) \<and> pending_of k (en_ck en') = pending_of k (en_ck en)" if "k \<noteq> node" for k
    using that by (auto simp: w aw_of_release pending_of_confirm set_eq_iff)
  have C: "j \<le> Max (insert i (cm_Checkpoint ` set sent)) \<and> rec_ID rec \<in> out_Record ` set (rn_outs (en_run en'))"
    if "(j, rec) \<in> aw_of node (en_await en)" "(j, rec) \<notin> aw_of node (en_await en')" for j rec
  proof -
    have j: "j \<le> confirmed_high i cf" using that by (simp add: w aw_of_release)
    then have "rec \<in> set (snd (aw_release (confirmed_high i cf) node (en_await en)))" using that(1) mem_released by blast
    then have "rec_ID rec \<in> out_Record ` set (rn_outs (en_run en'))" by (auto simp: e settled_by_release)
    then show ?thesis using j h by simp
  qed
  show ?thesis using A B C by blast
qed

definition cx_cm :: "nat \<Rightarrow> committable" where
  "cx_cm i = \<lparr>cm_Checkpoint = i, cm_Node = ''A'', cm_Handle = \<lparr>blob_Version = i, blob_Bytes = None\<rparr>, cm_Lanes = [wx_lane],
     cm_Cursors = [(wx_lane, zero_position)], cm_Records = 1, cm_FirstRec = 0, cm_LastRec = 0, cm_Attempt = 0, cm_Expires = 0\<rparr>"

definition cx_answer :: "nat \<Rightarrow> commit_disposition \<Rightarrow> commit_outcome" where
  "cx_answer i d = \<lparr>co_Handle = \<lparr>blob_Version = i, blob_Bytes = None\<rparr>, co_Disposition = d, co_Fault = None\<rparr>"

text \<open>Two checkpoints of one sink are pending, each responsible for a record.\<close>

definition cx_two :: "(unit, unit, memstore) engine" where
  "cx_two = (wx_engine mem_New)\<lparr>en_ck := \<lparr>ck_id = 2, ck_pending = [(1, [cx_cm 1]), (2, [cx_cm 2])], ck_writerState = []\<rparr>,
     en_await := [(1, [(''A'', [wx_rec 1 1])]), (2, [(''A'', [wx_rec 2 2])])]\<rparr>"

definition cx_applied :: "(unit, unit, memstore) engine" where
  "cx_applied = fst (applyOutcomes ''A'' 1 [cx_cm 1] [cx_answer 1 DispositionCommitted] cx_two)"

theorem settlement_waits_for_confirmation_witness:
  "1 \<in> out_Record ` set (rn_outs (en_run cx_applied)) \<and> aw_of ''B'' (en_await cx_applied) = aw_of ''B'' (en_await cx_two)"
proof -
  have r: "applyOutcomes ''A'' 1 [cx_cm 1] [cx_answer 1 DispositionCommitted] cx_two = (cx_applied, None)"
    by (simp add: cx_applied_def applyOutcomes_def answered_def cx_cm_def cx_answer_def)
  have d: "(1, wx_rec 1 1) \<in> aw_of ''A'' (en_await cx_two)" "(1, wx_rec 1 1) \<notin> aw_of ''A'' (en_await cx_applied)"
    by (simp_all add: cx_two_def cx_applied_def aw_of_def aw_recs_def applyOutcomes_def answered_def cx_cm_def cx_answer_def
        confirmed_high_def release_settle_def aw_release_def on_run_def)
  then have "cx_applied \<noteq> cx_two" by auto
  from settlement_waits_for_confirmation [OF r this] d show ?thesis by (auto simp: wx_rec_def rec_ID_def)
qed

text \<open>
  C38: Confirming an older committable settles a newer one's records. If a sink answers "committed" for a
  committable of an earlier checkpoint and "retry later" for the one of the current checkpoint, the
  records the current one is responsible for are settled and it is dropped from the pending set: it is
  never offered again, although nothing was published.
\<close>
theorem older_confirmation_settles_newer_records:
  assumes "cm_Checkpoint old \<le> i" and "blobKey (cm_Handle old) \<noteq> blobKey (cm_Handle c)"
    and "outs = [\<lparr>co_Handle = cm_Handle old, co_Disposition = DispositionCommitted, co_Fault = None\<rparr>,
      \<lparr>co_Handle = cm_Handle c, co_Disposition = DispositionRetryLater, co_Fault = None\<rparr>]"
    and "(i, rec) \<in> aw_of node (en_await en)" and "(i, c) \<in> pending_of node (en_ck en)"
  shows "\<exists>en'. applyOutcomes node i [old, c] outs en = (en', None) \<and>
    rec_ID rec \<in> out_Record ` set (rn_outs (en_run en')) \<and> (i, c) \<notin> pending_of node (en_ck en')"
proof -
  have "classify (answered outs) [old, c] [] [] = Inr ([old], [])" using assms(2,3) by (simp add: answered_def)
  moreover have "confirmed_high i [old] = i" using assms(1) by (simp add: confirmed_high_def)
  ultimately have a: "applyOutcomes node i [old, c] outs en = (release_settle i node en, None)" by (simp add: applyOutcomes_def)
  have "rec_ID rec \<in> out_Record ` set (rn_outs (en_run (release_settle i node en)))"
    by (rule settled_by_release) (use assms(4) mem_released in blast)
  moreover have "en_ck (release_settle i node en) = ck_confirm i node (en_ck en)" by (simp add: release_settle_def Let_def split: prod.split)
  ultimately show ?thesis using a pending_of_confirm by auto
qed

theorem older_confirmation_settles_newer_records_witness:
  "\<exists>en'. applyOutcomes ''A'' 2 [cx_cm 1, cx_cm 2] [cx_answer 1 DispositionCommitted, cx_answer 2 DispositionRetryLater] cx_two = (en', None) \<and>
    2 \<in> out_Record ` set (rn_outs (en_run en')) \<and> (2, cx_cm 2) \<notin> pending_of ''A'' (en_ck en')"
proof -
  have k: "blobKey (cm_Handle (cx_cm 1)) \<noteq> blobKey (cm_Handle (cx_cm 2))" by code_simp
  have "(2, wx_rec 2 2) \<in> aw_of ''A'' (en_await cx_two)" "(2, cx_cm 2) \<in> pending_of ''A'' (en_ck cx_two)"
    by (simp_all add: cx_two_def aw_of_def aw_recs_def pending_of_def by_node_def cx_cm_def)
  from older_confirmation_settles_newer_records [OF _ k _ this] show ?thesis by (simp add: cx_cm_def cx_answer_def wx_rec_def rec_ID_def)
qed

section \<open>Two workers of one pipeline\<close>

lemma stage_rows_wf:
  "wf_batch b \<Longrightarrow> stage_rows c lt now l ps b st = (b', r) \<Longrightarrow> wf_batch b' \<and> sb_Epoch b' = sb_Epoch b \<and> sb_Deletes b' = sb_Deletes b"
proof (induction c lt now l ps b st rule: stage_rows.induct)
  case (2 c lt now l lane pos ps b staged)
  have "sb_Epoch (PutFenced k v i e b) = sb_Epoch b" "sb_Deletes (PutFenced k v i e b) = sb_Deletes b" for k v i e by (simp_all add: PutFenced_def)
  then show ?case using 2 by (auto split: option.splits prod.splits bool.splits sum.splits)
qed simp

lemma stage_nodes_wf:
  "wf_batch b \<Longrightarrow> stage_nodes c lt now ps ctls b = Inr (b', ds) \<Longrightarrow> wf_batch b' \<and> sb_Epoch b' = sb_Epoch b \<and> sb_Deletes b' = sb_Deletes b"
proof (induction c lt now ps ctls b arbitrary: b' ds rule: stage_nodes.induct)
  case (2 c lt now ps node l ctls b)
  obtain b1 r where x: "lc_stage c lt now ps l b = (b1, r)" by fastforce
  obtain st where r: "r = Inr st" using 2(3) x by (cases r) auto
  obtain rest where y: "stage_nodes c lt now ps ctls b1 = Inr (b', rest)" using 2(3) x r by (auto split: sum.splits)
  have "wf_batch b1 \<and> sb_Epoch b1 = sb_Epoch b \<and> sb_Deletes b1 = sb_Deletes b" using stage_rows_wf [OF 2(2)] x by (simp add: lc_stage_def)
  then show ?case using 2(1) [OF x [symmetric] _ _ y] r by simp
qed simp

text \<open>The batch of a checkpoint: it is well formed and presents the worker's version for the checkpoint's key.\<close>

lemma persist_batch:
  assumes "persistCheckpoint ev lt now cp ps en = (en', None)"
  shows "\<exists>b v. so_Set (ee_ops ev) b (en_store en) = (en_store en', None) \<and> wf_batch b \<and> sb_Deletes b = [] \<and>
    map_of (sb_Writes b) (key_String (CheckpointKey (ee_tenant ev) (ee_pipeline ev))) = Some v \<and> v_IfVersion v = en_ckVersion en"
proof -
  obtain b ds where g: "stage_nodes (ee_codec ev) lt now ps (sort_key fst (en_lanes en)) (NewSBatch singleWorkerEpoch) = Inr (b, ds)"
    using assms by (auto simp: persistCheckpoint_def split: sum.splits)
  obtain body where m: "pk_marshal (ee_cpCodec ev) cp = Inr body" using assms g by (auto simp: persistCheckpoint_def split: sum.splits)
  let ?b = "Put (CheckpointKey (ee_tenant ev) (ee_pipeline ev)) (Some body) (en_ckVersion en) b"
  have "so_Set (ee_ops ev) ?b (en_store en) = (en_store en', None)"
    using assms g m by (auto simp: persistCheckpoint_def split: prod.splits option.splits)
  moreover have "wf_batch ?b" "sb_Deletes ?b = []" using stage_nodes_wf [OF _ g] by (simp_all, simp_all add: Put_def NewSBatch_def)
  moreover have "\<exists>v. map_of (sb_Writes ?b) (key_String (CheckpointKey (ee_tenant ev) (ee_pipeline ev))) = Some v \<and> v_IfVersion v = en_ckVersion en"
    by (simp add: Put_def)
  ultimately show ?thesis by blast
qed

context lane_store
begin

lemma second_checkpoint_refused:
  assumes "invar (en_store en)" and "\<And>b s. wf_batch b \<Longrightarrow> fits b s" and "ee_ops ev = ops" and "ee_ops ev2 = ops"
    and "ee_tenant ev2 = ee_tenant ev" and "ee_pipeline ev2 = ee_pipeline ev"
    and "persistCheckpoint ev lt now cp ps en = (en', None)" and "en_ckVersion other = en_ckVersion en" and "en_store other = en_store en'"
  shows "snd (persistCheckpoint ev2 lt2 now2 cp2 ps2 other) \<noteq> None"
proof
  let ?n = "key_String (CheckpointKey (ee_tenant ev) (ee_pipeline ev))"
  assume "snd (persistCheckpoint ev2 lt2 now2 cp2 ps2 other) = None"
  then obtain o' where o: "persistCheckpoint ev2 lt2 now2 cp2 ps2 other = (o', None)" by (cases "persistCheckpoint ev2 lt2 now2 cp2 ps2 other") auto
  obtain b v where 1: "so_Set ops b (en_store en) = (en_store en', None)" "wf_batch b" "sb_Deletes b = []" "map_of (sb_Writes b) ?n = Some v"
      "v_IfVersion v = en_ckVersion en" using persist_batch [OF assms(7)] assms(3) by auto
  obtain d u where 2: "so_Set ops d (en_store en') = (en_store o', None)" "wf_batch d" "map_of (sb_Writes d) ?n = Some u"
      "v_IfVersion u = en_ckVersion en" using persist_batch [OF o] assms(4-6,8,9) by auto
  have v: "allowed b (view (en_store en))" "view (en_store en') = commit_view b (view (en_store en))" "invar (en_store en')"
    using set_refines [OF assms(1) assms(2) [OF 1(2)]] set_invar [OF assms(1) assms(2) [OF 1(2)]] 1(1) by (auto simp: set_view_def split: if_splits)
  have "allowed d (view (en_store en'))" using set_refines [OF v(3) assms(2) [OF 2(2)]] 2(1) by (auto simp: set_view_def split: if_splits)
  then have "cas_ok u (fst (view (en_store en')) ?n)" using 2(3) by (auto simp: allowed_def dest: map_of_SomeD)
  moreover have "fst (view (en_store en')) ?n = Some (content (v_Value v), (case fst (view (en_store en)) ?n of None \<Rightarrow> 1 | Some (_, ver) \<Rightarrow> ver + 1))"
    using commit_view_writes [of b "view (en_store en)" ?n] 1(2,3,4) v(2) by (simp add: wf_batch_def)
  moreover have "cas_ok v (fst (view (en_store en)) ?n)" using v(1) 1(4) by (auto simp: allowed_def dest: map_of_SomeD)
  ultimately show False using 1(5) 2(4) by (auto simp: cas_ok_def split: option.splits)
qed

end

text \<open>
  Two workers of a pipeline refuse each other's checkpoints. A pipeline has one checkpoint row, and
  each worker presents the version it last saw. When two workers that start from the same checkpoint each
  write one, the second is refused, whichever lanes it covers and whatever lease it holds, and its
  pipeline fails, although the lanes of the two workers are disjoint.
\<close>
theorem second_workers_checkpoint_is_refused:
  assumes "versions_ok (ms_data (en_store en)) \<and> keyed (ms_data (en_store en))" and "ee_ops ev = memstore_ops" and "ee_ops ev2 = memstore_ops"
    and "ee_tenant ev2 = ee_tenant ev" and "ee_pipeline ev2 = ee_pipeline ev"
    and "persistCheckpoint ev lt now cp ps en = (en', None)" and "en_ckVersion other = en_ckVersion en" and "en_store other = en_store en'"
  shows "snd (persistCheckpoint ev2 lt2 now2 cp2 ps2 other) \<noteq> None"
  by (rule mem_lanes.second_checkpoint_refused [OF assms(1) _ assms(2-8)])

definition cx_first :: "(unit, unit, memstore) engine \<times> err option" where
  "cx_first = persistCheckpoint cx_env wx_lt 5 (new_checkpoint cx_env 1 5 newCheckpointer) [] (wx_engine mem_New)"

theorem second_workers_checkpoint_is_refused_witness:
  "snd cx_first = None \<and> snd (persistCheckpoint (cx_env\<lparr>ee_worker := ''w2''\<rparr>) vx_leases 7 (new_checkpoint cx_env 1 7 newCheckpointer) []
     (wx_engine (en_store (fst cx_first)))) \<noteq> None"
proof -
  have n: "snd cx_first = None" by code_simp
  then have p: "persistCheckpoint cx_env wx_lt 5 (new_checkpoint cx_env 1 5 newCheckpointer) [] (wx_engine mem_New) = (fst cx_first, None)"
    by (simp add: cx_first_def prod_eq_iff)
  have i: "versions_ok (ms_data (en_store (wx_engine mem_New))) \<and> keyed (ms_data (en_store (wx_engine mem_New)))"
    by (simp add: wx_engine_def mem_New_def versions_ok_def keyed_def)
  have "snd (persistCheckpoint (cx_env\<lparr>ee_worker := ''w2''\<rparr>) vx_leases 7 (new_checkpoint cx_env 1 7 newCheckpointer) []
     (wx_engine (en_store (fst cx_first)))) \<noteq> None"
    by (rule second_workers_checkpoint_is_refused [OF i _ _ _ _ p]) (simp_all add: cx_env_def wx_env_def wx_engine_def)
  with n show ?thesis ..
qed

end
