(* ===== verification/Canal_Persist.thy ===== *)
theory Canal_Persist
  imports Canal_LaneProps
begin

text \<open>
  The persistence helper a source may use, \<^verbatim>\<open>AutoPersist\<close> of \<^verbatim>\<open>pkg/connector/state.go\<close>, over the state
  handle of \<^verbatim>\<open>internal/engine/runtime.go\<close>. A nil helper or a helper without a handle is one whose handle
  is absent. The locale \<open>read_store\<close> extends what a lane table relies on by what \<^verbatim>\<open>StateStore.Get\<close> shows.
\<close>

section \<open>The helper\<close>

record persister =
  pr_state :: "state_handle option"
  pr_cache :: "(lane_id \<times> (blob \<times> nat)) list"

definition AutoPersist :: "state_handle \<Rightarrow> persister" where
  "AutoPersist h = \<lparr>pr_state = Some h, pr_cache = []\<rparr>"

definition cached_version :: "lane_id \<Rightarrow> persister \<Rightarrow> nat" where
  "cached_version lane p = (case map_of (pr_cache p) lane of None \<Rightarrow> 0 | Some (_, v) \<Rightarrow> v)"

definition ps_Commit :: "blob_codec \<Rightarrow> 's state_ops \<Rightarrow> lease_table \<Rightarrow> time \<Rightarrow> ack \<Rightarrow> persister \<times> 's \<Rightarrow> (persister \<times> 's) \<times> err option" where
  "ps_Commit c ops lt now a z = (let (p, s) = z; tok = pos_Token (ack_Through a); lane = ack_Lane a in
     case pr_state p of
       None \<Rightarrow> (z, None)
     | Some h \<Rightarrow>
         if blob_IsZero tok then (z, None)
         else case sh_Set c ops lt now h lane tok (cached_version lane p) s of
           (s', Inl e) \<Rightarrow> ((p, s'), Some e)
         | (s', Inr v) \<Rightarrow> ((p\<lparr>pr_cache := aput lane (tok, v) (pr_cache p)\<rparr>, s'), None))"

definition ps_Restore :: "lane_id \<Rightarrow> persister \<Rightarrow> blob option" where
  "ps_Restore lane p = (case map_of (pr_cache p) lane of
     None \<Rightarrow> None | Some (b, _) \<Rightarrow> if blob_IsZero b then None else Some b)"

definition ps_Load :: "blob_codec \<Rightarrow> 's state_ops \<Rightarrow> lane_id \<Rightarrow> persister \<times> 's \<Rightarrow> persister \<times> (err + blob \<times> bool)" where
  "ps_Load c ops lane z = (let (p, s) = z in
     case pr_state p of
       None \<Rightarrow> (p, Inr (zero_blob, False))
     | Some h \<Rightarrow>
         (case sh_Get c ops h lane s of
            Inl e \<Rightarrow> (p, Inl e)
          | Inr (b, v) \<Rightarrow> (p\<lparr>pr_cache := aput lane (b, v) (pr_cache p)\<rparr>, Inr (b, \<not> blob_IsZero b))))"

section \<open>What a read shows\<close>

locale read_store = lane_store view ops invar fits
  for view :: "'s \<Rightarrow> view" and ops :: "'s state_ops" and invar :: "'s \<Rightarrow> bool" and fits :: "sbatch \<Rightarrow> 's \<Rightarrow> bool" +
  assumes get_answers: "invar s \<Longrightarrow> \<exists>m. so_Get ops [k] s = Inr m \<and>
    fst (view s) (key_String k) = map_option (\<lambda>v. (content (v_Value v), v_Version v)) (map_of m (key_String k))"
begin

lemma get_eq:
  assumes "invar s"
  shows "sh_get c ops k s = (case fst (view s) (key_String k) of
      None \<Rightarrow> Inr (zero_blob, 0)
    | Some (bs, ver) \<Rightarrow> (case bk_unmarshal c bs of
        Inl e \<Rightarrow> Inl (Contract FOpOpen (Some (Wrap ''connector state is unreadable'' e)))
      | Inr b \<Rightarrow> Inr (b, ver)))"
proof -
  obtain m where m: "so_Get ops [k] s = Inr m"
      "fst (view s) (key_String k) = map_option (\<lambda>v. (content (v_Value v), v_Version v)) (map_of m (key_String k))"
    using get_answers [OF assms] by blast
  show ?thesis unfolding sh_get_def m by (cases "map_of m (key_String k)") simp_all
qed

text \<open>What was set is read back, under the version the setter was told.\<close>

lemma set_get:
  assumes "invar s" and "fits (PutFenced k (Some body) i e (NewSBatch singleWorkerEpoch)) s"
    and "bk_marshal c b = Inr body" and "bk_unmarshal c body = Inr b" and "sh_set c ops k b i e s = (s', Inr v)"
  shows "sh_get c ops k s' = Inr (b, v) \<and> v = i + 1 \<and> invar s'"
proof -
  let ?b = "PutFenced k (Some body) i e (NewSBatch singleWorkerEpoch)"
  have z: "so_Set ops ?b s = (s', None)" "v = i + 1" using assms(3,5) by (auto simp: sh_set_def split: prod.splits option.splits)
  have w: "view s' = commit_view ?b (view s)" "allowed ?b (view s)" "invar s'"
    using set_refines [OF assms(1,2)] set_invar [OF assms(1,2)] z(1) by (auto simp: set_view_def split: if_splits)
  have "wf_batch ?b" by simp
  then have "fst (view s') (key_String k) = Some (body, (case fst (view s) (key_String k) of None \<Rightarrow> 1 | Some (_, ver) \<Rightarrow> ver + 1))"
    using commit_view_writes [of ?b "view s" "key_String k"] w(1) by (simp add: wf_batch_def PutFenced_def NewSBatch_def content_def)
  moreover have "cas_ok \<lparr>v_Key = k, v_Value = Some body, v_IfVersion = i, v_Version = 0, v_Epoch = e\<rparr> (fst (view s) (key_String k))"
    using w(2) by (simp add: allowed_def PutFenced_def NewSBatch_def)
  ultimately have "fst (view s') (key_String k) = Some (body, i + 1)" by (auto simp: cas_ok_def split: option.splits)
  then show ?thesis using z(2) w(3) assms(4) by (simp add: get_eq)
qed

lemma get_of_view: "invar s \<Longrightarrow> invar u \<Longrightarrow> view u = view s \<Longrightarrow> sh_get c ops k u = sh_get c ops k s"
  by (simp add: get_eq)

lemma commit_load:
  assumes "invar s" and "pr_state p = Some h" and "\<not> blob_IsZero tok" and "tok = pos_Token (ack_Through a)" and "lane = ack_Lane a"
    and "fits (PutFenced (sh_key h lane) (Some body) (cached_version lane p) (fst (fenceFor lane now lt)) (NewSBatch singleWorkerEpoch)) s"
    and "bk_marshal c tok = Inr body" and "bk_unmarshal c body = Inr tok"
    and "ps_Commit c ops lt now a (p, s) = ((p', s'), None)" and "invar s' \<Longrightarrow> invar u \<and> view u = view s'"
  shows "ps_Restore lane p' = Some tok \<and>
    (\<exists>q. ps_Load c ops lane (AutoPersist h, u) = (q, Inr (tok, True)) \<and> map_of (pr_cache q) lane = map_of (pr_cache p') lane)"
proof -
  obtain e ok where f: "fenceFor lane now lt = (e, ok)" by fastforce
  have ok using assms(2-5,9) f by (auto simp: ps_Commit_def Let_def sh_Set_def split: bool.splits)
  obtain r where x: "sh_set c ops (sh_key h lane) tok (cached_version lane p) e s = (s', r)"
    using assms(2-5,9) f \<open>ok\<close> by (auto simp: ps_Commit_def Let_def sh_Set_def split: prod.splits sum.splits)
  obtain v where r: "r = Inr v" "p' = p\<lparr>pr_cache := aput lane (tok, v) (pr_cache p)\<rparr>"
    using assms(2-5,9) f \<open>ok\<close> x by (auto simp: ps_Commit_def Let_def sh_Set_def split: sum.splits)
  have g: "sh_get c ops (sh_key h lane) s' = Inr (tok, v) \<and> invar s'"
    using set_get [OF assms(1) _ assms(7,8)] assms(6) f x r(1) by auto
  then have "sh_get c ops (sh_key h lane) u = Inr (tok, v)" using assms(10) get_of_view by metis
  then show ?thesis using assms(3) r(2) by (simp add: ps_Restore_def ps_Load_def AutoPersist_def sh_Get_def)
qed

end

interpretation wal_reads: read_store wal_view wal_ops wal_inv wal_fits
  by unfold_locales (auto simp: wal_ops_def wal_Get_def wal_inv_def wal_view_def ix_view_def rows_def split: option.split)

interpretation mem_reads: read_store mem_view memstore_ops "\<lambda>s. versions_ok (ms_data s) \<and> keyed (ms_data s)" "\<lambda>b _. wf_batch b"
  by unfold_locales (auto simp: memstore_ops_def mem_Get_def mem_view_def rows_def split: option.split)

text \<open>
  C15: A persisted token survives a crash. Let the log be in step with its file, and the frame of the row
  that is written be within the bound of the format (a larger one is acknowledged and lost). Once the
  helper has committed an acknowledgement, a helper made after the process died, in the middle of an
  append or not, and the log was reopened, loads exactly the token of that acknowledgement, with the
  version its next write has to present.
\<close>
theorem committed_token_survives_a_crash:
  assumes "wal_inv s" and "pr_state p = Some h" and "\<not> blob_IsZero tok" and "tok = pos_Token (ack_Through a)" and "lane = ack_Lane a"
    and "wal_fits (PutFenced (sh_key h lane) (Some body) (cached_version lane p) (fst (fenceFor lane now lt)) (NewSBatch singleWorkerEpoch)) s"
    and "bk_marshal c tok = Inr body" and "bk_unmarshal c body = Inr tok"
    and "ps_Commit c wal_ops lt now a (p, s) = ((p', s'), None)"
    and "readFrame tail = FrameEOF \<or> readFrame tail = FrameTorn" and "wal_Open io (ws_log s' @ tail) = Inr u"
  shows "ps_Restore lane p' = Some tok \<and>
    (\<exists>q. ps_Load c wal_ops lane (AutoPersist h, u) = (q, Inr (tok, True)) \<and> map_of (pr_cache q) lane = map_of (pr_cache p') lane)"
proof (rule wal_reads.commit_load [OF assms(1-9)])
  assume "wal_inv s'"
  then show "wal_inv u \<and> wal_view u = wal_view s'"
    using Open_view [OF _ assms(10), of "ws_log s'" "ws_ix s'" io] assms(11) by (auto simp: wal_inv_def wal_view_def)
qed

definition px_codec :: blob_codec where
  "px_codec = \<lparr>bk_marshal = (\<lambda>b. case blob_Bytes b of None \<Rightarrow> Inl (Plain ''null'') | Some bs \<Rightarrow> if blob_Version b = 1 then Inr bs else Inl (Plain ''version'')),
     bk_unmarshal = (\<lambda>bs. Inr \<lparr>blob_Version = 1, blob_Bytes = Some bs\<rparr>)\<rparr>"

definition px_ack :: ack where
  "px_ack = \<lparr>ack_Lane = wx_lane, ack_Epoch = 1, ack_Through = zero_position\<lparr>pos_Token := \<lparr>blob_Version = 1, blob_Bytes = Some ''k''\<rparr>\<rparr>,
     ack_Handles = [], ack_AbandonedHandles = [], ack_Records = 1, ack_Abandoned = 0, ack_AbandonedBy = [], ack_LaneFinished = False\<rparr>"

definition px_handle :: state_handle where
  "px_handle = \<lparr>sh_tenant = ''t'', sh_pipeline = ''p'', sh_node = ''n''\<rparr>"

definition px_done :: "(persister \<times> wal) \<times> err option" where
  "px_done = ps_Commit px_codec wal_ops wx_lt 5 px_ack (AutoPersist px_handle, fresh)"

theorem committed_token_survives_a_crash_witness:
  "\<exists>u q. wal_Open CompactOK (ws_log (snd (fst px_done)) @ wx_tail) = Inr u \<and>
     ps_Load px_codec wal_ops wx_lane (AutoPersist px_handle, u) = (q, Inr (\<lparr>blob_Version = 1, blob_Bytes = Some ''k''\<rparr>, True))"
proof -
  let ?tok = "\<lparr>blob_Version = 1, blob_Bytes = Some ''k''\<rparr> :: blob"
  let ?b = "PutFenced (sh_key px_handle wx_lane) (Some ''k'') (cached_version wx_lane (AutoPersist px_handle)) (fst (fenceFor wx_lane 5 wx_lt)) (NewSBatch singleWorkerEpoch)"
  have f: "wal_fits ?b fresh" by code_simp
  have "snd px_done = None" by code_simp
  then have d: "ps_Commit px_codec wal_ops wx_lt 5 px_ack (AutoPersist px_handle, fresh) = ((fst (fst px_done), snd (fst px_done)), None)"
    by (simp add: px_done_def prod_eq_iff)
  have "snd (fst px_done) = fst (wal_Set AppendOK CompactOK ?b fresh)"
    by (auto simp: px_done_def ps_Commit_def AutoPersist_def px_ack_def sh_Set_def sh_set_def px_codec_def wal_ops_def Let_def blob_IsZero_def zero_position_def
        fenceFor_def wx_lt_def newLeaseTable_def coordinated_def cached_version_def split: prod.splits option.splits)
  then have w: "wal_inv (snd (fst px_done))" using wal.set_invar [OF fresh_inv f] by simp
  then obtain u where u: "wal_Open CompactOK (ws_log (snd (fst px_done)) @ wx_tail) = Inr u"
    using Open_view [OF _ wx_tail_torn, of "ws_log (snd (fst px_done))" "ws_ix (snd (fst px_done))" CompactOK] by (auto simp: wal_inv_def)
  have t: "?tok = pos_Token (ack_Through px_ack)" "wx_lane = ack_Lane px_ack" "\<not> blob_IsZero ?tok" "pr_state (AutoPersist px_handle) = Some px_handle"
      "bk_marshal px_codec ?tok = Inr ''k''" "bk_unmarshal px_codec ''k'' = Inr ?tok"
    by (simp_all add: px_ack_def blob_IsZero_def AutoPersist_def px_codec_def)
  from committed_token_survives_a_crash [OF fresh_inv t(4,3,1,2) f t(5,6) d wx_tail_torn u] u show ?thesis by blast
qed

end
