(* ===== verification/Canal_Config.thy ===== *)
theory Canal_Config
  imports Canal_Fault Canal_Keys
begin

text \<open>
  Component configuration: the package \<^verbatim>\<open>pkg/config\<close>. A component describes its settings by a tree
  of fields; an operator's raw settings are an untyped tree. The theory models the tree of raw values, the
  diagnostics, the predicates of \<^verbatim>\<open>show_if\<close> and \<^verbatim>\<open>required_if\<close>, the lookup of a path with its declared
  default, the coercions of the typed accessors, \<^verbatim>\<open>Validate\<close> and \<^verbatim>\<open>Redacted\<close>.

  A raw value is what a decoder yields: \<open>CInt\<close> stands for any integer type, by its \<^verbatim>\<open>int64\<close> value. A Go
  map is an association list; where the code ranges over it the list order is one iteration order. The
  conversions of the standard library that the code calls on strings and numbers (\<^verbatim>\<open>strconv.ParseFloat\<close>,
  \<^verbatim>\<open>strconv.ParseInt\<close>, \<^verbatim>\<open>time.ParseDuration\<close>, \<^verbatim>\<open>regexp\<close>, \<^verbatim>\<open>fmt\<close>) are a record of functions, over which
  every lemma quantifies. A diagnostic's message is the constructor naming the sentence with the values
  formatted into it; its fixed hint is not repeated.
\<close>

section \<open>Raw values\<close>

datatype cval = CNull | CBool bool | CInt int | CFloat float64 | CStr string | CDur duration
  | CList "cval list" | CMap "(string \<times> cval) list"

record std =
  std_ParseFloat :: "string \<Rightarrow> float64 option"
  std_ParseInt :: "string \<Rightarrow> int option"
  std_ParseDuration :: "string \<Rightarrow> duration option"
  std_Match :: "string \<Rightarrow> string \<Rightarrow> bool option"
  std_FormatFloat :: "float64 \<Rightarrow> string"
  std_Sprint :: "cval \<Rightarrow> string"
  std_float :: "int \<Rightarrow> float64"
  std_integral :: "float64 \<Rightarrow> int option"

section \<open>Diagnostics\<close>

datatype severity = SeverityError | SeverityWarning | SeverityInfo

datatype code = CodeUnknownField | CodeMissingField | CodeWrongType | CodeOutOfRange | CodeInvalidEnum
  | CodeInvalidPattern | CodeDeprecated | CodeUnknownComponent | CodeGraphInvalid | CodeCapability
  | CodeGuarantee | CodeUnreachable | CodeAuthFailed | CodeNotFound | CodePermission | CodeCustom
  | CodeNone

record 'm diagnostic =
  dg_Path :: "string list"
  dg_Node :: node_id
  dg_Severity :: severity
  dg_Code :: code
  dg_Message :: 'm
  dg_Hint :: "string list"
  dg_Iface :: string

type_synonym 'm diagnostics = "'m diagnostic list"

definition HasErrors :: "'m diagnostics \<Rightarrow> bool" where
  "HasErrors d \<longleftrightarrow> list_ex (\<lambda>x. dg_Severity x = SeverityError) d"

definition Errorf :: "'m diagnostics \<Rightarrow> code \<Rightarrow> string list \<Rightarrow> 'm \<Rightarrow> 'm diagnostics" where
  "Errorf d c path msg = d @ [\<lparr>dg_Path = path, dg_Node = '''', dg_Severity = SeverityError, dg_Code = c,
     dg_Message = msg, dg_Hint = [], dg_Iface = ''''\<rparr>]"

definition Warnf :: "'m diagnostics \<Rightarrow> code \<Rightarrow> string list \<Rightarrow> 'm \<Rightarrow> 'm diagnostics" where
  "Warnf d c path msg = d @ [\<lparr>dg_Path = path, dg_Node = '''', dg_Severity = SeverityWarning, dg_Code = c,
     dg_Message = msg, dg_Hint = [], dg_Iface = ''''\<rparr>]"

lemma HasErrors_simps [simp]:
  "\<not> HasErrors []"
  "HasErrors (d @ e) \<longleftrightarrow> HasErrors d \<or> HasErrors e"
  "HasErrors (x # d) \<longleftrightarrow> dg_Severity x = SeverityError \<or> HasErrors d"
  "HasErrors (Errorf d c path msg)"
  "HasErrors (Warnf d c path msg) \<longleftrightarrow> HasErrors d"
  by (auto simp: HasErrors_def Errorf_def Warnf_def)

lemma HasErrors_concat [simp]: "HasErrors (concat xs) \<longleftrightarrow> (\<exists>x\<in>set xs. HasErrors x)"
  by (induction xs) auto

lemma HasErrors_concat_map: "HasErrors (concat (map g xs)) \<longleftrightarrow> (\<exists>x\<in>set xs. HasErrors (g x))"
  by simp

section \<open>Predicates, fields and specs\<close>

datatype pred_op = PredNone | PredEquals | PredNotEquals | PredIn | PredPresent | PredTruthy
  | PredGreaterThan | PredLessThan | PredMatches | PredAll | PredAny | PredNot | PredUnknown string

datatype predicate = Predicate
  (pr_Path: "string list") (pr_Op: pred_op) (pr_Value: cval) (pr_Other: "string list")
  (pr_All: "predicate list") (pr_Any: "predicate list") (pr_Not: "predicate option")

datatype field_type = TypeString | TypeInt | TypeFloat | TypeBool | TypeDuration | TypeSize | TypeEnum
  | TypeObject | TypeArray | TypeMap | TypeUnion | TypeMapping | TypeUnknown string

record enum_value =
  ev_Value :: string
  ev_Title :: string
  ev_Description :: string
  ev_Deprecated :: bool

datatype field = Field
  (fd_Name: string) (fd_Title: string) (fd_Description: string) (fd_Short: string) (fd_Type: field_type)
  (fd_Default: cval) (fd_Optional: bool) (fd_Advanced: bool) (fd_Secret: bool) (fd_Deprecated: string)
  (fd_Examples: "cval list") (fd_Enum: "enum_value list") (fd_Fields: "field list")
  (fd_Item: "field option") (fd_Variants: "variant list") (fd_Min: "float64 option")
  (fd_Max: "float64 option") (fd_Pattern: string) (fd_PatternHint: string)
  (fd_ShowIf: "predicate option") (fd_RequiredIf: "predicate option") (fd_Choices: string)
and variant = Variant
  (vr_Tag: string) (vr_Title: string) (vr_Description: string) (vr_Fields: "field list")

record lint =
  ln_When :: "predicate option"
  ln_Require :: predicate
  ln_Severity :: severity
  ln_Code :: code
  ln_Message :: string
  ln_Hint :: string
  ln_Path :: "string list"

record example =
  ex_Title :: string
  ex_Description :: string
  ex_Config :: "(string \<times> cval) list"

record cfg_spec =
  sp_Summary :: string
  sp_Description :: string
  sp_Version :: string
  sp_Deprecated :: string
  sp_Fields :: "field list"
  sp_Examples :: "example list"
  sp_Lints :: "lint list"

definition NewCfgSpec :: cfg_spec where
  "NewCfgSpec = \<lparr>sp_Summary = '''', sp_Description = '''', sp_Version = '''', sp_Deprecated = '''',
     sp_Fields = [], sp_Examples = [], sp_Lints = []\<rparr>"

definition UnionTagKey :: string where
  "UnionTagKey = ''type''"

text \<open>\<^verbatim>\<open>findField\<close>: the first field of that name decides, also when it has no such subfield.\<close>

lemma variant_fields_size [termination_simp]:
  "v \<in> set vs \<Longrightarrow> size_list size (vr_Fields v) < Suc (size_list size vs)"
  by (induction vs; cases v) auto

lemma field_fields_size [termination_simp]: "size_list size (fd_Fields f) < size f"
  by (cases f) auto

lemma field_item_fields_size [termination_simp]:
  "fd_Item f = Some g \<Longrightarrow> size_list size (fd_Fields g) < size f"
  by (cases f; cases g) auto

lemma field_item_size [termination_simp]: "fd_Item f = Some g \<Longrightarrow> size g < size f"
  by (cases f) auto

lemma field_variants_size [termination_simp]:
  "v \<in> set (fd_Variants f) \<Longrightarrow> size_list size (vr_Fields v) < size f"
  by (cases f) (use variant_fields_size in force)

definition fieldNamed :: "field list \<Rightarrow> string \<Rightarrow> field option" where
  "fieldNamed fs name = find (\<lambda>f. fd_Name f = name) fs"

lemma field_in_fields_size [termination_simp]: "g \<in> set (fd_Fields f) \<Longrightarrow> size g < size f"
  by (rule le_less_trans [OF size_list_estimation' [OF _ order.refl] field_fields_size])

lemma field_in_variant_size [termination_simp]:
  "v \<in> set (fd_Variants f) \<Longrightarrow> g \<in> set (vr_Fields v) \<Longrightarrow> size g < size f"
  by (rule le_less_trans [OF size_list_estimation' [OF _ order.refl] field_variants_size])

lemma fieldNamed_mem: "fieldNamed fs k = Some f \<Longrightarrow> f \<in> set fs \<and> fd_Name f = k"
  by (auto simp: fieldNamed_def find_Some_iff)

lemma fieldNamed_size [termination_simp]: "fieldNamed fs k = Some f \<Longrightarrow> size f < Suc (size_list size fs)"
  using fieldNamed_mem [of fs k f] size_list_estimation' [of f fs "size f" size] by auto

fun first_some :: "'a option list \<Rightarrow> 'a option" where
  "first_some [] = None"
| "first_some (Some x # xs) = Some x"
| "first_some (None # xs) = first_some xs"

fun findField :: "field list \<Rightarrow> string list \<Rightarrow> field option" where
  "findField fs [] = None"
| "findField fs (p # rest) =
     (case fieldNamed fs p of
        None \<Rightarrow> None
      | Some f \<Rightarrow>
          if rest = [] then Some f
          else if fd_Type f = TypeObject then findField (fd_Fields f) rest
          else if fd_Type f = TypeArray \<or> fd_Type f = TypeMap then
            (case fd_Item f of
               None \<Rightarrow> None
             | Some g \<Rightarrow> if fd_Type g = TypeObject then findField (fd_Fields g) rest else None)
          else if fd_Type f = TypeUnion then first_some (map (\<lambda>v. findField (vr_Fields v) rest) (fd_Variants f))
          else None)"

definition Find :: "cfg_spec option \<Rightarrow> string list \<Rightarrow> field option" where
  "Find s path = (case s of None \<Rightarrow> None | Some sp \<Rightarrow> findField (sp_Fields sp) path)"

section \<open>A configuration and its lookups\<close>

datatype cfg_err = Absent "string list" | Expected string | NotObject "string list" | NotArray "string list"
  | ElementNotObject "string list" nat | NoDiscriminator "string list" | DiscriminatorNotString "string list"
  | NotSecret "string list" | BadDuration | BadSize | UnknownSizeUnit string | UnknownTerminal string
  | UnknownIndeterminate string | InvalidRetry "retry_invalid list" | NoTrigger

record config =
  cf_spec :: "cfg_spec option"
  cf_raw :: "(string \<times> cval) list"
  cf_errs :: "cfg_err list"

definition NewConfig :: "cfg_spec option \<Rightarrow> (string \<times> cval) list \<Rightarrow> config" where
  "NewConfig s raw = \<lparr>cf_spec = s, cf_raw = raw, cf_errs = []\<rparr>"

definition note_err :: "cfg_err \<Rightarrow> config \<Rightarrow> config" where
  "note_err e c = c\<lparr>cf_errs := cf_errs c @ [e]\<rparr>"

fun walk :: "cval \<Rightarrow> string list \<Rightarrow> cval option" where
  "walk cur [] = Some cur"
| "walk (CMap m) (seg # path) = (case map_of m seg of None \<Rightarrow> None | Some v \<Rightarrow> walk v path)"
| "walk _ (seg # path) = None"

definition lookup :: "config \<Rightarrow> string list \<Rightarrow> cval option" where
  "lookup c path = (if path = [] then None else walk (CMap (cf_raw c)) path)"

definition cfg_Has :: "config \<Rightarrow> string list \<Rightarrow> bool" where
  "cfg_Has c path \<longleftrightarrow> lookup c path \<noteq> None"

definition defaultFor :: "config \<Rightarrow> string list \<Rightarrow> cval option" where
  "defaultFor c path =
     (case Find (cf_spec c) path of
        None \<Rightarrow> None
      | Some f \<Rightarrow> if fd_Default f = CNull then None else Some (fd_Default f))"

section \<open>Numbers, durations and sizes\<close>

definition FormatInt :: "int \<Rightarrow> string" where
  "FormatInt i = (if i < 0 then CHR ''-'' # FormatUint (nat (- i)) else FormatUint (nat i))"

definition asInt64 :: "std \<Rightarrow> cval \<Rightarrow> int option" where
  "asInt64 L v = (case v of CInt n \<Rightarrow> Some n | CFloat x \<Rightarrow> std_integral L x | CStr s \<Rightarrow> std_ParseInt L s | _ \<Rightarrow> None)"

definition asFloat :: "std \<Rightarrow> cval \<Rightarrow> float64 option" where
  "asFloat L v = (case v of CFloat x \<Rightarrow> Some x | CStr s \<Rightarrow> std_ParseFloat L s
     | _ \<Rightarrow> map_option (std_float L) (asInt64 L v))"

text \<open>
  A duration is the value itself, a parsed string, or a number of seconds, truncated to nanoseconds. Durations and
  sizes are unbounded integers here, where the code converts to 64 bits; and the trimming and lowering of a size
  treats ASCII letters and blanks, where the code uses the Unicode functions.
\<close>

definition ParseDuration :: "std \<Rightarrow> cval \<Rightarrow> cfg_err + duration" where
  "ParseDuration L v =
     (case v of
        CDur d \<Rightarrow> Inr d
      | CStr s \<Rightarrow> (case std_ParseDuration L s of None \<Rightarrow> Inl BadDuration | Some d \<Rightarrow> Inr d)
      | _ \<Rightarrow> (case asFloat L v of None \<Rightarrow> Inl BadDuration | Some f \<Rightarrow> Inr (f64_trunc (f64_scale second f))))"

definition is_space :: "char \<Rightarrow> bool" where
  "is_space c \<longleftrightarrow> c \<in> set [CHR '' '', CHR 0x09, CHR 0x0A, CHR 0x0B, CHR 0x0C, CHR 0x0D]"

definition TrimSpace :: "string \<Rightarrow> string" where
  "TrimSpace s = rev (dropWhile is_space (rev (dropWhile is_space s)))"

definition lower_char :: "char \<Rightarrow> char" where
  "lower_char c = (if CHR ''A'' \<le> c \<and> c \<le> CHR ''Z'' then char_of (of_char c + (32 :: nat)) else c)"

definition size_digit :: "char \<Rightarrow> bool" where
  "size_digit c \<longleftrightarrow> c = CHR ''.'' \<or> c = CHR ''-'' \<or> (CHR ''0'' \<le> c \<and> c \<le> CHR ''9'')"

definition size_mult :: "string \<Rightarrow> int option" where
  "size_mult unit = map_of [('''', 1), (''b'', 1), (''kib'', 2 ^ 10), (''mib'', 2 ^ 20), (''gib'', 2 ^ 30),
     (''tib'', 2 ^ 40), (''kb'', 1000), (''mb'', 1000 ^ 2), (''gb'', 1000 ^ 3), (''tb'', 1000 ^ 4)] unit"

definition ParseSize :: "std \<Rightarrow> cval \<Rightarrow> cfg_err + int" where
  "ParseSize L v =
     (case v of
        CStr x \<Rightarrow>
          (let s = TrimSpace x in
           if s = '''' then Inl BadSize
           else let unit = map lower_char (TrimSpace (dropWhile size_digit s)) in
             case std_ParseFloat L (takeWhile size_digit s) of
               None \<Rightarrow> Inl BadSize
             | Some f \<Rightarrow>
                 (case size_mult unit of
                    None \<Rightarrow> Inl (UnknownSizeUnit unit)
                  | Some mult \<Rightarrow> Inr (f64_trunc (f64_scale mult f))))
      | _ \<Rightarrow> (case asInt64 L v of None \<Rightarrow> Inl BadSize | Some n \<Rightarrow> Inr n))"

section \<open>Evaluating predicates\<close>

definition f64_eq :: "float64 \<Rightarrow> float64 \<Rightarrow> bool" where
  "f64_eq a b \<longleftrightarrow> a \<noteq> NaN \<and> a = b"

definition truthy :: "std \<Rightarrow> cval \<Rightarrow> bool" where
  "truthy L v =
     (case v of CNull \<Rightarrow> False | CBool b \<Rightarrow> b | CStr s \<Rightarrow> s \<noteq> '''' | CList xs \<Rightarrow> xs \<noteq> [] | CMap m \<Rightarrow> m \<noteq> []
      | _ \<Rightarrow> (case asFloat L v of None \<Rightarrow> True | Some f \<Rightarrow> \<not> f64_eq f (Fin 0)))"

definition asString :: "std \<Rightarrow> cval \<Rightarrow> string" where
  "asString L v =
     (case v of
        CNull \<Rightarrow> ''''
      | CStr s \<Rightarrow> s
      | CBool b \<Rightarrow> (if b then ''true'' else ''false'')
      | CFloat x \<Rightarrow> std_FormatFloat L x
      | _ \<Rightarrow> (case asInt64 L v of Some n \<Rightarrow> FormatInt n | None \<Rightarrow> std_Sprint L v))"

definition looseEqual :: "std \<Rightarrow> cval \<Rightarrow> cval \<Rightarrow> bool" where
  "looseEqual L a b =
     (case (asFloat L a, asFloat L b) of
        (Some x, Some y) \<Rightarrow> f64_eq x y
      | _ \<Rightarrow> (case (a, b) of
                (CStr s, CStr t) \<Rightarrow> s = t
              | (CBool p, CBool q) \<Rightarrow> p = q
              | _ \<Rightarrow> asString L a = asString L b))"

definition asQuantity :: "std \<Rightarrow> cval \<Rightarrow> float64 option" where
  "asQuantity L v =
     (case asFloat L v of
        Some f \<Rightarrow> Some f
      | None \<Rightarrow> (case v of
          CStr s \<Rightarrow> (if s = '''' then None else
             case ParseDuration L v of
               Inr d \<Rightarrow> Some (std_float L d)
             | Inl _ \<Rightarrow> (case ParseSize L v of Inr n \<Rightarrow> Some (std_float L n) | Inl _ \<Rightarrow> None))
        | _ \<Rightarrow> None))"

definition eval_leaf :: "std \<Rightarrow> pred_op \<Rightarrow> cval option \<Rightarrow> cval \<Rightarrow> bool" where
  "eval_leaf L op got want =
     (case op of
        PredPresent \<Rightarrow> got \<noteq> None
      | PredTruthy \<Rightarrow> (case got of None \<Rightarrow> False | Some g \<Rightarrow> truthy L g)
      | PredEquals \<Rightarrow> (case got of None \<Rightarrow> False | Some g \<Rightarrow> looseEqual L g want)
      | PredNotEquals \<Rightarrow> (case got of None \<Rightarrow> True | Some g \<Rightarrow> \<not> looseEqual L g want)
      | PredIn \<Rightarrow> (case (got, want) of (Some g, CList ws) \<Rightarrow> list_ex (looseEqual L g) ws | _ \<Rightarrow> False)
      | PredGreaterThan \<Rightarrow> (case got of None \<Rightarrow> False | Some g \<Rightarrow>
          (case (asQuantity L g, asQuantity L want) of (Some a, Some b) \<Rightarrow> f64_lt b a | _ \<Rightarrow> False))
      | PredLessThan \<Rightarrow> (case got of None \<Rightarrow> False | Some g \<Rightarrow>
          (case (asQuantity L g, asQuantity L want) of (Some a, Some b) \<Rightarrow> f64_lt a b | _ \<Rightarrow> False))
      | PredMatches \<Rightarrow> (case (got, want) of
          (Some g, CStr pat) \<Rightarrow> (case std_Match L pat (asString L g) of None \<Rightarrow> False | Some b \<Rightarrow> b)
        | _ \<Rightarrow> False)
      | _ \<Rightarrow> False)"

fun eval :: "std \<Rightarrow> (string list \<Rightarrow> cval option) \<Rightarrow> predicate \<Rightarrow> bool" where
  "eval L lk (Predicate path op value other alls anys negated) =
     (case op of
        PredAll \<Rightarrow> list_all (eval L lk) alls
      | PredAny \<Rightarrow> list_ex (eval L lk) anys \<or> anys = []
      | PredNot \<Rightarrow> (case negated of None \<Rightarrow> True | Some q \<Rightarrow> \<not> eval L lk q)
      | _ \<Rightarrow>
          list_all (eval L lk) alls \<and>
          (anys = [] \<or> list_ex (eval L lk) anys) \<and>
          (case negated of None \<Rightarrow> True | Some q \<Rightarrow> \<not> eval L lk q) \<and>
          (op = PredNone \<or>
           (if other \<noteq> [] then
              (case lk other of None \<Rightarrow> False | Some want \<Rightarrow> eval_leaf L op (lk path) want)
            else eval_leaf L op (lk path) value)))"

definition Eval :: "std \<Rightarrow> predicate option \<Rightarrow> config \<Rightarrow> bool" where
  "Eval L p c = (case p of None \<Rightarrow> True | Some q \<Rightarrow> eval L (lookup c) q)"

fun Paths :: "predicate \<Rightarrow> string list list" where
  "Paths (Predicate path op value other alls anys negated) =
     (if path = [] then [] else [path]) @ (if other = [] then [] else [other]) @
     concat (map Paths alls) @ concat (map Paths anys) @
     (case negated of None \<Rightarrow> [] | Some q \<Rightarrow> Paths q)"

section \<open>The typed accessors\<close>

text \<open>
  \<^verbatim>\<open>Get[T]\<close> is \<open>Get\<close> at the coercion of \<^verbatim>\<open>T\<close>: the raw value at the path, or else the default the spec
  declares for it. A failure is also noted on the configuration.
\<close>

definition get_value :: "(cval \<Rightarrow> cfg_err + 'a) \<Rightarrow> config \<Rightarrow> string list \<Rightarrow> cfg_err + 'a" where
  "get_value co c path =
     (case (case lookup c path of None \<Rightarrow> defaultFor c path | Some v \<Rightarrow> Some v) of
        None \<Rightarrow> Inl (Absent path)
      | Some raw \<Rightarrow> co raw)"

definition Get :: "(cval \<Rightarrow> cfg_err + 'a) \<Rightarrow> config \<Rightarrow> string list \<Rightarrow> config \<times> (cfg_err + 'a)" where
  "Get co c path = (case get_value co c path of Inl e \<Rightarrow> (note_err e c, Inl e) | Inr v \<Rightarrow> (c, Inr v))"

definition coerce_string :: "cval \<Rightarrow> cfg_err + string" where
  "coerce_string v = (case v of CStr s \<Rightarrow> Inr s | _ \<Rightarrow> Inl (Expected ''string''))"

definition coerce_bool :: "cval \<Rightarrow> cfg_err + bool" where
  "coerce_bool v = (case v of CBool b \<Rightarrow> Inr b | _ \<Rightarrow> Inl (Expected ''bool''))"

definition coerce_int :: "std \<Rightarrow> cval \<Rightarrow> cfg_err + int" where
  "coerce_int L v = (case asInt64 L v of Some n \<Rightarrow> Inr n | None \<Rightarrow> Inl (Expected ''integer''))"

definition coerce_uint64 :: "std \<Rightarrow> cval \<Rightarrow> cfg_err + nat" where
  "coerce_uint64 L v = (case asInt64 L v of
     Some n \<Rightarrow> if n < 0 then Inl (Expected ''non-negative integer'') else Inr (nat n)
   | None \<Rightarrow> Inl (Expected ''non-negative integer''))"

definition coerce_float :: "std \<Rightarrow> cval \<Rightarrow> cfg_err + float64" where
  "coerce_float L v = (case asFloat L v of Some f \<Rightarrow> Inr f | None \<Rightarrow> Inl (Expected ''number''))"

fun coerce_elems :: "cval list \<Rightarrow> cfg_err + string list" where
  "coerce_elems [] = Inr []"
| "coerce_elems (e # es) =
     (case e of
        CStr s \<Rightarrow> (case coerce_elems es of Inl x \<Rightarrow> Inl x | Inr ss \<Rightarrow> Inr (s # ss))
      | _ \<Rightarrow> Inl (Expected ''array of strings''))"

definition coerce_strings :: "cval \<Rightarrow> cfg_err + string list" where
  "coerce_strings v = (case v of CList xs \<Rightarrow> coerce_elems xs | _ \<Rightarrow> Inl (Expected ''array''))"

definition coerce_map :: "cval \<Rightarrow> cfg_err + (string \<times> cval) list" where
  "coerce_map v = (case v of CMap m \<Rightarrow> Inr m | _ \<Rightarrow> Inl (Expected ''object''))"

definition coerce_list :: "cval \<Rightarrow> cfg_err + cval list" where
  "coerce_list v = (case v of CList xs \<Rightarrow> Inr xs | _ \<Rightarrow> Inl (Expected ''array''))"

text \<open>
  A nested configuration keeps the spec of the whole component, while its raw values start at the object.
\<close>

definition cfg_Object :: "config \<Rightarrow> string list \<Rightarrow> config \<times> (cfg_err + config)" where
  "cfg_Object c path =
     (case (case lookup c path of None \<Rightarrow> defaultFor c path | Some v \<Rightarrow> Some v) of
        None \<Rightarrow> (c, Inr (NewConfig (cf_spec c) []))
      | Some (CMap m) \<Rightarrow> (c, Inr (NewConfig (cf_spec c) m))
      | Some _ \<Rightarrow> (note_err (NotObject path) c, Inl (NotObject path)))"

fun list_items :: "cfg_spec option \<Rightarrow> string list \<Rightarrow> nat \<Rightarrow> cval list \<Rightarrow> cfg_err + config list" where
  "list_items s path i [] = Inr []"
| "list_items s path i (e # es) =
     (case e of
        CMap m \<Rightarrow> (case list_items s path (Suc i) es of Inl x \<Rightarrow> Inl x | Inr cs \<Rightarrow> Inr (NewConfig s m # cs))
      | _ \<Rightarrow> Inl (ElementNotObject path i))"

definition cfg_List :: "config \<Rightarrow> string list \<Rightarrow> config \<times> (cfg_err + config list)" where
  "cfg_List c path =
     (case (case lookup c path of None \<Rightarrow> defaultFor c path | Some v \<Rightarrow> Some v) of
        None \<Rightarrow> (c, Inr [])
      | Some (CList xs) \<Rightarrow>
          (case list_items (cf_spec c) path 0 xs of Inl e \<Rightarrow> (note_err e c, Inl e) | Inr cs \<Rightarrow> (c, Inr cs))
      | Some _ \<Rightarrow> (note_err (NotArray path) c, Inl (NotArray path)))"

definition cfg_Union :: "config \<Rightarrow> string list \<Rightarrow> config \<times> (cfg_err + string \<times> config)" where
  "cfg_Union c path =
     (case cfg_Object c path of
        (c', Inl e) \<Rightarrow> (c', Inl e)
      | (c', Inr sub) \<Rightarrow>
          (case lookup sub [UnionTagKey] of
             None \<Rightarrow> (note_err (NoDiscriminator path) c', Inl (NoDiscriminator path))
           | Some (CStr s) \<Rightarrow> (c', Inr (s, sub))
           | Some _ \<Rightarrow> (note_err (DiscriminatorNotString path) c', Inl (DiscriminatorNotString path))))"

definition cfg_Secret :: "config \<Rightarrow> string list \<Rightarrow> config \<times> (cfg_err + string)" where
  "cfg_Secret c path =
     (case Find (cf_spec c) path of
        Some f \<Rightarrow> if \<not> fd_Secret f then (note_err (NotSecret path) c, Inl (NotSecret path)) else Get coerce_string c path
      | None \<Rightarrow> Get coerce_string c path)"

section \<open>The composites\<close>

definition opt_set :: "cfg_err + 'a \<Rightarrow> ('a \<Rightarrow> 'b \<Rightarrow> 'b) \<Rightarrow> 'b \<Rightarrow> 'b" where
  "opt_set r f p = (case r of Inl _ \<Rightarrow> p | Inr v \<Rightarrow> f v p)"

definition terminal_token :: "string \<Rightarrow> retry_terminal option" where
  "terminal_token s = map_of [(''dead_letter'', TerminalDeadLetter), (''drop'', TerminalDrop), (''stop'', TerminalStop)] s"

definition indeterminate_token :: "string \<Rightarrow> indeterminacy option" where
  "indeterminate_token s =
     map_of [(''stall'', IndeterminateStall), (''retry'', IndeterminateRetry), (''dead_letter'', IndeterminateDeadLetter)] s"

definition cfg_Retry :: "std \<Rightarrow> config \<Rightarrow> string list \<Rightarrow> retry_policy \<times> cfg_err option" where
  "cfg_Retry L c path =
     (case cfg_Object c path of
        (_, Inl e) \<Rightarrow> (DefaultRetry, Some e)
      | (_, Inr sub) \<Rightarrow>
          (let p = opt_set (get_value (coerce_int L) sub [''max_attempts'']) (\<lambda>n p. p\<lparr>rp_MaxAttempts := n\<rparr>) DefaultRetry;
               p = opt_set (get_value (ParseDuration L) sub [''initial''])
                     (\<lambda>d p. p\<lparr>rp_Backoff := (rp_Backoff p)\<lparr>bo_Initial := d\<rparr>\<rparr>) p;
               p = opt_set (get_value (ParseDuration L) sub [''max''])
                     (\<lambda>d p. p\<lparr>rp_Backoff := (rp_Backoff p)\<lparr>bo_Max := d\<rparr>\<rparr>) p;
               p = (if cfg_Has sub [''max_elapsed''] then opt_set (get_value (ParseDuration L) sub [''max_elapsed''])
                     (\<lambda>d p. p\<lparr>rp_Backoff := (rp_Backoff p)\<lparr>bo_MaxElapsed := d\<rparr>\<rparr>) p else p);
               p = opt_set (get_value (coerce_float L) sub [''multiplier''])
                     (\<lambda>f p. p\<lparr>rp_Backoff := (rp_Backoff p)\<lparr>bo_Multiplier := f\<rparr>\<rparr>) p;
               indet = (\<lambda>p. case get_value coerce_string sub [''on_indeterminate''] of
                   Inl _ \<Rightarrow> (p, if Validate p = [] then None else Some (InvalidRetry (Validate p)))
                 | Inr s \<Rightarrow> (case indeterminate_token s of
                     None \<Rightarrow> (p, Some (UnknownIndeterminate s))
                   | Some i \<Rightarrow> (let q = p\<lparr>rp_OnIndeterminate := i\<rparr> in
                       (q, if Validate q = [] then None else Some (InvalidRetry (Validate q))))))
           in case get_value coerce_string sub [''terminal''] of
                Inl _ \<Rightarrow> indet p
              | Inr s \<Rightarrow> (case terminal_token s of
                    None \<Rightarrow> (p, Some (UnknownTerminal s))
                  | Some t \<Rightarrow> indet (p\<lparr>rp_Terminal := t\<rparr>))))"

record batch_policy =
  bp_MaxRecords :: int
  bp_MaxBytes :: int
  bp_MaxAge :: duration
  bp_FlushOn :: "predicate option"

definition cfg_Batching :: "std \<Rightarrow> config \<Rightarrow> string list \<Rightarrow> batch_policy \<times> cfg_err option" where
  "cfg_Batching L c path =
     (let p0 = \<lparr>bp_MaxRecords = 500, bp_MaxBytes = 0, bp_MaxAge = second, bp_FlushOn = None\<rparr> in
      case cfg_Object c path of
        (_, Inl e) \<Rightarrow> (p0, Some e)
      | (_, Inr sub) \<Rightarrow>
          (let p = opt_set (get_value (coerce_int L) sub [''max_records'']) (\<lambda>n p. p\<lparr>bp_MaxRecords := n\<rparr>) p0;
               finish = (\<lambda>p. let p = opt_set (get_value (ParseDuration L) sub [''max_age'']) (\<lambda>d p. p\<lparr>bp_MaxAge := d\<rparr>) p in
                 (p, if bp_MaxRecords p \<le> 0 \<and> bp_MaxBytes p \<le> 0 \<and> bp_MaxAge p \<le> 0 \<and> bp_FlushOn p = None
                     then Some NoTrigger else None))
           in case lookup sub [''max_bytes''] of
                None \<Rightarrow> finish p
              | Some raw \<Rightarrow> (case ParseSize L raw of
                    Inl e \<Rightarrow> (p, Some e)
                  | Inr n \<Rightarrow> finish (p\<lparr>bp_MaxBytes := n\<rparr>))))"

record codec_ref =
  cr_Encoder :: string
  cr_EncoderConfig :: "(string \<times> cval) list"
  cr_Framer :: string
  cr_FramerConfig :: "(string \<times> cval) list"
  cr_Compressor :: string
  cr_CompressorConfig :: "(string \<times> cval) list"

definition get_or :: "'a \<Rightarrow> cfg_err + 'a \<Rightarrow> 'a" where
  "get_or z r = (case r of Inl _ \<Rightarrow> z | Inr v \<Rightarrow> v)"

definition codec_ref_IsZero :: "codec_ref \<Rightarrow> bool" where
  "codec_ref_IsZero r \<longleftrightarrow> cr_Encoder r = '''' \<and> cr_Framer r = '''' \<and> cr_Compressor r = ''''"

definition sub_config :: "config \<Rightarrow> string \<Rightarrow> (string \<times> cval) list" where
  "sub_config sub name = (if cfg_Has sub [name] then get_or [] (get_value coerce_map sub [name]) else [])"

definition cfg_Codec :: "config \<Rightarrow> string list \<Rightarrow> codec_ref \<times> cfg_err option" where
  "cfg_Codec c path =
     (case cfg_Object c path of
        (_, Inl e) \<Rightarrow> (\<lparr>cr_Encoder = '''', cr_EncoderConfig = [], cr_Framer = '''', cr_FramerConfig = [],
           cr_Compressor = '''', cr_CompressorConfig = []\<rparr>, Some e)
      | (_, Inr sub) \<Rightarrow>
          (\<lparr>cr_Encoder = get_or '''' (get_value coerce_string sub [''encoder'']),
             cr_EncoderConfig = sub_config sub ''encoder_config'',
             cr_Framer = get_or '''' (get_value coerce_string sub [''framer'']),
             cr_FramerConfig = sub_config sub ''framer_config'',
             cr_Compressor = get_or '''' (get_value coerce_string sub [''compressor'']),
             cr_CompressorConfig = sub_config sub ''compressor_config''\<rparr>, None))"

record buffer_ref =
  br_Name :: string
  br_Config :: "(string \<times> cval) list"

definition cfg_Buffer :: "config \<Rightarrow> string list \<Rightarrow> buffer_ref \<times> cfg_err option" where
  "cfg_Buffer c path =
     (case cfg_Object c path of
        (_, Inl e) \<Rightarrow> (\<lparr>br_Name = '''', br_Config = []\<rparr>, Some e)
      | (_, Inr sub) \<Rightarrow>
          (\<lparr>br_Name = get_or '''' (get_value coerce_string sub [''name'']), br_Config = sub_config sub ''config''\<rparr>, None))"

section \<open>Redaction\<close>

text \<open>The marker, in the bytes of its UTF-8 form.\<close>

definition RedactedMarker :: string where
  "RedactedMarker = [CHR 0xC2, CHR 0xAB] @ ''redacted'' @ [CHR 0xC2, CHR 0xBB]"

fun tag_of :: "(string \<times> cval) list \<Rightarrow> string" where
  "tag_of m = (case map_of m UnionTagKey of Some (CStr s) \<Rightarrow> s | _ \<Rightarrow> '''')"

definition variantTagged :: "variant list \<Rightarrow> string \<Rightarrow> variant option" where
  "variantTagged vs tag = find (\<lambda>v. vr_Tag v = tag) vs"

lemma variantTagged_mem: "variantTagged vs tag = Some a \<Longrightarrow> a \<in> set vs \<and> vr_Tag a = tag"
  by (auto simp: variantTagged_def find_Some_iff)

lemma variantTagged_size [termination_simp]:
  "variantTagged (fd_Variants f) tag = Some a \<Longrightarrow> size_list size (vr_Fields a) < size f"
  using field_variants_size variantTagged_mem by blast

definition unionFields :: "field \<Rightarrow> cval \<Rightarrow> field list" where
  "unionFields f v =
     (case v of
        CMap m \<Rightarrow> (case variantTagged (fd_Variants f) (tag_of m) of None \<Rightarrow> [] | Some a \<Rightarrow> vr_Fields a)
      | _ \<Rightarrow> [])"

text \<open>The fields that describe the value of a member: the arms of the \<^verbatim>\<open>switch\<close> of \<^verbatim>\<open>redactTree\<close>.\<close>

definition parts_of :: "field \<Rightarrow> cval \<Rightarrow> field list" where
  "parts_of f e =
     (if fd_Type f = TypeObject then fd_Fields f
      else if (fd_Type f = TypeArray \<or> fd_Type f = TypeMap) \<and> fd_Item f \<noteq> None then fd_Fields (the (fd_Item f))
      else if fd_Type f = TypeUnion then unionFields f e
      else [])"

definition member_fields :: "field list \<Rightarrow> string \<Rightarrow> cval \<Rightarrow> field list" where
  "member_fields fs k e = (case fieldNamed fs k of None \<Rightarrow> [] | Some f \<Rightarrow> parts_of f e)"

definition is_secret :: "field list \<Rightarrow> string \<Rightarrow> bool" where
  "is_secret fs k \<longleftrightarrow> (case fieldNamed fs k of None \<Rightarrow> False | Some f \<Rightarrow> fd_Secret f)"

lemma cval_member_size [termination_simp]:
  "(k, e) \<in> set m \<Longrightarrow> size e < Suc (size_list (size_prod (\<lambda>_. 0) size) m)"
  by (induction m) (auto simp: less_Suc_eq_le)

fun redactTree :: "cval \<Rightarrow> field list \<Rightarrow> cval" where
  "redactTree (CMap m) fs =
     CMap (map (\<lambda>(k, e). (k, if is_secret fs k then CStr RedactedMarker else redactTree e (member_fields fs k e))) m)"
| "redactTree (CList xs) fs = CList (map (\<lambda>x. redactTree x fs) xs)"
| "redactTree v fs = v"

definition Redacted :: "config \<Rightarrow> (string \<times> cval) list" where
  "Redacted c =
     (case redactTree (CMap (cf_raw c)) (case cf_spec c of None \<Rightarrow> [] | Some s \<Rightarrow> sp_Fields s) of
        CMap m \<Rightarrow> m | _ \<Rightarrow> [])"

section \<open>Validation\<close>

datatype cfg_msg = MsgUnknownField string | MsgNotApplicable string | MsgRequired string
  | MsgDeprecatedField string | MsgWrongType string | MsgBadPattern string | MsgNotInForm string
  | MsgDeprecatedValue string string | MsgNotPermitted string string | MsgAtLeast string float64
  | MsgAtMost string float64 | MsgInvalid cfg_err | MsgNotVariant string string | MsgUnknownType string
  | MsgLint string string

definition wrongType :: "string list \<Rightarrow> string \<Rightarrow> cfg_msg diagnostics" where
  "wrongType path want = Errorf [] CodeWrongType path (MsgWrongType want)"

definition checkRange :: "field \<Rightarrow> float64 \<Rightarrow> string list \<Rightarrow> cfg_msg diagnostics" where
  "checkRange f v path =
     (case fd_Min f of None \<Rightarrow> [] | Some lo \<Rightarrow>
        if f64_lt v lo then Errorf [] CodeOutOfRange path (MsgAtLeast (fd_Name f) lo) else []) @
     (case fd_Max f of None \<Rightarrow> [] | Some hi \<Rightarrow>
        if f64_lt hi v then Errorf [] CodeOutOfRange path (MsgAtMost (fd_Name f) hi) else [])"

text \<open>A value of one of the types with no parts.\<close>

definition validateScalar :: "std \<Rightarrow> field \<Rightarrow> cval \<Rightarrow> string list \<Rightarrow> cfg_msg diagnostics" where
  "validateScalar L f v path =
     (case fd_Type f of
        TypeString \<Rightarrow>
          (case v of
             CStr s \<Rightarrow>
               (if fd_Pattern f = '''' then []
                else case std_Match L (fd_Pattern f) s of
                  None \<Rightarrow> Errorf [] CodeInvalidPattern path (MsgBadPattern (fd_Name f))
                | Some b \<Rightarrow> if b then [] else Errorf [] CodeInvalidPattern path (MsgNotInForm (fd_Name f)))
           | _ \<Rightarrow> wrongType path ''string'')
      | TypeEnum \<Rightarrow>
          (case v of
             CStr s \<Rightarrow>
               (case find (\<lambda>e. ev_Value e = s) (fd_Enum f) of
                  None \<Rightarrow> Errorf [] CodeInvalidEnum path (MsgNotPermitted s (fd_Name f))
                | Some e \<Rightarrow> if ev_Deprecated e then Warnf [] CodeDeprecated path (MsgDeprecatedValue s (fd_Name f)) else [])
           | _ \<Rightarrow> wrongType path ''string'')
      | TypeBool \<Rightarrow> (case v of CBool b \<Rightarrow> [] | _ \<Rightarrow> wrongType path ''bool'')
      | TypeInt \<Rightarrow> (case asInt64 L v of None \<Rightarrow> wrongType path ''integer'' | Some n \<Rightarrow> checkRange f (std_float L n) path)
      | TypeFloat \<Rightarrow> (case asFloat L v of None \<Rightarrow> wrongType path ''number'' | Some x \<Rightarrow> checkRange f x path)
      | TypeDuration \<Rightarrow> (case ParseDuration L v of Inl e \<Rightarrow> Errorf [] CodeWrongType path (MsgInvalid e) | Inr _ \<Rightarrow> [])
      | TypeSize \<Rightarrow> (case ParseSize L v of Inl e \<Rightarrow> Errorf [] CodeWrongType path (MsgInvalid e) | Inr _ \<Rightarrow> [])
      | TypeMapping \<Rightarrow> (case v of CList xs \<Rightarrow> [] | _ \<Rightarrow> wrongType path ''array'')
      | _ \<Rightarrow> Errorf [] CodeWrongType path (MsgUnknownType (fd_Name f)))"

definition index_seg :: "nat \<Rightarrow> string" where
  "index_seg i = ''['' @ FormatUint i @ '']''"

definition unknownFields :: "field list \<Rightarrow> (string \<times> cval) list \<Rightarrow> string list \<Rightarrow> cfg_msg diagnostics" where
  "unknownFields fs raw path =
     concat (map (\<lambda>(k, _). if k \<in> set (map fd_Name fs) then []
        else Errorf [] CodeUnknownField (path @ [k]) (MsgUnknownField k)) raw)"

definition isRequired :: "std \<Rightarrow> config \<Rightarrow> field \<Rightarrow> bool" where
  "isRequired L c f \<longleftrightarrow> (\<not> fd_Optional f \<and> fd_Default f = CNull) \<or> (fd_RequiredIf f \<noteq> None \<and> Eval L (fd_RequiredIf f) c)"

text \<open>
  \<^verbatim>\<open>validateObject\<close> and \<^verbatim>\<open>validateValue\<close>, with the diagnostics each appends; every recursive call is at a
  field of the description. A path is a value here; the code extends it with \<^verbatim>\<open>append(path, ...)\<close>, which may
  write into the array of a path already reported.
\<close>

fun validateValue :: "std \<Rightarrow> config \<Rightarrow> field \<Rightarrow> cval \<Rightarrow> string list \<Rightarrow> cfg_msg diagnostics"
and validateObject :: "std \<Rightarrow> config \<Rightarrow> field list \<Rightarrow> (string \<times> cval) list \<Rightarrow> string list \<Rightarrow> cfg_msg diagnostics" where
  "validateValue L c f v path =
     (if fd_Type f = TypeObject then
        (case v of CMap m \<Rightarrow> validateObject L c (fd_Fields f) m path | _ \<Rightarrow> wrongType path ''object'')
      else if fd_Type f = TypeArray then
        (case v of
           CList xs \<Rightarrow> (case fd_Item f of None \<Rightarrow> []
             | Some g \<Rightarrow> concat (map (\<lambda>(i, e). validateValue L c g e (path @ [index_seg i])) (enumerate 0 xs)))
         | _ \<Rightarrow> wrongType path ''array'')
      else if fd_Type f = TypeMap then
        (case v of
           CMap m \<Rightarrow> (case fd_Item f of None \<Rightarrow> []
             | Some g \<Rightarrow> concat (map (\<lambda>(k, e). validateValue L c g e (path @ [k])) m))
         | _ \<Rightarrow> wrongType path ''object'')
      else if fd_Type f = TypeUnion then
        (case v of
           CMap m \<Rightarrow>
             (case variantTagged (fd_Variants f) (tag_of m) of
                None \<Rightarrow> Errorf [] CodeInvalidEnum (path @ [UnionTagKey]) (MsgNotVariant (tag_of m) (fd_Name f))
              | Some a \<Rightarrow> validateObject L c (vr_Fields a) (filter (\<lambda>(k, _). k \<noteq> UnionTagKey) m) path)
         | _ \<Rightarrow> wrongType path ''object'')
      else validateScalar L f v path)"
| "validateObject L c fs raw path =
     unknownFields fs raw path @
     concat (map (\<lambda>f. let p = path @ [fd_Name f] in
        if fd_ShowIf f \<noteq> None \<and> \<not> Eval L (fd_ShowIf f) c then
          (if map_of raw (fd_Name f) = None then []
           else Warnf [] CodeUnknownField p (MsgNotApplicable (fd_Name f)))
        else case map_of raw (fd_Name f) of
            None \<Rightarrow> if isRequired L c f then Errorf [] CodeMissingField p (MsgRequired (fd_Name f)) else []
          | Some v \<Rightarrow>
              (if fd_Deprecated f \<noteq> '''' then Warnf [] CodeDeprecated p (MsgDeprecatedField (fd_Name f)) else []) @
              validateValue L c f v p) fs)"

text \<open>\<^verbatim>\<open>lint\<close>: a lint speaks when its condition holds and its requirement does not.\<close>

definition lint_diags :: "std \<Rightarrow> config \<Rightarrow> lint list \<Rightarrow> cfg_msg diagnostics" where
  "lint_diags L c ls =
     concat (map (\<lambda>l. if ln_When l \<noteq> None \<and> \<not> Eval L (ln_When l) c then []
        else if Eval L (Some (ln_Require l)) c then []
        else [\<lparr>dg_Path = ln_Path l, dg_Node = '''', dg_Severity = ln_Severity l,
               dg_Code = (if ln_Code l = CodeNone then CodeCustom else ln_Code l),
               dg_Message = MsgLint (ln_Message l) (ln_Hint l), dg_Hint = [], dg_Iface = ''''\<rparr>]) ls)"

definition cfg_Validate :: "std \<Rightarrow> cfg_spec option \<Rightarrow> (string \<times> cval) list \<Rightarrow> config \<times> cfg_msg diagnostics" where
  "cfg_Validate L s raw =
     (let c = NewConfig s raw in
      case s of
        None \<Rightarrow> (c, [])
      | Some sp \<Rightarrow> (c, validateObject L c (sp_Fields sp) raw [] @ lint_diags L c (sp_Lints sp)))"

section \<open>The stage-standard fields\<close>

text \<open>
  The fields every component of a kind is given. Of the titles and descriptions, which only a form shows,
  \<open>''*''\<close> says that there is one; \<^verbatim>\<open>Advanced\<close> and \<^verbatim>\<open>Choices\<close> are left out.
\<close>

definition plain :: "string \<Rightarrow> field_type \<Rightarrow> cval \<Rightarrow> bool \<Rightarrow> field" where
  "plain name ty def opt = Field name '''' ''*'' '''' ty def opt False False '''' [] [] [] None [] None None '''' '''' None None ''''"

definition with_min :: "rat \<Rightarrow> field \<Rightarrow> field" where
  "with_min lo f = Field (fd_Name f) (fd_Title f) (fd_Description f) (fd_Short f) (fd_Type f) (fd_Default f)
     (fd_Optional f) (fd_Advanced f) (fd_Secret f) (fd_Deprecated f) (fd_Examples f) (fd_Enum f) (fd_Fields f)
     (fd_Item f) (fd_Variants f) (Some (Fin lo)) (fd_Max f) (fd_Pattern f) (fd_PatternHint f) (fd_ShowIf f)
     (fd_RequiredIf f) (fd_Choices f)"

definition secret_field :: "string \<Rightarrow> field" where
  "secret_field name = Field name '''' ''*'' '''' TypeString CNull False False True '''' [] [] [] None [] None None '''' '''' None None ''''"

definition enum_field :: "string \<Rightarrow> cval \<Rightarrow> bool \<Rightarrow> string list \<Rightarrow> field" where
  "enum_field name def opt vals = Field name '''' ''*'' '''' TypeEnum def opt False False '''' []
     (map (\<lambda>v. \<lparr>ev_Value = v, ev_Title = ''*'', ev_Description = ''*'', ev_Deprecated = False\<rparr>) vals) [] None [] None None
     '''' '''' None None ''''"

definition object_field :: "string \<Rightarrow> field list \<Rightarrow> field" where
  "object_field name fs = Field name ''*'' '''' '''' TypeObject CNull True False False '''' [] [] fs None [] None None
     '''' '''' None None ''''"

definition string_item :: "string \<Rightarrow> field" where
  "string_item name = Field name '''' '''' '''' TypeString CNull False False False '''' [] [] [] None [] None None '''' '''' None None ''''"

definition item_field :: "field_type \<Rightarrow> string \<Rightarrow> bool \<Rightarrow> field \<Rightarrow> field" where
  "item_field ty name opt item = Field name '''' ''*'' '''' ty CNull opt False False '''' [] [] [] (Some item) [] None None
     '''' '''' None None ''''"

definition Fields_Retry :: "string \<Rightarrow> field" where
  "Fields_Retry name = object_field name
     [with_min 1 (plain ''max_attempts'' TypeInt (CInt 4) True),
      plain ''initial'' TypeDuration (CStr ''100ms'') True,
      plain ''max'' TypeDuration (CStr ''5s'') True,
      plain ''max_elapsed'' TypeDuration CNull True,
      with_min 1 (plain ''multiplier'' TypeFloat (CFloat (Fin 2)) True),
      enum_field ''terminal'' (CStr ''dead_letter'') False [''dead_letter'', ''drop'', ''stop''],
      enum_field ''on_indeterminate'' (CStr ''stall'') True [''stall'', ''retry'', ''dead_letter'']]"

definition Fields_Batching :: "string \<Rightarrow> field" where
  "Fields_Batching name = object_field name
     [with_min 1 (plain ''max_records'' TypeInt (CInt 500) True),
      plain ''max_bytes'' TypeSize CNull True,
      plain ''max_age'' TypeDuration (CStr ''1s'') True]"

definition Fields_Codec :: "string \<Rightarrow> field" where
  "Fields_Codec name = object_field name
     [plain ''encoder'' TypeString (CStr ''json'') True,
      item_field TypeMap ''encoder_config'' True (string_item ''value''),
      plain ''framer'' TypeString CNull True,
      plain ''compressor'' TypeString CNull True]"

definition Fields_BasicAuth :: "string \<Rightarrow> field" where
  "Fields_BasicAuth name = object_field name [plain ''username'' TypeString CNull False, secret_field ''password'']"

definition Fields_OAuth2 :: "string \<Rightarrow> field" where
  "Fields_OAuth2 name = object_field name
     [plain ''token_url'' TypeString CNull False, plain ''client_id'' TypeString CNull False,
      secret_field ''client_secret'',
      item_field TypeArray ''scopes'' True (string_item ''scope'')]"

definition Fields_RateLimit :: "string \<Rightarrow> field" where
  "Fields_RateLimit name = object_field name
     [with_min 0 (plain ''requests_per_second'' TypeFloat CNull False),
      with_min 1 (plain ''burst'' TypeInt (CInt 1) True)]"

definition Fields_LaneBudget :: "string \<Rightarrow> field" where
  "Fields_LaneBudget name = with_min 1 (plain name TypeInt (CInt 1000) True)"

definition Fields_MetaFilter :: "string \<Rightarrow> field" where
  "Fields_MetaFilter name = object_field name
     [item_field TypeArray ''include'' True (string_item ''pattern''),
      item_field TypeArray ''exclude'' True (string_item ''pattern'')]"

definition Fields_WhenFull :: "string \<Rightarrow> field" where
  "Fields_WhenFull name = enum_field name (CStr ''block'') True [''block'', ''drop_newest'', ''reject'', ''overflow'']"

definition Fields_MaxInFlight :: "string \<Rightarrow> field" where
  "Fields_MaxInFlight name = with_min 1 (plain name TypeInt (CInt 1) True)"

definition Fields_Capacity :: "string \<Rightarrow> field" where
  "Fields_Capacity name = object_field name
     [with_min 1 (plain ''records'' TypeInt (CInt 10000) True), plain ''bytes'' TypeSize CNull True]"

definition Fields_HeartbeatInterval :: "string \<Rightarrow> field" where
  "Fields_HeartbeatInterval name = plain name TypeDuration (CStr ''10s'') True"

definition Fields_Dedupe :: "string \<Rightarrow> field" where
  "Fields_Dedupe name = object_field name
     [enum_field ''layer'' (CStr ''key'') False [''upstream'', ''key''],
      plain ''window'' TypeDuration CNull False]"

definition FieldRetry :: string where "FieldRetry = ''retry''"
definition FieldWhenFull :: string where "FieldWhenFull = ''when_full''"
definition FieldCodec :: string where "FieldCodec = ''codec''"
definition FieldBatching :: string where "FieldBatching = ''batching''"
definition FieldMaxInFlight :: string where "FieldMaxInFlight = ''max_in_flight''"
definition FieldDedupe :: string where "FieldDedupe = ''dedupe''"
definition FieldLaneBudget :: string where "FieldLaneBudget = ''lane_budget''"
definition FieldHeartbeatInterval :: string where "FieldHeartbeatInterval = ''heartbeat_interval''"
definition FieldCapacity :: string where "FieldCapacity = ''capacity''"

text \<open>One library, for evaluations: no string is a number, a duration or a bad pattern.\<close>

definition std0 :: std where
  "std0 = \<lparr>std_ParseFloat = (\<lambda>_. None), std_ParseInt = (\<lambda>_. None), std_ParseDuration = (\<lambda>_. None),
     std_Match = (\<lambda>_ _. Some True), std_FormatFloat = (\<lambda>_. ''''), std_Sprint = (\<lambda>_. ''''),
     std_float = (\<lambda>n. Fin (of_int n)), std_integral = (\<lambda>_. None)\<rparr>"

end
