(* ===== verification/Canal_ConfigProps.thy ===== *)
theory Canal_ConfigProps
  imports Canal_Config
begin

text \<open>
  What redaction hides and what validation promises.

  Which parts of a settings tree are secret is stated from the description, independently of how
  \<^verbatim>\<open>redactTree\<close> descends: a field marked secret hides its value, and the description of an object's member,
  of an array's element, of a map's value and of a union's arm is the field declared for it, the way
  validation reads the same tree. Two trees that agree on everything else are indistinguishable to an
  operator who may not see secrets.
\<close>

section \<open>Trees that differ only in secrets\<close>

fun public_eq :: "field \<Rightarrow> cval \<Rightarrow> cval \<Rightarrow> bool" and public_obj :: "field list \<Rightarrow> (string \<times> cval) list \<Rightarrow> (string \<times> cval) list \<Rightarrow> bool"
  where
  "public_eq f v w \<longleftrightarrow>
     v = w \<or> fd_Secret f \<or>
     (fd_Type f = TypeObject \<and> (case (v, w) of (CMap m, CMap n) \<Rightarrow> public_obj (fd_Fields f) m n | _ \<Rightarrow> False)) \<or>
     (fd_Type f = TypeArray \<and> (case (fd_Item f, v, w) of
        (Some g, CList xs, CList ys) \<Rightarrow> list_all2 (public_eq g) xs ys | _ \<Rightarrow> False)) \<or>
     (fd_Type f = TypeMap \<and> (case (fd_Item f, v, w) of
        (Some g, CMap m, CMap n) \<Rightarrow> list_all2 (\<lambda>(k, e) (k', e'). k = k' \<and> public_eq g e e') m n | _ \<Rightarrow> False)) \<or>
     (fd_Type f = TypeUnion \<and> (case (v, w) of
        (CMap m, CMap n) \<Rightarrow> tag_of m = tag_of n \<and>
          (case variantTagged (fd_Variants f) (tag_of m) of None \<Rightarrow> m = n | Some a \<Rightarrow> public_obj (vr_Fields a) m n)
      | _ \<Rightarrow> False))"
| "public_obj fs m n \<longleftrightarrow>
     list_all2 (\<lambda>(k, e) (k', e'). k = k' \<and>
       (e = e' \<or> (case fieldNamed fs k of None \<Rightarrow> False | Some f \<Rightarrow> public_eq f e e'))) m n"

text \<open>A field with a secret in it, and the descriptions whose every secret redaction reaches.\<close>

fun has_secret :: "field \<Rightarrow> bool" where
  "has_secret f \<longleftrightarrow> fd_Secret f \<or> list_ex has_secret (fd_Fields f) \<or>
     (case fd_Item f of None \<Rightarrow> False | Some g \<Rightarrow> has_secret g) \<or>
     list_ex (\<lambda>v. list_ex has_secret (vr_Fields v)) (fd_Variants f)"

fun covered :: "field \<Rightarrow> bool" where
  "covered f \<longleftrightarrow> fd_Secret f \<or>
     (if fd_Type f = TypeObject then list_all covered (fd_Fields f)
      else if fd_Type f = TypeArray then
        (case fd_Item f of None \<Rightarrow> True
         | Some g \<Rightarrow> \<not> has_secret g \<or> \<not> fd_Secret g \<and> fd_Type g = TypeObject \<and> covered g)
      else if fd_Type f = TypeMap then (case fd_Item f of None \<Rightarrow> True | Some g \<Rightarrow> \<not> has_secret g)
      else if fd_Type f = TypeUnion then list_all (\<lambda>v. list_all covered (vr_Fields v)) (fd_Variants f)
      else True)"

lemmas describe_simps [simp del] = public_eq.simps public_obj.simps has_secret.simps covered.simps

lemma has_secret_item: "\<not> has_secret f \<Longrightarrow> fd_Item f = Some g \<Longrightarrow> \<not> has_secret g"
  by (subst (asm) (1) has_secret.simps) simp

lemma has_secret_field: "\<not> has_secret f \<Longrightarrow> g \<in> set (fd_Fields f) \<Longrightarrow> \<not> has_secret g"
  by (subst (asm) (1) has_secret.simps) (auto simp: list_ex_iff)

lemma has_secret_variant:
  "\<not> has_secret f \<Longrightarrow> v \<in> set (fd_Variants f) \<Longrightarrow> g \<in> set (vr_Fields v) \<Longrightarrow> \<not> has_secret g"
  by (subst (asm) (1) has_secret.simps) (auto simp: list_ex_iff)

lemma has_secret_self: "\<not> has_secret f \<Longrightarrow> \<not> fd_Secret f"
  by (subst (asm) has_secret.simps) simp

lemma list_all2_eqI: "list_all2 P xs ys \<Longrightarrow> (\<And>x y. x \<in> set xs \<Longrightarrow> y \<in> set ys \<Longrightarrow> P x y \<Longrightarrow> x = y) \<Longrightarrow> xs = ys"
  by (induction rule: list_all2_induct) auto


text \<open>How two trees that are equal but for secrets can differ below a field that is not itself secret.\<close>

lemma public_eqE:
  assumes "public_eq f v w" and "\<not> fd_Secret f"
  obtains (same) "v = w"
  | (object) m n where "fd_Type f = TypeObject" "v = CMap m" "w = CMap n" "public_obj (fd_Fields f) m n"
  | (array) g xs ys where "fd_Type f = TypeArray" "fd_Item f = Some g" "v = CList xs" "w = CList ys"
      "list_all2 (public_eq g) xs ys"
  | (mapped) g m n where "fd_Type f = TypeMap" "fd_Item f = Some g" "v = CMap m" "w = CMap n"
      "list_all2 (\<lambda>(k, e) (k', e'). k = k' \<and> public_eq g e e') m n"
  | (union) a m n where "fd_Type f = TypeUnion" "v = CMap m" "w = CMap n" "tag_of m = tag_of n"
      "variantTagged (fd_Variants f) (tag_of m) = Some a" "public_obj (vr_Fields a) m n"
proof -
  from assms consider "v = w"
    | "fd_Type f = TypeObject" "case (v, w) of (CMap m, CMap n) \<Rightarrow> public_obj (fd_Fields f) m n | _ \<Rightarrow> False"
    | "fd_Type f = TypeArray" "case (fd_Item f, v, w) of
        (Some g, CList xs, CList ys) \<Rightarrow> list_all2 (public_eq g) xs ys | _ \<Rightarrow> False"
    | "fd_Type f = TypeMap" "case (fd_Item f, v, w) of
        (Some g, CMap m, CMap n) \<Rightarrow> list_all2 (\<lambda>(k, e) (k', e'). k = k' \<and> public_eq g e e') m n | _ \<Rightarrow> False"
    | "fd_Type f = TypeUnion" "case (v, w) of
        (CMap m, CMap n) \<Rightarrow> tag_of m = tag_of n \<and>
          (case variantTagged (fd_Variants f) (tag_of m) of None \<Rightarrow> m = n | Some a \<Rightarrow> public_obj (vr_Fields a) m n)
      | _ \<Rightarrow> False"
    by (subst (asm) public_eq.simps) blast
  then show thesis
  proof cases
    case 2 then show thesis by (cases v; cases w) (auto intro: object)
  next
    case 3 then show thesis by (cases v; cases w) (auto split: option.splits intro: array)
  next
    case 4 then show thesis by (cases v; cases w) (auto split: option.splits intro: mapped)
  next
    case 5 then show thesis by (cases v; cases w) (auto simp del: tag_of.simps split: option.splits intro: union same)
  qed (rule same)
qed

lemma public_objE:
  assumes "public_obj fs m n"
  shows "list_all2 (\<lambda>(k, e) (k', e'). k = k' \<and> (e = e' \<or> (\<exists>f. fieldNamed fs k = Some f \<and> public_eq f e e'))) m n"
  by (rule list_all2_mono [OF assms [unfolded public_obj.simps]]) (auto split: option.splits)

text \<open>Without a secret in the description there is nothing to differ in.\<close>

lemma public_obj_clean:
  assumes "public_obj fs m n" and "\<And>f e e'. f \<in> set fs \<Longrightarrow> public_eq f e e' \<Longrightarrow> e = e'"
  shows "m = n"
  by (rule list_all2_eqI [OF public_objE [OF assms(1)]]) (auto dest: fieldNamed_mem intro: assms(2))

lemma public_eq_clean: "public_eq f v w \<Longrightarrow> \<not> has_secret f \<Longrightarrow> v = w"
proof (induction f arbitrary: v w rule: measure_induct_rule [of size])
  case (less f)
  from less.prems(1) has_secret_self [OF less.prems(2)] show ?case
  proof (cases rule: public_eqE)
    case (object m n)
    have "m = n"
      by (rule public_obj_clean [OF object(4)])
         (rule less.IH [OF field_in_fields_size _ has_secret_field [OF less.prems(2)]])
    with object show ?thesis by simp
  next
    case (array g xs ys)
    have "xs = ys"
      by (rule list_all2_eqI [OF array(5)])
         (rule less.IH [OF field_item_size [OF array(2)] _ has_secret_item [OF less.prems(2) array(2)]])
    with array show ?thesis by simp
  next
    case (mapped g m n)
    have "m = n"
      by (rule list_all2_eqI [OF mapped(5)])
         (auto intro: less.IH [OF field_item_size [OF mapped(2)] _ has_secret_item [OF less.prems(2) mapped(2)]])
    with mapped show ?thesis by simp
  next
    case (union a m n)
    then have a: "a \<in> set (fd_Variants f)" by (blast dest: variantTagged_mem)
    have "m = n"
      by (rule public_obj_clean [OF union(6)])
         (rule less.IH [OF field_in_variant_size [OF a] _ has_secret_variant [OF less.prems(2) a]])
    with union show ?thesis by simp
  qed
qed

section \<open>Redaction hides every secret it reaches\<close>

lemma redact_obj:
  assumes "public_obj fs m n"
    and "\<And>f e e'. f \<in> set fs \<Longrightarrow> \<not> fd_Secret f \<Longrightarrow> public_eq f e e' \<Longrightarrow> redactTree e (parts_of f e) = redactTree e' (parts_of f e')"
  shows "redactTree (CMap m) fs = redactTree (CMap n) fs"
proof -
  have "list_all2 (\<lambda>x y. (case x of (k, e) \<Rightarrow> (k, if is_secret fs k then CStr RedactedMarker else redactTree e (member_fields fs k e))) =
      (case y of (k, e) \<Rightarrow> (k, if is_secret fs k then CStr RedactedMarker else redactTree e (member_fields fs k e)))) m n"
    by (rule list_all2_mono [OF public_objE [OF assms(1)]])
       (auto simp: is_secret_def member_fields_def dest: fieldNamed_mem intro!: assms(2))
  then show ?thesis by (simp add: list_all2_conv_all_nth list_eq_iff_nth_eq)
qed

lemma redact_public:
  "public_eq f v w \<Longrightarrow> covered f \<Longrightarrow> \<not> fd_Secret f \<Longrightarrow> redactTree v (parts_of f v) = redactTree w (parts_of f w)"
proof (induction f arbitrary: v w rule: measure_induct_rule [of size])
  case (less f)
  note cov = less.prems(2) [unfolded covered.simps [of f]]
  from less.prems(1,3) show ?case
  proof (cases rule: public_eqE)
    case (object m n)
    with cov less.prems(3) have all: "\<And>g. g \<in> set (fd_Fields f) \<Longrightarrow> covered g" by (auto simp: list_all_iff)
    show ?thesis using object(1)
      by (simp add: object(2,3) parts_of_def del: redactTree.simps)
         (rule redact_obj [OF object(4)], rule less.IH [OF field_in_fields_size _ all])
  next
    case (array g xs ys)
    show ?thesis
    proof (cases "has_secret g")
      case False
      then have "xs = ys" by (intro list_all2_eqI [OF array(5)]) (rule public_eq_clean)
      with array show ?thesis by (simp add: parts_of_def)
    next
      case True
      with cov less.prems(3) array have g: "covered g" "\<not> fd_Secret g" "fd_Type g = TypeObject" by auto
      have "list_all2 (\<lambda>x y. redactTree x (fd_Fields g) = redactTree y (fd_Fields g)) xs ys"
        by (rule list_all2_mono [OF array(5)])
           (use less.IH [OF field_item_size [OF array(2)] _ g(1,2)] g(3) in \<open>simp add: parts_of_def\<close>)
      with array show ?thesis by (simp add: parts_of_def list_all2_conv_all_nth list_eq_iff_nth_eq)
    qed
  next
    case (mapped g m n)
    with cov less.prems(3) have "\<not> has_secret g" by auto
    then have "m = n" by (intro list_all2_eqI [OF mapped(5)]) (auto intro: public_eq_clean)
    with mapped show ?thesis by simp
  next
    case (union a m n)
    then have a: "a \<in> set (fd_Variants f)" by (blast dest: variantTagged_mem)
    with cov less.prems(3) union(1) have all: "\<And>g. g \<in> set (vr_Fields a) \<Longrightarrow> covered g" by (auto simp: list_all_iff)
    have "redactTree (CMap m) (vr_Fields a) = redactTree (CMap n) (vr_Fields a)"
      by (rule redact_obj [OF union(6)]) (rule less.IH [OF field_in_variant_size [OF a] _ all])
    with union show ?thesis by (simp add: parts_of_def unionFields_def del: tag_of.simps redactTree.simps)
  qed simp
qed

section \<open>Validation and the typed accessors\<close>

text \<open>The accessor of a field's type succeeds on a value, and the value is in the declared range.\<close>

definition in_range :: "field \<Rightarrow> float64 \<Rightarrow> bool" where
  "in_range f x \<longleftrightarrow> (\<forall>lo. fd_Min f = Some lo \<longrightarrow> \<not> f64_lt x lo) \<and> (\<forall>hi. fd_Max f = Some hi \<longrightarrow> \<not> f64_lt hi x)"

definition has_type :: "std \<Rightarrow> field \<Rightarrow> cval \<Rightarrow> bool" where
  "has_type L f v \<longleftrightarrow>
     (case fd_Type f of
        TypeString \<Rightarrow> \<exists>s. coerce_string v = Inr s \<and> (fd_Pattern f = '''' \<or> std_Match L (fd_Pattern f) s = Some True)
      | TypeEnum \<Rightarrow> \<exists>s. coerce_string v = Inr s \<and> s \<in> ev_Value ` set (fd_Enum f)
      | TypeBool \<Rightarrow> \<exists>b. coerce_bool v = Inr b
      | TypeInt \<Rightarrow> \<exists>n. coerce_int L v = Inr n \<and> in_range f (std_float L n)
      | TypeFloat \<Rightarrow> \<exists>x. coerce_float L v = Inr x \<and> in_range f x
      | TypeDuration \<Rightarrow> \<exists>d. ParseDuration L v = Inr d
      | TypeSize \<Rightarrow> \<exists>n. ParseSize L v = Inr n
      | TypeObject \<Rightarrow> \<exists>m. coerce_map v = Inr m
      | TypeMap \<Rightarrow> \<exists>m. coerce_map v = Inr m
      | TypeUnion \<Rightarrow> \<exists>m. coerce_map v = Inr m
      | TypeArray \<Rightarrow> \<exists>xs. coerce_list v = Inr xs
      | TypeMapping \<Rightarrow> \<exists>xs. coerce_list v = Inr xs
      | TypeUnknown _ \<Rightarrow> False)"

lemma checkRange_ok: "\<not> HasErrors (checkRange f x path) \<Longrightarrow> in_range f x"
  by (auto simp: checkRange_def in_range_def split: option.splits if_splits)

lemma wrongType_errs [simp]: "HasErrors (wrongType path t)"
  by (simp add: wrongType_def)

lemma validated_value_typed:
  assumes "\<not> HasErrors (validateValue L c f v path)"
  shows "has_type L f v"
proof (cases "fd_Type f \<in> {TypeObject, TypeArray, TypeMap, TypeUnion}")
  case True
  with assms show ?thesis
    by (cases v) (auto simp: has_type_def coerce_map_def coerce_list_def)
next
  case False
  with assms have "\<not> HasErrors (validateScalar L f v path)" by auto
  with False show ?thesis
    by (cases "fd_Type f")
       (auto simp: has_type_def validateScalar_def coerce_string_def coerce_bool_def coerce_int_def coerce_float_def
          coerce_list_def find_Some_iff dest!: checkRange_ok split: cval.splits option.splits sum.splits if_splits)
qed

definition shown :: "std \<Rightarrow> config \<Rightarrow> field \<Rightarrow> bool" where
  "shown L c f \<longleftrightarrow> Eval L (fd_ShowIf f) c"

lemma hidden_iff: "(fd_ShowIf f \<noteq> None \<and> \<not> Eval L (fd_ShowIf f) c) \<longleftrightarrow> \<not> shown L c f"
  by (cases "fd_ShowIf f") (auto simp: shown_def Eval_def)

lemma validated_member:
  assumes "\<not> HasErrors (validateObject L c fs m path)" and "f \<in> set fs" and "shown L c f"
  shows "map_of m (fd_Name f) = None \<Longrightarrow> \<not> isRequired L c f"
    and "map_of m (fd_Name f) = Some v \<Longrightarrow> \<not> HasErrors (validateValue L c f v (path @ [fd_Name f]))"
proof -
  have "\<not> HasErrors (case map_of m (fd_Name f) of
      None \<Rightarrow> if isRequired L c f then Errorf [] CodeMissingField (path @ [fd_Name f]) (MsgRequired (fd_Name f)) else []
    | Some v \<Rightarrow>
        (if fd_Deprecated f \<noteq> '''' then Warnf [] CodeDeprecated (path @ [fd_Name f]) (MsgDeprecatedField (fd_Name f)) else []) @
        validateValue L c f v (path @ [fd_Name f]))"
    using assms(1) [unfolded validateObject.simps HasErrors_simps(2) HasErrors_concat_map de_Morgan_disj bex_simps Let_def,
      THEN conjunct2, rule_format, OF assms(2)] assms(3) unfolding hidden_iff by (simp only: if_False not_not not_True_eq_False not_False_eq_True)
  then show "map_of m (fd_Name f) = None \<Longrightarrow> \<not> isRequired L c f"
    and "map_of m (fd_Name f) = Some v \<Longrightarrow> \<not> HasErrors (validateValue L c f v (path @ [fd_Name f]))"
    by (auto simp del: validateValue.simps split: if_splits)
qed

text \<open>A path that the description declares, through objects all of whose fields are shown.\<close>

fun declared_at :: "std \<Rightarrow> config \<Rightarrow> field list \<Rightarrow> string list \<Rightarrow> field \<Rightarrow> bool" where
  "declared_at L c fs [] f \<longleftrightarrow> False"
| "declared_at L c fs [k] f \<longleftrightarrow> fieldNamed fs k = Some f \<and> shown L c f"
| "declared_at L c fs (k # ks) f \<longleftrightarrow>
     (case fieldNamed fs k of None \<Rightarrow> False
      | Some g \<Rightarrow> shown L c g \<and> fd_Type g = TypeObject \<and> declared_at L c (fd_Fields g) ks f)"

lemma validated_path:
  assumes "\<not> HasErrors (validateObject L c fs m pre)" and "declared_at L c fs path f"
  shows "(\<forall>v. walk (CMap m) path = Some v \<longrightarrow> has_type L f v) \<and>
    (isRequired L c f \<longrightarrow> walk (CMap m) (butlast path) \<noteq> None \<longrightarrow> walk (CMap m) path \<noteq> None)"
  using assms
proof (induction L c fs path f arbitrary: m pre rule: declared_at.induct)
  case (2 L c fs k f)
  then have f: "f \<in> set fs" "fd_Name f = k" by (auto dest: fieldNamed_mem)
  note val = validated_member [OF "2.prems"(1) f(1), unfolded f(2)]
  show ?case using "2.prems"(2) val
    by (cases "map_of m k") (auto intro: validated_value_typed simp del: validateValue.simps)
next
  case (3 L c fs k k' ks f)
  then obtain g where g: "fieldNamed fs k = Some g" "shown L c g" "fd_Type g = TypeObject"
      "declared_at L c (fd_Fields g) (k' # ks) f" by (auto split: option.splits)
  note mem = fieldNamed_mem [OF g(1)]
  show ?case
  proof (cases "map_of m k")
    case (Some v)
    with validated_member(2) [OF "3.prems"(1) conjunct1 [OF mem] g(2)] mem
    have ok: "\<not> HasErrors (validateValue L c g v (pre @ [k]))" by auto
    then obtain n where v: "v = CMap n" "\<not> HasErrors (validateObject L c (fd_Fields g) n (pre @ [k]))"
      using g(3) by (cases v) (auto simp del: validateObject.simps)
    from "3.IH" [OF g(1) v(2) g(4)] v(1) Some show ?thesis by simp
  qed simp
qed simp

section \<open>Properties\<close>

text \<open>
  C36: Redaction hides every secret it reaches. Of two settings trees for one component that differ only in
  the values of fields declared secret, the redacted forms are equal, so nothing about a secret can be read
  off the status document. It is required that every secret of the description lies in an object, in the
  objects of an array or in an arm of a union (\<^const>\<open>covered\<close>).
\<close>
theorem redaction_hides_secrets:
  assumes "list_all covered (sp_Fields sp)" and "public_obj (sp_Fields sp) m n"
  shows "Redacted (NewConfig (Some sp) m) = Redacted (NewConfig (Some sp) n)"
proof -
  have "redactTree (CMap m) (sp_Fields sp) = redactTree (CMap n) (sp_Fields sp)"
    using assms(1) by (intro redact_obj [OF assms(2)] redact_public) (auto simp: list_all_iff)
  then show ?thesis by (simp add: Redacted_def NewConfig_def del: redactTree.simps)
qed

definition auth_spec :: cfg_spec where
  "auth_spec = NewCfgSpec\<lparr>sp_Fields := [plain ''host'' TypeString CNull False, Fields_BasicAuth ''auth'',
     Fields_Codec FieldCodec]\<rparr>"

definition auth_raw :: "string \<Rightarrow> (string \<times> cval) list" where
  "auth_raw pw = [(''host'', CStr ''db''), (''auth'', CMap [(''username'', CStr ''u''), (''password'', CStr pw)])]"

lemmas field_builders = plain_def object_field_def secret_field_def string_item_def item_field_def enum_field_def with_min_def
  Fields_BasicAuth_def Fields_Codec_def

theorem redaction_hides_secrets_witness:
  "Redacted (NewConfig (Some auth_spec) (auth_raw ''hunter2'')) = Redacted (NewConfig (Some auth_spec) (auth_raw ''x'')) \<and>
   auth_raw ''hunter2'' \<noteq> auth_raw ''x''"
proof -
  have "list_all covered (sp_Fields auth_spec)" by code_simp
  moreover have "public_obj (sp_Fields auth_spec) (auth_raw ''hunter2'') (auth_raw ''x'')" by code_simp
  ultimately show ?thesis by (auto intro: redaction_hides_secrets simp: auth_raw_def)
qed

text \<open>
  Redaction leaks the secrets of a map and the secret elements of an array. A component that takes a
  map of named credentials, or an array of tokens declared secret, is given settings that validation
  accepts with no diagnostic, and the redacted form shows the password and the token as they are.
\<close>
definition leaky_spec :: cfg_spec where
  "leaky_spec = NewCfgSpec\<lparr>sp_Fields :=
     [item_field TypeMap ''accounts'' False (Fields_BasicAuth ''account''),
      item_field TypeArray ''tokens'' False (secret_field ''token'')]\<rparr>"

definition leaky_raw :: "string \<Rightarrow> string \<Rightarrow> (string \<times> cval) list" where
  "leaky_raw pw tok = [(''accounts'', CMap [(''a'', CMap [(''username'', CStr ''u''), (''password'', CStr pw)])]),
     (''tokens'', CList [CStr tok])]"

theorem redaction_leaks_map_and_item_secrets:
  "cfg_Validate L (Some leaky_spec) (leaky_raw pw tok) = (NewConfig (Some leaky_spec) (leaky_raw pw tok), []) \<and>
   Redacted (NewConfig (Some leaky_spec) (leaky_raw pw tok)) = leaky_raw pw tok"
  by (simp add: cfg_Validate_def leaky_spec_def leaky_raw_def NewCfgSpec_def Let_def unknownFields_def lint_diags_def
      field_builders Eval_def validateScalar_def Redacted_def NewConfig_def is_secret_def
      member_fields_def parts_of_def fieldNamed_def)

text \<open>
  C35: A validated configuration is well typed. After \<^verbatim>\<open>Validate\<close> returned no error, a value found at a
  path the spec declares through objects, whose \<^verbatim>\<open>show_if\<close> conditions hold, is one the accessor of the
  declared type returns, with its pattern, enumeration and range respected; and a required field is there
  whenever the object around it is.
\<close>
theorem validated_config_is_well_typed:
  assumes "cfg_Validate L (Some sp) raw = (c, d)" and "\<not> HasErrors d" and "declared_at L c (sp_Fields sp) path f"
  shows "(\<forall>v. lookup c path = Some v \<longrightarrow> has_type L f v) \<and>
    (isRequired L c f \<longrightarrow> (butlast path = [] \<or> cfg_Has c (butlast path)) \<longrightarrow> cfg_Has c path)"
proof -
  have c: "c = NewConfig (Some sp) raw" and ok: "\<not> HasErrors (validateObject L c (sp_Fields sp) raw [])"
    using assms(1,2) by (auto simp: cfg_Validate_def Let_def simp del: validateObject.simps)
  have "path \<noteq> []" using assms(3) by (cases path) auto
  moreover have "lookup c p = (if p = [] then None else walk (CMap raw) p)" for p
    by (simp add: lookup_def c NewConfig_def)
  ultimately show ?thesis
    using validated_path [OF ok assms(3)] by (auto simp: cfg_Has_def)
qed

definition retry_spec :: cfg_spec where
  "retry_spec = NewCfgSpec\<lparr>sp_Fields := [Fields_Retry FieldRetry]\<rparr>"

definition retry_raw :: "(string \<times> cval) list" where
  "retry_raw = [(''retry'', CMap [(''max_attempts'', CInt 7)])]"

theorem validated_config_is_well_typed_witness:
  "\<exists>f. Find (Some retry_spec) [''retry'', ''max_attempts''] = Some f \<and> has_type std0 f (CInt 7) \<and> fd_Type f = TypeInt"
proof -
  let ?c = "NewConfig (Some retry_spec) retry_raw" and ?p = "[''retry'', ''max_attempts'']"
  let ?f = "with_min 1 (plain ''max_attempts'' TypeInt (CInt 4) True)"
  have "cfg_Validate std0 (Some retry_spec) retry_raw = (?c, [])" by code_simp
  moreover have "declared_at std0 ?c (sp_Fields retry_spec) ?p ?f" by code_simp
  ultimately have "\<forall>v. lookup ?c ?p = Some v \<longrightarrow> has_type std0 ?f v"
    using validated_config_is_well_typed [of std0 retry_spec retry_raw ?c "[]" ?p ?f] by simp
  moreover have "lookup ?c ?p = Some (CInt 7)" by code_simp
  moreover have "Find (Some retry_spec) ?p = Some ?f" and "fd_Type ?f = TypeInt" by code_simp+
  ultimately show ?thesis by blast
qed

text \<open>
  The declared default of a nested setting never applies. The stage-standard retry block declares
  \<^verbatim>\<open>dead_letter\<close> as the default of \<^verbatim>\<open>terminal\<close>, but reading the block of a configuration that sets only the
  number of attempts (or nothing) yields \<^verbatim>\<open>TerminalStop\<close>: a nested configuration looks its defaults up in
  the description of the whole component. For the same reason a component's own top-level field of the same
  name supplies the default of the nested one.
\<close>
definition clash_spec :: cfg_spec where
  "clash_spec = NewCfgSpec\<lparr>sp_Fields := [plain ''max_attempts'' TypeInt (CInt 99) True, Fields_Retry FieldRetry]\<rparr>"

theorem nested_default_is_not_applied:
  "Find (Some retry_spec) [FieldRetry, ''terminal''] = Some (enum_field ''terminal'' (CStr ''dead_letter'') False [''dead_letter'', ''drop'', ''stop'']) \<and>
   rp_Terminal (fst (cfg_Retry L (NewConfig (Some retry_spec) retry_raw) [FieldRetry])) = TerminalStop \<and>
   cfg_Retry L (NewConfig (Some retry_spec) []) [FieldRetry] = (DefaultRetry, None) \<and>
   rp_MaxAttempts (fst (cfg_Retry L (NewConfig (Some clash_spec) []) [FieldRetry])) = 99"
  by (simp add: Find_def retry_spec_def retry_raw_def clash_spec_def NewCfgSpec_def NewConfig_def FieldRetry_def Fields_Retry_def
      field_builders fieldNamed_def cfg_Retry_def cfg_Object_def lookup_def get_value_def
      defaultFor_def opt_set_def cfg_Has_def coerce_int_def asInt64_def DefaultRetry_def DefaultBackoff_def
      Validate_def Let_def f64_lt_def millisecond_def second_def)

end
