(* ===== verification/Canal_Registry.thy ===== *)
theory Canal_Registry
  imports Canal_Config Canal_Store Canal_LaneCtl
begin

text \<open>
  The component registry: the package \<^verbatim>\<open>pkg/registry\<close> and the capability declarations of
  \<^verbatim>\<open>pkg/connector/caps.go\<close>. A component is registered under its kind and name with a description of its
  settings and a declaration of what it can do; the declaration is checked against the interfaces its Go type
  implements, when it is registered and again when an instance is resolved.

  A constructed component is a value whose dynamic type matters only through the interfaces it implements,
  so it is a label with the names of those interfaces. \<^verbatim>\<open>New\<close>, which does no I/O, is a function of the
  settings. A handle to an optional interface is present or absent. The texts of a capability report that
  only a form shows (title, what a capability unlocks) are left out.
\<close>

section \<open>Kinds and capabilities\<close>

datatype kind = KindSource | KindSink | KindTransform | KindBuffer | KindEncoder | KindDecoder | KindFramer
  | KindDeframer | KindCompressor | KindOther string

definition Produces :: "kind \<Rightarrow> bool" where "Produces k \<longleftrightarrow> k = KindSource"
definition Consumes :: "kind \<Rightarrow> bool" where "Consumes k \<longleftrightarrow> k = KindSink"

datatype retention = RetentionUnknown | PrunesOnCommit | RetentionWindow | RetentionUnbounded

datatype unit_assignment = UnitsStatic | UnitsDynamic | UnitsExternal

datatype dest_mode = DestAppend | DestUpsert | DestOverwrite | DestDelete

datatype change_kind = ChangeKindUnknown | CreateStream | AddField | DropField | RenameField | AlterFieldType
  | AlterNullability | AlterKeys | TruncateStream | DropStream | RenameStream

definition Destructive :: "change_kind \<Rightarrow> bool" where
  "Destructive k \<longleftrightarrow> k \<in> {DropField, AlterFieldType, TruncateStream, DropStream}"

datatype value_kind = VNull | VBool | VInt | VUint | VFloat | VString | VBytes | VTime | VDecimal | VList | VMap

definition APIVersion :: int where "APIVersion = 1"
definition MinAPIVersion :: int where "MinAPIVersion = 1"

record caps =
  cp_APIVersion :: int
  cp_Unknown :: "string list"

record source_caps = caps +
  so_DefaultOrdering :: ordering
  so_Boundedness :: "boundedness list"
  so_LaneKinds :: "lane_kind list"
  so_MaxLanes :: int
  so_UpstreamRetention :: retention
  so_ReplayWindow :: duration
  so_UnitAssignment :: unit_assignment
  so_Discoverable :: bool
  so_Nackable :: bool
  so_ReportsBacklog :: bool
  so_Heartbeats :: bool
  so_Validates :: bool
  so_Probes :: bool
  so_Choices :: bool
  so_AdoptsState :: bool
  so_ReadsLanes :: bool
  so_ReadConcurrency :: int
  so_ProducesEventTime :: bool
  so_ProducesChange :: bool
  so_ProducesSchema :: bool
  so_CompleteImages :: bool
  so_ComparablePositions :: bool
  so_Replayable :: bool
  so_RedeliversUnacked :: bool
  so_StableKeys :: bool
  so_MidLaneResume :: bool

record sink_caps = caps +
  si_MaxConcurrency :: int
  si_MaxRequestRecords :: int
  si_MaxRequestBytes :: int
  si_Idempotent :: bool
  si_PartialFailure :: bool
  si_Modes :: "dest_mode list"
  si_RequiresCompleteImages :: bool
  si_RequiresKey :: bool
  si_SchemaChanges :: "change_kind list"
  si_Flushes :: bool
  si_Structured :: bool
  si_Partitions :: bool
  si_AppliesSchema :: bool
  si_Commits :: bool
  si_KeepsState :: bool
  si_StoresToken :: bool
  si_Prepares :: bool
  si_Validates :: bool
  si_Probes :: bool
  si_Choices :: bool
  si_ResolvesStale :: bool

record buffer_caps = caps +
  bu_Durability :: durability
  bu_Chains :: bool
  bu_Bounded :: bool

record transform_caps = caps +
  tr_Expands :: bool
  tr_Filters :: bool
  tr_Regroups :: bool
  tr_PreservesOrder :: bool
  tr_KeepsState :: bool
  tr_Validates :: bool

record codec_caps = caps +
  cd_Accepts :: "value_kind list"
  cd_Produces :: "value_kind list"
  cd_CarriesMeta :: bool
  cd_CarriesChange :: bool
  cd_CarriesSchema :: bool
  cd_SelfDelimiting :: bool
  cd_NeedsRuntime :: bool

record framer_caps = caps +
  fc_Terminated :: bool

record compressor_caps = caps +
  cc_ContentEncoding :: string

definition guarantee_Min :: "guarantee \<Rightarrow> guarantee \<Rightarrow> guarantee" where
  "guarantee_Min g h = (if guarantee_rank h < guarantee_rank g then h else g)"

definition MaxGuarantee :: "sink_caps \<Rightarrow> guarantee" where
  "MaxGuarantee c =
     (if si_Commits c \<or> si_StoresToken c then ExactlyOnce
      else if si_Idempotent c then EffectivelyOnce else AtLeastOnce)"

section \<open>The capability cross-check\<close>

record cap_check =
  ck_name :: string
  ck_iface :: string
  ck_declared :: bool
  ck_implemented :: bool

datatype cap_source = CapProbed | CapAbsent | CapDeclined | CapRemote | CapUndeclared | CapUnknown

datatype cap_reason = NoReason | DeclaredNotImplemented string | ImplementedNotDeclared string | DoesNotImplement string
  | Unrecognised | Undeclared string

record cap_report =
  ce_Name :: string
  ce_Present :: bool
  ce_Source :: cap_source
  ce_Reason :: cap_reason
  ce_Iface :: string

datatype lint_err = FieldHasNoName "string list" | DuplicateField "string list" | FieldHasNoText "string list"
  | EnumHasNoValues "string list" | UnionHasNoVariants "string list" | FieldHasNoItem "string list"
  | PatternHasNoHint "string list" | ShowIfNamesUnknown "string list" "string list"
  | RequiredIfNamesUnknown "string list" "string list" | LintNamesUnknown string "string list"

datatype reg_error =
    OverDeclared kind string "(string \<times> string) list"
  | NameRequired kind | UnsupportedAPI kind string int
  | Duplicate kind string | NoNew kind string | NilSpec kind string
  | RetentionRequired string | NoBoundedness string | NoLaneKinds string | NoKeyNotes string | NegativeMaxLanes string
  | NoConcurrency string | NoModes string | NoSchemaChanges string | NotBounded string
  | BadSpec kind string "lint_err list" | BadExamples kind string "string list"

definition report_one :: "cap_check \<Rightarrow> cap_report" where
  "report_one c =
     (if ck_declared c \<and> ck_implemented c then
        \<lparr>ce_Name = ck_name c, ce_Present = True, ce_Source = CapProbed, ce_Reason = NoReason, ce_Iface = ck_iface c\<rparr>
      else if ck_declared c \<and> \<not> ck_implemented c then
        \<lparr>ce_Name = ck_name c, ce_Present = False, ce_Source = CapAbsent, ce_Reason = DeclaredNotImplemented (ck_iface c),
         ce_Iface = ck_iface c\<rparr>
      else if \<not> ck_declared c \<and> ck_implemented c then
        \<lparr>ce_Name = ck_name c, ce_Present = False, ce_Source = CapUndeclared, ce_Reason = ImplementedNotDeclared (ck_iface c),
         ce_Iface = ck_iface c\<rparr>
      else
        \<lparr>ce_Name = ck_name c, ce_Present = False, ce_Source = CapAbsent, ce_Reason = DoesNotImplement (ck_iface c),
         ce_Iface = ck_iface c\<rparr>)"

definition over_declared :: "cap_check list \<Rightarrow> (string \<times> string) list" where
  "over_declared cs = map (\<lambda>c. (ck_name c, ck_iface c)) (filter (\<lambda>c. ck_declared c \<and> \<not> ck_implemented c) cs)"

text \<open>\<^verbatim>\<open>report\<close>: the report, the interfaces implemented but not declared (its warnings), and the error.\<close>

definition report :: "kind \<Rightarrow> string \<Rightarrow> cap_check list \<Rightarrow> string list \<Rightarrow> cap_report list \<times> string list \<times> reg_error option" where
  "report k name cs unknown =
     (map report_one cs @ map (\<lambda>u. \<lparr>ce_Name = u, ce_Present = False, ce_Source = CapUnknown, ce_Reason = Unrecognised, ce_Iface = ''''\<rparr>) unknown,
      map ck_iface (filter (\<lambda>c. \<not> ck_declared c \<and> ck_implemented c) cs),
      if over_declared cs = [] then None else Some (OverDeclared k name (over_declared cs)))"

definition declaredPlain :: "string \<Rightarrow> bool \<Rightarrow> string \<Rightarrow> cap_report list \<Rightarrow> cap_report list" where
  "declaredPlain name present reason out =
     out @ [\<lparr>ce_Name = name, ce_Present = present, ce_Source = (if present then CapProbed else CapAbsent),
             ce_Reason = (if present then NoReason else Undeclared reason), ce_Iface = ''''\<rparr>]"

definition checkCommon :: "kind \<Rightarrow> string \<Rightarrow> 'a caps_scheme \<Rightarrow> reg_error option" where
  "checkCommon k name c =
     (if name = '''' then Some (NameRequired k)
      else if cp_APIVersion c < MinAPIVersion \<or> cp_APIVersion c > APIVersion
           then Some (UnsupportedAPI k name (cp_APIVersion c))
      else None)"

text \<open>A constructed component, and the interfaces checked for a source, a sink and a transform.\<close>

record component =
  cm_label :: string
  cm_ifaces :: "string list"

definition check :: "string list \<Rightarrow> string \<Rightarrow> string \<Rightarrow> bool \<Rightarrow> cap_check" where
  "check impl name iface declared =
     \<lparr>ck_name = name, ck_iface = iface, ck_declared = declared, ck_implemented = iface \<in> set impl\<rparr>"

definition add_source_checks :: "string list \<Rightarrow> source_caps \<Rightarrow> cap_check list" where
  "add_source_checks impl c =
     [check impl ''discoverable'' ''connector.Discoverer'' (so_Discoverable c),
      check impl ''nackable'' ''connector.Nackable'' (so_Nackable c),
      check impl ''reports_backlog'' ''connector.BacklogReporter'' (so_ReportsBacklog c),
      check impl ''heartbeats'' ''connector.Heartbeater'' (so_Heartbeats c),
      check impl ''validates'' ''connector.Validator'' (so_Validates c),
      check impl ''probes'' ''connector.Prober'' (so_Probes c),
      check impl ''choices'' ''connector.ChoiceProvider'' (so_Choices c),
      check impl ''adopts_state'' ''connector.StateAdopter'' (so_AdoptsState c)]"

definition add_sink_checks :: "string list \<Rightarrow> sink_caps \<Rightarrow> cap_check list" where
  "add_sink_checks impl c =
     [check impl ''flushes'' ''connector.Flusher'' (si_Flushes c),
      check impl ''structured'' ''connector.StructuredSink'' (si_Structured c),
      check impl ''partitions'' ''connector.Partitioner'' (si_Partitions c),
      check impl ''applies_schema'' ''connector.SchemaApplier'' (si_AppliesSchema c),
      check impl ''commits'' ''connector.Committer'' (si_Commits c),
      check impl ''keeps_state'' ''connector.WriterState'' (si_KeepsState c),
      check impl ''stores_token'' ''connector.TokenSink'' (si_StoresToken c),
      check impl ''prepares'' ''connector.Preparer'' (si_Prepares c),
      check impl ''validates'' ''connector.Validator'' (si_Validates c),
      check impl ''probes'' ''connector.Prober'' (si_Probes c),
      check impl ''choices'' ''connector.ChoiceProvider'' (si_Choices c)]"

definition transform_checks :: "string list \<Rightarrow> transform_caps \<Rightarrow> cap_check list" where
  "transform_checks impl c =
     [check impl ''keeps_state'' ''connector.StatefulTransform'' (tr_KeepsState c),
      check impl ''validates'' ''connector.Validator'' (tr_Validates c)]"

section \<open>Resolving an instance\<close>

text \<open>The handle to an optional interface: present when the interface is implemented and declared.\<close>

definition handle :: "component \<Rightarrow> string \<Rightarrow> bool \<Rightarrow> bool" where
  "handle x iface declared \<longleftrightarrow> iface \<in> set (cm_ifaces x) \<and> declared"

record resolved_source =
  rs_Source :: component
  rs_Name :: string
  rs_Caps :: source_caps
  rs_Discoverer :: bool
  rs_Nackable :: bool
  rs_Backlog :: bool
  rs_Heartbeat :: bool
  rs_Validator :: bool
  rs_Prober :: bool
  rs_Choices :: bool
  rs_Adopter :: bool
  rs_LaneReader :: bool
  rs_Report :: "cap_report list"

definition source_checks :: "string list \<Rightarrow> source_caps \<Rightarrow> cap_check list" where
  "source_checks impl c = add_source_checks impl c @ [check impl ''reads_lanes'' ''connector.LaneReader'' (so_ReadsLanes c)]"

definition ResolveSource :: "string \<Rightarrow> component \<Rightarrow> source_caps \<Rightarrow> resolved_source \<times> reg_error option" where
  "ResolveSource name s c =
     (case report KindSource name (source_checks (cm_ifaces s) c) (cp_Unknown c) of
        (rep, _, e) \<Rightarrow>
          (\<lparr>rs_Source = s, rs_Name = name, rs_Caps = c,
             rs_Discoverer = handle s ''connector.Discoverer'' (so_Discoverable c),
             rs_Nackable = handle s ''connector.Nackable'' (so_Nackable c),
             rs_Backlog = handle s ''connector.BacklogReporter'' (so_ReportsBacklog c),
             rs_Heartbeat = handle s ''connector.Heartbeater'' (so_Heartbeats c),
             rs_Validator = handle s ''connector.Validator'' (so_Validates c),
             rs_Prober = handle s ''connector.Prober'' (so_Probes c),
             rs_Choices = handle s ''connector.ChoiceProvider'' (so_Choices c),
             rs_Adopter = handle s ''connector.StateAdopter'' (so_AdoptsState c),
             rs_LaneReader = handle s ''connector.LaneReader'' (so_ReadsLanes c),
             rs_Report = rep\<rparr>, e))"

definition ReadConcurrency :: "resolved_source \<Rightarrow> int \<Rightarrow> int" where
  "ReadConcurrency r parallelism =
     (if \<not> rs_LaneReader r then 1
      else let n = (if so_ReadConcurrency (rs_Caps r) < 1 then 1 else so_ReadConcurrency (rs_Caps r)) in
        if parallelism > 0 \<and> n > parallelism then parallelism else n)"

record resolved_sink =
  rk_Sink :: component
  rk_Name :: string
  rk_Caps :: sink_caps
  rk_Flusher :: bool
  rk_Structured :: bool
  rk_Partition :: bool
  rk_SchemaApp :: bool
  rk_Committer :: bool
  rk_State :: bool
  rk_Token :: bool
  rk_Preparer :: bool
  rk_Validator :: bool
  rk_Prober :: bool
  rk_Choices :: bool
  rk_Stale :: bool
  rk_Report :: "cap_report list"

definition sink_checks :: "string list \<Rightarrow> sink_caps \<Rightarrow> cap_check list" where
  "sink_checks impl c = add_sink_checks impl c @ [check impl ''resolves_stale'' ''connector.StaleResolver'' (si_ResolvesStale c)]"

definition ResolveSink :: "string \<Rightarrow> component \<Rightarrow> sink_caps \<Rightarrow> resolved_sink \<times> reg_error option" where
  "ResolveSink name k c =
     (case report KindSink name (sink_checks (cm_ifaces k) c) (cp_Unknown c) of
        (rep, _, e) \<Rightarrow>
          (\<lparr>rk_Sink = k, rk_Name = name, rk_Caps = c,
             rk_Flusher = handle k ''connector.Flusher'' (si_Flushes c),
             rk_Structured = handle k ''connector.StructuredSink'' (si_Structured c),
             rk_Partition = handle k ''connector.Partitioner'' (si_Partitions c),
             rk_SchemaApp = handle k ''connector.SchemaApplier'' (si_AppliesSchema c),
             rk_Committer = handle k ''connector.Committer'' (si_Commits c),
             rk_State = handle k ''connector.WriterState'' (si_KeepsState c),
             rk_Token = handle k ''connector.TokenSink'' (si_StoresToken c),
             rk_Preparer = handle k ''connector.Preparer'' (si_Prepares c),
             rk_Validator = handle k ''connector.Validator'' (si_Validates c),
             rk_Prober = handle k ''connector.Prober'' (si_Probes c),
             rk_Choices = handle k ''connector.ChoiceProvider'' (si_Choices c),
             rk_Stale = handle k ''connector.StaleResolver'' (si_ResolvesStale c),
             rk_Report = rep\<rparr>, e))"

definition AckPoint :: "resolved_sink \<Rightarrow> string" where
  "AckPoint r = (if rk_Token r then ''token'' else if rk_Committer r then ''commit'' else if rk_Flusher r then ''flush'' else ''write'')"

record resolved_transform =
  rt_Transform :: component
  rt_Name :: string
  rt_Caps :: transform_caps
  rt_State :: bool
  rt_Validator :: bool
  rt_Report :: "cap_report list"

definition ResolveTransform :: "string \<Rightarrow> component \<Rightarrow> transform_caps \<Rightarrow> resolved_transform \<times> reg_error option" where
  "ResolveTransform name t c =
     (case report KindTransform name (transform_checks (cm_ifaces t) c) (cp_Unknown c) of
        (rep, _, e) \<Rightarrow>
          (\<lparr>rt_Transform = t, rt_Name = name, rt_Caps = c,
             rt_State = handle t ''connector.StatefulTransform'' (tr_KeepsState c),
             rt_Validator = handle t ''connector.Validator'' (tr_Validates c),
             rt_Report = rep\<rparr>, e))"

section \<open>Definitions, entries and the registry\<close>

datatype support = SupportCommunity | SupportBeta | SupportCertified | SupportDeprecated

record meta_info =
  mt_Name :: string
  mt_Version :: string
  mt_Title :: string
  mt_Summary :: string
  mt_Docs :: string
  mt_Notes :: string
  mt_Support :: support

text \<open>A definition carries the method set of its type parameter, which \<^verbatim>\<open>implements\<close> interrogates.\<close>

record ('c, 'x) cdef =
  df_Meta :: meta_info
  df_Spec :: "cfg_spec option"
  df_Caps :: 'c
  df_New :: "(config \<Rightarrow> err + 'x) option"
  df_ifaces :: "string list"

record ('c, 'x) entry =
  en_Meta :: meta_info
  en_Spec :: cfg_spec
  en_Caps :: 'c
  en_New :: "config \<Rightarrow> err + 'x"
  en_Report :: "cap_report list"
  en_Warnings :: "string list"

record encoder = ec_Component :: component ec_ContentType :: string
record compressor = cz_Component :: component cz_ContentEncoding :: string

record registry =
  rg_sources :: "(string \<times> (source_caps, component) entry) list"
  rg_sinks :: "(string \<times> (sink_caps, component) entry) list"
  rg_transforms :: "(string \<times> (transform_caps, component) entry) list"
  rg_buffers :: "(string \<times> (buffer_caps, component) entry) list"
  rg_encoders :: "(string \<times> (codec_caps, encoder) entry) list"
  rg_decoders :: "(string \<times> (codec_caps, component) entry) list"
  rg_framers :: "(string \<times> (framer_caps, component) entry) list"
  rg_deframers :: "(string \<times> (framer_caps, component) entry) list"
  rg_compressors :: "(string \<times> (compressor_caps, compressor) entry) list"

definition NewRegistry :: registry where
  "NewRegistry = \<lparr>rg_sources = [], rg_sinks = [], rg_transforms = [], rg_buffers = [], rg_encoders = [], rg_decoders = [],
     rg_framers = [], rg_deframers = [], rg_compressors = []\<rparr>"

definition reg_Source where "reg_Source r name = map_of (rg_sources r) name"
definition reg_Sink where "reg_Sink r name = map_of (rg_sinks r) name"
definition reg_Transform where "reg_Transform r name = map_of (rg_transforms r) name"
definition reg_Buffer where "reg_Buffer r name = map_of (rg_buffers r) name"
definition reg_Encoder where "reg_Encoder r name = map_of (rg_encoders r) name"
definition reg_Decoder where "reg_Decoder r name = map_of (rg_decoders r) name"
definition reg_Framer where "reg_Framer r name = map_of (rg_framers r) name"
definition reg_Deframer where "reg_Deframer r name = map_of (rg_deframers r) name"
definition reg_Compressor where "reg_Compressor r name = map_of (rg_compressors r) name"

text \<open>\<^verbatim>\<open>Has\<close>, by way of the switch of \<^verbatim>\<open>Descriptor\<close>.\<close>

definition reg_names :: "registry \<Rightarrow> kind \<Rightarrow> string list" where
  "reg_names r k =
     (case k of
        KindSource \<Rightarrow> map fst (rg_sources r) | KindSink \<Rightarrow> map fst (rg_sinks r)
      | KindTransform \<Rightarrow> map fst (rg_transforms r) | KindBuffer \<Rightarrow> map fst (rg_buffers r)
      | KindEncoder \<Rightarrow> map fst (rg_encoders r) | KindDecoder \<Rightarrow> map fst (rg_decoders r)
      | KindFramer \<Rightarrow> map fst (rg_framers r) | KindDeframer \<Rightarrow> map fst (rg_deframers r)
      | KindCompressor \<Rightarrow> map fst (rg_compressors r) | KindOther _ \<Rightarrow> [])"

definition reg_Has :: "registry \<Rightarrow> kind \<Rightarrow> string \<Rightarrow> bool" where
  "reg_Has r k name \<longleftrightarrow> name \<in> set (reg_names r k)"

definition reg_Names :: "registry \<Rightarrow> kind \<Rightarrow> string list" where
  "reg_Names r k = sort (reg_names r k)"

text \<open>\<^verbatim>\<open>With\<close>: everything in both, the other winning a collision; \<^verbatim>\<open>Without\<close> removes names of one kind.\<close>

definition over :: "(string \<times> 'e) list \<Rightarrow> (string \<times> 'e) list \<Rightarrow> (string \<times> 'e) list" where
  "over other base = foldl (\<lambda>m (k, v). AList.update k v m) base other"

definition reg_With :: "registry \<Rightarrow> registry option \<Rightarrow> registry" where
  "reg_With r other =
     (case other of
        None \<Rightarrow> r
      | Some o' \<Rightarrow>
          \<lparr>rg_sources = over (rg_sources o') (rg_sources r), rg_sinks = over (rg_sinks o') (rg_sinks r),
           rg_transforms = over (rg_transforms o') (rg_transforms r), rg_buffers = over (rg_buffers o') (rg_buffers r),
           rg_encoders = over (rg_encoders o') (rg_encoders r), rg_decoders = over (rg_decoders o') (rg_decoders r),
           rg_framers = over (rg_framers o') (rg_framers r), rg_deframers = over (rg_deframers o') (rg_deframers r),
           rg_compressors = over (rg_compressors o') (rg_compressors r)\<rparr>)"

definition drops :: "string list \<Rightarrow> (string \<times> 'e) list \<Rightarrow> (string \<times> 'e) list" where
  "drops names m = foldl (\<lambda>m n. AList.delete n m) m names"

definition reg_Without :: "registry \<Rightarrow> kind \<Rightarrow> string list \<Rightarrow> registry" where
  "reg_Without r k names =
     (case k of
        KindSource \<Rightarrow> r\<lparr>rg_sources := drops names (rg_sources r)\<rparr>
      | KindSink \<Rightarrow> r\<lparr>rg_sinks := drops names (rg_sinks r)\<rparr>
      | KindTransform \<Rightarrow> r\<lparr>rg_transforms := drops names (rg_transforms r)\<rparr>
      | KindBuffer \<Rightarrow> r\<lparr>rg_buffers := drops names (rg_buffers r)\<rparr>
      | KindEncoder \<Rightarrow> r\<lparr>rg_encoders := drops names (rg_encoders r)\<rparr>
      | KindDecoder \<Rightarrow> r\<lparr>rg_decoders := drops names (rg_decoders r)\<rparr>
      | KindFramer \<Rightarrow> r\<lparr>rg_framers := drops names (rg_framers r)\<rparr>
      | KindDeframer \<Rightarrow> r\<lparr>rg_deframers := drops names (rg_deframers r)\<rparr>
      | KindCompressor \<Rightarrow> r\<lparr>rg_compressors := drops names (rg_compressors r)\<rparr>
      | KindOther _ \<Rightarrow> r)"

section \<open>Linting a description\<close>

definition unknown_paths :: "cfg_spec \<Rightarrow> predicate option \<Rightarrow> string list list" where
  "unknown_paths base p = (case p of None \<Rightarrow> [] | Some q \<Rightarrow> filter (\<lambda>x. Find (Some base) x = None) (Paths q))"

fun lintFields :: "cfg_spec \<Rightarrow> string list \<Rightarrow> string list \<Rightarrow> field list \<Rightarrow> lint_err list" where
  "lintFields base pre seen [] = []"
| "lintFields base pre seen (f # fs) =
     (let path = pre @ [fd_Name f] in
      if fd_Name f = '''' then FieldHasNoName pre # lintFields base pre seen fs
      else
        (if fd_Name f \<in> set seen then [DuplicateField path] else []) @
        (if fd_Description f = '''' \<and> fd_Title f = '''' then [FieldHasNoText path] else []) @
        (if fd_Type f = TypeEnum \<and> fd_Enum f = [] then [EnumHasNoValues path] else []) @
        (if fd_Type f = TypeUnion \<and> fd_Variants f = [] then [UnionHasNoVariants path] else []) @
        (if (fd_Type f = TypeArray \<or> fd_Type f = TypeMap) \<and> fd_Item f = None then [FieldHasNoItem path] else []) @
        (if fd_Pattern f \<noteq> '''' \<and> fd_PatternHint f = '''' then [PatternHasNoHint path] else []) @
        map (ShowIfNamesUnknown path) (unknown_paths base (fd_ShowIf f)) @
        map (RequiredIfNamesUnknown path) (unknown_paths base (fd_RequiredIf f)) @
        (if fd_Type f = TypeObject then lintFields base path [] (fd_Fields f)
         else if fd_Type f = TypeUnion then concat (map (\<lambda>v. lintFields base path [] (vr_Fields v)) (fd_Variants f))
         else []) @
        lintFields base pre (fd_Name f # seen) fs)"

definition lintSpec :: "cfg_spec \<Rightarrow> lint_err list" where
  "lintSpec s = lintFields s [] [] (sp_Fields s) @
     concat (map (\<lambda>l. map (LintNamesUnknown (ln_Message l)) (unknown_paths s (Some (ln_Require l)))) (sp_Lints s))"

definition lintExamples :: "std \<Rightarrow> cfg_spec \<Rightarrow> string list" where
  "lintExamples L s = map ex_Title (filter (\<lambda>e. HasErrors (snd (cfg_Validate L (Some s) (ex_Config e)))) (sp_Examples s))"

text \<open>\<^verbatim>\<open>withStageStandard\<close>: the component's own fields, then the standard ones whose name is still free.\<close>

definition add_field :: "field \<Rightarrow> field list \<Rightarrow> field list" where
  "add_field f fs = (if fd_Name f \<in> set (map fd_Name fs) then fs else fs @ [f])"

definition stage_fields :: "kind \<Rightarrow> bool \<Rightarrow> bool \<Rightarrow> field list" where
  "stage_fields k structuredSink heartbeats =
     [Fields_Retry FieldRetry, Fields_WhenFull FieldWhenFull] @
     (case k of
        KindSource \<Rightarrow> [Fields_LaneBudget FieldLaneBudget] @
          (if heartbeats then [Fields_HeartbeatInterval FieldHeartbeatInterval] else [])
      | KindSink \<Rightarrow> (if structuredSink then [] else [Fields_Codec FieldCodec]) @
          [Fields_Batching FieldBatching, Fields_MaxInFlight FieldMaxInFlight, Fields_Dedupe FieldDedupe]
      | KindBuffer \<Rightarrow> [Fields_Capacity FieldCapacity]
      | _ \<Rightarrow> [])"

definition withStageStandard :: "kind \<Rightarrow> cfg_spec \<Rightarrow> bool \<Rightarrow> bool \<Rightarrow> cfg_spec" where
  "withStageStandard k s structuredSink heartbeats =
     s\<lparr>sp_Fields := foldl (\<lambda>fs f. add_field f fs) (sp_Fields s) (stage_fields k structuredSink heartbeats)\<rparr>"

section \<open>Registration\<close>

definition mustLint :: "std \<Rightarrow> kind \<Rightarrow> string \<Rightarrow> cfg_spec \<Rightarrow> reg_error option" where
  "mustLint L k name s =
     (if lintSpec s \<noteq> [] then Some (BadSpec k name (lintSpec s))
      else if lintExamples L s \<noteq> [] then Some (BadExamples k name (lintExamples L s)) else None)"

text \<open>
  The steps the nine \<^verbatim>\<open>Add\<close> functions share: the common checks, the kind's own checks \<open>own\<close>, the spec with
  the standard fields and its lint, the cross-check, and the entry. \<open>Inl\<close> is a panic.
\<close>

definition register :: "std \<Rightarrow> kind \<Rightarrow> bool \<Rightarrow> bool \<Rightarrow> reg_error option \<Rightarrow> reg_error option \<Rightarrow> cap_check list \<Rightarrow> string list \<Rightarrow>
    (cap_report list \<Rightarrow> cap_report list) \<Rightarrow> ('c, 'x) cdef \<Rightarrow> (string \<times> ('c, 'x) entry) list \<Rightarrow>
    reg_error + (string \<times> ('c, 'x) entry) list" where
  "register L k structured heartbeats common own cs unknown plains d m =
     (let name = mt_Name (df_Meta d) in
      case common of Some e \<Rightarrow> Inl e | None \<Rightarrow>
      if map_of m name \<noteq> None then Inl (Duplicate k name) else
      case df_New d of None \<Rightarrow> Inl (NoNew k name) | Some new \<Rightarrow>
      case own of Some e \<Rightarrow> Inl e | None \<Rightarrow>
      case df_Spec d of None \<Rightarrow> Inl (NilSpec k name) | Some raw \<Rightarrow>
      let spec = withStageStandard k raw structured heartbeats in
      case mustLint L k name spec of Some e \<Rightarrow> Inl e | None \<Rightarrow>
      case report k name cs unknown of
        (rep, warnings, Some e) \<Rightarrow> Inl e
      | (rep, warnings, None) \<Rightarrow>
          Inr (AList.update name \<lparr>en_Meta = df_Meta d, en_Spec = spec, en_Caps = df_Caps d, en_New = new,
            en_Report = plains rep, en_Warnings = warnings\<rparr> m))"

definition put :: "('a \<Rightarrow> registry) \<Rightarrow> reg_error + 'a \<Rightarrow> reg_error + registry" where
  "put f r = (case r of Inl e \<Rightarrow> Inl e | Inr m \<Rightarrow> Inr (f m))"

definition source_own :: "meta_info \<Rightarrow> source_caps \<Rightarrow> reg_error option" where
  "source_own m c =
     (if so_UpstreamRetention c = RetentionUnknown then Some (RetentionRequired (mt_Name m))
      else if so_Boundedness c = [] then Some (NoBoundedness (mt_Name m))
      else if so_LaneKinds c = [] then Some (NoLaneKinds (mt_Name m))
      else if so_StableKeys c \<and> mt_Notes m = '''' then Some (NoKeyNotes (mt_Name m))
      else if so_MaxLanes c < 0 then Some (NegativeMaxLanes (mt_Name m)) else None)"

definition source_plains :: "source_caps \<Rightarrow> cap_report list \<Rightarrow> cap_report list" where
  "source_plains c rep =
     declaredPlain ''mid_lane_resume'' (so_MidLaneResume c) ''the connector can only resume at a lane boundary''
     (declaredPlain ''stable_keys'' (so_StableKeys c) ''the connector does not populate a stable Origin.Key''
     (declaredPlain ''replayable'' (so_Replayable c) ''the connector cannot re-read from a committed position''
     (declaredPlain ''comparable_positions'' (so_ComparablePositions c) ''the connector supplies no order encoding on its positions''
     (declaredPlain ''complete_images'' (so_CompleteImages c) ''the connector may emit partial after-images''
     (declaredPlain ''produces_schema'' (so_ProducesSchema c) ''the connector does not report a schema''
     (declaredPlain ''produces_change'' (so_ProducesChange c) ''the connector does not emit typed change events''
     (declaredPlain ''produces_event_time'' (so_ProducesEventTime c) ''the connector does not declare an event time'' rep)))))))"

definition AddSource :: "std \<Rightarrow> (source_caps, component) cdef \<Rightarrow> registry \<Rightarrow> reg_error + registry" where
  "AddSource L d r =
     put (\<lambda>m. r\<lparr>rg_sources := m\<rparr>)
       (register L KindSource False (so_Heartbeats (df_Caps d)) (checkCommon KindSource (mt_Name (df_Meta d)) (df_Caps d))
          (source_own (df_Meta d) (df_Caps d)) (add_source_checks (df_ifaces d) (df_Caps d)) (cp_Unknown (df_Caps d))
          (source_plains (df_Caps d)) d (rg_sources r))"

definition sink_own :: "meta_info \<Rightarrow> sink_caps \<Rightarrow> reg_error option" where
  "sink_own m c =
     (if si_MaxConcurrency c < 1 then Some (NoConcurrency (mt_Name m))
      else if si_Modes c = [] then Some (NoModes (mt_Name m))
      else if si_AppliesSchema c \<and> si_SchemaChanges c = [] then Some (NoSchemaChanges (mt_Name m)) else None)"

definition sink_plains :: "sink_caps \<Rightarrow> cap_report list \<Rightarrow> cap_report list" where
  "sink_plains c rep =
     declaredPlain ''partial_failure'' (si_PartialFailure c) ''the sink cannot say which records of a request failed''
     (declaredPlain ''idempotent'' (si_Idempotent c) ''re-delivering an identical request is not known to be harmless'' rep)"

definition AddSink :: "std \<Rightarrow> (sink_caps, component) cdef \<Rightarrow> registry \<Rightarrow> reg_error + registry" where
  "AddSink L d r =
     put (\<lambda>m. r\<lparr>rg_sinks := m\<rparr>)
       (register L KindSink (si_Structured (df_Caps d)) False (checkCommon KindSink (mt_Name (df_Meta d)) (df_Caps d))
          (sink_own (df_Meta d) (df_Caps d)) (add_sink_checks (df_ifaces d) (df_Caps d)) (cp_Unknown (df_Caps d))
          (sink_plains (df_Caps d)) d (rg_sinks r))"

definition AddTransform :: "std \<Rightarrow> (transform_caps, component) cdef \<Rightarrow> registry \<Rightarrow> reg_error + registry" where
  "AddTransform L d r =
     put (\<lambda>m. r\<lparr>rg_transforms := m\<rparr>)
       (register L KindTransform False False (checkCommon KindTransform (mt_Name (df_Meta d)) (df_Caps d)) None
          (transform_checks (df_ifaces d) (df_Caps d)) (cp_Unknown (df_Caps d))
          (declaredPlain ''preserves_order'' (tr_PreservesOrder (df_Caps d)) ''the transform may reorder records within a lane'')
          d (rg_transforms r))"

definition AddBuffer :: "std \<Rightarrow> (buffer_caps, component) cdef \<Rightarrow> registry \<Rightarrow> reg_error + registry" where
  "AddBuffer L d r =
     put (\<lambda>m. r\<lparr>rg_buffers := m\<rparr>)
       (register L KindBuffer False False (checkCommon KindBuffer (mt_Name (df_Meta d)) (df_Caps d))
          (if bu_Bounded (df_Caps d) then None else Some (NotBounded (mt_Name (df_Meta d)))) [] []
          (\<lambda>_. declaredPlain ''chains'' (bu_Chains (df_Caps d)) ''this buffer cannot be the overflow target of another''
             (declaredPlain ''durability'' (bu_Durability (df_Caps d) \<noteq> DurabilityNone) ''this buffer keeps records in memory only'' []))
          d (rg_buffers r))"

definition AddEncoder :: "std \<Rightarrow> (codec_caps, encoder) cdef \<Rightarrow> registry \<Rightarrow> reg_error + registry" where
  "AddEncoder L d r = put (\<lambda>m. r\<lparr>rg_encoders := m\<rparr>)
     (register L KindEncoder False False (checkCommon KindEncoder (mt_Name (df_Meta d)) (df_Caps d)) None [] [] (\<lambda>_. []) d (rg_encoders r))"

definition AddDecoder :: "std \<Rightarrow> (codec_caps, component) cdef \<Rightarrow> registry \<Rightarrow> reg_error + registry" where
  "AddDecoder L d r = put (\<lambda>m. r\<lparr>rg_decoders := m\<rparr>)
     (register L KindDecoder False False (checkCommon KindDecoder (mt_Name (df_Meta d)) (df_Caps d)) None [] [] (\<lambda>_. []) d (rg_decoders r))"

definition AddFramer :: "std \<Rightarrow> (framer_caps, component) cdef \<Rightarrow> registry \<Rightarrow> reg_error + registry" where
  "AddFramer L d r = put (\<lambda>m. r\<lparr>rg_framers := m\<rparr>)
     (register L KindFramer False False (checkCommon KindFramer (mt_Name (df_Meta d)) (df_Caps d)) None [] [] (\<lambda>_. []) d (rg_framers r))"

definition AddDeframer :: "std \<Rightarrow> (framer_caps, component) cdef \<Rightarrow> registry \<Rightarrow> reg_error + registry" where
  "AddDeframer L d r = put (\<lambda>m. r\<lparr>rg_deframers := m\<rparr>)
     (register L KindDeframer False False (checkCommon KindDeframer (mt_Name (df_Meta d)) (df_Caps d)) None [] [] (\<lambda>_. []) d (rg_deframers r))"

definition AddCompressor :: "std \<Rightarrow> (compressor_caps, compressor) cdef \<Rightarrow> registry \<Rightarrow> reg_error + registry" where
  "AddCompressor L d r = put (\<lambda>m. r\<lparr>rg_compressors := m\<rparr>)
     (register L KindCompressor False False (checkCommon KindCompressor (mt_Name (df_Meta d)) (df_Caps d)) None [] [] (\<lambda>_. []) d (rg_compressors r))"

section \<open>What registration guarantees of an instance\<close>

lemma over_declared_append [simp]: "over_declared (a @ b) = over_declared a @ over_declared b"
  by (simp add: over_declared_def)

lemma over_declared_single: "over_declared [check impl name iface declared] = [] \<longleftrightarrow> (declared \<longrightarrow> iface \<in> set impl)"
  by (simp add: over_declared_def check_def)

lemma report_err: "snd (snd (report k name cs unknown)) = None \<longleftrightarrow> over_declared cs = []"
  by (simp add: report_def)

lemma register_Inr:
  assumes "register L k s h common own cs unknown plains d m = Inr m'"
  obtains spec new where "df_Spec d = Some spec" "df_New d = Some new" "over_declared cs = []"
    "m' = AList.update (mt_Name (df_Meta d)) \<lparr>en_Meta = df_Meta d, en_Spec = withStageStandard k spec s h, en_Caps = df_Caps d,
       en_New = new, en_Report = plains (fst (report k (mt_Name (df_Meta d)) cs unknown)),
       en_Warnings = fst (snd (report k (mt_Name (df_Meta d)) cs unknown))\<rparr> m"
    "common = None" "own = None" "map_of m (mt_Name (df_Meta d)) = None" "lintSpec (withStageStandard k spec s h) = []"
  using assms by (auto simp: register_def Let_def mustLint_def report_def split: option.splits if_splits)

text \<open>Every entry of a capability report has a reason exactly when the capability is absent.\<close>

definition reasoned :: "cap_report list \<Rightarrow> bool" where
  "reasoned rep \<longleftrightarrow> list_all (\<lambda>e. ce_Present e \<longleftrightarrow> ce_Reason e = NoReason) rep"

lemma reasoned_report: "reasoned (fst (report k name cs unknown))"
  by (auto simp: reasoned_def report_def report_one_def list_all_iff)

lemma reasoned_plain: "reasoned rep \<Longrightarrow> reasoned (declaredPlain name b reason rep)"
  by (simp add: reasoned_def declaredPlain_def)

lemma over_declared_Cons:
  "over_declared (check impl name iface declared # cs) = [] \<longleftrightarrow> (declared \<longrightarrow> iface \<in> set impl) \<and> over_declared cs = []"
  by (simp add: over_declared_def check_def)

lemma sink_handles:
  assumes "over_declared (add_sink_checks (cm_ifaces k) c) = []"
  shows "rk_Flusher (fst (ResolveSink name k c)) = si_Flushes c" "rk_Committer (fst (ResolveSink name k c)) = si_Commits c"
    "rk_Token (fst (ResolveSink name k c)) = si_StoresToken c" "rk_SchemaApp (fst (ResolveSink name k c)) = si_AppliesSchema c"
    "rk_Structured (fst (ResolveSink name k c)) = si_Structured c" "rk_State (fst (ResolveSink name k c)) = si_KeepsState c"
  using assms by (auto simp: add_sink_checks_def over_declared_Cons ResolveSink_def handle_def split: prod.splits)

text \<open>
  A registered sink is what it declares. Once \<^verbatim>\<open>AddSink\<close> accepted a definition, resolving an instance of
  its type yields a handle to every interface the declaration names, so a sink whose declared ceiling is
  exactly-once does earn its acknowledgement at a token or a commit; the entry's capability report gives a
  reason for each absence. Resolution itself fails only for a sink that declares \<^verbatim>\<open>ResolvesStale\<close> without
  implementing it, the one capability registration does not check.
\<close>
theorem registered_sink_is_what_it_declares:
  assumes "AddSink L d r = Inr r'" and "cm_ifaces k = df_ifaces d"
  shows "\<exists>e. reg_Sink r' (mt_Name (df_Meta d)) = Some e \<and> en_Caps e = df_Caps d \<and> reasoned (en_Report e) \<and>
    (snd (ResolveSink name k (en_Caps e)) = None \<longleftrightarrow>
       (si_ResolvesStale (df_Caps d) \<longrightarrow> ''connector.StaleResolver'' \<in> set (df_ifaces d))) \<and>
    (MaxGuarantee (en_Caps e) = ExactlyOnce \<longleftrightarrow> AckPoint (fst (ResolveSink name k (en_Caps e))) \<in> {''token'', ''commit''}) \<and>
    (rk_Flusher (fst (ResolveSink name k (en_Caps e))) \<longleftrightarrow> si_Flushes (df_Caps d))"
proof -
  from assms(1) obtain m where m: "r' = r\<lparr>rg_sinks := m\<rparr>" and
    reg: "register L KindSink (si_Structured (df_Caps d)) False (checkCommon KindSink (mt_Name (df_Meta d)) (df_Caps d))
          (sink_own (df_Meta d) (df_Caps d)) (add_sink_checks (df_ifaces d) (df_Caps d)) (cp_Unknown (df_Caps d))
          (sink_plains (df_Caps d)) d (rg_sinks r) = Inr m"
    by (auto simp: AddSink_def put_def split: sum.splits)
  from reg obtain e where e: "map_of m (mt_Name (df_Meta d)) = Some e" "en_Caps e = df_Caps d" "reasoned (en_Report e)"
    and ok: "over_declared (add_sink_checks (cm_ifaces k) (df_Caps d)) = []"
    by (rule register_Inr) (auto simp: assms(2) sink_plains_def intro!: reasoned_plain reasoned_report)
  have "snd (ResolveSink name k (df_Caps d)) = None \<longleftrightarrow>
      (si_ResolvesStale (df_Caps d) \<longrightarrow> ''connector.StaleResolver'' \<in> set (df_ifaces d))"
    using report_err [of KindSink name "sink_checks (cm_ifaces k) (df_Caps d)" "cp_Unknown (df_Caps d)"] ok assms(2)
    by (auto simp: ResolveSink_def sink_checks_def over_declared_single split: prod.splits)
  with e m sink_handles [OF ok, of name] show ?thesis
    by (auto simp: reg_Sink_def MaxGuarantee_def AckPoint_def)
qed

definition meta0 :: meta_info where
  "meta0 = \<lparr>mt_Name = ''warehouse'', mt_Version = '''', mt_Title = '''', mt_Summary = '''', mt_Docs = '''', mt_Notes = '''',
     mt_Support = SupportBeta\<rparr>"

definition sink_caps0 :: sink_caps where
  "sink_caps0 = \<lparr>cp_APIVersion = 1, cp_Unknown = [], si_MaxConcurrency = 1, si_MaxRequestRecords = 0, si_MaxRequestBytes = 0,
     si_Idempotent = False, si_PartialFailure = False, si_Modes = [DestAppend], si_RequiresCompleteImages = False,
     si_RequiresKey = False, si_SchemaChanges = [], si_Flushes = False, si_Structured = False, si_Partitions = False,
     si_AppliesSchema = False, si_Commits = False, si_KeepsState = False, si_StoresToken = False, si_Prepares = False,
     si_Validates = False, si_Probes = False, si_Choices = False, si_ResolvesStale = False\<rparr>"

definition stale_def :: "(sink_caps, component) cdef" where
  "stale_def = \<lparr>df_Meta = meta0, df_Spec = Some NewCfgSpec, df_Caps = sink_caps0\<lparr>si_Commits := True, si_ResolvesStale := True\<rparr>,
     df_New = Some (\<lambda>_. Inl (Plain ''x'')), df_ifaces = [''connector.Committer'']\<rparr>"

text \<open>The witness is the sink the last sentence speaks of: it is registered, and cannot be resolved.\<close>

theorem registered_sink_is_what_it_declares_witness:
  "\<exists>r e. AddSink std0 stale_def NewRegistry = Inr r \<and> reg_Sink r ''warehouse'' = Some e \<and>
     MaxGuarantee (en_Caps e) = ExactlyOnce \<and>
     snd (ResolveSink ''warehouse'' \<lparr>cm_label = ''k'', cm_ifaces = [''connector.Committer'']\<rparr> (en_Caps e)) \<noteq> None"
proof -
  let ?k = "\<lparr>cm_label = ''k'', cm_ifaces = [''connector.Committer'']\<rparr>"
  have "isl (AddSink std0 stale_def NewRegistry) = False" by code_simp
  then obtain r where r: "AddSink std0 stale_def NewRegistry = Inr r" by (cases "AddSink std0 stale_def NewRegistry") auto
  show ?thesis
    using registered_sink_is_what_it_declares [OF r, where k = ?k and name = "''warehouse''"] r
    by (auto simp: stale_def_def meta0_def sink_caps0_def MaxGuarantee_def)
qed

end
