(* ===== verification/Canal_Spec.thy ===== *)
theory Canal_Spec
  imports Canal_Registry
begin

text \<open>
  What an operator submits and what negotiation answers: the package \<^verbatim>\<open>pkg/spec\<close> (the graph of nodes and
  edges, the policies, the per-stream choices) and the types of \<^verbatim>\<open>pkg/telemetry/negotiated.go\<close>.
\<close>

section \<open>Nodes and edges\<close>

datatype edge_select = EdgeMain | EdgeFailed | EdgeAll

definition CarriesFailed :: "edge_select \<Rightarrow> bool" where
  "CarriesFailed s \<longleftrightarrow> s = EdgeFailed \<or> s = EdgeAll"

definition CarriesMain :: "edge_select \<Rightarrow> bool" where
  "CarriesMain s \<longleftrightarrow> s = EdgeMain \<or> s = EdgeAll"

record edge =
  ed_From :: node_id
  ed_Select :: edge_select
  ed_BestEffort :: bool

record cadence =
  ca_Interval :: duration
  ca_Records :: int

record node =
  nd_ID :: node_id
  nd_Kind :: kind
  nd_Name :: string
  nd_Label :: string
  nd_Config :: "(string \<times> cval) list"
  nd_Inputs :: "edge list"
  nd_Guarantee :: "guarantee option"
  nd_Cadence :: "cadence option"

section \<open>Policies\<close>

datatype drift_policy = DriftLenient | DriftEvolve | DriftTryEvolve | DriftIgnore | DriftFail

definition Permits :: "drift_policy \<Rightarrow> change_kind \<Rightarrow> bool" where
  "Permits p k = (case p of DriftIgnore \<Rightarrow> False | DriftFail \<Rightarrow> False | DriftEvolve \<Rightarrow> True | _ \<Rightarrow> \<not> Destructive k)"

datatype clock_behaviour = ClockClamp | ClockReject | ClockPass

record clock_policy =
  cl_MaxSkew :: duration
  cl_Behaviour :: clock_behaviour

section \<open>Stream choices\<close>

datatype dedupe_layer = DedupeUpstream | DedupeKey

record dedupe_config =
  dd_Layer :: dedupe_layer
  dd_Window :: duration

record stream_config =
  st_Stream :: stream_name
  st_Node :: node_id
  st_Read :: "lane_kind list"
  st_Write :: dest_mode
  st_Keys :: "string list list"
  st_Dedupe :: "dedupe_config option"

section \<open>Waivers and the negotiated contract\<close>

record downgrade =
  dw_Requested :: string
  dw_Effective :: string
  dw_Missing :: "string list"
  dw_Node :: node_id
  dw_AcknowledgedBy :: string
  dw_AcknowledgedAt :: time
  dw_Reason :: string

record node_contract =
  nc_Guarantee :: guarantee
  nc_AckPoint :: string
  nc_DurabilityEdge :: string
  nc_BestEffort :: bool

record default_note =
  dn_Path :: "string list"
  dn_Value :: cval
  dn_From :: string

section \<open>The specification\<close>

record spec =
  ps_Tenant :: tenant_id
  ps_ID :: pipeline_id
  ps_Revision :: nat
  ps_Title :: string
  ps_Graph :: "node list"
  ps_Guarantee :: guarantee
  ps_Retry :: retry_policy
  ps_WhenFull :: when_full
  ps_LaneBudget :: int
  ps_Drift :: drift_policy
  ps_Clock :: clock_policy
  ps_Parallelism :: int
  ps_Streams :: "stream_config list"
  ps_Downgrades :: "downgrade list"

definition spec_Node :: "spec \<Rightarrow> node_id \<Rightarrow> node option" where
  "spec_Node s i = find (\<lambda>n. nd_ID n = i) (ps_Graph s)"

definition Consumers :: "spec \<Rightarrow> node_id \<Rightarrow> edge list" where
  "Consumers s i = concat (map (\<lambda>n. map (\<lambda>e. \<lparr>ed_From = nd_ID n, ed_Select = ed_Select e, ed_BestEffort = False\<rparr>)
     (filter (\<lambda>e. ed_From e = i) (nd_Inputs n))) (ps_Graph s))"

definition feeds :: "spec \<Rightarrow> node_id set" where
  "feeds s = set (concat (map (\<lambda>n. map ed_From (nd_Inputs n)) (ps_Graph s)))"

definition Terminals :: "spec \<Rightarrow> node_id list" where
  "Terminals s = filter (\<lambda>i. i \<notin> feeds s) (map nd_ID (ps_Graph s))"

text \<open>\<^verbatim>\<open>StreamFor\<close>: an entry scoped to the node wins; of the unscoped ones the last that was seen.\<close>

fun stream_for :: "node_id \<Rightarrow> stream_name \<Rightarrow> stream_config option \<Rightarrow> stream_config list \<Rightarrow> stream_config option" where
  "stream_for node stream general [] = general"
| "stream_for node stream general (sc # rest) =
     (if st_Stream sc \<noteq> stream then stream_for node stream general rest
      else if st_Node sc \<noteq> '''' \<and> st_Node sc = node then Some sc
      else stream_for node stream (if st_Node sc = '''' then Some sc else general) rest)"

definition StreamFor :: "spec \<Rightarrow> node_id \<Rightarrow> stream_name \<Rightarrow> stream_config option" where
  "StreamFor s node stream = stream_for node stream None (ps_Streams s)"

definition scoped :: "spec \<Rightarrow> node_id \<Rightarrow> stream_config list" where
  "scoped s node = filter (\<lambda>c. st_Node c \<noteq> '''' \<and> st_Node c = node) (ps_Streams s)"

definition StreamsFor :: "spec \<Rightarrow> node_id \<Rightarrow> stream_config list" where
  "StreamsFor s node = scoped s node @
     filter (\<lambda>c. st_Node c = '''' \<and> st_Stream c \<notin> set (map st_Stream (scoped s node))) (ps_Streams s)"

record summary =
  sm_Tenant :: tenant_id
  sm_ID :: pipeline_id
  sm_Revision :: nat
  sm_Title :: string
  sm_Guarantee :: guarantee
  sm_Nodes :: nat
  sm_UpdatedAt :: time

definition Summarise :: "spec \<Rightarrow> time \<Rightarrow> summary" where
  "Summarise s updatedAt = \<lparr>sm_Tenant = ps_Tenant s, sm_ID = ps_ID s, sm_Revision = ps_Revision s, sm_Title = ps_Title s,
     sm_Guarantee = ps_Guarantee s, sm_Nodes = length (ps_Graph s), sm_UpdatedAt = updatedAt\<rparr>"

lemma spec_Node_Some: "spec_Node s i = Some n \<Longrightarrow> n \<in> set (ps_Graph s) \<and> nd_ID n = i"
  by (auto simp: spec_Node_def find_Some_iff)

text \<open>
  The two ways to read a stream's choice agree where the entries are unambiguous: one entry per stream and
  scope.
\<close>

definition unambiguous :: "spec \<Rightarrow> bool" where
  "unambiguous s \<longleftrightarrow> distinct (map (\<lambda>c. (st_Stream c, st_Node c)) (ps_Streams s))"

lemma stream_for_general:
  assumes "distinct (map (\<lambda>c. (st_Stream c, st_Node c)) xs)"
  shows "stream_for node stream g xs =
    (case find (\<lambda>c. st_Stream c = stream \<and> st_Node c \<noteq> '''' \<and> st_Node c = node) xs of
       Some c \<Rightarrow> Some c
     | None \<Rightarrow> (case find (\<lambda>c. st_Stream c = stream \<and> st_Node c = '''') xs of Some c \<Rightarrow> Some c | None \<Rightarrow> g))"
  using assms
proof (induction xs arbitrary: g)
  case (Cons c xs)
  have "find (\<lambda>c. st_Stream c = stream \<and> st_Node c = '''') xs = None" if "st_Stream c = stream" "st_Node c = ''''"
    using Cons.prems that by (auto simp: find_None_iff image_iff)
  with Cons show ?case by (auto split: option.splits)
qed simp

end
