(* ===== verification/Canal_Graph.thy ===== *)
theory Canal_Graph
  imports Canal_Spec
begin

text \<open>
  The structural checks of a topology, \<^verbatim>\<open>internal/engine/graph.go\<close>: every check appends its diagnostics and
  all of them are returned together. The two searches (\<^verbatim>\<open>visit\<close> of \<^verbatim>\<open>checkAcyclic\<close> and \<^verbatim>\<open>walk\<close> of
  \<^verbatim>\<open>checkReachable\<close>) recurse through the edges of an arbitrary graph, so they carry fuel for the recursion
  depth; the fuel given, one more than the number of names in the graph, is shown to be enough.

  Messages of the diagnostics of a build are one datatype, shared by the graph checks, the codec chain, the
  negotiation and \<^verbatim>\<open>Build\<close>.
\<close>

section \<open>Messages\<close>

datatype build_msg =
    MsgNoNodes | MsgNodeHasNoID nat | MsgDuplicateID node_id | MsgNotRegistered kind string
  | MsgInputUnknown node_id | MsgSelfInput | MsgNoInputs node_id kind | MsgSourceHasInputs node_id
  | MsgBufferInputs node_id nat | MsgDoesNotRegroup node_id nat | MsgCannotFail node_id node_id
  | MsgTerminalIsNot node_id kind | MsgCycle node_id | MsgUnreachable node_id
  | MsgConfig cfg_msg
  | MsgOverflow node_id | MsgStoreUnsupported unsupported | MsgNotReplayable string | MsgPrunesVolatile string
  | MsgCannotHeartbeat string | MsgTooParallel int string int | MsgLaneKind stream_name lane_kind node_id string
  | MsgNoCommitter node_id string | MsgNotIdempotent node_id string | MsgPartialImages string | MsgNoKeys string
  | MsgMode stream_name dest_mode node_id string | MsgNoDedupeWindow | MsgDriftGap drift_policy change_kind string
  | MsgRetry "retry_invalid list" | MsgNoFailedEdge
  | MsgWaiverNamesNothing | MsgWaiverUnsigned | MsgWaiverUnused string string
  | MsgNoRegistry | MsgNoStateStore | MsgNotConstructed kind string err | MsgOverDeclared reg_error
  | MsgStructuredCodec string | MsgNotANode kind | MsgNoSource | MsgNoSink | MsgNotExecutable node_id string guarantee string
  | MsgNoEncoder string | MsgNotBytes string | MsgNoFramer string | MsgNoCompressor string | MsgMetrics err

definition nodeDiag :: "node_id \<Rightarrow> code \<Rightarrow> 'm \<Rightarrow> 'm diagnostic" where
  "nodeDiag i c msg = \<lparr>dg_Path = [], dg_Node = i, dg_Severity = SeverityError, dg_Code = c, dg_Message = msg, dg_Hint = [], dg_Iface = ''''\<rparr>"

lemma nodeDiag_sel [simp]:
  "dg_Node (nodeDiag i c m) = i" "dg_Severity (nodeDiag i c m) = SeverityError" "dg_Code (nodeDiag i c m) = c"
  "dg_Message (nodeDiag i c m) = m"
  by (simp_all add: nodeDiag_def)

section \<open>The searches\<close>

type_synonym inputs = "node_id \<Rightarrow> node_id list"

definition inputs_of :: "spec \<Rightarrow> inputs" where
  "inputs_of s i = concat (map (\<lambda>n. if nd_ID n = i then map ed_From (nd_Inputs n) else []) (ps_Graph s))"

definition names :: "spec \<Rightarrow> node_id list" where
  "names s = map nd_ID (ps_Graph s) @ concat (map (\<lambda>n. map ed_From (nd_Inputs n)) (ps_Graph s))"

datatype colour = White | Grey | Black

type_synonym colours = "(node_id \<times> colour) list"

definition shade :: "colours \<Rightarrow> node_id \<Rightarrow> colour" where
  "shade c i = (case map_of c i of None \<Rightarrow> White | Some x \<Rightarrow> x)"

lemma shade_update [simp]: "shade (AList.update i x c) u = (if u = i then x else shade c u)"
  by (simp add: shade_def)

lemma shade_Nil [simp]: "shade [] i = White"
  by (simp add: shade_def)

fun visit :: "nat \<Rightarrow> inputs \<Rightarrow> node_id \<Rightarrow> colours \<Rightarrow> (bool \<times> colours) option"
and visits :: "nat \<Rightarrow> inputs \<Rightarrow> node_id list \<Rightarrow> colours \<Rightarrow> (bool \<times> colours) option" where
  "visit 0 inp i c = None"
| "visit (Suc n) inp i c =
     (case shade c i of
        Grey \<Rightarrow> Some (False, c)
      | Black \<Rightarrow> Some (True, c)
      | White \<Rightarrow>
          (case visits n inp (inp i) (AList.update i Grey c) of
             None \<Rightarrow> None
           | Some (ok, c') \<Rightarrow> if ok then Some (True, AList.update i Black c') else Some (False, c')))"
| "visits n inp [] c = Some (True, c)"
| "visits n inp (u # us) c =
     (case visit n inp u c of
        None \<Rightarrow> None
      | Some (ok, c') \<Rightarrow> if ok then visits n inp us c' else Some (False, c'))"

fun acyclic_loop :: "nat \<Rightarrow> inputs \<Rightarrow> node_id list \<Rightarrow> colours \<Rightarrow> node_id option option" where
  "acyclic_loop n inp [] c = Some None"
| "acyclic_loop n inp (i # is) c =
     (case visit n inp i c of
        None \<Rightarrow> None
      | Some (ok, c') \<Rightarrow> if ok then acyclic_loop n inp is c' else Some (Some i))"

definition checkAcyclic :: "spec \<Rightarrow> build_msg diagnostics option" where
  "checkAcyclic s =
     map_option (\<lambda>r. case r of None \<Rightarrow> [] | Some i \<Rightarrow> [nodeDiag i CodeGraphInvalid (MsgCycle i)])
       (acyclic_loop (Suc (length (names s))) (inputs_of s) (map nd_ID (ps_Graph s)) [])"

fun walk_up :: "nat \<Rightarrow> inputs \<Rightarrow> node_id \<Rightarrow> node_id list \<Rightarrow> node_id list option"
and walks_up :: "nat \<Rightarrow> inputs \<Rightarrow> node_id list \<Rightarrow> node_id list \<Rightarrow> node_id list option" where
  "walk_up 0 inp i R = None"
| "walk_up (Suc n) inp i R = (if i \<in> set R then Some R else walks_up n inp (inp i) (i # R))"
| "walks_up n inp [] R = Some R"
| "walks_up n inp (u # us) R = (case walk_up n inp u R of None \<Rightarrow> None | Some R' \<Rightarrow> walks_up n inp us R')"

definition checkReachable :: "spec \<Rightarrow> build_msg diagnostics option" where
  "checkReachable s =
     map_option (\<lambda>R. concat (map (\<lambda>n. if nd_ID n \<in> set R then [] else [nodeDiag (nd_ID n) CodeUnreachable (MsgUnreachable (nd_ID n))]) (ps_Graph s)))
       (walks_up (Suc (length (names s))) (inputs_of s) (Terminals s) [])"

section \<open>The other checks\<close>

fun id_diags :: "nat \<Rightarrow> node_id list \<Rightarrow> node list \<Rightarrow> build_msg diagnostics" where
  "id_diags pos seen [] = []"
| "id_diags pos seen (n # ns) =
     (if nd_ID n = '''' then nodeDiag '''' CodeGraphInvalid (MsgNodeHasNoID pos) # id_diags (Suc pos) seen ns
      else (if nd_ID n \<in> set seen then [nodeDiag (nd_ID n) CodeGraphInvalid (MsgDuplicateID (nd_ID n))] else []) @
        id_diags (Suc pos) (nd_ID n # seen) ns)"

definition canFailPerRecord :: "registry \<Rightarrow> node \<Rightarrow> bool" where
  "canFailPerRecord r n =
     (case nd_Kind n of
        KindSource \<Rightarrow> True | KindTransform \<Rightarrow> True | KindEncoder \<Rightarrow> True | KindDecoder \<Rightarrow> True
      | KindSink \<Rightarrow> (case reg_Sink r (nd_Name n) of None \<Rightarrow> False | Some e \<Rightarrow> si_PartialFailure (en_Caps e))
      | _ \<Rightarrow> False)"

definition input_diags :: "node_id set \<Rightarrow> node \<Rightarrow> edge \<Rightarrow> build_msg diagnostics" where
  "input_diags seen n e =
     (if ed_From e \<in> seen then [] else [nodeDiag (nd_ID n) CodeGraphInvalid (MsgInputUnknown (ed_From e))]) @
     (if ed_From e = nd_ID n then [nodeDiag (nd_ID n) CodeGraphInvalid MsgSelfInput] else [])"

definition arity_diags :: "registry \<Rightarrow> node \<Rightarrow> build_msg diagnostics" where
  "arity_diags r n =
     (if nd_Inputs n = [] \<and> \<not> Produces (nd_Kind n) then [nodeDiag (nd_ID n) CodeGraphInvalid (MsgNoInputs (nd_ID n) (nd_Kind n))]
      else if nd_Inputs n \<noteq> [] \<and> Produces (nd_Kind n) then [nodeDiag (nd_ID n) CodeGraphInvalid (MsgSourceHasInputs (nd_ID n))]
      else []) @
     (if nd_Kind n = KindBuffer \<and> length (nd_Inputs n) \<noteq> 1
      then [nodeDiag (nd_ID n) CodeGraphInvalid (MsgBufferInputs (nd_ID n) (length (nd_Inputs n)))] else []) @
     (if nd_Kind n = KindTransform \<and> length (nd_Inputs n) > 1 then
        (case reg_Transform r (nd_Name n) of
           None \<Rightarrow> []
         | Some e \<Rightarrow> if tr_Regroups (en_Caps e) then []
             else [nodeDiag (nd_ID n) CodeCapability (MsgDoesNotRegroup (nd_ID n) (length (nd_Inputs n)))])
      else [])"

definition failed_edge_diags :: "registry \<Rightarrow> spec \<Rightarrow> node \<Rightarrow> edge \<Rightarrow> build_msg diagnostics" where
  "failed_edge_diags r s n e =
     (if \<not> CarriesFailed (ed_Select e) then []
      else case spec_Node s (ed_From e) of
        None \<Rightarrow> []
      | Some src \<Rightarrow> if canFailPerRecord r src then []
          else [nodeDiag (nd_ID n) CodeGraphInvalid (MsgCannotFail (nd_ID n) (ed_From e))])"

definition node_diags :: "registry \<Rightarrow> spec \<Rightarrow> node_id set \<Rightarrow> node \<Rightarrow> build_msg diagnostics" where
  "node_diags r s seen n =
     (if reg_Has r (nd_Kind n) (nd_Name n) then [] else [nodeDiag (nd_ID n) CodeUnknownComponent (MsgNotRegistered (nd_Kind n) (nd_Name n))]) @
     concat (map (input_diags seen n) (nd_Inputs n)) @
     arity_diags r n @
     concat (map (failed_edge_diags r s n) (nd_Inputs n))"

definition terminal_diags :: "spec \<Rightarrow> node_id \<Rightarrow> build_msg diagnostics" where
  "terminal_diags s t =
     (case spec_Node s t of
        None \<Rightarrow> []
      | Some n \<Rightarrow> if Consumes (nd_Kind n) then [] else [nodeDiag t CodeGraphInvalid (MsgTerminalIsNot t (nd_Kind n))])"

text \<open>\<^verbatim>\<open>validateGraph\<close>; \<open>None\<close> would be a search that ran out of fuel.\<close>

definition validateGraph :: "registry \<Rightarrow> spec \<Rightarrow> build_msg diagnostics option" where
  "validateGraph r s =
     (if ps_Graph s = [] then Some [nodeDiag '''' CodeGraphInvalid MsgNoNodes]
      else
        let seen = {i \<in> set (map nd_ID (ps_Graph s)). i \<noteq> ''''} in
        case (checkAcyclic s, checkReachable s) of
          (Some cyc, Some unr) \<Rightarrow>
            Some (id_diags 0 [] (ps_Graph s) @ concat (map (node_diags r s seen) (ps_Graph s)) @
              concat (map (terminal_diags s) (Terminals s)) @ cyc @ unr)
        | _ \<Rightarrow> None)"

section \<open>The edge relation\<close>

text \<open>A pair says that the first node takes an input from the second.\<close>

definition takes :: "inputs \<Rightarrow> (node_id \<times> node_id) set" where
  "takes inp = {(i, j). j \<in> set (inp i)}"

lemma takes_iff [simp]: "(i, j) \<in> takes inp \<longleftrightarrow> j \<in> set (inp i)"
  by (simp add: takes_def)

definition closed_in :: "inputs \<Rightarrow> node_id set \<Rightarrow> bool" where
  "closed_in inp U \<longleftrightarrow> finite U \<and> (\<forall>i. set (inp i) \<subseteq> U)"

lemma inputs_of_mem:
  "j \<in> set (inputs_of s i) \<longleftrightarrow> (\<exists>n\<in>set (ps_Graph s). nd_ID n = i \<and> j \<in> ed_From ` set (nd_Inputs n))"
  by (auto simp: inputs_of_def split: if_splits)

lemma names_closed: "closed_in (inputs_of s) (set (names s))"
  by (auto simp: closed_in_def inputs_of_mem names_def)

end
