(* ===== verification/Canal_Negotiate.thy ===== *)
theory Canal_Negotiate
  imports Canal_Graph
begin

text \<open>
  Negotiation, \<^verbatim>\<open>internal/engine/negotiate.go\<close>: from the specification, the resolved components and what the
  state store can do, the tier each sink branch gets, the pipeline's headline, the reasons, and a diagnostic
  for every impossible combination; then the operator's waivers.

  The maps of resolved components are association lists, their order being the one in which Go ranges over
  them. The loop over the negotiated branches ranges over a map built by an earlier loop, in an order of its
  own, which is the parameter \<open>ord\<close>. A reason is a constructor naming the sentence.
\<close>

section \<open>The resolved components\<close>

record codec_chain =
  ch_encoder :: encoder
  ch_framer :: "component option"
  ch_compressor :: "compressor option"
  ch_contentType :: string
  ch_contentEncoding :: string

record resolved =
  rv_sources :: "(node_id \<times> resolved_source) list"
  rv_sinks :: "(node_id \<times> resolved_sink) list"
  rv_buffers :: "(node_id \<times> buffer_caps) list"
  rv_codecs :: "(node_id \<times> codec_chain option) list"
  rv_configs :: "(node_id \<times> config) list"

datatype why =
    WhyRetention string retention | WhyRedelivers string | WhyNotReplayable string | WhyNoStableKeys string
  | WhyNotIdempotent string | WhyNeitherCommitterNorToken string | WhyMin node_id guarantee guarantee
  | WhyBuffer node_id durability | WhyWeakest node_id guarantee | WhyWaiver downgrade | WhyWrites node_id "string list"

record negotiated =
  ng_Guarantee :: guarantee
  ng_Nodes :: "(node_id \<times> node_contract) list"
  ng_Why :: "why list"
  ng_DurabilityEdge :: string
  ng_AckPoint :: string
  ng_ReplayBudget :: int
  ng_Defaults :: "default_note list"
  ng_Downgrades :: "downgrade list"

section \<open>Helpers\<close>

definition capDiag :: "node_id \<Rightarrow> build_msg \<Rightarrow> string \<Rightarrow> build_msg diagnostic" where
  "capDiag i msg iface = \<lparr>dg_Path = [], dg_Node = i, dg_Severity = SeverityError, dg_Code = CodeCapability, dg_Message = msg,
     dg_Hint = [], dg_Iface = iface\<rparr>"

definition nodeIsBestEffort :: "spec \<Rightarrow> node_id \<Rightarrow> bool" where
  "nodeIsBestEffort s i =
     (case spec_Node s i of
        None \<Rightarrow> False
      | Some n \<Rightarrow> nd_Inputs n \<noteq> [] \<and> list_all ed_BestEffort (nd_Inputs n))"

definition wantsGatedStream :: "spec \<Rightarrow> bool" where
  "wantsGatedStream s \<longleftrightarrow> list_ex (\<lambda>st. LaneKindScan \<in> set (st_Read st) \<and> LaneKindStream \<in> set (st_Read st)) (ps_Streams s)"

definition everySourceDeclares :: "resolved \<Rightarrow> (source_caps \<Rightarrow> bool) \<Rightarrow> bool" where
  "everySourceDeclares rv P \<longleftrightarrow> rv_sources rv \<noteq> [] \<and> list_all (\<lambda>(_, src). P (rs_Caps src)) (rv_sources rv)"

definition hasLaneKind :: "lane_kind list \<Rightarrow> lane_kind \<Rightarrow> bool" where "hasLaneKind ks k \<longleftrightarrow> k \<in> set ks"
definition hasMode :: "dest_mode list \<Rightarrow> dest_mode \<Rightarrow> bool" where "hasMode ms m \<longleftrightarrow> m \<in> set ms"
definition hasChangeKind :: "change_kind list \<Rightarrow> change_kind \<Rightarrow> bool" where "hasChangeKind ks k \<longleftrightarrow> k \<in> set ks"

definition driftKinds :: "spec \<Rightarrow> change_kind list" where
  "driftKinds s = filter (Permits (ps_Drift s)) [CreateStream, AddField, DropField, RenameField, AlterFieldType, AlterNullability,
     AlterKeys, TruncateStream, DropStream]"

definition hasFailedEdge :: "spec \<Rightarrow> bool" where
  "hasFailedEdge s \<longleftrightarrow> list_ex (\<lambda>n. list_ex (\<lambda>e. CarriesFailed (ed_Select e)) (nd_Inputs n)) (ps_Graph s)"

definition ParseWhenFull :: "string \<Rightarrow> when_full option" where
  "ParseWhenFull s = map_of [(''block'', WhenFullBlock), (''drop_newest'', WhenFullDropNewest), (''reject'', WhenFullReject),
     (''overflow'', WhenFullOverflow)] s"

definition refuseOverflow :: "spec \<Rightarrow> resolved \<Rightarrow> build_msg diagnostics" where
  "refuseOverflow s rv =
     (if ps_WhenFull s = WhenFullOverflow then [capDiag '''' (MsgOverflow '''') ''connector.Buffer''] else []) @
     concat (map (\<lambda>n.
       case map_of (rv_configs rv) (nd_ID n) of
         None \<Rightarrow> []
       | Some cfg \<Rightarrow>
           if \<not> cfg_Has cfg [FieldWhenFull] then []
           else case get_value coerce_string cfg [FieldWhenFull] of
             Inl _ \<Rightarrow> []
           | Inr raw \<Rightarrow> if ParseWhenFull raw = Some WhenFullOverflow
               then [capDiag (nd_ID n) (MsgOverflow (nd_ID n)) ''connector.Buffer''] else []) (ps_Graph s))"

section \<open>The ceilings\<close>

text \<open>The loop that counts the tier down until the store supports it.\<close>

fun weaker :: "guarantee \<Rightarrow> guarantee" where
  "weaker ExactlyOnce = EffectivelyOnce"
| "weaker EffectivelyOnce = AtLeastOnce"
| "weaker AtLeastOnce = AtMostOnce"
| "weaker AtMostOnce = AtMostOnce"

lemma weaker_rank: "g \<noteq> AtMostOnce \<Longrightarrow> guarantee_rank (weaker g) < guarantee_rank g"
  by (cases g) auto

function ceiling_loop :: "store_caps \<Rightarrow> guarantee \<Rightarrow> guarantee" where
  "ceiling_loop sc g = (if Supports g sc = None then g else if g = AtMostOnce then AtMostOnce else ceiling_loop sc (weaker g))"
  by auto
termination by (relation "measure (\<lambda>(_, g). guarantee_rank g)") (auto simp: weaker_rank)

declare ceiling_loop.simps [simp del]

definition storeCeiling :: "store_caps \<Rightarrow> guarantee" where
  "storeCeiling sc = ceiling_loop sc ExactlyOnce"

text \<open>One source: the reasons, the diagnostics, and the ceiling lowered by what the source cannot do.\<close>

definition source_stream_diags :: "spec \<Rightarrow> node_id \<Rightarrow> resolved_source \<Rightarrow> build_msg diagnostics" where
  "source_stream_diags s i src =
     concat (map (\<lambda>want. concat (map (\<lambda>k.
       if hasLaneKind (so_LaneKinds (rs_Caps src)) k then []
       else [capDiag i (MsgLaneKind (st_Stream want) k i (rs_Name src)) '''']) (st_Read want))) (StreamsFor s i))"

definition source_diags :: "spec \<Rightarrow> store_caps \<Rightarrow> node_id \<Rightarrow> resolved_source \<Rightarrow> build_msg diagnostics" where
  "source_diags s sc i src =
     (let c = rs_Caps src in
      (if so_Replayable c \<or> so_RedeliversUnacked c then []
       else if guarantee_rank (ps_Guarantee s) > guarantee_rank AtMostOnce then [capDiag i (MsgNotReplayable (rs_Name src)) ''''] else []) @
      (if so_UpstreamRetention c = PrunesOnCommit \<and> \<not> sc_FlushIsDurable sc then [capDiag i (MsgPrunesVolatile (rs_Name src)) ''''] else []) @
      (if so_UpstreamRetention c = PrunesOnCommit \<and> wantsGatedStream s \<and> \<not> so_Heartbeats c
       then [capDiag i (MsgCannotHeartbeat (rs_Name src)) ''connector.Heartbeater''] else []) @
      (if ps_Parallelism s > 0 \<and> so_MaxLanes c > 0 \<and> ps_Parallelism s > so_MaxLanes c
       then [capDiag i (MsgTooParallel (ps_Parallelism s) (rs_Name src) (so_MaxLanes c)) ''''] else []) @
      source_stream_diags s i src)"

definition source_why :: "resolved_source \<Rightarrow> why list" where
  "source_why src =
     (let c = rs_Caps src in
      [WhyRetention (rs_Name src) (so_UpstreamRetention c)] @
      (if so_Replayable c \<or> so_RedeliversUnacked c
       then (if so_Replayable c then [] else [WhyRedelivers (rs_Name src)])
       else [WhyNotReplayable (rs_Name src)]) @
      (if so_StableKeys c then [] else [WhyNoStableKeys (rs_Name src)]))"

definition source_ceiling :: "resolved_source \<Rightarrow> guarantee \<Rightarrow> guarantee" where
  "source_ceiling src ceil =
     (let c = rs_Caps src;
          ceil = (if so_Replayable c \<or> so_RedeliversUnacked c then ceil else guarantee_Min ceil AtMostOnce)
      in if so_StableKeys c then ceil else guarantee_Min ceil AtLeastOnce)"

definition sourceCeiling :: "resolved \<Rightarrow> guarantee" where
  "sourceCeiling rv = foldl (\<lambda>ceil (_, src). source_ceiling src ceil) ExactlyOnce (rv_sources rv)"

section \<open>A sink branch\<close>

definition requested :: "spec \<Rightarrow> node_id \<Rightarrow> guarantee" where
  "requested s i =
     (case spec_Node s i of
        Some n \<Rightarrow> (case nd_Guarantee n of Some g \<Rightarrow> g | None \<Rightarrow> ps_Guarantee s)
      | None \<Rightarrow> ps_Guarantee s)"

definition achievable :: "store_caps \<Rightarrow> resolved \<Rightarrow> resolved_sink \<Rightarrow> guarantee" where
  "achievable sc rv sk = guarantee_Min (guarantee_Min (sourceCeiling rv) (MaxGuarantee (rk_Caps sk))) (storeCeiling sc)"

definition sink_stream_diags :: "spec \<Rightarrow> node_id \<Rightarrow> resolved_sink \<Rightarrow> build_msg diagnostics" where
  "sink_stream_diags s i sk =
     concat (map (\<lambda>want.
       (if hasMode (si_Modes (rk_Caps sk)) (st_Write want) then []
        else [capDiag i (MsgMode (st_Stream want) (st_Write want) i (rk_Name sk)) '''']) @
       (case st_Dedupe want of
          None \<Rightarrow> []
        | Some dd \<Rightarrow> if dd_Window dd = 0
            then Errorf [] CodeGuarantee [''streams'', st_Stream want, ''dedupe'', ''window''] MsgNoDedupeWindow else []))
       (StreamsFor s i))"

definition drift_diags :: "spec \<Rightarrow> node_id \<Rightarrow> resolved_sink \<Rightarrow> build_msg diagnostics" where
  "drift_diags s i sk =
     (if rk_SchemaApp sk then
        concat (map (\<lambda>k. if hasChangeKind (si_SchemaChanges (rk_Caps sk)) k then []
          else [\<lparr>dg_Path = [], dg_Node = i, dg_Severity = SeverityWarning, dg_Code = CodeCapability,
                 dg_Message = MsgDriftGap (ps_Drift s) k (rk_Name sk), dg_Hint = [], dg_Iface = ''''\<rparr>]) (driftKinds s))
      else [])"

definition sink_diags :: "spec \<Rightarrow> resolved \<Rightarrow> node_id \<Rightarrow> resolved_sink \<Rightarrow> build_msg diagnostics" where
  "sink_diags s rv i sk =
     (let c = rk_Caps sk; req = requested s i in
      (if \<not> rk_Committer sk \<and> \<not> rk_Token sk \<and> req = ExactlyOnce
       then [capDiag i (MsgNoCommitter i (rk_Name sk)) ''connector.Committer''] else []) @
      (if req = EffectivelyOnce \<and> \<not> si_Idempotent c then [capDiag i (MsgNotIdempotent i (rk_Name sk)) ''''] else []) @
      (if si_RequiresCompleteImages c \<and> \<not> everySourceDeclares rv so_CompleteImages then [capDiag i (MsgPartialImages (rk_Name sk)) ''''] else []) @
      (if si_RequiresKey c \<and> \<not> everySourceDeclares rv so_StableKeys then [capDiag i (MsgNoKeys (rk_Name sk)) ''''] else []) @
      sink_stream_diags s i sk @ drift_diags s i sk)"

definition sink_why :: "spec \<Rightarrow> store_caps \<Rightarrow> resolved \<Rightarrow> node_id \<Rightarrow> resolved_sink \<Rightarrow> why list" where
  "sink_why s sc rv i sk =
     (if si_Idempotent (rk_Caps sk) then [] else [WhyNotIdempotent (rk_Name sk)]) @
     (if \<not> rk_Committer sk \<and> \<not> rk_Token sk then [WhyNeitherCommitterNorToken (rk_Name sk)] else []) @
     (if achievable sc rv sk \<noteq> requested s i then [WhyMin i (requested s i) (achievable sc rv sk)] else [])"

definition contract_of :: "spec \<Rightarrow> store_caps \<Rightarrow> resolved \<Rightarrow> node_id \<Rightarrow> resolved_sink \<Rightarrow> node_contract" where
  "contract_of s sc rv i sk =
     \<lparr>nc_Guarantee = guarantee_Min (requested s i) (achievable sc rv sk), nc_AckPoint = AckPoint sk,
      nc_DurabilityEdge = ''sink:'' @ i, nc_BestEffort = nodeIsBestEffort s i\<rparr>"

definition branches :: "spec \<Rightarrow> store_caps \<Rightarrow> resolved \<Rightarrow> (node_id \<times> node_contract) list" where
  "branches s sc rv = foldl (\<lambda>m (i, sk). AList.update i (contract_of s sc rv i sk) m) [] (rv_sinks rv)"

definition buffer_why :: "resolved \<Rightarrow> why list" where
  "buffer_why rv =
     concat (map (\<lambda>(i, bc).
       if bu_Durability bc = DurabilityNone then []
       else if durability_rank (bu_Durability bc) < durability_rank DurabilityCluster then [WhyBuffer i (bu_Durability bc)] else [])
       (rv_buffers rv))"

section \<open>The summary\<close>

record digest =
  dt_Guarantee :: guarantee
  dt_weakest :: node_id
  dt_DurabilityEdge :: string
  dt_AckPoint :: string

definition digest_step :: "node_id \<times> node_contract \<Rightarrow> digest \<Rightarrow> digest" where
  "digest_step x a =
     (case x of (i, nc) \<Rightarrow>
        if nc_BestEffort nc then a
        else
          let a = (if guarantee_rank (nc_Guarantee nc) < guarantee_rank (dt_Guarantee a)
                   then a\<lparr>dt_Guarantee := nc_Guarantee nc, dt_weakest := i\<rparr> else a) in
          if nc_DurabilityEdge nc \<noteq> '''' \<and>
             (dt_DurabilityEdge a = '''' \<or> guarantee_rank (nc_Guarantee nc) \<le> guarantee_rank (dt_Guarantee a))
          then a\<lparr>dt_DurabilityEdge := nc_DurabilityEdge nc, dt_AckPoint := nc_AckPoint nc\<rparr> else a)"

definition digest_of :: "(node_id \<times> node_contract) list \<Rightarrow> digest" where
  "digest_of nodes = foldl (\<lambda>a x. digest_step x a)
     \<lparr>dt_Guarantee = (if nodes = [] then AtMostOnce else ExactlyOnce), dt_weakest = '''', dt_DurabilityEdge = '''', dt_AckPoint = ''''\<rparr> nodes"

section \<open>Waivers\<close>

definition waiverCovers :: "downgrade \<Rightarrow> build_msg diagnostic \<Rightarrow> bool" where
  "waiverCovers w dg \<longleftrightarrow>
     dw_AcknowledgedBy w \<noteq> '''' \<and> dw_Reason w \<noteq> '''' \<and> dw_Missing w \<noteq> [] \<and> dw_Node w = dg_Node dg \<and>
     (if dg_Code dg = CodeCapability then dg_Iface dg \<noteq> '''' \<and> dg_Iface dg \<in> set (dw_Missing w)
      else dw_Requested w \<noteq> '''' \<and> dw_Effective w \<noteq> '''')"

definition waivable :: "build_msg diagnostic \<Rightarrow> bool" where
  "waivable dg \<longleftrightarrow> dg_Severity dg = SeverityError \<and> (dg_Code dg = CodeCapability \<or> dg_Code dg = CodeGuarantee)"

definition first_cover :: "downgrade list \<Rightarrow> build_msg diagnostic \<Rightarrow> (nat \<times> downgrade) option" where
  "first_cover ws dg = (if waivable dg then find (\<lambda>(_, w). waiverCovers w dg) (enumerate 0 ws) else None)"

definition waive :: "downgrade list \<Rightarrow> build_msg diagnostic \<Rightarrow> build_msg diagnostic" where
  "waive ws dg =
     (case first_cover ws dg of
        None \<Rightarrow> dg
      | Some (_, w) \<Rightarrow> dg\<lparr>dg_Severity := SeverityWarning, dg_Hint := dw_Reason w # dg_Hint dg\<rparr>)"

definition waiver_diags :: "build_msg diagnostics \<Rightarrow> downgrade list \<Rightarrow> nat \<times> downgrade \<Rightarrow> build_msg diagnostics" where
  "waiver_diags d ws x =
     (case x of (j, w) \<Rightarrow>
        if dw_Missing w = [] then [nodeDiag (dw_Node w) CodeGuarantee MsgWaiverNamesNothing]
        else if dw_AcknowledgedBy w = '''' \<or> dw_Reason w = '''' then [nodeDiag (dw_Node w) CodeGuarantee MsgWaiverUnsigned]
        else if list_ex (\<lambda>dg. map_option fst (first_cover ws dg) = Some j) d then []
        else [(nodeDiag (dw_Node w) CodeGuarantee (MsgWaiverUnused (dw_Requested w) (dw_Effective w)))\<lparr>dg_Severity := SeverityWarning\<rparr>])"

definition applyWaivers :: "spec \<Rightarrow> build_msg diagnostics \<Rightarrow> build_msg diagnostics" where
  "applyWaivers s d =
     (if ps_Downgrades s = [] then d
      else map (waive (ps_Downgrades s)) d @ concat (map (waiver_diags d (ps_Downgrades s)) (enumerate 0 (ps_Downgrades s))))"

section \<open>The whole negotiation\<close>

definition refusals :: "spec \<Rightarrow> resolved \<Rightarrow> store_caps \<Rightarrow> build_msg diagnostics" where
  "refusals s rv sc =
     refuseOverflow s rv @
     (case Supports (ps_Guarantee s) sc of None \<Rightarrow> [] | Some why \<Rightarrow> Errorf [] CodeGuarantee [] (MsgStoreUnsupported why)) @
     concat (map (\<lambda>(i, src). source_diags s sc i src) (rv_sources rv)) @
     concat (map (\<lambda>(i, sk). sink_diags s rv i sk) (rv_sinks rv)) @
     (if Validate (ps_Retry s) = [] then [] else Errorf [] CodeOutOfRange [FieldRetry] (MsgRetry (Validate (ps_Retry s)))) @
     (if rp_Terminal (ps_Retry s) = TerminalDeadLetter \<and> \<not> hasFailedEdge s
      then Errorf [] CodeGraphInvalid [FieldRetry, ''terminal''] MsgNoFailedEdge else [])"

definition negotiate :: "((node_id \<times> node_contract) list \<Rightarrow> (node_id \<times> node_contract) list) \<Rightarrow> spec \<Rightarrow> resolved \<Rightarrow> store_caps \<Rightarrow>
    build_msg diagnostics \<Rightarrow> negotiated \<times> build_msg diagnostics" where
  "negotiate ord s rv sc d =
     (let nodes = branches s sc rv;
          a = digest_of (ord nodes)
      in (\<lparr>ng_Guarantee = dt_Guarantee a, ng_Nodes = nodes,
            ng_Why = concat (map (\<lambda>(_, src). source_why src) (rv_sources rv)) @
              concat (map (\<lambda>(i, sk). sink_why s sc rv i sk) (rv_sinks rv)) @ buffer_why rv @
              (if dt_weakest a \<noteq> '''' then [WhyWeakest (dt_weakest a) (dt_Guarantee a)] else []) @
              map WhyWaiver (ps_Downgrades s),
            ng_DurabilityEdge = dt_DurabilityEdge a,
            ng_AckPoint = (if dt_AckPoint a = '''' then ''write'' else dt_AckPoint a),
            ng_ReplayBudget = ps_LaneBudget s, ng_Defaults = [], ng_Downgrades = ps_Downgrades s\<rparr>,
          applyWaivers s (d @ refusals s rv sc)))"

end
