(* ===== verification/Canal_Build.thy ===== *)
theory Canal_Build
  imports Canal_Negotiate
begin

text \<open>
  Building a pipeline: \<^verbatim>\<open>internal/engine/build.go\<close> and the codec chains of \<^verbatim>\<open>internal/engine/codec.go\<close>.
  \<^verbatim>\<open>Build\<close> validates the graph, constructs and resolves every component, negotiates, and either refuses with
  all diagnostics, having closed what it constructed, or returns the pipeline.

  Constructing and closing components is the effect of a build: it is recorded as a log of events, in order,
  for the components that have a \<^verbatim>\<open>Close\<close> (framers and compressors have none). The result of registering
  the engine's own metrics is a parameter.
\<close>

section \<open>The codec chain\<close>

definition batches :: "codec_chain option \<Rightarrow> bool" where
  "batches c \<longleftrightarrow> (case c of None \<Rightarrow> False | Some ch \<Rightarrow> ch_framer ch \<noteq> None)"

definition describe :: "codec_chain option \<Rightarrow> string list" where
  "describe c =
     (case c of
        None \<Rightarrow> [''structured (no codec)'']
      | Some ch \<Rightarrow> [ch_contentType ch] @
          (if ch_framer ch = None then [''no framer, so one record per request''] else [''framed'']) @
          (if ch_contentEncoding ch = '''' then [] else [ch_contentEncoding ch]))"

definition producesBytes :: "codec_caps \<Rightarrow> bool" where
  "producesBytes c \<longleftrightarrow> VBytes \<in> set (cd_Produces c)"

definition defaultEncoder :: string where "defaultEncoder = ''json''"

definition anchor :: "node_id \<Rightarrow> cfg_msg diagnostics \<Rightarrow> build_msg diagnostics" where
  "anchor i nd = map (\<lambda>x. \<lparr>dg_Path = dg_Path x, dg_Node = i, dg_Severity = dg_Severity x, dg_Code = dg_Code x,
     dg_Message = MsgConfig (dg_Message x), dg_Hint = dg_Hint x, dg_Iface = dg_Iface x\<rparr>) nd"

type_synonym closer = "node_id \<times> component"

text \<open>
  \<open>cx_built\<close> are the closers \<^verbatim>\<open>resolveCodec\<close> returns, \<open>cx_made\<close> what its constructors returned that has a \<^verbatim>\<open>Close\<close>: the
  encoder. A framer and a compressor have none.
\<close>

record codec_result =
  cx_chain :: "codec_chain option"
  cx_made :: "closer list"
  cx_built :: "closer list"
  cx_notes :: "default_note list"
  cx_diags :: "build_msg diagnostics"

abbreviation codec_fail :: "closer list \<Rightarrow> default_note list \<Rightarrow> build_msg diagnostics \<Rightarrow> codec_result" where
  "codec_fail built notes d \<equiv> \<lparr>cx_chain = None, cx_made = [], cx_built = built, cx_notes = notes, cx_diags = d\<rparr>"

text \<open>The last two stages of \<^verbatim>\<open>resolveCodec\<close>: each is skipped when the settings name no component for it.\<close>

definition attach_compressor :: "std \<Rightarrow> registry \<Rightarrow> node_id \<Rightarrow> codec_ref \<Rightarrow> closer list \<Rightarrow> default_note list \<Rightarrow> build_msg diagnostics \<Rightarrow>
    codec_chain \<Rightarrow> codec_result" where
  "attach_compressor L r node ref built notes d chain =
     (if cr_Compressor ref = '''' then \<lparr>cx_chain = Some chain, cx_made = [], cx_built = built, cx_notes = notes, cx_diags = d\<rparr>
      else case reg_Compressor r (cr_Compressor ref) of
        None \<Rightarrow> codec_fail built notes (d @ [nodeDiag node CodeUnknownComponent (MsgNoCompressor (cr_Compressor ref))])
      | Some ce \<Rightarrow>
          (case cfg_Validate L (Some (en_Spec ce)) (cr_CompressorConfig ref) of
             (cfg, nd) \<Rightarrow>
               let d = d @ anchor node nd in
               if HasErrors nd then codec_fail built notes d
               else case en_New ce cfg of
                 Inl e \<Rightarrow> codec_fail built notes (d @ [nodeDiag node CodeCustom (MsgNotConstructed KindCompressor (cr_Compressor ref) e)])
               | Inr z \<Rightarrow> \<lparr>cx_chain = Some (chain\<lparr>ch_compressor := Some z, ch_contentEncoding := cz_ContentEncoding z\<rparr>),
                   cx_made = [], cx_built = built, cx_notes = notes, cx_diags = d\<rparr>))"

definition attach_framer :: "std \<Rightarrow> registry \<Rightarrow> node_id \<Rightarrow> codec_ref \<Rightarrow> closer list \<Rightarrow> default_note list \<Rightarrow> build_msg diagnostics \<Rightarrow>
    codec_chain \<Rightarrow> codec_result" where
  "attach_framer L r node ref built notes d chain =
     (if cr_Framer ref = '''' then attach_compressor L r node ref built notes d chain
      else case reg_Framer r (cr_Framer ref) of
        None \<Rightarrow> codec_fail built notes (d @ [nodeDiag node CodeUnknownComponent (MsgNoFramer (cr_Framer ref))])
      | Some fe \<Rightarrow>
          (case cfg_Validate L (Some (en_Spec fe)) (cr_FramerConfig ref) of
             (cfg, nd) \<Rightarrow>
               let d = d @ anchor node nd in
               if HasErrors nd then codec_fail built notes d
               else case en_New fe cfg of
                 Inl e \<Rightarrow> codec_fail built notes (d @ [nodeDiag node CodeCustom (MsgNotConstructed KindFramer (cr_Framer ref) e)])
               | Inr f \<Rightarrow> attach_compressor L r node ref built notes d (chain\<lparr>ch_framer := Some f\<rparr>)))"

definition resolveCodec :: "std \<Rightarrow> registry \<Rightarrow> node_id \<Rightarrow> config \<Rightarrow> resolved_sink \<Rightarrow> codec_result" where
  "resolveCodec L r node cfg rk =
     (if si_Structured (rk_Caps rk) then codec_fail [] [] []
      else
        let ref = fst (cfg_Codec cfg [FieldCodec]);
            encName = (if cr_Encoder ref = '''' then defaultEncoder else cr_Encoder ref);
            notes = (if cr_Encoder ref = '''' then [\<lparr>dn_Path = [FieldCodec, ''encoder''], dn_Value = CStr encName, dn_From = ''core default''\<rparr>] else [])
        in case reg_Encoder r encName of
             None \<Rightarrow> codec_fail [] [] [nodeDiag node CodeUnknownComponent (MsgNoEncoder encName)]
           | Some ee \<Rightarrow>
               if \<not> producesBytes (en_Caps ee) then codec_fail [] [] [nodeDiag node CodeCapability (MsgNotBytes encName)]
               else case cfg_Validate L (Some (en_Spec ee)) (cr_EncoderConfig ref) of
                 (encCfg, nd) \<Rightarrow>
                   let d = anchor node nd in
                   if HasErrors nd then codec_fail [] [] d
                   else case en_New ee encCfg of
                     Inl e \<Rightarrow> codec_fail [] [] (d @ [nodeDiag node CodeCustom (MsgNotConstructed KindEncoder encName e)])
                   | Inr enc \<Rightarrow> (attach_framer L r node ref [(node, ec_Component enc)] notes d
                       \<lparr>ch_encoder = enc, ch_framer = None, ch_compressor = None, ch_contentType = ec_ContentType enc, ch_contentEncoding = ''''\<rparr>)
                       \<lparr>cx_made := [(node, ec_Component enc)]\<rparr>)"

section \<open>The deployment\<close>

record deps =
  dp_State :: "store_caps option"
  dp_Worker :: worker_id
  dp_FlushInterval :: duration
  dp_FlushRecords :: int
  dp_GracePeriod :: duration
  dp_ControlInterval :: duration
  dp_ConfigInterval :: duration
  dp_StatusInterval :: duration

definition core_note :: "string list \<Rightarrow> cval \<Rightarrow> default_note" where
  "core_note path v = \<lparr>dn_Path = path, dn_Value = v, dn_From = ''core default''\<rparr>"

definition withDefaults :: "deps \<Rightarrow> deps \<times> default_note list" where
  "withDefaults d =
     (\<lparr>dp_State = dp_State d,
        dp_Worker = (if dp_Worker d = '''' then ''single'' else dp_Worker d),
        dp_FlushInterval = (if dp_FlushInterval d \<le> 0 then second else dp_FlushInterval d),
        dp_FlushRecords = (if dp_FlushRecords d \<le> 0 then 10000 else dp_FlushRecords d),
        dp_GracePeriod = (if dp_GracePeriod d \<le> 0 then 30 * second else dp_GracePeriod d),
        dp_ControlInterval = (if dp_ControlInterval d \<le> 0 then 5 * second else dp_ControlInterval d),
        dp_ConfigInterval = (if dp_ConfigInterval d \<le> 0 then 30 * second else dp_ConfigInterval d),
        dp_StatusInterval = (if dp_StatusInterval d \<le> 0 then 5 * second else dp_StatusInterval d)\<rparr>,
      (if dp_Worker d = '''' then [core_note [''worker''] (CStr ''single'')] else []) @
      (if dp_FlushInterval d \<le> 0 then [core_note [''state'', ''flush_interval''] (CStr ''1s'')] else []) @
      (if dp_FlushRecords d \<le> 0 then [core_note [''state'', ''flush_records''] (CInt 10000)] else []) @
      (if dp_GracePeriod d \<le> 0 then [core_note [''shutdown'', ''grace_period''] (CStr ''30s'')] else []) @
      (if dp_ControlInterval d \<le> 0 then [core_note [''source'', ''control_interval''] (CStr ''5s'')] else []) @
      (if dp_ConfigInterval d \<le> 0 then [core_note [''config'', ''config_interval''] (CStr ''30s'')] else []) @
      (if dp_StatusInterval d \<le> 0 then [core_note [''status'', ''status_interval''] (CStr ''5s'')] else []))"

section \<open>The loop over the nodes\<close>

datatype build_event = Constructed node_id component | Closed node_id component

record build_state =
  bs_diags :: "build_msg diagnostics"
  bs_res :: resolved
  bs_built :: "closer list"
  bs_defaults :: "default_note list"
  bs_log :: "build_event list"

text \<open>
  \<open>bs_log\<close> is what happens outside \<^verbatim>\<open>Build\<close>: a constructor that returns a component, and a component that is closed.
  \<open>bs_built\<close> is the list of closers \<^verbatim>\<open>Build\<close> keeps for itself.
\<close>

definition constructed :: "closer list \<Rightarrow> build_state \<Rightarrow> build_state" where
  "constructed cs st = st\<lparr>bs_log := bs_log st @ map (\<lambda>(i, x). Constructed i x) cs\<rparr>"

definition construct :: "node_id \<Rightarrow> ('c, component) entry \<Rightarrow> config \<Rightarrow> build_state \<Rightarrow> build_state \<times> (err + component)" where
  "construct i e cfg st = (case en_New e cfg of Inl er \<Rightarrow> (st, Inl er) | Inr x \<Rightarrow> (constructed [(i, x)] st, Inr x))"

definition keep_closers :: "closer list \<Rightarrow> build_state \<Rightarrow> build_state" where
  "keep_closers cs st = st\<lparr>bs_built := bs_built st @ cs\<rparr>"

definition add_diags :: "build_msg diagnostics \<Rightarrow> build_state \<Rightarrow> build_state" where
  "add_diags d st = st\<lparr>bs_diags := bs_diags st @ d\<rparr>"

definition add_notes :: "default_note list \<Rightarrow> build_state \<Rightarrow> build_state" where
  "add_notes notes st = st\<lparr>bs_defaults := bs_defaults st @ notes\<rparr>"

definition put_source :: "node_id \<Rightarrow> resolved_source \<Rightarrow> config \<Rightarrow> build_state \<Rightarrow> build_state" where
  "put_source i rs cfg st = st\<lparr>bs_res := (bs_res st)\<lparr>rv_sources := AList.update i rs (rv_sources (bs_res st)),
     rv_configs := AList.update i cfg (rv_configs (bs_res st))\<rparr>\<rparr>"

definition put_sink :: "node_id \<Rightarrow> resolved_sink \<Rightarrow> config \<Rightarrow> build_state \<Rightarrow> build_state" where
  "put_sink i rk cfg st = st\<lparr>bs_res := (bs_res st)\<lparr>rv_sinks := AList.update i rk (rv_sinks (bs_res st)),
     rv_configs := AList.update i cfg (rv_configs (bs_res st))\<rparr>\<rparr>"

definition put_codec :: "node_id \<Rightarrow> codec_chain option \<Rightarrow> build_state \<Rightarrow> build_state" where
  "put_codec i ch st = st\<lparr>bs_res := (bs_res st)\<lparr>rv_codecs := AList.update i ch (rv_codecs (bs_res st))\<rparr>\<rparr>"

definition put_buffer :: "node_id \<Rightarrow> buffer_caps \<Rightarrow> build_state \<Rightarrow> build_state" where
  "put_buffer i c st = st\<lparr>bs_res := (bs_res st)\<lparr>rv_buffers := AList.update i c (rv_buffers (bs_res st))\<rparr>\<rparr>"

definition build_source :: "std \<Rightarrow> registry \<Rightarrow> node \<Rightarrow> build_state \<Rightarrow> build_state" where
  "build_source L r n st =
     (case reg_Source r (nd_Name n) of
        None \<Rightarrow> st
      | Some e \<Rightarrow>
          (case cfg_Validate L (Some (en_Spec e)) (nd_Config n) of
             (cfg, nd) \<Rightarrow>
               let st = add_diags (anchor (nd_ID n) nd) st in
               if HasErrors nd then st
               else case construct (nd_ID n) e cfg st of
                 (st, Inl er) \<Rightarrow> add_diags [nodeDiag (nd_ID n) CodeCustom (MsgNotConstructed KindSource (nd_Name n) er)] st
               | (st, Inr src) \<Rightarrow>
                   let st = keep_closers [(nd_ID n, src)] st in
                   (case ResolveSource (nd_Name n) src (en_Caps e) of
                      (rs, Some er) \<Rightarrow> add_diags [nodeDiag (nd_ID n) CodeCapability (MsgOverDeclared er)] st
                    | (rs, None) \<Rightarrow> put_source (nd_ID n) rs cfg st)))"

definition build_sink :: "std \<Rightarrow> registry \<Rightarrow> node \<Rightarrow> build_state \<Rightarrow> build_state" where
  "build_sink L r n st =
     (case reg_Sink r (nd_Name n) of
        None \<Rightarrow> st
      | Some e \<Rightarrow>
          (case cfg_Validate L (Some (en_Spec e)) (nd_Config n) of
             (cfg, nd) \<Rightarrow>
               let st = add_diags (anchor (nd_ID n) nd) st in
               if HasErrors nd then st
               else case construct (nd_ID n) e cfg st of
                 (st, Inl er) \<Rightarrow> add_diags [nodeDiag (nd_ID n) CodeCustom (MsgNotConstructed KindSink (nd_Name n) er)] st
               | (st, Inr sk) \<Rightarrow>
                   let st = keep_closers [(nd_ID n, sk)] st in
                   (case ResolveSink (nd_Name n) sk (en_Caps e) of
                      (rk, Some er) \<Rightarrow> add_diags [nodeDiag (nd_ID n) CodeCapability (MsgOverDeclared er)] st
                    | (rk, None) \<Rightarrow>
                        let st = put_sink (nd_ID n) rk cfg st;
                            st = (if si_Structured (rk_Caps rk) \<and> cfg_Has cfg [FieldCodec]
                                  then add_diags [nodeDiag (nd_ID n) CodeCapability (MsgStructuredCodec (nd_Name n))] st else st);
                            x = resolveCodec L r (nd_ID n) cfg rk;
                            st = add_diags (cx_diags x) (add_notes (cx_notes x) (keep_closers (cx_built x) (constructed (cx_made x) st)))
                        in if HasErrors (cx_diags x) then st else put_codec (nd_ID n) (cx_chain x) st)))"

definition build_node :: "std \<Rightarrow> registry \<Rightarrow> node \<Rightarrow> build_state \<Rightarrow> build_state" where
  "build_node L r n st =
     (case nd_Kind n of
        KindSource \<Rightarrow> build_source L r n st
      | KindSink \<Rightarrow> build_sink L r n st
      | KindBuffer \<Rightarrow>
          (case reg_Buffer r (nd_Name n) of
             None \<Rightarrow> st
           | Some e \<Rightarrow>
               let nd = snd (cfg_Validate L (Some (en_Spec e)) (nd_Config n)) in
               if HasErrors nd then add_diags (anchor (nd_ID n) nd) st
               else put_buffer (nd_ID n) (en_Caps e) st)
      | KindTransform \<Rightarrow>
          (case reg_Transform r (nd_Name n) of
             None \<Rightarrow> st
           | Some e \<Rightarrow>
               let nd = snd (cfg_Validate L (Some (en_Spec e)) (nd_Config n)) in
               if HasErrors nd then add_diags (anchor (nd_ID n) nd) st else st)
      | k \<Rightarrow> add_diags [nodeDiag (nd_ID n) CodeGraphInvalid (MsgNotANode k)] st)"

definition build_nodes :: "std \<Rightarrow> registry \<Rightarrow> node list \<Rightarrow> build_state \<Rightarrow> build_state" where
  "build_nodes L r ns st = foldl (\<lambda>st n. build_node L r n st) st ns"

section \<open>Closing\<close>

text \<open>\<^verbatim>\<open>closeAll\<close> when no call is outstanding: every component, in reverse order; an error is only logged.\<close>

definition closeAll :: "closer list \<Rightarrow> build_event list" where
  "closeAll cs = map (\<lambda>(i, x). Closed i x) (rev cs)"

section \<open>Executable contracts\<close>

definition ifaceFor :: "string \<Rightarrow> string" where
  "ifaceFor ackPoint =
     (if ackPoint = ''flush'' then ''connector.Flusher''
      else if ackPoint = ''commit'' then ''connector.Committer''
      else if ackPoint = ''token'' then ''connector.TokenSink'' else ''that interface'')"

definition ack_executable :: "string \<Rightarrow> bool" where
  "ack_executable a \<longleftrightarrow> a = ''write'' \<or> a = ''flush'' \<or> a = ''commit''"

definition sorted_nodes :: "negotiated \<Rightarrow> (node_id \<times> node_contract) list" where
  "sorted_nodes n = sort_key fst (ng_Nodes n)"

definition Executable :: "negotiated \<Rightarrow> build_msg option" where
  "Executable n =
     map_option (\<lambda>(i, c). MsgNotExecutable i (nc_AckPoint c) (nc_Guarantee c) (ifaceFor (nc_AckPoint c)))
       (find (\<lambda>(i, c). \<not> ack_executable (nc_AckPoint c)) (sorted_nodes n))"

section \<open>Build\<close>

definition defaultLaneBudget :: int where "defaultLaneBudget = 1000"

record pipeline =
  pl_spec :: spec
  pl_deps :: deps
  pl_sources :: "(node_id \<times> resolved_source) list"
  pl_sinks :: "(node_id \<times> resolved_sink) list"
  pl_codecs :: "(node_id \<times> codec_chain option) list"
  pl_configs :: "(node_id \<times> config) list"
  pl_ledger :: ledger
  pl_negotiated :: negotiated

record build_result =
  bd_Pipeline :: "pipeline option"
  bd_Negotiated :: "negotiated option"
  bd_Diags :: "build_msg diagnostics"
  bd_Log :: "build_event list"

definition refused :: "build_msg diagnostics \<Rightarrow> build_event list \<Rightarrow> build_result" where
  "refused d evs = \<lparr>bd_Pipeline = None, bd_Negotiated = None, bd_Diags = d, bd_Log = evs\<rparr>"

definition empty_state :: "build_msg diagnostics \<Rightarrow> default_note list \<Rightarrow> build_state" where
  "empty_state d notes = \<lparr>bs_diags = d, bs_res = \<lparr>rv_sources = [], rv_sinks = [], rv_buffers = [], rv_codecs = [], rv_configs = []\<rparr>,
     bs_built = [], bs_defaults = notes, bs_log = []\<rparr>"

definition usable_diags :: "resolved \<Rightarrow> build_msg diagnostics" where
  "usable_diags rv =
     (if rv_sources rv = [] then Errorf [] CodeGraphInvalid [] MsgNoSource else []) @
     (if rv_sinks rv = [] then Errorf [] CodeGraphInvalid [] MsgNoSink else [])"

text \<open>What follows a negotiation that refused nothing.\<close>

definition finish_build :: "err option \<Rightarrow> spec \<Rightarrow> deps \<Rightarrow> build_state \<Rightarrow> negotiated \<Rightarrow> build_msg diagnostics \<Rightarrow> build_result" where
  "finish_build metrics s deps st neg d =
     (let d = (case Executable neg of None \<Rightarrow> d | Some msg \<Rightarrow> Warnf d CodeGuarantee [] msg);
          neg = neg\<lparr>ng_Why := ng_Why neg @ map (\<lambda>(i, c). WhyWrites i (describe c)) (sort_key fst (rv_codecs (bs_res st)))\<rparr>;
          budget = (if ps_LaneBudget s \<le> 0 then defaultLaneBudget else ps_LaneBudget s);
          neg = (if ps_LaneBudget s \<le> 0
                 then neg\<lparr>ng_Defaults := ng_Defaults neg @ [core_note [FieldLaneBudget] (CInt budget)], ng_ReplayBudget := budget\<rparr> else neg)
      in case metrics of
           Some e \<Rightarrow> refused (d @ [nodeDiag '''' CodeCustom (MsgMetrics e)]) (bs_log st @ closeAll (bs_built st))
         | None \<Rightarrow>
             \<lparr>bd_Pipeline = Some \<lparr>pl_spec = s\<lparr>ps_LaneBudget := budget\<rparr>, pl_deps = deps, pl_sources = rv_sources (bs_res st),
                pl_sinks = rv_sinks (bs_res st), pl_codecs = rv_codecs (bs_res st), pl_configs = rv_configs (bs_res st),
                pl_ledger = Canal_Ledger.New \<lparr>cfg_Tenant = ps_Tenant s, cfg_Pipeline = ps_ID s, cfg_DefaultBudget = budget, cfg_GroupTTL = 600 * second\<rparr>,
                pl_negotiated = neg\<rparr>,
              bd_Negotiated = Some neg, bd_Diags = d, bd_Log = bs_log st\<rparr>)"

text \<open>What follows the node loop: the two usability checks, negotiation, and refusal or the pipeline.\<close>

definition judge_negotiated :: "err option \<Rightarrow> spec \<Rightarrow> deps \<Rightarrow> build_state \<Rightarrow> negotiated \<times> build_msg diagnostics \<Rightarrow> build_result" where
  "judge_negotiated metrics s deps st x =
     (if HasErrors (snd x) then refused (snd x) (bs_log st @ closeAll (bs_built st))
      else finish_build metrics s deps st ((fst x)\<lparr>ng_Defaults := ng_Defaults (fst x) @ bs_defaults st\<rparr>) (snd x))"

definition judge_build :: "((node_id \<times> node_contract) list \<Rightarrow> (node_id \<times> node_contract) list) \<Rightarrow> err option \<Rightarrow> spec \<Rightarrow> deps \<Rightarrow>
    store_caps \<Rightarrow> build_state \<Rightarrow> build_result" where
  "judge_build ord metrics s deps sc st =
     (if HasErrors (bs_diags st @ usable_diags (bs_res st))
      then refused (bs_diags st @ usable_diags (bs_res st)) (bs_log st @ closeAll (bs_built st))
      else judge_negotiated metrics s deps st (negotiate ord s (bs_res st) sc (bs_diags st @ usable_diags (bs_res st))))"

definition Build :: "std \<Rightarrow> ((node_id \<times> node_contract) list \<Rightarrow> (node_id \<times> node_contract) list) \<Rightarrow> err option \<Rightarrow>
    registry option \<Rightarrow> spec \<Rightarrow> deps \<Rightarrow> build_result option" where
  "Build L ord metrics r s d =
     (case (withDefaults d, r) of
        (_, None) \<Rightarrow> Some (refused (Errorf [] CodeUnknownComponent [] MsgNoRegistry) [])
      | ((deps, notes), Some reg) \<Rightarrow>
          (case dp_State deps of
             None \<Rightarrow> Some (refused (Errorf [] CodeGuarantee [] MsgNoStateStore) [])
           | Some sc \<Rightarrow>
               (case validateGraph reg s of
                  None \<Rightarrow> None
                | Some gd \<Rightarrow>
                    Some (judge_build ord metrics s deps sc (build_nodes L reg (ps_Graph s) (empty_state gd notes))))))"

text \<open>\<^verbatim>\<open>Pipeline.Close\<close>: the components it closes, the sources then the sinks, in reverse.\<close>

definition pipeline_Close :: "pipeline \<Rightarrow> build_event list" where
  "pipeline_Close p = closeAll (map (\<lambda>(i, rs). (i, rs_Source rs)) (pl_sources p) @ map (\<lambda>(i, rk). (i, rk_Sink rk)) (pl_sinks p))"

end
