(* ===== verification/Canal_GraphProps.thy ===== *)
theory Canal_GraphProps
  imports Canal_Graph
begin

text \<open>
  The graph checks are exact: the searches end with the fuel they are given, the first reports a cycle
  exactly when there is one, the second marks exactly what a terminal depends on, and a graph that passes
  all checks is a graph in which every node lies between a source and a sink.
\<close>

section \<open>The three-colour search ends\<close>

lemma visit_white:
  "visit n inp i c = Some (ok, c') \<Longrightarrow> shade c' u = White \<Longrightarrow> shade c u = White"
  "visits n inp us c = Some (ok, c') \<Longrightarrow> shade c' u = White \<Longrightarrow> shade c u = White"
proof (induction n inp i c and n inp us c arbitrary: ok c' and ok c' rule: visit_visits.induct)
  case (2 n inp i c)
  then show ?case by (auto split: colour.splits option.splits if_splits prod.splits)
next
  case (4 n inp u us c)
  then show ?case by (auto split: option.splits if_splits prod.splits)
qed auto

definition whites :: "node_id set \<Rightarrow> colours \<Rightarrow> nat" where
  "whites U c = card {u \<in> U. shade c u = White}"

lemma whites_le: "finite U \<Longrightarrow> (\<And>u. shade c' u = White \<Longrightarrow> shade c u = White) \<Longrightarrow> whites U c' \<le> whites U c"
  unfolding whites_def by (rule card_mono) auto

lemma whites_grey: "finite U \<Longrightarrow> i \<in> U \<Longrightarrow> shade c i = White \<Longrightarrow> whites U (AList.update i Grey c) < whites U c"
  unfolding whites_def by (rule psubset_card_mono) auto

lemma visit_ends:
  assumes "closed_in inp U"
  shows "i \<in> U \<Longrightarrow> whites U c < n \<Longrightarrow> visit n inp i c \<noteq> None"
    and "set us \<subseteq> U \<Longrightarrow> whites U c < n \<Longrightarrow> visits n inp us c \<noteq> None"
proof (induction n arbitrary: i us c)
  case 0
  { case 1 then show ?case by simp next case 2 then show ?case by simp }
next
  case (Suc n)
  have fin: "finite U" and sub: "\<And>i. set (inp i) \<subseteq> U" using assms by (auto simp: closed_in_def)
  have one: "visit (Suc n) inp i c \<noteq> None" if i: "i \<in> U" and w: "whites U c < Suc n" for i c
  proof (cases "shade c i")
    case White
    with whites_grey [OF fin i, of c] w have "whites U (AList.update i Grey c) < n" by simp
    from Suc.IH(2) [OF sub this] White show ?thesis by (auto split: option.splits)
  qed simp_all
  have all: "visits (Suc n) inp us c \<noteq> None" if "set us \<subseteq> U" "whites U c < Suc n" for us c
    using that
  proof (induction us arbitrary: c)
    case (Cons u us)
    from one [of u c] Cons.prems obtain ok c' where v: "visit (Suc n) inp u c = Some (ok, c')" by auto
    have "whites U c' \<le> whites U c" using visit_white(1) [OF v] by (intro whites_le [OF fin]) auto
    with Cons v show ?case by (cases ok) (auto simp del: visit.simps)
  qed simp
  { case 1 then show ?case by (rule one) next case 2 then show ?case by (rule all) }
qed

section \<open>The three-colour search is exact\<close>

text \<open>A visit that succeeds leaves the grey nodes alone, keeps the black ones and blackens its own.\<close>

lemma visit_true:
  "visit n inp i c = Some (True, c') \<Longrightarrow>
     (\<forall>u. shade c' u = Grey \<longleftrightarrow> shade c u = Grey) \<and> (\<forall>u. shade c u = Black \<longrightarrow> shade c' u = Black) \<and> shade c' i = Black"
  "visits n inp us c = Some (True, c') \<Longrightarrow>
     (\<forall>u. shade c' u = Grey \<longleftrightarrow> shade c u = Grey) \<and> (\<forall>u. shade c u = Black \<longrightarrow> shade c' u = Black) \<and>
     (\<forall>u\<in>set us. shade c' u = Black)"
proof (induction n inp i c and n inp us c arbitrary: c' and c' rule: visit_visits.induct)
  case (2 n inp i c)
  show ?case
  proof (cases "shade c i")
    case White
    with "2.prems" obtain c1 where v: "visits n inp (inp i) (AList.update i Grey c) = Some (True, c1)"
      and c': "c' = AList.update i Black c1"
      by (auto split: option.splits if_splits prod.splits)
    from "2.IH" [OF White v] White show ?thesis unfolding c' by (auto split: if_splits)
  qed (use "2.prems" in auto)
next
  case (4 n inp u us c)
  from "4.prems" obtain c1 where v: "visit n inp u c = Some (True, c1)" "visits n inp us c1 = Some (True, c')"
    by (auto split: option.splits if_splits prod.splits)
  from "4.IH"(1) [OF v(1)] "4.IH"(2) [OF v(1) refl TrueI v(2)] show ?case by auto
qed auto

text \<open>The nodes below a node: those it is built from, directly or not.\<close>

definition greys_above :: "inputs \<Rightarrow> colours \<Rightarrow> node_id \<Rightarrow> bool" where
  "greys_above inp c i \<longleftrightarrow> (\<forall>g. shade c g = Grey \<longrightarrow> (g, i) \<in> (takes inp)\<^sup>+)"

lemma visit_false_cycle:
  "visit n inp i c = Some (False, c') \<Longrightarrow> greys_above inp c i \<Longrightarrow> \<exists>x. (i, x) \<in> (takes inp)\<^sup>* \<and> (x, x) \<in> (takes inp)\<^sup>+"
  "visits n inp us c = Some (False, c') \<Longrightarrow> (\<And>u. u \<in> set us \<Longrightarrow> greys_above inp c u) \<Longrightarrow>
     \<exists>u\<in>set us. \<exists>x. (u, x) \<in> (takes inp)\<^sup>* \<and> (x, x) \<in> (takes inp)\<^sup>+"
proof (induction n inp i c and n inp us c arbitrary: c' and c' rule: visit_visits.induct)
  case (2 n inp i c)
  show ?case
  proof (cases "shade c i")
    case Grey
    with "2.prems"(2) show ?thesis by (auto simp: greys_above_def)
  next
    case White
    with "2.prems"(1) obtain c1 where v: "visits n inp (inp i) (AList.update i Grey c) = Some (False, c1)"
      by (auto split: option.splits if_splits prod.splits)
    have "greys_above inp (AList.update i Grey c) u" if "u \<in> set (inp i)" for u
      using "2.prems"(2) that by (auto simp: greys_above_def intro: trancl_into_trancl r_into_trancl)
    from "2.IH" [OF White v this] obtain u x where "u \<in> set (inp i)" "(u, x) \<in> (takes inp)\<^sup>*" "(x, x) \<in> (takes inp)\<^sup>+"
      by blast
    then show ?thesis by (meson converse_rtrancl_into_rtrancl takes_iff)
  next
    case Black
    with "2.prems"(1) show ?thesis by simp
  qed
next
  case (4 n inp u us c)
  from "4.prems"(1) obtain ok c1 where v: "visit n inp u c = Some (ok, c1)" by (auto split: option.splits)
  show ?case
  proof (cases ok)
    case False
    with "4.IH"(1) [of c1] v "4.prems"(2) show ?thesis by auto
  next
    case True
    with v have v: "visit n inp u c = Some (True, c1)" by simp
    with "4.prems"(1) have w: "visits n inp us c1 = Some (False, c')" by simp
    have "greys_above inp c1 u'" if "u' \<in> set us" for u'
      using visit_true(1) [OF v] "4.prems"(2) [of u'] that by (auto simp: greys_above_def)
    from "4.IH"(2) [OF v refl TrueI w this] show ?thesis by auto
  qed
qed auto

definition black_ok :: "inputs \<Rightarrow> colours \<Rightarrow> bool" where
  "black_ok inp c \<longleftrightarrow> (\<forall>b. shade c b = Black \<longrightarrow> (\<forall>u\<in>set (inp b). shade c u = Black) \<and> (b, b) \<notin> (takes inp)\<^sup>+)"

lemma black_closed:
  assumes "black_ok inp c" and "shade c b = Black" and "(b, x) \<in> (takes inp)\<^sup>*"
  shows "shade c x = Black"
  using assms(3,2) by (induction rule: rtrancl_induct) (use assms(1) in \<open>auto simp: black_ok_def\<close>)

lemma black_ok_step:
  assumes "black_ok inp c" and "shade c i \<noteq> Black" and "\<And>u. u \<in> set (inp i) \<Longrightarrow> shade c u = Black"
  shows "black_ok inp (AList.update i Black c)"
proof -
  have "(i, i) \<notin> (takes inp)\<^sup>+"
  proof
    assume "(i, i) \<in> (takes inp)\<^sup>+"
    then obtain u where "u \<in> set (inp i)" "(u, i) \<in> (takes inp)\<^sup>*" by (auto dest: tranclD)
    with black_closed [OF assms(1) assms(3)] assms(2) show False by blast
  qed
  with assms show ?thesis by (auto simp: black_ok_def)
qed

lemma visit_black_ok:
  "visit n inp i c = Some (True, c') \<Longrightarrow> black_ok inp c \<Longrightarrow> black_ok inp c'"
  "visits n inp us c = Some (True, c') \<Longrightarrow> black_ok inp c \<Longrightarrow> black_ok inp c'"
proof (induction n inp i c and n inp us c arbitrary: c' and c' rule: visit_visits.induct)
  case (2 n inp i c)
  show ?case
  proof (cases "shade c i")
    case White
    with "2.prems"(1) obtain c1 where v: "visits n inp (inp i) (AList.update i Grey c) = Some (True, c1)"
      and c': "c' = AList.update i Black c1"
      by (auto split: option.splits if_splits prod.splits)
    have "black_ok inp (AList.update i Grey c)" using "2.prems"(2) White by (auto simp: black_ok_def)
    from "2.IH" [OF White v this] have "black_ok inp c1" .
    moreover have "shade c1 i = Grey" using visit_true(2) [OF v] by auto
    moreover have "shade c1 u = Black" if "u \<in> set (inp i)" for u using visit_true(2) [OF v] that by blast
    ultimately show ?thesis unfolding c' by (intro black_ok_step) auto
  qed (use "2.prems" in auto)
next
  case (4 n inp u us c)
  from "4.prems"(1) obtain c1 where v: "visit n inp u c = Some (True, c1)" "visits n inp us c1 = Some (True, c')"
    by (auto split: option.splits if_splits prod.splits)
  from "4.IH"(2) [OF v(1) refl TrueI v(2) "4.IH"(1) [OF v(1) "4.prems"(2)]] show ?case .
qed auto

lemma acyclic_loop_exact:
  assumes "closed_in inp U" and "set is \<subseteq> U" and "whites U c < n" and "black_ok inp c" and "\<And>g. shade c g \<noteq> Grey"
  shows "\<exists>r. acyclic_loop n inp is c = Some r \<and>
    (case r of
       None \<Rightarrow> \<forall>i\<in>set is. (i, i) \<notin> (takes inp)\<^sup>+
     | Some i \<Rightarrow> i \<in> set is \<and> (\<exists>x. (i, x) \<in> (takes inp)\<^sup>* \<and> (x, x) \<in> (takes inp)\<^sup>+))"
  using assms(2-)
proof (induction "is" arbitrary: c)
  case (Cons i "is")
  from visit_ends(1) [OF assms(1), of i c n] Cons.prems obtain ok c' where v: "visit n inp i c = Some (ok, c')" by auto
  show ?case
  proof (cases ok)
    case False
    then have "visit n inp i c = Some (False, c')" using v by simp
    from visit_false_cycle(1) [OF this] Cons.prems(4) v False show ?thesis by (auto simp: greys_above_def)
  next
    case True
    with v have v: "visit n inp i c = Some (True, c')" by simp
    have bl: "black_ok inp c'" by (rule visit_black_ok(1) [OF v Cons.prems(3)])
    have "whites U c' \<le> whites U c"
      using assms(1) visit_white(1) [OF v] by (intro whites_le) (auto simp: closed_in_def)
    then have "whites U c' < n" using Cons.prems(2) by simp
    moreover have "\<And>g. shade c' g \<noteq> Grey" using visit_true(1) [OF v] Cons.prems(4) by auto
    ultimately obtain r where r: "acyclic_loop n inp is c' = Some r"
      "case r of None \<Rightarrow> \<forall>i\<in>set is. (i, i) \<notin> (takes inp)\<^sup>+
        | Some i \<Rightarrow> i \<in> set is \<and> (\<exists>x. (i, x) \<in> (takes inp)\<^sup>* \<and> (x, x) \<in> (takes inp)\<^sup>+)"
      using Cons.IH [of c'] Cons.prems(1) bl by auto
    have "(i, i) \<notin> (takes inp)\<^sup>+" using visit_true(1) [OF v] bl by (auto simp: black_ok_def)
    with r v show ?thesis by (auto split: option.splits)
  qed
qed auto

section \<open>The backward walk is exact\<close>

lemma walk_spec:
  "walk_up n inp i R = Some R' \<Longrightarrow> set R \<subseteq> set R' \<and> i \<in> set R' \<and> set R' \<subseteq> set R \<union> (takes inp)\<^sup>* `` {i} \<and>
     (\<forall>x\<in>set R' - set R. set (inp x) \<subseteq> set R')"
  "walks_up n inp us R = Some R' \<Longrightarrow> set R \<subseteq> set R' \<and> set us \<subseteq> set R' \<and> set R' \<subseteq> set R \<union> (takes inp)\<^sup>* `` set us \<and>
     (\<forall>x\<in>set R' - set R. set (inp x) \<subseteq> set R')"
proof (induction n inp i R and n inp us R arbitrary: R' and R' rule: walk_up_walks_up.induct)
  case (2 n inp i R)
  show ?case
  proof (cases "i \<in> set R")
    case False
    with "2.prems" have w: "walks_up n inp (inp i) (i # R) = Some R'" by simp
    have sub: "(takes inp)\<^sup>* `` set (inp i) \<subseteq> (takes inp)\<^sup>* `` {i}" by (auto intro: converse_rtrancl_into_rtrancl)
    from "2.IH" [OF False w] sub show ?thesis by (auto 0 3)
  qed (use "2.prems" in auto)
next
  case (4 n inp u us R)
  from "4.prems" obtain R1 where w: "walk_up n inp u R = Some R1" "walks_up n inp us R1 = Some R'"
    by (auto split: option.splits)
  note one = "4.IH"(1) [OF w(1)] and rest = "4.IH"(2) [OF w]
  have "set (inp x) \<subseteq> set R'" if "x \<in> set R' - set R" for x
    using one rest that by (cases "x \<in> set R1") blast+
  moreover have "(takes inp)\<^sup>* `` set (u # us) = (takes inp)\<^sup>* `` {u} \<union> (takes inp)\<^sup>* `` set us" by auto
  then have "set R' \<subseteq> set R \<union> (takes inp)\<^sup>* `` set (u # us)" using one rest by blast
  ultimately show ?case using one rest by auto
qed auto

lemma walk_ends:
  assumes "closed_in inp U"
  shows "i \<in> U \<Longrightarrow> card (U - set R) < n \<Longrightarrow> walk_up n inp i R \<noteq> None"
    and "set us \<subseteq> U \<Longrightarrow> card (U - set R) < n \<Longrightarrow> walks_up n inp us R \<noteq> None"
proof (induction n arbitrary: i us R)
  case 0
  { case 1 then show ?case by simp next case 2 then show ?case by simp }
next
  case (Suc n)
  have fin: "finite U" and sub: "\<And>i. set (inp i) \<subseteq> U" using assms by (auto simp: closed_in_def)
  have one: "walk_up (Suc n) inp i R \<noteq> None" if "i \<in> U" "card (U - set R) < Suc n" for i R
  proof (cases "i \<in> set R")
    case False
    have "card (U - set (i # R)) < card (U - set R)" using fin False that(1) by (intro psubset_card_mono) auto
    with that(2) have "card (U - set (i # R)) < n" by simp
    from Suc.IH(2) [OF sub this] False show ?thesis by simp
  qed simp
  have all: "walks_up (Suc n) inp us R \<noteq> None" if "set us \<subseteq> U" "card (U - set R) < Suc n" for us R
    using that
  proof (induction us arbitrary: R)
    case (Cons u us)
    from one [of u R] Cons.prems obtain R' where w: "walk_up (Suc n) inp u R = Some R'" by auto
    have "card (U - set R') \<le> card (U - set R)" using walk_spec(1) [OF w] fin by (intro card_mono) auto
    with Cons w show ?case by (auto simp del: walk_up.simps)
  qed simp
  { case 1 then show ?case by (rule one) next case 2 then show ?case by (rule all) }
qed

lemma closed_rtrancl:
  assumes "\<And>x. x \<in> A \<Longrightarrow> set (inp x) \<subseteq> A" and "(x, y) \<in> (takes inp)\<^sup>*" and "x \<in> A"
  shows "y \<in> A"
  using assms(2,3) by (induction rule: rtrancl_induct) (use assms(1) in auto)

lemma walks_from_scratch:
  assumes "walks_up n inp us [] = Some R"
  shows "set R = (takes inp)\<^sup>* `` set us"
proof
  note sp = walk_spec(2) [OF assms]
  show "set R \<subseteq> (takes inp)\<^sup>* `` set us" using sp by auto
  have "\<And>x. x \<in> set R \<Longrightarrow> set (inp x) \<subseteq> set R" using sp by simp
  then have step: "(x, y) \<in> (takes inp)\<^sup>* \<Longrightarrow> x \<in> set R \<Longrightarrow> y \<in> set R" for x y
    using closed_rtrancl [of "set R" inp x y] by blast
  show "(takes inp)\<^sup>* `` set us \<subseteq> set R"
  proof
    fix y assume "y \<in> (takes inp)\<^sup>* `` set us"
    then obtain x where "x \<in> set us" "(x, y) \<in> (takes inp)\<^sup>*" by blast
    moreover from this(1) sp have "x \<in> set R" by blast
    ultimately show "y \<in> set R" using step by blast
  qed
qed

section \<open>The two checks\<close>

lemma Terminals_names: "set (Terminals s) \<subseteq> set (names s)"
  by (auto simp: Terminals_def names_def)

lemma whites_start: "whites (set (names s)) [] < Suc (length (names s))"
  by (simp add: whites_def less_Suc_eq_le card_length)

lemma checkAcyclic_exact:
  obtains (acyclic) "checkAcyclic s = Some []" "acyclic (takes (inputs_of s))"
  | (cyclic) i x where "checkAcyclic s = Some [nodeDiag i CodeGraphInvalid (MsgCycle i)]"
      "(i, x) \<in> (takes (inputs_of s))\<^sup>*" "(x, x) \<in> (takes (inputs_of s))\<^sup>+" "i \<in> set (map nd_ID (ps_Graph s))"
proof -
  have "black_ok (inputs_of s) []" and "\<And>g. shade [] g \<noteq> Grey" by (auto simp: black_ok_def)
  then obtain r where r: "acyclic_loop (Suc (length (names s))) (inputs_of s) (map nd_ID (ps_Graph s)) [] = Some r"
    "case r of None \<Rightarrow> \<forall>i\<in>set (map nd_ID (ps_Graph s)). (i, i) \<notin> (takes (inputs_of s))\<^sup>+
     | Some i \<Rightarrow> i \<in> set (map nd_ID (ps_Graph s)) \<and>
        (\<exists>x. (i, x) \<in> (takes (inputs_of s))\<^sup>* \<and> (x, x) \<in> (takes (inputs_of s))\<^sup>+)"
    using acyclic_loop_exact [OF names_closed, of "map nd_ID (ps_Graph s)" s "[]" "Suc (length (names s))"] whites_start [of s]
    by (auto simp: names_def)
  show thesis
  proof (cases r)
    case None
    have "(i, i) \<notin> (takes (inputs_of s))\<^sup>+" for i
    proof
      assume cyc: "(i, i) \<in> (takes (inputs_of s))\<^sup>+"
      then obtain j where "j \<in> set (inputs_of s i)" by (auto dest: tranclD)
      with r(2) None cyc show False by (auto simp: inputs_of_mem)
    qed
    with None r(1) show thesis by (auto simp: checkAcyclic_def acyclic_def intro: acyclic)
  next
    case (Some i)
    with r show thesis by (auto simp: checkAcyclic_def intro: cyclic)
  qed
qed

lemma checkReachable_exact:
  "checkReachable s = Some (concat (map (\<lambda>n. if nd_ID n \<in> (takes (inputs_of s))\<^sup>* `` set (Terminals s) then []
     else [nodeDiag (nd_ID n) CodeUnreachable (MsgUnreachable (nd_ID n))]) (ps_Graph s)))"
proof -
  have "card (set (names s) - set []) < Suc (length (names s))" by (simp add: less_Suc_eq_le card_length)
  from walk_ends(2) [OF names_closed Terminals_names this] obtain R where
    R: "walks_up (Suc (length (names s))) (inputs_of s) (Terminals s) [] = Some R" by blast
  with walks_from_scratch [OF R] show ?thesis by (simp add: checkReachable_def)
qed

lemma takes_finite: "finite (takes (inputs_of s))"
  by (rule finite_subset [of _ "set (names s) \<times> set (names s)"]) (auto simp: inputs_of_mem names_def)

text \<open>In a graph without cycles every node is below a terminal one.\<close>

lemma below_a_terminal:
  assumes "acyclic (takes (inputs_of s))" and "i \<in> set (map nd_ID (ps_Graph s))"
  shows "\<exists>t\<in>set (Terminals s). (t, i) \<in> (takes (inputs_of s))\<^sup>*"
proof -
  have "wf (takes (inputs_of s))" by (rule finite_acyclic_wf [OF takes_finite assms(1)])
  then show ?thesis using assms(2)
  proof (induction i rule: wf_induct_rule)
    case (less i)
    show ?case
    proof (cases "i \<in> feeds s")
      case False
      with less.prems show ?thesis by (auto simp: Terminals_def)
    next
      case True
      then obtain n where n: "n \<in> set (ps_Graph s)" "i \<in> ed_From ` set (nd_Inputs n)" by (auto simp: feeds_def)
      then have step: "(nd_ID n, i) \<in> takes (inputs_of s)" by (auto simp: inputs_of_mem)
      from less.IH [OF step] n(1) obtain t where "t \<in> set (Terminals s)" "(t, nd_ID n) \<in> (takes (inputs_of s))\<^sup>*" by auto
      with step show ?thesis by (meson rtrancl.rtrancl_into_rtrancl)
    qed
  qed
qed

lemma checkReachable_silent: "acyclic (takes (inputs_of s)) \<Longrightarrow> checkReachable s = Some []"
  unfolding checkReachable_exact using below_a_terminal [of s] by (auto simp: concat_eq_Nil_conv)

text \<open>And above one that takes nothing.\<close>

lemma above_a_root:
  assumes "acyclic (takes (inputs_of s))"
  shows "\<exists>r. (i, r) \<in> (takes (inputs_of s))\<^sup>* \<and> inputs_of s r = []"
proof -
  have "wf ((takes (inputs_of s))\<inverse>)" by (rule finite_acyclic_wf_converse [OF takes_finite assms])
  then show ?thesis
  proof (induction i rule: wf_induct_rule)
    case (less i)
    show ?case
    proof (cases "inputs_of s i")
      case (Cons j js)
      with less.IH [of j] obtain r where "(j, r) \<in> (takes (inputs_of s))\<^sup>*" "inputs_of s r = []" by auto
      moreover have "(i, j) \<in> takes (inputs_of s)" using Cons by simp
      ultimately show ?thesis by (blast intro: converse_rtrancl_into_rtrancl)
    qed auto
  qed
qed

section \<open>A graph with no diagnostic\<close>

lemma id_diags_ok:
  "\<not> HasErrors (id_diags pos seen ns) \<Longrightarrow>
     '''' \<notin> set (map nd_ID ns) \<and> distinct (map nd_ID ns) \<and> set (map nd_ID ns) \<inter> set seen = {}"
  by (induction pos seen ns rule: id_diags.induct) (auto split: if_splits)

definition graph_ids :: "spec \<Rightarrow> node_id set" where
  "graph_ids s = set (map nd_ID (ps_Graph s))"

lemma validateGraph_total: "\<exists>d. validateGraph r s = Some d"
  by (cases rule: checkAcyclic_exact [of s]) (auto simp: validateGraph_def Let_def checkReachable_exact)

lemma validateGraph_parts:
  assumes "validateGraph r s = Some d" and "\<not> HasErrors d"
  shows "'''' \<notin> graph_ids s" "distinct (map nd_ID (ps_Graph s))" "acyclic (takes (inputs_of s))"
    "\<And>n. n \<in> set (ps_Graph s) \<Longrightarrow> \<not> HasErrors (node_diags r s (graph_ids s) n)"
    "\<And>t. t \<in> set (Terminals s) \<Longrightarrow> \<not> HasErrors (terminal_diags s t)"
proof -
  obtain cyc unr where d: "checkAcyclic s = Some cyc"
    "d = id_diags 0 [] (ps_Graph s) @ concat (map (node_diags r s {i \<in> graph_ids s. i \<noteq> ''''}) (ps_Graph s)) @
       concat (map (terminal_diags s) (Terminals s)) @ cyc @ unr"
    using assms by (auto simp: validateGraph_def Let_def graph_ids_def split: if_splits option.splits)
  have err: "\<not> HasErrors (id_diags 0 [] (ps_Graph s))" "\<not> HasErrors cyc"
    "\<not> HasErrors (concat (map (node_diags r s {i \<in> graph_ids s. i \<noteq> ''''}) (ps_Graph s)))"
    "\<not> HasErrors (concat (map (terminal_diags s) (Terminals s)))"
    using assms(2) unfolding d(2) by (simp_all add: d(2))
  show ids: "'''' \<notin> graph_ids s" "distinct (map nd_ID (ps_Graph s))" using id_diags_ok [OF err(1)] by (auto simp: graph_ids_def)
  have "{i \<in> graph_ids s. i \<noteq> ''''} = graph_ids s" using ids(1) by auto
  then show "\<And>n. n \<in> set (ps_Graph s) \<Longrightarrow> \<not> HasErrors (node_diags r s (graph_ids s) n)" using err(3) by auto
  show "\<And>t. t \<in> set (Terminals s) \<Longrightarrow> \<not> HasErrors (terminal_diags s t)" using err(4) by auto
  show "acyclic (takes (inputs_of s))" by (cases rule: checkAcyclic_exact [of s]) (use d(1) err(2) in auto)
qed

lemma node_diags_ok:
  assumes "\<not> HasErrors (node_diags r s ids n)"
  shows "reg_Has r (nd_Kind n) (nd_Name n)" "ed_From ` set (nd_Inputs n) \<subseteq> ids"
    "nd_Inputs n = [] \<longleftrightarrow> nd_Kind n = KindSource"
  using assms by (auto simp: node_diags_def input_diags_def arity_diags_def Produces_def split: if_splits)

lemma spec_Node_exists: "i \<in> graph_ids s \<Longrightarrow> \<exists>n. spec_Node s i = Some n"
  by (cases "spec_Node s i") (auto simp: spec_Node_def graph_ids_def find_None_iff)

lemma takes_within:
  assumes "\<And>n. n \<in> set (ps_Graph s) \<Longrightarrow> ed_From ` set (nd_Inputs n) \<subseteq> graph_ids s"
    and "(i, j) \<in> (takes (inputs_of s))\<^sup>*" and "i \<in> graph_ids s"
  shows "j \<in> graph_ids s"
  using assms(2,3) by (induction rule: rtrancl_induct) (use assms(1) in \<open>auto simp: inputs_of_mem\<close>)

section \<open>Properties\<close>

text \<open>
  C31: The cycle check ends on every graph and is exact: it reports exactly when the graph has a cycle. The
  node it names is one that depends on the cycle, not necessarily one on it.
\<close>
theorem cycle_check_is_exact:
  "\<exists>d. checkAcyclic s = Some d \<and> (d = [] \<longleftrightarrow> acyclic (takes (inputs_of s))) \<and>
    dg_Message ` set d \<subseteq> {MsgCycle i |i y. (i, y) \<in> (takes (inputs_of s))\<^sup>* \<and> (y, y) \<in> (takes (inputs_of s))\<^sup>+}"
  by (cases rule: checkAcyclic_exact [of s]) (auto simp: acyclic_def)

text \<open>
  C30: A topology that passes validation is sound. Validation always answers; where it reports no error the
  node ids are distinct and not empty, every component is registered, the graph has no cycle, and every node
  lies between a source it is fed by and a terminal sink that depends on it, so no record can be read that
  has nowhere to go and no sink waits on nothing.
\<close>
theorem accepted_graph_is_sound:
  assumes "validateGraph r s = Some d" and "\<not> HasErrors d" and "n \<in> set (ps_Graph s)"
  shows "nd_ID n \<noteq> '''' \<and> spec_Node s (nd_ID n) = Some n \<and> reg_Has r (nd_Kind n) (nd_Name n) \<and> acyclic (takes (inputs_of s)) \<and>
    (\<exists>src snk. nd_Kind src = KindSource \<and> spec_Node s (nd_ID src) = Some src \<and> (nd_ID n, nd_ID src) \<in> (takes (inputs_of s))\<^sup>* \<and>
       nd_Kind snk = KindSink \<and> nd_ID snk \<in> set (Terminals s) \<and> spec_Node s (nd_ID snk) = Some snk \<and>
       (nd_ID snk, nd_ID n) \<in> (takes (inputs_of s))\<^sup>*)"
proof -
  note ok = validateGraph_parts [OF assms(1,2)]
  have within: "\<And>m. m \<in> set (ps_Graph s) \<Longrightarrow> ed_From ` set (nd_Inputs m) \<subseteq> graph_ids s"
    by (rule node_diags_ok(2) [OF ok(4)])
  have n: "nd_ID n \<in> graph_ids s" using assms(3) by (simp add: graph_ids_def)
  have lookup: "spec_Node s (nd_ID m) = Some m" if "m \<in> set (ps_Graph s)" for m
  proof -
    have "nd_ID m \<in> graph_ids s" using that by (simp add: graph_ids_def)
    from spec_Node_exists [OF this] obtain m' where "spec_Node s (nd_ID m) = Some m'" by blast
    with spec_Node_Some [OF this] ok(2) that show ?thesis by (auto simp: distinct_map inj_on_def)
  qed
  obtain r0 where r0: "(nd_ID n, r0) \<in> (takes (inputs_of s))\<^sup>*" "inputs_of s r0 = []"
    using above_a_root [OF ok(3)] by blast
  from spec_Node_exists [OF takes_within [OF within r0(1) n]] obtain src where
    "spec_Node s r0 = Some src" by blast
  with spec_Node_Some [OF this] have src: "src \<in> set (ps_Graph s)" "nd_ID src = r0" by auto
  have "nd_Inputs src = []" using r0(2) src by (auto simp: inputs_of_def)
  with node_diags_ok(3) [OF ok(4) [OF src(1)]] have "nd_Kind src = KindSource" by simp
  moreover from below_a_terminal [OF ok(3)] n obtain t where t: "t \<in> set (Terminals s)" "(t, nd_ID n) \<in> (takes (inputs_of s))\<^sup>*"
    by (auto simp: graph_ids_def)
  moreover from t(1) have "t \<in> graph_ids s" by (auto simp: Terminals_def graph_ids_def)
  from spec_Node_exists [OF this] obtain snk where snk: "spec_Node s t = Some snk" by blast
  with ok(5) [OF t(1)] spec_Node_Some [OF snk] have "nd_Kind snk = KindSink" "nd_ID snk = t"
    by (auto simp: terminal_diags_def Consumes_def split: if_splits)
  ultimately show ?thesis
    using ok(1,3) n lookup [OF assms(3)] lookup [OF src(1)] src(2) r0(1) snk node_diags_ok(1) [OF ok(4) [OF assms(3)]] by metis
qed

text \<open>The witness: a source feeding a sink.\<close>

definition entry_of :: "'c \<Rightarrow> ('c, 'x) entry" where
  "entry_of c = \<lparr>en_Meta = meta0, en_Spec = NewCfgSpec, en_Caps = c, en_New = (\<lambda>_. Inl (Plain ''x'')), en_Report = [], en_Warnings = []\<rparr>"

definition source_caps0 :: source_caps where
  "source_caps0 = \<lparr>cp_APIVersion = 1, cp_Unknown = [], so_DefaultOrdering = OrderingPrefix, so_Boundedness = [Bounded],
     so_LaneKinds = [LaneKindScan], so_MaxLanes = 0, so_UpstreamRetention = RetentionUnbounded, so_ReplayWindow = 0,
     so_UnitAssignment = UnitsStatic, so_Discoverable = False, so_Nackable = False, so_ReportsBacklog = False,
     so_Heartbeats = False, so_Validates = False, so_Probes = False, so_Choices = False, so_AdoptsState = False,
     so_ReadsLanes = False, so_ReadConcurrency = 0, so_ProducesEventTime = False, so_ProducesChange = False,
     so_ProducesSchema = False, so_CompleteImages = False, so_ComparablePositions = False, so_Replayable = True,
     so_RedeliversUnacked = False, so_StableKeys = False, so_MidLaneResume = False\<rparr>"

definition registry0 :: registry where
  "registry0 = NewRegistry\<lparr>rg_sources := [(''table'', entry_of source_caps0)], rg_sinks := [(''file'', entry_of sink_caps0)]\<rparr>"

definition node_of :: "node_id \<Rightarrow> kind \<Rightarrow> string \<Rightarrow> edge list \<Rightarrow> node" where
  "node_of i k name ins = \<lparr>nd_ID = i, nd_Kind = k, nd_Name = name, nd_Label = '''', nd_Config = [], nd_Inputs = ins,
     nd_Guarantee = None, nd_Cadence = None\<rparr>"

definition main_edge :: "node_id \<Rightarrow> edge" where
  "main_edge i = \<lparr>ed_From = i, ed_Select = EdgeMain, ed_BestEffort = False\<rparr>"

definition spec0 :: spec where
  "spec0 = \<lparr>ps_Tenant = ''t'', ps_ID = ''p'', ps_Revision = 1, ps_Title = '''',
     ps_Graph = [node_of ''in'' KindSource ''table'' [], node_of ''out'' KindSink ''file'' [main_edge ''in'']],
     ps_Guarantee = AtLeastOnce, ps_Retry = DefaultRetry, ps_WhenFull = WhenFullBlock, ps_LaneBudget = 0,
     ps_Drift = DriftLenient, ps_Clock = \<lparr>cl_MaxSkew = 0, cl_Behaviour = ClockClamp\<rparr>, ps_Parallelism = 0,
     ps_Streams = [], ps_Downgrades = []\<rparr>"

theorem accepted_graph_is_sound_witness:
  "\<exists>src :: node. nd_Kind src = KindSource \<and> (''out'', nd_ID src) \<in> (takes (inputs_of spec0))\<^sup>* \<and> acyclic (takes (inputs_of spec0))"
proof -
  have "validateGraph registry0 spec0 = Some []" by code_simp
  moreover have "node_of ''out'' KindSink ''file'' [main_edge ''in''] \<in> set (ps_Graph spec0)" by (simp add: spec0_def)
  ultimately show ?thesis
    using accepted_graph_is_sound [of registry0 spec0 "[]" "node_of ''out'' KindSink ''file'' [main_edge ''in'']"]
    by (auto simp: node_of_def)
qed

end
