(* ===== verification/Canal_NegotiateProps.thy ===== *)
theory Canal_NegotiateProps
  imports Canal_Negotiate Canal_GraphProps
begin

text \<open>
  What negotiation promises. The tiers are a linear order, so the clamps of the code are minima; the tier of
  a branch is characterised by what each tier demands of the sources, the sink and the store, independently
  of the order in which the code clamps. The properties then state the headline, the waivers, and three
  places where the code departs from its own design record.
\<close>

section \<open>The tiers as a linear order\<close>

lemma guarantee_rank_inj: "guarantee_rank g = guarantee_rank h \<Longrightarrow> g = h"
  by (cases g; cases h) auto

instantiation guarantee :: linorder
begin

definition less_eq_guarantee :: "guarantee \<Rightarrow> guarantee \<Rightarrow> bool" where
  "less_eq_guarantee g h \<longleftrightarrow> guarantee_rank g \<le> guarantee_rank h"

definition less_guarantee :: "guarantee \<Rightarrow> guarantee \<Rightarrow> bool" where
  "less_guarantee g h \<longleftrightarrow> guarantee_rank g < guarantee_rank h"

instance
  by standard (auto simp: less_eq_guarantee_def less_guarantee_def guarantee_rank_inj)

end

lemmas tier_order = less_eq_guarantee_def less_guarantee_def

lemma guarantee_Min_min: "guarantee_Min g h = min g h"
  by (auto simp: guarantee_Min_def min_def tier_order guarantee_rank_inj)

lemma tier_bounds [simp]: "AtMostOnce \<le> g" "g \<le> ExactlyOnce" "ExactlyOnce \<le> g \<longleftrightarrow> g = ExactlyOnce" "g \<le> AtMostOnce \<longleftrightarrow> g = AtMostOnce"
  by (cases g; simp add: tier_order)+

lemma tier_levels: "AtLeastOnce \<le> g \<longleftrightarrow> g \<noteq> AtMostOnce" "EffectivelyOnce \<le> g \<longleftrightarrow> g = EffectivelyOnce \<or> g = ExactlyOnce"
  by (cases g; simp add: tier_order)+

section \<open>The ceilings\<close>

definition source_max :: "source_caps \<Rightarrow> guarantee" where
  "source_max c = (if \<not> so_Replayable c \<and> \<not> so_RedeliversUnacked c then AtMostOnce
     else if \<not> so_StableKeys c then AtLeastOnce else ExactlyOnce)"

lemma source_ceiling_min: "source_ceiling src ceil = min ceil (source_max (rs_Caps src))"
  by (cases ceil) (auto simp: source_ceiling_def source_max_def guarantee_Min_def min_def tier_order Let_def)

lemma foldl_min_le:
  "g \<le> foldl (\<lambda>ceil (_, src). source_ceiling src ceil) c xs \<longleftrightarrow> g \<le> c \<and> (\<forall>(i, src)\<in>set xs. g \<le> source_max (rs_Caps src))"
  by (induction xs arbitrary: c) (auto simp: source_ceiling_min)

lemma le_sourceCeiling: "g \<le> sourceCeiling rv \<longleftrightarrow> (\<forall>(i, src)\<in>set (rv_sources rv). g \<le> source_max (rs_Caps src))"
  by (simp add: sourceCeiling_def foldl_min_le)

lemma Supports_weaker: "Supports h sc = None \<Longrightarrow> g \<le> h \<Longrightarrow> Supports g sc = None"
  by (auto simp: Supports_def tier_order split: if_splits)

lemma le_ceiling_loop: "g \<le> ceiling_loop sc h \<longleftrightarrow> g = AtMostOnce \<or> g \<le> h \<and> Supports g sc = None"
proof (induction sc h rule: ceiling_loop.induct)
  case (1 sc h)
  show ?case
  proof (cases "Supports h sc = None \<or> h = AtMostOnce")
    case True
    then show ?thesis by (subst ceiling_loop.simps) (auto dest: Supports_weaker)
  next
    case False
    then have "ceiling_loop sc h = ceiling_loop sc (weaker h)" by (subst ceiling_loop.simps) auto
    moreover have "g \<le> weaker h \<and> Supports g sc = None \<longleftrightarrow> g \<le> h \<and> Supports g sc = None"
      using False by (cases g; cases h) (auto simp: tier_order)
    ultimately show ?thesis using 1 False by simp
  qed
qed

lemma le_storeCeiling: "g \<le> storeCeiling sc \<longleftrightarrow> g = AtMostOnce \<or> Supports g sc = None"
  by (simp add: storeCeiling_def le_ceiling_loop)

section \<open>What a tier demands\<close>

text \<open>The table of the design record: what each tier asks of the sources, of the sink and of the store.\<close>

definition earns :: "store_caps \<Rightarrow> resolved \<Rightarrow> sink_caps \<Rightarrow> guarantee \<Rightarrow> bool" where
  "earns sc rv c g \<longleftrightarrow>
     (AtLeastOnce \<le> g \<longrightarrow> Supports g sc = None \<and>
        (\<forall>(i, src)\<in>set (rv_sources rv). so_Replayable (rs_Caps src) \<or> so_RedeliversUnacked (rs_Caps src))) \<and>
     (EffectivelyOnce \<le> g \<longrightarrow> (\<forall>(i, src)\<in>set (rv_sources rv). so_StableKeys (rs_Caps src)) \<and>
        (si_Idempotent c \<or> si_Commits c \<or> si_StoresToken c)) \<and>
     (g = ExactlyOnce \<longrightarrow> si_Commits c \<or> si_StoresToken c)"

lemma le_source_max:
  "g \<le> source_max c \<longleftrightarrow> (AtLeastOnce \<le> g \<longrightarrow> so_Replayable c \<or> so_RedeliversUnacked c) \<and> (EffectivelyOnce \<le> g \<longrightarrow> so_StableKeys c)"
  by (cases g) (auto simp: source_max_def tier_order)

lemma le_MaxGuarantee:
  "g \<le> MaxGuarantee c \<longleftrightarrow> (EffectivelyOnce \<le> g \<longrightarrow> si_Idempotent c \<or> si_Commits c \<or> si_StoresToken c) \<and>
     (g = ExactlyOnce \<longrightarrow> si_Commits c \<or> si_StoresToken c)"
  by (cases g) (auto simp: MaxGuarantee_def tier_order)

lemma le_achievable: "g \<le> achievable sc rv sk \<longleftrightarrow> earns sc rv (rk_Caps sk) g"
  by (auto simp: achievable_def guarantee_Min_min le_sourceCeiling le_storeCeiling le_source_max le_MaxGuarantee
      earns_def tier_levels)

section \<open>The branches and the headline\<close>

lemma update_new: "k \<notin> fst ` set m \<Longrightarrow> AList.update k v m = m @ [(k, v)]"
  by (induction m) auto

lemma foldl_branches:
  "distinct (map fst m @ map fst xs) \<Longrightarrow>
     foldl (\<lambda>m (i, sk). AList.update i (f i sk) m) m xs = m @ map (\<lambda>(i, sk). (i, f i sk)) xs"
  by (induction xs arbitrary: m) (auto simp: update_new)

lemma branches_map: "wf_amap (rv_sinks rv) \<Longrightarrow> branches s sc rv = map (\<lambda>(i, sk). (i, contract_of s sc rv i sk)) (rv_sinks rv)"
  using foldl_branches [of "[]" "rv_sinks rv"] by (simp add: branches_def wf_amap_def)

lemma ng_Nodes_negotiate [simp]: "ng_Nodes (fst (negotiate ord s rv sc d)) = branches s sc rv"
  by (simp add: negotiate_def Let_def)

definition bearing :: "(node_id \<times> node_contract) list \<Rightarrow> guarantee set" where
  "bearing nodes = {nc_Guarantee nc | i nc. (i, nc) \<in> set nodes \<and> \<not> nc_BestEffort nc}"

lemma digest_step_tier:
  "dt_Guarantee (digest_step (i, nc) a) = (if nc_BestEffort nc then dt_Guarantee a else min (dt_Guarantee a) (nc_Guarantee nc))"
  by (auto simp: digest_step_def Let_def min_def tier_order guarantee_rank_inj)

lemma digest_tier:
  "g \<le> dt_Guarantee (foldl (\<lambda>a x. digest_step x a) a nodes) \<longleftrightarrow> g \<le> dt_Guarantee a \<and> (\<forall>h\<in>bearing nodes. g \<le> h)"
proof (induction nodes arbitrary: a)
  case (Cons x nodes)
  obtain i nc where x: "x = (i, nc)" by (cases x)
  have "bearing (x # nodes) = (if nc_BestEffort nc then {} else {nc_Guarantee nc}) \<union> bearing nodes"
    by (auto simp: bearing_def x)
  with Cons show ?case by (auto simp: x digest_step_tier)
qed (simp add: bearing_def)

lemma finite_bearing: "finite (bearing nodes)"
proof -
  have "bearing nodes \<subseteq> (\<lambda>(i, nc). nc_Guarantee nc) ` set nodes" by (force simp: bearing_def)
  then show ?thesis by (rule finite_subset) simp
qed

lemma headline:
  assumes "set (ord (branches s sc rv)) = set (branches s sc rv)"
  shows "ng_Guarantee (fst (negotiate ord s rv sc d)) =
    (if branches s sc rv = [] then AtMostOnce
     else if bearing (branches s sc rv) = {} then ExactlyOnce else Min (bearing (branches s sc rv)))"
proof -
  let ?n = "branches s sc rv" and ?g = "ng_Guarantee (fst (negotiate ord s rv sc d))"
  have b: "bearing (ord ?n) = bearing ?n" using assms by (simp add: bearing_def)
  have e: "ord ?n = [] \<longleftrightarrow> ?n = []" using assms by (metis set_empty)
  have le: "g \<le> ?g \<longleftrightarrow> g \<le> (if ?n = [] then AtMostOnce else ExactlyOnce) \<and> (\<forall>h\<in>bearing ?n. g \<le> h)" for g
    using digest_tier [of g _ "ord ?n"] by (simp add: negotiate_def Let_def digest_of_def b e)
  show ?thesis
  proof (cases "?n = [] \<or> bearing ?n = {}")
    case True
    then show ?thesis using le [of ?g] le [of ExactlyOnce] by (auto simp: bearing_def)
  next
    case False
    then have "g \<le> ?g \<longleftrightarrow> g \<le> Min (bearing ?n)" for g using le [of g] finite_bearing by simp
    with False show ?thesis by (metis order.antisym order.refl)
  qed
qed

section \<open>Properties\<close>

text \<open>
  C32: The tier of a branch is exactly what was asked for and earned. For every sink of the pipeline, a tier
  is at most the negotiated one precisely when it is at most the requested one and the sources, the sink and
  the state store meet the demands of that tier: at-least-once needs replayable (or redelivering) sources and
  a store that supports it, effectively-once also stable keys and an idempotent or transactional sink,
  exactly-once a committer or a token.
\<close>
theorem branch_tier_is_exact:
  assumes "wf_amap (rv_sinks rv)"
  shows "(i, nc) \<in> set (ng_Nodes (fst (negotiate ord s rv sc d))) \<longleftrightarrow>
    (\<exists>sk. (i, sk) \<in> set (rv_sinks rv) \<and> (\<forall>g. g \<le> nc_Guarantee nc \<longleftrightarrow> g \<le> requested s i \<and> earns sc rv (rk_Caps sk) g) \<and>
       nc_AckPoint nc = AckPoint sk \<and> nc_DurabilityEdge nc = ''sink:'' @ i \<and> nc_BestEffort nc = nodeIsBestEffort s i)"
proof -
  have tier: "(\<forall>g. g \<le> h \<longleftrightarrow> g \<le> requested s i \<and> earns sc rv (rk_Caps sk) g) \<longleftrightarrow> h = guarantee_Min (requested s i) (achievable sc rv sk)" for h sk
    unfolding guarantee_Min_min le_achievable [symmetric] by (metis min.bounded_iff order.antisym order.refl)
  have mem: "(i, nc) \<in> set (branches s sc rv) \<longleftrightarrow> (\<exists>sk. (i, sk) \<in> set (rv_sinks rv) \<and> nc = contract_of s sc rv i sk)"
    unfolding branches_map [OF assms] by force
  have "nc = contract_of s sc rv i sk \<longleftrightarrow> nc_Guarantee nc = guarantee_Min (requested s i) (achievable sc rv sk) \<and>
      nc_AckPoint nc = AckPoint sk \<and> nc_DurabilityEdge nc = ''sink:'' @ i \<and> nc_BestEffort nc = nodeIsBestEffort s i" for sk
    by (cases nc) (auto simp: contract_of_def)
  then show ?thesis unfolding tier ng_Nodes_negotiate mem by simp
qed

definition store_full :: store_caps where
  "store_full = \<lparr>sc_AtomicMultiKey = True, sc_CAS = True, sc_EpochFencing = True, sc_Durability = DurabilityNode, sc_FlushIsDurable = True\<rparr>"

definition source_of :: "string \<Rightarrow> source_caps \<Rightarrow> resolved_source" where
  "source_of name c = fst (ResolveSource name \<lparr>cm_label = name, cm_ifaces = []\<rparr> c)"

definition sink_of :: "string \<Rightarrow> string list \<Rightarrow> sink_caps \<Rightarrow> resolved_sink" where
  "sink_of name ifaces c = fst (ResolveSink name \<lparr>cm_label = name, cm_ifaces = ifaces\<rparr> c)"

definition resolved_of :: "(node_id \<times> resolved_source) list \<Rightarrow> (node_id \<times> resolved_sink) list \<Rightarrow> resolved" where
  "resolved_of srcs sks = \<lparr>rv_sources = srcs, rv_sinks = sks, rv_buffers = [], rv_codecs = [], rv_configs = []\<rparr>"

definition keyless :: resolved where
  "keyless = resolved_of [(''in'', source_of ''table'' source_caps0)]
     [(''out'', sink_of ''warehouse'' [''connector.Committer''] (sink_caps0\<lparr>si_Commits := True\<rparr>))]"

lemma keyless_contract:
  "ng_Nodes (fst (negotiate id (spec0\<lparr>ps_Guarantee := ExactlyOnce\<rparr>) keyless store_full [])) =
     [(''out'', \<lparr>nc_Guarantee = AtLeastOnce, nc_AckPoint = ''commit'', nc_DurabilityEdge = ''sink:out'', nc_BestEffort = False\<rparr>)]"
  by code_simp

theorem branch_tier_is_exact_witness:
  "\<exists>sk. (''out'', sk) \<in> set (rv_sinks keyless) \<and> \<not> earns store_full keyless (rk_Caps sk) EffectivelyOnce \<and>
     earns store_full keyless (rk_Caps sk) AtLeastOnce"
proof -
  let ?nc = "\<lparr>nc_Guarantee = AtLeastOnce, nc_AckPoint = ''commit'', nc_DurabilityEdge = ''sink:out'', nc_BestEffort = False\<rparr>"
  let ?s = "spec0\<lparr>ps_Guarantee := ExactlyOnce\<rparr>"
  have wf: "wf_amap (rv_sinks keyless)" by (simp add: keyless_def resolved_of_def wf_amap_def)
  have "(''out'', ?nc) \<in> set (ng_Nodes (fst (negotiate id ?s keyless store_full [])))" unfolding keyless_contract by simp
  then obtain sk where sk: "(''out'', sk) \<in> set (rv_sinks keyless)"
    and g: "\<And>g. g \<le> AtLeastOnce \<longleftrightarrow> g \<le> requested ?s ''out'' \<and> earns store_full keyless (rk_Caps sk) g"
    unfolding branch_tier_is_exact [OF wf] by auto
  have "requested ?s ''out'' = ExactlyOnce" by code_simp
  with g [of EffectivelyOnce] g [of AtLeastOnce] sk show ?thesis by (auto simp: tier_order)
qed

text \<open>
  C33: The headline is the weakest progress-bearing branch, whatever the iteration order. Where at least one
  branch bears progress, the pipeline's tier is the minimum of the tiers of those branches; the order in
  which Go ranges over the map of branches does not matter.
\<close>
theorem headline_is_the_weakest_branch:
  assumes "set (ord (branches s sc rv)) = set (branches s sc rv)" and "bearing (branches s sc rv) \<noteq> {}"
  shows "ng_Guarantee (fst (negotiate ord s rv sc d)) = Min (bearing (branches s sc rv))"
proof -
  have "branches s sc rv \<noteq> []" using assms(2) by (auto simp: bearing_def)
  with headline [where ord = ord, OF assms(1)] assms(2) show ?thesis by simp
qed

theorem headline_is_the_weakest_branch_witness:
  "ng_Guarantee (fst (negotiate rev (spec0\<lparr>ps_Guarantee := ExactlyOnce\<rparr>) keyless store_full [])) = AtLeastOnce"
proof -
  let ?b = "branches (spec0\<lparr>ps_Guarantee := ExactlyOnce\<rparr>) store_full keyless"
  have b: "?b = [(''out'', \<lparr>nc_Guarantee = AtLeastOnce, nc_AckPoint = ''commit'', nc_DurabilityEdge = ''sink:out'', nc_BestEffort = False\<rparr>)]"
    using keyless_contract by simp
  then have bear: "bearing ?b = {AtLeastOnce}" by (auto simp: bearing_def)
  have "set (rev ?b) = set ?b" by simp
  from headline_is_the_weakest_branch [where ord = rev, OF this] bear show ?thesis by simp
qed

text \<open>
  A pipeline whose every sink is best-effort is reported exactly-once. Best-effort branches are left out
  of the headline, and the fold starts at the strongest tier: with no branch left the headline is
  exactly-once, here for a source that cannot be replayed, an append-only sink and a request of at-most-once,
  accepted without a diagnostic.
\<close>
definition lossy_spec :: spec where
  "lossy_spec = spec0\<lparr>ps_Guarantee := AtMostOnce,
     ps_Graph := [node_of ''in'' KindSource ''table'' [],
       node_of ''out'' KindSink ''file'' [(main_edge ''in'')\<lparr>ed_BestEffort := True\<rparr>]]\<rparr>"

definition lossy :: resolved where
  "lossy = resolved_of [(''in'', source_of ''table'' (source_caps0\<lparr>so_Replayable := False\<rparr>))] [(''out'', sink_of ''file'' [] sink_caps0)]"

theorem best_effort_pipeline_is_reported_exactly_once:
  "validateGraph registry0 lossy_spec = Some [] \<and>
   (let (n, d) = negotiate id lossy_spec lossy store_full [] in
      d = [] \<and> map (nc_Guarantee \<circ> snd) (ng_Nodes n) = [AtMostOnce] \<and> ng_Guarantee n = ExactlyOnce)"
  by code_simp

text \<open>
  A request can be degraded silently. Exactly-once is requested of a source without stable keys and a
  committing sink on a store that supports it; no waiver is signed. The negotiation returns no diagnostic and
  settles the branch, and the pipeline, at at-least-once.
\<close>
theorem request_is_degraded_silently:
  "let s = spec0\<lparr>ps_Guarantee := ExactlyOnce\<rparr>; (n, d) = negotiate id s keyless store_full [] in
     ps_Downgrades s = [] \<and> d = [] \<and> ng_Guarantee n = AtLeastOnce \<and> requested s ''out'' = ExactlyOnce"
  by code_simp

text \<open>
  The disclosed acknowledgement point depends on map iteration order. Two branches of the same tier, one
  settling on the write and one on a flush: ranging over the branches in one order discloses one sink, in the
  other order the other.
\<close>
definition twin_spec :: spec where
  "twin_spec = spec0\<lparr>ps_Graph := [node_of ''in'' KindSource ''table'' [], node_of ''a'' KindSink ''file'' [main_edge ''in''],
     node_of ''b'' KindSink ''file'' [main_edge ''in'']]\<rparr>"

definition twins :: resolved where
  "twins = resolved_of [(''in'', source_of ''table'' source_caps0)]
     [(''a'', sink_of ''file'' [] sink_caps0), (''b'', sink_of ''file'' [''connector.Flusher''] (sink_caps0\<lparr>si_Flushes := True\<rparr>))]"

theorem disclosed_ack_point_depends_on_map_order:
  "let n = fst (negotiate id twin_spec twins store_full []); n' = fst (negotiate rev twin_spec twins store_full []) in
     ng_Nodes n = ng_Nodes n' \<and> ng_Guarantee n = ng_Guarantee n' \<and>
     (ng_AckPoint n, ng_DurabilityEdge n) = (''flush'', ''sink:b'') \<and>
     (ng_AckPoint n', ng_DurabilityEdge n') = (''write'', ''sink:a'')"
  by code_simp

text \<open>
  C34: A waiver changes only what it covers. Applying the waivers keeps every diagnostic in place; one that is
  changed was an error about a capability or a tier and becomes a warning with the waiver's reason, and the
  waiver is signed, explained, names what is missing and has exactly the diagnostic's scope, naming the very
  interface when a capability is refused. A capability refusal that names no interface cannot be waived.
\<close>
theorem waiver_changes_only_what_it_covers:
  assumes "k < length d"
  shows "applyWaivers s d ! k = d ! k \<or>
    (\<exists>w\<in>set (ps_Downgrades s). applyWaivers s d ! k = (d ! k)\<lparr>dg_Severity := SeverityWarning, dg_Hint := dw_Reason w # dg_Hint (d ! k)\<rparr> \<and>
       dg_Severity (d ! k) = SeverityError \<and> dg_Code (d ! k) \<in> {CodeCapability, CodeGuarantee} \<and>
       dw_AcknowledgedBy w \<noteq> '''' \<and> dw_Reason w \<noteq> '''' \<and> dw_Missing w \<noteq> [] \<and> dw_Node w = dg_Node (d ! k) \<and>
       (dg_Code (d ! k) = CodeCapability \<longrightarrow> dg_Iface (d ! k) \<noteq> '''' \<and> dg_Iface (d ! k) \<in> set (dw_Missing w)))"
proof (cases "first_cover (ps_Downgrades s) (d ! k)")
  case None
  with assms show ?thesis by (auto simp: applyWaivers_def nth_append waive_def)
next
  case (Some x)
  obtain j w where x: "x = (j, w)" by (cases x)
  from Some x have c: "waivable (d ! k)" "waiverCovers w (d ! k)" and "(j, w) \<in> set (enumerate 0 (ps_Downgrades s))"
    by (auto simp: first_cover_def find_Some_iff in_set_conv_nth split: if_splits)
  then have w: "w \<in> set (ps_Downgrades s)" by (auto simp: in_set_enumerate_eq)
  then have "applyWaivers s d ! k = (d ! k)\<lparr>dg_Severity := SeverityWarning, dg_Hint := dw_Reason w # dg_Hint (d ! k)\<rparr>"
    using assms Some x by (auto simp: applyWaivers_def nth_append waive_def)
  with w c show ?thesis by (intro disjI2 bexI [of _ w]) (auto simp: waivable_def waiverCovers_def split: if_splits)
qed

definition signed :: downgrade where
  "signed = \<lparr>dw_Requested = ''exactly_once'', dw_Effective = ''at_least_once'', dw_Missing = [''connector.Committer''], dw_Node = ''out'',
     dw_AcknowledgedBy = ''op'', dw_AcknowledgedAt = 1, dw_Reason = ''append-only''\<rparr>"

definition no_committer :: "build_msg diagnostic" where
  "no_committer = capDiag ''out'' (MsgNoCommitter ''out'' ''file'') ''connector.Committer''"

theorem waiver_changes_only_what_it_covers_witness:
  "dg_Severity (applyWaivers (spec0\<lparr>ps_Downgrades := [signed]\<rparr>) [no_committer] ! 0) = SeverityWarning \<and>
   applyWaivers (spec0\<lparr>ps_Downgrades := [signed]\<rparr>) [no_committer] ! 0 =
     no_committer\<lparr>dg_Severity := SeverityWarning, dg_Hint := [''append-only'']\<rparr>"
proof -
  let ?s = "spec0\<lparr>ps_Downgrades := [signed]\<rparr>"
  have "dg_Severity (applyWaivers ?s [no_committer] ! 0) = SeverityWarning" by code_simp
  moreover have "dg_Severity no_committer = SeverityError" "dg_Hint no_committer = []" by code_simp+
  ultimately show ?thesis
    using waiver_changes_only_what_it_covers [of 0 "[no_committer]" ?s] by (auto simp: signed_def)
qed

text \<open>
  One tier waiver silences a refusal it does not mention. A pipeline-scoped waiver signed for the state
  store also turns the refusal of a dedupe without a window into a warning, though it names neither the
  stream nor the window: guarantee refusals carry no name to match.
\<close>
definition dedupe_spec :: spec where
  "dedupe_spec = spec0\<lparr>ps_Streams := [\<lparr>st_Stream = ''orders'', st_Node = '''', st_Read = [LaneKindScan], st_Write = DestAppend, st_Keys = [],
       st_Dedupe = Some \<lparr>dd_Layer = DedupeKey, dd_Window = 0\<rparr>\<rparr>],
     ps_Downgrades := [signed\<lparr>dw_Node := '''', dw_Missing := [''store.EpochFencing'']\<rparr>]\<rparr>"

theorem tier_waiver_silences_missing_dedupe_window:
  "let rv = resolved_of [(''in'', source_of ''table'' source_caps0)] [(''out'', sink_of ''file'' [] sink_caps0)] in
     HasErrors (snd (negotiate id (dedupe_spec\<lparr>ps_Downgrades := []\<rparr>) rv store_full [])) \<and>
     map dg_Message (snd (negotiate id dedupe_spec rv store_full [])) = [MsgNoDedupeWindow] \<and>
     \<not> HasErrors (snd (negotiate id dedupe_spec rv store_full []))"
  by code_simp

end
