(* ===== verification/Canal_BuildProps.thy ===== *)
theory Canal_BuildProps
  imports Canal_Build Canal_NegotiateProps
begin

text \<open>
  What \<^verbatim>\<open>Build\<close> promises: it always answers, a refused build has closed everything it constructed, and a
  pipeline it returns has exactly the sources and sinks of a sound graph. Closing that pipeline later leaves its
  encoders open.
\<close>

section \<open>How the node loop extends the state\<close>

definition grows :: "build_state \<Rightarrow> build_state \<Rightarrow> bool" where
  "grows st st' \<longleftrightarrow>
     (\<exists>d. bs_diags st' = bs_diags st @ d) \<and>
     (\<exists>cs. bs_built st' = bs_built st @ cs \<and> bs_log st' = bs_log st @ map (\<lambda>(i, x). Constructed i x) cs) \<and>
     (\<forall>i. map_of (rv_sources (bs_res st)) i \<noteq> None \<longrightarrow> map_of (rv_sources (bs_res st')) i \<noteq> None) \<and>
     (\<forall>i. map_of (rv_sinks (bs_res st)) i \<noteq> None \<longrightarrow> map_of (rv_sinks (bs_res st')) i \<noteq> None) \<and>
     (\<forall>i. map_of (rv_codecs (bs_res st)) i \<noteq> None \<longrightarrow> map_of (rv_codecs (bs_res st')) i \<noteq> None)"

lemma grows_refl [simp, intro]: "grows st st"
  by (auto simp: grows_def)

lemma grows_trans:
  assumes "grows a b" and "grows b c"
  shows "grows a c"
proof -
  from assms obtain d d' cs cs' where
    "bs_diags b = bs_diags a @ d" "bs_diags c = bs_diags b @ d'"
    "bs_built b = bs_built a @ cs" "bs_log b = bs_log a @ map (\<lambda>(i, x). Constructed i x) cs"
    "bs_built c = bs_built b @ cs'" "bs_log c = bs_log b @ map (\<lambda>(i, x). Constructed i x) cs'"
    unfolding grows_def by blast
  then have "bs_diags c = bs_diags a @ d @ d'" "bs_built c = bs_built a @ cs @ cs'"
    "bs_log c = bs_log a @ map (\<lambda>(i, x). Constructed i x) (cs @ cs')" by simp_all
  then show ?thesis using assms unfolding grows_def by blast
qed

lemma grows_add_diags [intro!]: "grows a b \<Longrightarrow> grows a (add_diags d b)"
  by (erule grows_trans) (auto simp: grows_def add_diags_def)

text \<open>A component that is constructed has to be kept for closing.\<close>

lemma grows_made [intro!]: "grows a b \<Longrightarrow> grows a (keep_closers cs (constructed cs b))"
  by (erule grows_trans) (auto simp: grows_def keep_closers_def constructed_def)

lemma grows_puts [intro!]:
  "grows a b \<Longrightarrow> grows a (add_notes notes b)"
  "grows a b \<Longrightarrow> grows a (put_source i rs cfg b)"
  "grows a b \<Longrightarrow> grows a (put_sink i rk cfg b)"
  "grows a b \<Longrightarrow> grows a (put_codec i ch b)"
  "grows a b \<Longrightarrow> grows a (put_buffer i bc b)"
  by (erule grows_trans, simp add: grows_def add_notes_def put_source_def put_sink_def put_codec_def put_buffer_def)+

lemma attach_built:
  "cx_built (attach_compressor L r node ref built notes d chain) = built"
  "cx_built (attach_framer L r node ref built notes d chain) = built"
  by (auto simp: attach_compressor_def attach_framer_def Let_def split: if_splits option.splits prod.splits sum.splits)

lemma resolveCodec_made [simp]: "cx_built (resolveCodec L r node cfg rk) = cx_made (resolveCodec L r node cfg rk)"
  by (auto simp: resolveCodec_def Let_def attach_built split: if_splits option.splits prod.splits sum.splits)

lemma build_source_grows: "grows st (build_source L r n st)"
  by (auto simp: build_source_def construct_def Let_def split: option.splits prod.splits sum.splits)

lemma build_sink_grows: "grows st (build_sink L r n st)"
  by (auto simp: build_sink_def construct_def Let_def split: option.splits prod.splits sum.splits)

lemma build_node_grows: "grows st (build_node L r n st)"
  by (auto simp: build_node_def Let_def build_source_grows build_sink_grows split: kind.splits option.splits)

lemma build_nodes_grows: "grows st (build_nodes L r ns st)"
  unfolding build_nodes_def
proof (induction ns arbitrary: st)
  case (Cons n ns)
  from grows_trans [OF build_node_grows Cons.IH] show ?case by simp
qed simp

lemma grows_errors: "grows a b \<Longrightarrow> HasErrors (bs_diags a) \<Longrightarrow> HasErrors (bs_diags b)"
  by (auto simp: grows_def)

section \<open>A node that raised no error is resolved\<close>

definition node_done :: "build_state \<Rightarrow> node \<Rightarrow> bool" where
  "node_done st n \<longleftrightarrow>
     nd_Kind n \<in> {KindSource, KindSink, KindBuffer, KindTransform} \<and>
     (nd_Kind n = KindSource \<longrightarrow> map_of (rv_sources (bs_res st)) (nd_ID n) \<noteq> None) \<and>
     (nd_Kind n = KindSink \<longrightarrow> map_of (rv_sinks (bs_res st)) (nd_ID n) \<noteq> None \<and> map_of (rv_codecs (bs_res st)) (nd_ID n) \<noteq> None)"

lemma node_done_grows: "node_done a n \<Longrightarrow> grows a b \<Longrightarrow> node_done b n"
  by (auto simp: node_done_def grows_def)

lemma HasErrors_anchor [simp]: "HasErrors (anchor i nd) = HasErrors nd"
  by (induction nd) (auto simp: anchor_def)

lemma add_diags_sel [simp]:
  "bs_diags (add_diags d st) = bs_diags st @ d" "bs_res (add_diags d st) = bs_res st"
  "bs_diags (keep_closers cs st) = bs_diags st" "bs_res (keep_closers cs st) = bs_res st"
  "bs_diags (constructed cs st) = bs_diags st" "bs_res (constructed cs st) = bs_res st"
  "bs_built (add_diags d st) = bs_built st" "bs_log (add_diags d st) = bs_log st"
  "bs_diags (add_notes ns st) = bs_diags st" "bs_res (add_notes ns st) = bs_res st"
  "bs_diags (put_source i rs cfg st) = bs_diags st" "bs_diags (put_sink i rk cfg st) = bs_diags st"
  "bs_diags (put_codec i ch st) = bs_diags st" "bs_diags (put_buffer i bc st) = bs_diags st"
  by (auto simp: add_diags_def keep_closers_def constructed_def add_notes_def put_source_def put_sink_def put_codec_def put_buffer_def)

lemma put_res [simp]:
  "rv_sources (bs_res (put_source i rs cfg st)) = AList.update i rs (rv_sources (bs_res st))"
  "rv_sinks (bs_res (put_sink i rk cfg st)) = AList.update i rk (rv_sinks (bs_res st))"
  "rv_codecs (bs_res (put_codec i ch st)) = AList.update i ch (rv_codecs (bs_res st))"
  "rv_sinks (bs_res (put_codec i ch st)) = rv_sinks (bs_res st)"
  by (simp_all add: put_source_def put_sink_def put_codec_def)

lemma build_node_done:
  assumes "\<not> HasErrors (bs_diags (build_node L r n st))" and "reg_Has r (nd_Kind n) (nd_Name n)"
  shows "node_done (build_node L r n st) n"
proof (cases "nd_Kind n")
  case KindSource
  then obtain e where "reg_Source r (nd_Name n) = Some e"
    using assms(2) by (cases "reg_Source r (nd_Name n)") (auto simp: reg_Has_def reg_names_def reg_Source_def map_of_eq_None_iff)
  with KindSource assms(1) show ?thesis
    by (auto simp: build_node_def build_source_def construct_def node_done_def Let_def split: prod.splits sum.splits option.splits if_splits)
next
  case KindSink
  then obtain e where "reg_Sink r (nd_Name n) = Some e"
    using assms(2) by (cases "reg_Sink r (nd_Name n)") (auto simp: reg_Has_def reg_names_def reg_Sink_def map_of_eq_None_iff)
  with KindSink assms(1) show ?thesis
    by (auto simp: build_node_def build_sink_def construct_def node_done_def Let_def split: prod.splits sum.splits option.splits if_splits)
qed (use assms in \<open>auto simp: build_node_def node_done_def Let_def split: option.splits if_splits\<close>)

lemma build_nodes_done:
  assumes "\<not> HasErrors (bs_diags (build_nodes L r ns st))" and "\<And>n. n \<in> set ns \<Longrightarrow> reg_Has r (nd_Kind n) (nd_Name n)"
    and "n \<in> set ns"
  shows "node_done (build_nodes L r ns st) n"
  using assms
proof (induction ns arbitrary: st)
  case (Cons m ns)
  let ?st = "build_node L r m st"
  have rest: "build_nodes L r (m # ns) st = build_nodes L r ns ?st" by (simp add: build_nodes_def)
  note ext = build_nodes_grows [of ?st L r ns]
  show ?case
  proof (cases "n = m")
    case True
    have "\<not> HasErrors (bs_diags ?st)" using Cons.prems(1) grows_errors [OF ext] unfolding rest by blast
    from build_node_done [OF this] Cons.prems(2) True node_done_grows [OF _ ext] show ?thesis unfolding rest by simp
  next
    case False
    with Cons show ?thesis unfolding rest by simp
  qed
qed simp

section \<open>The encoders of the chains\<close>

definition chains_constructed :: "build_state \<Rightarrow> bool" where
  "chains_constructed st \<longleftrightarrow>
     (\<forall>i ch. map_of (rv_codecs (bs_res st)) i = Some (Some ch) \<longrightarrow> (i, ec_Component (ch_encoder ch)) \<in> set (bs_built st))"

lemma attach_encoder:
  "cx_chain (attach_compressor L r node ref built notes d chain) = Some ch \<Longrightarrow> ch_encoder ch = ch_encoder chain"
  "cx_chain (attach_framer L r node ref built notes d chain) = Some ch \<Longrightarrow> ch_encoder ch = ch_encoder chain"
  by (auto simp: attach_compressor_def attach_framer_def Let_def split: if_splits option.splits prod.splits sum.splits)

lemma resolveCodec_encoder:
  "cx_chain (resolveCodec L r node cfg rk) = Some ch \<Longrightarrow> (node, ec_Component (ch_encoder ch)) \<in> set (cx_made (resolveCodec L r node cfg rk))"
  by (auto simp: resolveCodec_def Let_def dest!: attach_encoder(2)
      split: if_splits option.splits prod.splits sum.splits)

lemma chains_constructed_keep [simp]:
  "chains_constructed st \<Longrightarrow> chains_constructed (add_diags d st)"
  "chains_constructed st \<Longrightarrow> chains_constructed (add_notes ns st)"
  "chains_constructed st \<Longrightarrow> chains_constructed (keep_closers cs st)"
  "chains_constructed st \<Longrightarrow> chains_constructed (constructed cs st)"
  "chains_constructed st \<Longrightarrow> chains_constructed (put_source i rs cfg st)"
  "chains_constructed st \<Longrightarrow> chains_constructed (put_sink i rk cfg st)"
  "chains_constructed st \<Longrightarrow> chains_constructed (put_buffer i bc st)"
  by (auto simp: chains_constructed_def add_diags_def add_notes_def keep_closers_def constructed_def put_source_def put_sink_def put_buffer_def)

lemma chains_constructed_put_codec:
  assumes "chains_constructed st" and "\<And>ch. x = Some ch \<Longrightarrow> (i, ec_Component (ch_encoder ch)) \<in> set (bs_built st)"
  shows "chains_constructed (put_codec i x st)"
  using assms by (auto simp: chains_constructed_def put_codec_def)

lemma built_sel [simp]:
  "bs_built (keep_closers cs st) = bs_built st @ cs" "bs_built (add_notes ns st) = bs_built st"
  "bs_built (constructed cs st) = bs_built st"
  by (simp_all add: keep_closers_def constructed_def add_notes_def)

lemma build_sink_chains: "chains_constructed st \<Longrightarrow> chains_constructed (build_sink L r n st)"
  by (auto simp: build_sink_def construct_def Let_def intro!: chains_constructed_put_codec dest: resolveCodec_encoder
      split: option.splits prod.splits sum.splits)

lemma build_node_chains: "chains_constructed st \<Longrightarrow> chains_constructed (build_node L r n st)"
  by (auto simp: build_node_def build_source_def construct_def Let_def intro: build_sink_chains
      split: kind.splits option.splits prod.splits sum.splits)

lemma build_nodes_chains: "chains_constructed st \<Longrightarrow> chains_constructed (build_nodes L r ns st)"
  unfolding build_nodes_def by (induction ns arbitrary: st) (auto intro: build_node_chains)

lemma build_log:
  "bs_log (build_nodes L r ns (empty_state d notes)) =
     map (\<lambda>(i, x). Constructed i x) (bs_built (build_nodes L r ns (empty_state d notes)))"
  using build_nodes_grows [of "empty_state d notes" L r ns] by (auto simp: grows_def empty_state_def)

lemma dp_State_withDefaults [simp]: "dp_State (fst (withDefaults d)) = dp_State d"
  by (simp add: withDefaults_def)

lemma Build_no_registry: "Build L ord metrics None s d = Some (refused (Errorf [] CodeUnknownComponent [] MsgNoRegistry) [])"
  by (simp add: Build_def split: prod.splits)

lemma Build_Some:
  "Build L ord metrics (Some r) s d =
     (case dp_State d of
        None \<Rightarrow> Some (refused (Errorf [] CodeGuarantee [] MsgNoStateStore) [])
      | Some sc \<Rightarrow>
          (case validateGraph r s of
             None \<Rightarrow> None
           | Some gd \<Rightarrow>
               Some (judge_build ord metrics s (fst (withDefaults d)) sc
                 (build_nodes L r (ps_Graph s) (empty_state gd (snd (withDefaults d)))))))"
proof -
  obtain x ns where wd: "withDefaults d = (x, ns)" by fastforce
  then have "dp_State x = dp_State d" using dp_State_withDefaults [of d] by simp
  then show ?thesis by (simp only: Build_def wd prod.case option.case fst_conv snd_conv)
qed

lemma Build_no_store:
  "dp_State d = None \<Longrightarrow> Build L ord metrics (Some r) s d = Some (refused (Errorf [] CodeGuarantee [] MsgNoStateStore) [])"
  by (simp add: Build_Some)

lemma Build_answers: "dp_State d = Some sc \<Longrightarrow> \<exists>b. Build L ord metrics (Some r) s d = Some b"
  using validateGraph_total [of r s] by (auto simp: Build_Some)

text \<open>The two ways \<^verbatim>\<open>Build\<close> ends once it has a registry and a state store.\<close>

lemma Build_cases:
  assumes "Build L ord metrics (Some r) s d = Some b" and "dp_State d = Some sc"
  obtains gd st where "validateGraph r s = Some gd"
    "st = build_nodes L r (ps_Graph s) (empty_state gd (snd (withDefaults d)))"
    "bd_Pipeline b = None" "bd_Log b = bs_log st @ closeAll (bs_built st)" "HasErrors (bd_Diags b)"
  | gd st neg nd p where "validateGraph r s = Some gd"
    "st = build_nodes L r (ps_Graph s) (empty_state gd (snd (withDefaults d)))"
    "\<not> HasErrors (bs_diags st @ usable_diags (bs_res st))"
    "negotiate ord s (bs_res st) sc (bs_diags st @ usable_diags (bs_res st)) = (neg, nd)" "\<not> HasErrors nd" "metrics = None"
    "b = finish_build None s (fst (withDefaults d)) st (neg\<lparr>ng_Defaults := ng_Defaults neg @ bs_defaults st\<rparr>) nd"
    "bd_Pipeline b = Some p" "bd_Log b = bs_log st"
    "p = the (bd_Pipeline (finish_build None s (fst (withDefaults d)) st (neg\<lparr>ng_Defaults := ng_Defaults neg @ bs_defaults st\<rparr>) nd))"
proof -
  obtain gd where gd: "validateGraph r s = Some gd" using validateGraph_total [of r s] by blast
  define st where "st = build_nodes L r (ps_Graph s) (empty_state gd (snd (withDefaults d)))"
  obtain neg nd where neg: "negotiate ord s (bs_res st) sc (bs_diags st @ usable_diags (bs_res st)) = (neg, nd)" by fastforce
  let ?neg = "neg\<lparr>ng_Defaults := ng_Defaults neg @ bs_defaults st\<rparr>"
  have b: "b = (if HasErrors (bs_diags st @ usable_diags (bs_res st))
      then refused (bs_diags st @ usable_diags (bs_res st)) (bs_log st @ closeAll (bs_built st))
      else if HasErrors nd then refused nd (bs_log st @ closeAll (bs_built st))
      else finish_build metrics s (fst (withDefaults d)) st ?neg nd)"
    using assms by (auto simp: Build_Some gd neg judge_build_def judge_negotiated_def simp flip: st_def)
  show thesis
  proof (cases "HasErrors (bs_diags st @ usable_diags (bs_res st)) \<or> HasErrors nd \<or> metrics \<noteq> None")
    case True
    with b have "bd_Pipeline b = None" "bd_Log b = bs_log st @ closeAll (bs_built st)" "HasErrors (bd_Diags b)"
      by (auto simp: refused_def finish_build_def Let_def split: option.splits)
    then show thesis by (rule that(1) [OF gd st_def])
  next
    case False
    with b have fin: "b = finish_build None s (fst (withDefaults d)) st ?neg nd" and m: "metrics = None" by auto
    obtain p where p: "bd_Pipeline b = Some p" "bd_Log b = bs_log st" unfolding fin by (simp add: finish_build_def Let_def)
    then have "p = the (bd_Pipeline (finish_build None s (fst (withDefaults d)) st ?neg nd))" by (simp flip: fin)
    with False m show thesis by (intro that(2) [OF gd st_def _ neg _ _ fin p]) auto
  qed
qed

lemma finish_build_pipeline:
  "bd_Pipeline (finish_build None s deps st neg nd) = Some p \<Longrightarrow>
     pl_sources p = rv_sources (bs_res st) \<and> pl_sinks p = rv_sinks (bs_res st) \<and> pl_codecs p = rv_codecs (bs_res st) \<and>
     ps_LaneBudget (pl_spec p) = (if ps_LaneBudget s \<le> 0 then defaultLaneBudget else ps_LaneBudget s) \<and>
     ng_ReplayBudget (pl_negotiated p) = (if ps_LaneBudget s \<le> 0 then defaultLaneBudget else ng_ReplayBudget neg) \<and>
     cfg_DefaultBudget (led_cfg (pl_ledger p)) = ps_LaneBudget (pl_spec p) \<and> ng_Guarantee (pl_negotiated p) = ng_Guarantee neg \<and>
     ng_Nodes (pl_negotiated p) = ng_Nodes neg \<and> (HasErrors (bd_Diags (finish_build None s deps st neg nd)) = HasErrors nd)"
  by (auto simp: finish_build_def Let_def Canal_Ledger.New_def defaultLaneBudget_def split: option.splits)

section \<open>Properties\<close>

text \<open>
  C29: A refused build leaves nothing open. \<^verbatim>\<open>Build\<close> answers on every input; where it returns no pipeline it
  returns at least one error, and each source, sink and encoder a constructor returned to it has been closed
  exactly once, in reverse order of construction. (Framers and compressors have no \<^verbatim>\<open>Close\<close>.)
\<close>
theorem refused_build_closes_what_it_made:
  "\<exists>b. Build L ord metrics r s d = Some b \<and>
    (bd_Pipeline b = None \<longrightarrow> HasErrors (bd_Diags b) \<and>
       (\<exists>cs. bd_Log b = map (\<lambda>(i, x). Constructed i x) cs @ map (\<lambda>(i, x). Closed i x) (rev cs)))"
proof (cases "r = None \<or> dp_State d = None")
  case True
  then show ?thesis
    by (cases r) (auto simp: Build_no_registry Build_no_store refused_def)
next
  case False
  then obtain reg sc where r: "r = Some reg" "dp_State d = Some sc" by auto
  obtain b where b: "Build L ord metrics (Some reg) s d = Some b"
    using Build_answers [OF r(2)] by blast
  from b r(2) show ?thesis
  proof (cases rule: Build_cases)
    case (1 gd st)
    then have "bd_Log b = map (\<lambda>(i, x). Constructed i x) (bs_built st) @ map (\<lambda>(i, x). Closed i x) (rev (bs_built st))"
      by (simp add: build_log closeAll_def)
    with 1 b r(1) show ?thesis by blast
  next
    case 2
    with b r(1) show ?thesis by auto
  qed
qed

definition working :: "string \<Rightarrow> 'c \<Rightarrow> ('c, component) entry" where
  "working name c = \<lparr>en_Meta = meta0, en_Spec = NewCfgSpec, en_Caps = c, en_New = (\<lambda>_. Inr \<lparr>cm_label = name, cm_ifaces = []\<rparr>),
     en_Report = [], en_Warnings = []\<rparr>"

definition json_entry :: "(codec_caps, encoder) entry" where
  "json_entry = \<lparr>en_Meta = meta0, en_Spec = NewCfgSpec,
     en_Caps = \<lparr>cp_APIVersion = 1, cp_Unknown = [], cd_Accepts = [VMap], cd_Produces = [VBytes], cd_CarriesMeta = False,
       cd_CarriesChange = False, cd_CarriesSchema = False, cd_SelfDelimiting = True, cd_NeedsRuntime = False\<rparr>,
     en_New = (\<lambda>_. Inr \<lparr>ec_Component = \<lparr>cm_label = ''json'', cm_ifaces = []\<rparr>, ec_ContentType = ''application/json''\<rparr>),
     en_Report = [], en_Warnings = []\<rparr>"

definition registry1 :: registry where
  "registry1 = NewRegistry\<lparr>rg_sources := [(''table'', working ''table'' source_caps0)],
     rg_sinks := [(''file'', working ''file'' sink_caps0)], rg_encoders := [(''json'', json_entry)]\<rparr>"

definition deps0 :: deps where
  "deps0 = \<lparr>dp_State = Some store_full, dp_Worker = '''', dp_FlushInterval = 0, dp_FlushRecords = 0, dp_GracePeriod = 0,
     dp_ControlInterval = 0, dp_ConfigInterval = 0, dp_StatusInterval = 0\<rparr>"

text \<open>The witness is a registry with no encoder: the source and the sink were constructed, and are closed again.\<close>

theorem refused_build_closes_what_it_made_witness:
  "\<exists>b cs. Build std0 id None (Some (registry1\<lparr>rg_encoders := []\<rparr>)) spec0 deps0 = Some b \<and> cs \<noteq> [] \<and>
     bd_Log b = map (\<lambda>(i, x). Constructed i x) cs @ map (\<lambda>(i, x). Closed i x) (rev cs)"
proof -
  let ?r = "Some (registry1\<lparr>rg_encoders := []\<rparr>)"
  note closes = refused_build_closes_what_it_made [of std0 id None ?r spec0 deps0]
  then obtain b where b: "Build std0 id None ?r spec0 deps0 = Some b" by (elim exE conjE)
  have "case Build std0 id None ?r spec0 deps0 of
      Some b \<Rightarrow> (case bd_Pipeline b of None \<Rightarrow> (case bd_Log b of [] \<Rightarrow> False | _ \<Rightarrow> True) | Some _ \<Rightarrow> False) | None \<Rightarrow> False"
    by code_simp
  then have "bd_Pipeline b = None" "bd_Log b \<noteq> []" unfolding b by (simp_all split: option.splits list.splits)
  with closes [unfolded b] show ?thesis unfolding b by auto
qed

section \<open>The loop resolves nodes of the graph and nothing else\<close>

text \<open>The ids under which sources and sinks were entered, and for which something was constructed.\<close>

definition ids_of :: "kind set \<Rightarrow> node list \<Rightarrow> node_id set" where
  "ids_of K ns = set (map nd_ID (filter (\<lambda>n. nd_Kind n \<in> K) ns))"

definition only_nodes :: "node list \<Rightarrow> build_state \<Rightarrow> bool" where
  "only_nodes ns st \<longleftrightarrow> dom (map_of (rv_sources (bs_res st))) \<subseteq> ids_of {KindSource} ns \<and>
     dom (map_of (rv_sinks (bs_res st))) \<subseteq> ids_of {KindSink} ns \<and> dom (map_of (rv_codecs (bs_res st))) \<subseteq> ids_of {KindSink} ns \<and>
     fst ` set (bs_built st) \<subseteq> ids_of {KindSource, KindSink} ns"

lemma only_nodes_ups [simp]:
  "only_nodes ns (add_diags d st) = only_nodes ns st" "only_nodes ns (add_notes x st) = only_nodes ns st"
  "only_nodes ns (constructed cs st) = only_nodes ns st" "only_nodes ns (put_buffer i bc st) = only_nodes ns st"
  by (simp_all add: only_nodes_def add_diags_def add_notes_def constructed_def put_buffer_def)

lemma only_nodes_puts [simp]:
  "only_nodes ns st \<Longrightarrow> i \<in> ids_of {KindSource} ns \<Longrightarrow> only_nodes ns (put_source i rs cfg st)"
  "only_nodes ns st \<Longrightarrow> i \<in> ids_of {KindSink} ns \<Longrightarrow> only_nodes ns (put_sink i rk cfg st)"
  "only_nodes ns st \<Longrightarrow> i \<in> ids_of {KindSink} ns \<Longrightarrow> only_nodes ns (put_codec i ch st)"
  "only_nodes ns st \<Longrightarrow> fst ` set cs \<subseteq> ids_of {KindSource, KindSink} ns \<Longrightarrow> only_nodes ns (keep_closers cs st)"
  by (auto simp: only_nodes_def put_source_def put_sink_def put_codec_def keep_closers_def)

lemma resolveCodec_node: "fst ` set (cx_made (resolveCodec L r node cfg rk)) \<subseteq> {node}"
  by (auto simp: resolveCodec_def Let_def split: if_splits option.splits prod.splits sum.splits)

lemma ids_of_mem: "n \<in> set ns \<Longrightarrow> nd_Kind n \<in> K \<Longrightarrow> nd_ID n \<in> ids_of K ns"
  by (auto simp: ids_of_def)

lemma build_source_only:
  assumes "only_nodes ns st" and "n \<in> set ns" and "nd_Kind n = KindSource"
  shows "only_nodes ns (build_source L r n st)"
proof -
  have "nd_ID n \<in> ids_of {KindSource} ns" "nd_ID n \<in> ids_of {KindSource, KindSink} ns" using assms(2,3) by (simp_all add: ids_of_mem)
  with assms(1) show ?thesis by (auto simp: build_source_def construct_def Let_def split: option.splits prod.splits sum.splits)
qed

lemma build_sink_only:
  assumes "only_nodes ns st" and "n \<in> set ns" and "nd_Kind n = KindSink"
  shows "only_nodes ns (build_sink L r n st)"
proof -
  have i: "nd_ID n \<in> ids_of {KindSink} ns" "nd_ID n \<in> ids_of {KindSource, KindSink} ns" using assms(2,3) by (simp_all add: ids_of_mem)
  then have m: "fst ` set (cx_made (resolveCodec L r (nd_ID n) cfg rk)) \<subseteq> ids_of {KindSource, KindSink} ns" for cfg rk
    by (intro subset_trans [OF resolveCodec_node]) simp
  show ?thesis
  proof (cases "reg_Sink r (nd_Name n)")
    case (Some e)
    obtain cfg nd where v: "cfg_Validate L (Some (en_Spec e)) (nd_Config n) = (cfg, nd)" by fastforce
    show ?thesis
    proof (cases "en_New e cfg")
      case (Inr sk)
      obtain rk er where k: "ResolveSink (nd_Name n) sk (en_Caps e) = (rk, er)" by fastforce
      show ?thesis using assms(1) i m by (cases er) (simp_all add: build_sink_def construct_def Some v Inr k Let_def)
    qed (use assms(1) in \<open>simp add: build_sink_def construct_def Some v Let_def\<close>)
  qed (use assms(1) in \<open>simp add: build_sink_def\<close>)
qed

lemma build_node_only:
  assumes "only_nodes ns st" and "n \<in> set ns"
  shows "only_nodes ns (build_node L r n st)"
  using assms by (cases "nd_Kind n") (auto simp: build_node_def Let_def build_source_only build_sink_only split: option.splits)

lemma build_nodes_only:
  assumes "only_nodes ns st" and "set ms \<subseteq> set ns"
  shows "only_nodes ns (build_nodes L r ms st)"
  using assms unfolding build_nodes_def by (induction ms arbitrary: st) (auto intro: build_node_only)

text \<open>
  C28: A built pipeline is complete, and nothing but its sources and sinks. When \<^verbatim>\<open>Build\<close> returns a pipeline there is no
  error among its diagnostics and the graph passed every structural check; the pipeline has a source for
  exactly the source nodes of the graph, and a sink and a codec chain for exactly its sink nodes; every other
  node is a buffer or a transform, and for those nothing was constructed: their settings were checked and
  the pipeline runs without them. The in-flight budget in force is positive and the one the ledger and the
  disclosed replay budget both use.
\<close>
theorem built_pipeline_is_complete:
  assumes "Build L ord metrics (Some r) s d = Some b" and "bd_Pipeline b = Some p"
  shows "\<not> HasErrors (bd_Diags b) \<and> (\<exists>gd. validateGraph r s = Some gd \<and> \<not> HasErrors gd) \<and>
    dom (map_of (pl_sources p)) = ids_of {KindSource} (ps_Graph s) \<and>
    dom (map_of (pl_sinks p)) = ids_of {KindSink} (ps_Graph s) \<and> dom (map_of (pl_codecs p)) = ids_of {KindSink} (ps_Graph s) \<and>
    nd_Kind ` set (ps_Graph s) \<subseteq> {KindSource, KindSink, KindBuffer, KindTransform} \<and>
    {i. \<exists>x. Constructed i x \<in> set (bd_Log b)} \<subseteq> ids_of {KindSource, KindSink} (ps_Graph s) \<and>
    ps_LaneBudget (pl_spec p) > 0 \<and> cfg_DefaultBudget (led_cfg (pl_ledger p)) = ps_LaneBudget (pl_spec p) \<and>
    ng_ReplayBudget (pl_negotiated p) = ps_LaneBudget (pl_spec p)"
proof -
  obtain sc where sc: "dp_State d = Some sc"
    using assms(1,2) by (cases "dp_State d") (auto simp: Build_no_store refused_def)
  from assms(1) sc show ?thesis
  proof (cases rule: Build_cases)
    case 1
    with assms(2) show ?thesis by simp
  next
    case (2 gd st neg nd p')
    with assms(2) have p: "p' = p" by simp
    let ?e = "empty_state gd (snd (withDefaults d))"
    have fin: "bd_Pipeline (finish_build None s (fst (withDefaults d)) st (neg\<lparr>ng_Defaults := ng_Defaults neg @ bs_defaults st\<rparr>) nd) = Some p"
      using 2 p by simp
    have "\<not> HasErrors (bs_diags st)" using 2(3) by simp
    moreover have "grows ?e st" unfolding 2(2) by (rule build_nodes_grows)
    ultimately have gd: "\<not> HasErrors gd" using grows_errors by (fastforce simp: empty_state_def)
    have reg: "\<And>m. m \<in> set (ps_Graph s) \<Longrightarrow> reg_Has r (nd_Kind m) (nd_Name m)"
      by (rule node_diags_ok(1) [OF validateGraph_parts(4) [OF 2(1) gd]])
    have dn: "node_done st n" if "n \<in> set (ps_Graph s)" for n
      unfolding 2(2) by (rule build_nodes_done) (use 2(2,3) reg that in auto)
    have only: "only_nodes (ps_Graph s) st"
      unfolding 2(2) by (rule build_nodes_only) (simp_all add: only_nodes_def empty_state_def)
    have "bs_log st = map (\<lambda>(i, x). Constructed i x) (bs_built st)" unfolding 2(2) by (rule build_log)
    then have "{i. \<exists>x. Constructed i x \<in> set (bs_log st)} \<subseteq> fst ` set (bs_built st)" by force
    then have made: "{i. \<exists>x. Constructed i x \<in> set (bd_Log b)} \<subseteq> ids_of {KindSource, KindSink} (ps_Graph s)"
      using only unfolding only_nodes_def 2(9) by (meson subset_trans)
    have kinds: "nd_Kind ` set (ps_Graph s) \<subseteq> {KindSource, KindSink, KindBuffer, KindTransform}" using dn by (auto simp: node_done_def)
    have "ids_of {KindSource} (ps_Graph s) \<subseteq> dom (map_of (rv_sources (bs_res st)))"
      "ids_of {KindSink} (ps_Graph s) \<subseteq> dom (map_of (rv_sinks (bs_res st)))" "ids_of {KindSink} (ps_Graph s) \<subseteq> dom (map_of (rv_codecs (bs_res st)))"
      using dn unfolding ids_of_def node_done_def by auto
    then have doms: "dom (map_of (rv_sources (bs_res st))) = ids_of {KindSource} (ps_Graph s)"
      "dom (map_of (rv_sinks (bs_res st))) = ids_of {KindSink} (ps_Graph s)" "dom (map_of (rv_codecs (bs_res st))) = ids_of {KindSink} (ps_Graph s)"
      using only unfolding only_nodes_def by blast+
    have "ng_ReplayBudget neg = ps_LaneBudget s" using 2(4) by (auto simp: negotiate_def Let_def)
    with finish_build_pipeline [OF fin] 2(1,5,7) gd doms kinds made show ?thesis
      by (auto simp: defaultLaneBudget_def)
  qed
qed

lemma built0:
  obtains b p ch where "Build std0 id None (Some registry1) spec0 deps0 = Some b" "bd_Pipeline b = Some p"
    "map_of (pl_codecs p) ''out'' = Some (Some ch)" "cm_label (ec_Component (ch_encoder ch)) = ''json''"
    "map (\<lambda>(i, x). cm_label (rs_Source x)) (pl_sources p) = [''table'']"
    "map (\<lambda>(i, x). cm_label (rk_Sink x)) (pl_sinks p) = [''file'']"
proof -
  have "case Build std0 id None (Some registry1) spec0 deps0 of
      Some b \<Rightarrow> (case bd_Pipeline b of None \<Rightarrow> False | Some p \<Rightarrow>
        (case map_of (pl_codecs p) ''out'' of Some (Some ch) \<Rightarrow> cm_label (ec_Component (ch_encoder ch)) = ''json'' | _ \<Rightarrow> False) \<and>
        map (\<lambda>(i, x). cm_label (rs_Source x)) (pl_sources p) = [''table''] \<and>
        map (\<lambda>(i, x). cm_label (rk_Sink x)) (pl_sinks p) = [''file'']) | None \<Rightarrow> False" by code_simp
  then show thesis by (auto intro: that split: option.splits)
qed

theorem built_pipeline_is_complete_witness:
  "\<exists>b p. Build std0 id None (Some registry1) spec0 deps0 = Some b \<and> bd_Pipeline b = Some p \<and>
     dom (map_of (pl_sources p)) = {''in''} \<and> dom (map_of (pl_codecs p)) = {''out''} \<and>
     ng_ReplayBudget (pl_negotiated p) = ps_LaneBudget (pl_spec p) \<and> ps_LaneBudget (pl_spec p) > 0"
proof -
  obtain b p ch where b: "Build std0 id None (Some registry1) spec0 deps0 = Some b" "bd_Pipeline b = Some p" by (rule built0)
  have "ids_of {KindSource} (ps_Graph spec0) = {''in''}" "ids_of {KindSink} (ps_Graph spec0) = {''out''}"
    by (auto simp: ids_of_def spec0_def node_of_def)
  with built_pipeline_is_complete [OF b] b show ?thesis by simp
qed

text \<open>
  The encoders of a built pipeline are never closed. Every encoder of a codec chain was constructed by
  \<^verbatim>\<open>Build\<close>, and neither the build nor \<^verbatim>\<open>Pipeline.Close\<close> ever closes it, unless the very same object is also a
  source or a sink of the pipeline: a successful build forgets its list of closers, and \<^verbatim>\<open>Close\<close> gathers only
  the sources and the sinks.
\<close>
theorem encoder_of_built_pipeline_is_never_closed:
  assumes "Build L ord metrics (Some r) s d = Some b" and "bd_Pipeline b = Some p"
    and "map_of (pl_codecs p) i = Some (Some ch)"
    and "ec_Component (ch_encoder ch) \<notin> (\<lambda>(j, x). rs_Source x) ` set (pl_sources p) \<union> (\<lambda>(j, x). rk_Sink x) ` set (pl_sinks p)"
  shows "Constructed i (ec_Component (ch_encoder ch)) \<in> set (bd_Log b) \<and>
    Closed j (ec_Component (ch_encoder ch)) \<notin> set (bd_Log b @ pipeline_Close p)"
proof -
  obtain sc where sc: "dp_State d = Some sc"
    using assms(1,2) by (cases "dp_State d") (auto simp: Build_no_store refused_def)
  obtain gd st where st: "st = build_nodes L r (ps_Graph s) (empty_state gd (snd (withDefaults d)))"
    and codecs: "pl_codecs p = rv_codecs (bs_res st)" and evs: "bd_Log b = bs_log st"
    using assms(1) sc
  proof (cases rule: Build_cases)
    case 1
    with assms(2) show ?thesis by simp
  next
    case (2 gd st neg nd p')
    with assms(2) have "bd_Pipeline (finish_build None s (fst (withDefaults d)) st (neg\<lparr>ng_Defaults := ng_Defaults neg @ bs_defaults st\<rparr>) nd) = Some p"
      by simp
    from finish_build_pipeline [OF this] 2 show ?thesis by (intro that [of st gd]) auto
  qed
  have "chains_constructed st"
    unfolding st by (rule build_nodes_chains) (simp add: chains_constructed_def empty_state_def)
  with assms(3) have "(i, ec_Component (ch_encoder ch)) \<in> set (bs_built st)" by (simp add: chains_constructed_def codecs)
  moreover have "bs_log st = map (\<lambda>(i, x). Constructed i x) (bs_built st)" unfolding st by (rule build_log)
  ultimately show ?thesis
    using assms(4) by (force simp: evs pipeline_Close_def closeAll_def)
qed

theorem encoder_of_built_pipeline_is_never_closed_witness:
  "\<exists>b p enc. Build std0 id None (Some registry1) spec0 deps0 = Some b \<and> bd_Pipeline b = Some p \<and> cm_label enc = ''json'' \<and>
     Constructed ''out'' enc \<in> set (bd_Log b) \<and> Closed ''out'' enc \<notin> set (bd_Log b @ pipeline_Close p)"
proof -
  obtain b p ch where b: "Build std0 id None (Some registry1) spec0 deps0 = Some b" "bd_Pipeline b = Some p"
      "map_of (pl_codecs p) ''out'' = Some (Some ch)" and enc: "cm_label (ec_Component (ch_encoder ch)) = ''json''"
    and ss: "map (\<lambda>(i, x). cm_label (rs_Source x)) (pl_sources p) = [''table'']"
      "map (\<lambda>(i, x). cm_label (rk_Sink x)) (pl_sinks p) = [''file'']" by (rule built0)
  have "ec_Component (ch_encoder ch) \<notin> (\<lambda>(j, x). rs_Source x) ` set (pl_sources p) \<union> (\<lambda>(j, x). rk_Sink x) ` set (pl_sinks p)"
    using enc ss by (auto simp: map_eq_Cons_conv)
  from encoder_of_built_pipeline_is_never_closed [OF b this] b enc show ?thesis by blast
qed

end
