(* ===== verification/Canal_Control.thy ===== *)
theory Canal_Control
  imports Canal_Build Canal_Commit
begin

text \<open>
  The control loop of a source, \<^verbatim>\<open>internal/engine/control.go\<close>: what is remembered of a lane while a run lasts,
  and the three calls a tick makes, heartbeats for quiet lanes, a bounded number of backlog polls and the
  delivery of queued nacks. The queue of nacks is the field of the runner the write path fills.

  The optional interfaces of a source are parameters acting on the world \<open>'w\<close>; an absent one is \<open>None\<close>. Every
  method of \<^verbatim>\<open>laneActivity\<close> runs under its mutex and is one step. Logs and metrics are left out.
\<close>

section \<open>What is remembered of a lane\<close>

record backlog =
  bk_Records :: "nat option"
  bk_Bytes :: "nat option"
  bk_Exact :: bool
  bk_AsOf :: time
  bk_EventTimeLag :: "duration option"

record backlog_view =
  bv_Records :: "nat option"
  bv_Bytes :: "nat option"
  bv_Exact :: bool
  bv_AsOf :: time

record lane_activity =
  la_lastRecord :: "(lane_id \<times> time) list"
  la_idleSince :: "(lane_id \<times> time) list"
  la_backlog :: "(lane_id \<times> backlog_view) list"
  la_eventLag :: "(lane_id \<times> duration) list"
  la_next :: nat

definition newLaneActivity :: lane_activity where
  "newLaneActivity = \<lparr>la_lastRecord = [], la_idleSince = [], la_backlog = [], la_eventLag = [], la_next = 0\<rparr>"

definition saw :: "lane_id \<Rightarrow> time \<Rightarrow> lane_activity \<Rightarrow> lane_activity" where
  "saw lane now a = a\<lparr>la_lastRecord := aput lane now (la_lastRecord a), la_idleSince := adel lane (la_idleSince a)\<rparr>"

definition quietFor :: "lane_id \<Rightarrow> time \<Rightarrow> time \<Rightarrow> lane_activity \<Rightarrow> duration" where
  "quietFor lane now since a = now - (case map_of (la_lastRecord a) lane of None \<Rightarrow> since | Some t \<Rightarrow> t)"

definition reportedIdle :: "lane_id \<Rightarrow> time \<Rightarrow> lane_activity \<Rightarrow> lane_activity" where
  "reportedIdle lane since a =
     (if map_of (la_idleSince a) lane = None then a\<lparr>la_idleSince := aput lane since (la_idleSince a)\<rparr> else a)"

definition setBacklog :: "lane_id \<Rightarrow> backlog_view \<Rightarrow> lane_activity \<Rightarrow> lane_activity" where
  "setBacklog lane b a = a\<lparr>la_backlog := aput lane b (la_backlog a)\<rparr>"

definition setEventTimeLag :: "lane_id \<Rightarrow> duration \<Rightarrow> lane_activity \<Rightarrow> lane_activity" where
  "setEventTimeLag lane d a = a\<lparr>la_eventLag := aput lane d (la_eventLag a)\<rparr>"

definition observed :: "lane_id \<Rightarrow> lane_activity \<Rightarrow> time \<times> backlog_view option \<times> duration option" where
  "observed lane a = (case map_of (la_idleSince a) lane of None \<Rightarrow> 0 | Some t \<Rightarrow> t, map_of (la_backlog a) lane, map_of (la_eventLag a) lane)"

definition nextLanes :: "lane_id list \<Rightarrow> nat \<Rightarrow> lane_activity \<Rightarrow> lane_activity \<times> lane_id list" where
  "nextLanes all n a =
     (if all = [] then (a, [])
      else if n \<ge> length all then (a, all)
      else let start = la_next a mod length all in
        (a\<lparr>la_next := (start + n) mod length all\<rparr>, map (\<lambda>i. all ! ((start + i) mod length all)) [0..<n]))"

definition maxBacklogPollsPerTick :: nat where "maxBacklogPollsPerTick = 32"

section \<open>The queue of nacks\<close>

definition takeNacks :: "('v, 'w) runner \<Rightarrow> ('v, 'w) runner \<times> (lane_id \<times> nack list) list" where
  "takeNacks r = (r\<lparr>rn_nacks := []\<rparr>, rn_nacks r)"

definition returnNacks :: "lane_id \<Rightarrow> nack list \<Rightarrow> ('v, 'w) runner \<Rightarrow> ('v, 'w) runner" where
  "returnNacks lane ns r =
     r\<lparr>rn_nacks := aput lane (ns @ (case map_of (rn_nacks r) lane of None \<Rightarrow> [] | Some q \<Rightarrow> q)) (rn_nacks r)\<rparr>"

section \<open>One tick\<close>

record 'w source_ctl =
  sx_Name :: string
  sx_Heartbeat :: "(lane_id \<Rightarrow> duration \<Rightarrow> 'w \<Rightarrow> 'w \<times> unit call) option"
  sx_Backlog :: "(lane_id \<Rightarrow> 'w \<Rightarrow> 'w \<times> backlog call) option"
  sx_Nack :: "(lane_id \<Rightarrow> nack list \<Rightarrow> 'w \<Rightarrow> 'w \<times> unit call) option"

record ('v, 'w) control =
  ct_run :: "('v, 'w) runner"
  ct_act :: lane_activity

definition liveLanes :: "node_id \<Rightarrow> (node_id \<times> lane_ctl) list \<Rightarrow> lane_id list" where
  "liveLanes nid ctls =
     (case map_of ctls nid of
        None \<Rightarrow> []
      | Some lc \<Rightarrow> filter (\<lambda>lane. case map_of (lc_lanes lc) lane of Some rec \<Rightarrow> \<not> lx_Finished rec | None \<Rightarrow> False) (lc_order lc))"

definition sourceOfLane :: "lane_id \<Rightarrow> (node_id \<times> lane_ctl) list \<Rightarrow> node_id option" where
  "sourceOfLane lane ctls = map_option fst (find (\<lambda>(_, lc). lc_has lane lc) ctls)"

definition laneOrdering :: "node_id \<Rightarrow> lane_id \<Rightarrow> (node_id \<times> lane_ctl) list \<Rightarrow> ordering" where
  "laneOrdering node lane ctls =
     (case map_of ctls node of
        None \<Rightarrow> OrderingPrefix
      | Some lc \<Rightarrow> (case map_of (lc_lanes lc) lane of Some rec \<Rightarrow> sp_Ordering (lx_Spec rec) | None \<Rightarrow> OrderingPrefix))"

definition heartbeat_lane :: "'w source_ctl \<Rightarrow> (lane_id \<Rightarrow> duration \<Rightarrow> 'w \<Rightarrow> 'w \<times> unit call) \<Rightarrow> time \<Rightarrow> time \<Rightarrow> duration \<Rightarrow>
    lane_id \<Rightarrow> ('v, 'w) control \<Rightarrow> ('v, 'w) control" where
  "heartbeat_lane src hb now started interval lane c =
     (let quiet = quietFor lane now started (ct_act c) in
      if quiet < interval then c
      else case sandbox (sx_Name src) (hb lane quiet (rn_world (ct_run c))) of
          (w, Inl e) \<Rightarrow> c\<lparr>ct_run := (ct_run c)\<lparr>rn_world := w\<rparr>\<rparr>
        | (w, Inr _) \<Rightarrow> c\<lparr>ct_run := (ct_run c)\<lparr>rn_world := w\<rparr>, ct_act := reportedIdle lane (now - quiet) (ct_act c)\<rparr>)"

definition heartbeatQuietLanes :: "'w source_ctl \<Rightarrow> time \<Rightarrow> time \<Rightarrow> duration \<Rightarrow> lane_id list \<Rightarrow> ('v, 'w) control \<Rightarrow> ('v, 'w) control" where
  "heartbeatQuietLanes src now started interval lanes c =
     (case sx_Heartbeat src of
        None \<Rightarrow> c
      | Some hb \<Rightarrow> foldl (\<lambda>c lane. heartbeat_lane src hb now started interval lane c) c lanes)"

definition poll_lane :: "'w source_ctl \<Rightarrow> (lane_id \<Rightarrow> 'w \<Rightarrow> 'w \<times> backlog call) \<Rightarrow> (lane_id \<Rightarrow> time) \<Rightarrow> lane_id \<Rightarrow> ('v, 'w) control \<Rightarrow>
    ('v, 'w) control" where
  "poll_lane src bl asked lane c =
     (case sandbox (sx_Name src) (bl lane (rn_world (ct_run c))) of
        (w, Inl e) \<Rightarrow> c\<lparr>ct_run := (ct_run c)\<lparr>rn_world := w\<rparr>\<rparr>
      | (w, Inr got) \<Rightarrow>
          let v = \<lparr>bv_Records = bk_Records got, bv_Bytes = bk_Bytes got, bv_Exact = bk_Exact got,
                   bv_AsOf = (if time_is_zero (bk_AsOf got) then asked lane else bk_AsOf got)\<rparr>;
              a = setBacklog lane v (ct_act c);
              a = (case bk_EventTimeLag got of None \<Rightarrow> a | Some d \<Rightarrow> setEventTimeLag lane d a)
          in c\<lparr>ct_run := (ct_run c)\<lparr>rn_world := w\<rparr>, ct_act := a\<rparr>)"

definition pollBacklogs :: "'w source_ctl \<Rightarrow> (lane_id \<Rightarrow> time) \<Rightarrow> lane_id list \<Rightarrow> ('v, 'w) control \<Rightarrow> ('v, 'w) control" where
  "pollBacklogs src asked lanes c =
     (case sx_Backlog src of
        None \<Rightarrow> c
      | Some bl \<Rightarrow>
          (case nextLanes lanes maxBacklogPollsPerTick (ct_act c) of
             (a, polled) \<Rightarrow> foldl (\<lambda>c lane. poll_lane src bl asked lane c) (c\<lparr>ct_act := a\<rparr>) polled))"

definition drain_lane :: "'w source_ctl \<Rightarrow> (lane_id \<Rightarrow> nack list \<Rightarrow> 'w \<Rightarrow> 'w \<times> unit call) \<Rightarrow> lane_id \<times> nack list \<Rightarrow> ('v, 'w) runner \<Rightarrow>
    ('v, 'w) runner" where
  "drain_lane src nk x r =
     (case x of (lane, ns) \<Rightarrow>
        if ns = [] then r
        else case sandbox (sx_Name src) (nk lane ns (rn_world r)) of
            (w, Inl e) \<Rightarrow> returnNacks lane ns (r\<lparr>rn_world := w\<rparr>)
          | (w, Inr _) \<Rightarrow> r\<lparr>rn_world := w\<rparr>)"

definition drainNacks :: "'w source_ctl \<Rightarrow> ('v, 'w) runner \<Rightarrow> ('v, 'w) runner" where
  "drainNacks src r =
     (case sx_Nack src of
        None \<Rightarrow> r
      | Some nk \<Rightarrow> (case takeNacks r of (r1, m) \<Rightarrow> foldl (\<lambda>r x. drain_lane src nk x r) r1 m))"

text \<open>The body of the loop for a source that declares one of the three, and its last act when it is stopped.\<close>

definition control_tick :: "'w source_ctl \<Rightarrow> time \<Rightarrow> time \<Rightarrow> duration \<Rightarrow> (lane_id \<Rightarrow> time) \<Rightarrow> lane_id list \<Rightarrow> ('v, 'w) control \<Rightarrow>
    ('v, 'w) control" where
  "control_tick src now started interval asked lanes c =
     (let c = heartbeatQuietLanes src now started interval lanes c;
          c = pollBacklogs src asked lanes c
      in c\<lparr>ct_run := drainNacks src (ct_run c)\<rparr>)"

definition control_stop :: "'w source_ctl \<Rightarrow> ('v, 'w) control \<Rightarrow> ('v, 'w) control" where
  "control_stop src c = c\<lparr>ct_run := drainNacks src (ct_run c)\<rparr>"

definition controlIntervalFor :: "std \<Rightarrow> deps \<Rightarrow> config option \<Rightarrow> duration" where
  "controlIntervalFor L d cfg =
     (case cfg of
        None \<Rightarrow> dp_ControlInterval d
      | Some c \<Rightarrow>
          if \<not> cfg_Has c [FieldHeartbeatInterval] then dp_ControlInterval d
          else case snd (Get (ParseDuration L) c [FieldHeartbeatInterval]) of
              Inl _ \<Rightarrow> dp_ControlInterval d
            | Inr x \<Rightarrow> if x \<le> 0 then dp_ControlInterval d else x)"

section \<open>Polling goes round\<close>

fun polls :: "lane_id list \<Rightarrow> nat \<Rightarrow> nat \<Rightarrow> lane_activity \<Rightarrow> lane_id list" where
  "polls all n 0 a = []"
| "polls all n (Suc t) a = (case nextLanes all n a of (a', xs) \<Rightarrow> xs @ polls all n t a')"

lemma polls_consecutive:
  assumes "0 < n" and "n < length all"
  shows "polls all n t a = map (\<lambda>i. all ! ((la_next a + i) mod length all)) [0..<t * n]"
proof (induction t arbitrary: a)
  case (Suc t)
  let ?m = "length all"
  let ?a = "a\<lparr>la_next := (la_next a mod ?m + n) mod ?m\<rparr>"
  have nl: "nextLanes all n a = (?a, map (\<lambda>i. all ! ((la_next a + i) mod ?m)) [0..<n])"
    using assms by (auto simp: nextLanes_def Let_def mod_add_left_eq)
  have "polls all n t ?a = map (\<lambda>i. all ! ((la_next a + i) mod ?m)) [n..<n + t * n]"
    unfolding Suc [of ?a]
    by (rule nth_equalityI) (auto simp: mod_simps ac_simps)
  then show ?case unfolding polls.simps nl prod.case
    by (simp add: map_append [symmetric] upt_add_eq_append [of 0 n "t * n", simplified] del: map_append)
qed simp

lemma polls_all:
  assumes "0 < n" and "0 < t" and "length all \<le> t * n"
  shows "set all \<subseteq> set (polls all n t a)"
proof (cases "n < length all")
  case True
  show ?thesis
  proof
    fix x assume "x \<in> set all"
    then obtain k where k: "k < length all" "x = all ! k" by (auto simp: in_set_conv_nth)
    let ?m = "length all"
    let ?i = "(k + (?m - la_next a mod ?m)) mod ?m"
    have m: "la_next a mod ?m < ?m" using k(1) by (intro mod_less_divisor) linarith
    have "(la_next a + ?i) mod ?m = (la_next a mod ?m + (k + (?m - la_next a mod ?m))) mod ?m"
      by (simp add: mod_simps)
    also have "\<dots> = k" using k(1) m by simp
    finally have "(la_next a + ?i) mod ?m = k" .
    moreover have "?i < t * n" using mod_less_divisor [of ?m "k + (?m - la_next a mod ?m)"] k(1) assms(3) by linarith
    ultimately show "x \<in> set (polls all n t a)"
      unfolding polls_consecutive [OF assms(1) True] k(2) by force
  qed
next
  case False
  with assms(2) show ?thesis by (cases t) (auto simp: nextLanes_def)
qed

section \<open>What a tick does\<close>

lemma poll_lane_act:
  "la_next (ct_act (poll_lane src bl asked lane c)) = la_next (ct_act c)"
  "map_of (la_backlog (ct_act c)) k \<noteq> None \<Longrightarrow> map_of (la_backlog (ct_act (poll_lane src bl asked lane c))) k \<noteq> None"
  by (auto simp: poll_lane_def setBacklog_def setEventTimeLag_def Let_def split: prod.splits sum.splits option.splits)

lemma poll_lane_answered:
  "snd (bl lane (rn_world (ct_run c))) = Returned b \<Longrightarrow> map_of (la_backlog (ct_act (poll_lane src bl asked lane c))) lane \<noteq> None"
  by (auto simp: poll_lane_def setBacklog_def setEventTimeLag_def sandbox_def Let_def split: prod.splits option.splits)

definition always_answers :: "('a \<Rightarrow> 'w \<Rightarrow> 'w \<times> 'r call) \<Rightarrow> bool" where
  "always_answers f \<longleftrightarrow> (\<forall>x w. \<exists>b. snd (f x w) = Returned b)"

lemma poll_lanes_act:
  assumes "always_answers bl"
  shows "la_next (ct_act (foldl (\<lambda>c lane. poll_lane src bl asked lane c) c xs)) = la_next (ct_act c) \<and>
    (\<forall>k. k \<in> set xs \<or> map_of (la_backlog (ct_act c)) k \<noteq> None \<longrightarrow>
       map_of (la_backlog (ct_act (foldl (\<lambda>c lane. poll_lane src bl asked lane c) c xs))) k \<noteq> None)"
proof (induction xs arbitrary: c)
  case (Cons x xs)
  obtain b where b: "snd (bl x (rn_world (ct_run c))) = Returned b" using assms unfolding always_answers_def by blast
  let ?c = "poll_lane src bl asked x c"
  have keep: "map_of (la_backlog (ct_act c)) k \<noteq> None \<Longrightarrow> map_of (la_backlog (ct_act ?c)) k \<noteq> None" for k by (rule poll_lane_act(2))
  have "map_of (la_backlog (ct_act ?c)) x \<noteq> None" by (rule poll_lane_answered, rule b)
  with Cons [of ?c] keep poll_lane_act(1) [of src bl asked x c] show ?case by (auto simp del: not_None_eq)
qed simp

lemma nextLanes_next: "la_next a = la_next b \<Longrightarrow> la_next (fst (nextLanes all n a)) = la_next (fst (nextLanes all n b)) \<and>
    snd (nextLanes all n a) = snd (nextLanes all n b)"
  by (simp add: nextLanes_def Let_def)

lemma polls_next: "la_next a = la_next b \<Longrightarrow> polls all n t a = polls all n t b"
proof (induction t arbitrary: a b)
  case (Suc t)
  have "polls all n t (fst (nextLanes all n a)) = polls all n t (fst (nextLanes all n b))"
    by (rule Suc.IH) (use nextLanes_next [OF Suc.prems] in blast)
  with nextLanes_next [OF Suc.prems, of all n] show ?case by (simp add: case_prod_beta)
qed simp

lemma nextLanes_backlog: "nextLanes all n a = (a', xs) \<Longrightarrow> la_backlog a' = la_backlog a"
  by (auto simp: nextLanes_def Let_def split: if_splits)

lemma poll_ticks:
  assumes "sx_Backlog src = Some bl" and "always_answers bl"
  shows "k \<in> set (polls lanes maxBacklogPollsPerTick t (ct_act c)) \<or> map_of (la_backlog (ct_act c)) k \<noteq> None \<Longrightarrow>
    map_of (la_backlog (ct_act ((pollBacklogs src asked lanes ^^ t) c))) k \<noteq> None"
proof (induction t arbitrary: c)
  case (Suc t)
  let ?n = maxBacklogPollsPerTick
  obtain a' xs where nl: "nextLanes lanes ?n (ct_act c) = (a', xs)" by fastforce
  let ?c = "pollBacklogs src asked lanes c"
  have c: "?c = foldl (\<lambda>c lane. poll_lane src bl asked lane c) (c\<lparr>ct_act := a'\<rparr>) xs"
    by (simp add: pollBacklogs_def assms(1) nl)
  note act = poll_lanes_act [where src = src and asked = asked and c = "c\<lparr>ct_act := a'\<rparr>" and xs = xs, OF assms(2), folded c]
  have same: "polls lanes ?n t (ct_act ?c) = polls lanes ?n t a'" by (rule polls_next) (use act in simp)
  have "k \<in> set (polls lanes ?n t (ct_act ?c)) \<or> map_of (la_backlog (ct_act ?c)) k \<noteq> None"
    using Suc.prems act nextLanes_backlog [OF nl] unfolding same by (auto simp: nl)
  from Suc.IH [OF this] show ?case by (simp add: funpow_swap1)
qed simp

text \<open>
  Every lane's backlog is polled. A tick polls at most 32 lanes; with a source that answers, after as many
  ticks as it takes to go round the lanes once, every lane has a backlog to show, whatever was polled before.
\<close>
theorem every_lane_is_polled:
  assumes "sx_Backlog src = Some bl" and "always_answers bl"
    and "0 < t" and "length lanes \<le> t * maxBacklogPollsPerTick" and "lane \<in> set lanes"
  shows "\<exists>b. map_of (la_backlog (ct_act ((pollBacklogs src asked lanes ^^ t) c))) lane = Some b"
proof -
  have "0 < maxBacklogPollsPerTick" by (simp add: maxBacklogPollsPerTick_def)
  from polls_all [OF this assms(3,4)] assms(5)
  have "lane \<in> set (polls lanes maxBacklogPollsPerTick t (ct_act c))" by blast
  with poll_ticks [OF assms(1,2)] show ?thesis by blast
qed

definition ex_ctl :: "(lane_id \<times> nack list) list source_ctl" where
  "ex_ctl = \<lparr>sx_Name = ''q'', sx_Heartbeat = None,
     sx_Backlog = Some (\<lambda>lane w. (w, Returned \<lparr>bk_Records = Some 7, bk_Bytes = None, bk_Exact = True, bk_AsOf = 1, bk_EventTimeLag = None\<rparr>)),
     sx_Nack = Some (\<lambda>lane ns w. (w @ [(lane, ns)], Returned ()))\<rparr>"

definition ex_control :: "(unit, (lane_id \<times> nack list) list) control" where
  "ex_control = \<lparr>ct_run = \<lparr>rn_world = [], rn_ledger = Canal_Ledger.New \<lparr>cfg_Tenant = ''t'', cfg_Pipeline = ''p'', cfg_DefaultBudget = 1, cfg_GroupTTL = 1\<rparr>,
     rn_outs = [], rn_pending = [], rn_covered = [], rn_nacks = [], rn_failure = None\<rparr>, ct_act = newLaneActivity\<lparr>la_next := 3\<rparr>\<rparr>"

theorem every_lane_is_polled_witness:
  "\<exists>b. map_of (la_backlog (ct_act ((pollBacklogs ex_ctl (\<lambda>_. 1) (map FormatUint [0..<40]) ^^ 2) ex_control))) (FormatUint 17) = Some b"
  by (rule every_lane_is_polled [where bl = "the (sx_Backlog ex_ctl)"]) (auto simp: ex_ctl_def always_answers_def maxBacklogPollsPerTick_def)

lemma drain_lanes:
  assumes "always_answers (\<lambda>(lane, ns) w. nk lane ns w)"
  shows "rn_nacks (foldl (\<lambda>r x. drain_lane src nk x r) r m) = rn_nacks r \<and>
    rn_world (foldl (\<lambda>r x. drain_lane src nk x r) r m) =
      foldl (\<lambda>w (lane, ns). fst (nk lane ns w)) (rn_world r) (filter (\<lambda>(_, ns). ns \<noteq> []) m)"
proof (induction m arbitrary: r)
  case (Cons x m)
  obtain lane ns where x: "x = (lane, ns)" by fastforce
  obtain w where "nk lane ns (rn_world r) = (w, Returned ())"
    using assms unfolding always_answers_def by (metis (mono_tags, lifting) case_prod_conv old.unit.exhaust prod.collapse)
  then have "drain_lane src nk x r = (if ns = [] then r else r\<lparr>rn_world := fst (nk lane ns (rn_world r))\<rparr>)"
    by (simp add: drain_lane_def x sandbox_def)
  with Cons [of "drain_lane src nk x r"] show ?case by (simp add: x)
qed simp

text \<open>
  Nacks go to whichever source ticks first. The queue is shared by all sources of a run and a drain takes all
  of it: a source that accepts nacks is handed the nacks of every lane, also of lanes another source node
  owns, and nothing is left for the source whose records they are.
\<close>
theorem nacks_go_to_whoever_ticks_first:
  assumes "sx_Nack src = Some nk" and "always_answers (\<lambda>(lane, ns) w. nk lane ns w)"
  shows "rn_nacks (drainNacks src r) = [] \<and>
    rn_world (drainNacks src r) = foldl (\<lambda>w (lane, ns). fst (nk lane ns w)) (rn_world r) (filter (\<lambda>(_, ns). ns \<noteq> []) (rn_nacks r))"
  using drain_lanes [OF assms(2), of src "r\<lparr>rn_nacks := []\<rparr>" "rn_nacks r"] by (simp add: drainNacks_def assms(1) takeNacks_def)

definition ex_nack :: nack where
  "ex_nack = \<lparr>nk_Handle = Some ''h'', nk_Position = zero_position, nk_Class = PermanentMapping, nk_Reason = ReasonTerminalFault, nk_Attempts = 1\<rparr>"

text \<open>The lane \<open>b\<close> belongs to the second source; the first one, which only knows \<open>a\<close>, is handed its nack.\<close>

theorem nacks_go_to_whoever_ticks_first_witness:
  "let r = (ct_run ex_control)\<lparr>rn_nacks := [(''a'', []), (''b'', [ex_nack])]\<rparr> in
     rn_world (drainNacks ex_ctl r) = [(''b'', [ex_nack])] \<and> rn_nacks (drainNacks ex_ctl r) = []"
proof -
  let ?nk = "\<lambda>lane ns w. (w @ [(lane, ns)], Returned ()) :: (lane_id \<times> nack list) list \<times> unit call"
  let ?r = "(ct_run ex_control)\<lparr>rn_nacks := [(''a'', []), (''b'', [ex_nack])]\<rparr>"
  have nk: "sx_Nack ex_ctl = Some ?nk" by (simp add: ex_ctl_def)
  have "always_answers (\<lambda>(lane, ns) w. ?nk lane ns w)" by (simp add: always_answers_def case_prod_beta)
  from nacks_go_to_whoever_ticks_first [OF nk this, of ?r] show ?thesis by (simp add: ex_control_def)
qed

text \<open>A refused delivery is kept, in order and in front of what was queued meanwhile, and however long the queue is.\<close>

lemma refused_nacks_are_kept:
  "ns \<noteq> [] \<Longrightarrow> snd (nk lane ns (rn_world r)) = ReturnedErr e \<Longrightarrow>
     map_of (rn_nacks (drain_lane src nk (lane, ns) r)) lane = Some (ns @ (case map_of (rn_nacks r) lane of None \<Rightarrow> [] | Some q \<Rightarrow> q))"
  by (simp add: drain_lane_def sandbox_def returnNacks_def split: prod.splits)

text \<open>A lane is reported idle only after its source accepted a heartbeat for it.\<close>

lemma idle_means_told:
  assumes "map_of (la_idleSince (ct_act (heartbeat_lane src hb now started interval lane c))) k \<noteq> map_of (la_idleSince (ct_act c)) k"
  shows "k = lane \<and> quietFor lane now started (ct_act c) \<ge> interval \<and> (\<exists>u. snd (hb lane (quietFor lane now started (ct_act c)) (rn_world (ct_run c))) = Returned u)"
  using assms
  by (auto simp: heartbeat_lane_def reportedIdle_def sandbox_def Let_def split: if_splits prod.splits call.splits sum.splits)

end
