(* ===== verification/Canal_Read.thy ===== *)
theory Canal_Read
  imports Canal_Control
begin

text \<open>
  The read path: \<^verbatim>\<open>internal/engine/read.go\<close>, \<^verbatim>\<open>clock.go\<close> and \<^verbatim>\<open>readLoop\<close>, \<^verbatim>\<open>readLane\<close> and \<^verbatim>\<open>whenFullFor\<close> of \<^verbatim>\<open>run.go\<close>.

  A source is a parameter acting on the world: a read gets a batch and the allocator bound to it and hands both
  back, filled, with the way the call ended; a lane reader gets one pair per lane. One turn of a read loop
  consumes one \<open>turn\<close>: what the context, the clock, the leases and the random generator answer during it, what
  other goroutines do while an admission waits for room, and the rounds of the writes it makes. A turn that
  finds the admission or a write still waiting has no result. Between turns other goroutines may act, so a
  turn starts from any state. Logs and metrics are left out; error texts are abbreviated.
\<close>

section \<open>The clock check\<close>

record clock_check =
  cq_max :: duration
  cq_behave :: clock_behaviour

definition clockFor :: "spec \<Rightarrow> clock_check" where
  "clockFor s = \<lparr>cq_max = cl_MaxSkew (ps_Clock s), cq_behave = cl_Behaviour (ps_Clock s)\<rparr>"

definition clock_enabled :: "clock_check \<Rightarrow> bool" where
  "clock_enabled c \<longleftrightarrow> cq_max c > 0"

definition ahead :: "clock_check \<Rightarrow> time \<Rightarrow> ('v, err) rec \<Rightarrow> bool" where
  "ahead c now rc \<longleftrightarrow> \<not> time_is_zero (rec_EventTime rc) \<and> rec_EventTime rc > now + cq_max c"

definition clamped :: "time \<Rightarrow> ('v, err) rec \<Rightarrow> ('v, err) rec" where
  "clamped now rc = rc\<lparr>rec_EventTime := now,
     rec_Meta := meta_NoteChange \<lparr>fc_Path = ''event_time'', fc_Kind = FieldRounded, fc_Detail = ''clamped to now''\<rparr> (rec_Meta rc)\<rparr>"

fun apply_clock :: "('v, 'w) write_env \<Rightarrow> clock_check \<Rightarrow> time \<Rightarrow> ('v, err) rec list \<Rightarrow> ('v, err) rec list \<Rightarrow> ('v, 'w) runner \<Rightarrow>
    ('v, 'w) runner \<times> (err + ('v, err) rec list)" where
  "apply_clock we c now [] kept r = (r, Inr kept)"
| "apply_clock we c now (rc # rcs) kept r =
     (if \<not> ahead c now rc then apply_clock we c now rcs (kept @ [rc]) r
      else case cq_behave c of
          ClockReject \<Rightarrow>
            (case deadLetter we rc r of
               (r1, Some e) \<Rightarrow> (r1, Inl e)
             | (r1, None) \<Rightarrow> apply_clock we c now rcs kept r1)
        | ClockPass \<Rightarrow> apply_clock we c now rcs (kept @ [rc]) r
        | ClockClamp \<Rightarrow> apply_clock we c now rcs (kept @ [clamped now rc]) r)"

definition applyClock :: "('v, 'w) write_env \<Rightarrow> clock_check \<Rightarrow> time \<Rightarrow> ('v, err) batch \<Rightarrow> ('v, 'w) runner \<Rightarrow>
    ('v, 'w) runner \<times> ('v, err) batch \<times> err option" where
  "applyClock we c now b r =
     (if \<not> clock_enabled c \<or> batch_Len b = 0 then (r, b, None)
      else case apply_clock we c now (b_Records b) [] r of
          (r1, Inl e) \<Rightarrow> (r1, b, Some e)
        | (r1, Inr kept) \<Rightarrow> (r1, b\<lparr>b_Records := kept\<rparr>, None))"

definition whenFullFor :: "spec \<Rightarrow> config option \<Rightarrow> when_full" where
  "whenFullFor s cfg =
     (case cfg of
        None \<Rightarrow> ps_WhenFull s
      | Some c \<Rightarrow>
          if \<not> cfg_Has c [FieldWhenFull] then ps_WhenFull s
          else case snd (Get coerce_string c [FieldWhenFull]) of
              Inl _ \<Rightarrow> ps_WhenFull s
            | Inr raw \<Rightarrow> (case ParseWhenFull raw of None \<Rightarrow> ps_WhenFull s | Some w \<Rightarrow> w))"

section \<open>Record identity\<close>

definition laneIDShift :: nat where "laneIDShift = 44"
definition maxLanesPerRun :: nat where "maxLanesPerRun = 2 ^ (64 - laneIDShift)"

text \<open>The counter \<^verbatim>\<open>laneOrdinal\<close> is the argument \<open>n\<close>, returned incremented.\<close>

definition allocatorFor :: "tenant_id \<Rightarrow> pipeline_id \<Rightarrow> node_id \<Rightarrow> lane_assignment \<Rightarrow> nat \<Rightarrow> nat \<times> (err + allocator)" where
  "allocatorFor t p node lane n =
     (n + 1,
      if n \<ge> maxLanesPerRun then Inl (Internal FOpRead (Some (Plain ''engine: every id slice is used'')))
      else let base = n * 2 ^ laneIDShift in
        Inr (NewAllocator t p node (la_ID lane) (sp_Stream (la_Spec lane)) (base + 1) (base + 1)))"

section \<open>Admitting one batch\<close>

datatype ('v, 'w, 's) wake = Woken "('v, 'w, 's) engine \<Rightarrow> ('v, 'w, 's) engine" | Cancelled

record ('v, 'w, 's) turn =
  tn_done :: bool
  tn_leases :: lease_table
  tn_heldAt :: time
  tn_clockAt :: "lane_id \<Rightarrow> time"
  tn_sawAt :: "lane_id \<Rightarrow> time"
  tn_admitAt :: "lane_id \<Rightarrow> time"
  tn_wakes :: "lane_id \<Rightarrow> ('v, 'w, 's) wake list"
  tn_ctxErr :: "lane_id \<Rightarrow> bool"
  tn_rounds :: "lane_id \<Rightarrow> write_round list list"
  tn_finishAt :: "lane_id \<Rightarrow> time"
  tn_started :: time
  tn_routeAt :: time
  tn_draw :: int
  tn_sleep :: "err option"

fun admit_wait :: "time \<Rightarrow> admission \<Rightarrow> ('v, 'w, 's) wake list \<Rightarrow> ('v, 'w, 's) engine \<Rightarrow>
    (('v, 'w, 's) engine \<times> (ledger_error + tracked_as)) option" where
  "admit_wait now ad wakes en =
     (case Admit_track now ad (rn_ledger (en_run en)) of
        (l, Ready x) \<Rightarrow> Some (en\<lparr>en_run := (en_run en)\<lparr>rn_ledger := l\<rparr>\<rparr>, x)
      | (l, Blocked) \<Rightarrow>
          (case wakes of
             [] \<Rightarrow> None
           | Cancelled # _ \<Rightarrow> Some (en\<lparr>en_run := (en_run en)\<lparr>rn_ledger := l\<rparr>\<rparr>, Inl LedCtx)
           | Woken f # ws \<Rightarrow> admit_wait now ad ws (f (en\<lparr>en_run := (en_run en)\<lparr>rn_ledger := l\<rparr>\<rparr>))))"

text \<open>\<^verbatim>\<open>Ledger.Admit\<close> on the engine's ledger; the batch comes back with its position numbered.\<close>

definition admit_ledger :: "('v, 'w, 's) turn \<Rightarrow> ('v, err) batch \<Rightarrow> ('v, 'w, 's) engine \<Rightarrow>
    (('v, 'w, 's) engine \<times> ('v, err) batch \<times> ledger_error option) option" where
  "admit_ledger tn b en =
     (case Admit_begin (tn_admitAt tn (b_Lane b)) b (rn_ledger (en_run en)) of
        (l1, Inl e) \<Rightarrow> Some (en\<lparr>en_run := (en_run en)\<lparr>rn_ledger := l1\<rparr>\<rparr>, b, Some e)
      | (l1, Inr (b', ad)) \<Rightarrow>
          (case admit_wait (tn_admitAt tn (b_Lane b)) ad (tn_wakes tn (b_Lane b)) (en\<lparr>en_run := (en_run en)\<lparr>rn_ledger := l1\<rparr>\<rparr>) of
             None \<Rightarrow> None
           | Some (en2, Inl e) \<Rightarrow> Some (en2, b', Some e)
           | Some (en2, Inr how) \<Rightarrow>
               (case Admit_end ad how (rn_ledger (en_run en2)) of
                  (l3, e) \<Rightarrow> Some (en2\<lparr>en_run := (en_run en2)\<lparr>rn_ledger := l3\<rparr>\<rparr>, b', e))))"

definition is_shed :: "ledger_error \<Rightarrow> bool" where
  "is_shed e \<longleftrightarrow> (case e of LedShed _ _ \<Rightarrow> True | _ \<Rightarrow> False)"

definition led_err :: "ledger_error \<Rightarrow> err" where
  "led_err e =
     (case e of
        LedFenced \<Rightarrow> ErrFenced
      | LedTrackerClosed \<Rightarrow> Plain ''tracker is closed''
      | LedCtx \<Rightarrow> Plain ''context canceled''
      | LedShed _ _ \<Rightarrow> Plain ''the lane is full''
      | _ \<Rightarrow> Contract FOpBuffer (Some (Plain ''ledger'')))"

definition admit_fault :: "node_id \<Rightarrow> ledger_error \<Rightarrow> err" where
  "admit_fault node e = Wrap (''engine: admitting a batch from '' @ node) (led_err e)"

definition fail_en :: "err \<Rightarrow> ('v, 'w, 's) engine \<Rightarrow> ('v, 'w, 's) engine" where
  "fail_en e en = en\<lparr>en_run := fail (Some e) (en_run en)\<rparr>"

record ('v, 'w, 's) reading =
  rg_en :: "('v, 'w, 's) engine"
  rg_act :: lane_activity
  rg_attempt :: attempt
  rg_idle :: nat

definition admit :: "('v, 'w, 's) engine_env \<Rightarrow> clock_check \<Rightarrow> ('v, 'w, 's) turn \<Rightarrow> node_id \<Rightarrow> lane_id \<Rightarrow> ('v, err) batch \<Rightarrow>
    ('v, 'w, 's) reading \<Rightarrow> (('v, 'w, 's) reading \<times> bool) option" where
  "admit ee clock tn node lane b st =
     (case applyClock (ee_we ee) clock (tn_clockAt tn lane) b (en_run (rg_en st)) of
        (r1, b1, Some e) \<Rightarrow> Some (st\<lparr>rg_en := (rg_en st)\<lparr>en_run := fail (Some e) r1\<rparr>\<rparr>, False)
      | (r1, b1, None) \<Rightarrow>
          (case routeMarked (ee_we ee) node b1 r1 of
             (r2, b2, Some e) \<Rightarrow> Some (st\<lparr>rg_en := (rg_en st)\<lparr>en_run := fail (Some e) r2\<rparr>\<rparr>, False)
           | (r2, b2, None) \<Rightarrow>
               let st2 = st\<lparr>rg_en := (rg_en st)\<lparr>en_run := r2\<rparr>,
                     rg_act := (if batch_Len b2 > 0 then saw lane (tn_sawAt tn lane) (rg_act st) else rg_act st)\<rparr>
               in (case admit_ledger tn b2 (rg_en st2) of
                     None \<Rightarrow> None
                   | Some (en3, b3, Some e) \<Rightarrow>
                       if tn_ctxErr tn lane then Some (st2\<lparr>rg_en := en3\<rparr>, False)
                       else if is_shed e then Some (st2\<lparr>rg_en := en3\<rparr>, True)
                       else Some (st2\<lparr>rg_en := fail_en (admit_fault node e) en3\<rparr>, False)
                   | Some (en3, b3, None) \<Rightarrow>
                       if batch_Len b3 = 0 then Some (st2\<lparr>rg_en := en3\<rparr>, True)
                       else (case deliver (ee_we ee) b3 (tn_rounds tn lane) (en_run en3) of
                           None \<Rightarrow> None
                         | Some (r4, Some e) \<Rightarrow> Some (st2\<lparr>rg_en := en3\<lparr>en_run := fail (Some e) r4\<rparr>\<rparr>, False)
                         | Some (r4, None) \<Rightarrow> Some (st2\<lparr>rg_en := en3\<lparr>en_run := r4\<rparr>\<rparr>, True)))))"

section \<open>Retiring a lane, spinning and retrying\<close>

definition finishLane :: "('v, 'w, 's) engine_env \<Rightarrow> ('v, 'w, 's) turn \<Rightarrow> node_id \<Rightarrow> lane_id \<Rightarrow> ('v, 'w, 's) engine \<Rightarrow> ('v, 'w, 's) engine" where
  "finishLane ee tn node lane en =
     (case map_of (en_lanes en) node of
        None \<Rightarrow> en
      | Some lc \<Rightarrow>
          (case Finish (ee_codec ee) (ee_ops ee) (tn_leases tn) (tn_finishAt tn lane) lane (lc, rn_ledger (en_run en), en_store en) of
             ((lc', led', s'), e) \<Rightarrow>
               let en' = en\<lparr>en_lanes := aput node lc' (en_lanes en), en_run := (en_run en)\<lparr>rn_ledger := led'\<rparr>, en_store := s'\<rparr>
               in (case e of None \<Rightarrow> en' | Some x \<Rightarrow> if ClassOf x = Fenced then en' else fail_en x en')))"

definition spinner_saw :: "bool \<Rightarrow> nat \<Rightarrow> nat \<times> bool" where
  "spinner_saw progress n = (if progress then (0, False) else (n + 1, n + 1 \<ge> 2))"

definition no_attempt :: attempt where
  "no_attempt = \<lparr>at_count = 0, at_started = 0\<rparr>"

definition retryRead :: "('v, 'w, 's) engine_env \<Rightarrow> ('v, 'w, 's) turn \<Rightarrow> node_id \<Rightarrow> err \<Rightarrow> ('v, 'w, 's) reading \<Rightarrow> ('v, 'w, 's) reading \<times> bool" where
  "retryRead ee tn node e st =
     (let a = (if time_is_zero (at_started (rg_attempt st)) then (rg_attempt st)\<lparr>at_started := tn_started tn\<rparr> else rg_attempt st) in
      case route (tn_draw tn) e False (we_retry (ee_we ee)) a (tn_routeAt tn) of
        None \<Rightarrow> (st\<lparr>rg_en := fail_en (Plain ''panic'') (rg_en st)\<rparr>, False)
      | Some (a', rt) \<Rightarrow>
          if rt_disp rt \<noteq> dispRetry
          then (st\<lparr>rg_attempt := a', rg_en := fail_en (Wrap (''engine: source '' @ node @ '' read: '' @ fault_Error e) e) (rg_en st)\<rparr>, False)
          else (st\<lparr>rg_attempt := a'\<rparr>, tn_sleep tn = None))"

section \<open>Reading one lane\<close>

text \<open>A source that reads one lane, and one that reads a set of lanes.\<close>

type_synonym ('v, 'w) read_one = "allocator \<times> ('v, err) batch \<Rightarrow> 'w \<Rightarrow> 'w \<times> (allocator \<times> ('v, err) batch) \<times> unit call"
type_synonym ('v, 'w) read_set = "(allocator \<times> ('v, err) batch) list \<Rightarrow> 'w \<Rightarrow> 'w \<times> (allocator \<times> ('v, err) batch) list \<times> unit call"

definition maxReadBatch :: int where "maxReadBatch = 512"

definition errAbandoned :: err where "errAbandoned = Plain ''the call was abandoned''"
definition ctxCanceled :: err where "ctxCanceled = Plain ''context canceled''"

definition said :: "('v, 'e) batch \<Rightarrow> bool" where
  "said b \<longleftrightarrow> batch_Len b > 0 \<or> \<not> pos_IsZero (b_Position b) \<or> b_EndOfLane b"

definition new_batch :: "allocator \<Rightarrow> allocator \<times> ('v, err) batch" where
  "new_batch a = (case NewBatch (Some a) maxReadBatch of (ao, b) \<Rightarrow> (case ao of Some a' \<Rightarrow> (a', b) | None \<Rightarrow> (a, b)))"

definition read_err :: "string \<Rightarrow> 'w \<times> unit call \<Rightarrow> err option" where
  "read_err name x = (case snd (sandbox name x) of Inl e \<Rightarrow> Some e | Inr _ \<Rightarrow> None)"

definition spin_fault :: "node_id \<Rightarrow> err" where
  "spin_fault node = Contract FOpRead (Some (Plain (''engine: source '' @ node @ '' returned with nothing to report'')))"

text \<open>What follows the admission of a read: the spin rule, the end of the input, a retry.\<close>

definition after_read :: "('v, 'w, 's) engine_env \<Rightarrow> ('v, 'w, 's) turn \<Rightarrow> node_id \<Rightarrow> lane_id list \<Rightarrow> bool \<Rightarrow> err option \<Rightarrow> ('v, 'w, 's) reading \<Rightarrow>
    ('v, 'w, 's) reading \<times> bool" where
  "after_read ee tn node lanes progress er st =
     (case er of
        None \<Rightarrow>
          (case spinner_saw progress (rg_idle st) of
             (n, spun) \<Rightarrow>
               let st = st\<lparr>rg_attempt := no_attempt, rg_idle := n\<rparr> in
               if spun then (st\<lparr>rg_en := fail_en (spin_fault node) (rg_en st)\<rparr>, False) else (st, True))
      | Some e \<Rightarrow>
          if errors_Is e ErrEndOfInput then (st\<lparr>rg_en := foldl (\<lambda>en lane. finishLane ee tn node lane en) (rg_en st) lanes\<rparr>, False)
          else if errors_Is e ctxCanceled then (st, False)
          else retryRead ee tn node e st)"

definition read_lane_turn :: "('v, 'w, 's) engine_env \<Rightarrow> clock_check \<Rightarrow> node_id \<Rightarrow> string \<Rightarrow> ('v, 'w) read_one \<Rightarrow> lane_id \<Rightarrow>
    ('v, 'w, 's) turn \<Rightarrow> allocator \<Rightarrow> ('v, 'w, 's) reading \<Rightarrow> (allocator \<times> ('v, 'w, 's) reading \<times> bool) option" where
  "read_lane_turn ee clock node name rd lane tn al st =
     (if tn_done tn \<or> Revoked (tn_leases tn) (tn_heldAt tn) lane then Some (al, st, False)
      else case rd (new_batch al) (rn_world (en_run (rg_en st))) of
        (w, (al', b), ans) \<Rightarrow>
          let er = read_err name (w, ans);
              st1 = st\<lparr>rg_en := (rg_en st)\<lparr>en_run := (en_run (rg_en st))\<lparr>rn_world := w\<rparr>\<rparr>\<rparr>
          in if er \<noteq> None \<and> errors_Is (the er) errAbandoned then Some (al', st1, False)
             else if \<not> said b then (case after_read ee tn node [lane] False er st1 of (st', go) \<Rightarrow> Some (al', st', go))
             else
               let st2 = (if b_EndOfLane b then st1\<lparr>rg_en := (rg_en st1)\<lparr>en_run := (en_run (rg_en st1))\<lparr>rn_ledger :=
                            FinishLane lane (rn_ledger (en_run (rg_en st1)))\<rparr>\<rparr>\<rparr> else st1)
               in case admit ee clock tn node lane b st2 of
                    None \<Rightarrow> None
                  | Some (st3, False) \<Rightarrow> Some (al', st3, False)
                  | Some (st3, True) \<Rightarrow>
                      if b_EndOfLane b then Some (al', st3\<lparr>rg_en := finishLane ee tn node lane (rg_en st3)\<rparr>, False)
                      else (case after_read ee tn node [lane] True er st3 of (st', go) \<Rightarrow> Some (al', st', go)))"

text \<open>The loop; \<open>others\<close> is what the other goroutines did before the turn. \<open>True\<close> says that it is still reading.\<close>

fun read_lane :: "('v, 'w, 's) engine_env \<Rightarrow> clock_check \<Rightarrow> node_id \<Rightarrow> string \<Rightarrow> ('v, 'w) read_one \<Rightarrow> lane_id \<Rightarrow>
    (('v, 'w, 's) turn \<times> (('v, 'w, 's) engine \<Rightarrow> ('v, 'w, 's) engine)) list \<Rightarrow> allocator \<Rightarrow> ('v, 'w, 's) reading \<Rightarrow>
    (allocator \<times> ('v, 'w, 's) reading \<times> bool) option" where
  "read_lane ee clock node name rd lane [] al st = Some (al, st, True)"
| "read_lane ee clock node name rd lane ((tn, others) # tns) al st =
     (case read_lane_turn ee clock node name rd lane tn al (st\<lparr>rg_en := others (rg_en st)\<rparr>) of
        None \<Rightarrow> None
      | Some (al', st', False) \<Rightarrow> Some (al', st', False)
      | Some (al', st', True) \<Rightarrow> read_lane ee clock node name rd lane tns al' st')"

section \<open>Reading a group of lanes\<close>

type_synonym lane_read = "lane_assignment \<times> allocator"

definition stillHeld :: "lease_table \<Rightarrow> time \<Rightarrow> lane_read list \<Rightarrow> lane_read list" where
  "stillHeld lt now live = filter (\<lambda>(lane, _). \<not> Revoked lt now (la_ID lane)) live"

fun admit_all :: "('v, 'w, 's) engine_env \<Rightarrow> clock_check \<Rightarrow> ('v, 'w, 's) turn \<Rightarrow> node_id \<Rightarrow> (lane_id \<times> ('v, err) batch) list \<Rightarrow>
    ('v, 'w, 's) reading \<Rightarrow> (('v, 'w, 's) reading \<times> bool) option" where
  "admit_all ee clock tn node [] st = Some (st, True)"
| "admit_all ee clock tn node ((lane, b) # bs) st =
     (if \<not> said b then admit_all ee clock tn node bs st
      else
        let st1 = (if b_EndOfLane b then st\<lparr>rg_en := (rg_en st)\<lparr>en_run := (en_run (rg_en st))\<lparr>rn_ledger :=
                     FinishLane lane (rn_ledger (en_run (rg_en st)))\<rparr>\<rparr>\<rparr> else st)
        in case admit ee clock tn node lane b st1 of
             None \<Rightarrow> None
           | Some (st2, False) \<Rightarrow> Some (st2, False)
           | Some (st2, True) \<Rightarrow> admit_all ee clock tn node bs st2)"

fun retireFinished :: "('v, 'w, 's) engine_env \<Rightarrow> ('v, 'w, 's) turn \<Rightarrow> node_id \<Rightarrow> (lane_read \<times> ('v, err) batch) list \<Rightarrow> ('v, 'w, 's) engine \<Rightarrow>
    ('v, 'w, 's) engine \<times> lane_read list" where
  "retireFinished ee tn node [] en = (en, [])"
| "retireFinished ee tn node ((lr, b) # xs) en =
     (if b_EndOfLane b then retireFinished ee tn node xs (finishLane ee tn node (la_ID (fst lr)) en)
      else case retireFinished ee tn node xs en of (en', kept) \<Rightarrow> (en', lr # kept))"

definition read_group_turn :: "('v, 'w, 's) engine_env \<Rightarrow> clock_check \<Rightarrow> node_id \<Rightarrow> string \<Rightarrow> ('v, 'w) read_set \<Rightarrow>
    ('v, 'w, 's) turn \<Rightarrow> lane_read list \<Rightarrow> ('v, 'w, 's) reading \<Rightarrow> (lane_read list \<times> ('v, 'w, 's) reading \<times> bool) option" where
  "read_group_turn ee clock node name rd tn live st =
     (if tn_done tn then Some (live, st, False)
      else
        let live1 = stillHeld (tn_leases tn) (tn_heldAt tn) live in
        if live1 = [] then Some ([], st, False)
        else case rd (map (new_batch \<circ> snd) live1) (rn_world (en_run (rg_en st))) of
          (w, dst, ans) \<Rightarrow>
            let er = read_err name (w, ans);
                st1 = st\<lparr>rg_en := (rg_en st)\<lparr>en_run := (en_run (rg_en st))\<lparr>rn_world := w\<rparr>\<rparr>\<rparr>;
                live2 = zip (map fst live1) (map fst dst);
                bs = map snd dst
            in if er \<noteq> None \<and> errors_Is (the er) errAbandoned then Some (live2, st1, False)
               else case admit_all ee clock tn node (zip (map (la_ID \<circ> fst) live1) bs) st1 of
                   None \<Rightarrow> None
                 | Some (st2, False) \<Rightarrow> Some (live2, st2, False)
                 | Some (st2, True) \<Rightarrow>
                     (case retireFinished ee tn node (zip live2 bs) (rg_en st2) of
                        (en3, live3) \<Rightarrow>
                          let st3 = st2\<lparr>rg_en := en3\<rparr> in
                          if live3 = [] then Some ([], st3, False)
                          else (case after_read ee tn node (map (la_ID \<circ> fst) live3) (list_ex said bs) er st3 of
                              (st', go) \<Rightarrow> Some (live3, st', go))))"

section \<open>The set of lanes a source reads\<close>

definition partitionLanes :: "'a list \<Rightarrow> int \<Rightarrow> 'a list list" where
  "partitionLanes lanes n =
     (let m = min (nat (max 1 n)) (length lanes) in
      map (\<lambda>i. take ((i + 1) * length lanes div m - i * length lanes div m) (drop (i * length lanes div m) lanes)) [0..<m])"

definition laneIDsOf :: "lane_read list \<Rightarrow> lane_id list" where
  "laneIDsOf live = map (la_ID \<circ> fst) live"

definition added :: "lane_assignment list \<Rightarrow> lane_id list \<Rightarrow> lane_id list" where
  "added next owned = map la_ID (filter (\<lambda>a. la_ID a \<notin> set owned) next)"

text \<open>The read set of \<^verbatim>\<open>readLanes\<close>: an allocator per lane for the whole run, made when the lane is first read.\<close>

fun live_set :: "tenant_id \<Rightarrow> pipeline_id \<Rightarrow> node_id \<Rightarrow> lane_assignment list \<Rightarrow> nat \<Rightarrow> (lane_id \<times> allocator) list \<Rightarrow>
    nat \<times> (lane_id \<times> allocator) list \<times> (err + lane_read list)" where
  "live_set t p node [] n allocs = (n, allocs, Inr [])"
| "live_set t p node (lane # lanes) n allocs =
     (case map_of allocs (la_ID lane) of
        Some al \<Rightarrow>
          (case live_set t p node lanes n allocs of
             (n', allocs', Inl e) \<Rightarrow> (n', allocs', Inl e)
           | (n', allocs', Inr live) \<Rightarrow> (n', allocs', Inr ((lane, al) # live)))
      | None \<Rightarrow>
          (case allocatorFor t p node lane n of
             (n1, Inl e) \<Rightarrow> (n1, allocs, Inl e)
           | (n1, Inr al) \<Rightarrow>
               (case live_set t p node lanes n1 (aput (la_ID lane) al allocs) of
                  (n', allocs', Inl e) \<Rightarrow> (n', allocs', Inl e)
                | (n', allocs', Inr live) \<Rightarrow> (n', allocs', Inr ((lane, al) # live)))))"

text \<open>What \<^verbatim>\<open>readLoop\<close> reads of what it is assigned.\<close>

datatype read_plan = NothingToRead | ReadOne lane_assignment | ReadGroups "lane_assignment list"

definition read_plan_of :: "resolved_source \<Rightarrow> lane_assignment list \<Rightarrow> read_plan" where
  "read_plan_of src assigned =
     (case assigned of
        [] \<Rightarrow> NothingToRead
      | a # _ \<Rightarrow> if rs_LaneReader src then ReadGroups assigned else ReadOne a)"

section \<open>Waiting for a new lane\<close>

text \<open>
  \<^verbatim>\<open>awaitLaneChange\<close> beside the goroutines that change the lane table. The channel of \<^verbatim>\<open>Changes\<close> is the table's
  generation: the one taken at generation \<open>g\<close> is closed when the generation has moved on. \<open>Top\<close> is the head of
  the loop, \<open>Took\<close> the point between taking the channel and reading the table, \<open>Waiting\<close> the select.
\<close>

datatype watch_pc = Top | Took nat | Waiting nat | Rebuild "lane_assignment list" | Ended

record watch =
  wt_ctl :: lane_ctl
  wt_leases :: lease_table
  wt_now :: time
  wt_readersDone :: bool
  wt_pc :: watch_pc
  wt_owed :: nat
  wt_untold :: "lane_id list"

text \<open>
  What the goroutines of a run do to a lane table: announce, seed, finish, retire and forget lanes and land
  cursors, whatever the ledger and the store answer. Two failures change the table and close no channel: an
  announcement whose lane the ledger refuses returns after it has added its lanes, and a retirement the store
  fences takes the lane out of \<^verbatim>\<open>finishPending\<close>.
\<close>

inductive table_step :: "'s state_ops \<Rightarrow> lease_table \<Rightarrow> lane_ctl \<Rightarrow> lane_ctl \<Rightarrow> bool" for ops lt where
  announce: "announceMany c ops full lt specs (l, led, s) = ((l', led', s'), x) \<Longrightarrow> table_step ops lt l l'"
| seed: "Seed c ops lt now lane cursor (l, s) = ((l', s'), e) \<Longrightarrow> table_step ops lt l l'"
| finish: "Finish c ops lt now lane (l, led, s) = ((l', led', s'), e) \<Longrightarrow> table_step ops lt l l'"
| retire: "retire c ops lt now lane (l, s) = ((l', s'), e) \<Longrightarrow> table_step ops lt l l'"
| forget: "Forget ops lt now lane (l, s) = ((l', s'), e) \<Longrightarrow> table_step ops lt l l'"
| commit: "lc_commit c ops lt now ps (l, s) = ((l', s'), e) \<Longrightarrow> table_step ops lt l l'"

text \<open>
  The lanes a change adds to the table or takes out of \<^verbatim>\<open>finishPending\<close>. \<open>wt_untold\<close> collects those of the changes that
  close no channel, since the watcher last read the table or the channel was last closed.
\<close>

definition put_on_offer :: "lane_ctl \<Rightarrow> lane_ctl \<Rightarrow> lane_id list" where
  "put_on_offer l l' = filter (\<lambda>lane. \<not> lc_has lane l \<or> lane \<in> set (lc_finishPending l) \<and> lane \<notin> set (lc_finishPending l')) (lc_order l')"

definition see_table :: "lane_ctl \<Rightarrow> watch \<Rightarrow> watch" where
  "see_table l' w = w\<lparr>wt_ctl := l', wt_untold :=
     (if lc_changes l' = lc_changes (wt_ctl w) then wt_untold w @ put_on_offer (wt_ctl w) l' else [])\<rparr>"

text \<open>
  The watcher's own steps, those of the table, the passing of time and a round of the lease loop. An operation
  that closes the channel does so after it has released the table's lock: \<open>half\<close> is the change with the
  channel still open, and \<open>wt_owed\<close> counts the goroutines that stand between the two; \<open>notify\<close> is the
  close itself.
\<close>

inductive watch_step :: "'s state_ops \<Rightarrow> 'c coord_ops \<Rightarrow> lane_id list \<Rightarrow> watch \<Rightarrow> watch \<Rightarrow> bool" for ops cops owned where
  take: "wt_pc w = Top \<Longrightarrow> watch_step ops cops owned w (w\<lparr>wt_pc := Took (lc_changes (wt_ctl w))\<rparr>)"
| gained: "wt_pc w = Took g \<Longrightarrow> xs = Assigned (wt_leases w) (wt_now w) (wt_ctl w) \<Longrightarrow> added xs owned \<noteq> [] \<Longrightarrow>
    watch_step ops cops owned w (w\<lparr>wt_pc := Rebuild xs\<rparr>)"
| quit: "wt_pc w = Took g \<Longrightarrow> added (Assigned (wt_leases w) (wt_now w) (wt_ctl w)) owned = [] \<Longrightarrow> wt_readersDone w \<Longrightarrow>
    watch_step ops cops owned w (w\<lparr>wt_pc := Ended\<rparr>)"
| wait: "wt_pc w = Took g \<Longrightarrow> added (Assigned (wt_leases w) (wt_now w) (wt_ctl w)) owned = [] \<Longrightarrow> \<not> wt_readersDone w \<Longrightarrow>
    watch_step ops cops owned w (w\<lparr>wt_pc := Waiting g, wt_untold := []\<rparr>)"
| wake: "wt_pc w = Waiting g \<Longrightarrow> lc_changes (wt_ctl w) \<noteq> g \<Longrightarrow> watch_step ops cops owned w (w\<lparr>wt_pc := Top\<rparr>)"
| readers_done: "wt_pc w = Waiting g \<Longrightarrow> watch_step ops cops owned w (w\<lparr>wt_pc := Top, wt_readersDone := True\<rparr>)"
| cancelled: "wt_pc w = Waiting g \<Longrightarrow> watch_step ops cops owned w (w\<lparr>wt_pc := Ended\<rparr>)"
| table: "table_step ops (wt_leases w) (wt_ctl w) l' \<Longrightarrow> watch_step ops cops owned w (see_table l' w)"
| half: "table_step ops (wt_leases w) (wt_ctl w) l' \<Longrightarrow> lc_changes l' \<noteq> lc_changes (wt_ctl w) \<Longrightarrow>
    watch_step ops cops owned w (w\<lparr>wt_ctl := l'\<lparr>lc_changes := lc_changes (wt_ctl w)\<rparr>, wt_owed := wt_owed w + 1\<rparr>)"
| notify: "wt_owed w = Suc n \<Longrightarrow> watch_step ops cops owned w (w\<lparr>wt_ctl := lc_notify (wt_ctl w), wt_owed := n, wt_untold := []\<rparr>)"
| time: "wt_now w \<le> now' \<Longrightarrow> watch_step ops cops owned w (w\<lparr>wt_now := now'\<rparr>)"
| leases: "(lc_node (wt_ctl w), laneRows (wt_ctl w)) \<in> set nodes \<Longrightarrow>
    leaseTick cops stopping leader (wt_now w) nodes ((wt_leases w, c), led) = ((lt', c'), led') \<Longrightarrow>
    watch_step ops cops owned w (w\<lparr>wt_leases := lt'\<rparr>)"

definition watch_start :: "lane_ctl \<Rightarrow> lease_table \<Rightarrow> time \<Rightarrow> watch" where
  "watch_start l lt now = \<lparr>wt_ctl = l, wt_leases = lt, wt_now = now, wt_readersDone = False, wt_pc = Top, wt_owed = 0, wt_untold = []\<rparr>"

inductive_cases watch_stepE [elim!]: "watch_step ops cops owned w w'"
inductive_cases table_stepE: "table_step ops lt l l'"

end
