(* ===== verification/Canal_WriteNode.thy ===== *)
theory Canal_WriteNode
  imports Canal_WriteAcct
begin

text \<open>
  The write path, sink by sink. The locale \<open>sink_frame\<close> says what a relation has to allow to hold across a
  whole write; it is interpreted three times. \<open>accounted_at\<close> counts how often a record has been settled by one sink or is
  held for it; \<open>only_at\<close> is the frame of everything the write path does for a sink: it appends outcomes that
  name this sink, gives the ledger just these outcomes, and leaves what other sinks hold alone. From the count
  over all sinks (\<open>Canal_WriteAcct\<close>) and the frame follows the count of each sink: a delivery accounts for each
  record of the batch once at each main sink.
\<close>

section \<open>What one sink has accounted for\<close>

definition outs_at :: "node_id \<Rightarrow> err outcome list \<Rightarrow> record_id list" where
  "outs_at n os = map out_Record (filter (\<lambda>x. out_Node x = n) os)"

definition accounted_at :: "node_id \<Rightarrow> record_id \<Rightarrow> ('v, 'w) runner \<Rightarrow> nat" where
  "accounted_at n k r = count_list (outs_at n (rn_outs r)) k + count_list (ids (held n r)) k"

lemma outs_at_append [simp]: "outs_at n (xs @ ys) = outs_at n xs @ outs_at n ys"
  by (simp add: outs_at_def)

lemma outs_at_same: "\<forall>x\<in>set os. out_Node x = n \<Longrightarrow> outs_at n os = map out_Record os"
  by (simp add: outs_at_def)

lemma outs_at_other: "\<forall>x\<in>set os. out_Node x = n \<Longrightarrow> m \<noteq> n \<Longrightarrow> outs_at m os = []"
  by (auto simp: outs_at_def filter_empty_conv)

lemma held_count_sum:
  "wf_amap m \<Longrightarrow> finite S \<Longrightarrow> fst ` set m \<subseteq> S \<Longrightarrow>
   held_count k m = (\<Sum>n\<in>S. count_list (ids (case map_of m n of None \<Rightarrow> [] | Some xs \<Rightarrow> xs)) k)"
proof (induction m)
  case (Cons x m)
  obtain n rs where x: "x = (n, rs)" by (cases x)
  have w: "wf_amap m" "n \<notin> fst ` set m" "n \<in> S" using Cons.prems by (auto simp: x wf_amap_def)
  let ?f = "\<lambda>m n. count_list (ids (case map_of m n of None \<Rightarrow> [] | Some xs \<Rightarrow> xs)) k"
  have z: "?f m n = 0" using w(2) by (simp add: map_of_eq_None_iff [THEN iffD2])
  have "sum (?f (x # m)) S = count_list (ids rs) k + sum (?f (x # m)) (S - {n})"
    using Cons.prems(2) w(3) by (simp add: sum.remove x)
  also have "sum (?f (x # m)) (S - {n}) = sum (?f m) (S - {n})" by (rule sum.cong) (auto simp: x)
  also have "\<dots> = sum (?f m) S" using z by (simp add: sum.remove [OF Cons.prems(2) w(3)])
  also have "\<dots> = held_count k m" using Cons.IH [OF w(1) Cons.prems(2)] Cons.prems(3) by simp
  finally show ?case by (simp add: x held_count_def)
qed (simp add: held_count_def)

section \<open>What the write path may do for a sink\<close>

text \<open>
  Everything the write path does for a sink is made of five things: the world moves, outcomes that name the sink are
  settled, a nack is queued, and, for a sink that defers durability only, records are held. A relation
  between the runner before and after that allows these, and is reflexive and transitive, holds between the
  runner before and after a whole write.
\<close>

locale sink_frame =
  fixes R :: "('v, 'w) runner \<Rightarrow> ('v, 'w) runner \<Rightarrow> bool" and n :: node_id and sk :: "('v, 'w) sink"
  assumes frame_refl: "R r r"
    and frame_trans: "R r1 r2 \<Longrightarrow> R r2 r3 \<Longrightarrow> R r1 r3"
    and frame_world: "R r (r\<lparr>rn_world := w\<rparr>)"
    and frame_settle: "\<forall>x\<in>set outs. out_Node x = n \<Longrightarrow> R r (settle outs r)"
    and frame_nack: "R r (nack_for we rc p e reason c r)"
    and frame_hold: "defersDurability sk \<Longrightarrow> R r (hold n rs lane p r)"
begin

lemma frame_abandon: "R r (abandon we n rc e reason p c r)"
  unfolding abandon_def by (rule frame_trans [OF frame_nack frame_settle]) simp

lemma frame_settleOrHold: "R r (settleOrHold n sk rs wr lane p r)"
  unfolding settleOrHold_def
  by (auto simp: outcomesFor_def frame_refl split: option.splits intro!: frame_hold frame_settle)

lemma frame_deadLetter: "deadLetter we rc r = (r', e) \<Longrightarrow> R r r'"
  by (auto simp: deadLetter_def frame_refl frame_world split: if_splits prod.splits)

lemma frame_requests: "write_requests n sk lane p reqs r failed = (r', x) \<Longrightarrow> R r r'"
proof (induction reqs arbitrary: r failed)
  case (Cons req rest)
  obtain rq rs where q: "req = (rq, rs)" by (cases req)
  obtain w a where s: "sandbox (sk_Name sk) (sk_Write sk rq (rn_world r)) = (w, a)" by fastforce
  show ?case
  proof (cases a)
    case (Inl e)
    with Cons q s have "R (r\<lparr>rn_world := w\<rparr>) r'" by auto
    then show ?thesis by (rule frame_trans [OF frame_world])
  next
    case (Inr wr)
    show ?thesis
    proof (cases "fst (Reconcile (rq_Count rq) wr) \<and> wr_Deferred wr = []")
      case True
      with Cons q s Inr have "R (settleOrHold n sk (filter (\<lambda>rc. named wr (rec_ID rc) = None) rs) wr lane p (r\<lparr>rn_world := w\<rparr>)) r'" by auto
      then show ?thesis by (rule frame_trans [OF frame_trans [OF frame_world frame_settleOrHold]])
    qed (use Cons q s Inr in \<open>auto simp: Let_def frame_world split: if_splits\<close>)
  qed
qed (simp add: frame_refl)

lemma frame_writeOnce:
  assumes "we_sinks we n = sk" and "writeOnce we n rs lane p r = (r', x)"
  shows "R r r'"
proof -
  obtain w y where b: "buildRequests sk (we_codecs we n) rs (rn_world r) = (w, y)" by fastforce
  show ?thesis
  proof (cases y)
    case (Inr reqs)
    with assms b have "write_requests n sk lane p reqs (r\<lparr>rn_world := w\<rparr>) [] = (r', x)" by (simp add: writeOnce_def)
    then show ?thesis by (rule frame_trans [OF frame_world frame_requests])
  qed (use assms b in \<open>auto simp: writeOnce_def frame_world\<close>)
qed

lemma frame_route_failed: "R r (fst (route_failed we n p rd failed rcs r atts again wait))"
proof (induction rcs arbitrary: r atts again wait)
  case (Cons rc rcs)
  obtain r1 de where d: "deadLetter we rc r = (r1, de)" by fastforce
  have 1: "R r r1" by (rule frame_deadLetter [OF d])
  have 2: "R r (fst (route_failed we n p rd failed rcs (abandon we n rc e s p c r) a ag w))" for e s c a ag w
    by (rule frame_trans [OF frame_abandon Cons.IH])
  have 3: "R r (fst (route_failed we n p rd failed rcs (abandon we n rc e s p c r1) a ag w))" for e s c a ag w
    by (rule frame_trans [OF frame_trans [OF 1 frame_abandon] Cons.IH])
  show ?case using d 1 2 3 Cons.IH frame_refl by (auto simp: Let_def split: option.split route_disp.split prod.split)
qed (simp add: frame_refl)

lemma frame_write_loop: "we_sinks we n = sk \<Longrightarrow> write_loop we n lane p rds rs atts r = Some (r', x) \<Longrightarrow> R r r'"
proof (induction rds arbitrary: rs atts r)
  case Nil
  then show ?case by (cases rs) (auto simp: frame_refl)
next
  case (Cons rd rds)
  show ?case
  proof (cases rs)
    case (Cons rc rcs)
    obtain r1 y where o: "writeOnce we n rs lane p r = (r1, y)" by fastforce
    have w1: "R r r1" by (rule frame_writeOnce [OF Cons.prems(1) o])
    show ?thesis
    proof (cases y)
      case (Inr failed)
      obtain r2 z where f: "route_failed we n p rd (map_of failed) rs r1 atts [] 0 = (r2, z)" by fastforce
      have w2: "R r r2"
        using frame_trans [OF w1 frame_route_failed [of r1 we p rd "map_of failed" rs atts "[]" 0]] f by simp
      have go: "R r r'" if "write_loop we n lane p rds again a r2 = Some (r', x)" for again a
        by (rule frame_trans [OF w2 Cons.IH [OF Cons.prems(1) that]])
      show ?thesis using Cons.prems(2) go w1 w2 o f Inr \<open>rs = rc # rcs\<close>
        by (auto split: if_splits sum.splits option.splits)
    qed (use Cons.prems(2) w1 o \<open>rs = rc # rcs\<close> in auto)
  qed (use Cons.prems in \<open>auto simp: frame_refl\<close>)
qed

lemma frame_writeSet: "we_sinks we n = sk \<Longrightarrow> writeSet we n rs lane p rds r = Some (r', x) \<Longrightarrow> R r r'"
  unfolding writeSet_def by (rule frame_write_loop)

end

section \<open>The frame of a sink\<close>

definition only_at :: "node_id \<Rightarrow> ('v, 'w) runner \<Rightarrow> ('v, 'w) runner \<Rightarrow> bool" where
  "only_at n r r' \<longleftrightarrow> (\<exists>outss. rn_outs r' = rn_outs r @ concat outss \<and> rn_ledger r' = fold Settle outss (rn_ledger r) \<and>
     (\<forall>x\<in>set (concat outss). out_Node x = n)) \<and> (\<forall>m. m \<noteq> n \<longrightarrow> held m r' = held m r)"

lemma only_at_refl [simp, intro]: "only_at n r r"
  by (auto simp: only_at_def intro: exI [of _ "[]"])

lemma only_at_trans [trans]: "only_at n r1 r2 \<Longrightarrow> only_at n r2 r3 \<Longrightarrow> only_at n r1 r3"
  unfolding only_at_def
proof (elim conjE exE, intro conjI)
  fix xs ys
  assume "rn_outs r2 = rn_outs r1 @ concat xs" "rn_ledger r2 = fold Settle xs (rn_ledger r1)" "\<forall>x\<in>set (concat xs). out_Node x = n"
    "rn_outs r3 = rn_outs r2 @ concat ys" "rn_ledger r3 = fold Settle ys (rn_ledger r2)" "\<forall>x\<in>set (concat ys). out_Node x = n"
  then show "\<exists>outss. rn_outs r3 = rn_outs r1 @ concat outss \<and> rn_ledger r3 = fold Settle outss (rn_ledger r1) \<and>
      (\<forall>x\<in>set (concat outss). out_Node x = n)"
    by (intro exI [of _ "xs @ ys"]) auto
qed simp

lemma only_at_same: "rn_outs r' = rn_outs r \<Longrightarrow> rn_ledger r' = rn_ledger r \<Longrightarrow> rn_pending r' = rn_pending r \<Longrightarrow> only_at n r r'"
  by (auto simp: only_at_def held_def intro: exI [of _ "[]"])

lemma only_at_settle: "\<forall>x\<in>set outs. out_Node x = n \<Longrightarrow> only_at n r (settle outs r)"
  by (auto simp: only_at_def settle_def held_def intro: exI [of _ "[outs]"])

lemma only_at_pending: "\<forall>m. m \<noteq> n \<longrightarrow> map_of ps m = map_of (rn_pending r) m \<Longrightarrow> only_at n r (r\<lparr>rn_pending := ps\<rparr>)"
  by (auto simp: only_at_def held_def intro: exI [of _ "[]"])

lemma only_at_hold: "only_at n r (hold n rs lane p r)"
  by (auto simp: only_at_def hold_def held_def update_conv' intro: exI [of _ "[]"])

lemma nack_frame:
  "rn_outs (nack_for we rc p e reason c r) = rn_outs r \<and> rn_ledger (nack_for we rc p e reason c r) = rn_ledger r \<and>
   rn_pending (nack_for we rc p e reason c r) = rn_pending r"
  by (simp add: nack_for_def Let_def)

interpretation own: sink_frame "only_at n" n sk for n and sk :: "('v, 'w) sink"
  by unfold_locales (fact only_at_trans | simp add: nack_frame only_at_same only_at_settle only_at_hold)+

lemma only_at_return: "only_at n r (returnUnflushed n rs r)"
  by (auto simp: returnUnflushed_def update_conv' intro: only_at_pending)

lemma only_at_take: "take_held n r = (r', rs) \<Longrightarrow> only_at n r r'"
  by (auto simp: take_held_def delete_conv' intro: only_at_pending)

lemma only_at_fail [simp, intro]: "only_at n r (fail e r)"
  by (simp add: only_at_same fail_def)

lemma outcomesFor_node: "x \<in> set (outcomesFor n rs wr) \<Longrightarrow> out_Node x = n"
  by (auto simp: outcomesFor_def split: option.splits)

lemma only_at_flushOne: "flushOne n nm fl rs reason r = (r', e) \<Longrightarrow> only_at n r r'"
proof -
  assume f: "flushOne n nm fl rs reason r = (r', e)"
  obtain w a where s: "sandbox nm (fl reason (rn_world r)) = (w, a)" by fastforce
  have w: "only_at n r (returnUnflushed n xs (r\<lparr>rn_world := w\<rparr>))" for xs by (rule only_at_trans [OF own.frame_world only_at_return])
  have v: "only_at n r (settle (outcomesFor n ys wr) (returnUnflushed n xs (r\<lparr>rn_world := w\<rparr>)))" for xs ys wr
    by (rule only_at_trans [OF w only_at_settle]) (simp add: outcomesFor_node)
  show ?thesis using f s w v by (cases a) (auto simp: flushOne_def Let_def split: if_splits)
qed

lemma only_at_flushIfDue: "only_at n r (flushIfDue we n r)"
proof (cases "sk_Flush (we_sinks we n)")
  case (Some fl)
  obtain r1 rs where t: "take_held n r = (r1, rs)" by fastforce
  obtain r2 e where s: "flushOne n (sk_Name (we_sinks we n)) fl rs FlushCheckpoint r1 = (r2, e)" by fastforce
  note 1 = only_at_take [OF t] and 2 = only_at_trans [OF only_at_take [OF t] only_at_flushOne [OF s]]
  show ?thesis using Some t s 1 2 only_at_trans [OF 2 only_at_fail] by (cases e) (auto simp: flushIfDue_def Let_def)
qed (simp add: flushIfDue_def)

section \<open>The table of held records\<close>

text \<open>It stays well-formed, and a sink that does not defer durability leaves it as it was.\<close>

definition wf_run :: "('v, 'w) runner \<Rightarrow> bool" where
  "wf_run r \<longleftrightarrow> wf_amap (rn_pending r)"

lemma wf_run_ledger [simp]: "wf_run (r\<lparr>rn_ledger := l\<rparr>) = wf_run r"
  by (simp add: wf_run_def)

interpretation held_wf: sink_frame "\<lambda>r r'. wf_run r \<longrightarrow> wf_run r'" n sk for n and sk :: "('v, 'w) sink"
  by unfold_locales (auto simp: wf_run_def nack_frame hold_def)

definition holds_nothing_new :: "('v, 'w) sink \<Rightarrow> ('v, 'w) runner \<Rightarrow> ('v, 'w) runner \<Rightarrow> bool" where
  "holds_nothing_new sk r r' \<longleftrightarrow> defersDurability sk \<or> rn_pending r' = rn_pending r"

interpretation at_once: sink_frame "holds_nothing_new sk" n sk for n and sk :: "('v, 'w) sink"
  by unfold_locales (auto simp: holds_nothing_new_def nack_frame)

lemma flushIfDue_acct:
  assumes "wf_run r"
  shows "accounted k (flushIfDue we n r) = accounted k r \<and> wf_run (flushIfDue we n r)"
proof -
  obtain r1 rs where t: "take_held n r = (r1, rs)" by fastforce
  note F = accounted_flush_held [OF assms [unfolded wf_run_def] t]
  show ?thesis
  proof (cases "sk_Flush (we_sinks we n)")
    case (Some fl)
    obtain r2 e where s: "flushOne n (sk_Name (we_sinks we n)) fl rs FlushCheckpoint r1 = (r2, e)" by fastforce
    have 2: "accounted k r2 = accounted k r" "wf_run r2"
      using F(1,2) [where nm = "sk_Name (we_sinks we n)" and fl = fl and reason = FlushCheckpoint] by (simp_all add: s wf_run_def)
    show ?thesis using Some t s 2 F(3,4) assms by (cases e) (auto simp: flushIfDue_def Let_def acct wf_run_def)
  qed (use assms in \<open>simp add: flushIfDue_def\<close>)
qed

section \<open>A delivery accounts for its records at each sink\<close>

lemma accounted_by_node:
  assumes "only_at n r r'" and "wf_run r" and "wf_run r'" and "accounted k r' = accounted k r + d"
  shows "accounted_at m k r' = accounted_at m k r + (if m = n then d else 0)"
proof -
  obtain outs where o: "rn_outs r' = rn_outs r @ outs" "\<forall>x\<in>set outs. out_Node x = n" and h: "\<forall>m. m \<noteq> n \<longrightarrow> held m r' = held m r"
    using assms(1) unfolding only_at_def by blast
  let ?S = "insert n (fst ` set (rn_pending r) \<union> fst ` set (rn_pending r'))" and ?f = "\<lambda>r m. count_list (ids (held m r)) k"
  have sum: "held_count k (rn_pending q) = ?f q n + sum (?f q) (?S - {n})" if "wf_run q" "q = r \<or> q = r'" for q
  proof -
    have "held_count k (rn_pending q) = sum (?f q) ?S"
      using that by (subst held_count_sum [of _ ?S]) (auto simp: wf_run_def held_def)
    also have "\<dots> = ?f q n + sum (?f q) (?S - {n})" by (rule sum.remove) simp_all
    finally show ?thesis .
  qed
  have "sum (?f r') (?S - {n}) = sum (?f r) (?S - {n})" by (rule sum.cong) (use h in auto)
  with sum [OF assms(2)] sum [OF assms(3)] assms(4) o(1)
  have "count_list (map out_Record outs) k + ?f r' n = ?f r n + d" by (simp add: accounted_def)
  then show ?thesis using o h outs_at_other [OF o(2), of m] by (cases "m = n") (simp_all add: accounted_at_def outs_at_same)
qed

lemma deliver_to_accounts:
  assumes "deliver_to we ns b rdss r = Some (r', None)" and "wf_run r" and "distinct (ids (b_Records b))" and "distinct ns"
  shows "accounted_at m k r' = accounted_at m k r + (if m \<in> set ns \<and> k \<in> set (ids (b_Records b)) then 1 else 0)"
  using assms
proof (induction we ns b rdss r arbitrary: r' rule: deliver_to.induct)
  case (2 we n ns b rdss r)
  then obtain r1 where w: "writeSet we n (b_Records b) (b_Lane b) (b_Position b) (case rdss of [] \<Rightarrow> [] | rds # _ \<Rightarrow> rds) r = Some (r1, None)"
    and d: "deliver_to we ns b (tl rdss) (flushIfDue we n r1) = Some (r', None)"
    by (auto split: option.splits prod.splits)
  let ?r2 = "flushIfDue we n r1"
  have w1: "wf_run r1" using held_wf.frame_writeSet [OF refl w, rule_format, OF "2.prems"(2)] .
  have fl: "accounted k ?r2 = accounted k r1" "wf_run ?r2" using flushIfDue_acct [OF w1] by auto
  have "accounted k ?r2 = accounted k r + (if k \<in> set (ids (b_Records b)) then 1 else 0)"
    using write_loop_spec [OF w [unfolded writeSet_def] "2.prems"(3)] fl(1) unfolding at_most_once_def by (auto dest!: spec [of _ k])
  from accounted_by_node [OF only_at_trans [OF own.frame_writeSet [OF refl w] only_at_flushIfDue] "2.prems"(2) fl(2) this]
  have "accounted_at m k ?r2 = accounted_at m k r + (if m = n then if k \<in> set (ids (b_Records b)) then 1 else 0 else 0)" .
  moreover have "accounted_at m k r' = accounted_at m k ?r2 + (if m \<in> set ns \<and> k \<in> set (ids (b_Records b)) then 1 else 0)"
    using "2.IH" [OF w refl refl d fl(2) "2.prems"(3)] "2.prems"(4) by simp
  ultimately show ?case using "2.prems"(4) by auto
qed simp

text \<open>What changes neither the outcomes nor what is held leaves the count of every sink alone.\<close>

definition same_books :: "('v, 'w) runner \<Rightarrow> ('v, 'w) runner \<Rightarrow> bool" where
  "same_books r r' \<longleftrightarrow> rn_outs r' = rn_outs r \<and> rn_pending r' = rn_pending r"

lemma same_books_ups [simp]: "same_books r r" "same_books r (r\<lparr>rn_ledger := l\<rparr>)" "same_books r (nack_for we rc p e reason c r)"
  by (simp_all add: same_books_def nack_for_def Let_def)

lemma same_books_trans [trans]: "same_books r1 r2 \<Longrightarrow> same_books r2 r3 \<Longrightarrow> same_books r1 r3"
  by (simp add: same_books_def)

lemma same_books_accounted: "same_books r r' \<Longrightarrow> accounted_at n k r' = accounted_at n k r \<and> wf_run r' = wf_run r"
  by (simp add: same_books_def accounted_at_def held_def wf_run_def)

lemma same_books_deadLetter: "deadLetter we rc r = (r', e) \<Longrightarrow> same_books r r'"
  by (auto simp: same_books_def deadLetter_def split: if_splits prod.splits)

end
