(* ===== verification/Canal_ReadProps.thy ===== *)
theory Canal_ReadProps
  imports Canal_Read Canal_LaneProps Canal_WriteNode
begin

text \<open>
  Properties of the read path: record ids of different lanes never collide, the groups of a source cover its
  lanes exactly, every main sink accounts for each record that is read, and a source with nothing to report is
  stopped.
\<close>

section \<open>Record ids\<close>

text \<open>The slice of the id space an allocator draws from, and how far it has come in it.\<close>

definition id_slice :: "allocator \<Rightarrow> nat" where
  "id_slice al = (al_nextID al - 1) div 2 ^ laneIDShift"

definition drawn :: "allocator \<Rightarrow> nat" where
  "drawn al = (al_nextID al - 1) mod 2 ^ laneIDShift"

definition slices_ok :: "nat \<Rightarrow> (lane_id \<Rightarrow> allocator option) \<Rightarrow> bool" where
  "slices_ok n m \<longleftrightarrow> (\<forall>lane al. m lane = Some al \<longrightarrow> 0 < al_nextID al \<and> id_slice al < n \<and> id_slice al < maxLanesPerRun) \<and>
     (\<forall>l1 l2 a1 a2. m l1 = Some a1 \<and> m l2 = Some a2 \<and> l1 \<noteq> l2 \<longrightarrow> id_slice a1 \<noteq> id_slice a2)"

lemma slices_ok_empty: "slices_ok n Map.empty"
  by (simp add: slices_ok_def)

lemma allocatorFor_slice:
  assumes "allocatorFor t p node lane n = (n', Inr al)"
  shows "n' = n + 1" and "id_slice al = n" and "n < maxLanesPerRun" and "0 < al_nextID al"
  using assms by (auto simp: allocatorFor_def NewAllocator_def id_slice_def Let_def split: if_splits)

lemma slices_ok_new:
  assumes "slices_ok n m" and "allocatorFor t p node lane n = (n', Inr al)"
  shows "slices_ok n' (m(k \<mapsto> al))"
  using assms(1) allocatorFor_slice [OF assms(2)] unfolding slices_ok_def
  by (auto simp: less_Suc_eq) (metis less_irrefl)+

lemma live_set_spec:
  assumes "live_set t p node lanes n allocs = (n', allocs', Inr got)" and "slices_ok n (map_of allocs)"
  shows "slices_ok n' (map_of allocs') \<and> map fst got = lanes \<and>
    (\<forall>lane al. map_of allocs lane = Some al \<longrightarrow> map_of allocs' lane = Some al) \<and>
    (\<forall>x\<in>set got. map_of allocs' (la_ID (fst x)) = Some (snd x))"
  using assms
proof (induction t p node lanes n allocs arbitrary: n' allocs' got rule: live_set.induct)
  case (1 t p node n allocs)
  then show ?case by simp
next
  case (2 t p node lane lanes n allocs)
  show ?case
  proof (cases "map_of allocs (la_ID lane)")
    case (Some al)
    obtain got1 where "live_set t p node lanes n allocs = (n', allocs', Inr got1)" "got = (lane, al) # got1"
      using "2.prems"(1) Some by (auto split: prod.splits sum.splits)
    with "2.IH"(2) [OF Some, of n' allocs' got1] "2.prems"(2) Some show ?thesis by auto
  next
    case None
    obtain n1 al got1 where a: "allocatorFor t p node lane n = (n1, Inr al)"
      and l: "live_set t p node lanes n1 (aput (la_ID lane) al allocs) = (n', allocs', Inr got1)" "got = (lane, al) # got1"
      using "2.prems"(1) None by (auto split: prod.splits sum.splits)
    have o: "slices_ok n1 (map_of (aput (la_ID lane) al allocs))" using slices_ok_new [OF "2.prems"(2) a] by (simp add: update_conv')
    from "2.IH"(1) [OF None a [symmetric] refl l(1) o] l(2) None show ?thesis
      by (auto split: if_splits) (metis option.distinct(1))
  qed
qed

lemma issued_in_slice:
  assumes "0 < al_nextID al" and "drawn al + length (issued ops (Some al)) < 2 ^ laneIDShift" and "x \<in> set (issued ops (Some al))"
  shows "(x - 1) div 2 ^ laneIDShift = id_slice al" and "0 < x" and "(x - 1) mod 2 ^ laneIDShift + 1 < 2 ^ laneIDShift"
proof -
  obtain k where k: "issued ops (Some al) = [al_nextID al ..< al_nextID al + k]" using issued_from by blast
  then have x: "al_nextID al \<le> x" "x < al_nextID al + k" and d: "drawn al + k < 2 ^ laneIDShift" using assms by auto
  have s: "al_nextID al - 1 = id_slice al * 2 ^ laneIDShift + drawn al" unfolding id_slice_def drawn_def by (rule div_mult_mod_eq [symmetric])
  have e: "x - 1 = id_slice al * 2 ^ laneIDShift + (drawn al + (x - al_nextID al))" using s x assms(1) by linarith
  have f: "drawn al + (x - al_nextID al) < 2 ^ laneIDShift" using x d by linarith
  from e f show "(x - 1) div 2 ^ laneIDShift = id_slice al" by simp
  have "(x - 1) mod 2 ^ laneIDShift = drawn al + (x - al_nextID al)" unfolding e using f by simp
  then show "(x - 1) mod 2 ^ laneIDShift + 1 < 2 ^ laneIDShift" using x d by linarith
  show "0 < x" using x assms(1) by linarith
qed

lemma below_two64:
  assumes "(x - 1) div 2 ^ laneIDShift < maxLanesPerRun" and "0 < x" and "(x - 1) mod 2 ^ laneIDShift + 1 < 2 ^ laneIDShift"
  shows "x < 2 ^ 64"
proof -
  let ?q = "(x - 1) div 2 ^ laneIDShift" and ?m = "(x - 1) mod 2 ^ laneIDShift"
  have "x - 1 = ?q * 2 ^ laneIDShift + ?m" by (rule div_mult_mod_eq [symmetric])
  moreover have "?q * 2 ^ laneIDShift \<le> (maxLanesPerRun - 1) * 2 ^ laneIDShift" using assms(1) by simp
  moreover have "(maxLanesPerRun - 1) * 2 ^ laneIDShift + 2 ^ laneIDShift = (2::nat) ^ 64" by (simp add: maxLanesPerRun_def laneIDShift_def)
  ultimately show ?thesis using assms(2,3) by linarith
qed

text \<open>
  C13: Record ids of different lanes never collide. Whatever lanes a source has read so far, the allocators of
  its next read set draw from different slices of the id space, so that, as long as a lane stays below \<open>2 ^ 44\<close>
  records in a run, the ids it issues, however its batches add, derive and merge records, are none of another
  lane's, are not 0 and fit 64 bits; and the allocators it keeps for a later read set are as good as before.
\<close>
theorem record_ids_of_lanes_are_disjoint:
  assumes "live_set t p node lanes n allocs = (n', allocs', Inr lrs)" and "slices_ok n (map_of allocs)" and "distinct (map la_ID lanes)"
    and "i < length lrs" and "j < length lrs" and "i \<noteq> j"
    and "drawn (snd (lrs ! i)) + length (issued ops (Some (snd (lrs ! i)))) < 2 ^ laneIDShift"
    and "drawn (snd (lrs ! j)) + length (issued ops' (Some (snd (lrs ! j)))) < 2 ^ laneIDShift"
  shows "set (issued ops (Some (snd (lrs ! i)))) \<inter> set (issued ops' (Some (snd (lrs ! j)))) = {} \<and>
    set (issued ops (Some (snd (lrs ! i)))) \<subseteq> {0<..<2 ^ 64} \<and> slices_ok n' (map_of allocs')"
proof -
  have sp: "slices_ok n' (map_of allocs')" "map fst lrs = lanes" "\<And>x. x \<in> set lrs \<Longrightarrow> map_of allocs' (la_ID (fst x)) = Some (snd x)"
    using live_set_spec [OF assms(1,2)] by auto
  let ?a = "snd (lrs ! i)" and ?b = "snd (lrs ! j)"
  have m: "map_of allocs' (la_ID (fst (lrs ! i))) = Some ?a" "map_of allocs' (la_ID (fst (lrs ! j))) = Some ?b"
    using sp(3) assms(4,5) by simp_all
  have "la_ID (fst (lrs ! i)) = map la_ID lanes ! i" "la_ID (fst (lrs ! j)) = map la_ID lanes ! j"
    using assms(4,5) sp(2) [symmetric] by simp_all
  then have "la_ID (fst (lrs ! i)) \<noteq> la_ID (fst (lrs ! j))"
    using assms(3-6) sp(2) by (metis length_map nth_eq_iff_index_eq)
  then have ne: "id_slice ?a \<noteq> id_slice ?b" and p: "0 < al_nextID ?a" "0 < al_nextID ?b" "id_slice ?a < maxLanesPerRun"
    using sp(1) m unfolding slices_ok_def by blast+
  have "x < 2 ^ 64 \<and> 0 < x" if "x \<in> set (issued ops (Some ?a))" for x
    using issued_in_slice [OF p(1) assms(7) that] p(3) below_two64 [of x] by (metis (no_types, lifting))
  moreover have "set (issued ops (Some ?a)) \<inter> set (issued ops' (Some ?b)) = {}"
    using ne issued_in_slice(1) [OF p(1) assms(7)] issued_in_slice(1) [OF p(2) assms(8)] by (metis disjoint_iff)
  ultimately show ?thesis using sp(1) by auto
qed

definition rx_lanes :: "lane_assignment list" where
  "rx_lanes = map (\<lambda>lane. \<lparr>la_ID = lane, la_Spec = wx_spec, la_Cursor = zero_position, la_Epoch = 1, la_Finished = False,
     la_FinishedAt = 0, la_GatedOn = [], la_Worker = ''w1''\<rparr>) [''a'', ''b'']"

definition rx_set :: "nat \<times> (lane_id \<times> allocator) list \<times> (err + lane_read list)" where
  "rx_set = live_set ''t'' ''p'' ''n'' rx_lanes 0 []"

definition rx_lrs :: "lane_read list" where
  "rx_lrs = (case snd (snd rx_set) of Inl _ \<Rightarrow> [] | Inr xs \<Rightarrow> xs)"

definition rx_ops :: "((unit, unit) batch_op \<times> (unit, unit) batch) list" where
  "rx_ops = [(AddOp 0, ex_full\<lparr>b_Records := []\<rparr>), (AddOp 0, ex_full\<lparr>b_Records := []\<rparr>)]"

theorem record_ids_of_lanes_are_disjoint_witness:
  "issued rx_ops (Some (snd (rx_lrs ! 0))) = [1, 2] \<and> issued rx_ops (Some (snd (rx_lrs ! 1))) = [2 ^ 44 + 1, 2 ^ 44 + 2] \<and>
   set (issued rx_ops (Some (snd (rx_lrs ! 0)))) \<inter> set (issued rx_ops (Some (snd (rx_lrs ! 1)))) = {}"
proof -
  have l: "live_set ''t'' ''p'' ''n'' rx_lanes 0 [] = (fst rx_set, fst (snd rx_set), Inr rx_lrs)" "length rx_lrs = 2"
    "distinct (map la_ID rx_lanes)" by code_simp+
  have i: "issued rx_ops (Some (snd (rx_lrs ! 0))) = [1, 2]" "issued rx_ops (Some (snd (rx_lrs ! 1))) = [2 ^ 44 + 1, 2 ^ 44 + 2]" by code_simp+
  have d: "drawn (snd (rx_lrs ! 0)) = 0" "drawn (snd (rx_lrs ! 1)) = 0" by code_simp+
  have "set (issued rx_ops (Some (snd (rx_lrs ! 0)))) \<inter> set (issued rx_ops (Some (snd (rx_lrs ! 1)))) = {}"
    using record_ids_of_lanes_are_disjoint [OF l(1) _ l(3), of 0 1 rx_ops rx_ops] i d l(2) by (simp add: slices_ok_empty laneIDShift_def)
  with i show ?thesis by blast
qed

section \<open>The groups of a source\<close>

lemma concat_chunks:
  assumes "mono f" and "f 0 = 0" and "f m = length xs"
  shows "concat (map (\<lambda>i. take (f (Suc i) - f i) (drop (f i) xs)) [0..<m]) = xs"
proof -
  have "concat (map (\<lambda>i. take (f (Suc i) - f i) (drop (f i) xs)) [0..<k]) = take (f k) xs" for k
  proof (induction k)
    case (Suc k)
    have "f k \<le> f (Suc k)" using assms(1) by (simp add: monoD)
    then have "take (f k) xs @ take (f (Suc k) - f k) (drop (f k) xs) = take (f (Suc k)) xs"
      by (metis le_add_diff_inverse take_add)
    with Suc show ?case by simp
  qed (simp add: assms(2))
  from this [of m] assms(3) show ?thesis by simp
qed

lemma chunk_size:
  fixes i k m :: nat
  assumes "0 < m"
  shows "k div m \<le> Suc i * k div m - i * k div m" and "Suc i * k div m - i * k div m \<le> k div m + 1"
proof -
  have s: "Suc i * k div m = (i * k mod m + k mod m) div m + (i * k div m + k div m)"
    using div_add1_eq [of "i * k" k m] by (simp add: add.commute)
  have "(i * k mod m + k mod m) div m \<le> 1" using mod_less_divisor [OF assms, of "i * k"] mod_less_divisor [OF assms, of k]
    by (metis add_less_mono less_Suc_eq_le less_mult_imp_div_less mult_2 One_nat_def Suc_1)
  with s show "k div m \<le> Suc i * k div m - i * k div m" "Suc i * k div m - i * k div m \<le> k div m + 1" by linarith+
qed

text \<open>
  The groups a source's lanes are split into are consecutive, cover every lane once and in order, are never
  empty and no more than the concurrency asked for, and their sizes differ by at most one.
\<close>
theorem groups_cover_the_lanes_once:
  "concat (partitionLanes lanes n) = lanes \<and> [] \<notin> set (partitionLanes lanes n) \<and>
   int (length (partitionLanes lanes n)) \<le> max 1 n \<and>
   (\<exists>q. set (map length (partitionLanes lanes n)) \<subseteq> {q, Suc q})"
proof -
  define m where "m = min (nat (max 1 n)) (length lanes)"
  define f where "f i = i * length lanes div m" for i
  have p: "partitionLanes lanes n = map (\<lambda>i. take (f (Suc i) - f i) (drop (f i) lanes)) [0..<m]"
    by (simp add: partitionLanes_def m_def f_def Let_def)
  have mono: "mono f" by (auto simp: mono_def f_def div_le_mono)
  have len: "f m = length lanes" by (cases "lanes = []") (auto simp: f_def m_def)
  have lo: "m \<le> length lanes" and n: "int m \<le> max 1 n" by (simp_all add: m_def)
  have sz: "length (take (f (Suc i) - f i) (drop (f i) lanes)) = f (Suc i) - f i" if "i < m" for i
    using monoD [OF mono, of "Suc i" m] that len by simp
  have b: "length lanes div m \<le> f (Suc i) - f i" "f (Suc i) - f i \<le> Suc (length lanes div m)" if "i < m" for i
    using chunk_size [where m = m and k = "length lanes" and i = i] that by (simp_all add: f_def)
  have q: "xs \<in> set (partitionLanes lanes n) \<Longrightarrow> 0 < length lanes div m \<and> length lanes div m \<le> length xs \<and> length xs \<le> Suc (length lanes div m)" for xs
    unfolding p using sz b lo by (auto simp: div_greater_zero_iff simp del: length_take)
  then have "[] \<notin> set (partitionLanes lanes n)" by fastforce
  moreover have "set (map length (partitionLanes lanes n)) \<subseteq> {length lanes div m, Suc (length lanes div m)}"
    using q by (fastforce simp: le_Suc_eq)
  moreover have "concat (partitionLanes lanes n) = lanes" unfolding p using len by (intro concat_chunks [OF mono]) (simp_all add: f_def)
  moreover have "length (partitionLanes lanes n) = m" by (simp add: p)
  ultimately show ?thesis using n by auto
qed


section \<open>Every record that is read is accounted for\<close>

text \<open>The records of a batch that pass the clock and carry no mark.\<close>

definition passes :: "clock_check \<Rightarrow> time \<Rightarrow> ('v, err) rec \<Rightarrow> bool" where
  "passes c now rc \<longleftrightarrow> rec_fault rc = None \<and> \<not> (clock_enabled c \<and> cq_behave c = ClockReject \<and> ahead c now rc)"

lemma apply_clock_acct:
  "apply_clock we c now rcs kept r = (r', Inr kept') \<Longrightarrow>
   same_books r r' \<and>
   map (\<lambda>rc. (rec_ID rc, rec_fault rc)) kept' = map (\<lambda>rc. (rec_ID rc, rec_fault rc)) (kept @ filter (\<lambda>rc. \<not> (cq_behave c = ClockReject \<and> ahead c now rc)) rcs)"
proof (induction we c now rcs kept r rule: apply_clock.induct)
  case (2 we c now rc rcs kept r)
  obtain r1 e where d: "deadLetter we rc r = (r1, e)" by fastforce
  note go = same_books_trans [OF same_books_deadLetter [OF d]]
  from 2 d go show ?case
    by (cases "ahead c now rc"; cases "cq_behave c"; cases e) (simp_all add: clamped_def rec_ID_def)
qed simp

lemma applyClock_acct:
  assumes "applyClock we c now b r = (r', b', None)"
  shows "same_books r r'" and "b_Lane b' = b_Lane b"
    and "ids (filter (\<lambda>rc. rec_fault rc = None) (b_Records b')) = ids (filter (passes c now) (b_Records b))"
proof -
  have m: "ids (filter (\<lambda>rc. rec_fault rc = None) xs) = map fst (filter (\<lambda>x. snd x = None) (map (\<lambda>rc. (rec_ID rc, rec_fault rc)) xs))"
    for xs :: "('a, err) rec list" by (induction xs) auto
  have "same_books r r' \<and> b_Lane b' = b_Lane b \<and>
      ids (filter (\<lambda>rc. rec_fault rc = None) (b_Records b')) = ids (filter (passes c now) (b_Records b))"
  proof (cases "\<not> clock_enabled c \<or> batch_Len b = 0")
    case True
    have "filter (passes c now) (b_Records b) = filter (\<lambda>rc. rec_fault rc = None) (b_Records b)" if "\<not> clock_enabled c"
      using that by (intro filter_cong) (simp_all add: passes_def)
    with True assms show ?thesis by (auto simp: applyClock_def batch_Len_def)
  next
    case False
    then obtain kept where a: "apply_clock we c now (b_Records b) [] r = (r', Inr kept)" and b: "b' = b\<lparr>b_Records := kept\<rparr>"
      using assms by (auto simp: applyClock_def split: prod.splits sum.splits)
    have "ids (filter (\<lambda>rc. rec_fault rc = None) kept) = ids (filter (\<lambda>rc. rec_fault rc = None) (filter (\<lambda>rc. \<not> (cq_behave c = ClockReject \<and> ahead c now rc)) (b_Records b)))"
      unfolding m using apply_clock_acct [OF a] by simp
    moreover have "filter (passes c now) (b_Records b) = filter (\<lambda>rc. rec_fault rc = None) (filter (\<lambda>rc. \<not> (cq_behave c = ClockReject \<and> ahead c now rc)) (b_Records b))"
      using False by (auto simp: passes_def intro!: filter_cong)
    ultimately show ?thesis using apply_clock_acct [OF a] b by simp
  qed
  then show "same_books r r'" "b_Lane b' = b_Lane b"
    "ids (filter (\<lambda>rc. rec_fault rc = None) (b_Records b')) = ids (filter (passes c now) (b_Records b))" by blast+
qed

lemma route_marked_acct:
  "route_marked we node rcs kept r = (r', Inr kept') \<Longrightarrow>
   same_books r r' \<and> kept' = kept @ filter (\<lambda>rc. rec_fault rc = None) rcs"
proof (induction we node rcs kept r rule: route_marked.induct)
  case (2 we node rc rcs kept r)
  obtain r1 e where d: "deadLetter we rc r = (r1, e)" by fastforce
  have go: "same_books (markedGone we rc f r) x = same_books r x" "same_books (markedGone we rc f r1) x = same_books r x" for f x
    using same_books_deadLetter [OF d] by (auto simp: markedGone_def nack_for_def Let_def same_books_def)
  from 2 d show ?case
    by (cases "rec_fault rc"; cases "rp_Terminal (we_retry we)"; cases e) (auto simp: go)
qed simp

lemma routeMarked_acct:
  assumes "routeMarked we node b r = (r', b', None)"
  shows "same_books r r'" and "b_Lane b' = b_Lane b"
    and "b_Records b' = filter (\<lambda>rc. rec_fault rc = None) (b_Records b)"
proof -
  have n: "list_all (\<lambda>rc. rec_fault rc = None) (b_Records b) \<Longrightarrow> filter (\<lambda>rc. rec_fault rc = None) (b_Records b) = b_Records b"
    by (simp add: list_all_iff)
  have "same_books r r' \<and> b_Lane b' = b_Lane b \<and> b_Records b' = filter (\<lambda>rc. rec_fault rc = None) (b_Records b)"
    using assms n route_marked_acct [of we node "b_Records b" "[]" r r'] by (auto simp: routeMarked_def split: if_splits prod.splits sum.splits)
  then show "same_books r r'" "b_Lane b' = b_Lane b"
    "b_Records b' = filter (\<lambda>rc. rec_fault rc = None) (b_Records b)" by blast+
qed

text \<open>
  What the other goroutines do while an admission waits for room leaves these records alone: they neither
  settle nor hold nor give up a record of the batch being admitted, which no sink has been given yet.
\<close>

definition minds_its_own :: "record_id set \<Rightarrow> ('v, 'w, 's) wake list \<Rightarrow> bool" where
  "minds_its_own K ws \<longleftrightarrow> (\<forall>f en. Woken f \<in> set ws \<longrightarrow>
     (\<forall>k\<in>K. \<forall>n. accounted_at n k (en_run (f en)) = accounted_at n k (en_run en)) \<and>
     (wf_run (en_run en) \<longrightarrow> wf_run (en_run (f en))))"

lemma accounted_at_ledger [simp]: "accounted_at n k (r\<lparr>rn_ledger := l\<rparr>) = accounted_at n k r"
  by (simp add: accounted_at_def held_def)

lemma admit_wait_acct:
  "admit_wait now ad ws en = Some (en', x) \<Longrightarrow> minds_its_own K ws \<Longrightarrow> wf_run (en_run en) \<Longrightarrow>
   wf_run (en_run en') \<and> (\<forall>k\<in>K. \<forall>n. accounted_at n k (en_run en') = accounted_at n k (en_run en))"
proof (induction now ad ws en rule: admit_wait.induct)
  case (1 now ad wakes en)
  obtain l y where t: "Admit_track now ad (rn_ledger (en_run en)) = (l, y)" by fastforce
  show ?case
  proof (cases y)
    case (Ready z)
    with 1 t show ?thesis by auto
  next
    case Blocked
    show ?thesis
    proof (cases wakes)
      case (Cons w ws)
      show ?thesis
      proof (cases w)
        case (Woken f)
        let ?en = "en\<lparr>en_run := (en_run en)\<lparr>rn_ledger := l\<rparr>\<rparr>"
        have m: "minds_its_own K ws" "wf_run (en_run (f ?en))" "\<forall>k\<in>K. \<forall>n. accounted_at n k (en_run (f ?en)) = accounted_at n k (en_run en)"
          using "1.prems"(2,3) Cons Woken unfolding minds_its_own_def by (auto dest!: spec [of _ f] spec [of _ ?en])
        from "1.IH" [OF t [symmetric] Blocked Cons Woken _ m(1,2)] "1.prems"(1) t Blocked Cons Woken m(3) show ?thesis by auto
      qed (use 1 t Blocked Cons in auto)
    qed (use 1 t Blocked in auto)
  qed
qed

lemma admit_ledger_acct:
  assumes "admit_ledger tn b en = Some (en', b', e)" and "minds_its_own K (tn_wakes tn (b_Lane b))" and "wf_run (en_run en)"
  shows "wf_run (en_run en')" and "\<forall>k\<in>K. \<forall>n. accounted_at n k (en_run en') = accounted_at n k (en_run en)" and "b_Records b' = b_Records b"
proof -
  obtain l1 x where b: "Admit_begin (tn_admitAt tn (b_Lane b)) b (rn_ledger (en_run en)) = (l1, x)" by fastforce
  have "wf_run (en_run en') \<and> (\<forall>k\<in>K. \<forall>n. accounted_at n k (en_run en') = accounted_at n k (en_run en)) \<and> b_Records b' = b_Records b"
  proof (cases x)
    case (Inr y)
    obtain b1 ad where y: "y = (b1, ad)" by (cases y)
    have r: "b_Records b1 = b_Records b" using b Inr y by (auto simp: Admit_begin_def SetSeq_def Let_def split: option.splits if_splits)
    obtain en2 z where w: "admit_wait (tn_admitAt tn (b_Lane b)) ad (tn_wakes tn (b_Lane b)) (en\<lparr>en_run := (en_run en)\<lparr>rn_ledger := l1\<rparr>\<rparr>) = Some (en2, z)"
      using assms(1) b Inr y by (auto simp: admit_ledger_def split: option.splits)
    show ?thesis using admit_wait_acct [OF w assms(2)] assms(1,3) b Inr y w r
      by (cases z) (auto simp: admit_ledger_def split: prod.splits)
  qed (use assms(1,3) b in \<open>auto simp: admit_ledger_def\<close>)
  then show "wf_run (en_run en')" "\<forall>k\<in>K. \<forall>n. accounted_at n k (en_run en') = accounted_at n k (en_run en)" "b_Records b' = b_Records b" by blast+
qed

text \<open>
  C11: Every record that is read is accounted for by every main sink. When the admission of a batch of distinct
  records lets the read loop go on, and the main sinks are distinct nodes, then each record of the batch that
  carries no mark and passes the clock is accounted for once more, settled or held for its flush, by each main
  sink, and by no other node; a record that is marked or too far ahead is accounted for by none. The exception is
  a lane that was full under a shedding policy: then no node accounts for any of them. While the admission waits
  for room other goroutines run; what they do is arbitrary but for these records, which they leave alone, and the
  table of held records, which they keep well-formed.
\<close>
theorem read_records_are_accounted_for:
  assumes "admit ee clock tn node lane b st = Some (st', True)" and "distinct (ids (b_Records b))"
    and "wf_amap (rn_pending (en_run (rg_en st)))" and "minds_its_own (set (ids (b_Records b))) (tn_wakes tn (b_Lane b))"
    and "distinct (we_mainSinks (ee_we ee))"
  shows "(\<forall>n. \<forall>rc\<in>set (b_Records b). accounted_at n (rec_ID rc) (en_run (rg_en st')) = accounted_at n (rec_ID rc) (en_run (rg_en st)) +
        (if n \<in> set (we_mainSinks (ee_we ee)) \<and> passes clock (tn_clockAt tn lane) rc then 1 else 0)) \<or>
    (\<exists>en b' b'' e. admit_ledger tn b' en = Some (rg_en st', b'', Some e) \<and> is_shed e \<and>
       (\<forall>n. \<forall>rc\<in>set (b_Records b). accounted_at n (rec_ID rc) (en_run (rg_en st')) = accounted_at n (rec_ID rc) (en_run (rg_en st))))"
proof -
  let ?r = "en_run (rg_en st)" and ?K = "set (ids (b_Records b))" and ?p = "passes clock (tn_clockAt tn lane)"
  obtain r1 b1 where c: "applyClock (ee_we ee) clock (tn_clockAt tn lane) b ?r = (r1, b1, None)"
    using assms(1) by (cases "applyClock (ee_we ee) clock (tn_clockAt tn lane) b ?r") (auto simp: admit_def split: option.splits)
  obtain r2 b2 where m: "routeMarked (ee_we ee) node b1 r1 = (r2, b2, None)"
    using assms(1) c by (cases "routeMarked (ee_we ee) node b1 r1") (auto simp: admit_def split: option.splits)
  note C = applyClock_acct [OF c] and M = routeMarked_acct [OF m]
  have b2: "ids (b_Records b2) = ids (filter ?p (b_Records b))" "b_Lane b2 = b_Lane b" using C(2,3) M(2,3) by simp_all
  have k2: "accounted_at n k r2 = accounted_at n k ?r" "wf_run r2 = wf_run ?r" for n k
    using same_books_accounted [OF same_books_trans [OF C(1) M(1)]] by simp_all
  have w2: "wf_run r2" using k2(2) assms(3) by (simp add: wf_run_def)
  obtain en3 b3 e where l: "admit_ledger tn b2 ((rg_en st)\<lparr>en_run := r2\<rparr>) = Some (en3, b3, e)"
    using assms(1) c m by (cases "admit_ledger tn b2 ((rg_en st)\<lparr>en_run := r2\<rparr>)") (auto simp: admit_def Let_def)
  have L: "wf_run (en_run en3)" "\<And>n k. k \<in> ?K \<Longrightarrow> accounted_at n k (en_run en3) = accounted_at n k ?r" "b_Records b3 = b_Records b2"
    using admit_ledger_acct [OF l] assms(4) b2(2) w2 k2(1) by simp_all
  show ?thesis
  proof (cases e)
    case (Some x)
    then have "rg_en st' = en3" "is_shed x" using assms(1) c m l by (auto simp: admit_def Let_def split: if_splits)
    with l Some L(2) show ?thesis by auto
  next
    case None
    have p: "k \<in> set (ids (b_Records b3)) \<longleftrightarrow> ?p rc" if "rc \<in> set (b_Records b)" "k = rec_ID rc" for k rc
      using that b2(1) L(3) assms(2) by (auto simp: inj_on_def distinct_map)
    have d: "distinct (ids (b_Records b3))" using b2(1) L(3) assms(2) by (simp add: distinct_map_filter)
    show ?thesis
    proof (cases "batch_Len b3 = 0")
      case True
      then have "en_run (rg_en st') = en_run en3" using assms(1) c m l None by (auto simp: admit_def Let_def)
      moreover have "\<not> ?p rc" if "rc \<in> set (b_Records b)" for rc using p [OF that refl] True by (simp add: batch_Len_def)
      ultimately show ?thesis using L(2) by auto
    next
      case False
      then have "deliver (ee_we ee) b3 (tn_rounds tn lane) (en_run en3) = Some (en_run (rg_en st'), None)"
        using assms(1) c m l None by (auto simp: admit_def Let_def split: option.splits)
      from deliver_to_accounts [OF this [unfolded deliver_def] L(1) d assms(5)] L(2) p show ?thesis by auto
    qed
  qed
qed


text \<open>Two records, the second stamped too far ahead for the clock, which rejects it.\<close>

definition rx_batch :: "(unit, err) batch" where
  "rx_batch = (wx_batch 1 1)\<lparr>b_Records := [wx_rec 1 1, (wx_rec 2 1)\<lparr>rec_EventTime := 100\<rparr>]\<rparr>"

definition rx_env :: "(unit, unit, memstore) engine_env" where
  "rx_env = (wx_env memstore_ops)\<lparr>ee_we := wx_we\<lparr>we_mainSinks := [''A'', ''B''], we_failedSinks := [''D'']\<rparr>\<rparr>"

definition rx_turn :: "(unit, unit, memstore) turn" where
  "rx_turn = \<lparr>tn_done = False, tn_leases = wx_lt, tn_heldAt = 5, tn_clockAt = (\<lambda>_. 5), tn_sawAt = (\<lambda>_. 5), tn_admitAt = (\<lambda>_. 5),
     tn_wakes = (\<lambda>_. []), tn_ctxErr = (\<lambda>_. False), tn_rounds = (\<lambda>_. replicate 2 [\<lparr>rd_started = (\<lambda>_. 5), rd_now = (\<lambda>_. 5), rd_draw = (\<lambda>_. 0), rd_sleep = None\<rparr>]),
     tn_finishAt = (\<lambda>_. 5), tn_started = 5, tn_routeAt = 5, tn_draw = 0, tn_sleep = None\<rparr>"

definition rx_reading :: "(unit, unit, memstore) reading" where
  "rx_reading = \<lparr>rg_en = (wx_engine mem_New)\<lparr>en_run := (en_run (wx_engine mem_New))\<lparr>rn_ledger := fst (Lane wx_lane OrderingPrefix 10 WhenFullBlock (New wx_cfg))\<rparr>\<rparr>,
     rg_act = newLaneActivity, rg_attempt = no_attempt, rg_idle = 0\<rparr>"

definition rx_clock :: clock_check where
  "rx_clock = \<lparr>cq_max = 10, cq_behave = ClockReject\<rparr>"

definition rx_after :: "((unit, unit, memstore) reading \<times> bool) option" where
  "rx_after = admit rx_env rx_clock rx_turn ''n'' wx_lane rx_batch rx_reading"

theorem read_records_are_accounted_for_witness:
  "snd (the rx_after) \<and> accounted_at ''A'' 1 (en_run (rg_en (fst (the rx_after)))) = 1 \<and>
   accounted_at ''B'' 1 (en_run (rg_en (fst (the rx_after)))) = 1 \<and> accounted_at ''A'' 2 (en_run (rg_en (fst (the rx_after)))) = 0"
proof -
  have a: "rx_after \<noteq> None" "snd (the rx_after)" by code_simp+
  then have e: "admit rx_env rx_clock rx_turn ''n'' wx_lane rx_batch rx_reading = Some (fst (the rx_after), True)"
    by (cases rx_after) (auto simp: rx_after_def prod_eq_iff)
  have r: "b_Records rx_batch = [wx_rec 1 1, (wx_rec 2 1)\<lparr>rec_EventTime := 100\<rparr>]" by (simp add: rx_batch_def)
  have d: "distinct (ids (b_Records rx_batch))" "wf_amap (rn_pending (en_run (rg_en rx_reading)))" "distinct (we_mainSinks (ee_we rx_env))"
    "''A'' \<in> set (we_mainSinks (ee_we rx_env))" "''B'' \<in> set (we_mainSinks (ee_we rx_env))" by code_simp+
  have z: "accounted_at n k (en_run (rg_en rx_reading)) = 0" for n k
    by (simp add: rx_reading_def wx_engine_def accounted_at_def outs_at_def held_def)
  have p: "passes rx_clock 5 (wx_rec 1 1)" "\<not> passes rx_clock 5 ((wx_rec 2 1)\<lparr>rec_EventTime := 100\<rparr>)"
    "rec_ID (wx_rec 1 1) = 1" "rec_ID ((wx_rec 2 1)\<lparr>rec_EventTime := 100\<rparr>) = 2" by code_simp+
  have s: "accounted_at ''A'' 1 (en_run (rg_en (fst (the rx_after)))) = 1" by code_simp
  have c: "tn_clockAt rx_turn wx_lane = 5" "minds_its_own K (tn_wakes rx_turn l)" for K l by (simp_all add: rx_turn_def minds_its_own_def)
  from read_records_are_accounted_for [OF e d(1,2) c(2) d(3)] have "\<forall>n. accounted_at n 2 (en_run (rg_en (fst (the rx_after)))) = 0 \<and>
      accounted_at n 1 (en_run (rg_en (fst (the rx_after)))) = (if n \<in> set (we_mainSinks (ee_we rx_env)) then 1 else 0)"
    unfolding r c(1) using p z s by (elim disjE exE conjE) (auto dest: spec [of _ "''A''"])
  with a d(4,5) show ?thesis by simp
qed

section \<open>A source that has nothing to report\<close>

definition silent :: "('v, 'w) read_one \<Rightarrow> bool" where
  "silent rd \<longleftrightarrow> (\<forall>x w. case rd x w of (w', (al, b), ans) \<Rightarrow> ans = Returned () \<and> \<not> said b)"

definition running :: "lane_id \<Rightarrow> ('v, 'w, 's) turn \<Rightarrow> bool" where
  "running lane tn \<longleftrightarrow> \<not> tn_done tn \<and> \<not> Revoked (tn_leases tn) (tn_heldAt tn) lane"

lemma silent_turn:
  assumes "silent rd" and "running lane tn"
  shows "\<exists>al' st'. read_lane_turn ee clock node name rd lane tn al st = Some (al', st', rg_idle st = 0) \<and> rg_idle st' = rg_idle st + 1 \<and>
    (rg_idle st \<noteq> 0 \<longrightarrow> rn_failure (en_run (rg_en st')) = Some (case rn_failure (en_run (rg_en st)) of None \<Rightarrow> spin_fault node | Some e \<Rightarrow> e))"
proof -
  obtain w al' b ans where rd: "rd (new_batch al) (rn_world (en_run (rg_en st))) = (w, (al', b), ans)" by (metis prod_cases3 surj_pair)
  have "case rd (new_batch al) (rn_world (en_run (rg_en st))) of (w', (al, b), ans) \<Rightarrow> ans = Returned () \<and> \<not> said b"
    using assms(1) unfolding silent_def by (elim allE)
  then have b: "ans = Returned ()" "\<not> said b" by (simp_all add: rd)
  have "read_err name (w, ans) = None" by (simp add: b read_err_def sandbox_def)
  then show ?thesis using assms(2) b(2)
    by (auto simp: running_def read_lane_turn_def rd Let_def after_read_def spinner_saw_def fail_en_def fail_def split: option.splits)
qed

text \<open>
  A lane source that has nothing to report, in two turns in a row returns with no records, no position, no end of
  its lane and no error, and is stopped at the second with a contract fault, unless the run has failed already.
\<close>
theorem spinning_source_is_stopped:
  assumes "silent rd" and "running lane tn" and "running lane tn'" and "rg_idle st = 0"
    and "\<And>en. rn_failure (en_run (others' en)) = None"
  shows "\<exists>al' st'. read_lane ee clock node name rd lane [(tn, others), (tn', others')] al st = Some (al', st', False) \<and>
    rn_failure (en_run (rg_en st')) = Some (spin_fault node)"
proof -
  obtain al1 st1 where 1: "read_lane_turn ee clock node name rd lane tn al (st\<lparr>rg_en := others (rg_en st)\<rparr>) = Some (al1, st1, True)" "rg_idle st1 = 1"
    using silent_turn [OF assms(1,2), of ee clock node name al "st\<lparr>rg_en := others (rg_en st)\<rparr>"] assms(4) by auto
  obtain al2 st2 where 2: "read_lane_turn ee clock node name rd lane tn' al1 (st1\<lparr>rg_en := others' (rg_en st1)\<rparr>) = Some (al2, st2, False)"
      "rn_failure (en_run (rg_en st2)) = Some (spin_fault node)"
    using silent_turn [OF assms(1,3), of ee clock node name al1 "st1\<lparr>rg_en := others' (rg_en st1)\<rparr>"] 1(2) assms(5) by auto
  from 1(1) 2 show ?thesis by simp
qed

end
