(* ===== verification/Canal_TrackerWait.thy ===== *)
theory Canal_TrackerWait
  imports Canal_TrackerSpec
begin

text \<open>
  A call of \<^verbatim>\<open>Track\<close> that has to wait, beside the goroutines that admit, settle, abandon and close. The wake
  channel is the generation \<open>tr_wake\<close>: a call that found no room parks on the channel it read under the lock,
  and that channel is closed once the generation has moved on. The invariant is that a call parked on the
  current generation waits on an open tracker that has no room for it, so that no wake-up is lost.
\<close>

section \<open>A waiting call and the goroutines beside it\<close>

datatype track_pc = Checking | Parked nat | Returned track_result

text \<open>One pass of the loop under the lock: it returns, or parks on the channel of the current generation.\<close>

definition track_check :: "time \<Rightarrow> 'p \<Rightarrow> nat \<Rightarrow> nat \<Rightarrow> 'p tracker \<Rightarrow> 'p tracker \<times> track_pc" where
  "track_check now p w r t =
     (case Track [] now p w r t of
        (t', StillWaiting) \<Rightarrow> (t', Parked (tr_wake t'))
      | (t', x) \<Rightarrow> (t', Returned x))"

text \<open>What the other goroutines call. Another \<^verbatim>\<open>Track\<close> that finds room does what \<^verbatim>\<open>TryTrack\<close> does.\<close>

inductive other_call :: "'p tracker \<Rightarrow> 'p tracker \<Rightarrow> bool" where
  admit: "TryTrack now p w r t = (t', k) \<Longrightarrow> other_call t t'"
| resolved: "TrackResolved now p t = (t', q) \<Longrightarrow> other_call t t'"
| release: "Release k n t = (t', q) \<Longrightarrow> other_call t t'"
| abandon: "Abandon k t = (t', q) \<Longrightarrow> other_call t t'"
| close: "other_call t (tracker_Close t)"

inductive wait_step :: "'p \<Rightarrow> nat \<Rightarrow> nat \<Rightarrow> 'p tracker \<times> track_pc \<Rightarrow> 'p tracker \<times> track_pc \<Rightarrow> bool" for p w r where
  check: "wait_step p w r (t, Checking) (track_check now p w r t)"
| wake: "tr_wake t \<noteq> g \<Longrightarrow> wait_step p w r (t, Parked g) (t, Checking)"
| cancel: "wait_step p w r (t, Parked g) (t, Returned CtxErr)"
| other: "other_call t t' \<Longrightarrow> wait_step p w r (t, pc) (t', pc)"

section \<open>No wake-up is lost\<close>

definition stuck :: "nat \<Rightarrow> 'p tracker \<Rightarrow> bool" where
  "stuck w t \<longleftrightarrow> \<not> tr_closed t \<and> \<not> has_room w t"

text \<open>A call of another goroutine either wakes, or leaves an open tracker without room as it was.\<close>

definition told_or_stuck :: "'p tracker \<Rightarrow> 'p tracker \<Rightarrow> bool" where
  "told_or_stuck t t' \<longleftrightarrow> tr_wake t < tr_wake t' \<or> tr_wake t' = tr_wake t \<and> (\<forall>w. stuck w t \<longrightarrow> stuck w t')"

lemma told_or_stuck_refl [simp]: "told_or_stuck t t"
  by (simp add: told_or_stuck_def)

lemma told_or_stuck_more:
  "tr_wake t' = tr_wake t \<Longrightarrow> tr_closed t' = tr_closed t \<Longrightarrow> tr_budget t' = tr_budget t \<Longrightarrow>
   tr_pending t \<le> tr_pending t' \<Longrightarrow> tr_nodes t \<le> tr_nodes t' \<Longrightarrow> told_or_stuck t t'"
  by (auto simp: told_or_stuck_def stuck_def has_room_def split: if_splits)

lemma advance_told:
  assumes "tr_wake u = tr_wake t" and "tr_closed u = tr_closed t" and "tr_budget u = tr_budget t"
    and "tr_pending t \<le> tr_pending u" and "tr_nodes t \<le> tr_nodes u"
  shows "told_or_stuck t (fst (advanceLocked u))"
proof (cases "front (tr_list u) = []")
  case True
  then show ?thesis using assms by (intro told_or_stuck_more) (simp_all add: advanceLocked_eq weights_def)
qed (use assms(1) in \<open>simp add: advanceLocked_eq told_or_stuck_def\<close>)

lemma discharge_told: "told_or_stuck t (fst (discharge k n ab t))"
proof -
  have "told_or_stuck t (t\<lparr>tr_list := xs\<rparr>)" "told_or_stuck t (fst (advanceLocked (t\<lparr>tr_list := xs\<rparr>)))" for xs
    by (rule told_or_stuck_more advance_told; simp)+
  then show ?thesis by (auto simp: discharge_def Let_def split: option.split)
qed

lemma resolved_told: "told_or_stuck t (fst (TrackResolved now p t))"
proof -
  have "told_or_stuck t (fst (advanceLocked (t\<lparr>tr_list := xs\<rparr>)))" "told_or_stuck t (fst (advanceLocked (fst (appendLocked n t))))" for xs n
    by (rule advance_told; simp add: appendLocked_def)+
  then show ?thesis by (auto simp: TrackResolved_def case_prod_unfold Let_def)
qed

lemma other_told: "other_call t t' \<Longrightarrow> told_or_stuck t t'"
proof (induction rule: other_call.induct)
  case (admit now p w r t t' k)
  then show ?case by (auto simp: TryTrack_def appendLocked_def Let_def split: if_splits intro: told_or_stuck_more)
next
  case (resolved now p t t' q)
  then show ?case using resolved_told [of t now p] by simp
next
  case (release k n t t' q)
  then show ?case using discharge_told [of t k n False] by (simp add: Release_def)
next
  case (abandon k t t' q)
  then show ?case using discharge_told [of t k 0 True] by (simp add: Abandon_def)
next
  case (close t)
  then show ?case by (simp add: tracker_Close_def told_or_stuck_def)
qed

fun wait_inv :: "nat \<Rightarrow> 'p tracker \<times> track_pc \<Rightarrow> bool" where
  "wait_inv w (t, Parked g) = (g \<le> tr_wake t \<and> (g = tr_wake t \<longrightarrow> stuck w t))"
| "wait_inv w (t, _) = True"

lemma track_check_parks: "track_check now p w r t = (t', Parked g) \<Longrightarrow> t' = t \<and> g = tr_wake t \<and> stuck w t"
  by (auto simp: track_check_def Track.simps stuck_def Let_def split: if_splits prod.splits)

lemma track_check_returns:
  "\<not> stuck w t \<Longrightarrow> track_check now p w r t =
     (if tr_closed t then (t, Returned ErrTrackerClosed) else (fst (TryTrack now p w r t), Returned (Tracked (tr_fresh t))))"
  by (auto simp: track_check_def Track.simps TryTrack_def stuck_def appendLocked_def)

lemma wait_step_inv: "wait_step p w r s s' \<Longrightarrow> wait_inv w s \<Longrightarrow> wait_inv w s'"
proof (induction rule: wait_step.induct)
  case (check t now)
  show ?case
  proof (cases "track_check now p w r t")
    case (Pair t' pc)
    then show ?thesis using track_check_parks [of now p w r t t'] by (cases pc) auto
  qed
next
  case (other t t' pc)
  then show ?case using other_told [OF other(1)] by (cases pc) (auto simp: told_or_stuck_def)
qed auto

text \<open>
  C22: A waiting \<^verbatim>\<open>Track\<close> is never stranded. However other goroutines admit, settle, abandon and close in
  between, a call that is parked while the tracker has room for it or is closed stands before a closed channel: the
  step out of the wait is enabled, and the pass of the loop that follows returns, with the ticket of an admission that
  is the one \<^verbatim>\<open>TryTrack\<close> makes, or with the error of a closed tracker. So every settlement that makes room and
  every close wakes the calls that were parked before it.
\<close>
theorem parked_track_is_not_stranded:
  assumes "rtranclp (wait_step p w r) (t0, Checking) (t, Parked g)" and "tr_closed t \<or> has_room w t"
  shows "wait_step p w r (t, Parked g) (t, Checking) \<and>
    wait_step p w r (t, Checking)
      (if tr_closed t then (t, Returned ErrTrackerClosed) else (fst (TryTrack now p w r t), Returned (Tracked (tr_fresh t))))"
proof -
  have "wait_inv w (t, Parked g)"
    using assms(1) by (induction rule: rtranclp_induct) (auto intro: wait_step_inv)
  then have "tr_wake t \<noteq> g" using assms(2) by (auto simp: stuck_def)
  moreover have "\<not> stuck w t" using assms(2) by (simp add: stuck_def)
  ultimately show ?thesis using wait_step.wake [of t g p w r] wait_step.check [of p w r t now] track_check_returns [of w t now p r] by simp
qed

text \<open>
  Two admissions fill the tracker; a third, heavier than its whole budget, parks. The first settlement leaves
  the prefix where it was, the second empties the tracker.
\<close>
theorem parked_track_is_not_stranded_witness:
  "rtranclp (wait_step 30 9 1) (ex_t2, Checking) (ex_t4, Parked 0) \<and> tr_wake ex_t3 = 0 \<and>
   wait_step 30 9 1 (ex_t4, Parked 0) (ex_t4, Checking) \<and>
   wait_step 30 9 1 (ex_t4, Checking) (fst (TryTrack 5 30 9 1 ex_t4), Returned (Tracked 2))"
proof -
  have c: "track_check 5 30 9 1 ex_t2 = (ex_t2, Parked 0)" by (simp add: track_check_def Track.simps ex_t_defs)
  have "wait_step 30 9 1 (ex_t2, Checking) (ex_t2, Parked 0)" using wait_step.check [of 30 9 1 ex_t2 5] c by simp
  moreover have "other_call ex_t2 ex_t3" "other_call ex_t3 ex_t4"
    by (simp_all add: ex_t3_def ex_t4_def other_call.release [OF surjective_pairing])
  ultimately have r: "rtranclp (wait_step 30 9 1) (ex_t2, Checking) (ex_t4, Parked 0)"
    by (meson wait_step.other converse_rtranclp_into_rtranclp rtranclp.rtrancl_refl)
  have e: "\<not> tr_closed ex_t4" "has_room 9 ex_t4" "tr_fresh ex_t4 = 2" "tr_wake ex_t3 = 0" by (simp_all add: ex_t_defs)
  from parked_track_is_not_stranded [OF r, of 5] e r show ?thesis by simp
qed

end
