(* ===== verification/Canal_LedgerWire.thy ===== *)
theory Canal_LedgerWire
  imports Canal_LedgerProps "HOL-Library.Multiset"
begin

text \<open>
  The acknowledgements of the ledger on their way to the channel. \<^verbatim>\<open>Committed\<close> and \<^verbatim>\<open>emitDiscrete\<close> build
  acknowledgements under the ledger's lock, release it, and then \<^verbatim>\<open>send\<close> them one by one; other operations
  run in between. Here each call that built some leaves them in a queue of its own, from which they are sent, or
  dropped once the ledger is closed, in steps of their own. The two critical sections of \<^verbatim>\<open>Settle\<close> stay one step: what
  another goroutine can do between them is to revoke the lane, which drops the handles, or to emit them itself. The
  payloads and faults of an operation play no part in what is acknowledged and are \<open>unit\<close> here.
\<close>

section \<open>Building and sending\<close>

record wire =
  wi_sys :: sys
  wi_queues :: "ack list list"
  wi_sent :: "ack list"

definition wire_init :: "led_config \<Rightarrow> wire" where
  "wire_init cfg = \<lparr>wi_sys = sys_init cfg, wi_queues = [], wi_sent = []\<rparr>"

text \<open>
  A sender that tested \<^verbatim>\<open>closed\<close> before \<^verbatim>\<open>Close\<close> set it may still send; one that tests it afterwards, or is parked on a
  full buffer when \<^verbatim>\<open>Close\<close> releases it, drops its acknowledgement.
\<close>

inductive wire_step :: "wire \<Rightarrow> wire \<Rightarrow> bool" where
  call: "led_exec (op :: (unit, unit) led_op) (wi_sys w) = Some s' \<Longrightarrow> as = drop (length (led_acks (sy_led (wi_sys w)))) (led_acks (sy_led s')) \<Longrightarrow>
    wire_step w (w\<lparr>wi_sys := s', wi_queues := wi_queues w @ [as]\<rparr>)"
| send: "i < length (wi_queues w) \<Longrightarrow> wi_queues w ! i = a # as \<Longrightarrow>
    wire_step w (w\<lparr>wi_queues := (wi_queues w)[i := as], wi_sent := wi_sent w @ [a]\<rparr>)"
| drop: "i < length (wi_queues w) \<Longrightarrow> wi_queues w ! i = a # as \<Longrightarrow> led_closed (sy_led (wi_sys w)) \<Longrightarrow>
    wire_step w (w\<lparr>wi_queues := (wi_queues w)[i := as]\<rparr>)"

definition fenced_in :: "lane_id \<Rightarrow> wire \<Rightarrow> bool" where
  "fenced_in lid w \<longleftrightarrow> (case map_of (led_lanes (sy_led (wi_sys w))) lid of None \<Rightarrow> False | Some st \<Rightarrow> ls_fenced st)"

text \<open>What is built for a lane and not sent yet.\<close>

definition in_flight :: "lane_id \<Rightarrow> wire \<Rightarrow> ack list" where
  "in_flight lid w = lane_acks lid (concat (wi_queues w))"

section \<open>The fence\<close>

lemma acks_step_appends: "acks_step l l' \<Longrightarrow> \<exists>as. led_acks l' = led_acks l @ as"
  unfolding acks_step_def by (auto simp: silent_def emission_def)

lemma exec_appends:
  assumes "core_inv s" and "led_exec op s = Some s'"
  shows "led_acks (sy_led s') = led_acks (sy_led s) @ drop (length (led_acks (sy_led s))) (led_acks (sy_led s'))"
  using acks_step_appends [OF exec_acks [OF assms]] by auto

lemma wire_core: "rtranclp wire_step (wire_init cfg) w \<Longrightarrow> core_inv (wi_sys w)"
proof (induction rule: rtranclp_induct)
  case base
  then show ?case using core_inv_init by (simp add: wire_init_def)
next
  case (step w w')
  from step(2,3) show ?case by cases (auto dest: exec_core)
qed

lemma mset_queue_tail:
  assumes "i < length qs" and "qs ! i = a # as"
  shows "mset (lane_acks lid (concat qs)) = mset (lane_acks lid [a]) + mset (lane_acks lid (concat (qs[i := as])))"
proof -
  have "qs = take i qs @ (a # as) # drop (Suc i) qs" using id_take_nth_drop [OF assms(1)] assms(2) by simp
  moreover have "qs[i := as] = take i qs @ as # drop (Suc i) qs" using assms(1) by (simp add: upd_conv_take_nth_drop)
  ultimately have "lane_acks lid (concat qs) = lane_acks lid (concat (take i qs)) @ lane_acks lid (a # as) @ lane_acks lid (concat (drop (Suc i) qs))"
    "lane_acks lid (concat (qs[i := as])) = lane_acks lid (concat (take i qs)) @ lane_acks lid as @ lane_acks lid (concat (drop (Suc i) qs))"
    by (metis concat_append concat.simps(2) lane_acks_simps(2))+
  then show ?thesis by simp
qed

lemma fenced_wire_step:
  assumes "wire_step w w'" and "core_inv (wi_sys w)" and "fenced_in lid w"
  shows "\<exists>xs. wi_sent w' = wi_sent w @ xs \<and> mset (lane_acks lid xs) + mset (in_flight lid w') \<subseteq># mset (in_flight lid w)"
  using assms(1)
proof cases
  case (call op s' as)
  obtain st where st: "map_of (led_lanes (sy_led (wi_sys w))) lid = Some st" "ls_fenced st"
    using assms(3) by (auto simp: fenced_in_def split: option.splits)
  have "lane_acks lid as = []"
    using fenced_step_silent [OF exec_acks [OF assms(2) call(2)] st] exec_appends [OF assms(2) call(2)] call(3)
    by (metis append_self_conv lane_acks_simps(2))
  then show ?thesis using call(1) by (simp add: in_flight_def)
next
  case (send i a as)
  then show ?thesis using mset_queue_tail [OF send(2,3), of lid] by (intro exI [of _ "[a]"]) (simp add: in_flight_def)
next
  case (drop i a as)
  then show ?thesis using mset_queue_tail [OF drop(2,3), of lid] by (simp add: in_flight_def)
qed

text \<open>
  C18: The fence. From the moment a lane is fenced, whatever the ledger's operations do and however they interleave
  with the goroutines that send, and for as long as the epoch the lane is held under stays one that a revocation
  covers: every acknowledgement for the lane that reaches the channel was already built and on its way when the
  lane was fenced. None is built, and each of those is sent at most once. So when none was on its way, none is sent.
\<close>
theorem fenced_lane_is_silent:
  assumes "rtranclp wire_step (wire_init cfg) w"
    and "rtranclp (\<lambda>v v'. wire_step v v' \<and> fenced_in lid v) w w'"
  shows "\<exists>xs. wi_sent w' = wi_sent w @ xs \<and> mset (lane_acks lid xs) + mset (in_flight lid w') \<subseteq># mset (in_flight lid w)"
  using assms(2)
proof (induction rule: rtranclp_induct)
  case base
  then show ?case by (intro exI [of _ "[]"]) simp
next
  case (step v v')
  have "rtranclp wire_step w v" using step(1) by (rule rtranclp_mono [THEN predicate2D, rotated]) blast
  then have "core_inv (wi_sys v)" using wire_core [OF rtranclp_trans [OF assms(1)]] by blast
  from fenced_wire_step [OF _ this, of v' lid] step(2) obtain ys where
    y: "wi_sent v' = wi_sent v @ ys" "mset (lane_acks lid ys) + mset (in_flight lid v') \<subseteq># mset (in_flight lid v)" by blast
  from step.IH obtain xs where
    x: "wi_sent v = wi_sent w @ xs" "mset (lane_acks lid xs) + mset (in_flight lid v) \<subseteq># mset (in_flight lid w)" by blast
  have "mset (lane_acks lid xs) + (mset (lane_acks lid ys) + mset (in_flight lid v')) \<subseteq># mset (in_flight lid w)"
    using y(2) x(2) by (meson subset_mset.add_left_mono subset_mset.order_trans)
  then show ?case using x(1) y(1) by (intro exI [of _ "xs @ ys"]) (simp add: add.assoc)
qed

text \<open>A prefix lane and a batch of two, flushed; the lane is revoked while the acknowledgement waits to be sent.\<close>

definition wire_call :: "(unit, unit) led_op \<Rightarrow> wire \<Rightarrow> wire option" where
  "wire_call op w = (case led_exec op (wi_sys w) of None \<Rightarrow> None | Some s' \<Rightarrow>
     Some (w\<lparr>wi_sys := s', wi_queues := wi_queues w @ [drop (length (led_acks (sy_led (wi_sys w)))) (led_acks (sy_led s'))]\<rparr>))"

fun wire_calls :: "(unit, unit) led_op list \<Rightarrow> wire \<Rightarrow> wire option" where
  "wire_calls [] w = Some w"
| "wire_calls (op # ops) w = (case wire_call op w of None \<Rightarrow> None | Some w' \<Rightarrow> wire_calls ops w')"

lemma wire_call_step: "wire_call op w = Some w' \<Longrightarrow> wire_step w w'"
  using wire_step.call [of op w] by (auto simp: wire_call_def split: option.splits)

lemma wire_calls_steps: "wire_calls ops w = Some w' \<Longrightarrow> rtranclp wire_step w w'"
proof (induction ops w rule: wire_calls.induct)
  case (2 op ops w)
  then obtain v where v: "wire_call op w = Some v" "wire_calls ops v = Some w'" by (auto split: option.splits)
  show ?case by (rule converse_rtranclp_into_rtranclp [OF wire_call_step [OF v(1)] "2.IH" [OF v]])
qed simp

definition wi_fenced :: wire where
  "wi_fenced = the (wire_calls (ex_ops @ [OpRevoke ''L'']) (wire_init ex_cfg))"

definition wi_late :: wire where
  "wi_late = the (wire_call (OpCommitted [(''L'', zero_position\<lparr>pos_Safe := True, pos_Seq := 2\<rparr>)]) wi_fenced)"

theorem fenced_lane_is_silent_witness:
  "fenced_in ''L'' wi_fenced \<and> length (in_flight ''L'' wi_fenced) = 1 \<and> rtranclp wire_step (wire_init ex_cfg) wi_late \<and>
   length (in_flight ''L'' wi_late) = 1 \<and> mset (in_flight ''L'' wi_late) \<subseteq># mset (in_flight ''L'' wi_fenced)"
proof -
  let ?op = "OpCommitted [(''L'', zero_position\<lparr>pos_Safe := True, pos_Seq := 2\<rparr>)]"
  have e: "wire_calls (ex_ops @ [OpRevoke ''L'']) (wire_init ex_cfg) \<noteq> None" "wire_call ?op wi_fenced \<noteq> None"
    "fenced_in ''L'' wi_fenced" "length (in_flight ''L'' wi_fenced) = 1" "length (in_flight ''L'' wi_late) = 1" by code_simp+
  have r: "rtranclp wire_step (wire_init ex_cfg) wi_fenced" using e(1) by (intro wire_calls_steps) (simp add: wi_fenced_def)
  have s: "wire_step wi_fenced wi_late" using e(2) by (intro wire_call_step [of ?op]) (simp add: wi_late_def)
  from fenced_lane_is_silent [OF r, of "''L''" wi_late] s e(3) obtain xs where
    "mset (lane_acks ''L'' xs) + mset (in_flight ''L'' wi_late) \<subseteq># mset (in_flight ''L'' wi_fenced)" by auto
  then have "mset (in_flight ''L'' wi_late) \<subseteq># mset (in_flight ''L'' wi_fenced)" by (meson subset_mset.order_trans mset_subset_eq_add_right)
  then show ?thesis using e r s by (meson rtranclp.rtrancl_into_rtrancl)
qed

text \<open>
  And those on their way do arrive: a revocation that falls between the lock and the send stops nothing, although
  \<^verbatim>\<open>Revoke\<close> says that no acknowledgement for the lane's work is delivered from then on.
\<close>

lemma ack_in_flight_outlives_the_revocation:
  assumes "i < length (wi_queues w)" and "wi_queues w ! i = a # as" and "map_of (led_lanes (sy_led (wi_sys w))) (ack_Lane a) = Some st"
  shows "\<exists>v w'. wire_step w v \<and> fenced_in (ack_Lane a) v \<and> wire_step v w' \<and> fenced_in (ack_Lane a) w' \<and> wi_sent w' = wi_sent w @ [a]"
proof -
  let ?s = "on_led (fst \<circ> Revoke (ack_Lane a)) (wi_sys w)"
  let ?v = "w\<lparr>wi_sys := ?s, wi_queues := wi_queues w @ [drop (length (led_acks (sy_led (wi_sys w)))) (led_acks (sy_led ?s))]\<rparr>"
  let ?w = "?v\<lparr>wi_queues := (wi_queues ?v)[i := as], wi_sent := wi_sent ?v @ [a]\<rparr>"
  have "wire_step w ?v" using wire_step.call [of "OpRevoke (ack_Lane a)" w ?s] by simp
  moreover have f: "fenced_in (ack_Lane a) ?v" using assms(3)
    by (auto simp: fenced_in_def on_led_def Revoke_def ls_fenced_def drop_handles_def clear_acc_def)
  moreover have "wire_step ?v ?w" using assms(1,2) by (intro wire_step.send) (simp_all add: nth_append)
  moreover have "fenced_in (ack_Lane a) ?w" "wi_sent ?w = wi_sent w @ [a]" using f by (simp_all add: fenced_in_def)
  ultimately show ?thesis by blast
qed

end
