(* ===== verification/Canal_FanOut.thy ===== *)
theory Canal_FanOut
  imports Canal_WriteProps Canal_WriteNode Canal_LedgerProps
begin

text \<open>
  A batch and several main sinks. The ledger counts one reference for each record, whatever the number of sinks
  the batch goes to, so the outcomes of the first sink that does not defer durability are all it waits for.
\<close>

section \<open>Settling in several calls\<close>

text \<open>What of a ledger decides which groups are open after a settlement, and what a settlement does to it.\<close>

definition books :: "ledger \<Rightarrow> (group_id \<times> group) list \<times> (record_id \<times> group_id) list \<times> lane_id set" where
  "books l = (led_groups l, led_byRec l, dom (map_of (led_lanes l)))"

lemma books_upd_lane [simp]: "books (upd_lane lid f l) = books l"
  by (auto simp: books_def split: if_splits)

lemma dom_upd_lane [simp]: "dom (map_of (led_lanes (upd_lane lid f l))) = dom (map_of (led_lanes l))"
  by (auto split: if_splits)

lemma books_settle_one: "books l = books l2 \<Longrightarrow> books (fst (settle_one ou (l, adv))) = books (fst (settle_one ou (l2, adv2)))"
proof (cases "map_of (led_byRec l) (out_Record ou)")
  case (Some gid)
  assume b: "books l = books l2"
  then have e: "led_byRec l2 = led_byRec l" "led_groups l2 = led_groups l" "dom (map_of (led_lanes l2)) = dom (map_of (led_lanes l))"
    by (simp_all add: books_def)
  show ?thesis
  proof (cases "map_of (led_groups l) gid")
    case (Some g)
    let ?g = "group_outcome ou g"
    have ex: "(map_of (led_lanes l2) (g_lane ?g) = None) = (map_of (led_lanes l) (g_lane ?g) = None)" using e(3) by (metis domIff)
    show ?thesis
    proof (cases "map_of (led_lanes l) (g_lane ?g)")
      case None
      with ex \<open>map_of (led_byRec l) _ = Some gid\<close> Some e show ?thesis by (simp add: settle_one_def Let_def books_def)
    next
      case (Some st)
      with ex obtain st2 where "map_of (led_lanes l2) (g_lane ?g) = Some st2" by (metis option.exhaust)
      with \<open>map_of (led_byRec l) _ = Some gid\<close> \<open>map_of (led_groups l) gid = Some g\<close> Some e show ?thesis
        by (simp add: settle_one_def Let_def case_prod_unfold) (simp add: books_def)
    qed
  qed (use b Some e in \<open>simp add: settle_one_def\<close>)
qed (simp add: settle_one_def books_def)

lemma books_settle_fold: "books l = books l2 \<Longrightarrow> books (fst (fold settle_one outs (l, adv))) = books (fst (fold settle_one outs (l2, adv2)))"
proof (induction outs arbitrary: l l2 adv adv2)
  case (Cons ou outs)
  obtain l' a where 1: "settle_one ou (l, adv) = (l', a)" by fastforce
  obtain l2' a2 where 2: "settle_one ou (l2, adv2) = (l2', a2)" by fastforce
  from books_settle_one [OF Cons.prems, of ou adv adv2] have "books l' = books l2'" by (simp add: 1 2)
  from Cons.IH [OF this] show ?case by (simp add: 1 2)
qed simp

lemma books_Settle: "books (Settle outs l) = books (fst (fold settle_one outs (l, [])))"
proof -
  have "books (fold apply_advance adv l) = books l" for adv l
    by (induction adv arbitrary: l) (simp_all add: apply_advance_def)
  moreover have "books (emitDiscrete l) = books l" for l by (auto simp: emitDiscrete_def books_def)
  ultimately show ?thesis by (simp add: Settle_def case_prod_unfold Let_def)
qed

lemma books_fold_Settle: "books (fold Settle outss l) = books (Settle (concat outss) l)"
proof (induction outss arbitrary: l)
  case (Cons outs outss)
  have "books (fold Settle (outs # outss) l) = books (Settle (concat outss) (Settle outs l))" using Cons by simp
  also have "\<dots> = books (fst (fold settle_one (concat outss) (fold settle_one outs (l, []))))"
    using books_settle_fold [of "Settle outs l" "fst (fold settle_one outs (l, []))" "concat outss" "[]" "snd (fold settle_one outs (l, []))"]
    by (simp add: books_Settle)
  finally show ?case by (simp add: books_Settle)
qed (simp add: books_Settle)

text \<open>A settlement opens no group.\<close>

lemma settle_one_opens_none: "map_of (led_groups (fst s)) gid = None \<Longrightarrow> map_of (led_groups (fst (settle_one ou s))) gid = None"
  by (cases s) (auto simp: settle_one_def Let_def case_prod_unfold split: option.splits if_splits)

lemma settle_fold_opens_none:
  "map_of (led_groups l) gid = None \<Longrightarrow> map_of (led_groups (fst (fold settle_one outs (l, adv)))) gid = None"
proof (induction outs arbitrary: l adv)
  case (Cons ou outs)
  obtain l' a where 1: "settle_one ou (l, adv) = (l', a)" by fastforce
  from settle_one_opens_none [of "(l, adv)" gid ou] Cons.prems have "map_of (led_groups l') gid = None" by (simp add: 1)
  from Cons.IH [OF this] show ?case by (simp add: 1)
qed simp

lemma groups_fold_Settle: "led_groups (fold Settle outss l) = led_groups (fst (fold settle_one (concat outss) (l, [])))"
  using books_fold_Settle [of outss l] books_Settle [of "concat outss" l] by (simp add: books_def)

lemma fold_Settle_opens_none: "map_of (led_groups l) gid = None \<Longrightarrow> map_of (led_groups (fold Settle outss l)) gid = None"
  unfolding groups_fold_Settle by (rule settle_fold_opens_none)

lemma only_at_ledger: "only_at n r r' \<Longrightarrow> \<exists>outss :: err outcome list list. rn_ledger r' = fold Settle outss (rn_ledger r)"
  by (auto simp: only_at_def)

section \<open>The first sink\<close>

lemma count_one_distinct: "(\<And>x. x \<in> set xs \<Longrightarrow> count_list xs x = 1) \<Longrightarrow> distinct xs"
proof (induction xs)
  case (Cons a xs)
  have "a \<notin> set xs" using Cons.prems [of a] by (simp add: count_list_0_iff)
  moreover have "count_list xs x = 1" if "x \<in> set xs" for x using Cons.prems [of x] that calculation by (auto split: if_splits)
  ultimately show ?case using Cons.IH by simp
qed simp

text \<open>What a sink that does not defer durability gives the ledger for a set it has written: one outcome for each record.\<close>

lemma writeSet_outcomes:
  assumes "writeSet we n rs lane p rds r = Some (r1, None)" and "distinct (ids rs)" and "\<not> defersDurability (we_sinks we n)"
  obtains outss :: "err outcome list list" where "rn_ledger r1 = fold Settle outss (rn_ledger r)" "distinct (map out_Record (concat outss))"
    "set (map out_Record (concat outss)) = set (ids rs)"
proof -
  have p: "rn_pending r1 = rn_pending r"
    using at_once.frame_writeSet [OF refl assms(1)] assms(3) by (simp add: holds_nothing_new_def)
  obtain outss where o: "rn_ledger r1 = fold Settle outss (rn_ledger r)" "rn_outs r1 = rn_outs r @ concat outss"
    using own.frame_writeSet [OF refl assms(1)] unfolding only_at_def by blast
  have "accounted k r1 = accounted k r + (if k \<in> set (ids rs) then 1 else 0)" for k
    using write_loop_spec [OF assms(1) [unfolded writeSet_def] assms(2)] unfolding at_most_once_def by (auto dest!: spec [of _ k])
  then have c: "count_list (map out_Record (concat outss)) k = (if k \<in> set (ids rs) then 1 else 0)" for k
    using p o(2) by (simp add: accounted_def)
  have "set (map out_Record (concat outss)) = set (ids rs)"
    using c by (metis (no_types, lifting) count_list_0_iff one_neq_zero subsetI subset_antisym)
  moreover have "distinct (map out_Record (concat outss))" by (rule count_one_distinct) (use c calculation in auto)
  ultimately show thesis by (intro that [OF o(1)])
qed

lemma deliver_to_settles: "deliver_to we ns b rdss r = Some (r', e) \<Longrightarrow> \<exists>outss :: err outcome list list. rn_ledger r' = fold Settle outss (rn_ledger r)"
proof (induction we ns b rdss r rule: deliver_to.induct)
  case (2 we n ns b rdss r)
  let ?rds = "case rdss of [] \<Rightarrow> [] | rds # _ \<Rightarrow> rds"
  obtain r1 x where w: "writeSet we n (b_Records b) (b_Lane b) (b_Position b) ?rds r = Some (r1, x)"
    using "2.prems" by (auto split: option.splits)
  obtain o1 :: "err outcome list list" where 1: "rn_ledger r1 = fold Settle o1 (rn_ledger r)" using only_at_ledger [OF own.frame_writeSet [OF refl w]] by (elim exE)
  show ?case
  proof (cases x)
    case None
    obtain o2 :: "err outcome list list" where 2: "rn_ledger (flushIfDue we n r1) = fold Settle o2 (rn_ledger r1)"
      by (elim exE [OF only_at_ledger [OF only_at_flushIfDue]])
    obtain o3 :: "err outcome list list" where "rn_ledger r' = fold Settle o3 (rn_ledger (flushIfDue we n r1))"
      using "2.IH" [OF w refl None] "2.prems" w None by auto
    then show ?thesis using 1 2 by (intro exI [of _ "o1 @ o2 @ o3"]) simp
  qed (use "2.prems" w 1 in auto)
qed (auto intro: exI [of _ "[]"])

text \<open>
  C39: In a fan-out the first sink's success settles the batch for all of them. Let a batch be admitted, with one
  reference for each of its records outstanding, and let the first of the main sinks write it at last, being one that
  does not defer durability. Then the group of the batch is closed the moment that sink is done, and stays so
  whatever the delivery to the other main sinks comes to, a failure included: the ledger may hand out the batch's
  position although no other sink has its records.
\<close>
theorem fan_out_settles_on_the_first_sink:
  assumes "led_run ops (sys_init cfg) = Some s" and "rn_ledger r = sy_led s"
    and "map_of (led_groups (sy_led s)) gid = Some g" and "\<forall>rc\<in>set (b_Records b). map_of (led_byRec (sy_led s)) (rec_ID rc) = Some gid"
    and "distinct (ids (b_Records b))" and "length (b_Records b) = g_refs g - g_settled g"
    and "we_mainSinks we = n # ns" and "\<not> defersDurability (we_sinks we n)"
    and "writeSet we n (b_Records b) (b_Lane b) (b_Position b) (case rdss of [] \<Rightarrow> [] | rds # _ \<Rightarrow> rds) r = Some (r1, None)"
    and "deliver we b rdss r = Some (r', e)"
  shows "map_of (led_groups (rn_ledger r1)) gid = None \<and> map_of (led_groups (rn_ledger r')) gid = None"
proof -
  obtain outss :: "err outcome list list" where o: "rn_ledger r1 = fold Settle outss (rn_ledger r)" "distinct (map out_Record (concat outss))"
    "set (map out_Record (concat outss)) = set (ids (b_Records b))" by (rule writeSet_outcomes [OF assms(9,5,8)])
  have len: "length (concat outss) = g_refs g - g_settled g"
    using distinct_card [OF o(2)] distinct_card [OF assms(5)] o(3) assms(6) by simp
  have rec: "\<forall>ou\<in>set (concat outss). map_of (led_byRec (sy_led s)) (out_Record ou) = Some gid"
  proof
    fix ou
    assume "ou \<in> set (concat outss)"
    then have "out_Record ou \<in> set (ids (b_Records b))" unfolding o(3) [symmetric] by simp
    then show "map_of (led_byRec (sy_led s)) (out_Record ou) = Some gid" using assms(4) by auto
  qed
  obtain l adv where f: "fold settle_one (concat outss) (sy_led s, []) = (l, adv)" by fastforce
  have "map_of (led_groups l) gid = None"
    by (rule settle_fold_closes [OF run_led_ok [OF assms(1)] _ f rec o(2) assms(3) len]) (simp add: adv_ok_def)
  then have c: "map_of (led_groups (rn_ledger r1)) gid = None"
    using f by (simp add: o(1) assms(2) groups_fold_Settle)
  have "deliver_to we ns b (tl rdss) (flushIfDue we n r1) = Some (r', e)"
    using assms(7,9,10) by (simp add: deliver_def)
  then obtain o2 :: "err outcome list list" where "rn_ledger r' = fold Settle o2 (rn_ledger (flushIfDue we n r1))" by (elim exE [OF deliver_to_settles])
  moreover obtain o1 :: "err outcome list list" where "rn_ledger (flushIfDue we n r1) = fold Settle o1 (rn_ledger r1)"
    by (elim exE [OF only_at_ledger [OF only_at_flushIfDue]])
  ultimately have "map_of (led_groups (rn_ledger r')) gid = None"
    using fold_Settle_opens_none [OF fold_Settle_opens_none [OF c], of o2 o1] by simp
  with c show ?thesis by simp
qed

text \<open>Two main sinks of which the second refuses for good.\<close>

definition fo_ops :: "(unit, err) led_op list" where
  "fo_ops = [OpLane ''L'' OrderingPrefix 10 WhenFullBlock, OpSetEpoch ''L'' 1, OpAdmitBegin 0 ex_two, OpAdmitTrack 0 ''L'', OpAdmitEnd ''L'']"

definition fo_sys :: sys where
  "fo_sys = the (led_run fo_ops (sys_init ex_cfg))"

definition fo_env :: "(unit, ex_world) write_env" where
  "fo_env = ex_env (\<lambda>n. if n = ''A'' then ex_sink n (ex_accept n) else ex_sink n (ex_refuse (Permanent FOpWrite None))) DefaultRetry"

definition fo_runner :: "(unit, ex_world) runner" where
  "fo_runner = (ex_runner ex_two)\<lparr>rn_ledger := sy_led fo_sys\<rparr>"

definition fo_first :: "((unit, ex_world) runner \<times> err option) option" where
  "fo_first = writeSet fo_env ''A'' (b_Records ex_two) (b_Lane ex_two) (b_Position ex_two) [ex_round] fo_runner"

definition fo_all :: "((unit, ex_world) runner \<times> err option) option" where
  "fo_all = deliver fo_env ex_two [[ex_round], [ex_round]] fo_runner"

theorem fan_out_settles_on_the_first_sink_witness:
  "\<exists>r' e. fo_all = Some (r', Some e) \<and> rn_world r' = [(''A'', 1), (''A'', 2)] \<and> map_of (led_groups (rn_ledger fo_runner)) 1 \<noteq> None \<and>
     map_of (led_groups (rn_ledger r')) 1 = None \<and> map (\<lambda>(l, p). (l, pos_Seq p)) (snd (Flushable (rn_ledger r'))) = [(''L'', 1)]"
proof -
  have e: "led_run fo_ops (sys_init ex_cfg) \<noteq> None" "map_option (\<lambda>g. (g_refs g, g_settled g)) (map_of (led_groups (sy_led fo_sys)) 1) = Some (2, 0)"
    "\<forall>rc\<in>set (b_Records ex_two). map_of (led_byRec (sy_led fo_sys)) (rec_ID rc) = Some 1" "distinct (ids (b_Records ex_two))"
    "length (b_Records ex_two) = 2" "we_mainSinks fo_env = [''A'', ''B'']" "\<not> defersDurability (we_sinks fo_env ''A'')"
    "map_option snd fo_first = Some None" by code_simp+
  have a: "map_option (\<lambda>(r', e). (rn_world r', map (\<lambda>(l, p). (l, pos_Seq p)) (snd (Flushable (rn_ledger r'))), e = None)) fo_all =
      Some ([(''A'', 1), (''A'', 2)], [(''L'', 1)], False)" by code_simp
  have run: "led_run fo_ops (sys_init ex_cfg) = Some fo_sys" using e(1) by (auto simp: fo_sys_def)
  obtain g where g: "map_of (led_groups (sy_led fo_sys)) 1 = Some g" "g_refs g = 2" "g_settled g = 0" using e(2) by auto
  obtain r1 where r1: "fo_first = Some (r1, None)" using e(8) by auto
  obtain r' x where r': "fo_all = Some (r', Some x)" "rn_world r' = [(''A'', 1), (''A'', 2)]"
    "map (\<lambda>(l, p). (l, pos_Seq p)) (snd (Flushable (rn_ledger r'))) = [(''L'', 1)]" using a by auto
  have "map_of (led_groups (rn_ledger r')) 1 = None"
    using fan_out_settles_on_the_first_sink [OF run _ g(1) e(3,4) _ e(6,7), of fo_runner "[[ex_round], [ex_round]]" r1 r' "Some x"]
      g e(5) r1 r'(1) by (simp add: fo_runner_def fo_first_def fo_all_def)
  with r' show ?thesis by (intro exI [of _ r'] exI [of _ x]) (simp add: fo_runner_def g(1) [simplified])
qed

end
