(* ===== verification/Canal_WatchProps.thy ===== *)
theory Canal_WatchProps
  imports Canal_Read Canal_LaneProps
begin

text \<open>
  The wait for a new lane. Whatever the goroutines of a run do to the lane table, and however it interleaves with
  the watcher's own steps, a source that waits on a worker without a coordinator is woken for every lane the
  table offers and it does not read, but for the lanes two failing operations put on offer and tell nobody
  about. With a coordinator a lane that a round of the lease loop obtains wakes nobody.
\<close>

section \<open>A lane announced while its source waits\<close>

text \<open>What of a table decides which lanes it offers: all of it but the cursors.\<close>

definition shape :: "lane_record \<Rightarrow> lane_spec \<times> bool \<times> time" where
  "shape rec = (lx_Spec rec, lx_Finished rec, lx_FinishedAt rec)"

definition shapes :: "lane_ctl \<Rightarrow> (lane_id \<times> lane_spec \<times> bool \<times> time) list" where
  "shapes l = map (\<lambda>(lane, rec). (lane, shape rec)) (lc_lanes l)"

lemma map_of_shapes: "map_of (shapes l) lane = map_option shape (map_of (lc_lanes l) lane)"
  by (simp add: shapes_def map_of_map comp_def)


lemma cursor_shape [simp]: "shape (rec\<lparr>lx_Cursor := p\<rparr>) = shape rec"
  by (simp add: shape_def)

lemma gated_shapes: "gatedOnLocked l rec = filter (\<lambda>g. list_ex (\<lambda>(_, sp, fin, t). sp_Group sp = g \<and> \<not> (fin \<and> \<not> time_is_zero t)) (shapes l))
    (sp_StartAfter (fst (shape rec)))"
  by (auto simp: gatedOnLocked_def shapes_def shape_def durably_finished_def list_ex_iff case_prod_unfold intro!: filter_cong)

lemma Assigned_ids: "map la_ID (Assigned lt now l) = filter (\<lambda>lane. case map_of (lc_lanes l) lane of None \<Rightarrow> False | Some rec \<Rightarrow> offered lt now l lane rec) (lc_order l)"
proof -
  have "map la_ID (concat (map (\<lambda>lane. case map_of (lc_lanes l) lane of None \<Rightarrow> [] | Some rec \<Rightarrow>
      if offered lt now l lane rec then [assignment_of lt l lane rec] else []) xs)) =
    filter (\<lambda>lane. case map_of (lc_lanes l) lane of None \<Rightarrow> False | Some rec \<Rightarrow> offered lt now l lane rec) xs" for xs
    by (induction xs) (auto simp: assignment_of_def split: option.splits)
  then show ?thesis by (simp add: Assigned_def)
qed


text \<open>
  A change of the table either closes the channel, or offers no lane that was not offered before and that it did
  not put on offer itself.
\<close>

definition told :: "lane_ctl \<Rightarrow> lane_ctl \<Rightarrow> bool" where
  "told l l' \<longleftrightarrow> lc_changes l < lc_changes l' \<or>
     lc_changes l' = lc_changes l \<and> (\<forall>lt now. set (map la_ID (Assigned lt now l')) \<subseteq> set (map la_ID (Assigned lt now l)) \<union> set (put_on_offer l l'))"

lemma told_notify [simp]: "lc_changes l' = lc_changes l \<Longrightarrow> told l (lc_notify l')"
  by (simp add: told_def lc_notify_def)

lemma gated_mono: "set (shapes l) \<subseteq> set (shapes l') \<Longrightarrow> gatedOnLocked l' rec' = [] \<Longrightarrow> shape rec' = shape rec \<Longrightarrow> gatedOnLocked l rec = []"
  unfolding gated_shapes filter_empty_conv list_ex_iff by (metis (no_types, lifting) subsetD)

lemma told_frame:
  assumes "lc_changes l' = lc_changes l" and "set (shapes l) \<subseteq> set (shapes l')"
    and "\<And>lane. lane \<in> set (lc_order l') \<Longrightarrow> lc_has lane l \<Longrightarrow> lane \<in> set (lc_order l) \<and> map_of (shapes l') lane = map_of (shapes l) lane"
  shows "told l l'"
proof -
  have "lane \<in> set (map la_ID (Assigned lt now l)) \<union> set (put_on_offer l l')" if a: "lane \<in> set (map la_ID (Assigned lt now l'))" for lane lt now
  proof (cases "lane \<in> set (put_on_offer l l')")
    case False
    from a obtain rec' where r: "lane \<in> set (lc_order l')" "map_of (lc_lanes l') lane = Some rec'" "offered lt now l' lane rec'"
      unfolding Assigned_ids by (auto split: option.splits)
    from False r(1) have h: "lc_has lane l" "lane \<in> set (lc_finishPending l) \<Longrightarrow> lane \<in> set (lc_finishPending l')"
      by (auto simp: put_on_offer_def)
    with assms(3) [OF r(1) h(1)] r(2) obtain rec where o: "lane \<in> set (lc_order l)" "map_of (lc_lanes l) lane = Some rec" "shape rec' = shape rec"
      by (cases "map_of (lc_lanes l) lane") (auto simp: map_of_shapes lc_has_def)
    have "offered lt now l lane rec"
      using r(3) h(2) o(3) gated_mono [OF assms(2) _ o(3)] by (auto simp: offered_def shape_def)
    then show ?thesis using o(1,2) unfolding Assigned_ids by auto
  qed simp
  then show ?thesis using assms(1) unfolding told_def by blast
qed

lemma told_same: "lc_changes l' = lc_changes l \<Longrightarrow> shapes l' = shapes l \<Longrightarrow> lc_order l' = lc_order l \<Longrightarrow> told l l'"
  by (rule told_frame) simp_all

lemma told_refl [simp]: "told l l"
  by (rule told_same) simp_all

lemma fold_add_fresh_changes: "lc_changes (fold add_fresh xs l) = lc_changes l"
  by (induction xs arbitrary: l) (auto simp: add_fresh_def split: option.splits prod.splits)





lemma mutate_changes: "lc_mutate c ops lt now lane f (l, s) = ((l', s'), e) \<Longrightarrow> lc_changes l' = lc_changes l"
  by (auto simp: lc_mutate_def bump_version_def split: option.splits sum.splits prod.splits bool.splits)


lemma mutate_failed: "lc_mutate c ops lt now lane f (l, s) = ((l', s'), Some e) \<Longrightarrow> l' = l"
  by (auto simp: lc_mutate_def split: option.splits sum.splits prod.splits bool.splits)








text \<open>The two failures are the only operations that change what is on offer and tell nobody.\<close>

lemma untold_by_failures_only:
  "announceMany c ops whenFull lt specs (l, led, s) = ((l', led', s'), Inr lanes) \<Longrightarrow> lc_changes l < lc_changes l' \<or> l' = l"
  "retire c ops lt now lane (l, s) = ((l', s'), e) \<Longrightarrow> (\<forall>x. e = Some x \<longrightarrow> ClassOf x \<noteq> Fenced) \<Longrightarrow> lc_changes l < lc_changes l' \<or> l' = l"
  "Forget ops lt now lane (l, s) = ((l', s'), e) \<Longrightarrow> lc_changes l < lc_changes l' \<or> l' = l"
proof -
  show "announceMany c ops whenFull lt specs (l, led, s) = ((l', led', s'), Inr lanes) \<Longrightarrow> lc_changes l < lc_changes l' \<or> l' = l"
    by (auto simp: announceMany_def Let_def fold_add_fresh_changes lc_notify_def split: if_splits sum.splits prod.splits option.splits)
  show "Forget ops lt now lane (l, s) = ((l', s'), e) \<Longrightarrow> lc_changes l < lc_changes l' \<or> l' = l"
    by (auto simp: Forget_def lc_notify_def split: if_splits prod.splits option.splits bool.splits)
  assume r: "retire c ops lt now lane (l, s) = ((l', s'), e)" and f: "\<forall>x. e = Some x \<longrightarrow> ClassOf x \<noteq> Fenced"
  obtain l1 s1 e1 where m: "lc_mutate c ops lt now lane (retire_record now) (l, s) = ((l1, s1), e1)" by (metis prod.exhaust)
  show "lc_changes l < lc_changes l' \<or> l' = l"
  proof (cases e1)
    case None
    then show ?thesis using r m mutate_changes [OF m] by (auto simp: retire_def unpend_def lc_notify_def)
  next
    case (Some x)
    then show ?thesis using r m f mutate_failed [OF m [unfolded Some]] by (auto simp: retire_def split: if_splits)
  qed
qed

text \<open>A source that reads the lane \<^verbatim>\<open>x\<close> of its table; the lane \<^verbatim>\<open>y\<close> is announced while it waits.\<close>

definition tx_codec :: lane_codec where
  "tx_codec = wx_codec\<lparr>lk_marshal := (\<lambda>_. Inr ''0'')\<rparr>"


definition tx_lane :: lane_id where "tx_lane = DeriveLaneID ''t'' ''p'' ''n'' ''y''"







text \<open>
  A name given twice in one announcement passes the test for a known lane twice: the lane is listed, and offered,
  twice. Forgetting it removes its record and one of the two entries of the list; the other one is left
  without a record, and the next call of \<^verbatim>\<open>Assigned\<close> dereferences nil.
\<close>

definition tx_twice :: "(lane_ctl \<times> ledger \<times> memstore) \<times> (err + lane_id list)" where
  "tx_twice = announceMany tx_codec memstore_ops WhenFullBlock wx_lt (replicate 2 (wx_spec\<lparr>sp_Name := ''y''\<rparr>)) (vx_table, New wx_cfg, mem_New)"

lemma lane_announced_twice_is_listed_twice:
  "snd tx_twice = Inr [tx_lane, tx_lane] \<and> map la_ID (Assigned wx_lt 5 (fst (fst tx_twice))) = [wx_lane, tx_lane, tx_lane] \<and>
   (let l = fst (fst (Forget memstore_ops wx_lt 5 tx_lane (fst (fst tx_twice), snd (snd (fst tx_twice)))))
    in lc_order l = [wx_lane, tx_lane] \<and> map fst (lc_lanes l) = [wx_lane])"
  by code_simp

section \<open>A lane claimed later\<close>









end
