(* ===== verification/Spec2Isabelle.thy ===== *)
theory Spec2Isabelle
  imports Canal_Keys Canal_TrackerSpec Canal_LedgerProps Canal_WriteProps Canal_WalProps Canal_CoordProps Canal_LeaseProps
    Canal_PipeProps Canal_LaneProps Canal_CommitProps Canal_Persist Canal_ConfigProps Canal_BuildProps Canal_ReadProps
    Canal_TrackerWait Canal_LedgerWire Canal_FanOut Canal_WatchProps
begin

text \<open>
  Verification of canal, a data-movement engine (\<^verbatim>\<open>github.com/BernardoCSACarreira/canal\<close>, Go). A pipeline reads
  records from sources, delivers them to sinks, and keeps a durable cursor per lane (a unit of a source that
  is read in order) so that a restart, or another worker, continues where everything before has been dealt
  with. This root theory holds the properties that span components; every other theory models one
  component, or proves what one component promises.

  \<^bold>\<open>The parts and how they work together.\<close>

  An operator submits a \<^verbatim>\<open>Spec\<close>: a graph of source, transform, buffer and sink nodes with policies. \<^verbatim>\<open>Build\<close>
  validates the graph against the registry of components, validates each node's settings, constructs and
  resolves the components, and negotiates the delivery tier each sink branch gets. A running pipeline reads
  batches, admits them to the settlement ledger, writes them to sinks, settles each record's outcome, and on
  every flush makes deferred writes durable, prepares and publishes commits, stages the cursors the ledger
  allows, and writes them with the checkpoint in one fenced batch to the state store. Leases of a
  coordinator decide which worker may do this for a lane; the lease's epoch fences the store.

  \<^bold>\<open>The theories.\<close>

  \<^item> \<open>Canal_Prelude\<close>: how Go values are represented, association lists, wrap-around of 32-bit counters, the
    collections of simplification rules the components share.
  \<^item> \<open>Canal_Record\<close>, \<open>Canal_Keys\<close>: \<^verbatim>\<open>pkg/record\<close> (envelope, positions, batches, id allocator) and the
    identity strings of \<^verbatim>\<open>pkg/record/ids.go\<close>, \<^verbatim>\<open>pkg/store/key.go\<close>, \<^verbatim>\<open>pkg/store/coordinator.go\<close>. Shown: the
    key rendering and the derived ids are injective.
  \<^item> \<open>Canal_Tracker\<close>, \<open>Canal_TrackerSpec\<close>, \<open>Canal_TrackerOrder\<close>, \<open>Canal_TrackerWait\<close>: \<^verbatim>\<open>internal/ledger/tracker.go\<close>.
    Shown: the tracker refines a specification that keeps the whole admission history; weight and counters are
    conserved; a parked admission is woken by whatever makes room for it or closes the tracker. The locale \<open>prefix_tracker\<close> is what the ledger relies on.
  \<^item> \<open>Canal_Ledger\<close>, \<open>Canal_LedgerInv\<close>, \<open>Canal_LedgerSafe\<close>, \<open>Canal_LedgerPub\<close>, \<open>Canal_LedgerAcks\<close>,
    \<open>Canal_LedgerProps\<close>, \<open>Canal_LedgerWire\<close>: \<^verbatim>\<open>internal/ledger/ledger.go\<close> and \<^verbatim>\<open>disposition.go\<close> as a state machine whose steps
    are the critical sections. Shown: the invariant tying lanes, groups and records together; no position is
    offered, recorded or acknowledged at or beyond an open group; settling every record closes a group; for a fenced
    lane no acknowledgement is built, and only those on their way when it was fenced are still sent.
  \<^item> \<open>Canal_Fault\<close>, \<open>Canal_Retry\<close>: \<^verbatim>\<open>pkg/fault\<close> and \<^verbatim>\<open>internal/engine/retry.go\<close>. Shown: when a fault may be
    retried, and how often.
  \<^item> \<open>Canal_Write\<close>, \<open>Canal_WriteAcct\<close>, \<open>Canal_WriteNode\<close>, \<open>Canal_WriteProps\<close>, \<open>Canal_FanOut\<close>:
    \<^verbatim>\<open>internal/engine/write.go\<close>, \<^verbatim>\<open>marked.go\<close>, \<^verbatim>\<open>durability.go\<close>, the request building and delivery of \<^verbatim>\<open>run.go\<close>. What
    a write may do for a sink is the locale \<open>sink_frame\<close>. Shown: each record is decided exactly once when a write
    succeeds and at most once when it fails; the retry loop ends; with several main sinks the first one's
    success closes the group of the batch.
  \<^item> \<open>Canal_Store\<close>, \<open>Canal_Memstore\<close>, \<open>Canal_WalFormat\<close>, \<open>Canal_Wal\<close>, \<open>Canal_WalInv\<close>, \<open>Canal_WalProps\<close>: the
    state-store contract of \<^verbatim>\<open>pkg/store\<close> as the locale \<open>state_store\<close>, its in-memory implementation
    (\<^verbatim>\<open>internal/example/memstore/store.go\<close>) and its write-ahead log (\<^verbatim>\<open>pkg/store/wal\<close>), both of which interpret
    it. Shown: frames round-trip, a batch within the frame bound is atomic across a crash at any byte, compaction forgets nothing,
    the two stores agree, a superseded writer stays refused after a restart.
  \<^item> \<open>Canal_Coordinator\<close>, \<open>Canal_CoordInv\<close>, \<open>Canal_CoordProps\<close>, \<open>Canal_Lease\<close>, \<open>Canal_LeaseProps\<close>: the
    coordinator of \<^verbatim>\<open>internal/example/memstore/coordinator.go\<close> and the worker's leases of
    \<^verbatim>\<open>internal/engine/lease.go\<close>, joined by the locale \<open>lease_authority\<close>. Shown: claims are numbered upwards and
    only the latest renews or is released with effect, a held lane is not given away early, gates are respected, a held lane is never
    fenced by its own worker.
  \<^item> \<open>Canal_LaneCtl\<close>, \<open>Canal_LaneProps\<close>, \<open>Canal_Persist\<close>: the lane table and the state handle of
    \<^verbatim>\<open>internal/engine/runtime.go\<close> and the persistence helper of \<^verbatim>\<open>pkg/connector/state.go\<close>. Shown: the sole
    holder's cursor writes land; what the helper committed survives a crash.
  \<^item> \<open>Canal_Commit\<close>, \<open>Canal_CommitAcct\<close>, \<open>Canal_CommitProps\<close>: two-phase commit, checkpoint and flush,
    \<^verbatim>\<open>internal/engine/commit.go\<close>, \<^verbatim>\<open>checkpoint.go\<close> and \<^verbatim>\<open>flushOnce\<close> of \<^verbatim>\<open>run.go\<close>. Shown: a flush loses no
    record, settlement waits for confirmation, the pending set stays well formed.
  \<^item> \<open>Canal_Durable\<close>, \<open>Canal_Pipe\<close>, \<open>Canal_PipeProps\<close>: ledger, lane tables, flushes and state store run
    together in any interleaving, over the locale \<open>lane_store\<close>. Shown: whoever loads the lane table next, after
    a crash or a takeover, starts no lane beyond a record that was not settled.
  \<^item> \<open>Canal_Config\<close>, \<open>Canal_ConfigProps\<close>: \<^verbatim>\<open>pkg/config\<close> (fields, lookups, coercions, predicates, validation,
    redaction, the stage-standard fields). Shown: a validated configuration is well typed; redaction hides the
    secrets it reaches.
  \<^item> \<open>Canal_Registry\<close>: \<^verbatim>\<open>pkg/registry\<close> and the capabilities of \<^verbatim>\<open>pkg/connector/caps.go\<close>. Shown: a registered
    sink is what it declares.
  \<^item> \<open>Canal_Spec\<close>, \<open>Canal_Graph\<close>, \<open>Canal_GraphProps\<close>: \<^verbatim>\<open>pkg/spec\<close> and \<^verbatim>\<open>internal/engine/graph.go\<close>. Shown: the
    cycle check ends and is exact, and an accepted graph has every node between a source and a sink.
  \<^item> \<open>Canal_Negotiate\<close>, \<open>Canal_NegotiateProps\<close>: \<^verbatim>\<open>internal/engine/negotiate.go\<close>. Shown: the tier of a branch is
    exactly what was asked for and earned, the headline is the weakest branch, waivers change only what they
    cover.
  \<^item> \<open>Canal_Build\<close>, \<open>Canal_BuildProps\<close>: \<^verbatim>\<open>internal/engine/build.go\<close> and the codec chains of \<^verbatim>\<open>codec.go\<close>. Shown:
    a refused build closes what it made; a built pipeline has exactly the sources and sinks of its graph, and
    nothing for its transforms and buffers, whose settings are checked and which are never run.
  \<^item> \<open>Canal_Control\<close>: the control surface of a source, \<^verbatim>\<open>internal/engine/control.go\<close> (heartbeats of quiet lanes,
    backlog polls, refused records). Shown: every lane is polled, and what a source refuses to take is kept.
  \<^item> \<open>Canal_Read\<close>, \<open>Canal_ReadProps\<close>, \<open>Canal_WatchProps\<close>: \<^verbatim>\<open>internal/engine/read.go\<close>, \<^verbatim>\<open>clock.go\<close> and the read loops of \<^verbatim>\<open>run.go\<close>; the
    wait for a new lane is a step relation beside the operations of the lane table. Shown: every record that is
    read is accounted for by every main sink, record ids of lanes are disjoint, the groups of a source cover its
    lanes, no announced lane is overlooked on a worker without a coordinator but for two failures that tell nobody,
    and one claimed later wakes nobody.

  \<^bold>\<open>Correspondence.\<close> A struct is a record whose selectors carry a short prefix and the Go field's name; an
  enumeration is a datatype with the constants' names; a method is a definition named after it. A mutex-guarded
  method is one step; where what follows the unlock matters, it is a step of its own (acknowledgements that are
  sent, a lane table that tells its watchers, an admission that waits). The clock, random draws and the answers of the operating system are arguments.
  Connectors (sources, sinks, codecs) and encodings to JSON are parameters, given as functions or records of
  functions; what is assumed of an encoding is that it reads back what it wrote. Stores and the coordinator are reached through records of operations where the engine reaches
  them through an interface, and the implementations in the repository are modelled in full.

  \<^bold>\<open>Bounds and fuel.\<close> The retry loop of the write path consumes a list of rounds and is \<open>None\<close> when the list ends
  before the loop does; against a sink without flow-control faults \<open>MaxAttempts\<close> rounds are shown to be
  enough. An admission likewise consumes the wake-ups of its wait, and the read loop a list of turns. The searches of the graph checks carry one more unit of depth than the graph has names, which is
  shown to be enough on every graph. Replaying and decoding a log recurse on the remaining bytes. All other
  recursion is structural or has a termination proof.

  \<^bold>\<open>Not modelled.\<close> Starting and joining the goroutines of a run, its channels and timers: the order in
  which they call the modelled operations is what the interleavings range over. Logs, metrics and status documents, which nothing in the
  data path reads. The directory lock and other system calls of the log; the PostgreSQL store, whose meaning
  is its database's. Structured values of a payload, a type parameter. TLS settings and the rendering of
  schemas and documentation. The command line. The example and stress connectors, which stand where the
  model has parameters.
\<close>

section \<open>Coordinator and store: the fence end to end\<close>





end
